(* ===== verification/Prelude.thy ===== *)
theory Prelude
  imports
    Main
    "HOL-Library.Word"
    "HOL-Library.List_Lexorder"
    "HOL-Library.Char_ord"
    "HOL-Library.Signed_Division"
    "HOL-Library.Product_Lexorder"
begin

text \<open>
  Generic material the component theories share: the collections of facts that carry the
  component proofs, arithmetic of powers of two, decimal numerals as Go's \<open>%d\<close> prints
  them, the stable insertion sort that models \<open>slices.SortFunc\<close> (Go sorts slices of up to
  twelve elements by exactly this insertion sort; for longer ones the order of elements
  that compare equal is not specified by Go), and the types used everywhere.

  Conventions. Go's \<open>int\<close> is modelled by \<open>int\<close> or, where it is never negative, by \<open>nat\<close>; a
  \<open>uint32\<close> is a \<open>32 word\<close>. Go strings are HOL strings and are ordered as
  \<open>strings.Compare\<close> orders them (lexicographically by byte). A \<open>time.Time\<close> is the number of
  nanoseconds since Go's zero time, so \<open>0\<close> is the zero time and \<open>t.IsZero()\<close> is \<open>t = 0\<close>; a
  \<open>time.Duration\<close> is a number of nanoseconds.
\<close>

unbundle bit_operations_syntax

named_theorems buddy_simps "unfolding rules for the block tree and its allocator"
named_theorems plan_simps "unfolding rules for the planner"

type_synonym addr = "32 word"
type_synonym go_time = int
type_synonym duration = int

definition second :: duration where
  "second = 1000000000"

subsection \<open>Powers of two and blocks of numbers\<close>

lemma dvd_add_le_pow:
  fixes b :: nat
  assumes "2 ^ k dvd b" "b < 2 ^ n" "k \<le> n"
  shows "b + 2 ^ k \<le> 2 ^ n"
proof -
  obtain q where q: "b = 2 ^ k * q" using assms(1) by (auto simp: dvd_def)
  have "(2::nat) ^ n = 2 ^ k * 2 ^ (n - k)" using assms(3) by (simp flip: power_add)
  then have "q < 2 ^ (n - k)" using assms(2) q by simp
  then have "2 ^ k * (q + 1) \<le> 2 ^ k * 2 ^ (n - k)" by (intro mult_le_mono2) simp
  then show ?thesis using q \<open>2 ^ n = 2 ^ k * 2 ^ (n - k)\<close> by (simp add: algebra_simps)
qed

lemma div_eq_iff_in_block:
  fixes b x :: nat
  assumes "2 ^ k dvd b"
  shows "x div 2 ^ k = b div 2 ^ k \<longleftrightarrow> b \<le> x \<and> x < b + 2 ^ k"
proof -
  obtain q where q: "b = 2 ^ k * q" using assms by (auto simp: dvd_def)
  then have "b div 2 ^ k = q" by simp
  moreover have "x div 2 ^ k = q \<longleftrightarrow> 2 ^ k * q \<le> x \<and> x < 2 ^ k * q + 2 ^ k"
    by (metis add.commute div_nat_eqI dividend_less_div_times mult.commute mult_Suc_right
          times_div_less_eq_dividend zero_less_numeral zero_less_power)
  ultimately show ?thesis using q by simp
qed

subsection \<open>Decimal numerals\<close>

definition digit :: "nat \<Rightarrow> char" where
  "digit d = char_of (48 + d)"

fun dec :: "nat \<Rightarrow> string" where
  "dec n = (if n < 10 then [digit n] else dec (n div 10) @ [digit (n mod 10)])"

declare dec.simps [simp del]

definition digit_val :: "char \<Rightarrow> nat option" where
  "digit_val c = (let k = of_char c :: nat in if 48 \<le> k \<and> k \<le> 57 then Some (k - 48) else None)"

fun num_of :: "nat \<Rightarrow> string \<Rightarrow> nat option" where
  "num_of acc [] = Some acc"
| "num_of acc (c # cs) =
     (case digit_val c of None \<Rightarrow> None | Some d \<Rightarrow> num_of (acc * 10 + d) cs)"

lemma digit_val_digit [simp]: "d < 10 \<Longrightarrow> digit_val (digit d) = Some d"
  by (simp add: digit_val_def digit_def)

lemma digit_inj: "d < 10 \<Longrightarrow> e < 10 \<Longrightarrow> digit d = digit e \<longleftrightarrow> d = e"
  by (metis digit_val_digit option.inject)

lemma num_of_append:
  "num_of acc (xs @ ys) = (case num_of acc xs of None \<Rightarrow> None | Some a \<Rightarrow> num_of a ys)"
  by (induction xs arbitrary: acc) (auto split: option.splits)

lemma num_of_dec [simp]: "num_of 0 (dec n) = Some n"
proof (induction n rule: dec.induct)
  case (1 n)
  show ?case
  proof (cases "n < 10")
    case True then show ?thesis by (simp add: dec.simps[of n])
  next
    case False
    with 1 show ?thesis by (simp add: dec.simps[of n] num_of_append)
  qed
qed

lemma dec_not_Nil [simp]: "dec n \<noteq> []"
  by (subst dec.simps) simp

lemma set_dec: "c \<in> set (dec n) \<Longrightarrow> digit_val c \<noteq> None"
proof (induction n rule: dec.induct)
  case (1 n)
  then show ?case
    by (cases "n < 10") (auto simp: dec.simps[of n])
qed

lemma hd_dec_zero: "hd (dec n) = digit 0 \<longleftrightarrow> n = 0"
proof (induction n rule: dec.induct)
  case (1 n)
  show ?case
  proof (cases "n < 10")
    case True then show ?thesis by (auto simp: dec.simps[of n] digit_inj)
  next
    case False
    with 1 show ?thesis by (simp add: dec.simps[of n])
  qed
qed

lemma dec_single: "n < 10 \<Longrightarrow> dec n = [digit n]"
  by (subst dec.simps) simp

subsection \<open>Splitting a string at a separator\<close>

fun split_on :: "char \<Rightarrow> string \<Rightarrow> string list" where
  "split_on c [] = [[]]"
| "split_on c (x # xs) =
     (if x = c then [] # split_on c xs
      else (case split_on c xs of [] \<Rightarrow> [[x]] | y # ys \<Rightarrow> (x # y) # ys))"

lemma split_on_no_sep: "c \<notin> set xs \<Longrightarrow> split_on c xs = [xs]"
  by (induction xs) auto

lemma split_on_sep: "c \<notin> set xs \<Longrightarrow> split_on c (xs @ c # ys) = xs # split_on c ys"
  by (induction xs) auto

subsection \<open>Sorting a slice with a comparison function\<close>

text \<open>\<open>lt x y\<close> is \<open>cmp(x, y) < 0\<close>. An element moves left past every element greater than it.\<close>

fun insert_by :: "('a \<Rightarrow> 'a \<Rightarrow> bool) \<Rightarrow> 'a \<Rightarrow> 'a list \<Rightarrow> 'a list" where
  "insert_by lt x [] = [x]"
| "insert_by lt x (y # ys) = (if lt y x then y # insert_by lt x ys else x # y # ys)"

definition sort_by :: "('a \<Rightarrow> 'a \<Rightarrow> bool) \<Rightarrow> 'a list \<Rightarrow> 'a list" where
  "sort_by lt xs = foldr (insert_by lt) xs []"

lemma set_insert_by [simp]: "set (insert_by lt x ys) = insert x (set ys)"
  by (induction ys) auto

lemma length_insert_by [simp]: "length (insert_by lt x ys) = Suc (length ys)"
  by (induction ys) auto

lemma sort_by_Nil [simp]: "sort_by lt [] = []"
  by (simp add: sort_by_def)

lemma sort_by_Cons: "sort_by lt (x # xs) = insert_by lt x (sort_by lt xs)"
  by (simp add: sort_by_def)

lemma set_sort_by [simp]: "set (sort_by lt xs) = set xs"
  by (induction xs) (auto simp: sort_by_Cons)

lemma length_sort_by [simp]: "length (sort_by lt xs) = length xs"
  by (induction xs) (auto simp: sort_by_Cons)

lemma distinct_insert_by [simp]: "distinct (insert_by lt x ys) \<longleftrightarrow> x \<notin> set ys \<and> distinct ys"
  by (induction ys) auto

lemma distinct_sort_by [simp]: "distinct (sort_by lt xs) = distinct xs"
  by (induction xs) (auto simp: sort_by_Cons)

lemma insert_by_insort: "insert_by (<) x ys = insort x ys" for x :: "'a::linorder"
  by (induction ys) auto

text \<open>For a linear order the sort is the library's \<open>sort\<close>.\<close>

lemma sort_by_less: "sort_by (<) xs = sort xs" for xs :: "'a::linorder list"
  by (induction xs) (simp_all add: sort_by_Cons insert_by_insort)

text \<open>For a weak order the result is sorted, and \<open>find\<close> on it gives a least element with the property.\<close>

lemma sorted_insert_by:
  assumes tr: "\<And>x y z. \<not> lt y x \<Longrightarrow> \<not> lt z y \<Longrightarrow> \<not> lt z x" and as: "\<And>x y. lt x y \<Longrightarrow> \<not> lt y x"
    and s: "sorted_wrt (\<lambda>x y. \<not> lt y x) ys"
  shows "sorted_wrt (\<lambda>x y. \<not> lt y x) (insert_by lt x ys)"
  using s
proof (induction ys)
  case (Cons y ys)
  show ?case
  proof (cases "lt y x")
    case True
    then show ?thesis using Cons as by auto
  next
    case False
    then show ?thesis using Cons.prems tr[of y x] by auto
  qed
qed simp

lemma sorted_sort_by:
  assumes "\<And>x y z. \<not> lt y x \<Longrightarrow> \<not> lt z y \<Longrightarrow> \<not> lt z x" "\<And>x y. lt x y \<Longrightarrow> \<not> lt y x"
  shows "sorted_wrt (\<lambda>x y. \<not> lt y x) (sort_by lt xs)"
proof (induction xs)
  case (Cons x xs)
  then show ?case using sorted_insert_by[of lt, OF assms] by (simp add: sort_by_Cons)
qed simp

lemma find_SomeD: "find P xs = Some c \<Longrightarrow> c \<in> set xs \<and> P c"
  by (induction xs) (auto split: if_splits)

lemma find_sort_least:
  assumes f: "find P (sort_by lt xs) = Some c"
    and tr: "\<And>x y z. \<not> lt y x \<Longrightarrow> \<not> lt z y \<Longrightarrow> \<not> lt z x" and as: "\<And>x y. lt x y \<Longrightarrow> \<not> lt y x"
  shows "c \<in> set xs \<and> P c \<and> (\<forall>y \<in> set xs. P y \<longrightarrow> \<not> lt y c)"
proof -
  have *: "find P ys = Some c \<Longrightarrow> sorted_wrt (\<lambda>x y. \<not> lt y x) ys \<Longrightarrow> \<forall>y \<in> set ys. P y \<longrightarrow> \<not> lt y c" for ys
    using as by (induction ys) (auto split: if_splits)
  show ?thesis using *[OF f sorted_sort_by[of lt, OF tr as]] find_SomeD[OF f] by simp
qed

lemma foldl_invariant:
  assumes "\<And>b x. P b \<Longrightarrow> x \<in> set xs \<Longrightarrow> P (f b x)" "P b"
  shows "P (foldl f b xs)"
  using assms by (induction xs arbitrary: b) auto

end
