(* ===== verification/Net_Addr.thy ===== *)
theory Net_Addr
  imports Prelude
begin

text \<open>
  The part of Go's package \<open>net\<close> the operator uses, for IPv4: a \<open>net.IP\<close> is kept as its
  32-bit value, a \<open>net.IPNet\<close> as its (masked) address and mask length, and
  \<open>ParseCIDR\<close>, \<open>ParseIP\<close>, \<open>IPNet.Contains\<close> and \<open>IPNet.String\<close> are functions on them.
  IPv6 text is outside the model: \<open>parse_cidr\<close> and \<open>parse_ip\<close> give \<open>None\<close> for it.
\<close>

section \<open>Addresses as words and as bytes\<close>

text \<open>\<open>ipToUint32\<close> and \<open>uint32ToIP\<close> of buddy/allocator.go, on the four bytes of \<open>ip.To4()\<close>.\<close>

fun ipToUint32 :: "8 word list \<Rightarrow> addr" where
  "ipToUint32 [v0, v1, v2, v3] =
     push_bit 24 (ucast v0) OR push_bit 16 (ucast v1) OR push_bit 8 (ucast v2) OR ucast v3"
| "ipToUint32 _ = 0"

definition uint32ToIP :: "addr \<Rightarrow> 8 word list" where
  "uint32ToIP v = [ucast (drop_bit 24 v), ucast (drop_bit 16 v), ucast (drop_bit 8 v), ucast v]"

lemma ipToUint32_uint32ToIP: "ipToUint32 (uint32ToIP v) = v"
proof (rule bit_word_eqI)
  fix n assume "n < LENGTH(32)"
  then have n: "n < 32" by simp
  then show "bit (ipToUint32 (uint32ToIP v)) n = bit v n"
    unfolding uint32ToIP_def ipToUint32.simps
    by (cases "n < 8"; cases "n < 16"; cases "n < 24") (auto simp: bit_simps)
qed

section \<open>Networks\<close>

record ipnet =
  net_ip :: addr
  net_ones :: nat

text \<open>\<open>net.CIDRMask(ones, 32)\<close> and \<open>IPNet.Contains\<close>.\<close>

definition cidr_mask :: "nat \<Rightarrow> addr" where
  "cidr_mask ones = push_bit (32 - ones) (- 1)"

definition net_contains :: "ipnet \<Rightarrow> addr \<Rightarrow> bool" where
  "net_contains n ip \<longleftrightarrow> net_ip n AND cidr_mask (net_ones n) = ip AND cidr_mask (net_ones n)"

lemma unat_drop_bit: "unat (drop_bit k (x :: 'a::len word)) = unat x div 2 ^ k"
  by (metis drop_bit_eq_div unsigned_drop_bit_eq take_bit_word_eq_self unat_drop_bit_eq)

lemma drop_bit_eq_iff_div:
  "drop_bit k (x :: addr) = drop_bit k y \<longleftrightarrow> unat x div 2 ^ k = unat y div 2 ^ k"
  by (simp only: word_unat_eq_iff unat_drop_bit)

lemma and_cidr_mask: "x AND cidr_mask n = push_bit (32 - n) (drop_bit (32 - n) x)"
  unfolding cidr_mask_def by (auto simp: bit_eq_iff bit_simps)

lemma unat_and_cidr_mask: "unat (x AND cidr_mask n) = unat x div 2 ^ (32 - n) * 2 ^ (32 - n)"
proof -
  have "unat x div 2 ^ (32 - n) * 2 ^ (32 - n) \<le> unat x" by simp
  moreover have "unat x < 2 ^ 32" using unsigned_less[of x] by simp
  ultimately have "unat x div 2 ^ (32 - n) * 2 ^ (32 - n) < 2 ^ 32" by linarith
  then show ?thesis
    by (simp add: and_cidr_mask unsigned_push_bit_eq unat_drop_bit push_bit_nat_def take_bit_nat_def)
qed

lemma and_cidr_mask_eq_iff:
  "x AND cidr_mask n = y AND cidr_mask n \<longleftrightarrow> unat x div 2 ^ (32 - n) = unat y div 2 ^ (32 - n)"
  by (simp add: word_unat_eq_iff unat_and_cidr_mask)

lemma and_cidr_mask_id: "2 ^ (32 - n) dvd unat b \<Longrightarrow> b AND cidr_mask n = b"
  by (simp add: word_unat_eq_iff unat_and_cidr_mask)

lemma and_cidr_mask_dvd: "2 ^ (32 - n) dvd unat (b AND cidr_mask n)"
  by (simp add: unat_and_cidr_mask)

lemma net_contains_iff:
  assumes "2 ^ (32 - n) dvd unat b"
  shows "net_contains \<lparr>net_ip = b, net_ones = n\<rparr> x \<longleftrightarrow> unat b \<le> unat x \<and> unat x < unat b + 2 ^ (32 - n)"
  using div_eq_iff_in_block[OF assms, of "unat x"]
  by (auto simp: net_contains_def and_cidr_mask_eq_iff)

section \<open>Text\<close>

text \<open>\<open>IP.String\<close> of an IPv4 address, and \<open>IPNet.String\<close>.\<close>

definition ip_string :: "addr \<Rightarrow> string" where
  "ip_string v = (case uint32ToIP v of
      [a, b, c, d] \<Rightarrow> dec (unat a) @ ''.'' @ dec (unat b) @ ''.'' @ dec (unat c) @ ''.'' @ dec (unat d)
    | _ \<Rightarrow> [])"

definition cidr_string :: "addr \<Rightarrow> nat \<Rightarrow> string" where
  "cidr_string b n = ip_string b @ ''/'' @ dec n"

text \<open>
  \<open>netip.ParseAddr\<close> on dotted decimal text: four fields, each one to three digits, at most
  255, and without a leading zero. \<open>net.ParseCIDR\<close> cuts the text at the first slash; the
  mask is a decimal number (leading zeros are accepted) of at most 32.
\<close>

definition parse_octet :: "string \<Rightarrow> (8 word) option" where
  "parse_octet s =
     (if s = [] \<or> (1 < length s \<and> hd s = CHR ''0'') then None
      else case num_of 0 s of
        None \<Rightarrow> None
      | Some v \<Rightarrow> if v \<le> 255 then Some (of_nat v) else None)"

definition parse_ip :: "string \<Rightarrow> addr option" where
  "parse_ip s = (case map parse_octet (split_on CHR ''.'' s) of
      [Some a, Some b, Some c, Some d] \<Rightarrow> Some (ipToUint32 [a, b, c, d])
    | _ \<Rightarrow> None)"

definition parse_mask :: "string \<Rightarrow> nat option" where
  "parse_mask s = (if s = [] then None else case num_of 0 s of
      None \<Rightarrow> None
    | Some n \<Rightarrow> if n \<le> 32 then Some n else None)"

definition parse_cidr :: "string \<Rightarrow> (addr \<times> ipnet) option" where
  "parse_cidr s =
     (let a = takeWhile (\<lambda>c. c \<noteq> CHR ''/'') s; rest = dropWhile (\<lambda>c. c \<noteq> CHR ''/'') s
      in case rest of
           [] \<Rightarrow> None
         | _ # m \<Rightarrow>
           (case (parse_ip a, parse_mask m) of
              (Some ip, Some n) \<Rightarrow> Some (ip, \<lparr>net_ip = ip AND cidr_mask n, net_ones = n\<rparr>)
            | _ \<Rightarrow> None))"

lemma digit_zero: "digit 0 = CHR ''0''"
  by code_simp

lemma sep_not_in_dec [simp]: "CHR ''.'' \<notin> set (dec n)" "CHR ''/'' \<notin> set (dec n)"
  using set_dec[of "CHR ''.''" n] set_dec[of "CHR ''/''" n] by (auto simp: digit_val_def)

lemma parse_octet_dec: "n \<le> 255 \<Longrightarrow> parse_octet (dec n) = Some (of_nat n)"
proof -
  assume n: "n \<le> 255"
  have "\<not> (1 < length (dec n) \<and> hd (dec n) = CHR ''0'')"
    using hd_dec_zero[of n] dec_single[of 0] by (auto simp: digit_zero)
  with n show ?thesis by (simp add: parse_octet_def)
qed

lemma parse_octet_dec_word: "parse_octet (dec (unat (w :: 8 word))) = Some w"
  using unsigned_less[of w, where ?'a=nat] by (subst parse_octet_dec) simp_all

lemma parse_ip_string [simp]: "parse_ip (ip_string v) = Some v"
proof -
  obtain a b c d where abcd: "uint32ToIP v = [a, b, c, d]" by (auto simp: uint32ToIP_def)
  have "split_on CHR ''.'' (ip_string v) = [dec (unat a), dec (unat b), dec (unat c), dec (unat d)]"
    by (simp add: ip_string_def abcd split_on_sep split_on_no_sep)
  then have "parse_ip (ip_string v) = Some (ipToUint32 [a, b, c, d])"
    by (simp add: parse_ip_def parse_octet_dec_word del: ipToUint32.simps)
  then show ?thesis using ipToUint32_uint32ToIP[of v] by (simp only: abcd)
qed

lemma slash_not_in_ip_string: "CHR ''/'' \<notin> set (ip_string v)"
  by (simp add: ip_string_def uint32ToIP_def)

lemma parse_cidr_string:
  assumes "n \<le> 32"
  shows "parse_cidr (cidr_string b n) = Some (b, \<lparr>net_ip = b AND cidr_mask n, net_ones = n\<rparr>)"
proof -
  have ns: "\<And>c. c \<in> set (ip_string b) \<Longrightarrow> c \<noteq> CHR ''/''"
    using slash_not_in_ip_string[of b] by blast
  have tk: "takeWhile (\<lambda>c. c \<noteq> CHR ''/'') (cidr_string b n) = ip_string b"
    by (simp add: cidr_string_def takeWhile_append2 ns)
  have dr: "dropWhile (\<lambda>c. c \<noteq> CHR ''/'') (cidr_string b n) = CHR ''/'' # dec n"
    by (simp add: cidr_string_def dropWhile_append2 ns)
  have "parse_mask (dec n) = Some n" using assms by (simp add: parse_mask_def)
  then show ?thesis by (simp add: parse_cidr_def Let_def tk dr)
qed

lemma cidr_string_inj:
  assumes "n \<le> 32" "m \<le> 32" "cidr_string b n = cidr_string c m"
  shows "b = c \<and> n = m"
proof -
  have "Some (b, \<lparr>net_ip = b AND cidr_mask n, net_ones = n\<rparr>) = parse_cidr (cidr_string b n)"
    by (simp only: parse_cidr_string[OF assms(1)])
  also have "\<dots> = parse_cidr (cidr_string c m)" by (simp only: assms(3))
  also have "\<dots> = Some (c, \<lparr>net_ip = c AND cidr_mask m, net_ones = m\<rparr>)"
    by (simp only: parse_cidr_string[OF assms(2)])
  finally show ?thesis by simp
qed

lemma parse_cidr_bounds:
  assumes "parse_cidr s = Some (ip, n)"
  shows "net_ones n \<le> 32" "net_ip n = ip AND cidr_mask (net_ones n)"
    "2 ^ (32 - net_ones n) dvd unat (net_ip n)"
  using assms by (auto simp: parse_cidr_def parse_mask_def Let_def and_cidr_mask_dvd
      split: list.splits option.splits if_splits)

lemma digit_eval:
  "digit 0 = CHR ''0''" "digit 1 = CHR ''1''" "digit (Suc 0) = CHR ''1''" "digit 2 = CHR ''2''"
  "digit 3 = CHR ''3''" "digit 4 = CHR ''4''" "digit 5 = CHR ''5''" "digit 6 = CHR ''6''"
  "digit 7 = CHR ''7''" "digit 8 = CHR ''8''" "digit 9 = CHR ''9''"
  by code_simp+

end
