(* ===== verification/Block_Tree.thy ===== *)
theory Block_Tree
  imports Net_Addr
begin

text \<open>
  The block tree of ipam/buddy/allocator.go. A Go \<open>Block\<close> is a node of a binary tree with a base
  address, a prefix length and a state; here the state is the constructor, and each constructor
  keeps the fields that are meaningful in that state (\<open>NodeName\<close> of an allocated block, \<open>releaseAt\<close>
  of a quarantined one, \<open>Left\<close> and \<open>Right\<close> of a split one). \<open>Parent\<close>, \<open>CIDR\<close> and \<open>Network\<close> are
  determined by the position in the tree and are computed where the code reads them. A pointer to a
  block is the block's base and prefix length (\<open>bref\<close>), which is unique in a well-formed tree.

  The lemmas give the geometry of aligned blocks (halves, nesting, disjointness), navigation by
  address (\<open>walk\<close>), replacement of a node (\<open>upd_at\<close>), and the facts on leaves every allocator proof
  rests on: the leaves of a well-formed tree partition its address range, and a tree without a
  free buddy pair is determined by its root and its held leaves (\<open>canonical\<close>).
\<close>

datatype btree =
    BlockFree (blk_base: addr) (blk_plen: nat)
  | BlockAllocated (blk_base: addr) (blk_plen: nat) (blk_node: string)
  | BlockSplit (blk_base: addr) (blk_plen: nat) (blk_left: btree) (blk_right: btree)
  | BlockQuarantined (blk_base: addr) (blk_plen: nat) (blk_release_at: go_time)

type_synonym bref = "addr \<times> nat"

abbreviation ref_of :: "btree \<Rightarrow> bref" where
  "ref_of t \<equiv> (blk_base t, blk_plen t)"

definition addresses :: "nat \<Rightarrow> nat" where
  "addresses n = 2 ^ (32 - n)"

definition half_of :: "nat \<Rightarrow> addr" where
  "half_of n = push_bit (31 - n) 1"

definition block_ok :: "addr \<Rightarrow> nat \<Rightarrow> bool" where
  "block_ok b n \<longleftrightarrow> n \<le> 32 \<and> addresses n dvd unat b"

definition span :: "addr \<Rightarrow> nat \<Rightarrow> nat set" where
  "span b n = {unat b ..< unat b + addresses n}"

abbreviation tspan :: "btree \<Rightarrow> nat set" where
  "tspan t \<equiv> span (blk_base t) (blk_plen t)"

lemma addresses_pos [simp]: "0 < addresses n"
  by (simp add: addresses_def)

lemma addresses_nz [simp]: "addresses n \<noteq> 0"
  by (simp add: addresses_def)

lemma addresses_Suc: "n < 32 \<Longrightarrow> addresses n = 2 * addresses (Suc n)"
  by (simp add: addresses_def Suc_diff_Suc flip: power_Suc)

lemma addresses_mono: "m \<le> n \<Longrightarrow> addresses n \<le> addresses m"
  by (simp add: addresses_def)

lemma unat_half_of: "n < 32 \<Longrightarrow> unat (half_of n) = addresses (Suc n)"
proof -
  assume n: "n < 32"
  have "(2::nat) ^ (31 - n) < 2 ^ 32" by (rule power_strict_increasing) simp_all
  then show ?thesis using n
    by (simp add: half_of_def addresses_def unsigned_push_bit_eq push_bit_nat_def take_bit_nat_def
          del: push_bit_of_1)
qed

lemma base_in_span [simp]: "unat b \<in> span b n"
  by (simp add: span_def)

lemma block_ok_end: "block_ok b n \<Longrightarrow> unat b + addresses n \<le> 2 ^ 32"
  using dvd_add_le_pow[of "32 - n" "unat b" 32] unsigned_less[of b, where ?'a = nat]
  by (simp add: block_ok_def addresses_def)

lemma block_ok_halves:
  assumes "block_ok b n" "n < 32"
  shows "block_ok b (Suc n)" "block_ok (b + half_of n) (Suc n)"
    "unat (b + half_of n) = unat b + addresses (Suc n)"
proof -
  have d: "addresses (Suc n) dvd unat b"
    using assms by (auto simp: block_ok_def addresses_Suc)
  have "unat b + addresses (Suc n) < 2 ^ 32"
    using block_ok_end[OF assms(1)] assms(2) addresses_pos[of "Suc n"]
    unfolding addresses_Suc[OF assms(2)] by linarith
  then show u: "unat (b + half_of n) = unat b + addresses (Suc n)"
    using assms(2) by (subst unat_add_lem[THEN iffD1]) (simp_all add: unat_half_of)
  show "block_ok b (Suc n)" using d assms(2) by (simp add: block_ok_def)
  show "block_ok (b + half_of n) (Suc n)" using d assms(2) by (simp add: block_ok_def u)
qed

lemma span_halves:
  assumes "block_ok b n" "n < 32"
  shows "span b n = span b (Suc n) \<union> span (b + half_of n) (Suc n)"
    "span b (Suc n) \<inter> span (b + half_of n) (Suc n) = {}"
  using assms by (auto simp: span_def block_ok_halves(3) addresses_Suc)

text \<open>Two aligned blocks are nested or disjoint.\<close>

lemma aligned_nested:
  assumes "block_ok b n" "block_ok c m" "m \<le> n" "span b n \<inter> span c m \<noteq> {}"
  shows "span b n \<subseteq> span c m"
proof -
  obtain x where "x \<in> span b n" "x \<in> span c m" using assms(4) by blast
  then have x: "unat b \<le> x" "x < unat b + addresses n" "unat c \<le> x" "x < unat c + addresses m"
    by (simp_all add: span_def)
  have "addresses m = addresses n * 2 ^ (n - m)"
    using assms by (simp add: addresses_def block_ok_def flip: power_add)
  then have d: "addresses n dvd addresses m" "addresses n dvd unat c" "addresses n dvd unat b"
    using assms(1,2) by (auto simp: block_ok_def elim: dvd_trans[rotated])
  obtain i j k where ijk: "unat b = addresses n * i" "unat c = addresses n * j" "addresses m = addresses n * k"
    using d by (auto simp: dvd_def)
  have "addresses n * j < addresses n * (i + 1)" using x ijk by (simp add: algebra_simps)
  then have "j < i + 1" by (metis mult_less_cancel1)
  moreover have "addresses n * i < addresses n * (j + k)" using x ijk by (simp add: algebra_simps)
  then have "i < j + k" by (metis mult_less_cancel1)
  ultimately have "j \<le> i" "i + 1 \<le> j + k" by simp_all
  then have "addresses n * j \<le> addresses n * i" "addresses n * (i + 1) \<le> addresses n * (j + k)"
    by (simp_all only: mult_le_mono2)
  then have "unat c \<le> unat b" "unat b + addresses n \<le> unat c + addresses m"
    using ijk by (simp_all add: algebra_simps)
  then show ?thesis by (auto simp: span_def)
qed

lemma aligned_within:
  "block_ok b n \<Longrightarrow> block_ok c m \<Longrightarrow> m \<le> n \<Longrightarrow> unat b \<in> span c m \<Longrightarrow> span b n \<subseteq> span c m"
  using aligned_nested[of b n c m] base_in_span[of b n] by blast

text \<open>Well-formedness: every node is aligned to its size and the children of a split are its halves.\<close>

fun wf_tree :: "btree \<Rightarrow> bool" where
  "wf_tree (BlockSplit b n l r) \<longleftrightarrow>
     block_ok b n \<and> n < 32 \<and>
     blk_base l = b \<and> blk_plen l = Suc n \<and> wf_tree l \<and>
     blk_base r = b + half_of n \<and> blk_plen r = Suc n \<and> wf_tree r"
| "wf_tree t \<longleftrightarrow> block_ok (blk_base t) (blk_plen t)"

lemma wf_block_ok: "wf_tree t \<Longrightarrow> block_ok (blk_base t) (blk_plen t)"
  by (cases t) auto

text \<open>
  The walk of \<open>Reserve\<close> and \<open>Find\<close> (with \<open>childFor\<close>): descend towards an address while the block is
  split and larger than wanted. \<open>upd_at\<close> replaces the node the walk reaches.
\<close>

fun walk :: "btree \<Rightarrow> addr \<Rightarrow> nat \<Rightarrow> btree" where
  "walk (BlockSplit b n l r) x p =
     (if n < p then (if blk_base r \<le> x then walk r x p else walk l x p) else BlockSplit b n l r)"
| "walk t x p = t"

fun upd_at :: "btree \<Rightarrow> addr \<Rightarrow> nat \<Rightarrow> (btree \<Rightarrow> btree) \<Rightarrow> btree" where
  "upd_at (BlockSplit b n l r) x p f =
     (if n < p then
        (if blk_base r \<le> x then BlockSplit b n l (upd_at r x p f)
         else BlockSplit b n (upd_at l x p f) r)
      else f (BlockSplit b n l r))"
| "upd_at t x p f = f t"

fun leaves :: "btree \<Rightarrow> btree list" where
  "leaves (BlockSplit b n l r) = leaves l @ leaves r"
| "leaves t = [t]"

fun nodes :: "btree \<Rightarrow> btree set" where
  "nodes (BlockSplit b n l r) = insert (BlockSplit b n l r) (nodes l \<union> nodes r)"
| "nodes t = {t}"

lemma node_self [simp]: "t \<in> nodes t"
  by (cases t) auto

lemma leaf_node: "s \<in> set (leaves t) \<Longrightarrow> s \<in> nodes t \<and> \<not> is_BlockSplit s"
  by (induction t) auto

lemma walk_in_nodes: "walk t x p \<in> nodes t"
  by (induction t) auto

lemma wf_split_spans:
  assumes "wf_tree (BlockSplit b n l r)"
  shows "span b n = tspan l \<union> tspan r" "tspan l \<inter> tspan r = {}"
    "unat (blk_base r) = unat b + addresses (Suc n)"
  using assms span_halves[of b n] block_ok_halves(3)[of b n] by auto

lemma wf_nodes:
  "wf_tree t \<Longrightarrow> s \<in> nodes t \<Longrightarrow> wf_tree s \<and> tspan s \<subseteq> tspan t \<and> blk_plen t \<le> blk_plen s"
proof (induction t)
  case (BlockSplit b n l r)
  show ?case
  proof (cases "s = BlockSplit b n l r")
    case True then show ?thesis using BlockSplit.prems by simp
  next
    case False
    then have "s \<in> nodes l \<or> s \<in> nodes r" using BlockSplit.prems by auto
    then show ?thesis
      using BlockSplit wf_split_spans[OF BlockSplit.prems(1)] by fastforce
  qed
qed auto

lemma walk_node: "wf_tree t \<Longrightarrow> s \<in> nodes t \<Longrightarrow> walk t (blk_base s) (blk_plen s) = s"
proof (induction t)
  case (BlockSplit b n l r)
  note sp = wf_split_spans[OF BlockSplit.prems(1)]
  have wf: "wf_tree l" "wf_tree r" "blk_plen l = Suc n" "blk_plen r = Suc n" 
     "blk_base l = b"
    using BlockSplit.prems by auto
  consider "s = BlockSplit b n l r" | "s \<in> nodes l" | "s \<in> nodes r" using BlockSplit.prems by auto
  then show ?case
  proof cases
    case 2
    have "tspan s \<subseteq> tspan l" "Suc n \<le> blk_plen s" using wf_nodes[OF wf(1) 2] wf by auto
    then have "\<not> blk_base r \<le> blk_base s"
      using subsetD[OF \<open>tspan s \<subseteq> tspan l\<close> base_in_span] sp(3) wf
      by (simp add: span_def word_le_nat_alt)
    with BlockSplit.IH(1)[OF wf(1) 2] \<open>Suc n \<le> blk_plen s\<close> show ?thesis by simp
  next
    case 3
    have "tspan s \<subseteq> tspan r" "Suc n \<le> blk_plen s" using wf_nodes[OF wf(2) 3] wf by auto
    then have "blk_base r \<le> blk_base s"
      using subsetD[OF \<open>tspan s \<subseteq> tspan r\<close> base_in_span]
      by (simp add: span_def word_le_nat_alt)
    with BlockSplit.IH(2)[OF wf(2) 3] \<open>Suc n \<le> blk_plen s\<close> show ?thesis by simp
  qed simp
qed auto

lemma leaves_upd_at:
  "\<exists>as bs. leaves t = as @ leaves (walk t x p) @ bs \<and> (\<forall>f. leaves (upd_at t x p f) = as @ leaves (f (walk t x p)) @ bs)"
proof (induction t)
  case (BlockSplit b n l r)
  obtain as bs where l: "leaves l = as @ leaves (walk l x p) @ bs"
    "\<And>f. leaves (upd_at l x p f) = as @ leaves (f (walk l x p)) @ bs" using BlockSplit.IH(1) by auto
  obtain cs ds where r: "leaves r = cs @ leaves (walk r x p) @ ds"
    "\<And>f. leaves (upd_at r x p f) = cs @ leaves (f (walk r x p)) @ ds" using BlockSplit.IH(2) by auto
  show ?case
  proof (cases "n < p")
    case False then show ?thesis by (intro exI[of _ "[]"]) simp
  next
    case True
    show ?thesis
    proof (cases "blk_base r \<le> x")
      case True
      have "leaves (BlockSplit b n l r) = (leaves l @ cs) @ leaves (walk r x p) @ ds" using r by simp
      moreover have "\<forall>f. leaves (upd_at (BlockSplit b n l r) x p f) = (leaves l @ cs) @ leaves (f (walk r x p)) @ ds"
        using r True \<open>n < p\<close> by simp
      ultimately show ?thesis using True \<open>n < p\<close> by (metis walk.simps(1))
    next
      case False
      have "leaves (BlockSplit b n l r) = as @ leaves (walk l x p) @ (bs @ leaves r)" using l by simp
      moreover have "\<forall>f. leaves (upd_at (BlockSplit b n l r) x p f) = as @ leaves (f (walk l x p)) @ (bs @ leaves r)"
        using l False \<open>n < p\<close> by simp
      ultimately show ?thesis using False \<open>n < p\<close> by (metis walk.simps(1))
    qed
  qed
qed (auto intro: exI[of _ "[]"])

lemma wf_upd_at:
  assumes "wf_tree t" "wf_tree (f (walk t x p))" "ref_of (f (walk t x p)) = ref_of (walk t x p)"
  shows "wf_tree (upd_at t x p f) \<and> ref_of (upd_at t x p f) = ref_of t"
  using assms by (induction t) (auto split: if_splits)

lemma leaf_wf:
  assumes "wf_tree t" "s \<in> set (leaves t)"
  shows "wf_tree s" "tspan s \<subseteq> tspan t" "blk_plen t \<le> blk_plen s"
    "block_ok (blk_base s) (blk_plen s)" "walk t (blk_base s) (blk_plen s) = s"
  using assms wf_nodes[of t s] leaf_node[of s t] walk_node[of t s] wf_block_ok[of s] by auto

lemma leaf_disjoint:
  assumes "wf_tree t" "s \<in> set (leaves t)" "u \<in> set (leaves t)" "tspan s \<inter> tspan u \<noteq> {}"
  shows "s = u"
  using assms
proof (induction t)
  case (BlockSplit b n l r)
  note sp = wf_split_spans[OF BlockSplit.prems(1)]
  have wf: "wf_tree l" "wf_tree r" using BlockSplit.prems by auto
  have "s \<in> set (leaves l) \<and> u \<in> set (leaves l) \<or> s \<in> set (leaves r) \<and> u \<in> set (leaves r)"
    using BlockSplit.prems sp(2) leaf_wf(2)[OF wf(1)] leaf_wf(2)[OF wf(2)] by fastforce
  then show ?case using BlockSplit wf by blast
qed auto

lemma leaf_cover: "wf_tree t \<Longrightarrow> tspan t = (\<Union>s \<in> set (leaves t). tspan s)"
proof (induction t)
  case (BlockSplit b n l r)
  have wf: "wf_tree l" "wf_tree r" using BlockSplit.prems by auto
  have "span b n = tspan l \<union> tspan r" by (rule wf_split_spans(1)[OF BlockSplit.prems])
  then show ?case using BlockSplit.IH(1)[OF wf(1)] BlockSplit.IH(2)[OF wf(2)] by (simp add: UN_Un)
qed auto

lemma distinct_leaves: "wf_tree t \<Longrightarrow> distinct (leaves t)"
proof (induction t)
  case (BlockSplit b n l r)
  note sp = wf_split_spans[OF BlockSplit.prems(1)]
  have wf: "wf_tree l" "wf_tree r" using BlockSplit.prems by auto
  have "set (leaves l) \<inter> set (leaves r) = {}"
    using sp(2) leaf_wf(2)[OF wf(1)] leaf_wf(2)[OF wf(2)] base_in_span by fastforce
  then show ?case using BlockSplit wf by simp
qed auto

lemma set_leaves_upd_at:
  assumes "wf_tree t"
  shows "set (leaves (upd_at t x p f)) =
    (set (leaves t) - set (leaves (walk t x p))) \<union> set (leaves (f (walk t x p)))"
proof -
  obtain as bs where *: "leaves t = as @ leaves (walk t x p) @ bs"
    "leaves (upd_at t x p f) = as @ leaves (f (walk t x p)) @ bs"
    using leaves_upd_at[of t x p] by auto
  have "distinct (as @ leaves (walk t x p) @ bs)" using distinct_leaves[OF assms] *(1) by simp
  then show ?thesis using * by auto
qed

lemma walk_shallow: "p \<le> blk_plen t \<Longrightarrow> walk t x p = t"
  by (cases t) auto

lemma ref_upd_at:
  "ref_of (f (walk t x p)) = ref_of (walk t x p) \<Longrightarrow> ref_of (upd_at t x p f) = ref_of t"
  by (induction t) auto

lemma walk_upd_at_same:
  assumes "ref_of (f (walk t x p)) = ref_of (walk t x p)" "p \<le> blk_plen (walk t x p)"
  shows "walk (upd_at t x p f) x p = f (walk t x p)"
  using assms
proof (induction t)
  case (BlockSplit b n l r)
  show ?case
  proof (cases "n < p")
    case True
    then show ?thesis using BlockSplit ref_upd_at[of f r x p] ref_upd_at[of f l x p]
      by (auto split: if_splits)
  next
    case False
    then show ?thesis using BlockSplit.prems by (auto intro: walk_shallow)
  qed
qed (auto intro: walk_shallow)

text \<open>
  A tree is normal when no two free buddies are left unmerged; \<open>held\<close> lists the leaves that are not
  free. A normal tree is the canonical one for the set of blocks it holds.
\<close>

fun normal :: "btree \<Rightarrow> bool" where
  "normal (BlockSplit b n l r) \<longleftrightarrow>
     \<not> (is_BlockFree l \<and> is_BlockFree r) \<and> normal l \<and> normal r"
| "normal t \<longleftrightarrow> True"

definition held :: "btree \<Rightarrow> btree list" where
  "held t = filter (\<lambda>s. \<not> is_BlockFree s) (leaves t)"

lemma held_simps [simp]:
  "held (BlockFree b n) = []"
  "held (BlockAllocated b n a) = [BlockAllocated b n a]"
  "held (BlockQuarantined b n q) = [BlockQuarantined b n q]"
  "held (BlockSplit b n l r) = held l @ held r"
  by (simp_all add: held_def)

lemma held_Nil_iff: "normal t \<Longrightarrow> held t = [] \<longleftrightarrow> is_BlockFree t"
  by (induction t) auto

lemma set_held_leaves: "s \<in> set (held t) \<Longrightarrow> s \<in> set (leaves t)"
  by (auto simp: held_def)

lemma held_split_spans:
  assumes "wf_tree (BlockSplit b n l r)"
  shows "set (held l) = {s \<in> set (held (BlockSplit b n l r)). tspan s \<subseteq> tspan l}"
    "set (held r) = {s \<in> set (held (BlockSplit b n l r)). tspan s \<subseteq> tspan r}"
proof -
  note sp = wf_split_spans[OF assms]
  have wf: "wf_tree l" "wf_tree r" using assms by auto
  have l: "\<And>s. s \<in> set (held l) \<Longrightarrow> tspan s \<subseteq> tspan l" and r: "\<And>s. s \<in> set (held r) \<Longrightarrow> tspan s \<subseteq> tspan r"
    using leaf_wf(2)[OF wf(1)] leaf_wf(2)[OF wf(2)] set_held_leaves by blast+
  have ne: "\<And>s. tspan s \<subseteq> tspan l \<Longrightarrow> tspan s \<subseteq> tspan r \<Longrightarrow> False"
    using sp(2) base_in_span by blast
  show "set (held l) = {s \<in> set (held (BlockSplit b n l r)). tspan s \<subseteq> tspan l}"
    "set (held r) = {s \<in> set (held (BlockSplit b n l r)). tspan s \<subseteq> tspan r}"
    using l r ne unfolding held_simps set_append by blast+
qed

theorem canonical:
  assumes "wf_tree t" "wf_tree u" "normal t" "normal u"
    "ref_of t = ref_of u" "set (held t) = set (held u)"
  shows "t = u"
  using assms
proof (induction t arbitrary: u)
  case (BlockFree b n)
  then show ?case using held_Nil_iff[of u] by (cases u) auto
next
  case (BlockAllocated b n a)
  show ?case
  proof (cases u)
    case (BlockSplit c m l r)
    have "BlockAllocated b n a \<in> set (leaves u)" using BlockAllocated.prems set_held_leaves[of _ u] by auto
    then have "\<exists>s \<in> {l, r}. BlockAllocated b n a \<in> set (leaves s)" using BlockSplit by auto
    then show ?thesis using BlockAllocated.prems BlockSplit leaf_wf(3)[of l] leaf_wf(3)[of r] by fastforce
  qed (use BlockAllocated.prems in auto)
next
  case (BlockQuarantined b n a)
  show ?case
  proof (cases u)
    case (BlockSplit c m l r)
    have "BlockQuarantined b n a \<in> set (leaves u)" using BlockQuarantined.prems set_held_leaves[of _ u] by auto
    then have "\<exists>s \<in> {l, r}. BlockQuarantined b n a \<in> set (leaves s)" using BlockSplit by auto
    then show ?thesis using BlockQuarantined.prems BlockSplit leaf_wf(3)[of l] leaf_wf(3)[of r] by fastforce
  qed (use BlockQuarantined.prems in auto)
next
  case (BlockSplit b n l r)
  note t = BlockSplit.prems
  have ne: "held (BlockSplit b n l r) \<noteq> []" using held_Nil_iff[OF t(3)] by simp
  have deep: "Suc n \<le> blk_plen s" if "s \<in> set (held (BlockSplit b n l r))" for s
    using that t(1) leaf_wf(3)[of l s] leaf_wf(3)[of r s] set_held_leaves[of s] by auto
  have "is_BlockSplit u"
  proof (rule ccontr)
    assume "\<not> is_BlockSplit u"
    then have "held u = [] \<or> held u = [u]" by (cases u) auto
    moreover have "set (held u) \<noteq> {}" using ne t(6) by (metis set_empty2)
    ultimately have "u \<in> set (held (BlockSplit b n l r))" using t(6) by auto
    then show False using deep[of u] t(5) by simp
  qed
  then obtain c m l' r' where u: "u = BlockSplit c m l' r'" by (cases u) auto
  have refs: "c = b" "m = n" using t(5) u by auto
  have sub: "wf_tree l" "wf_tree r" "wf_tree l'" "wf_tree r'" "normal l" "normal r" "normal l'" "normal r'"
    "ref_of l = ref_of l'" "ref_of r = ref_of r'" 
    using t u refs by auto
  have wu: "wf_tree (BlockSplit c m l' r')" using t(2) u by simp
  have e: "set (held (BlockSplit b n l r)) = set (held (BlockSplit c m l' r'))"
    using t(6) unfolding u .
  have sp: "tspan l = tspan l'" "tspan r = tspan r'" using sub(9,10) by simp_all
  have hl: "set (held l) = set (held l')"
    unfolding held_split_spans(1)[OF t(1)] held_split_spans(1)[OF wu] by (simp only: e sp)
  have hr: "set (held r) = set (held r')"
    unfolding held_split_spans(2)[OF t(1)] held_split_spans(2)[OF wu] by (simp only: e sp)
  have "l = l'" by (rule BlockSplit.IH(1)[OF sub(1) sub(3) sub(5) sub(7) sub(9) hl])
  moreover have "r = r'" by (rule BlockSplit.IH(2)[OF sub(2) sub(4) sub(6) sub(8) sub(10) hr])
  ultimately show ?case using u refs by simp
qed

text \<open>
  \<open>Block.Parent\<close>, \<open>Block.Buddy\<close>, \<open>Block.ownedBy\<close>, and the loop of \<open>AllocateFromBuddy\<close> that climbs
  from a block to the largest range around it the node owns completely.
\<close>

definition parent_of :: "btree \<Rightarrow> bref \<Rightarrow> btree option" where
  "parent_of t b = (if b = ref_of t then None else Some (walk t (fst b) (snd b - 1)))"

definition buddy_of :: "btree \<Rightarrow> bref \<Rightarrow> btree option" where
  "buddy_of t b =
     (case parent_of t b of
        None \<Rightarrow> None
      | Some p \<Rightarrow>
          (case p of
             BlockSplit x n l r \<Rightarrow> if ref_of l = b then Some r else Some l
           | _ \<Rightarrow> None))"

fun ownedBy :: "btree \<Rightarrow> string \<Rightarrow> bool" where
  "ownedBy (BlockAllocated x n owner) nodeName = (owner = nodeName)"
| "ownedBy (BlockSplit x n l r) nodeName = (ownedBy l nodeName \<and> ownedBy r nodeName)"
| "ownedBy _ nodeName = False"

fun climb_owned :: "btree \<Rightarrow> string \<Rightarrow> addr \<Rightarrow> nat \<Rightarrow> bref" where
  "climb_owned t nodeName x 0 = (x, 0)"
| "climb_owned t nodeName x (Suc m) =
     (case (parent_of t (x, Suc m), buddy_of t (x, Suc m)) of
        (Some p, Some bud) \<Rightarrow>
          if ownedBy bud nodeName then climb_owned t nodeName (blk_base p) m else (x, Suc m)
      | _ \<Rightarrow> (x, Suc m))"


text \<open>\<open>parent_of\<close> and \<open>buddy_of\<close> applied to a node give its parent and its sibling.\<close>

lemma node_same_plen: "wf_tree t \<Longrightarrow> s \<in> nodes t \<Longrightarrow> blk_plen s = blk_plen t \<Longrightarrow> s = t"
  using wf_nodes by (cases t) (auto, force+)

lemma nodes_trans: "p \<in> nodes t \<Longrightarrow> nodes p \<subseteq> nodes t"
  by (induction t) auto

lemma node_leaf: "s \<in> nodes t \<Longrightarrow> \<not> is_BlockSplit s \<Longrightarrow> s \<in> set (leaves t)"
  by (induction t) auto

lemma node_unique:
  "wf_tree t \<Longrightarrow> s \<in> nodes t \<Longrightarrow> u \<in> nodes t \<Longrightarrow> ref_of s = ref_of u \<Longrightarrow> s = u"
  by (metis walk_node prod.inject)

lemma node_parent:
  assumes "wf_tree t" "s \<in> nodes t" "s \<noteq> t"
  shows "\<exists>b m l r. blk_plen s = Suc m \<and> walk t (blk_base s) m = BlockSplit b m l r \<and> (s = l \<or> s = r)
    \<and> BlockSplit b m l r \<in> nodes t"
  using assms
proof (induction t)
  case (BlockSplit b n l r)
  note sp = wf_split_spans[OF BlockSplit.prems(1)]
  have wf: "wf_tree l" "wf_tree r" "blk_plen l = Suc n" "blk_plen r = Suc n" "blk_base l = b"
    using BlockSplit.prems by auto
  have dir: "blk_base r \<le> blk_base s \<longleftrightarrow> s \<in> nodes r" if "s \<in> nodes l \<or> s \<in> nodes r"
    using that wf_nodes[OF wf(1), of s] wf_nodes[OF wf(2), of s] sp(2,3) wf(3,4,5)
      subsetD[of "tspan s" "tspan l", OF _ base_in_span] subsetD[of "tspan s" "tspan r", OF _ base_in_span]
    by (auto simp: span_def word_le_nat_alt)
  obtain c where c: "c = l \<or> c = r" "s \<in> nodes c" using BlockSplit.prems by auto
  have wc: "wf_tree c" "blk_plen c = Suc n" using c wf by auto
  have w: "walk (BlockSplit b n l r) (blk_base s) m = (if n < m then walk c (blk_base s) m else BlockSplit b n l r)" for m
    using c dir sp(2) wf_nodes[OF wf(1), of s] wf_nodes[OF wf(2), of s]
       subsetD[of "tspan s" "tspan l", OF _ base_in_span] subsetD[of "tspan s" "tspan r", OF _ base_in_span]
    by auto
  show ?case
  proof (cases "s = c")
    case True
    then have "walk (BlockSplit b n l r) (blk_base s) n = BlockSplit b n l r" by simp
    then show ?thesis using True c wc by auto
  next
    case False
    then obtain d m l' r' where d: "blk_plen s = Suc m" "walk c (blk_base s) m = BlockSplit d m l' r'"
      "s = l' \<or> s = r'" "BlockSplit d m l' r' \<in> nodes c"
      using BlockSplit.IH c wf by blast
    have "n < m" using wf_nodes[OF wc(1) d(4)] wc(2) by simp
    then show ?thesis using d w[of m] c by auto
  qed
qed auto

lemma parent_buddy:
  assumes "wf_tree t" "s \<in> nodes t" "s \<noteq> t"
  obtains b m l r where "blk_plen s = Suc m" "BlockSplit b m l r \<in> nodes t"
    "walk t (blk_base s) m = BlockSplit b m l r"
    "parent_of t (ref_of s) = Some (BlockSplit b m l r)"
    "s = l \<and> buddy_of t (ref_of s) = Some r \<or> s = r \<and> buddy_of t (ref_of s) = Some l"
proof -
  obtain b m l r where p: "blk_plen s = Suc m" "walk t (blk_base s) m = BlockSplit b m l r"
    "s = l \<or> s = r" "BlockSplit b m l r \<in> nodes t" using node_parent[OF assms] by blast
  have "blk_plen t \<noteq> blk_plen s" using node_same_plen[OF assms(1,2)] assms(3) by auto
  then have par: "parent_of t (ref_of s) = Some (BlockSplit b m l r)" using p by (simp add: parent_of_def)
  have "wf_tree (BlockSplit b m l r)" using wf_nodes[OF assms(1) p(4)] by simp
  then have "ref_of l \<noteq> ref_of r" using wf_split_spans(3)[of b m l r] by auto
  then have "s = l \<and> buddy_of t (ref_of s) = Some r \<or> s = r \<and> buddy_of t (ref_of s) = Some l"
    using par p(3) by (auto simp: buddy_of_def)
  then show thesis using that p par by blast
qed

lemma root_no_parent [simp]: "parent_of t (ref_of t) = None" "buddy_of t (ref_of t) = None"
  by (simp_all add: parent_of_def buddy_of_def)

text \<open>
  The same property on the set of leaves, with an exception set: during a release exactly one free
  leaf may still have a free buddy.
\<close>

definition merged :: "btree set \<Rightarrow> bref set \<Rightarrow> bool" where
  "merged L R \<longleftrightarrow> (\<forall>b n. n < 32 \<longrightarrow> block_ok b n \<longrightarrow> BlockFree b (Suc n) \<in> L \<longrightarrow>
     BlockFree (b + half_of n) (Suc n) \<in> L \<longrightarrow> (b, Suc n) \<in> R \<or> (b + half_of n, Suc n) \<in> R)"

lemma half_of_nz: "n < 32 \<Longrightarrow> b + half_of n \<noteq> b"
  using unat_half_of[of n] addresses_pos[of "Suc n"] by auto

lemma half_of_ne0 [simp]: "n < 32 \<Longrightarrow> half_of n \<noteq> 0"
  using half_of_nz[of n 0] by simp

lemma not_ok_half:
  assumes "block_ok b n" "n < 32"
  shows "\<not> block_ok (b + half_of n) n"
proof
  assume "block_ok (b + half_of n) n"
  then have "addresses n dvd unat b + addresses (Suc n)" "addresses n dvd unat b"
    using assms block_ok_halves(3)[OF assms] by (simp_all add: block_ok_def)
  then have "addresses n dvd addresses (Suc n)" using dvd_add_right_iff by blast
  then have "addresses n \<le> addresses (Suc n)" by (rule dvd_imp_le) simp
  then show False using addresses_Suc[OF assms(2)] by simp
qed

lemma normal_merged: "wf_tree t \<Longrightarrow> normal t \<longleftrightarrow> merged (set (leaves t)) {}"
proof (induction t)
  case (BlockSplit b n l r)
  note sp = wf_split_spans[OF BlockSplit.prems(1)]
  have wf: "wf_tree l" "wf_tree r" "blk_plen l = Suc n" "blk_plen r = Suc n" "blk_base l = b"
    "blk_base r = b + half_of n" "block_ok b n" "n < 32" using BlockSplit.prems by auto
  show ?case
  proof
    assume N: "normal (BlockSplit b n l r)"
    then have ml: "merged (set (leaves l)) {}" "merged (set (leaves r)) {}" using BlockSplit wf by auto
    show "merged (set (leaves (BlockSplit b n l r))) {}"
      unfolding merged_def
    proof (intro allI impI)
      fix c m assume c: "m < 32" "block_ok c m" and
        F: "BlockFree c (Suc m) \<in> set (leaves (BlockSplit b n l r))"
           "BlockFree (c + half_of m) (Suc m) \<in> set (leaves (BlockSplit b n l r))"
      note sc = span_halves[OF c(2,1)]
      have lvl: "n \<le> m" using F(1) leaf_wf(3)[OF wf(1)] leaf_wf(3)[OF wf(2)] wf(3,4) by force
      have cases2: "\<And>x. x \<in> {l, r} \<Longrightarrow> wf_tree x \<and> block_ok (blk_base x) (blk_plen x) \<and> blk_plen x = Suc n"
        using wf wf_block_ok by auto
      have "False"
      proof (cases "m = n")
        case True
        have leafeq: "x \<in> {l, r} \<Longrightarrow> s \<in> set (leaves x) \<Longrightarrow> blk_plen s = Suc n \<Longrightarrow> s = x" for x s
          using cases2[of x] node_same_plen[of x s] leaf_node[of s x] by auto
        have "BlockFree c (Suc m) \<in> {l, r}" "BlockFree (c + half_of m) (Suc m) \<in> {l, r}"
          using F leafeq[of l] leafeq[of r] True by auto
        then show False using N half_of_nz[OF c(1), of c] by auto
      next
        case False
        then have "Suc n \<le> m" using lvl by simp
        have side: "s \<in> set (leaves x) \<Longrightarrow> x \<in> {l,r} \<Longrightarrow> tspan s \<subseteq> span c m \<Longrightarrow> span c m \<subseteq> tspan x" for s x
        proof -
          assume s: "s \<in> set (leaves x)" "x \<in> {l,r}" "tspan s \<subseteq> span c m"
          have "tspan s \<subseteq> tspan x" using leaf_wf(2)[of x s] cases2[OF s(2)] s(1) by simp
          then have "span c m \<inter> tspan x \<noteq> {}" using s(3) base_in_span[of "blk_base s" "blk_plen s"] by blast
          moreover have "block_ok (blk_base x) (blk_plen x)" "blk_plen x \<le> m"
            using cases2[OF s(2)] \<open>Suc n \<le> m\<close> by auto
          ultimately show ?thesis using aligned_nested[OF c(2)] by blast
        qed
        have sub: "span c (Suc m) \<subseteq> span c m" "span (c + half_of m) (Suc m) \<subseteq> span c m" using sc by auto
        have x1: "x \<in> {l, r} \<Longrightarrow> BlockFree c (Suc m) \<in> set (leaves x) \<Longrightarrow> span c m \<subseteq> tspan x" for x
          using side[of "BlockFree c (Suc m)" x] sub(1) by simp
        have x2: "x \<in> {l, r} \<Longrightarrow> BlockFree (c + half_of m) (Suc m) \<in> set (leaves x) \<Longrightarrow> span c m \<subseteq> tspan x" for x
          using side[of "BlockFree (c + half_of m) (Suc m)" x] sub(2) by simp
        have ne: "\<not> (span c m \<subseteq> tspan l \<and> span c m \<subseteq> tspan r)"
          using sp(2) base_in_span[of c m] by blast
        have "BlockFree c (Suc m) \<in> set (leaves l) \<and> BlockFree (c + half_of m) (Suc m) \<in> set (leaves l) \<or>
              BlockFree c (Suc m) \<in> set (leaves r) \<and> BlockFree (c + half_of m) (Suc m) \<in> set (leaves r)"
          using F x1[of l] x1[of r] x2[of l] x2[of r] ne by auto
        then show False using ml c unfolding merged_def by blast
      qed
      then show "(c, Suc m) \<in> {} \<or> (c + half_of m, Suc m) \<in> {}" ..
    qed
  next
    assume M: "merged (set (leaves (BlockSplit b n l r))) {}"
    then have "merged (set (leaves l)) {}" "merged (set (leaves r)) {}" by (auto simp: merged_def)
    moreover have "\<not> (is_BlockFree l \<and> is_BlockFree r)"
    proof
      assume "is_BlockFree l \<and> is_BlockFree r"
      then have "l = BlockFree b (Suc n)" "r = BlockFree (b + half_of n) (Suc n)"
        using wf by (cases l; cases r; auto)+
      then show False using M wf(7,8) by (auto simp: merged_def)
    qed
    ultimately show "normal (BlockSplit b n l r)" using BlockSplit.IH wf by simp
  qed
qed (auto simp: merged_def)

end
