(* ===== verification/Allocator.thy ===== *)
theory Allocator
  imports Block_Tree
begin

text \<open>
  The operations of \<open>BuddyAllocator\<close> (ipam/buddy/allocator.go), one definition per method, as
  functions from the allocator's state to the new state and the method's results. \<open>freeBlocks\<close> and
  \<open>quarantined\<close> are Go maps used as sets: they are lists here, and nothing proved depends on the
  order of these lists. The clock is the value \<open>al_now\<close> that \<open>now()\<close> returns during the call. The
  mutex is not modelled: every method is one atomic step. Errors carry what tells them apart, not
  the text of the message.
\<close>

datatype error =
    ErrNoSpace nat
  | ErrBuddyUnavailable
  | ErrInvalidCIDR string
  | ErrMaxAbovePool int
  | ErrMinAboveMax int int
  | ErrMinOutOfRange int
  | ErrTooLarge int nat
  | ErrPrefixRange nat
  | ErrOutside string
  | ErrOverlapsHeld string
  | ErrOverlapsBlock string
  | ErrNilBlock
  | ErrNotAllocated bref
  | ErrForeignBlock bref
  | ErrPoolEmpty
  | ErrPoolExhausted error
  | ErrNotInPool string
  | ErrCIDROverlap string
  | ErrCannotSplit string
  | ErrNotAHalf string string

record allocator =
  al_root :: btree
  al_min :: nat
  al_max :: nat
  al_free :: "nat \<Rightarrow> addr list"
  al_quarantined :: "bref list"
  al_quarantine :: duration
  al_now :: go_time

abbreviation blk :: "allocator \<Rightarrow> bref \<Rightarrow> btree" where
  "blk a b \<equiv> walk (al_root a) (fst b) (snd b)"

definition addFree :: "allocator \<Rightarrow> bref \<Rightarrow> allocator" where
  "addFree a b = a\<lparr>al_free := (al_free a)(snd b := List.insert (fst b) (al_free a (snd b)))\<rparr>"

definition removeFree :: "allocator \<Rightarrow> bref \<Rightarrow> allocator" where
  "removeFree a b = a\<lparr>al_free := (al_free a)(snd b := removeAll (fst b) (al_free a (snd b)))\<rparr>"

definition set_block :: "allocator \<Rightarrow> bref \<Rightarrow> btree \<Rightarrow> allocator" where
  "set_block a b t = a\<lparr>al_root := upd_at (al_root a) (fst b) (snd b) (\<lambda>_. t)\<rparr>"

definition newBuddyAllocator :: "string \<Rightarrow> int \<Rightarrow> int \<Rightarrow> error + allocator" where
  "newBuddyAllocator cidr minPrefixLen maxPrefixLen =
     (case parse_cidr cidr of
        None \<Rightarrow> Inl (ErrInvalidCIDR cidr)
      | Some (_, network) \<Rightarrow>
          (let rootPrefix = int (net_ones network) in
           if maxPrefixLen < rootPrefix then Inl (ErrMaxAbovePool maxPrefixLen)
           else if minPrefixLen < maxPrefixLen then Inl (ErrMinAboveMax minPrefixLen maxPrefixLen)
           else if minPrefixLen > 32 then Inl (ErrMinOutOfRange minPrefixLen)
           else Inr (addFree
             \<lparr>al_root = BlockFree (net_ip network) (net_ones network),
              al_min = nat minPrefixLen, al_max = nat maxPrefixLen,
              al_free = (\<lambda>_. []), al_quarantined = [], al_quarantine = 0, al_now = 0\<rparr>
             (net_ip network, net_ones network))))"

definition setQuarantine :: "allocator \<Rightarrow> duration \<Rightarrow> allocator" where
  "setQuarantine a d = a\<lparr>al_quarantine := d\<rparr>"

definition setClock :: "allocator \<Rightarrow> go_time \<Rightarrow> allocator" where
  "setClock a now = a\<lparr>al_now := now\<rparr>"

definition root_net :: "allocator \<Rightarrow> ipnet" where
  "root_net a = \<lparr>net_ip = blk_base (al_root a), net_ones = blk_plen (al_root a)\<rparr>"

definition al_contains :: "allocator \<Rightarrow> string \<Rightarrow> bool" where
  "al_contains a cidr =
     (case parse_cidr cidr of
        None \<Rightarrow> False
      | Some (_, n) \<Rightarrow> net_ones n \<ge> blk_plen (al_root a) \<and> net_contains (root_net a) (net_ip n))"

definition lowestFree :: "allocator \<Rightarrow> nat \<Rightarrow> bref option" where
  "lowestFree a prefix =
     foldl (\<lambda>best b. case best of
              None \<Rightarrow> Some (b, prefix)
            | Some c \<Rightarrow> if b < fst c then Some (b, prefix) else best)
       None (al_free a prefix)"

definition split_block :: "allocator \<Rightarrow> bref \<Rightarrow> allocator \<times> bref \<times> bref" where
  "split_block a b =
     (let x = fst b; n = snd b;
          a = removeFree a b;
          l = (x, Suc n); r = (x + half_of n, Suc n);
          a = set_block a b (BlockSplit x n (BlockFree x (Suc n)) (BlockFree (x + half_of n) (Suc n)));
          a = addFree a l;
          a = addFree a r
      in (a, l, r))"

fun bits_len :: "nat \<Rightarrow> nat" where
  "bits_len n = (if n = 0 then 0 else Suc (bits_len (n div 2)))"

declare bits_len.simps [simp del]

definition prefixFor :: "allocator \<Rightarrow> int \<Rightarrow> error + nat" where
  "prefixFor a requestedAddrs =
     (let req = (if requestedAddrs < 1 then 1 else requestedAddrs);
          prefix = min (32 - int (bits_len (nat (req - 1)))) (int (al_min a))
      in if prefix < int (al_max a) then Inl (ErrTooLarge req (al_max a)) else Inr (nat prefix))"

text \<open>
  The loop \<open>for b.PrefixLen < prefix\<close> of \<open>allocatePrefixLocked\<close>, \<open>AllocateSpread\<close>,
  \<open>AllocateFromBuddy\<close> and \<open>Reserve\<close>: split and continue with one of the two halves. The four loops
  differ only in the half they take, which is the argument \<open>pick\<close>.
\<close>

function split_down :: "(bref \<Rightarrow> bref \<Rightarrow> bref) \<Rightarrow> allocator \<Rightarrow> bref \<Rightarrow> nat \<Rightarrow> allocator \<times> bref" where
  "split_down pick a b prefix =
     (if snd b < prefix
      then (case split_block a b of (a', l, r) \<Rightarrow> split_down pick a' (fst (pick l r), Suc (snd b)) prefix)
      else (a, b))"
  by pat_completeness auto
termination
  by (relation "measure (\<lambda>(pick, a, b, prefix). prefix - snd b)") auto

declare split_down.simps [simp del]

definition take_block :: "allocator \<Rightarrow> bref \<Rightarrow> string \<Rightarrow> allocator" where
  "take_block a b nodeName =
     set_block (removeFree a b) b (BlockAllocated (fst b) (snd b) nodeName)"

fun first_free :: "allocator \<Rightarrow> nat list \<Rightarrow> bref option" where
  "first_free a [] = None"
| "first_free a (p # ps) =
     (case lowestFree a p of None \<Rightarrow> first_free a ps | Some b \<Rightarrow> Some b)"

definition levels_from :: "allocator \<Rightarrow> nat \<Rightarrow> nat list" where
  "levels_from a hi = rev [blk_plen (al_root a) ..< hi]"

definition allocatePrefixLocked :: "allocator \<Rightarrow> nat \<Rightarrow> string \<Rightarrow> allocator \<times> (error + bref)" where
  "allocatePrefixLocked a prefix nodeName =
     (case first_free a (levels_from a (Suc prefix)) of
        None \<Rightarrow> (a, Inl (ErrNoSpace prefix))
      | Some b \<Rightarrow>
          (case split_down (\<lambda>l r. l) a b prefix of
             (a', b') \<Rightarrow> (take_block a' b' nodeName, Inr b')))"

text \<open>
  Releasing: \<open>merge_up\<close> is the loop of \<open>releaseLocked\<close> that merges a free block with its buddy as
  long as the buddy is free, and \<open>sweepLocked\<close> releases the quarantined blocks that are due.
\<close>

fun merge_up :: "allocator \<Rightarrow> addr \<Rightarrow> nat \<Rightarrow> allocator" where
  "merge_up a x 0 = a"
| "merge_up a x (Suc m) =
     (case parent_of (al_root a) (x, Suc m) of
        None \<Rightarrow> a
      | Some p \<Rightarrow>
          (case buddy_of (al_root a) (x, Suc m) of
             None \<Rightarrow> a
           | Some bud \<Rightarrow>
               if \<not> is_BlockFree bud then a
               else
                 (let a = removeFree a (ref_of (blk_left p));
                      a = removeFree a (ref_of (blk_right p));
                      a = set_block a (ref_of p) (BlockFree (blk_base p) (blk_plen p));
                      a = addFree a (ref_of p)
                  in merge_up a (blk_base p) m)))"

definition releaseLocked :: "allocator \<Rightarrow> bref \<Rightarrow> allocator" where
  "releaseLocked a b =
     (let a = a\<lparr>al_quarantined := removeAll b (al_quarantined a)\<rparr>;
          a = set_block a b (BlockFree (fst b) (snd b));
          a = addFree a b
      in merge_up a (fst b) (snd b))"

definition sweepLocked :: "allocator \<Rightarrow> allocator \<times> nat" where
  "sweepLocked a =
     (if al_quarantined a = [] then (a, 0)
      else
        (let now = al_now a;
             due = filter (\<lambda>b. \<not> blk_release_at (blk a b) > now) (al_quarantined a);
             due = sort_by (\<lambda>a b. fst a < fst b) due
         in (foldl releaseLocked a due, length due)))"

definition sweep :: "allocator \<Rightarrow> allocator \<times> nat" where
  "sweep a = sweepLocked a"

definition al_allocate :: "allocator \<Rightarrow> int \<Rightarrow> string \<Rightarrow> allocator \<times> (error + bref)" where
  "al_allocate a requestedAddrs nodeName =
     (let a = fst (sweepLocked a) in
      case prefixFor a requestedAddrs of
        Inl e \<Rightarrow> (a, Inl e)
      | Inr prefix \<Rightarrow> allocatePrefixLocked a prefix nodeName)"

definition allocateSpread :: "allocator \<Rightarrow> int \<Rightarrow> string \<Rightarrow> allocator \<times> (error + bref)" where
  "allocateSpread a requestedAddrs nodeName =
     (let a = fst (sweepLocked a) in
      case prefixFor a requestedAddrs of
        Inl e \<Rightarrow> (a, Inl e)
      | Inr prefix \<Rightarrow>
          (case first_free a (levels_from a prefix) of
             None \<Rightarrow> (a, Inl (ErrNoSpace prefix))
           | Some b \<Rightarrow>
               (case split_down (\<lambda>l r. l) a b prefix of
                  (a', b') \<Rightarrow> (take_block a' b' nodeName, Inr b'))))"

definition al_allocatePrefix :: "allocator \<Rightarrow> nat \<Rightarrow> string \<Rightarrow> allocator \<times> (error + bref)" where
  "al_allocatePrefix a prefix nodeName =
     (let a = fst (sweepLocked a) in
      if prefix > al_min a \<or> prefix < al_max a then (a, Inl (ErrPrefixRange prefix))
      else allocatePrefixLocked a prefix nodeName)"

definition al_allocateBuddyOf :: "allocator \<Rightarrow> bref \<Rightarrow> string \<Rightarrow> allocator \<times> (error + bref)" where
  "al_allocateBuddyOf a block nodeName =
     (let a = fst (sweepLocked a) in
      case buddy_of (al_root a) block of
        None \<Rightarrow> (a, Inl ErrBuddyUnavailable)
      | Some buddy \<Rightarrow>
          if \<not> is_BlockFree buddy then (a, Inl ErrBuddyUnavailable)
          else (take_block a (ref_of buddy) nodeName, Inr (ref_of buddy)))"

definition al_allocateFromBuddy ::
  "allocator \<Rightarrow> bref \<Rightarrow> int \<Rightarrow> string \<Rightarrow> allocator \<times> (error + bref)" where
  "al_allocateFromBuddy a block requestedAddrs nodeName =
     (let a = fst (sweepLocked a);
          anchor = climb_owned (al_root a) nodeName (fst block) (snd block)
      in case buddy_of (al_root a) anchor of
           None \<Rightarrow> (a, Inl ErrBuddyUnavailable)
         | Some cur \<Rightarrow>
             if \<not> is_BlockFree cur then (a, Inl ErrBuddyUnavailable)
             else (case prefixFor a requestedAddrs of
                 Inl e \<Rightarrow> (a, Inl e)
               | Inr prefix \<Rightarrow>
                   (case split_down (\<lambda>l r. if fst l < fst anchor then r else l) a (ref_of cur) prefix of
                      (a', b') \<Rightarrow> (take_block a' b' nodeName, Inr b'))))"

definition al_reserve :: "allocator \<Rightarrow> string \<Rightarrow> string \<Rightarrow> allocator \<times> (error + bref)" where
  "al_reserve a cidr nodeName =
     (case parse_cidr cidr of
        None \<Rightarrow> (a, Inl (ErrInvalidCIDR cidr))
      | Some (_, n) \<Rightarrow>
          (let prefix = net_ones n; base = net_ip n in
           if \<not> al_contains a cidr then (a, Inl (ErrOutside cidr))
           else
             (let cur = walk (al_root a) base prefix in
              if \<not> is_BlockFree cur then (a, Inl (ErrOverlapsHeld cidr))
              else if blk_plen cur > prefix then (a, Inl (ErrOverlapsBlock cidr))
              else (case split_down (\<lambda>l r. if base \<ge> fst r then r else l) a (ref_of cur) prefix of
                 (a', b') \<Rightarrow> (take_block a' b' nodeName, Inr b')))))"

definition al_find :: "allocator \<Rightarrow> string \<Rightarrow> btree option" where
  "al_find a cidr =
     (case parse_cidr cidr of
        None \<Rightarrow> None
      | Some (_, n) \<Rightarrow>
          if \<not> al_contains a cidr then None
          else
            (let prefix = net_ones n; base = net_ip n; cur = walk (al_root a) base prefix in
             if blk_plen cur = prefix \<and> blk_base cur = base \<and> \<not> is_BlockFree cur \<and> \<not> is_BlockSplit cur
             then Some cur else None))"

definition checkOwned :: "allocator \<Rightarrow> bref option \<Rightarrow> error option" where
  "checkOwned a block =
     (case block of
        None \<Rightarrow> Some ErrNilBlock
      | Some b \<Rightarrow>
          if ref_of (blk a b) \<noteq> b then Some (ErrForeignBlock b)
          else if \<not> is_BlockAllocated (blk a b) then Some (ErrNotAllocated b)
          else None)"

definition al_free_block :: "allocator \<Rightarrow> bref option \<Rightarrow> allocator \<times> error option" where
  "al_free_block a block =
     (case (checkOwned a block, block) of
        (Some e, _) \<Rightarrow> (a, Some e)
      | (None, None) \<Rightarrow> (a, Some ErrNilBlock)
      | (None, Some b) \<Rightarrow>
          if al_quarantine a > 0
          then ((set_block a b (BlockQuarantined (fst b) (snd b) (al_now a + al_quarantine a)))
                 \<lparr>al_quarantined := List.insert b (al_quarantined a)\<rparr>, None)
          else (releaseLocked a b, None))"

definition freeNow :: "allocator \<Rightarrow> bref option \<Rightarrow> allocator \<times> error option" where
  "freeNow a block =
     (case (checkOwned a block, block) of
        (Some e, _) \<Rightarrow> (a, Some e)
      | (None, None) \<Rightarrow> (a, Some ErrNilBlock)
      | (None, Some b) \<Rightarrow> (releaseLocked a b, None))"

type_synonym merge_event = "bref \<times> bref \<times> bref"

fun defrag_walk :: "btree \<Rightarrow> allocator \<Rightarrow> btree \<times> allocator \<times> merge_event list" where
  "defrag_walk (BlockSplit x n l r) a =
     (case defrag_walk l a of (l', a1, e1) \<Rightarrow>
      case defrag_walk r a1 of (r', a2, e2) \<Rightarrow>
        if is_BlockFree l' \<and> is_BlockFree r'
        then (BlockFree x n,
              addFree (removeFree (removeFree a2 (ref_of l')) (ref_of r')) (x, n),
              e1 @ e2 @ [((x, n), ref_of l', ref_of r')])
        else (BlockSplit x n l' r', a2, e1 @ e2))"
| "defrag_walk t a = (t, a, [])"

definition al_defragment :: "allocator \<Rightarrow> allocator \<times> merge_event list" where
  "al_defragment a =
     (let a = fst (sweepLocked a) in
      case defrag_walk (al_root a) a of (t, a', es) \<Rightarrow> (a'\<lparr>al_root := t\<rparr>, es))"

record allocator_stats =
  st_total :: nat
  st_allocated :: nat
  st_free :: nat
  st_quarantined :: nat
  st_fragmented :: nat
  st_blocks :: nat
  st_largest :: nat
  st_by_level :: "nat \<Rightarrow> nat"

fun stats_walk :: "btree \<Rightarrow> allocator_stats \<Rightarrow> allocator_stats" where
  "stats_walk (BlockFree x n) s =
     (let s = s\<lparr>st_free := st_free s + addresses n,
               st_by_level := (st_by_level s)(n := st_by_level s n + 1)\<rparr>
      in if addresses n > st_largest s then s\<lparr>st_largest := addresses n\<rparr> else s)"
| "stats_walk (BlockAllocated x n a) s =
     s\<lparr>st_allocated := st_allocated s + addresses n, st_blocks := st_blocks s + 1\<rparr>"
| "stats_walk (BlockQuarantined x n a) s = s\<lparr>st_quarantined := st_quarantined s + addresses n\<rparr>"
| "stats_walk (BlockSplit x n l r) s =
     (let s = (if is_BlockFree l \<and> is_BlockFree r then s\<lparr>st_fragmented := st_fragmented s + 1\<rparr> else s)
      in stats_walk r (stats_walk l s))"

definition al_stats :: "allocator \<Rightarrow> allocator_stats" where
  "al_stats a = stats_walk (al_root a)
     \<lparr>st_total = addresses (blk_plen (al_root a)), st_allocated = 0, st_free = 0,
      st_quarantined = 0, st_fragmented = 0, st_blocks = 0, st_largest = 0, st_by_level = (\<lambda>_. 0)\<rparr>"

fun getAllocatedBlocks_walk :: "btree \<Rightarrow> btree list" where
  "getAllocatedBlocks_walk (BlockAllocated x n a) = [BlockAllocated x n a]"
| "getAllocatedBlocks_walk (BlockSplit x n l r) = getAllocatedBlocks_walk l @ getAllocatedBlocks_walk r"
| "getAllocatedBlocks_walk _ = []"

definition al_getAllocatedBlocks :: "allocator \<Rightarrow> btree list" where
  "al_getAllocatedBlocks a = getAllocatedBlocks_walk (al_root a)"

definition al_getBlocksForNode :: "allocator \<Rightarrow> string \<Rightarrow> btree list" where
  "al_getBlocksForNode a nodeName = filter (\<lambda>b. blk_node b = nodeName) (al_getAllocatedBlocks a)"

end
