(* ===== verification/Allocator_Inv.thy ===== *)
theory Allocator_Inv
  imports Allocator
begin

text \<open>
  The invariant of the allocator and the effect of its internal steps on it. \<open>core_inv\<close> says that
  the tree is well formed, the free index lists exactly the free leaves, the quarantine set exactly
  the quarantined leaves, and the limits are consistent; \<open>alloc_inv\<close> adds that no two free buddies
  are left unmerged. \<open>heldset\<close>, the leaves that are not free, is the abstract state: the lemmas state
  what each step does to it.
\<close>

abbreviation lv :: "allocator \<Rightarrow> btree set" where
  "lv a \<equiv> set (leaves (al_root a))"

definition idx_ok :: "allocator \<Rightarrow> bool" where
  "idx_ok a \<longleftrightarrow> (\<forall>p. distinct (al_free a p)) \<and> (\<forall>p x. x \<in> set (al_free a p) \<longleftrightarrow> BlockFree x p \<in> lv a)"

definition quar_ok :: "allocator \<Rightarrow> bool" where
  "quar_ok a \<longleftrightarrow> distinct (al_quarantined a) \<and>
     (\<forall>x p. (x, p) \<in> set (al_quarantined a) \<longleftrightarrow> (\<exists>t. BlockQuarantined x p t \<in> lv a))"

definition limits_ok :: "allocator \<Rightarrow> bool" where
  "limits_ok a \<longleftrightarrow> blk_plen (al_root a) \<le> al_max a \<and> al_max a \<le> al_min a \<and> al_min a \<le> 32"

definition core_inv :: "allocator \<Rightarrow> bool" where
  "core_inv a \<longleftrightarrow> wf_tree (al_root a) \<and> idx_ok a \<and> quar_ok a \<and> limits_ok a"

definition alloc_inv :: "allocator \<Rightarrow> bool" where
  "alloc_inv a \<longleftrightarrow> core_inv a \<and> normal (al_root a)"

definition same_frame :: "allocator \<Rightarrow> allocator \<Rightarrow> bool" where
  "same_frame a a' \<longleftrightarrow> ref_of (al_root a') = ref_of (al_root a) \<and> al_min a' = al_min a \<and>
     al_max a' = al_max a \<and> al_quarantine a' = al_quarantine a \<and> al_now a' = al_now a"

lemma same_frame_refl [simp, intro]: "same_frame a a"
  by (simp add: same_frame_def)

lemma same_frame_trans: "same_frame a b \<Longrightarrow> same_frame b c \<Longrightarrow> same_frame a c"
  by (simp add: same_frame_def)

lemma alloc_inv_merged: "alloc_inv a \<longleftrightarrow> core_inv a \<and> merged (lv a) {}"
  by (auto simp: alloc_inv_def core_inv_def normal_merged)

lemma addFree_simps [simp]:
  "al_root (addFree a b) = al_root a" "al_min (addFree a b) = al_min a" "al_max (addFree a b) = al_max a"
  "al_quarantined (addFree a b) = al_quarantined a" "al_quarantine (addFree a b) = al_quarantine a"
  "al_now (addFree a b) = al_now a"
  "al_free (addFree a b) = (al_free a)(snd b := List.insert (fst b) (al_free a (snd b)))"
  by (simp_all add: addFree_def)

lemma removeFree_simps [simp]:
  "al_root (removeFree a b) = al_root a" "al_min (removeFree a b) = al_min a" "al_max (removeFree a b) = al_max a"
  "al_quarantined (removeFree a b) = al_quarantined a" "al_quarantine (removeFree a b) = al_quarantine a"
  "al_now (removeFree a b) = al_now a"
  "al_free (removeFree a b) = (al_free a)(snd b := removeAll (fst b) (al_free a (snd b)))"
  by (simp_all add: removeFree_def)

lemma set_block_simps [simp]:
  "al_min (set_block a b t) = al_min a" "al_max (set_block a b t) = al_max a"
  "al_quarantined (set_block a b t) = al_quarantined a" "al_quarantine (set_block a b t) = al_quarantine a"
  "al_now (set_block a b t) = al_now a" "al_free (set_block a b t) = al_free a"
  "al_root (set_block a b t) = upd_at (al_root a) (fst b) (snd b) (\<lambda>_. t)"
  by (simp_all add: set_block_def)

text \<open>Writing one node: what \<open>set_block\<close> does to the tree and its leaves.\<close>

lemma set_block_node:
  assumes "wf_tree (al_root a)" "s \<in> nodes (al_root a)" "wf_tree t" "ref_of t = ref_of s"
  shows "wf_tree (al_root (set_block a (ref_of s) t))"
    "lv (set_block a (ref_of s) t) = (lv a - set (leaves s)) \<union> set (leaves t)"
    "ref_of (al_root (set_block a (ref_of s) t)) = ref_of (al_root a)"
  using wf_upd_at[of "al_root a" "\<lambda>_. t" "blk_base s" "blk_plen s"] walk_node[OF assms(1,2)]
    set_leaves_upd_at[OF assms(1), of "blk_base s" "blk_plen s" "\<lambda>_. t"] assms
  by simp_all

lemma free_leaf_unique: "wf_tree t \<Longrightarrow> s \<in> set (leaves t) \<Longrightarrow> u \<in> set (leaves t) \<Longrightarrow> ref_of s = ref_of u \<Longrightarrow> s = u"
  by (metis leaf_wf(5) prod.inject)

text \<open>Splitting a free leaf keeps the invariant and replaces the leaf by its two halves.\<close>

lemma split_block_inv:
  assumes inv: "core_inv a" and F: "BlockFree x n \<in> lv a" and n: "n < 32"
    and s: "split_block a (x, n) = (a', l, r)"
  shows "core_inv a'" "l = (x, Suc n)" "r = (x + half_of n, Suc n)"
    "lv a' = (lv a - {BlockFree x n}) \<union> {BlockFree x (Suc n), BlockFree (x + half_of n) (Suc n)}"
    "same_frame a a'"
proof -
  let ?y = "x + half_of n" and ?root = "al_root a"
  have wf: "wf_tree ?root" using inv by (simp add: core_inv_def)
  have ok: "block_ok x n" using leaf_wf(4)[OF wf F] by simp
  let ?t = "BlockSplit x n (BlockFree x (Suc n)) (BlockFree ?y (Suc n))"
  have wt: "wf_tree ?t" using ok n block_ok_halves[OF ok n] by simp
  have a': "a' = addFree (addFree (set_block (removeFree a (x, n)) (x, n) ?t) (x, Suc n)) (?y, Suc n)"
    and l: "l = (x, Suc n)" and r: "r = (?y, Suc n)"
    using s by (auto simp: split_block_def Let_def)
  note sb = set_block_node[of "removeFree a (x, n)" "BlockFree x n" ?t]
  have L: "lv a' = (lv a - {BlockFree x n}) \<union> {BlockFree x (Suc n), BlockFree ?y (Suc n)}"
    and W: "wf_tree (al_root a')" and R: "ref_of (al_root a') = ref_of ?root"
    using sb wf wt leaf_node[OF F] by (auto simp: a')
  have "x \<noteq> ?y" using half_of_nz[OF n] by metis
  then have I: "idx_ok a'" using inv L
    by (auto simp: a' core_inv_def idx_ok_def distinct_removeAll)
  have Q: "quar_ok a'" using inv L by (auto simp: a' core_inv_def quar_ok_def)
  show "core_inv a'" "l = (x, Suc n)" "r = (?y, Suc n)"
    "lv a' = (lv a - {BlockFree x n}) \<union> {BlockFree x (Suc n), BlockFree ?y (Suc n)}"
    "same_frame a a'"
    using W I Q L R l r inv by (auto simp: core_inv_def limits_ok_def a' same_frame_def)
qed


text \<open>Marking a free leaf allocated.\<close>

lemma take_block_inv:
  assumes inv: "core_inv a" and F: "BlockFree x n \<in> lv a"
  shows "core_inv (take_block a (x, n) nodeName)"
    "lv (take_block a (x, n) nodeName) = (lv a - {BlockFree x n}) \<union> {BlockAllocated x n nodeName}"
    "same_frame a (take_block a (x, n) nodeName)"
proof -
  let ?a = "take_block a (x, n) nodeName"
  have wf: "wf_tree (al_root a)" using inv by (simp add: core_inv_def)
  have ok: "block_ok x n" using leaf_wf(4)[OF wf F] by simp
  note sb = set_block_node[of "removeFree a (x, n)" "BlockFree x n" "BlockAllocated x n nodeName"]
  have L: "lv ?a = (lv a - {BlockFree x n}) \<union> {BlockAllocated x n nodeName}"
    and W: "wf_tree (al_root ?a)" and R: "ref_of (al_root ?a) = ref_of (al_root a)"
    using sb wf ok leaf_node[OF F] by (auto simp: take_block_def)
  have "idx_ok ?a" "quar_ok ?a" using inv L
    by (auto simp: take_block_def core_inv_def idx_ok_def quar_ok_def distinct_removeAll)
  then show "core_inv ?a" "lv ?a = (lv a - {BlockFree x n}) \<union> {BlockAllocated x n nodeName}"
    "same_frame a ?a"
    using L W R inv by (auto simp: core_inv_def limits_ok_def take_block_def same_frame_def)
qed

lemma merged_mono: "merged L R \<Longrightarrow> R \<subseteq> S \<Longrightarrow> merged L S"
  unfolding merged_def by blast

lemma merged_take:
  assumes "merged L {(x, n)}"
  shows "merged ((L - {BlockFree x n}) \<union> {BlockAllocated x n a}) {}"
  using assms unfolding merged_def by blast

lemma merged_split:
  assumes "merged L {(x, n)}" "block_ok x n" "n < 32" "rr = (x, Suc n) \<or> rr = (x + half_of n, Suc n)"
  shows "merged ((L - {BlockFree x n}) \<union> {BlockFree x (Suc n), BlockFree (x + half_of n) (Suc n)}) {rr}"
  unfolding merged_def
proof (intro allI impI)
  fix b k
  let ?L = "(L - {BlockFree x n}) \<union> {BlockFree x (Suc n), BlockFree (x + half_of n) (Suc n)}"
  assume k: "k < 32" "block_ok b k" and F: "BlockFree b (Suc k) \<in> ?L" "BlockFree (b + half_of k) (Suc k) \<in> ?L"
  have old: "BlockFree b (Suc k) \<notin> L - {BlockFree x n} \<or> BlockFree (b + half_of k) (Suc k) \<notin> L - {BlockFree x n}"
    using assms(1) k unfolding merged_def by blast
  have "BlockFree b (Suc k) \<in> {BlockFree x (Suc n), BlockFree (x + half_of n) (Suc n)} \<or>
        BlockFree (b + half_of k) (Suc k) \<in> {BlockFree x (Suc n), BlockFree (x + half_of n) (Suc n)}"
    using F old by blast
  then have kn: "k = n" and "b = x \<or> b = x + half_of n \<or> b + half_of n = x"
    by auto
  moreover have "b \<noteq> x + half_of n" using not_ok_half[OF assms(2,3)] k(2) kn by auto
  moreover have "b + half_of n \<noteq> x" using not_ok_half[of b n] assms(2,3) k(2) kn by auto
  ultimately show "(b, Suc k) \<in> {rr} \<or> (b + half_of k, Suc k) \<in> {rr}"
    using assms(4) by auto
qed

definition heldset :: "allocator \<Rightarrow> btree set" where
  "heldset a = {s \<in> lv a. \<not> is_BlockFree s}"

lemma heldset_held: "heldset a = set (held (al_root a))"
  by (auto simp: heldset_def held_def)

definition picks :: "(bref \<Rightarrow> bref \<Rightarrow> bref) \<Rightarrow> bool" where
  "picks pick \<longleftrightarrow> (\<forall>l r. pick l r = l \<or> pick l r = r)"

lemma split_down_inv:
  assumes "picks pick" "core_inv a" "BlockFree (fst b) (snd b) \<in> lv a" "merged (lv a) {b}"
    "snd b \<le> prefix" "prefix \<le> 32" "split_down pick a b prefix = (a', b')"
  shows "core_inv a' \<and> same_frame a a' \<and> heldset a' = heldset a \<and> snd b' = prefix \<and>
    BlockFree (fst b') prefix \<in> lv a' \<and> merged (lv a') {b'} \<and>
    span (fst b') prefix \<subseteq> span (fst b) (snd b) \<and>
    (\<forall>x n. BlockFree x n \<in> lv a \<longrightarrow> (x, n) = b \<or> BlockFree x n \<in> lv a')"
  using assms
proof (induction pick a b prefix arbitrary: a' b' rule: split_down.induct)
  case (1 pick a b prefix)
  obtain x n where b: "b = (x, n)" by (cases b)
  have wf: "wf_tree (al_root a)" using "1.prems" by (simp add: core_inv_def)
  show ?case
  proof (cases "n < prefix")
    case False
    then show ?thesis using "1.prems" b by (auto simp: split_down.simps)
  next
    case True
    then have n: "n < 32" using "1.prems" by simp
    have F: "BlockFree x n \<in> lv a" using "1.prems" b by simp
    have ok: "block_ok x n" using leaf_wf(4)[OF wf F] by simp
    obtain a1 l r where s: "split_block a (x, n) = (a1, l, r)" by (cases "split_block a (x, n)")
    note sp = split_block_inv[OF "1.prems"(2) F n s]
    let ?c = "(fst (pick l r), Suc (snd b))"
    have c: "?c = (x, Suc n) \<or> ?c = (x + half_of n, Suc n)"
    proof -
      have "pick l r = l \<or> pick l r = r" using "1.prems"(1) unfolding picks_def by blast
      then show ?thesis using sp(2,3) b by auto
    qed
    have step: "split_down pick a b prefix = split_down pick a1 ?c prefix"
      using True s b by (subst split_down.simps) simp
    have s': "(a1, l, r) = split_block a b" using s b by simp
    have IH: "core_inv a' \<and> same_frame a1 a' \<and> heldset a' = heldset a1 \<and> snd b' = prefix \<and>
        BlockFree (fst b') prefix \<in> lv a' \<and> merged (lv a') {b'} \<and>
        span (fst b') prefix \<subseteq> span (fst ?c) (snd ?c) \<and>
        (\<forall>x n. BlockFree x n \<in> lv a1 \<longrightarrow> (x, n) = ?c \<or> BlockFree x n \<in> lv a')"
    proof (rule "1.IH"[OF _ s' refl])
      show "snd b < prefix" using True b by simp
      show "picks pick" "core_inv a1" "prefix \<le> 32" using "1.prems" sp by auto
      show "BlockFree (fst ?c) (snd ?c) \<in> lv a1" using c sp(4) by auto
      show "merged (lv a1) {?c}"
        unfolding sp(4) by (rule merged_split[OF _ ok n c]) (use "1.prems" b in simp)
      show "snd ?c \<le> prefix" using True b by simp
      show "split_down pick a1 ?c prefix = (a', b')" using step "1.prems" by simp
    qed
    have "span x (Suc n) \<subseteq> span x n" "span (x + half_of n) (Suc n) \<subseteq> span x n"
      using span_halves(1)[OF ok n] by blast+
    then have "span (fst ?c) (snd ?c) \<subseteq> span x n" using c by (elim disjE) simp_all
    moreover have "heldset a1 = heldset a" unfolding heldset_def sp(4) using F by auto
    moreover have "same_frame a a'" using sp(5) IH same_frame_trans by blast
    moreover have "BlockFree y k \<in> lv a \<Longrightarrow> (y, k) = b \<or> BlockFree y k \<in> lv a'" for y k
    proof -
      assume y: "BlockFree y k \<in> lv a"
      have "(y, k) \<noteq> ?c" if "(y, k) \<noteq> b"
      proof
        assume e: "(y, k) = ?c"
        have "unat y \<in> span (fst ?c) (snd ?c)" using e base_in_span[of y k] by (metis fst_conv snd_conv)
        then have "unat y \<in> tspan (BlockFree y k) \<inter> tspan (BlockFree x n)"
          using \<open>span (fst ?c) (snd ?c) \<subseteq> span x n\<close> by auto
        then have "tspan (BlockFree y k) \<inter> tspan (BlockFree x n) \<noteq> {}" by blast
        then show False using leaf_disjoint[OF wf y F] that b by simp
      qed
      then show ?thesis using IH y sp(4) b by blast
    qed
    ultimately show ?thesis using IH b by auto
  qed
qed


text \<open>The merge loop ends with no free buddy pair left and the held leaves unchanged.\<close>

lemma merged_singleton: "merged {t} {}"
  by (auto simp: merged_def half_of_nz)

lemma merge_up_inv:
  assumes "core_inv a" "BlockFree x n \<in> lv a" "merged (lv a) {(x, n)}"
  shows "core_inv (merge_up a x n) \<and> same_frame a (merge_up a x n) \<and>
    heldset (merge_up a x n) = heldset a \<and> merged (lv (merge_up a x n)) {} \<and>
    al_quarantined (merge_up a x n) = al_quarantined a"
  using assms
proof (induction a x n rule: merge_up.induct)
  case (1 a x)
  have "merged (lv a) {}" using "1.prems"(3) unfolding merged_def by simp
  then show ?case using "1.prems" by simp
next
  case (2 a x m)
  let ?t = "al_root a" and ?s = "BlockFree x (Suc m)"
  have wf: "wf_tree ?t" using "2.prems" by (simp add: core_inv_def)
  have nd: "?s \<in> nodes ?t" using leaf_node "2.prems"(2) by blast
  show ?case
  proof (cases "?s = ?t")
    case True
    then have "(x, Suc m) = ref_of ?t" by (metis btree.sel(1) btree.sel(5))
    then have "parent_of ?t (x, Suc m) = None" by simp
    moreover have "merged (lv a) {}" using True merged_singleton by (metis leaves.simps(2) list.set(1) list.set(2))
    ultimately show ?thesis using "2.prems" by simp
  next
    case False
    obtain b k l r where p: "blk_plen ?s = Suc k" "BlockSplit b k l r \<in> nodes ?t"
      "parent_of ?t (ref_of ?s) = Some (BlockSplit b k l r)"
      "?s = l \<and> buddy_of ?t (ref_of ?s) = Some r \<or> ?s = r \<and> buddy_of ?t (ref_of ?s) = Some l"
      by (rule parent_buddy[OF wf nd False]) blast
    then have k: "k = m" by simp
    let ?p = "BlockSplit b m l r"
    have pn: "?p \<in> nodes ?t" using p k by simp
    have wp: "wf_tree ?p" using wf_nodes[OF wf pn] by simp
    then have wp': "block_ok b m" "m < 32" "blk_base l = b" "blk_plen l = Suc m" "blk_base r = b + half_of m"
      "blk_plen r = Suc m" "wf_tree l" "wf_tree r" by auto
    have sub: "nodes ?p \<subseteq> nodes ?t" using nodes_trans[OF pn] .
    have lrn: "l \<in> nodes ?t" "r \<in> nodes ?t" using subsetD[OF sub, of l] subsetD[OF sub, of r] by simp_all
    obtain bud where bud: "buddy_of ?t (x, Suc m) = Some bud" "{?s, bud} = {l, r}" "bud \<in> nodes ?t"
      using p(4) lrn by (auto simp: insert_commute)
    have par: "parent_of ?t (x, Suc m) = Some ?p" using p k by simp
    have x: "x = b \<or> x = b + half_of m" using p(4) wp' by auto
    show ?thesis
    proof (cases "is_BlockFree bud")
      case False
      have "merged (lv a) {}"
        unfolding merged_def
      proof (intro allI impI)
        fix c j assume c: "j < 32" "block_ok c j" and
          F: "BlockFree c (Suc j) \<in> lv a" "BlockFree (c + half_of j) (Suc j) \<in> lv a"
        have "(c, Suc j) = (x, Suc m) \<or> (c + half_of j, Suc j) = (x, Suc m)"
          using "2.prems"(3) c F unfolding merged_def by blast
        then have "j = m" "c = b"
          using x c not_ok_half[OF c(2,1)] not_ok_half[OF wp'(1,2)] wp'(1) by auto
        then have "BlockFree b (Suc m) \<in> nodes ?t" "BlockFree (b + half_of m) (Suc m) \<in> nodes ?t"
          using F leaf_node by blast+
        note nn = this
        have "l = BlockFree b (Suc m)"
          by (rule node_unique[OF wf lrn(1) nn(1)]) (simp add: wp'(3,4))
        moreover have "r = BlockFree (b + half_of m) (Suc m)"
          by (rule node_unique[OF wf lrn(2) nn(2)]) (simp add: wp'(5,6))
        ultimately have "is_BlockFree l" "is_BlockFree r" by simp_all
        then show "(c, Suc j) \<in> {} \<or> (c + half_of j, Suc j) \<in> {}" using False bud(2) by auto
      qed
      then show ?thesis using False par bud "2.prems" by simp
    next
      case True
      let ?a = "addFree (set_block (removeFree (removeFree a (ref_of l)) (ref_of r)) (b, m) (BlockFree b m)) (b, m)"
      have "\<forall>v \<in> {?s, bud}. is_BlockFree v" using True by simp
      then have fr: "is_BlockFree l" "is_BlockFree r" unfolding bud(2) by simp_all
      have lr: "l = BlockFree b (Suc m)" "r = BlockFree (b + half_of m) (Suc m)"
        using btree.collapse(1)[OF fr(1)] btree.collapse(1)[OF fr(2)] wp' by simp_all
      have step: "merge_up a x (Suc m) = merge_up ?a b m"
        using par bud(1) True by (simp add: Let_def)
      note sb = set_block_node[of "removeFree (removeFree a (ref_of l)) (ref_of r)" ?p "BlockFree b m"]
      have L: "lv ?a = (lv a - {l, r}) \<union> {BlockFree b m}" and W: "wf_tree (al_root ?a)"
        and R: "ref_of (al_root ?a) = ref_of ?t"
        using sb wf pn wp'(1) lr by auto
      have lrL: "l \<in> lv a" "r \<in> lv a" using node_leaf[of l ?t] node_leaf[of r ?t] sub lr by auto
      have ne: "b \<noteq> b + half_of m" using half_of_nz[OF wp'(2)] by metis
      have I: "idx_ok ?a" using "2.prems"(1) L lr ne
        by (auto simp: core_inv_def idx_ok_def distinct_removeAll)
      have Q: "quar_ok ?a" using "2.prems"(1) L lr by (auto simp: core_inv_def quar_ok_def)
      have C: "core_inv ?a" using W I Q R "2.prems"(1) by (auto simp: core_inv_def limits_ok_def)
      have M: "merged (lv ?a) {(b, m)}"
        unfolding merged_def
      proof (intro allI impI)
        fix c j assume c: "j < 32" "block_ok c j" and
          F: "BlockFree c (Suc j) \<in> lv ?a" "BlockFree (c + half_of j) (Suc j) \<in> lv ?a"
        have "\<not> (BlockFree c (Suc j) \<in> lv a - {l, r} \<and> BlockFree (c + half_of j) (Suc j) \<in> lv a - {l, r})"
        proof
          assume G: "BlockFree c (Suc j) \<in> lv a - {l, r} \<and> BlockFree (c + half_of j) (Suc j) \<in> lv a - {l, r}"
          then have "(c, Suc j) = (x, Suc m) \<or> (c + half_of j, Suc j) = (x, Suc m)"
            using "2.prems"(3) c unfolding merged_def by blast
          then have "?s \<in> lv a - {l, r}" using G by auto
          then show False using x lr by auto
        qed
        then have "BlockFree c (Suc j) = BlockFree b m \<or> BlockFree (c + half_of j) (Suc j) = BlockFree b m"
          using F L by (metis UnE singletonD)
        then show "(c, Suc j) \<in> {(b, m)} \<or> (c + half_of j, Suc j) \<in> {(b, m)}" by auto
      qed
      have "heldset ?a = heldset a" unfolding heldset_def L using lr by auto
      moreover have "same_frame a ?a" using R by (simp add: same_frame_def)
      moreover have "core_inv (merge_up ?a b m) \<and> same_frame ?a (merge_up ?a b m) \<and>
          heldset (merge_up ?a b m) = heldset ?a \<and> merged (lv (merge_up ?a b m)) {} \<and>
          al_quarantined (merge_up ?a b m) = al_quarantined ?a"
        using "2.IH"[OF par bud(1)] True C M L by (simp add: Let_def)
      ultimately show ?thesis unfolding step using same_frame_trans by (auto simp del: addFree_simps(7))
    qed
  qed
qed


text \<open>Releasing a held block removes exactly that block; so does a sequence of releases.\<close>

lemma alloc_invD: "alloc_inv a \<Longrightarrow> core_inv a" "alloc_inv a \<Longrightarrow> wf_tree (al_root a)"
  "alloc_inv a \<Longrightarrow> merged (lv a) {}" "alloc_inv a \<Longrightarrow> normal (al_root a)" "alloc_inv a \<Longrightarrow> limits_ok a"
  using alloc_inv_merged[of a] by (simp_all add: alloc_inv_def core_inv_def)

lemma heldsetD: "s \<in> heldset a \<Longrightarrow> s \<in> lv a" "s \<in> heldset a \<Longrightarrow> \<not> is_BlockFree s"
  by (auto simp: heldset_def)

lemma releaseLocked_inv:
  assumes inv: "alloc_inv a" and s: "s \<in> heldset a"
  shows "alloc_inv (releaseLocked a (ref_of s)) \<and> same_frame a (releaseLocked a (ref_of s)) \<and>
    heldset (releaseLocked a (ref_of s)) = heldset a - {s}"
proof -
  have core: "core_inv a" and wf: "wf_tree (al_root a)" and mg: "merged (lv a) {}" and sl: "s \<in> lv a"
    using alloc_invD[OF inv] heldsetD[OF s] by auto
  let ?x = "blk_base s" and ?n = "blk_plen s"
  let ?a = "addFree (set_block (a\<lparr>al_quarantined := removeAll (ref_of s) (al_quarantined a)\<rparr>)
              (ref_of s) (BlockFree ?x ?n)) (ref_of s)"
  have rl: "releaseLocked a (ref_of s) = merge_up ?a ?x ?n" by (simp add: releaseLocked_def Let_def)
  have ok: "block_ok ?x ?n" using leaf_wf(4)[OF wf sl] .
  note sb = set_block_node[of "a\<lparr>al_quarantined := removeAll (ref_of s) (al_quarantined a)\<rparr>" s "BlockFree ?x ?n"]
  have ls: "leaves s = [s]" using leaf_node[OF sl] by (cases s) auto
  have L: "lv ?a = (lv a - {s}) \<union> {BlockFree ?x ?n}" and W: "wf_tree (al_root ?a)"
    and R: "ref_of (al_root ?a) = ref_of (al_root a)"
    using sb wf ok leaf_node[OF sl] ls by auto
  have uniq: "u \<in> lv a \<Longrightarrow> ref_of u = ref_of s \<Longrightarrow> u = s" for u
    using free_leaf_unique[OF wf _ sl] by blast
  have nf: "\<not> is_BlockFree s" using heldsetD[OF s] by simp
  have nF: "BlockFree ?x ?n \<notin> lv a" using uniq[of "BlockFree ?x ?n"] nf by (metis btree.disc(1) btree.sel(1,5))
  have nf': "BlockFree y k \<noteq> s" for y k using nf by auto
  have I: "idx_ok ?a" using core L nf' by (auto simp: core_inv_def idx_ok_def)
  have q0: "distinct (al_quarantined a)"
    "\<And>y k. (y, k) \<in> set (al_quarantined a) \<longleftrightarrow> (\<exists>t. BlockQuarantined y k t \<in> lv a)"
    using core by (auto simp: core_inv_def quar_ok_def)
  have q1: "(\<exists>t. BlockQuarantined y k t \<in> lv ?a) \<longleftrightarrow> (y, k) \<noteq> ref_of s \<and> (\<exists>t. BlockQuarantined y k t \<in> lv a)" for y k
  proof -
    have "BlockQuarantined y k t \<in> lv ?a \<longleftrightarrow> BlockQuarantined y k t \<in> lv a \<and> BlockQuarantined y k t \<noteq> s" for t
      using L by auto
    moreover have "BlockQuarantined y k t \<in> lv a \<Longrightarrow> BlockQuarantined y k t \<noteq> s \<longleftrightarrow> (y, k) \<noteq> ref_of s" for t
      using uniq[of "BlockQuarantined y k t"] by (metis btree.sel(4,8))
    ultimately show ?thesis by blast
  qed
  have Q: "quar_ok ?a" unfolding quar_ok_def q1 using q0 by (simp add: distinct_removeAll) blast
  have C: "core_inv ?a" using W I Q R core by (auto simp: core_inv_def limits_ok_def)
  have M: "merged (lv ?a) {(?x, ?n)}" using mg unfolding merged_def L by blast
  have "heldset ?a = heldset a - {s}" unfolding heldset_def L using nf'[of ?x ?n] by auto
  moreover have "same_frame a ?a" using R by (simp add: same_frame_def)
  moreover have "core_inv (merge_up ?a ?x ?n) \<and> same_frame ?a (merge_up ?a ?x ?n) \<and>
      heldset (merge_up ?a ?x ?n) = heldset ?a \<and> merged (lv (merge_up ?a ?x ?n)) {} \<and>
      al_quarantined (merge_up ?a ?x ?n) = al_quarantined ?a"
    by (rule merge_up_inv[OF C _ M]) (unfold L, blast)
  ultimately show ?thesis
    unfolding rl alloc_inv_merged using same_frame_trans by blast
qed

lemma fold_release_inv:
  assumes "alloc_inv a" "distinct bs" "\<forall>b \<in> set bs. \<exists>s \<in> heldset a. ref_of s = b"
  shows "alloc_inv (foldl releaseLocked a bs) \<and> same_frame a (foldl releaseLocked a bs) \<and>
    heldset (foldl releaseLocked a bs) = {s \<in> heldset a. ref_of s \<notin> set bs}"
  using assms
proof (induction bs arbitrary: a)
  case (Cons b bs)
  obtain s where s: "s \<in> heldset a" "ref_of s = b" using Cons.prems by auto
  let ?a = "releaseLocked a b"
  have r: "alloc_inv ?a" "same_frame a ?a" "heldset ?a = heldset a - {s}"
    using releaseLocked_inv[OF Cons.prems(1) s(1)] s(2) by auto
  have u: "u = s" if "u \<in> heldset a" "ref_of u = b" for u
    using free_leaf_unique[OF alloc_invD(2)[OF Cons.prems(1)] heldsetD(1)[OF that(1)] heldsetD(1)[OF s(1)]]
      that(2) s(2) by simp
  have "\<forall>c \<in> set bs. \<exists>u \<in> heldset ?a. ref_of u = c"
  proof
    fix c assume c: "c \<in> set bs"
    then obtain v where v: "v \<in> heldset a" "ref_of v = c" using Cons.prems(3) by auto
    then have "v \<noteq> s" using c s(2) Cons.prems(2) by auto
    then show "\<exists>u \<in> heldset ?a. ref_of u = c" using v r(3) by auto
  qed
  then have IH: "alloc_inv (foldl releaseLocked ?a bs) \<and> same_frame ?a (foldl releaseLocked ?a bs) \<and>
      heldset (foldl releaseLocked ?a bs) = {v \<in> heldset ?a. ref_of v \<notin> set bs}"
    using Cons.IH[OF r(1)] Cons.prems(2) by simp
  have "{v \<in> heldset ?a. ref_of v \<notin> set bs} = {v \<in> heldset a. ref_of v \<notin> set (b # bs)}"
  proof (intro set_eqI iffI)
    fix v assume "v \<in> {v \<in> heldset ?a. ref_of v \<notin> set bs}"
    then have "v \<in> heldset a" "v \<noteq> s" "ref_of v \<notin> set bs" using r(3) by auto
    moreover have "ref_of v \<noteq> b" using u calculation by blast
    ultimately show "v \<in> {v \<in> heldset a. ref_of v \<notin> set (b # bs)}" by simp
  next
    fix v assume "v \<in> {v \<in> heldset a. ref_of v \<notin> set (b # bs)}"
    then show "v \<in> {v \<in> heldset ?a. ref_of v \<notin> set bs}" using r(3) s(2) by auto
  qed
  then show ?case using IH r(2) same_frame_trans[of a ?a] by simp
qed simp

definition is_due :: "go_time \<Rightarrow> btree \<Rightarrow> bool" where
  "is_due now s \<longleftrightarrow> is_BlockQuarantined s \<and> blk_release_at s \<le> now"

lemma sweepLocked_inv:
  assumes inv: "alloc_inv a"
  shows "alloc_inv (fst (sweepLocked a)) \<and> same_frame a (fst (sweepLocked a)) \<and>
    heldset (fst (sweepLocked a)) = {s \<in> heldset a. \<not> is_due (al_now a) s}"
proof (cases "al_quarantined a = []")
  case True
  then have "\<not> is_BlockQuarantined s" if "s \<in> heldset a" for s
    using heldsetD[OF that] inv by (cases s) (auto simp: alloc_inv_def core_inv_def quar_ok_def)
  then show ?thesis using True inv by (auto simp: sweepLocked_def is_due_def)
next
  case False
  let ?due = "filter (\<lambda>b. \<not> blk_release_at (blk a b) > al_now a) (al_quarantined a)"
  let ?sd = "sort_by (\<lambda>a b. fst a < fst b) ?due"
  have core: "core_inv a" and wf: "wf_tree (al_root a)" using alloc_invD[OF inv] by auto
  have fs: "fst (sweepLocked a) = foldl releaseLocked a ?sd"
    using False by (simp add: sweepLocked_def Let_def)
  have q: "(x, p) \<in> set (al_quarantined a) \<longleftrightarrow> (\<exists>t. BlockQuarantined x p t \<in> lv a)" for x p
    using core by (simp add: core_inv_def quar_ok_def)
  have d: "distinct ?sd" using core by (simp add: core_inv_def quar_ok_def)
  have rd: "BlockQuarantined x p t \<in> lv a \<Longrightarrow> walk (al_root a) x p = BlockQuarantined x p t" for x p t
    using leaf_wf(5)[OF wf, of "BlockQuarantined x p t"] by simp
  have "\<forall>b \<in> set ?sd. \<exists>s \<in> heldset a. ref_of s = b"
  proof
    fix b assume "b \<in> set ?sd"
    then obtain t where t: "BlockQuarantined (fst b) (snd b) t \<in> lv a" using q[of "fst b" "snd b"] by auto
    then show "\<exists>s \<in> heldset a. ref_of s = b"
      by (intro bexI[of _ "BlockQuarantined (fst b) (snd b) t"]) (auto simp: heldset_def)
  qed
  note fr = fold_release_inv[OF inv d this]
  have "ref_of s \<in> set ?sd \<longleftrightarrow> is_due (al_now a) s" if s: "s \<in> heldset a" for s
  proof -
    have sl: "s \<in> lv a" using heldsetD[OF s] by simp
    have "ref_of s \<in> set (al_quarantined a) \<longleftrightarrow> is_BlockQuarantined s"
      using q[of "blk_base s" "blk_plen s"] free_leaf_unique[OF wf sl] sl
      by (cases s) fastforce+
    moreover have "blk a (ref_of s) = s" using leaf_wf(5)[OF wf sl] by simp
    ultimately show ?thesis by (auto simp: is_due_def)
  qed
  then show ?thesis unfolding fs using fr by auto
qed

end
