(* ===== verification/Allocator_Ops.thy ===== *)
theory Allocator_Ops
  imports Allocator_Inv
begin

text \<open>
  The effect of the allocating operations: which free block is chosen (\<open>best_fit\<close>), what a grant does
  (\<open>granted\<close>), the size of a request, reserving a given range, and growing next to a block.
\<close>

lemma lowestFree_fold:
  "foldl (\<lambda>best b. case best of None \<Rightarrow> Some (b, p)
      | Some c \<Rightarrow> if b < fst c then Some (b, p) else best) (Some (m, p)) bs
   = Some (Min (insert m (set bs)), p)" for m :: addr
proof (induction bs arbitrary: m)
  case (Cons b bs)
  have "Min (insert m (insert b (set bs))) = Min (insert (min b m) (set bs))"
    by (cases "bs = []") (simp_all add: min.assoc min.commute min.left_commute)
  then show ?case using Cons[of "min b m"] by (auto simp: min_def not_less)
qed simp

lemma lowestFree_eq:
  "lowestFree a p = (if al_free a p = [] then None else Some (Min (set (al_free a p)), p))"
  unfolding lowestFree_def using lowestFree_fold[of p "hd (al_free a p)" "tl (al_free a p)"]
  by (cases "al_free a p") simp_all

lemma lowestFree_None: "lowestFree a p = None \<longleftrightarrow> al_free a p = []"
  by (simp add: lowestFree_eq)

lemma lowestFree_Some: "lowestFree a p = Some b \<Longrightarrow>
    snd b = p \<and> fst b \<in> set (al_free a p) \<and> (\<forall>c \<in> set (al_free a p). fst b \<le> c)"
  by (auto simp: lowestFree_eq split: if_splits)

lemma first_free_None: "first_free a ps = None \<longleftrightarrow> (\<forall>p \<in> set ps. al_free a p = [])"
  by (induction ps) (auto split: option.splits simp: lowestFree_None[symmetric])

lemma first_free_Some:
  "first_free a ps = Some b \<Longrightarrow>
   \<exists>qs rs. ps = qs @ snd b # rs \<and> (\<forall>p \<in> set qs. al_free a p = []) \<and> lowestFree a (snd b) = Some b"
proof (induction ps)
  case (Cons p ps)
  show ?case
  proof (cases "lowestFree a p")
    case None
    then obtain qs rs where "ps = qs @ snd b # rs" "\<forall>p \<in> set qs. al_free a p = []" "lowestFree a (snd b) = Some b"
      using Cons by auto
    then show ?thesis using None by (intro exI[of _ "p # qs"] exI[of _ rs]) (simp add: lowestFree_None)
  next
    case (Some c)
    then show ?thesis using Cons.prems lowestFree_Some[OF Some] by (intro exI[of _ "[]"] exI[of _ ps]) auto
  qed
qed simp

definition best_fit :: "allocator \<Rightarrow> nat \<Rightarrow> bref \<Rightarrow> bool" where
  "best_fit a hi b \<longleftrightarrow> BlockFree (fst b) (snd b) \<in> lv a \<and> snd b < hi \<and>
     (\<forall>x q. BlockFree x q \<in> lv a \<longrightarrow> q < hi \<longrightarrow> q \<le> snd b \<and> (q = snd b \<longrightarrow> fst b \<le> x))"

lemma core_idx: "core_inv a \<Longrightarrow> x \<in> set (al_free a p) \<longleftrightarrow> BlockFree x p \<in> lv a"
  by (simp add: core_inv_def idx_ok_def)

lemma first_free_best_fit:
  assumes core: "core_inv a" and ff: "first_free a (levels_from a hi) = Some b"
  shows "best_fit a hi b"
proof -
  obtain qs rs where ps: "levels_from a hi = qs @ snd b # rs" "\<forall>p \<in> set qs. al_free a p = []"
    and lf: "lowestFree a (snd b) = Some b" using first_free_Some[OF ff] by blast
  have ix: "x \<in> set (al_free a p) \<longleftrightarrow> BlockFree x p \<in> lv a" for x p
    using core by (simp add: core_inv_def idx_ok_def)
  have "snd b \<in> set (levels_from a hi)" using ps by simp
  then have sb: "blk_plen (al_root a) \<le> snd b" "snd b < hi" by (auto simp: levels_from_def)
  have "sorted (rev (levels_from a hi))" "distinct (levels_from a hi)" by (simp_all add: levels_from_def)
  then have gr: "\<forall>p \<in> set rs. p < snd b" using ps(1) by (auto simp: sorted_append)
      (metis le_neq_implies_less)
  have wf: "wf_tree (al_root a)" using core by (simp add: core_inv_def)
  have "q \<le> snd b \<and> (q = snd b \<longrightarrow> fst b \<le> x)" if q: "BlockFree x q \<in> lv a" "q < hi" for x q
  proof -
    have "q \<in> set (levels_from a hi)" using leaf_wf(3)[OF wf q(1)] q(2) by (simp add: levels_from_def)
    moreover have "q \<notin> set qs" using ps(2) ix[of x q] q(1) by auto
    ultimately have "q = snd b \<or> q \<in> set rs" using ps(1) by auto
    then show ?thesis using gr lowestFree_Some[OF lf] ix[of x q] q(1) by auto
  qed
  then show ?thesis using sb ix[of "fst b" "snd b"] lowestFree_Some[OF lf] by (auto simp: best_fit_def)
qed

lemma first_free_exhausted:
  assumes core: "core_inv a" and ff: "first_free a (levels_from a hi) = None"
  shows "BlockFree x q \<in> lv a \<Longrightarrow> hi \<le> q"
proof (rule ccontr)
  assume q: "BlockFree x q \<in> lv a" "\<not> hi \<le> q"
  have "q \<in> set (levels_from a hi)"
    using leaf_wf(3)[of "al_root a", OF _ q(1)] q(2) core by (simp add: levels_from_def core_inv_def)
  then have "al_free a q = []" using ff by (simp add: first_free_None)
  then show False using core_idx[OF core, of x q] q(1) by simp
qed

definition granted :: "allocator \<Rightarrow> allocator \<Rightarrow> bref \<Rightarrow> bref \<Rightarrow> string \<Rightarrow> bool" where
  "granted a a' c b nodeName \<longleftrightarrow>
     alloc_inv a' \<and> same_frame a a' \<and> BlockFree (fst c) (snd c) \<in> lv a \<and>
     span (fst b) (snd b) \<subseteq> span (fst c) (snd c) \<and>
     heldset a' = insert (BlockAllocated (fst b) (snd b) nodeName) (heldset a)"

lemma held_apart:
  assumes "granted a a' c b nodeName" "alloc_inv a" "s \<in> heldset a"
  shows "tspan s \<inter> span (fst b) (snd b) = {}"
proof -
  have "s \<noteq> BlockFree (fst c) (snd c)" using heldsetD(2)[OF assms(3)] by (metis btree.disc(1))
  then have "tspan s \<inter> tspan (BlockFree (fst c) (snd c)) = {}"
    using leaf_disjoint[of "al_root a" s "BlockFree (fst c) (snd c)"] alloc_invD(2)[OF assms(2)]
      heldsetD[OF assms(3)] assms(1) unfolding granted_def by metis
  then show ?thesis using assms(1) by (auto simp: granted_def)
qed

lemma granted_fresh:
  assumes "granted a a' c b nodeName" "alloc_inv a"
  shows "BlockAllocated (fst b) (snd b) nodeName \<notin> heldset a"
  using held_apart[OF assms(1,2), of "BlockAllocated (fst b) (snd b) nodeName"] base_in_span by fastforce

lemma merged_any: "merged L {} \<Longrightarrow> merged L R"
  unfolding merged_def by blast

lemma grant:
  assumes inv: "alloc_inv a" and p: "picks pick" and c: "BlockFree (fst c) (snd c) \<in> lv a"
    and le: "prefix \<le> 32" "snd c \<le> prefix"
    and sd: "split_down pick a c prefix = (a', b)"
  shows "granted a (take_block a' b nodeName) c b nodeName \<and> snd b = prefix"
proof -
  have core: "core_inv a" and m: "merged (lv a) {c}" using alloc_invD[OF inv] merged_any by auto
  have r: "core_inv a'" "same_frame a a'" "heldset a' = heldset a" "snd b = prefix"
    "BlockFree (fst b) prefix \<in> lv a'" "merged (lv a') {b}" "span (fst b) prefix \<subseteq> span (fst c) (snd c)"
    using split_down_inv[OF p core c m le(2,1) sd] by auto
  have b: "b = (fst b, prefix)" using r(4) by (cases b) auto
  note t = take_block_inv[OF r(1,5), of nodeName]
  have "merged (lv (take_block a' b nodeName)) {}"
    using merged_take[of "lv a'" "fst b" prefix nodeName] r(6) t(2) b by metis
  then have "alloc_inv (take_block a' b nodeName)" using t(1) b by (metis alloc_inv_merged)
  moreover have "same_frame a (take_block a' b nodeName)" using same_frame_trans[OF r(2)] t(3) b by metis
  moreover have "heldset (take_block a' b nodeName) = insert (BlockAllocated (fst b) prefix nodeName) (heldset a')"
  proof -
    have l: "lv (take_block a' b nodeName) = (lv a' - {BlockFree (fst b) prefix}) \<union> {BlockAllocated (fst b) prefix nodeName}"
      using t(2) b by metis
    show ?thesis unfolding heldset_def l by auto
  qed
  ultimately show ?thesis using r c by (simp add: granted_def)
qed

lemma picks_rules [simp]: "picks (\<lambda>l r. l)" "picks (\<lambda>l r. if P l r then r else l)"
  by (simp_all add: picks_def)

lemma allocatePrefixLocked_cases:
  assumes inv: "alloc_inv a" and le: "prefix \<le> 32"
  obtains (none) "allocatePrefixLocked a prefix nodeName = (a, Inl (ErrNoSpace prefix))"
      "\<And>x q. BlockFree x q \<in> lv a \<Longrightarrow> prefix < q"
    | (some) c b a' where "allocatePrefixLocked a prefix nodeName = (a', Inr b)" "snd b = prefix"
      "best_fit a (Suc prefix) c" "granted a a' c b nodeName"
proof (cases "first_free a (levels_from a (Suc prefix))")
  case None
  show thesis
    using first_free_exhausted[OF alloc_invD(1)[OF inv] None] None
    by (intro none) (auto simp: allocatePrefixLocked_def Suc_le_eq)
next
  case (Some c)
  have bf: "best_fit a (Suc prefix) c" by (rule first_free_best_fit[OF alloc_invD(1)[OF inv] Some])
  obtain a1 b where sd: "split_down (\<lambda>l r. l) a c prefix = (a1, b)" by (cases "split_down (\<lambda>l r. l) a c prefix")
  have "granted a (take_block a1 b nodeName) c b nodeName \<and> snd b = prefix"
    using bf by (intro grant[OF inv _ _ le _ sd]) (auto simp: best_fit_def)
  then show thesis using Some sd bf by (intro some) (auto simp: allocatePrefixLocked_def)
qed

subsection \<open>The size of a request\<close>

lemma bits_len_le: "bits_len n \<le> k \<longleftrightarrow> n < 2 ^ k"
proof (induction n arbitrary: k rule: bits_len.induct)
  case (1 n)
  show ?case
  proof (cases "n = 0")
    case False
    then show ?thesis
      using 1[OF False, of "k - 1"]
      by (cases k) (auto simp: bits_len.simps[of n] less_mult_imp_div_less div_less_iff_less_mult mult.commute)
  qed (simp add: bits_len.simps)
qed

lemma prefixFor_Inr:
  assumes "limits_ok a" "prefixFor a n = Inr p"
  shows "al_max a \<le> p" "p \<le> al_min a" "p \<le> 32" "n \<le> int (addresses p)"
    "p < al_min a \<Longrightarrow> addresses (Suc p) < nat n"
proof -
  let ?m = "nat ((if n < 1 then 1 else n) - 1)" and ?L = "bits_len (nat ((if n < 1 then 1 else n) - 1))"
  have p: "p = nat (min (32 - int ?L) (int (al_min a)))" "int (al_max a) \<le> min (32 - int ?L) (int (al_min a))"
    using assms(2) by (auto simp: prefixFor_def Let_def split: if_splits)
  then show "al_max a \<le> p" "p \<le> al_min a" by linarith+
  then show "p \<le> 32" using assms(1) by (simp add: limits_ok_def)
  have "?L \<le> 32 - p" using p by linarith
  then have "?m < addresses p" by (simp add: bits_len_le addresses_def)
  then show "n \<le> int (addresses p)" by (auto split: if_splits)
  assume "p < al_min a"
  then have "\<not> ?L \<le> 32 - Suc p" using p assms(1) by (auto simp: limits_ok_def)
  then have "addresses (Suc p) \<le> ?m" by (simp add: bits_len_le addresses_def)
  then have "addresses (Suc p) \<le> nat (n - 1)" "n \<ge> 1" using addresses_pos[of "Suc p"] by (auto split: if_splits simp del: addresses_pos addresses_nz)
  then show "addresses (Suc p) < nat n" by linarith
qed

lemma prefixFor_Inl:
  assumes "limits_ok a"
  shows "(\<exists>e. prefixFor a n = Inl e) \<longleftrightarrow> int (addresses (al_max a)) < n"
proof -
  let ?m = "nat ((if n < 1 then 1 else n) - 1)" and ?L = "bits_len (nat ((if n < 1 then 1 else n) - 1))"
  have "(\<exists>e. prefixFor a n = Inl e) \<longleftrightarrow> \<not> int (al_max a) \<le> 32 - int ?L"
    using assms by (auto simp: prefixFor_def Let_def limits_ok_def)
  also have "\<dots> \<longleftrightarrow> \<not> ?L \<le> 32 - al_max a" using assms by (auto simp: limits_ok_def)
  also have "\<dots> \<longleftrightarrow> addresses (al_max a) \<le> ?m" by (simp add: bits_len_le addresses_def not_less)
  also have "\<dots> \<longleftrightarrow> int (addresses (al_max a)) < n"
    using addresses_pos[of "al_max a"] by (auto simp del: addresses_pos addresses_nz)
  finally show ?thesis .
qed

abbreviation swept :: "allocator \<Rightarrow> allocator" where
  "swept a \<equiv> fst (sweepLocked a)"

lemma swept_inv:
  assumes "alloc_inv a"
  shows "alloc_inv (swept a)" "same_frame a (swept a)"
    "heldset (swept a) = {s \<in> heldset a. \<not> is_due (al_now a) s}"
  using sweepLocked_inv[OF assms] by auto

lemma swept_limits:
  assumes "alloc_inv a"
  shows "limits_ok (swept a)" "al_min (swept a) = al_min a" "al_max (swept a) = al_max a" "al_min a \<le> 32"
  using swept_inv[OF assms] alloc_invD(5)[OF assms] alloc_invD(5)[OF swept_inv(1)[OF assms]]
  by (auto simp: same_frame_def limits_ok_def)

lemma al_allocate_Inr:
  assumes inv: "alloc_inv a" and r: "al_allocate a n nodeName = (a', Inr b)"
  obtains c where "prefixFor (swept a) n = Inr (snd b)" "best_fit (swept a) (Suc (snd b)) c"
    "granted (swept a) a' c b nodeName"
proof -
  obtain p where p: "prefixFor (swept a) n = Inr p" and
    r2: "allocatePrefixLocked (swept a) p nodeName = (a', Inr b)"
    using r by (auto simp: al_allocate_def Let_def split: sum.splits)
  have p32: "p \<le> 32" using prefixFor_Inr(3)[OF swept_limits(1)[OF inv] p] .
  show thesis
    using allocatePrefixLocked_cases[OF swept_inv(1)[OF inv] p32, of nodeName] that p r2 by auto
qed

lemma al_allocate_Inl:
  assumes inv: "alloc_inv a" and r: "al_allocate a n nodeName = (a', Inl e)"
  shows "a' = swept a"
    "int (addresses (al_max a)) < n \<or>
      (\<forall>x q. BlockFree x q \<in> lv (swept a) \<longrightarrow> int (addresses q) < max n (int (addresses (al_min a))))"
proof -
  note lim = swept_limits[OF inv]
  have "a' = swept a \<and> (int (addresses (al_max a)) < n \<or>
      (\<forall>x q. BlockFree x q \<in> lv (swept a) \<longrightarrow> int (addresses q) < max n (int (addresses (al_min a)))))"
  proof (cases "prefixFor (swept a) n")
    case (Inl e')
    then show ?thesis using r prefixFor_Inl[OF lim(1), of n] lim(3) by (auto simp: al_allocate_def Let_def)
  next
    case (Inr p)
    then have r2: "allocatePrefixLocked (swept a) p nodeName = (a', Inl e)"
      using r by (simp add: al_allocate_def Let_def)
    note pf = prefixFor_Inr[OF lim(1) Inr]
    show ?thesis
    proof (rule allocatePrefixLocked_cases[OF swept_inv(1)[OF inv] pf(3), of nodeName])
      assume e: "allocatePrefixLocked (swept a) p nodeName = (swept a, Inl (ErrNoSpace p))"
        and no: "\<And>x q. BlockFree x q \<in> lv (swept a) \<Longrightarrow> p < q"
      have "int (addresses q) < max n (int (addresses (al_min a)))" if "BlockFree x q \<in> lv (swept a)" for x q
      proof -
        have pq: "p < q" using no[OF that] .
        have "q \<le> 32" using leaf_wf(4)[OF alloc_invD(2)[OF swept_inv(1)[OF inv]] that] by (simp add: block_ok_def)
        show ?thesis
        proof (cases "p < al_min a")
          case True
          then have "addresses (Suc p) < nat n" using pf(5) lim(2) by simp
          then show ?thesis using addresses_mono[of "Suc p" q] pq by simp
        next
          case False
          then have pm: "p = al_min a" using pf(2) lim(2) by simp
          have "addresses q < addresses p" using pq \<open>q \<le> 32\<close> by (simp add: addresses_def)
          then show ?thesis using pm by simp
        qed
      qed
      then show ?thesis using e r2 by simp
    next
      fix c b a'' assume "allocatePrefixLocked (swept a) p nodeName = (a'', Inr b)"
      then show ?thesis using r2 by simp
    qed
  qed
  then show "a' = swept a" "int (addresses (al_max a)) < n \<or>
      (\<forall>x q. BlockFree x q \<in> lv (swept a) \<longrightarrow> int (addresses q) < max n (int (addresses (al_min a))))"
    by blast+
qed

lemma ref_root: "ref_of (al_root a') = ref_of (al_root a) \<longleftrightarrow>
    blk_base (al_root a') = blk_base (al_root a) \<and> blk_plen (al_root a') = blk_plen (al_root a)"
  by simp

lemma root_determined:
  assumes "alloc_inv a" "alloc_inv a'" "same_frame a a'" "heldset a = heldset a'"
  shows "al_root a = al_root a'"
  using canonical[of "al_root a" "al_root a'"] alloc_invD[OF assms(1)] alloc_invD[OF assms(2)] assms(3,4)
  by (auto simp: same_frame_def heldset_held)

lemma releaseLocked_granted:
  assumes inv: "alloc_inv a" and g: "granted a a' c b nodeName"
  shows "al_root (releaseLocked a' b) = al_root a" "alloc_inv (releaseLocked a' b)"
    "same_frame a (releaseLocked a' b)"
proof -
  let ?s = "BlockAllocated (fst b) (snd b) nodeName"
  have s: "?s \<in> heldset a'" "alloc_inv a'" "same_frame a a'" using g by (auto simp: granted_def)
  have r: "alloc_inv (releaseLocked a' b)" "same_frame a' (releaseLocked a' b)"
    "heldset (releaseLocked a' b) = heldset a' - {?s}"
    using releaseLocked_inv[OF s(2,1)] by auto
  show "alloc_inv (releaseLocked a' b)" by (rule r)
  show f: "same_frame a (releaseLocked a' b)" by (rule same_frame_trans[OF s(3) r(2)])
  have "heldset (releaseLocked a' b) = heldset a"
    using r(3) g granted_fresh[OF g inv] by (auto simp: granted_def)
  then show "al_root (releaseLocked a' b) = al_root a"
    using root_determined[OF inv r(1) f] by simp
qed

lemma checkOwned_Some:
  assumes "alloc_inv a"
  shows "checkOwned a (Some b) = None \<longleftrightarrow> (\<exists>nodeName. BlockAllocated (fst b) (snd b) nodeName \<in> heldset a)"
proof -
  have wf: "wf_tree (al_root a)" using alloc_invD[OF assms] by auto
  let ?w = "blk a b"
  have n: "?w \<in> nodes (al_root a)" by (rule walk_in_nodes)
  show ?thesis
  proof
    assume "checkOwned a (Some b) = None"
    then have "is_BlockAllocated ?w" "ref_of ?w = b" by (auto simp: checkOwned_def split: if_splits)
    then obtain m where w: "?w = BlockAllocated (fst b) (snd b) m" by (auto simp: is_BlockAllocated_def)
    then have "?w \<in> lv a" using node_leaf[OF n] by simp
    then show "\<exists>nodeName. BlockAllocated (fst b) (snd b) nodeName \<in> heldset a"
      unfolding heldset_def w by (intro exI[of _ m]) simp
  next
    assume "\<exists>nodeName. BlockAllocated (fst b) (snd b) nodeName \<in> heldset a"
    then obtain m where m: "BlockAllocated (fst b) (snd b) m \<in> lv a" by (auto simp: heldset_def)
    then have "?w = BlockAllocated (fst b) (snd b) m" using leaf_wf(5)[OF wf m] by simp
    then show "checkOwned a (Some b) = None" by (simp add: checkOwned_def)
  qed
qed

subsection \<open>Reserving a given range\<close>

lemma walk_covers:
  "wf_tree t \<Longrightarrow> block_ok x p \<Longrightarrow> span x p \<subseteq> tspan t \<Longrightarrow> blk_plen t \<le> p \<Longrightarrow>
   span x p \<subseteq> tspan (walk t x p) \<and> blk_plen (walk t x p) \<le> p \<and>
   (is_BlockSplit (walk t x p) \<longrightarrow> blk_plen (walk t x p) = p)"
proof (induction t)
  case (BlockSplit b n l r)
  note sp = wf_split_spans[OF BlockSplit.prems(1)]
  have wf: "wf_tree l" "wf_tree r" "blk_plen l = Suc n" "blk_plen r = Suc n" "blk_base l = b"
    "block_ok (blk_base l) (Suc n)" "block_ok (blk_base r) (Suc n)"
    using BlockSplit.prems wf_block_ok[of l] wf_block_ok[of r] by auto
  show ?case
  proof (cases "n < p")
    case True
    have xin: "unat x \<in> span b n" using subsetD[OF BlockSplit.prems(3) base_in_span] by simp
    show ?thesis
    proof (cases "blk_base r \<le> x")
      case T: True
      have "unat x \<in> tspan r" using xin sp T wf by (auto simp: span_def word_le_nat_alt)
      then have "span x p \<subseteq> tspan r"
        using aligned_within[OF BlockSplit.prems(2) wf(7)] True wf(4) by simp
      then show ?thesis using BlockSplit.IH(2)[OF wf(2) BlockSplit.prems(2)] True T wf(4) by simp
    next
      case F: False
      have "unat x \<in> tspan l" using xin sp F wf by (auto simp: span_def word_le_nat_alt)
      then have "span x p \<subseteq> tspan l"
        using aligned_within[OF BlockSplit.prems(2) wf(6)] True wf(3) by simp
      then show ?thesis using BlockSplit.IH(1)[OF wf(1) BlockSplit.prems(2)] True F wf(3) by simp
    qed
  next
    case False
    then show ?thesis using BlockSplit.prems by simp
  qed
qed auto

lemma split_down_reserve:
  assumes "core_inv a" "BlockFree (fst c) (snd c) \<in> lv a" "snd c \<le> p" "block_ok x p"
    "span x p \<subseteq> span (fst c) (snd c)"
    "split_down (\<lambda>l r. if x \<ge> fst r then r else l) a c p = (a', b)"
  shows "b = (x, p)"
  using assms
proof (induction "\<lambda>l r. if x \<ge> fst r then r else l :: bref" a c p arbitrary: a' b rule: split_down.induct)
  case (1 a c p)
  obtain y n where c: "c = (y, n)" by (cases c)
  have wf: "wf_tree (al_root a)" using "1.prems"(1) by (simp add: core_inv_def)
  have F: "BlockFree y n \<in> lv a" using "1.prems" c by simp
  have ok: "block_ok y n" using leaf_wf(4)[OF wf F] by simp
  show ?case
  proof (cases "n < p")
    case False
    then have "n = p" "b = c" using "1.prems" c by (auto simp: split_down.simps)
    moreover have "x = y"
    proof -
      have "unat y \<le> unat x" "unat x + addresses p \<le> unat y + addresses p"
        using "1.prems"(5) c \<open>n = p\<close> by (auto simp: span_def ivl_subset not_le)
      then show ?thesis by (simp add: word_unat_eq_iff)
    qed
    ultimately show ?thesis using c by simp
  next
    case True
    then have n: "n < 32" using "1.prems"(4) by (simp add: block_ok_def)
    obtain a1 l r where s: "split_block a (y, n) = (a1, l, r)" by (cases "split_block a (y, n)")
    note sp = split_block_inv[OF "1.prems"(1) F n s]
    have s': "(a1, l, r) = split_block a c" using s c by simp
    let ?c = "(fst (if fst r \<le> x then r else l), Suc (snd c))"
    have step: "split_down (\<lambda>l r. if x \<ge> fst r then r else l) a1 ?c p = (a', b)"
      using "1.prems"(6) True s c by (subst (asm) split_down.simps) simp
    have cc: "?c = (if y + half_of n \<le> x then (y + half_of n, Suc n) else (y, Suc n))"
      using sp(2,3) c by auto
    have xin: "unat x \<in> span y n" using subsetD[OF "1.prems"(5) base_in_span] c by simp
    note bh = block_ok_halves[OF ok n]
    have "unat x \<in> span (fst ?c) (Suc n)"
      using xin bh(3) unfolding cc by (auto simp: span_def word_le_nat_alt addresses_Suc[OF n])
    moreover have "block_ok (fst ?c) (Suc n)" unfolding cc using bh by simp
    ultimately have sub: "span x p \<subseteq> span (fst ?c) (snd ?c)"
      using aligned_within[OF "1.prems"(4), of "fst ?c" "Suc n"] True c by simp
    have "BlockFree (fst ?c) (snd ?c) \<in> lv a1" using sp(4) unfolding cc by (auto simp: c)
    then show ?thesis
      using "1.hyps"[OF _ s' refl sp(1) _ _ "1.prems"(4) sub step] True c by simp
  qed
qed

lemma root_net_contains:
  assumes "alloc_inv a"
  shows "net_contains (root_net a) x \<longleftrightarrow> unat x \<in> tspan (al_root a)"
  using wf_block_ok[OF alloc_invD(2)[OF assms]] net_contains_iff[of "blk_plen (al_root a)" "blk_base (al_root a)" x]
  by (simp add: root_net_def span_def block_ok_def addresses_def)

lemma parse_cidr_block_ok: "parse_cidr s = Some (ip, n) \<Longrightarrow> block_ok (net_ip n) (net_ones n)"
  using parse_cidr_bounds[of s ip n] by (simp add: block_ok_def addresses_def)

lemma al_contains_iff:
  assumes inv: "alloc_inv a" and p: "parse_cidr cidr = Some (ip, n)"
  shows "al_contains a cidr \<longleftrightarrow> blk_plen (al_root a) \<le> net_ones n \<and> span (net_ip n) (net_ones n) \<subseteq> tspan (al_root a)"
proof -
  have "unat (net_ip n) \<in> tspan (al_root a) \<longleftrightarrow> span (net_ip n) (net_ones n) \<subseteq> tspan (al_root a)"
    if "blk_plen (al_root a) \<le> net_ones n"
    using aligned_within[OF parse_cidr_block_ok[OF p] wf_block_ok[OF alloc_invD(2)[OF inv]] that]
      base_in_span by blast
  then show ?thesis using p root_net_contains[OF inv] by (auto simp: al_contains_def)
qed

lemma held_in_node:
  assumes "wf_tree t" "normal t" "s \<in> nodes t" "\<not> is_BlockFree s"
  shows "\<exists>u \<in> set (held t). tspan u \<subseteq> tspan s"
  using assms
proof (induction t)
  case (BlockSplit b n l r)
  show ?case
  proof (cases "s = BlockSplit b n l r")
    case True
    then have "held s \<noteq> []" using held_Nil_iff[of s] BlockSplit.prems by simp
    then obtain u where "u \<in> set (held s)" by (cases "held s") auto
    then show ?thesis
      using leaf_wf(2)[OF BlockSplit.prems(1), of u] set_held_leaves[of u s] True by auto
  next
    case False
    then show ?thesis using BlockSplit by auto
  qed
qed auto

lemma al_reserve_cases:
  assumes inv: "alloc_inv a" and p: "parse_cidr cidr = Some (ip, n)"
  obtains (ok) c a' where "al_reserve a cidr nodeName = (a', Inr (net_ip n, net_ones n))"
      "granted a a' c (net_ip n, net_ones n) nodeName"
      "blk_plen (al_root a) \<le> net_ones n" "span (net_ip n) (net_ones n) \<subseteq> tspan (al_root a)"
    | (outside) "al_reserve a cidr nodeName = (a, Inl (ErrOutside cidr))"
      "\<not> (blk_plen (al_root a) \<le> net_ones n \<and> span (net_ip n) (net_ones n) \<subseteq> tspan (al_root a))"
    | (overlap) s where "al_reserve a cidr nodeName = (a, Inl (ErrOverlapsHeld cidr))"
      "s \<in> heldset a" "tspan s \<inter> span (net_ip n) (net_ones n) \<noteq> {}"
      "blk_plen (al_root a) \<le> net_ones n" "span (net_ip n) (net_ones n) \<subseteq> tspan (al_root a)"
proof -
  have wf: "wf_tree (al_root a)" and nm: "normal (al_root a)" using alloc_invD[OF inv] by auto
  let ?x = "net_ip n" and ?p = "net_ones n" and ?cur = "walk (al_root a) (net_ip n) (net_ones n)"
  have bok: "block_ok ?x ?p" by (rule parse_cidr_block_ok[OF p])
  show thesis
  proof (cases "al_contains a cidr")
    case False
    then show thesis using al_contains_iff[OF inv p] by (intro outside) (simp_all add: al_reserve_def p)
  next
    case True
    then have in_pool: "blk_plen (al_root a) \<le> ?p" "span ?x ?p \<subseteq> tspan (al_root a)"
      using al_contains_iff[OF inv p] by auto
    have w: "span ?x ?p \<subseteq> tspan ?cur" "blk_plen ?cur \<le> ?p" "is_BlockSplit ?cur \<Longrightarrow> blk_plen ?cur = ?p"
      using walk_covers[OF wf bok in_pool(2,1)] by auto
    have nd: "?cur \<in> nodes (al_root a)" by (rule walk_in_nodes)
    show thesis
    proof (cases "is_BlockFree ?cur")
      case False
      obtain s where s: "s \<in> heldset a" "tspan s \<subseteq> tspan ?cur"
        using held_in_node[OF wf nm nd False] by (auto simp: heldset_held)
      have "tspan s \<inter> span ?x ?p \<noteq> {}"
      proof (cases "is_BlockSplit ?cur")
        case True
        have "block_ok (blk_base ?cur) ?p" using wf_block_ok wf_nodes[OF wf nd] w(3)[OF True] by metis
        moreover have "span (blk_base ?cur) ?p \<inter> span ?x ?p \<noteq> {}"
          using w(1) base_in_span[of ?x ?p] unfolding w(3)[OF True] by blast
        ultimately have "tspan ?cur \<subseteq> span ?x ?p"
          using aligned_nested[OF _ bok order_refl, of "blk_base ?cur"] w(3)[OF True] by simp
        then show ?thesis using s(2) base_in_span[of "blk_base s" "blk_plen s"] by blast
      next
        case nsplit: False
        then have leaf: "?cur \<in> lv a" using node_leaf[OF nd] by simp
        have "tspan s \<inter> tspan ?cur \<noteq> {}" using s(2) base_in_span[of "blk_base s" "blk_plen s"] by blast
        then have "s = ?cur" using leaf_disjoint[OF wf heldsetD(1)[OF s(1)] leaf] by simp
        then show ?thesis using w(1) base_in_span[of ?x ?p] by blast
      qed
      then show thesis using overlap[OF _ s(1) _ in_pool] False True by (simp add: al_reserve_def p Let_def)
    next
      case free: True
      have Fl: "BlockFree (fst (ref_of ?cur)) (snd (ref_of ?cur)) \<in> lv a"
        using node_leaf[OF nd] free by (cases ?cur) auto
      obtain a1 b where sd: "split_down (\<lambda>l r. if ?x \<ge> fst r then r else l) a (ref_of ?cur) ?p = (a1, b)"
        by (cases "split_down (\<lambda>l r. if ?x \<ge> fst r then r else l) a (ref_of ?cur) ?p")
      have p32: "?p \<le> 32" using bok by (simp add: block_ok_def)
      have b: "b = (?x, ?p)"
        using split_down_reserve[OF alloc_invD(1)[OF inv] Fl _ bok _ sd] w(1,2) by simp
      have "granted a (take_block a1 b nodeName) (ref_of ?cur) b nodeName"
        using grant[OF inv _ Fl p32 _ sd] w(2) by simp
      then show thesis using sd b free True w(2) in_pool
        by (intro ok[of "take_block a1 b nodeName" "ref_of ?cur"]) (simp_all add: al_reserve_def p Let_def)
    qed
  qed
qed

subsection \<open>Growing next to a block\<close>

lemma split_down_low:
  assumes "core_inv a" "BlockFree (fst c) (snd c) \<in> lv a" "x \<le> fst c" "p \<le> 32" "snd c \<le> p"
    "split_down (\<lambda>l r. if fst l < x then r else l) a c p = (a', b)"
  shows "fst b = fst c"
  using assms
proof (induction "\<lambda>l r. if fst l < x then r else l :: bref" a c p arbitrary: a' b rule: split_down.induct)
  case (1 a c p)
  show ?case
  proof (cases "snd c < p")
    case False
    then show ?thesis using "1.prems" by (auto simp: split_down.simps)
  next
    case True
    then have n: "snd c < 32" using "1.prems"(4) by simp
    obtain a1 l r where s: "split_block a c = (a1, l, r)" by (cases "split_block a c")
    note sp = split_block_inv[OF "1.prems"(1,2) n, unfolded prod.collapse, OF s]
    have pk: "(if fst l < x then r else l) = l" using sp(2) "1.prems"(3) by auto
    have step: "split_down (\<lambda>l r. if fst l < x then r else l) a1 (fst (if fst l < x then r else l), Suc (snd c)) p = (a', b)"
      using "1.prems"(6) True s by (subst (asm) split_down.simps) simp
    have "fst b = fst (fst (if fst l < x then r else l), Suc (snd c))"
      by (rule "1.hyps"[OF True s[symmetric] refl sp(1) _ _ "1.prems"(4) _ step])
        (use sp(2,4) pk "1.prems"(3) True in auto)
    then show ?thesis using pk sp(2) by simp
  qed
qed

lemma split_down_high:
  assumes "core_inv a" "BlockFree (fst c) (snd c) \<in> lv a" "unat x = unat (fst c) + addresses (snd c)"
    "p \<le> 32" "snd c \<le> p" "split_down (\<lambda>l r. if fst l < x then r else l) a c p = (a', b)"
  shows "unat (fst b) + addresses p = unat x"
  using assms
proof (induction "\<lambda>l r. if fst l < x then r else l :: bref" a c p arbitrary: a' b rule: split_down.induct)
  case (1 a c p)
  show ?case
  proof (cases "snd c < p")
    case False
    then show ?thesis using "1.prems" by (auto simp: split_down.simps)
  next
    case True
    then have n: "snd c < 32" using "1.prems"(4) by simp
    obtain a1 l r where s: "split_block a c = (a1, l, r)" by (cases "split_block a c")
    note sp = split_block_inv[OF "1.prems"(1,2) n, unfolded prod.collapse, OF s]
    have ok: "block_ok (fst c) (snd c)"
      using leaf_wf(4)[OF _ "1.prems"(2)] "1.prems"(1) by (simp add: core_inv_def)
    have "fst l < x" using sp(2) "1.prems"(3) by (simp add: word_less_nat_alt)
    then have pk: "(if fst l < x then r else l) = r" by simp
    have step: "split_down (\<lambda>l r. if fst l < x then r else l) a1 (fst (if fst l < x then r else l), Suc (snd c)) p = (a', b)"
      using "1.prems"(6) True s by (subst (asm) split_down.simps) simp
    show ?thesis
      by (rule "1.hyps"[OF True s[symmetric] refl sp(1) _ _ "1.prems"(4) _ step])
        (use sp(3,4) pk "1.prems"(3) True block_ok_halves(3)[OF ok n] addresses_Suc[OF n] in auto)
  qed
qed

lemma buddy_geometry:
  assumes "wf_tree t" "s \<in> nodes t" "buddy_of t (ref_of s) = Some u"
  shows "u \<in> nodes t" "blk_plen u = blk_plen s"
    "unat (blk_base u) = unat (blk_base s) + addresses (blk_plen s) \<or>
     unat (blk_base u) + addresses (blk_plen u) = unat (blk_base s)"
    "parent_of t (ref_of s) = Some p \<Longrightarrow> p \<in> nodes t \<and> tspan s \<subseteq> tspan p \<and> Suc (blk_plen p) = blk_plen s \<and>
       (\<exists>b m. p = BlockSplit b m s u \<or> p = BlockSplit b m u s)"
proof -
  have "s \<noteq> t" using assms(3) by auto
  then obtain b m l r where q: "blk_plen s = Suc m" "BlockSplit b m l r \<in> nodes t"
    "parent_of t (ref_of s) = Some (BlockSplit b m l r)"
    "s = l \<and> buddy_of t (ref_of s) = Some r \<or> s = r \<and> buddy_of t (ref_of s) = Some l"
    using parent_buddy[OF assms(1,2)] by metis
  have wp: "wf_tree (BlockSplit b m l r)" using wf_nodes[OF assms(1) q(2)] by simp
  note sp = wf_split_spans[OF wp]
  have lr: "s = l \<and> u = r \<or> s = r \<and> u = l" using q(4) assms(3) by auto
  have pl: "blk_plen l = Suc m" "blk_plen r = Suc m" "blk_base l = b" using wp by auto
  have "l \<in> nodes t" "r \<in> nodes t" using nodes_trans[OF q(2)] by auto
  then show "u \<in> nodes t" using lr by auto
  show "blk_plen u = blk_plen s" using lr pl by auto
  show "unat (blk_base u) = unat (blk_base s) + addresses (blk_plen s) \<or>
     unat (blk_base u) + addresses (blk_plen u) = unat (blk_base s)" using lr pl sp(3) by auto
  assume "parent_of t (ref_of s) = Some p"
  then have p: "p = BlockSplit b m l r" using q(3) by simp
  have "tspan s \<subseteq> span b m" using sp(1) lr by blast
  then have "tspan s \<subseteq> tspan p" "Suc (blk_plen p) = blk_plen s" using p q(1) by simp_all
  then show "p \<in> nodes t \<and> tspan s \<subseteq> tspan p \<and> Suc (blk_plen p) = blk_plen s \<and>
       (\<exists>b m. p = BlockSplit b m s u \<or> p = BlockSplit b m u s)"
    using q(2) lr unfolding p by blast
qed

lemma climb_owned_node:
  assumes "wf_tree t" "s \<in> nodes t" "ownedBy s nodeName"
  shows "\<exists>u \<in> nodes t. ref_of u = climb_owned t nodeName (blk_base s) (blk_plen s) \<and>
    ownedBy u nodeName \<and> tspan s \<subseteq> tspan u"
  using assms(2,3)
proof (induction "blk_plen s" arbitrary: s)
  case 0
  then show ?case by (intro bexI[of _ s]) (simp_all add: climb_owned.simps(1)[of t nodeName] flip: 0(1))
next
  case (Suc m)
  note here = bexI[of _ s]
  show ?case
  proof (cases "\<exists>p bud. parent_of t (ref_of s) = Some p \<and> buddy_of t (ref_of s) = Some bud \<and> ownedBy bud nodeName")
    case True
    then obtain p bud where p: "parent_of t (ref_of s) = Some p" "buddy_of t (ref_of s) = Some bud"
      "ownedBy bud nodeName" by blast
    have g: "p \<in> nodes t" "tspan s \<subseteq> tspan p" "Suc (blk_plen p) = blk_plen s" "ownedBy p nodeName"
      using buddy_geometry(4)[OF assms(1) Suc.prems(1) p(2,1)] p(3) Suc.prems(2) by auto
    have m: "m = blk_plen p" using g(3) Suc.hyps(2) by simp
    have "climb_owned t nodeName (blk_base s) (blk_plen s) = climb_owned t nodeName (blk_base p) (blk_plen p)"
      using p m by (simp flip: Suc.hyps(2))
    then show ?thesis using Suc.hyps(1)[OF m g(1,4)] g(2) by auto
  next
    case False
    then have "climb_owned t nodeName (blk_base s) (blk_plen s) = ref_of s"
      by (auto simp flip: Suc.hyps(2) split: option.splits)
    then show ?thesis using Suc.prems by auto
  qed
qed

lemma al_allocateFromBuddy_Inr:
  assumes inv: "alloc_inv a" and s: "BlockAllocated x n nodeName \<in> heldset a"
    and r: "al_allocateFromBuddy a (x, n) req nodeName = (a', Inr b)"
  obtains u c p where "u \<in> nodes (al_root (swept a))" "ownedBy u nodeName" "span x n \<subseteq> tspan u"
    "granted (swept a) a' c b nodeName" "snd c = blk_plen u" "prefixFor (swept a) req = Inr p" "snd b = max p (snd c)"
    "unat (fst b) = unat (blk_base u) + addresses (blk_plen u) \<or> unat (fst b) + addresses (snd b) = unat (blk_base u)"
proof -
  let ?t = "al_root (swept a)"
  have inv': "alloc_inv (swept a)" and core: "core_inv (swept a)" and wf: "wf_tree ?t"
    using swept_inv[OF inv] alloc_invD by auto
  have "BlockAllocated x n nodeName \<in> heldset (swept a)" using swept_inv(3)[OF inv] s by (simp add: is_due_def)
  then have sn: "BlockAllocated x n nodeName \<in> nodes ?t" using heldsetD(1) leaf_node by blast
  obtain u where u: "u \<in> nodes ?t" "ref_of u = climb_owned ?t nodeName x n" "ownedBy u nodeName"
    "span x n \<subseteq> tspan u" using climb_owned_node[OF wf sn] by auto
  define res where "res cur p = split_down (\<lambda>l r. if fst l < fst (ref_of u) then r else l) (swept a) (ref_of cur) p"
    for cur p
  have r1: "(case buddy_of ?t (ref_of u) of None \<Rightarrow> (swept a, Inl ErrBuddyUnavailable)
         | Some cur \<Rightarrow>
             if \<not> is_BlockFree cur then (swept a, Inl ErrBuddyUnavailable)
             else (case prefixFor (swept a) req of
                 Inl e \<Rightarrow> (swept a, Inl e)
               | Inr prefix \<Rightarrow>
                   (case res cur prefix of
                      (a', b') \<Rightarrow> (take_block a' b' nodeName, Inr b')))) = (a', Inr b)"
    using r unfolding al_allocateFromBuddy_def Let_def fst_conv snd_conv u(2)[symmetric] res_def .
  then obtain cur where cur: "buddy_of ?t (ref_of u) = Some cur" by (cases "buddy_of ?t (ref_of u)") auto
  have free: "is_BlockFree cur" using r1 cur by (cases "is_BlockFree cur") auto
  obtain p where p: "prefixFor (swept a) req = Inr p" using r1 cur free by (cases "prefixFor (swept a) req") auto
  have r2: "a' = (case res cur p of (a1, b1) \<Rightarrow> take_block a1 b1 nodeName)" "b = snd (res cur p)"
    using r1 cur free p by (auto split: prod.splits)
  note g = buddy_geometry[OF wf u(1) cur]
  note pf = prefixFor_Inr[OF swept_limits(1)[OF inv] p]
  have Fc: "BlockFree (fst (ref_of cur)) (snd (ref_of cur)) \<in> lv (swept a)"
    using node_leaf[OF g(1)] free by (cases cur) auto
  have c32: "snd (ref_of cur) \<le> 32" using wf_block_ok[OF conjunct1[OF wf_nodes[OF wf g(1)]]] by (simp add: block_ok_def)
  let ?p = "max p (snd (ref_of cur))"
  have same: "split_down pick (swept a) (ref_of cur) p = split_down pick (swept a) (ref_of cur) ?p" for pick
    by (cases "snd (ref_of cur) < p") (auto simp: split_down.simps max_def)
  obtain a1 b1 where sd: "split_down (\<lambda>l r. if fst l < fst (ref_of u) then r else l) (swept a) (ref_of cur) ?p = (a1, b1)"
    by (cases "split_down (\<lambda>l r. if fst l < fst (ref_of u) then r else l) (swept a) (ref_of cur) ?p")
  have b1: "b1 = b" "a' = take_block a1 b nodeName" using r2 sd same unfolding res_def by simp_all
  have p32: "?p \<le> 32" using c32 pf(3) by simp
  have gr: "granted (swept a) a' (ref_of cur) b nodeName" "snd b = ?p"
    using grant[OF inv' _ Fc p32 _ sd] b1 by auto
  have "unat (fst b) = unat (blk_base u) + addresses (blk_plen u) \<or> unat (fst b) + addresses (snd b) = unat (blk_base u)"
    using g(3)
  proof
    assume hi: "unat (blk_base cur) = unat (blk_base u) + addresses (blk_plen u)"
    then have "fst (ref_of u) \<le> fst (ref_of cur)" by (simp add: word_le_nat_alt)
    then have "fst b1 = fst (ref_of cur)" using split_down_low[OF core Fc _ p32 _ sd] by simp
    then show ?thesis using hi b1 by simp
  next
    assume "unat (blk_base cur) + addresses (blk_plen cur) = unat (blk_base u)"
    then have "unat (fst b1) + addresses ?p = unat (blk_base u)"
      using split_down_high[OF core Fc _ p32 _ sd] by simp
    then show ?thesis using b1 gr(2) by simp
  qed
  then show thesis using that[of u "ref_of cur" p] u gr g(2) p by simp
qed

end
