(* ===== verification/Allocator_Spec.thy ===== *)
theory Allocator_Spec
  imports Allocator_Ops
begin

text \<open>
  The allocator as a state machine: creation, freeing, the step relation with one rule per public
  method, and the invariant for every reachable state.
\<close>

lemma newBuddyAllocator_inv:
  assumes "newBuddyAllocator cidr mn mx = Inr a"
  shows "alloc_inv a" "heldset a = {}"
proof -
  obtain ip n where p: "parse_cidr cidr = Some (ip, n)"
    using assms by (auto simp: newBuddyAllocator_def split: option.splits)
  then have l: "int (net_ones n) \<le> mx" "mx \<le> mn" "mn \<le> 32" and
    a: "a = addFree \<lparr>al_root = BlockFree (net_ip n) (net_ones n), al_min = nat mn, al_max = nat mx,
      al_free = (\<lambda>_. []), al_quarantined = [], al_quarantine = 0, al_now = 0\<rparr> (net_ip n, net_ones n)"
    using assms by (auto simp: newBuddyAllocator_def Let_def split: if_splits)
  show "alloc_inv a" "heldset a = {}" unfolding a using l parse_cidr_block_ok[OF p]
    by (auto simp: alloc_inv_def core_inv_def idx_ok_def quar_ok_def limits_ok_def heldset_def)
qed

lemma al_free_block_ok:
  assumes inv: "alloc_inv a" and s: "BlockAllocated x n nodeName \<in> heldset a"
  shows "al_quarantine a \<le> 0 \<Longrightarrow> alloc_inv (fst (al_free_block a (Some (x, n)))) \<and>
      heldset (fst (al_free_block a (Some (x, n)))) = heldset a - {BlockAllocated x n nodeName}"
    "al_quarantine a > 0 \<Longrightarrow> alloc_inv (fst (al_free_block a (Some (x, n)))) \<and>
      heldset (fst (al_free_block a (Some (x, n)))) =
        insert (BlockQuarantined x n (al_now a + al_quarantine a)) (heldset a - {BlockAllocated x n nodeName})"
    "snd (al_free_block a (Some (x, n))) = None" "same_frame a (fst (al_free_block a (Some (x, n))))"
proof -
  let ?s = "BlockAllocated x n nodeName" and ?q = "BlockQuarantined x n (al_now a + al_quarantine a)"
  let ?a = "fst (al_free_block a (Some (x, n)))"
  have co: "checkOwned a (Some (x, n)) = None" using checkOwned_Some[OF inv, of "(x, n)"] s by auto
  show "snd (al_free_block a (Some (x, n))) = None" using co by (simp add: al_free_block_def)
  have rel: "alloc_inv (releaseLocked a (x, n)) \<and> same_frame a (releaseLocked a (x, n)) \<and>
      heldset (releaseLocked a (x, n)) = heldset a - {?s}"
    using releaseLocked_inv[OF inv s] by simp
  then show "al_quarantine a \<le> 0 \<Longrightarrow> alloc_inv ?a \<and> heldset ?a = heldset a - {?s}"
    using co by (simp add: al_free_block_def)
  have sl: "?s \<in> lv a" using heldsetD[OF s] by simp
  have core: "core_inv a" and wf: "wf_tree (al_root a)" and m: "merged (lv a) {}" using alloc_invD[OF inv] by auto
  have a: "?a = (set_block a (x, n) ?q)\<lparr>al_quarantined := List.insert (x, n) (al_quarantined a)\<rparr>"
    if "al_quarantine a > 0" using that co by (simp add: al_free_block_def)
  have bok: "block_ok x n" using leaf_wf(4)[OF wf sl] by simp
  note sb = set_block_node[of a ?s ?q, OF wf]
  have L: "lv ?a = (lv a - {?s}) \<union> {?q}" and W: "wf_tree (al_root ?a)"
    and R: "ref_of (al_root ?a) = ref_of (al_root a)" if q: "al_quarantine a > 0"
    using sb leaf_node[OF sl] bok unfolding a[OF q] by auto
  have uniq: "u \<in> lv a \<Longrightarrow> ref_of u = (x, n) \<Longrightarrow> u = ?s" for u
    using free_leaf_unique[OF wf _ sl, of u] by simp
  have C: "alloc_inv ?a \<and> heldset ?a = insert ?q (heldset a - {?s})" if q: "al_quarantine a > 0"
  proof -
    have "idx_ok ?a" using core L[OF q] a[OF q] by (auto simp: core_inv_def idx_ok_def)
    moreover have "quar_ok ?a"
    proof -
      have "(\<exists>t. BlockQuarantined y k t \<in> lv ?a) \<longleftrightarrow> (y, k) = (x, n) \<or> (\<exists>t. BlockQuarantined y k t \<in> lv a)" for y k
        unfolding L[OF q] by auto
      then show ?thesis using core unfolding quar_ok_def core_inv_def a[OF q] by auto
    qed
    ultimately have "core_inv ?a" using W[OF q] R[OF q] core a[OF q] by (auto simp: core_inv_def limits_ok_def)
    moreover have "merged (lv ?a) {}" using m unfolding merged_def L[OF q] by blast
    moreover have "heldset ?a = insert ?q (heldset a - {?s})" unfolding heldset_def L[OF q] by auto
    ultimately show ?thesis by (simp add: alloc_inv_merged)
  qed
  then show "al_quarantine a > 0 \<Longrightarrow> alloc_inv ?a \<and> heldset ?a = insert ?q (heldset a - {?s})" by simp
  show "same_frame a ?a"
  proof (cases "al_quarantine a > 0")
    case True then show ?thesis using R[OF True] a[OF True] by (simp add: same_frame_def)
  next
    case False then show ?thesis using rel co by (simp add: al_free_block_def)
  qed
qed

lemma al_free_block_refused:
  assumes "checkOwned a b = Some e"
  shows "al_free_block a b = (a, Some e)" "freeNow a b = (a, Some e)"
  using assms by (simp_all add: al_free_block_def freeNow_def)

subsection \<open>Reachable states\<close>

inductive alloc_step :: "allocator \<Rightarrow> allocator \<Rightarrow> bool" where
  Clock: "al_now a \<le> t \<Longrightarrow> alloc_step a (setClock a t)"
| Quarantine: "alloc_step a (setQuarantine a d)"
| Allocate: "alloc_step a (fst (al_allocate a req nodeName))"
| AllocateSpread: "alloc_step a (fst (allocateSpread a req nodeName))"
| AllocatePrefix: "alloc_step a (fst (al_allocatePrefix a prefix nodeName))"
| AllocateBuddyOf: "alloc_step a (fst (al_allocateBuddyOf a b nodeName))"
| AllocateFromBuddy: "alloc_step a (fst (al_allocateFromBuddy a b req nodeName))"
| Reserve: "alloc_step a (fst (al_reserve a cidr nodeName))"
| Free: "alloc_step a (fst (al_free_block a b))"
| FreeNow: "alloc_step a (fst (freeNow a b))"
| Sweep: "alloc_step a (fst (sweep a))"
| Defragment: "alloc_step a (fst (al_defragment a))"

inductive_cases alloc_stepE: "alloc_step a a'"

lemma setters_inv:
  assumes "alloc_inv a"
  shows "alloc_inv (setClock a t)" "alloc_inv (setQuarantine a d)"
    "heldset (setClock a t) = heldset a" "heldset (setQuarantine a d) = heldset a"
  using assms by (simp_all add: alloc_inv_def core_inv_def idx_ok_def quar_ok_def limits_ok_def heldset_def
      setClock_def setQuarantine_def)

lemma spread_cases:
  assumes inv: "alloc_inv a" and le: "prefix \<le> 32" and ff: "first_free a (levels_from a prefix) = Some c"
    and sd: "split_down (\<lambda>l r. l) a c prefix = (a1, b)"
  shows "granted a (take_block a1 b nodeName) c b nodeName" "snd b = prefix" "best_fit a prefix c"
proof -
  show bf: "best_fit a prefix c" by (rule first_free_best_fit[OF alloc_invD(1)[OF inv] ff])
  then have "granted a (take_block a1 b nodeName) c b nodeName \<and> snd b = prefix"
    by (intro grant[OF inv _ _ le _ sd]) (auto simp: best_fit_def)
  then show "granted a (take_block a1 b nodeName) c b nodeName" "snd b = prefix" by auto
qed

lemma allocateSpread_cases:
  assumes inv: "alloc_inv a"
  obtains (err) e where "allocateSpread a req nodeName = (swept a, Inl e)"
    | (ok) b c a' where "allocateSpread a req nodeName = (a', Inr b)" "granted (swept a) a' c b nodeName"
      "prefixFor (swept a) req = Inr (snd b)" "best_fit (swept a) (snd b) c"
proof (cases "prefixFor (swept a) req")
  case (Inl e)
  then show thesis by (intro err) (simp add: allocateSpread_def Let_def)
next
  case (Inr p)
  show thesis
  proof (cases "first_free (swept a) (levels_from (swept a) p)")
    case None
    then show thesis using Inr by (intro err) (simp add: allocateSpread_def Let_def)
  next
    case (Some c)
    obtain a1 b where sd: "split_down (\<lambda>l r. l) (swept a) c p = (a1, b)"
      by (cases "split_down (\<lambda>l r. l) (swept a) c p")
    show thesis
      using spread_cases[OF swept_inv(1)[OF inv] prefixFor_Inr(3)[OF swept_limits(1)[OF inv] Inr] Some sd]
        Inr Some sd by (intro ok) (auto simp: allocateSpread_def Let_def)
  qed
qed

lemma take_free_leaf:
  assumes inv: "alloc_inv a" and c: "BlockFree (fst c) (snd c) \<in> lv a"
  shows "granted a (take_block a c nodeName) c c nodeName"
proof -
  have le: "snd c \<le> 32" using leaf_wf(4)[OF alloc_invD(2)[OF inv] c] by (simp add: block_ok_def)
  have "split_down (\<lambda>l r. l) a c (snd c) = (a, c)" by (simp add: split_down.simps)
  then show ?thesis using grant[OF inv picks_rules(1) c le order_refl] by blast
qed

lemma allocateBuddyOf_cases:
  assumes inv: "alloc_inv a"
  obtains (err) "al_allocateBuddyOf a b nodeName = (swept a, Inl ErrBuddyUnavailable)"
    | (ok) u where "buddy_of (al_root (swept a)) b = Some u" "is_BlockFree u"
      "al_allocateBuddyOf a b nodeName = (take_block (swept a) (ref_of u) nodeName, Inr (ref_of u))"
  by (cases "buddy_of (al_root (swept a)) b"; cases "\<exists>u. buddy_of (al_root (swept a)) b = Some u \<and> is_BlockFree u")
    (auto simp: al_allocateBuddyOf_def Let_def)

lemma buddy_of_node: "buddy_of t b = Some u \<Longrightarrow> u \<in> nodes t"
proof -
  assume u: "buddy_of t b = Some u"
  obtain x n l r where p: "walk t (fst b) (snd b - 1) = BlockSplit x n l r" "u = l \<or> u = r"
    using u by (auto simp: buddy_of_def parent_of_def split: if_splits btree.splits)
  have "nodes (BlockSplit x n l r) \<subseteq> nodes t" using nodes_trans[OF walk_in_nodes, of t "fst b" "snd b - 1"] p(1) by metis
  then show ?thesis using p(2) node_self[of l] node_self[of r] by auto
qed

lemma buddy_free_leaf:
  assumes "buddy_of (al_root a) b = Some u" "is_BlockFree u"
  shows "BlockFree (fst (ref_of u)) (snd (ref_of u)) \<in> lv a"
  using node_leaf[OF buddy_of_node[OF assms(1)]] assms(2) by (cases u) auto

lemma split_down_max:
  "split_down pick a c p = split_down pick a c (max p (snd c))"
  by (cases "snd c < p") (auto simp: split_down.simps max_def)

lemma allocateFromBuddy_cases:
  assumes inv: "alloc_inv a"
  obtains (err) e where "al_allocateFromBuddy a b req nodeName = (swept a, Inl e)"
    | (ok) b' c a' where "al_allocateFromBuddy a b req nodeName = (a', Inr b')" "granted (swept a) a' c b' nodeName"
proof -
  define anchor where "anchor = climb_owned (al_root (swept a)) nodeName (fst b) (snd b)"
  define pick where "pick = (\<lambda>l r :: bref. if fst l < fst anchor then r else l)"
  have eq: "al_allocateFromBuddy a b req nodeName = (case buddy_of (al_root (swept a)) anchor of
         None \<Rightarrow> (swept a, Inl ErrBuddyUnavailable)
       | Some cur \<Rightarrow>
           if \<not> is_BlockFree cur then (swept a, Inl ErrBuddyUnavailable)
           else (case prefixFor (swept a) req of
               Inl e \<Rightarrow> (swept a, Inl e)
             | Inr prefix \<Rightarrow>
                 (case split_down pick (swept a) (ref_of cur) prefix of
                    (a', b') \<Rightarrow> (take_block a' b' nodeName, Inr b'))))"
    unfolding al_allocateFromBuddy_def Let_def pick_def anchor_def by (rule refl)
  show thesis
  proof (cases "buddy_of (al_root (swept a)) anchor")
    case None
    then show thesis using eq by (intro err) simp
  next
    case (Some cur)
    show thesis
    proof (cases "is_BlockFree cur")
      case False
      then show thesis using eq Some by (intro err) simp
    next
      case True
      show thesis
      proof (cases "prefixFor (swept a) req")
        case (Inl e)
        then show thesis using eq Some True by (intro err) simp
      next
        case (Inr p)
        obtain a1 b1 where sd: "split_down pick (swept a) (ref_of cur) p = (a1, b1)"
          by (cases "split_down pick (swept a) (ref_of cur) p")
        have fl: "BlockFree (fst (ref_of cur)) (snd (ref_of cur)) \<in> lv (swept a)"
          by (rule buddy_free_leaf[OF Some True])
        have le: "max p (snd (ref_of cur)) \<le> 32"
          using prefixFor_Inr(3)[OF swept_limits(1)[OF inv] Inr] leaf_wf(4)[OF alloc_invD(2)[OF swept_inv(1)[OF inv]] fl]
          by (simp add: block_ok_def)
        have "granted (swept a) (take_block a1 b1 nodeName) (ref_of cur) b1 nodeName"
          using grant[OF swept_inv(1)[OF inv] _ fl le max.cobounded2 sd[unfolded split_down_max[of pick "swept a" "ref_of cur" p]]]
          by (simp add: pick_def)
        then show thesis using eq Some True Inr sd by (intro ok) auto
      qed
    qed
  qed
qed

lemma defrag_normal: "normal t \<Longrightarrow> defrag_walk t a = (t, a, [])"
  by (induction t) auto

lemma defragment_eq:
  assumes "alloc_inv a"
  shows "al_defragment a = (swept a, [])"
  using defrag_normal[OF alloc_invD(4)[OF swept_inv(1)[OF assms]], of "swept a"]
  by (simp add: al_defragment_def Let_def)

lemma granted_inv: "granted a a' c b nodeName \<Longrightarrow> alloc_inv a'"
  by (simp add: granted_def)

lemma alloc_step_inv: "alloc_step a a' \<Longrightarrow> alloc_inv a \<Longrightarrow> alloc_inv a'"
proof (induction rule: alloc_step.induct)
  case (Allocate a req nodeName)
  then show ?case
    using al_allocate_Inl(1)[of a req nodeName] al_allocate_Inr[of a req nodeName] swept_inv(1)[of a] granted_inv
    by (cases "al_allocate a req nodeName"; cases "snd (al_allocate a req nodeName)") (auto elim!: al_allocate_Inr)
next
  case (AllocateSpread a req nodeName)
  show ?case
    by (rule allocateSpread_cases[OF AllocateSpread, of req nodeName])
      (auto simp: swept_inv(1)[OF AllocateSpread] dest: granted_inv)
next
  case (AllocatePrefix a prefix nodeName)
  note sw = swept_inv(1)[OF AllocatePrefix]
  show ?case
  proof (cases "prefix > al_min (swept a) \<or> prefix < al_max (swept a)")
    case True
    then show ?thesis using sw by (simp add: al_allocatePrefix_def Let_def)
  next
    case False
    then have "prefix \<le> 32" using swept_limits[OF AllocatePrefix] by simp
    then show ?thesis
      using False sw by (cases rule: allocatePrefixLocked_cases[OF sw, of prefix nodeName])
        (auto simp: al_allocatePrefix_def Let_def dest: granted_inv)
  qed
next
  case (AllocateBuddyOf a b nodeName)
  note sw = swept_inv(1)[OF AllocateBuddyOf]
  show ?case
    by (cases rule: allocateBuddyOf_cases[OF AllocateBuddyOf, of b nodeName])
      (use sw granted_inv[OF take_free_leaf[OF sw buddy_free_leaf]] in auto)
next
  case (AllocateFromBuddy a b req nodeName)
  show ?case
    by (rule allocateFromBuddy_cases[OF AllocateFromBuddy, of b req nodeName])
      (auto simp: swept_inv(1)[OF AllocateFromBuddy] dest: granted_inv)
next
  case (Reserve a cidr nodeName)
  show ?case
  proof (cases "parse_cidr cidr")
    case None
    then show ?thesis using Reserve by (simp add: al_reserve_def)
  next
    case (Some q)
    obtain ip n where "q = (ip, n)" by (cases q)
    then have "parse_cidr cidr = Some (ip, n)" using Some by simp
    then show ?thesis using Reserve
      by (cases rule: al_reserve_cases[OF Reserve, of cidr ip n nodeName]) (auto dest: granted_inv)
  qed
next
  case (Free a b)
  show ?case
  proof (cases "checkOwned a b")
    case (Some e)
    then show ?thesis using Free al_free_block_refused by simp
  next
    case None
    then obtain x n m where b: "b = Some (x, n)" "BlockAllocated x n m \<in> heldset a"
      using checkOwned_Some[OF Free] by (cases b) (auto simp: checkOwned_def)
    then show ?thesis using al_free_block_ok(1,2)[OF Free b(2)] by (cases "al_quarantine a > 0") auto
  qed
next
  case (FreeNow a b)
  show ?case
  proof (cases "checkOwned a b")
    case (Some e)
    then show ?thesis using FreeNow al_free_block_refused by simp
  next
    case None
    then obtain x n m where b: "b = Some (x, n)" "BlockAllocated x n m \<in> heldset a"
      using checkOwned_Some[OF FreeNow] by (cases b) (auto simp: checkOwned_def)
    then show ?thesis using None releaseLocked_inv[OF FreeNow b(2)] by (simp add: freeNow_def)
  qed
qed (simp_all add: setters_inv swept_inv sweep_def defragment_eq)

inductive alloc_reachable :: "allocator \<Rightarrow> bool" where
  Start: "newBuddyAllocator cidr mn mx = Inr a \<Longrightarrow> alloc_reachable a"
| Step: "alloc_reachable a \<Longrightarrow> alloc_step a a' \<Longrightarrow> alloc_reachable a'"

lemma reachable_inv: "alloc_reachable a \<Longrightarrow> alloc_inv a"
  by (induction rule: alloc_reachable.induct) (auto simp: newBuddyAllocator_inv alloc_step_inv)

end
