(* ===== verification/Allocator_Props.thy ===== *)
theory Allocator_Props
  imports Allocator_Spec
begin

text \<open>
  Lookups and statistics, and the properties of the buddy allocator.
\<close>

subsection \<open>Lookups and statistics\<close>

lemma al_find_iff:
  assumes inv: "alloc_inv a" and p: "parse_cidr cidr = Some (ip, n)"
  shows "al_find a cidr = Some s \<longleftrightarrow> s \<in> heldset a \<and> ref_of s = (net_ip n, net_ones n)"
proof -
  have wf: "wf_tree (al_root a)" using alloc_invD[OF inv] by auto
  let ?w = "walk (al_root a) (net_ip n) (net_ones n)"
  show ?thesis
  proof
    assume f: "al_find a cidr = Some s"
    then have "s = ?w" "ref_of ?w = (net_ip n, net_ones n)" "\<not> is_BlockFree ?w" "\<not> is_BlockSplit ?w"
      by (auto simp: al_find_def p Let_def split: if_splits)
    then show "s \<in> heldset a \<and> ref_of s = (net_ip n, net_ones n)"
      using node_leaf[OF walk_in_nodes] by (auto simp: heldset_def)
  next
    assume s: "s \<in> heldset a \<and> ref_of s = (net_ip n, net_ones n)"
    then have sl: "s \<in> lv a" "\<not> is_BlockFree s" using heldsetD by auto
    have w: "?w = s" using leaf_wf(5)[OF wf sl(1)] s by simp
    have "al_contains a cidr" using al_contains_iff[OF inv p] leaf_wf(2,3)[OF wf sl(1)] s by simp
    moreover have "\<not> is_BlockSplit s" using leaf_node[OF sl(1)] by simp
    ultimately show "al_find a cidr = Some s" using sl(2) s by (simp add: al_find_def p Let_def w)
  qed
qed

lemma al_reserve_Inr:
  assumes inv: "alloc_inv a" and p: "parse_cidr cidr = Some (ip, n)" and r: "al_reserve a cidr nodeName = (a', Inr b)"
  shows "alloc_inv a'" "same_frame a a'" "b = (net_ip n, net_ones n)"
    "heldset a' = insert (BlockAllocated (net_ip n) (net_ones n) nodeName) (heldset a)"
    "blk_plen (al_root a) \<le> net_ones n" "span (net_ip n) (net_ones n) \<subseteq> tspan (al_root a)"
    "\<forall>s \<in> heldset a. tspan s \<inter> span (net_ip n) (net_ones n) = {}"
proof -
  obtain c a'' where q: "al_reserve a cidr nodeName = (a'', Inr (net_ip n, net_ones n))"
      "granted a a'' c (net_ip n, net_ones n) nodeName"
      "blk_plen (al_root a) \<le> net_ones n" "span (net_ip n) (net_ones n) \<subseteq> tspan (al_root a)"
    using r by (cases rule: al_reserve_cases[OF inv p, of nodeName]) simp_all
  have e: "a'' = a'" "b = (net_ip n, net_ones n)" using q(1) r by simp_all
  show "alloc_inv a'" "same_frame a a'" "b = (net_ip n, net_ones n)"
    "heldset a' = insert (BlockAllocated (net_ip n) (net_ones n) nodeName) (heldset a)"
    "blk_plen (al_root a) \<le> net_ones n" "span (net_ip n) (net_ones n) \<subseteq> tspan (al_root a)"
    using q e by (simp_all add: granted_def)
  show "\<forall>s \<in> heldset a. tspan s \<inter> span (net_ip n) (net_ones n) = {}"
    using held_apart[OF q(2) inv] by simp
qed

lemma al_reserve_possible:
  assumes inv: "alloc_inv a" and p: "parse_cidr cidr = Some (ip, n)"
    and ok: "blk_plen (al_root a) \<le> net_ones n" "span (net_ip n) (net_ones n) \<subseteq> tspan (al_root a)"
    "\<forall>s \<in> heldset a. tspan s \<inter> span (net_ip n) (net_ones n) = {}"
  shows "\<exists>a'. al_reserve a cidr nodeName = (a', Inr (net_ip n, net_ones n))"
  by (cases rule: al_reserve_cases[OF inv p, of nodeName]) (use ok in blast)+

definition total_of :: "btree list \<Rightarrow> nat" where
  "total_of bs = (\<Sum>b \<leftarrow> bs. addresses (blk_plen b))"

lemma total_of_append [simp]: "total_of (xs @ ys) = total_of xs + total_of ys"
  by (simp add: total_of_def)

lemma total_of_Cons [simp]: "total_of (x # xs) = addresses (blk_plen x) + total_of xs" "total_of [] = 0"
  by (simp_all add: total_of_def)

lemma total_leaves: "wf_tree t \<Longrightarrow> total_of (leaves t) = addresses (blk_plen t)"
  by (induction t) (auto simp: addresses_Suc)

lemma total_partition:
  "total_of (filter is_BlockAllocated (leaves t)) + total_of (filter is_BlockFree (leaves t)) +
   total_of (filter is_BlockQuarantined (leaves t)) = total_of (leaves t)"
  by (induction t) auto

lemma stats_walk_sums:
  "st_allocated (stats_walk t s) = st_allocated s + total_of (filter is_BlockAllocated (leaves t)) \<and>
   st_free (stats_walk t s) = st_free s + total_of (filter is_BlockFree (leaves t)) \<and>
   st_quarantined (stats_walk t s) = st_quarantined s + total_of (filter is_BlockQuarantined (leaves t)) \<and>
   st_blocks (stats_walk t s) = st_blocks s + length (getAllocatedBlocks_walk t) \<and>
   st_total (stats_walk t s) = st_total s \<and>
   (normal t \<longrightarrow> st_fragmented (stats_walk t s) = st_fragmented s) \<and>
   st_by_level (stats_walk t s) p = st_by_level s p + length (filter (\<lambda>b. is_BlockFree b \<and> blk_plen b = p) (leaves t))"
  by (induction t arbitrary: s) (auto simp: Let_def)

lemma stats_walk_largest_fold:
  "st_largest (stats_walk t s) = fold max (map (addresses \<circ> blk_plen) (filter is_BlockFree (leaves t))) (st_largest s)"
  by (induction t arbitrary: s) (auto simp: Let_def max_def)

lemma stats_walk_largest:
  "st_largest (stats_walk t s) = Max (insert (st_largest s) ((addresses \<circ> blk_plen) ` {b \<in> set (leaves t). is_BlockFree b}))"
  unfolding stats_walk_largest_fold Max.set_eq_fold[symmetric] by simp

lemma allocated_walk: "getAllocatedBlocks_walk t = filter is_BlockAllocated (leaves t)"
  by (induction t) auto

lemma leaves_sorted: "wf_tree t \<Longrightarrow> sorted_wrt (\<lambda>s u. unat (blk_base s) < unat (blk_base u)) (leaves t)"
proof (induction t)
  case (BlockSplit b n l r)
  note sp = wf_split_spans[OF BlockSplit.prems(1)]
  have wf: "wf_tree l" "wf_tree r" "blk_plen l = Suc n" "blk_base l = b" using BlockSplit.prems by auto
  have "unat (blk_base s) < unat (blk_base u)" if "s \<in> set (leaves l)" "u \<in> set (leaves r)" for s u
    using subsetD[OF leaf_wf(2)[OF wf(1) that(1)] base_in_span] subsetD[OF leaf_wf(2)[OF wf(2) that(2)] base_in_span]
      sp(3) wf(3,4) by (simp add: span_def)
  then show ?case using BlockSplit wf by (simp add: sorted_wrt_append)
qed auto

lemma split_down_sibling:
  assumes "core_inv a" "BlockFree (fst c) (snd c) \<in> lv a" "snd c < p" "p \<le> 32"
    "split_down (\<lambda>l r. l) a c p = (a', b)"
  shows "BlockFree (fst b + half_of (p - 1)) p \<in> lv a' \<and> block_ok (fst b) (p - 1)"
  using assms
proof (induction "\<lambda>(l :: bref) (r :: bref). l" a c p arbitrary: a' b rule: split_down.induct)
  case (1 a c p)
  have n: "snd c < 32" using "1.prems"(3,4) by simp
  have ok: "block_ok (fst c) (snd c)" using leaf_wf(4)[OF _ "1.prems"(2)] "1.prems"(1) by (simp add: core_inv_def)
  obtain a1 l r where s: "split_block a c = (a1, l, r)" by (cases "split_block a c")
  note sp = split_block_inv[OF "1.prems"(1,2) n, unfolded prod.collapse, OF s]
  have step: "split_down (\<lambda>l r. l) a1 (fst l, Suc (snd c)) p = (a', b)"
    using "1.prems"(5,3) s by (subst (asm) split_down.simps) simp
  show ?case
  proof (cases "Suc (snd c) = p")
    case True
    then have "a' = a1" "b = (fst l, Suc (snd c))" using step by (auto simp: split_down.simps)
    then show ?thesis using sp(2,4) ok True by auto
  next
    case False
    then show ?thesis
      using "1.hyps"[OF "1.prems"(3) s[symmetric] refl sp(1) _ _ "1.prems"(4) step] sp(2,4) "1.prems"(3) by simp
  qed
qed

lemma allocateSpread_sibling:
  assumes inv: "alloc_inv a" and r: "allocateSpread a req nodeName = (a', Inr b)"
  shows "BlockFree (fst b + half_of (snd b - 1)) (snd b) \<in> lv a'" "block_ok (fst b) (snd b - 1)" "0 < snd b"
    "\<exists>c. granted (swept a) a' c b nodeName \<and> best_fit (swept a) (snd b) c" "prefixFor (swept a) req = Inr (snd b)"
proof -
  obtain p where p: "prefixFor (swept a) req = Inr p"
    using r by (auto simp: allocateSpread_def Let_def split: sum.splits)
  obtain c where c: "first_free (swept a) (levels_from (swept a) p) = Some c"
    using r p by (auto simp: allocateSpread_def Let_def split: option.splits)
  obtain a1 b1 where sd: "split_down (\<lambda>l r. l) (swept a) c p = (a1, b1)"
    by (cases "split_down (\<lambda>l r. l) (swept a) c p")
  have eq: "a' = take_block a1 b nodeName" "b1 = b"
    using r p c sd by (auto simp: allocateSpread_def Let_def)
  note inv' = swept_inv(1)[OF inv] and p32 = prefixFor_Inr(3)[OF swept_limits(1)[OF inv] p]
  note k = spread_cases(1)[OF inv' p32 c sd, where nodeName = nodeName, unfolded eq(2), folded eq(1)]
    spread_cases(2,3)[OF inv' p32 c sd, unfolded eq(2)]
  have bf: "BlockFree (fst c) (snd c) \<in> lv (swept a)" "snd c < p" using k(3) by (auto simp: best_fit_def)
  have sib: "BlockFree (fst b + half_of (p - 1)) p \<in> lv a1" "block_ok (fst b) (p - 1)"
    using split_down_sibling[OF alloc_invD(1)[OF inv'] bf p32 sd] eq by auto
  have r1: "core_inv a1" "BlockFree (fst b) p \<in> lv a1"
    using split_down_inv[OF picks_rules(1) alloc_invD(1)[OF inv'] bf(1) merged_any[OF alloc_invD(3)[OF inv']] _ p32 sd] bf(2) eq
    by auto
  have "b = (fst b, p)" using k(2) by (cases b) auto
  then have L: "lv (take_block a1 b nodeName) = (lv a1 - {BlockFree (fst b) p}) \<union> {BlockAllocated (fst b) p nodeName}"
    using take_block_inv(2)[OF r1, of nodeName] by metis
  have p1: "p - 1 < 32" using p32 bf(2) by simp
  have "fst b + half_of (p - 1) \<noteq> fst b" by (rule half_of_nz[OF p1])
  then show "BlockFree (fst b + half_of (snd b - 1)) (snd b) \<in> lv a'"
    using sib(1) unfolding eq(1) L k(2) by auto
  show "block_ok (fst b) (snd b - 1)" "0 < snd b" "prefixFor (swept a) req = Inr (snd b)" using sib(2) k bf(2) p by auto
  show "\<exists>c. granted (swept a) a' c b nodeName \<and> best_fit (swept a) (snd b) c"
    using k by (intro exI[of _ c]) simp
qed

lemma sweep_count:
  assumes inv: "alloc_inv a"
  shows "snd (sweepLocked a) = card {s \<in> heldset a. is_due (al_now a) s}"
proof -
  have wf: "wf_tree (al_root a)" and core: "core_inv a" using alloc_invD[OF inv] by auto
  let ?due = "filter (\<lambda>b. \<not> blk_release_at (blk a b) > al_now a) (al_quarantined a)"
  have q: "distinct (al_quarantined a)"
    "\<And>x p. (x, p) \<in> set (al_quarantined a) \<longleftrightarrow> (\<exists>t. BlockQuarantined x p t \<in> lv a)"
    using core by (auto simp: core_inv_def quar_ok_def)
  have w: "s \<in> lv a \<Longrightarrow> blk a (ref_of s) = s" for s using leaf_wf(5)[OF wf] by simp
  have im: "ref_of ` {s \<in> heldset a. is_due (al_now a) s} = set ?due"
  proof (intro set_eqI iffI)
    fix b assume "b \<in> ref_of ` {s \<in> heldset a. is_due (al_now a) s}"
    then obtain x p t where s: "BlockQuarantined x p t \<in> lv a" "t \<le> al_now a" "b = (x, p)"
      by (auto simp: heldset_def is_due_def is_BlockQuarantined_def)
    then show "b \<in> set ?due" using w[OF s(1)] q(2)[of x p] by auto
  next
    fix b assume b: "b \<in> set ?due"
    then obtain t where s: "BlockQuarantined (fst b) (snd b) t \<in> lv a" using q(2)[of "fst b" "snd b"] by auto
    then show "b \<in> ref_of ` {s \<in> heldset a. is_due (al_now a) s}"
      using w[OF s] b by (intro image_eqI[of _ _ "BlockQuarantined (fst b) (snd b) t"])
        (auto simp: heldset_def is_due_def)
  qed
  have inj: "inj_on ref_of {s \<in> heldset a. is_due (al_now a) s}"
    using free_leaf_unique[OF wf] heldsetD(1) unfolding inj_on_def by blast
  have "snd (sweepLocked a) = length ?due" by (auto simp: sweepLocked_def Let_def)
  also have "\<dots> = card (set ?due)" by (rule distinct_card[symmetric]) (simp add: q(1))
  also have "\<dots> = card {s \<in> heldset a. is_due (al_now a) s}" using im card_image[OF inj] by simp
  finally show ?thesis .
qed

subsection \<open>A concrete allocator for the witnesses\<close>

definition demo :: allocator where
  "demo = addFree \<lparr>al_root = BlockFree 167772160 24, al_min = 28, al_max = 24, al_free = (\<lambda>_. []),
     al_quarantined = [], al_quarantine = 60, al_now = 0\<rparr> (167772160, 24)"

lemma parse_demo:
  "parse_cidr ''10.0.0.0/24'' = Some (167772160, \<lparr>net_ip = 167772160, net_ones = 24\<rparr>)"
  "parse_cidr ''10.0.0.96/27'' = Some (167772256, \<lparr>net_ip = 167772256, net_ones = 27\<rparr>)"
  "parse_cidr ''10.0.0.0/28'' = Some (167772160, \<lparr>net_ip = 167772160, net_ones = 28\<rparr>)"
  by (simp_all add: parse_cidr_def parse_ip_def parse_octet_def parse_mask_def digit_val_def cidr_mask_def
      mask_eq_exp_minus_1)

lemma demo_reachable: "alloc_reachable demo"
proof -
  let ?a = "addFree \<lparr>al_root = BlockFree 167772160 24, al_min = 28, al_max = 24, al_free = (\<lambda>_. []),
     al_quarantined = [], al_quarantine = 0, al_now = 0\<rparr> (167772160, 24)"
  have "newBuddyAllocator ''10.0.0.0/24'' 28 24 = Inr ?a"
    by (simp add: newBuddyAllocator_def parse_demo Let_def)
  then have "alloc_reachable ?a" by (rule alloc_reachable.Start)
  then have "alloc_reachable (setQuarantine ?a 60)" by (rule alloc_reachable.Step) (rule alloc_step.Quarantine)
  then show ?thesis by (simp add: demo_def setQuarantine_def addFree_def)
qed

lemma demo_inv: "alloc_inv demo"
  by (rule reachable_inv[OF demo_reachable])

definition demo1 :: allocator where
  "demo1 = fst (al_allocate demo 16 ''n1'')"

lemma demo1_inv: "alloc_inv demo1"
  unfolding demo1_def by (rule alloc_step_inv[OF alloc_step.Allocate demo_inv])

lemma demo1_held: "set (held (al_root demo1)) = {BlockAllocated 167772160 28 ''n1''}"
proof -
  have "held (al_root demo1) = [BlockAllocated 167772160 28 ''n1'']" by code_simp
  then show ?thesis by simp
qed

subsection \<open>The properties\<close>

text \<open>
  C18. Whatever sequence of the allocator's operations is run on a freshly created allocator, its
  state stays well formed: the leaves of the tree are aligned blocks that partition the pool's
  address range, no two free buddies are left unmerged, the free index lists exactly the free
  leaves and the quarantine set exactly the quarantined ones.
\<close>

theorem reachable_allocator_sound:
  assumes "alloc_reachable a"
  shows "(\<forall>s u. s \<in> lv a \<and> u \<in> lv a \<and> tspan s \<inter> tspan u \<noteq> {} \<longrightarrow> s = u) \<and>
    (\<Union>s \<in> lv a. tspan s) = tspan (al_root a) \<and> (\<forall>s \<in> lv a. block_ok (blk_base s) (blk_plen s)) \<and>
    normal (al_root a) \<and>
    (\<forall>p x. x \<in> set (al_free a p) \<longleftrightarrow> BlockFree x p \<in> lv a) \<and>
    (\<forall>x p. (x, p) \<in> set (al_quarantined a) \<longleftrightarrow> (\<exists>t. BlockQuarantined x p t \<in> lv a))"
proof -
  have inv: "alloc_inv a" by (rule reachable_inv[OF assms])
  note d = alloc_invD[OF inv]
  show ?thesis
    using leaf_disjoint[OF d(2)] leaf_cover[OF d(2)] leaf_wf(4)[OF d(2)] d(4) core_idx[OF d(1)] d(1)
    unfolding core_inv_def quar_ok_def by blast
qed

theorem reachable_allocator_sound_witness:
  "normal (al_root (fst (al_allocate demo 16 ''n1''))) \<and> is_BlockSplit (al_root (fst (al_allocate demo 16 ''n1'')))"
proof -
  have "alloc_reachable (fst (al_allocate demo 16 ''n1''))"
    by (rule alloc_reachable.Step[OF demo_reachable alloc_step.Allocate])
  note reachable_allocator_sound[OF this]
  moreover have "is_BlockSplit (al_root (fst (al_allocate demo 16 ''n1'')))" by code_simp
  ultimately show ?thesis by blast
qed

text \<open>
  C27. A successful \<open>Allocate\<close> returns a block of the smallest power of two that holds the request
  (but not below the minimum block), carved out of a free block that was the best fit: no free
  block closer in size was there, and none of that size had a lower address. The block overlaps
  nothing held, it is the only change to the held blocks, and the state stays well formed.
\<close>

theorem allocate_success:
  assumes "alloc_inv a" "al_allocate a req nodeName = (a', Inr b)"
  shows "req \<le> int (addresses (snd b)) \<and> al_max a \<le> snd b \<and> snd b \<le> al_min a \<and>
    (snd b < al_min a \<longrightarrow> int (addresses (Suc (snd b))) < req) \<and>
    (\<exists>c. best_fit (fst (sweep a)) (Suc (snd b)) c \<and> span (fst b) (snd b) \<subseteq> span (fst c) (snd c)) \<and>
    (\<forall>s \<in> heldset (fst (sweep a)). tspan s \<inter> span (fst b) (snd b) = {}) \<and>
    heldset a' = insert (BlockAllocated (fst b) (snd b) nodeName) (heldset (fst (sweep a))) \<and> alloc_inv a'"
proof -
  note lim = swept_limits[OF assms(1)]
  obtain c where c: "prefixFor (swept a) req = Inr (snd b)" "best_fit (swept a) (Suc (snd b)) c"
    "granted (swept a) a' c b nodeName" by (rule al_allocate_Inr[OF assms])
  have "\<exists>c. best_fit (swept a) (Suc (snd b)) c \<and> span (fst b) (snd b) \<subseteq> span (fst c) (snd c)"
    using c by (intro exI[of _ c]) (simp add: granted_def)
  then show ?thesis
    using prefixFor_Inr[OF lim(1) c(1)] lim(2,3) held_apart[OF c(3) swept_inv(1)[OF assms(1)]] c(3)
    unfolding granted_def sweep_def by auto
qed

theorem allocate_success_witness:
  "\<exists>a'. al_allocate demo1 20 ''n2'' = (a', Inr (167772192, 27)) \<and> alloc_inv a'"
proof -
  have "snd (al_allocate demo1 20 ''n2'') = Inr (167772192, 27)" by code_simp
  then have r: "al_allocate demo1 20 ''n2'' = (fst (al_allocate demo1 20 ''n2''), Inr (167772192, 27))"
    by (metis prod.collapse)
  then show ?thesis using allocate_success[OF demo1_inv r] by blast
qed

text \<open>
  \<open>Allocate\<close> fails exactly when it has to: the request is larger than the largest block the
  pool hands out, or no free block is large enough for the request and for the minimum block. A
  failed call changes nothing beyond the sweep every call starts with.
\<close>

lemma allocate_failure:
  assumes "alloc_inv a"
  shows "((\<exists>e. snd (al_allocate a req nodeName) = Inl e) \<longleftrightarrow>
      int (addresses (al_max a)) < req \<or>
      (\<forall>x q. BlockFree x q \<in> lv (fst (sweep a)) \<longrightarrow> int (addresses q) < max req (int (addresses (al_min a))))) \<and>
    (\<forall>e. snd (al_allocate a req nodeName) = Inl e \<longrightarrow> fst (al_allocate a req nodeName) = fst (sweep a))"
proof -
  let ?r = "al_allocate a req nodeName"
  note lim = swept_limits[OF assms]
  have same: "\<forall>e. snd ?r = Inl e \<longrightarrow> fst ?r = fst (sweep a)"
    using al_allocate_Inl(1)[OF assms, of req nodeName "fst ?r"] by (metis prod.collapse sweep_def)
  have "(\<exists>e. snd ?r = Inl e) \<longleftrightarrow> int (addresses (al_max a)) < req \<or>
      (\<forall>x q. BlockFree x q \<in> lv (fst (sweep a)) \<longrightarrow> int (addresses q) < max req (int (addresses (al_min a))))"
    (is "_ \<longleftrightarrow> ?L")
  proof
    assume "\<exists>e. snd ?r = Inl e"
    then obtain e where "?r = (fst ?r, Inl e)" by (metis prod.collapse)
    then show ?L unfolding sweep_def by (rule al_allocate_Inl(2)[OF assms])
  next
    assume L: ?L
    show "\<exists>e. snd ?r = Inl e"
    proof (cases "snd ?r")
      case (Inr b)
      then have "?r = (fst ?r, Inr b)" by (metis prod.collapse)
      then obtain c where c: "prefixFor (swept a) req = Inr (snd b)" "best_fit (swept a) (Suc (snd b)) c"
        by (rule al_allocate_Inr[OF assms]) blast
      note pf = prefixFor_Inr[OF lim(1) c(1)]
      have "BlockFree (fst c) (snd c) \<in> lv (swept a)" "snd c \<le> snd b" using c(2) by (auto simp: best_fit_def)
      moreover have "addresses (snd b) \<le> addresses (snd c)" using calculation(2) by (rule addresses_mono)
      moreover have "addresses (al_min a) \<le> addresses (snd b)" using pf(2) lim(2) by (intro addresses_mono) simp
      moreover have "addresses (snd b) \<le> addresses (al_max a)" using pf(1) lim(3) by (intro addresses_mono) simp
      ultimately show ?thesis using L pf(4) unfolding sweep_def by force
    qed blast
  qed
  then show ?thesis using same by simp
qed

text \<open>
  Rolling back a successful \<open>Allocate\<close> with \<open>FreeNow\<close> restores the block tree exactly as the
  call found it after its sweep: every split is undone, so no fragmentation is left behind.
\<close>

lemma allocate_rollback:
  assumes "alloc_inv a" "al_allocate a req nodeName = (a', Inr b)"
  shows "snd (freeNow a' (Some b)) = None \<and> al_root (fst (freeNow a' (Some b))) = al_root (fst (sweep a))"
proof -
  obtain c where g: "granted (swept a) a' c b nodeName" by (rule al_allocate_Inr[OF assms]) blast
  have "checkOwned a' (Some b) = None"
    using checkOwned_Some[OF granted_inv[OF g]] g by (auto simp: granted_def)
  then have "freeNow a' (Some b) = (releaseLocked a' b, None)" by (simp add: freeNow_def)
  then show ?thesis
    using releaseLocked_granted(1)[OF swept_inv(1)[OF assms(1)] g] by (simp add: sweep_def)
qed

text \<open>
  C28. \<open>Reserve\<close> succeeds exactly when the range lies in the pool and overlaps nothing held
  (allocated or quarantined). It then holds precisely the given range, the only change to the
  held blocks; when it fails the allocator is untouched.
\<close>

theorem reserve_exact:
  assumes "alloc_inv a" "parse_cidr cidr = Some (ip, n)"
  shows "(snd (al_reserve a cidr nodeName) = Inr (net_ip n, net_ones n) \<and>
      heldset (fst (al_reserve a cidr nodeName)) = insert (BlockAllocated (net_ip n) (net_ones n) nodeName) (heldset a) \<and>
      blk_plen (al_root a) \<le> net_ones n \<and> span (net_ip n) (net_ones n) \<subseteq> tspan (al_root a) \<and>
      (\<forall>s \<in> heldset a. tspan s \<inter> span (net_ip n) (net_ones n) = {})) \<or>
    ((\<exists>e. al_reserve a cidr nodeName = (a, Inl e)) \<and>
      \<not> (blk_plen (al_root a) \<le> net_ones n \<and> span (net_ip n) (net_ones n) \<subseteq> tspan (al_root a) \<and>
        (\<forall>s \<in> heldset a. tspan s \<inter> span (net_ip n) (net_ones n) = {})))"
proof (cases rule: al_reserve_cases[OF assms, of nodeName])
  case (1 c a')
  then show ?thesis using held_apart[OF 1(2) assms(1)] by (auto simp: granted_def)
qed auto

theorem reserve_exact_witness:
  "snd (al_reserve demo1 ''10.0.0.96/27'' ''n2'') = Inr (167772256, 27)"
proof -
  have "al_find demo1 ''10.0.0.96/27'' \<noteq> Some x" for x
    using al_find_iff[OF demo1_inv parse_demo(2)] demo1_held by (auto simp: heldset_held)
  have "\<forall>s \<in> heldset demo1. tspan s \<inter> span 167772256 27 = {}"
    by (simp add: heldset_held demo1_held span_def addresses_def)
  moreover have "ref_of (al_root demo1) = (167772160, 24)" by code_simp
  then have "blk_plen (al_root demo1) \<le> 27" "span 167772256 27 \<subseteq> tspan (al_root demo1)"
    by (auto simp: span_def addresses_def)
  ultimately show ?thesis using reserve_exact[OF demo1_inv parse_demo(2), of "''n2''"] by auto
qed

text \<open>
  The order in which ranges are reserved does not matter: if two reservations succeed one
  after the other, they succeed in the other order too, with the same blocks and the same tree.
  A pool rebuilt from the blocks recorded in the cluster is therefore determined by the set of
  blocks, not by the order the records are listed in.
\<close>

lemma reserve_commute:
  assumes "alloc_inv a" "parse_cidr c = Some (ip, n)" "parse_cidr d = Some (jp, m)"
    "al_reserve a c x = (a1, Inr b1)" "al_reserve a1 d y = (a2, Inr b2)"
  shows "\<exists>e1 e2. al_reserve a d y = (e1, Inr b2) \<and> al_reserve e1 c x = (e2, Inr b1) \<and> al_root e2 = al_root a2"
proof -
  note g1 = al_reserve_Inr[OF assms(1,2,4)]
  note g2 = al_reserve_Inr[OF g1(1) assms(3,5)]
  have root: "ref_of (al_root a1) = ref_of (al_root a)" using g1(2) by (simp add: same_frame_def)
  have "\<forall>s \<in> heldset a. tspan s \<inter> span (net_ip m) (net_ones m) = {}" using g2(7) g1(4) by simp
  then obtain e1 where e1: "al_reserve a d y = (e1, Inr b2)"
    using al_reserve_possible[OF assms(1,3), of y] g2(3,5,6) root by auto
  note h1 = al_reserve_Inr[OF assms(1,3) e1]
  have root': "ref_of (al_root e1) = ref_of (al_root a)" using h1(2) by (simp add: same_frame_def)
  have "span (net_ip n) (net_ones n) \<inter> span (net_ip m) (net_ones m) = {}" using g2(7) g1(4) by simp
  then have "\<forall>s \<in> heldset e1. tspan s \<inter> span (net_ip n) (net_ones n) = {}"
    using g1(7) h1(4) by (simp add: Int_commute)
  then obtain e2 where e2: "al_reserve e1 c x = (e2, Inr b1)"
    using al_reserve_possible[OF h1(1) assms(2), of x] g1(3,5,6) root' by auto
  note h2 = al_reserve_Inr[OF h1(1) assms(2) e2]
  have "same_frame a2 e2" using g1(2) g2(2) h1(2) h2(2) by (simp add: same_frame_def)
  moreover have "heldset a2 = heldset e2" unfolding g2(4) g1(4) h2(4) h1(4) by (rule insert_commute)
  ultimately have "al_root a2 = al_root e2" by (rule root_determined[OF g2(1) h2(1)])
  then show ?thesis using e1 e2 by auto
qed

text \<open>
  A sweep releases exactly the quarantined blocks whose time has come, and reports their
  number; every other held block stays held.
\<close>

lemma sweep_exact:
  assumes "alloc_inv a"
  shows "heldset (fst (sweep a)) = {s \<in> heldset a. \<not> is_due (al_now a) s} \<and>
    snd (sweep a) = card {s \<in> heldset a. is_due (al_now a) s} \<and> alloc_inv (fst (sweep a))"
  using swept_inv[OF assms] sweep_count[OF assms] by (simp add: sweep_def)

text \<open>
  \<open>Free\<close> accepts exactly the blocks that are allocated. With a quarantine configured the block
  is held back, stamped with the time it may be reused, and until a sweep at that time no
  operation hands out any of its addresses; without one it is released at once.
\<close>

lemma free_quarantines:
  assumes "alloc_inv a"
  shows "(snd (al_free_block a (Some b)) = None \<longleftrightarrow> (\<exists>m. BlockAllocated (fst b) (snd b) m \<in> heldset a)) \<and>
    (\<forall>m. BlockAllocated (fst b) (snd b) m \<in> heldset a \<longrightarrow>
      heldset (fst (al_free_block a (Some b))) =
        (heldset a - {BlockAllocated (fst b) (snd b) m}) \<union>
        (if al_quarantine a > 0 then {BlockQuarantined (fst b) (snd b) (al_now a + al_quarantine a)} else {})) \<and>
    (snd (al_free_block a (Some b)) \<noteq> None \<longrightarrow> fst (al_free_block a (Some b)) = a)"
proof (cases "checkOwned a (Some b)")
  case (Some e)
  then show ?thesis using al_free_block_refused(1)[OF Some] checkOwned_Some[OF assms, of b] by auto
next
  case None
  then obtain m where m: "BlockAllocated (fst b) (snd b) m \<in> heldset a" using checkOwned_Some[OF assms] by blast
  have "k = m" if "BlockAllocated (fst b) (snd b) k \<in> heldset a" for k
    using free_leaf_unique[OF alloc_invD(2)[OF assms] heldsetD(1)[OF that] heldsetD(1)[OF m]] by simp
  moreover have "heldset (fst (al_free_block a (Some b))) = (heldset a - {BlockAllocated (fst b) (snd b) m}) \<union>
        (if al_quarantine a > 0 then {BlockQuarantined (fst b) (snd b) (al_now a + al_quarantine a)} else {})"
    using al_free_block_ok(1,2)[OF assms m] by (cases "al_quarantine a > 0") simp_all
  moreover have "snd (al_free_block a (Some b)) = None" using al_free_block_ok(3)[OF assms m] by simp
  ultimately show ?thesis using m by (metis (no_types, lifting))
qed

text \<open>
  \<open>AllocateFromBuddy\<close> grows a node in place: the new block touches, without a gap, a range
  that contains the given block and belongs entirely to the node; it has the size of the request
  or, where that is larger, of the neighbouring free range; it overlaps nothing held.
\<close>

lemma allocateFromBuddy_adjacent:
  assumes "alloc_inv a" "BlockAllocated x n nodeName \<in> heldset a"
    "al_allocateFromBuddy a (x, n) req nodeName = (a', Inr b)"
  shows "(\<exists>u \<in> nodes (al_root (fst (sweep a))). ownedBy u nodeName \<and> span x n \<subseteq> tspan u \<and>
      blk_plen u \<le> snd b \<and>
      (unat (fst b) = unat (blk_base u) + addresses (blk_plen u) \<or>
       unat (fst b) + addresses (snd b) = unat (blk_base u))) \<and>
    (\<forall>s \<in> heldset (fst (sweep a)). tspan s \<inter> span (fst b) (snd b) = {}) \<and>
    heldset a' = insert (BlockAllocated (fst b) (snd b) nodeName) (heldset (fst (sweep a)))"
proof -
  obtain u c p where u: "u \<in> nodes (al_root (swept a))" "ownedBy u nodeName" "span x n \<subseteq> tspan u"
    "granted (swept a) a' c b nodeName" "snd c = blk_plen u" "snd b = max p (snd c)"
    "unat (fst b) = unat (blk_base u) + addresses (blk_plen u) \<or> unat (fst b) + addresses (snd b) = unat (blk_base u)"
    by (rule al_allocateFromBuddy_Inr[OF assms]) blast
  have "blk_plen u \<le> snd b" using u(5,6) by simp
  moreover have "heldset a' = insert (BlockAllocated (fst b) (snd b) nodeName) (heldset (swept a))"
    using u(4) by (simp add: granted_def)
  ultimately show ?thesis
    using u(1,2,3,7) held_apart[OF u(4) swept_inv(1)[OF assms(1)]] unfolding sweep_def by blast
qed

text \<open>
  \<open>AllocateSpread\<close> leaves room to double: when it succeeds, the new block is the lower half of
  an aligned block of twice its size whose upper half is a free block, and among the larger free
  blocks it split the best fit.
\<close>

lemma allocateSpread_leaves_buddy_free:
  assumes "alloc_inv a" "allocateSpread a req nodeName = (a', Inr b)"
  shows "0 < snd b \<and> block_ok (fst b) (snd b - 1) \<and>
    BlockFree (fst b + half_of (snd b - 1)) (snd b) \<in> lv a' \<and> req \<le> int (addresses (snd b)) \<and>
    (\<exists>c. best_fit (fst (sweep a)) (snd b) c \<and> span (fst b) (snd b) \<subseteq> span (fst c) (snd c)) \<and>
    heldset a' = insert (BlockAllocated (fst b) (snd b) nodeName) (heldset (fst (sweep a)))"
proof -
  note r = allocateSpread_sibling[OF assms]
  obtain c where c: "granted (swept a) a' c b nodeName" "best_fit (swept a) (snd b) c" using r(4) by blast
  have "best_fit (fst (sweep a)) (snd b) c \<and> span (fst b) (snd b) \<subseteq> span (fst c) (snd c)"
    "heldset a' = insert (BlockAllocated (fst b) (snd b) nodeName) (heldset (fst (sweep a)))"
    using c by (simp_all add: granted_def sweep_def)
  then show ?thesis using r(1,2,3) prefixFor_Inr(4)[OF swept_limits(1)[OF assms(1)] r(5)] by blast
qed

text \<open>
  The statistics account for every address of the pool exactly once: allocated, free and
  quarantined addresses add up to the size of the pool, no unmerged pair is counted, the block
  count is the number of allocated blocks, which \<open>GetAllocatedBlocks\<close> lists in address order, and
  the largest free block is an upper bound of the free blocks' sizes that a free block attains.
\<close>

lemma stats_account_for_all:
  assumes "alloc_inv a"
  shows "st_allocated (al_stats a) + st_free (al_stats a) + st_quarantined (al_stats a) = st_total (al_stats a) \<and>
    st_fragmented (al_stats a) = 0 \<and> st_blocks (al_stats a) = length (al_getAllocatedBlocks a) \<and>
    set (al_getAllocatedBlocks a) = {s \<in> heldset a. is_BlockAllocated s} \<and>
    sorted_wrt (\<lambda>s u. unat (blk_base s) < unat (blk_base u)) (al_getAllocatedBlocks a) \<and>
    (\<forall>x q. BlockFree x q \<in> lv a \<longrightarrow> addresses q \<le> st_largest (al_stats a)) \<and>
    (st_largest (al_stats a) = 0 \<or> (\<exists>x q. BlockFree x q \<in> lv a \<and> addresses q = st_largest (al_stats a)))"
proof -
  have wf: "wf_tree (al_root a)" and nm: "normal (al_root a)" using alloc_invD[OF assms] by auto
  define s0 where "s0 = \<lparr>st_total = addresses (blk_plen (al_root a)), st_allocated = 0, st_free = 0,
      st_quarantined = 0, st_fragmented = 0, st_blocks = 0, st_largest = 0, st_by_level = (\<lambda>_. 0)\<rparr>"
  have st: "al_stats a = stats_walk (al_root a) s0" by (simp add: al_stats_def s0_def)
  note sums = stats_walk_sums[of "al_root a" s0]
  let ?F = "(addresses \<circ> blk_plen) ` {b \<in> lv a. is_BlockFree b}"
  have mx: "st_largest (al_stats a) = Max (insert 0 ?F)" by (simp add: st stats_walk_largest s0_def)
  have fin: "finite (insert 0 ?F)" by simp
  have "addresses q \<le> st_largest (al_stats a)" if "BlockFree x q \<in> lv a" for x q
    unfolding mx using that by (intro Max_ge[OF fin]) force
  moreover have "st_largest (al_stats a) \<in> insert 0 ?F" unfolding mx by (rule Max_in[OF fin]) simp
  then have "st_largest (al_stats a) = 0 \<or> (\<exists>b. b \<in> lv a \<and> is_BlockFree b \<and> addresses (blk_plen b) = st_largest (al_stats a))"
    by auto
  then have "st_largest (al_stats a) = 0 \<or> (\<exists>x q. BlockFree x q \<in> lv a \<and> addresses q = st_largest (al_stats a))"
    by (metis btree.collapse(1))
  moreover have "set (al_getAllocatedBlocks a) = {s \<in> heldset a. is_BlockAllocated s}"
    by (auto simp: al_getAllocatedBlocks_def allocated_walk heldset_def is_BlockAllocated_def)
  moreover have "sorted_wrt (\<lambda>s u. unat (blk_base s) < unat (blk_base u)) (al_getAllocatedBlocks a)"
    unfolding al_getAllocatedBlocks_def allocated_walk by (rule sorted_wrt_filter[OF leaves_sorted[OF wf]])
  moreover have "st_allocated (al_stats a) + st_free (al_stats a) + st_quarantined (al_stats a) = st_total (al_stats a)"
    using sums total_partition[of "al_root a"] total_leaves[OF wf] by (simp add: st s0_def)
  moreover have "st_fragmented (al_stats a) = 0 \<and> st_blocks (al_stats a) = length (al_getAllocatedBlocks a)"
    using sums nm by (simp add: st s0_def al_getAllocatedBlocks_def)
  ultimately show ?thesis by blast
qed

text \<open>
  \<open>Defragment\<close> is the consistency check its comment says it is: in every well-formed state it
  finds nothing to merge and changes nothing but the expired quarantine its sweep releases.
\<close>

lemma defragment_finds_nothing:
  assumes "alloc_inv a"
  shows "al_defragment a = (fst (sweep a), [])"
  using defragment_eq[OF assms] by (simp add: sweep_def)

text \<open>
  \<open>Find\<close> returns a block exactly when one with the given CIDR is allocated or quarantined,
  and it returns that block.
\<close>

lemma find_exact:
  assumes "alloc_inv a" "parse_cidr cidr = Some (ip, n)"
  shows "al_find a cidr = Some s \<longleftrightarrow> s \<in> heldset a \<and> ref_of s = (net_ip n, net_ones n)"
  by (rule al_find_iff[OF assms])

end
