(* ===== verification/Pool.thy ===== *)
theory Pool
  imports Allocator_Spec
begin

text \<open>
  The operations of \<open>Pool\<close> (ipam/buddy/pool.go): an ordered list of allocators, one per CIDR. A
  pointer to a block of the pool is its \<open>bref\<close>; \<open>block_cidr\<close> is its \<open>CIDR\<close> field. As in the code,
  the owner of a block is found by its CIDR text.
\<close>

record pool =
  pl_allocators :: "allocator list"
  pl_quarantine :: duration
  pl_now :: go_time
  pl_min :: int
  pl_max :: int

definition newPool :: pool where
  "newPool = \<lparr>pl_allocators = [], pl_quarantine = 0, pl_now = 0, pl_min = 0, pl_max = 0\<rparr>"

definition pool_setQuarantine :: "pool \<Rightarrow> duration \<Rightarrow> pool" where
  "pool_setQuarantine p d =
     p\<lparr>pl_quarantine := d, pl_allocators := map (\<lambda>a. setQuarantine a d) (pl_allocators p)\<rparr>"

definition pool_setClock :: "pool \<Rightarrow> go_time \<Rightarrow> pool" where
  "pool_setClock p now =
     p\<lparr>pl_now := now, pl_allocators := map (\<lambda>a. setClock a now) (pl_allocators p)\<rparr>"

definition root_cidr :: "allocator \<Rightarrow> string" where
  "root_cidr a = cidr_string (blk_base (al_root a)) (blk_plen (al_root a))"

definition hasCIDR :: "pool \<Rightarrow> string \<Rightarrow> bool" where
  "hasCIDR p cidr =
     (case parse_cidr cidr of
        None \<Rightarrow> False
      | Some (_, n) \<Rightarrow> list_ex (\<lambda>a. root_cidr a = cidr_string (net_ip n) (net_ones n)) (pl_allocators p))"

definition overlaps :: "ipnet \<Rightarrow> ipnet \<Rightarrow> bool" where
  "overlaps a b \<longleftrightarrow> net_contains a (net_ip b) \<or> net_contains b (net_ip a)"

definition addCIDR :: "pool \<Rightarrow> string \<Rightarrow> int \<Rightarrow> int \<Rightarrow> pool \<times> error option" where
  "addCIDR p cidr minPrefixLen maxPrefixLen =
     (let effMax = (case parse_cidr cidr of
                      None \<Rightarrow> maxPrefixLen
                    | Some (_, n) \<Rightarrow> if maxPrefixLen < int (net_ones n) then int (net_ones n) else maxPrefixLen)
      in case newBuddyAllocator cidr minPrefixLen effMax of
           Inl e \<Rightarrow> (p, Some e)
         | Inr alloc \<Rightarrow>
             if list_ex (\<lambda>existing. overlaps (root_net existing) (root_net alloc)) (pl_allocators p)
             then (p, Some (ErrCIDROverlap cidr))
             else
               (let alloc = setQuarantine alloc (pl_quarantine p);
                    alloc = setClock alloc (pl_now p);
                    p = (if pl_allocators p = [] then p\<lparr>pl_min := minPrefixLen, pl_max := maxPrefixLen\<rparr> else p)
                in (p\<lparr>pl_allocators := pl_allocators p @ [alloc]\<rparr>, None)))"

text \<open>
  The loop over the allocators that returns the first success and otherwise the last error. The
  allocators tried before the success keep the effect of their own sweep.
\<close>

fun try_each :: "('s \<Rightarrow> 's \<times> (error + bref)) \<Rightarrow> error \<Rightarrow> 's list \<Rightarrow> 's list \<times> (error + bref)" where
  "try_each op lastErr [] = ([], Inl lastErr)"
| "try_each op lastErr (a # as) =
     (case op a of
        (a', Inr b) \<Rightarrow> (a' # as, Inr b)
      | (a', Inl e) \<Rightarrow> (case try_each op e as of (as', r) \<Rightarrow> (a' # as', r)))"

definition pool_try :: "pool \<Rightarrow> (allocator \<Rightarrow> allocator \<times> (error + bref)) \<Rightarrow> pool \<times> (error + bref)" where
  "pool_try p op =
     (if pl_allocators p = [] then (p, Inl ErrPoolEmpty)
      else (case try_each op ErrPoolEmpty (pl_allocators p) of
              (as, Inr b) \<Rightarrow> (p\<lparr>pl_allocators := as\<rparr>, Inr b)
            | (as, Inl e) \<Rightarrow> (p\<lparr>pl_allocators := as\<rparr>, Inl (ErrPoolExhausted e))))"

definition pool_allocate :: "pool \<Rightarrow> int \<Rightarrow> string \<Rightarrow> pool \<times> (error + bref)" where
  "pool_allocate p requestedAddrs nodeName = pool_try p (\<lambda>a. al_allocate a requestedAddrs nodeName)"

definition spread_or_allocate :: "int \<Rightarrow> string \<Rightarrow> allocator \<Rightarrow> allocator \<times> (error + bref)" where
  "spread_or_allocate requestedAddrs nodeName a =
     (case allocateSpread a requestedAddrs nodeName of
        (a', Inr b) \<Rightarrow> (a', Inr b)
      | (a', Inl _) \<Rightarrow> al_allocate a' requestedAddrs nodeName)"

definition pool_allocateSpread :: "pool \<Rightarrow> int \<Rightarrow> string \<Rightarrow> pool \<times> (error + bref)" where
  "pool_allocateSpread p requestedAddrs nodeName = pool_try p (spread_or_allocate requestedAddrs nodeName)"

definition pool_allocatePrefix :: "pool \<Rightarrow> nat \<Rightarrow> pool \<times> (error + bref)" where
  "pool_allocatePrefix p prefix =
     (case try_each (\<lambda>a. al_allocatePrefix a prefix []) (ErrNoSpace prefix) (pl_allocators p) of
        (as, r) \<Rightarrow> (p\<lparr>pl_allocators := as\<rparr>, r))"

text \<open>
  \<open>SplitDemand\<close>: whole maximum-size blocks first (\<open>max_blocks\<close>), then one block per set bit of the
  rest (\<open>bit_blocks\<close>, whose inner loop is \<open>level_of\<close>); then \<open>allocatePrefixOrSplit\<close>, which falls back
  to two blocks of the next smaller size, and \<open>AllocateDemand\<close> with its rollback.
\<close>

function max_blocks :: "nat \<Rightarrow> nat \<Rightarrow> nat \<Rightarrow> nat list \<times> nat" where
  "max_blocks maxUnits maxPrefixLen units =
     (if maxUnits = 0 \<or> units < maxUnits then ([], units)
      else (case max_blocks maxUnits maxPrefixLen (units - maxUnits) of (out, u) \<Rightarrow> (maxPrefixLen # out, u)))"
  by pat_completeness auto
termination by (relation "measure (\<lambda>(m, x, u). u)") auto

declare max_blocks.simps [simp del]

fun level_of :: "nat \<Rightarrow> nat" where
  "level_of v = (if v > 1 then Suc (level_of (v div 2)) else 0)"

declare level_of.simps [simp del]

fun bit_blocks :: "nat \<Rightarrow> nat \<Rightarrow> nat \<Rightarrow> nat list" where
  "bit_blocks minPrefixLen units b =
     (if b < 1 then []
      else (if units AND b \<noteq> 0 then [minPrefixLen - level_of b] else []) @ bit_blocks minPrefixLen units (b div 2))"

declare bit_blocks.simps [simp del]

definition splitDemand :: "int \<Rightarrow> nat \<Rightarrow> nat \<Rightarrow> nat list" where
  "splitDemand requestedAddrs minPrefixLen maxPrefixLen =
     (let unit = push_bit (32 - minPrefixLen) 1 :: int;
          units = nat (max ((requestedAddrs + unit - 1) sdiv unit) 1);
          maxUnits = push_bit (minPrefixLen - maxPrefixLen) 1 :: nat
      in case max_blocks maxUnits maxPrefixLen units of
           (out, units) \<Rightarrow> out @ bit_blocks minPrefixLen units (maxUnits div 2))"

function allocatePrefixOrSplit :: "pool \<Rightarrow> nat \<Rightarrow> nat \<Rightarrow> string \<Rightarrow> pool \<times> bref list \<times> error option" where
  "allocatePrefixOrSplit p prefix minP nodeName =
     (case try_each (\<lambda>a. al_allocatePrefix a prefix nodeName) (ErrNoSpace prefix) (pl_allocators p) of
        (as, Inr b) \<Rightarrow> (p\<lparr>pl_allocators := as\<rparr>, [b], None)
      | (as, Inl lastErr) \<Rightarrow>
          (let p = p\<lparr>pl_allocators := as\<rparr> in
           if prefix \<ge> minP then (p, [], Some (ErrPoolExhausted lastErr))
           else (case allocatePrefixOrSplit p (prefix + 1) minP nodeName of
                   (p, _, Some e) \<Rightarrow> (p, [], Some e)
                 | (p, first, None) \<Rightarrow>
                     (case allocatePrefixOrSplit p (prefix + 1) minP nodeName of
                        (p, half2, e) \<Rightarrow> (p, first @ half2, e)))))"
  by pat_completeness auto
termination by (relation "measure (\<lambda>(p, prefix, minP, nodeName). minP - prefix)") auto

declare allocatePrefixOrSplit.simps [simp del]

definition owner_index :: "pool \<Rightarrow> string \<Rightarrow> nat option" where
  "owner_index p cidr = find (\<lambda>i. al_contains (pl_allocators p ! i) cidr) [0 ..< length (pl_allocators p)]"

definition at_owner :: "pool \<Rightarrow> nat \<Rightarrow> (allocator \<Rightarrow> allocator \<times> 'r) \<Rightarrow> pool \<times> 'r" where
  "at_owner p i f =
     (case f (pl_allocators p ! i) of
        (a', r) \<Rightarrow> (p\<lparr>pl_allocators := (pl_allocators p)[i := a']\<rparr>, r))"

definition block_cidr :: "bref \<Rightarrow> string" where
  "block_cidr b = cidr_string (fst b) (snd b)"

definition pool_freeNow :: "pool \<Rightarrow> bref \<Rightarrow> pool \<times> error option" where
  "pool_freeNow p b =
     (case owner_index p (block_cidr b) of
        Some i \<Rightarrow> at_owner p i (\<lambda>a. freeNow a (Some b))
      | None \<Rightarrow> (p, Some (ErrNotInPool (block_cidr b))))"

fun demand_loop :: "pool \<Rightarrow> nat \<Rightarrow> string \<Rightarrow> bref list \<Rightarrow> nat list \<Rightarrow> pool \<times> (error + bref list)" where
  "demand_loop p minP nodeName got [] = (p, Inr got)"
| "demand_loop p minP nodeName got (prefix # prefixes) =
     (case allocatePrefixOrSplit p prefix minP nodeName of
        (p', blocks, None) \<Rightarrow> demand_loop p' minP nodeName (got @ blocks) prefixes
      | (p', blocks, Some e) \<Rightarrow> (foldl (\<lambda>q b. fst (pool_freeNow q b)) p' (got @ blocks), Inl e))"

definition allocateDemand :: "pool \<Rightarrow> int \<Rightarrow> string \<Rightarrow> pool \<times> (error + bref list)" where
  "allocateDemand p requestedAddrs nodeName =
     (if pl_allocators p = [] then (p, Inl ErrPoolEmpty)
      else demand_loop p (nat (pl_min p)) nodeName [] (splitDemand requestedAddrs (nat (pl_min p)) (nat (pl_max p))))"

text \<open>The operations that go to the allocator owning the block.\<close>

definition pool_allocateFromBuddy :: "pool \<Rightarrow> bref \<Rightarrow> int \<Rightarrow> string \<Rightarrow> pool \<times> (error + bref)" where
  "pool_allocateFromBuddy p block requestedAddrs nodeName =
     (case owner_index p (block_cidr block) of
        None \<Rightarrow> (p, Inl (ErrNotInPool (block_cidr block)))
      | Some i \<Rightarrow> at_owner p i (\<lambda>a. al_allocateFromBuddy a block requestedAddrs nodeName))"

definition pool_allocateBuddyOf :: "pool \<Rightarrow> bref \<Rightarrow> string \<Rightarrow> pool \<times> (error + bref)" where
  "pool_allocateBuddyOf p block nodeName =
     (case owner_index p (block_cidr block) of
        None \<Rightarrow> (p, Inl (ErrNotInPool (block_cidr block)))
      | Some i \<Rightarrow> at_owner p i (\<lambda>a. al_allocateBuddyOf a block nodeName))"

definition pool_reserve :: "pool \<Rightarrow> string \<Rightarrow> string \<Rightarrow> pool \<times> (error + bref)" where
  "pool_reserve p cidr nodeName =
     (case owner_index p cidr of
        None \<Rightarrow> (p, Inl (ErrNotInPool cidr))
      | Some i \<Rightarrow> at_owner p i (\<lambda>a. al_reserve a cidr nodeName))"

definition pool_find :: "pool \<Rightarrow> string \<Rightarrow> btree option" where
  "pool_find p cidr =
     (case owner_index p cidr of None \<Rightarrow> None | Some i \<Rightarrow> al_find (pl_allocators p ! i) cidr)"

definition pool_free :: "pool \<Rightarrow> bref option \<Rightarrow> pool \<times> error option" where
  "pool_free p block =
     (case block of
        None \<Rightarrow> (p, Some ErrNilBlock)
      | Some b \<Rightarrow>
          (case owner_index p (block_cidr b) of
             None \<Rightarrow> (p, Some (ErrNotInPool (block_cidr b)))
           | Some i \<Rightarrow> at_owner p i (\<lambda>a. al_free_block a (Some b))))"

definition pool_sweep :: "pool \<Rightarrow> pool \<times> nat" where
  "pool_sweep p = (p\<lparr>pl_allocators := map (\<lambda>a. fst (sweep a)) (pl_allocators p)\<rparr>,
     (\<Sum>a \<leftarrow> pl_allocators p. snd (sweep a)))"

definition pool_defragment :: "pool \<Rightarrow> pool \<times> merge_event list" where
  "pool_defragment p = (p\<lparr>pl_allocators := map (\<lambda>a. fst (al_defragment a)) (pl_allocators p)\<rparr>,
     concat (map (\<lambda>a. snd (al_defragment a)) (pl_allocators p)))"

definition pool_getBlocksForNode :: "pool \<Rightarrow> string \<Rightarrow> btree list" where
  "pool_getBlocksForNode p nodeName = concat (map (\<lambda>a. al_getBlocksForNode a nodeName) (pl_allocators p))"

record pool_stats =
  ps_total :: nat
  ps_allocated :: nat
  ps_free :: nat
  ps_quarantined :: nat
  ps_largest :: nat
  ps_cidrs :: "allocator_stats list"

definition poolStats :: "pool \<Rightarrow> pool_stats" where
  "poolStats p =
     foldl (\<lambda>r a. let stats = al_stats a; r = r\<lparr>ps_cidrs := ps_cidrs r @ [stats],
              ps_total := ps_total r + st_total stats,
              ps_allocated := ps_allocated r + st_allocated stats,
              ps_free := ps_free r + st_free stats,
              ps_quarantined := ps_quarantined r + st_quarantined stats\<rparr>
            in if st_largest stats > ps_largest r then r\<lparr>ps_largest := st_largest stats\<rparr> else r)
       \<lparr>ps_total = 0, ps_allocated = 0, ps_free = 0, ps_quarantined = 0, ps_largest = 0, ps_cidrs = []\<rparr>
       (pl_allocators p)"

end
