(* ===== verification/Pool_Inv.thy ===== *)
theory Pool_Inv
  imports Pool Allocator_Props
begin

text \<open>
  The contract an allocating operation has with the loop that tries it on several stores, stated as
  a locale and interpreted on the allocator's \<open>Allocate\<close>, \<open>AllocatePrefix\<close> and \<open>AllocateSpread\<close> with
  its fallback; then the invariant of the pool, the release of a block, and the demand loop with its
  rollback. The abstract state is \<open>pool_live\<close>: the held blocks whose quarantine has not expired.
\<close>

subsection \<open>The contract of an allocating operation\<close>

locale block_grantor =
  fixes inv :: "'s \<Rightarrow> bool"
    and live :: "'s \<Rightarrow> btree set"
    and frame :: "'s \<Rightarrow> 's \<Rightarrow> bool"
    and grant_op :: "'s \<Rightarrow> 's \<times> (error + bref)"
    and owner :: string
  assumes frame_refl: "frame s s"
    and grant_ok: "inv s \<Longrightarrow> grant_op s = (s', Inr b) \<Longrightarrow>
      inv s' \<and> frame s s' \<and> BlockAllocated (fst b) (snd b) owner \<notin> live s \<and>
      live s' = insert (BlockAllocated (fst b) (snd b) owner) (live s)"
    and grant_err: "inv s \<Longrightarrow> grant_op s = (s', Inl e) \<Longrightarrow> inv s' \<and> frame s s' \<and> live s' = live s"
begin

lemma try_each_err:
  "\<forall>s \<in> set ss. inv s \<Longrightarrow> try_each grant_op e ss = (ss', Inl e') \<Longrightarrow>
   list_all2 (\<lambda>s s'. inv s' \<and> frame s s' \<and> live s' = live s) ss ss'"
proof (induction ss arbitrary: e ss')
  case (Cons s ss)
  obtain s1 e1 where s1: "grant_op s = (s1, Inl e1)"
    using Cons.prems(2) by (auto split: prod.splits sum.splits)
  obtain ss1 where ss1: "try_each grant_op e1 ss = (ss1, Inl e')" "ss' = s1 # ss1"
    using Cons.prems(2) s1 by (auto split: prod.splits)
  show ?case using Cons.IH[OF _ ss1(1)] grant_err[OF _ s1] Cons.prems(1) ss1(2) by simp
qed simp

lemma try_each_ok:
  "\<forall>s \<in> set ss. inv s \<Longrightarrow> try_each grant_op e ss = (ss', Inr b) \<Longrightarrow>
   \<exists>i < length ss. BlockAllocated (fst b) (snd b) owner \<notin> live (ss ! i) \<and> length ss' = length ss \<and>
     (\<forall>j < length ss. inv (ss' ! j) \<and> frame (ss ! j) (ss' ! j) \<and>
        live (ss' ! j) = (if j = i then insert (BlockAllocated (fst b) (snd b) owner) (live (ss ! j)) else live (ss ! j)))"
proof (induction ss arbitrary: e ss')
  case (Cons s ss)
  obtain s1 r1 where s1: "grant_op s = (s1, r1)" by (cases "grant_op s")
  have sinv: "inv s" using Cons.prems(1) by simp
  show ?case
  proof (cases r1)
    case (Inr c)
    then have "c = b" "ss' = s1 # ss" using Cons.prems(2) s1 by auto
    then show ?thesis using grant_ok[OF sinv, of s1 b] s1 Inr Cons.prems(1) frame_refl
      by (intro exI[of _ 0]) (auto simp: nth_Cons' intro: frame_refl)
  next
    case (Inl e1)
    obtain ss1 where ss1: "try_each grant_op e1 ss = (ss1, Inr b)" "ss' = s1 # ss1"
      using Cons.prems(2) s1 Inl by (auto split: prod.splits)
    obtain i where i: "i < length ss" "BlockAllocated (fst b) (snd b) owner \<notin> live (ss ! i)" "length ss1 = length ss"
      "\<forall>j < length ss. inv (ss1 ! j) \<and> frame (ss ! j) (ss1 ! j) \<and>
        live (ss1 ! j) = (if j = i then insert (BlockAllocated (fst b) (snd b) owner) (live (ss ! j)) else live (ss ! j))"
      using Cons.IH[OF _ ss1(1)] Cons.prems(1) by auto
    have "inv s1 \<and> frame s s1 \<and> live s1 = live s" using grant_err[OF sinv] s1 Inl by simp
    then show ?thesis using i ss1(2) by (intro exI[of _ "Suc i"]) (auto simp: nth_Cons')
  qed
qed simp

end

subsection \<open>The allocator provides it\<close>

definition live :: "allocator \<Rightarrow> btree set" where
  "live a = {s \<in> heldset a. \<not> is_due (al_now a) s}"

lemma live_swept: "alloc_inv a \<Longrightarrow> heldset (swept a) = live a"
  using swept_inv(3)[of a] by (simp add: live_def)

lemma granted_live:
  assumes inv: "alloc_inv a" and g: "granted (swept a) a' c b nodeName"
  shows "alloc_inv a' \<and> same_frame a a' \<and> BlockAllocated (fst b) (snd b) nodeName \<notin> live a \<and>
    live a' = insert (BlockAllocated (fst b) (snd b) nodeName) (live a)"
proof -
  have fr: "same_frame a a'" using swept_inv(2)[OF inv] g same_frame_trans by (auto simp: granted_def)
  then have nw: "al_now a' = al_now a" by (simp add: same_frame_def)
  have "heldset a' = insert (BlockAllocated (fst b) (snd b) nodeName) (live a)"
    using g live_swept[OF inv] by (simp add: granted_def)
  then have "live a' = insert (BlockAllocated (fst b) (snd b) nodeName) (live a)"
    unfolding live_def[of a'] nw by (auto simp: is_due_def live_def)
  then show ?thesis
    using fr granted_inv[OF g] granted_fresh[OF g swept_inv(1)[OF inv]] live_swept[OF inv] by auto
qed

lemma swept_live:
  assumes "alloc_inv a"
  shows "alloc_inv (swept a) \<and> same_frame a (swept a) \<and> live (swept a) = live a"
proof -
  have "al_now (swept a) = al_now a" using swept_inv(2)[OF assms] by (simp add: same_frame_def)
  then show ?thesis using swept_inv[OF assms] by (auto simp: live_def)
qed

interpretation allocating: block_grantor alloc_inv live same_frame "\<lambda>a. al_allocate a req nodeName" nodeName
  for req nodeName
proof
  show "same_frame s s" for s by simp
  show "alloc_inv s' \<and> same_frame s s' \<and> BlockAllocated (fst b) (snd b) nodeName \<notin> live s \<and>
      live s' = insert (BlockAllocated (fst b) (snd b) nodeName) (live s)"
    if "alloc_inv s" "al_allocate s req nodeName = (s', Inr b)" for s s' b
    by (rule al_allocate_Inr[OF that]) (rule granted_live[OF that(1)])
  show "alloc_inv s' \<and> same_frame s s' \<and> live s' = live s"
    if "alloc_inv s" "al_allocate s req nodeName = (s', Inl e)" for s s' e
    using al_allocate_Inl(1)[OF that] swept_live[OF that(1)] by simp
qed

lemma spread_Inl: "alloc_inv a \<Longrightarrow> allocateSpread a req nodeName = (a', Inl e) \<Longrightarrow> a' = swept a"
  by (cases rule: allocateSpread_cases[of a req nodeName]) auto

interpretation spreading: block_grantor alloc_inv live same_frame "spread_or_allocate req nodeName" nodeName
  for req nodeName
proof
  show "same_frame s s" for s by simp
  fix s s' assume inv: "alloc_inv s"
  obtain s1 r1 where r1: "allocateSpread s req nodeName = (s1, r1)" by (cases "allocateSpread s req nodeName")
  show "alloc_inv s' \<and> same_frame s s' \<and> BlockAllocated (fst b) (snd b) nodeName \<notin> live s \<and>
      live s' = insert (BlockAllocated (fst b) (snd b) nodeName) (live s)"
    if r: "spread_or_allocate req nodeName s = (s', Inr b)" for b
  proof (cases r1)
    case (Inl e)
    note sw = swept_live[OF inv]
    have s1: "s1 = swept s" using spread_Inl[OF inv] r1 Inl by simp
    then have "al_allocate (swept s) req nodeName = (s', Inr b)" using r r1 Inl by (simp add: spread_or_allocate_def)
    from allocating.grant_ok[OF _ this] sw show ?thesis using same_frame_trans[of s "swept s" s'] by auto
  next
    case (Inr c)
    then have "allocateSpread s req nodeName = (s', Inr b)" using r r1 by (simp add: spread_or_allocate_def)
    then obtain c where "granted (swept s) s' c b nodeName" using allocateSpread_sibling(4)[OF inv] by blast
    then show ?thesis by (rule granted_live[OF inv])
  qed
  show "alloc_inv s' \<and> same_frame s s' \<and> live s' = live s"
    if r: "spread_or_allocate req nodeName s = (s', Inl e')" for e'
  proof (cases r1)
    case (Inl e)
    note sw = swept_live[OF inv]
    have s1: "s1 = swept s" using spread_Inl[OF inv] r1 Inl by simp
    then have "al_allocate (swept s) req nodeName = (s', Inl e')" using r r1 Inl by (simp add: spread_or_allocate_def)
    from allocating.grant_err[OF _ this] sw show ?thesis using same_frame_trans[of s "swept s" s'] by auto
  next
    case (Inr c)
    then show ?thesis using r r1 by (simp add: spread_or_allocate_def)
  qed
qed

lemma al_allocatePrefix_cases:
  assumes inv: "alloc_inv a"
  obtains (err) e where "al_allocatePrefix a prefix nodeName = (swept a, Inl e)"
    | (ok) b c a' where "al_allocatePrefix a prefix nodeName = (a', Inr b)" "granted (swept a) a' c b nodeName"
      "snd b = prefix" "al_max a \<le> prefix" "prefix \<le> al_min a"
proof (cases "prefix > al_min (swept a) \<or> prefix < al_max (swept a)")
  case True
  then show thesis by (intro err) (simp add: al_allocatePrefix_def Let_def)
next
  case False
  note lim = swept_limits[OF inv]
  have "prefix \<le> 32" using False lim by simp
  then show thesis
    using False lim by (cases rule: allocatePrefixLocked_cases[OF swept_inv(1)[OF inv], of prefix nodeName])
      (auto intro: err ok simp: al_allocatePrefix_def Let_def)
qed

interpretation exact: block_grantor alloc_inv live same_frame "\<lambda>a. al_allocatePrefix a prefix nodeName" nodeName
  for prefix nodeName
proof
  show "same_frame s s" for s by simp
  show "alloc_inv s' \<and> same_frame s s' \<and> BlockAllocated (fst b) (snd b) nodeName \<notin> live s \<and>
      live s' = insert (BlockAllocated (fst b) (snd b) nodeName) (live s)"
    if r: "alloc_inv s" "al_allocatePrefix s prefix nodeName = (s', Inr b)" for s s' b
  proof (cases rule: al_allocatePrefix_cases[OF r(1), of prefix nodeName])
    case (2 b' c a')
    then have "granted (swept s) s' c b nodeName" using r(2) by simp
    then show ?thesis by (rule granted_live[OF r(1)])
  qed (use r in auto)
  show "alloc_inv s' \<and> same_frame s s' \<and> live s' = live s"
    if r: "alloc_inv s" "al_allocatePrefix s prefix nodeName = (s', Inl e)" for s s' e
    by (cases rule: al_allocatePrefix_cases[OF r(1), of prefix nodeName]) (use r swept_live in auto)
qed

lemma try_each_some:
  "try_each op e ss = (ss', Inr b) \<Longrightarrow> \<exists>s \<in> set ss. \<exists>s'. op s = (s', Inr b)"
  by (induction ss arbitrary: e ss') (auto split: prod.splits sum.splits)

lemma al_allocatePrefix_size:
  "alloc_inv a \<Longrightarrow> al_allocatePrefix a prefix nodeName = (a', Inr b) \<Longrightarrow> snd b = prefix"
  by (cases rule: al_allocatePrefix_cases[of a prefix nodeName]) auto

subsection \<open>The pool\<close>

abbreviation ablk :: "string \<Rightarrow> bref \<Rightarrow> btree" where
  "ablk nodeName b \<equiv> BlockAllocated (fst b) (snd b) nodeName"

definition roots_apart :: "allocator list \<Rightarrow> bool" where
  "roots_apart as \<longleftrightarrow> (\<forall>i < length as. \<forall>j < length as. i \<noteq> j \<longrightarrow>
     tspan (al_root (as ! i)) \<inter> tspan (al_root (as ! j)) = {})"

definition pool_inv :: "pool \<Rightarrow> bool" where
  "pool_inv p \<longleftrightarrow> roots_apart (pl_allocators p) \<and>
     (\<forall>a \<in> set (pl_allocators p). alloc_inv a \<and> al_now a = pl_now p \<and> al_quarantine a = pl_quarantine p)"

definition pool_live :: "pool \<Rightarrow> btree set" where
  "pool_live p = (\<Union>a \<in> set (pl_allocators p). live a)"

lemma pool_live_nth: "pool_live p = (\<Union>j < length (pl_allocators p). live (pl_allocators p ! j))"
  unfolding pool_live_def set_conv_nth by auto

definition same_settings :: "pool \<Rightarrow> pool \<Rightarrow> bool" where
  "same_settings p q \<longleftrightarrow> pl_quarantine q = pl_quarantine p \<and> pl_now q = pl_now p \<and> pl_min q = pl_min p \<and>
     pl_max q = pl_max p \<and> map (ref_of \<circ> al_root) (pl_allocators q) = map (ref_of \<circ> al_root) (pl_allocators p)"

lemma same_settings_refl [simp, intro]: "same_settings p p"
  by (simp add: same_settings_def)

lemma same_settings_trans: "same_settings p q \<Longrightarrow> same_settings q r \<Longrightarrow> same_settings p r"
  by (simp add: same_settings_def)

lemma live_in_root: "alloc_inv a \<Longrightarrow> s \<in> live a \<Longrightarrow> tspan s \<subseteq> tspan (al_root a) \<and> blk_plen (al_root a) \<le> blk_plen s"
  using leaf_wf(2,3)[OF alloc_invD(2)] heldsetD(1) unfolding live_def by blast

lemma same_frame_pool:
  assumes "pool_inv p" "list_all2 (\<lambda>a a'. alloc_inv a' \<and> same_frame a a') (pl_allocators p) as"
  shows "pool_inv (p\<lparr>pl_allocators := as\<rparr>)" "same_settings p (p\<lparr>pl_allocators := as\<rparr>)"
proof -
  have len: "length as = length (pl_allocators p)" using assms(2) by (simp add: list_all2_lengthD)
  have nth: "i < length as \<Longrightarrow> alloc_inv (as ! i) \<and> same_frame (pl_allocators p ! i) (as ! i)" for i
    using assms(2) len by (simp add: list_all2_conv_all_nth)
  have rt: "i < length as \<Longrightarrow> ref_of (al_root (as ! i)) = ref_of (al_root (pl_allocators p ! i))" for i
    using nth[of i] by (simp add: same_frame_def)
  have "roots_apart as" using assms(1) len rt unfolding pool_inv_def roots_apart_def by (metis prod.inject)
  moreover have "alloc_inv a \<and> al_now a = pl_now p \<and> al_quarantine a = pl_quarantine p" if "a \<in> set as" for a
  proof -
    obtain i where i: "i < length as" "a = as ! i" using \<open>a \<in> set as\<close> by (metis in_set_conv_nth)
    then have "pl_allocators p ! i \<in> set (pl_allocators p)" using len by simp
    then show ?thesis using assms(1) nth[OF i(1)] i(2) by (simp add: pool_inv_def same_frame_def)
  qed
  ultimately show "pool_inv (p\<lparr>pl_allocators := as\<rparr>)" by (simp add: pool_inv_def)
  show "same_settings p (p\<lparr>pl_allocators := as\<rparr>)"
    using len rt by (auto simp: same_settings_def intro!: nth_equalityI)
qed

lemma pool_grant_err:
  assumes "pool_inv p" "list_all2 (\<lambda>a a'. alloc_inv a' \<and> same_frame a a' \<and> live a' = live a) (pl_allocators p) as"
  shows "pool_inv (p\<lparr>pl_allocators := as\<rparr>) \<and> same_settings p (p\<lparr>pl_allocators := as\<rparr>) \<and>
    pool_live (p\<lparr>pl_allocators := as\<rparr>) = pool_live p"
proof -
  have "list_all2 (\<lambda>a a'. alloc_inv a' \<and> same_frame a a') (pl_allocators p) as"
    using assms(2) by (rule list_all2_mono) simp
  moreover have "map live as = map live (pl_allocators p)"
    using assms(2) by (auto simp: list_all2_conv_all_nth intro!: nth_equalityI)
  then have "live ` set as = live ` set (pl_allocators p)" by (metis set_map)
  ultimately show ?thesis using same_frame_pool[OF assms(1)] by (simp add: pool_live_def)
qed

lemma pool_grant_ok:
  assumes inv: "pool_inv p" and i: "i < length (pl_allocators p)" "ablk nodeName b \<notin> live (pl_allocators p ! i)"
    "length as = length (pl_allocators p)"
    and upd: "\<forall>j < length (pl_allocators p). alloc_inv (as ! j) \<and> same_frame (pl_allocators p ! j) (as ! j) \<and>
      live (as ! j) = (if j = i then insert (ablk nodeName b) (live (pl_allocators p ! j)) else live (pl_allocators p ! j))"
  shows "pool_inv (p\<lparr>pl_allocators := as\<rparr>) \<and> same_settings p (p\<lparr>pl_allocators := as\<rparr>) \<and>
    ablk nodeName b \<notin> pool_live p \<and> pool_live (p\<lparr>pl_allocators := as\<rparr>) = insert (ablk nodeName b) (pool_live p)"
proof -
  have l2: "list_all2 (\<lambda>a a'. alloc_inv a' \<and> same_frame a a') (pl_allocators p) as"
    using upd i(3) by (simp add: list_all2_conv_all_nth)
  have new: "ablk nodeName b \<in> live (as ! i)" using upd i(1) by simp
  have "ablk nodeName b \<notin> live (pl_allocators p ! j)" if j: "j < length (pl_allocators p)" for j
  proof (cases "j = i")
    case False
    have "tspan (ablk nodeName b) \<subseteq> tspan (al_root (as ! i))" using live_in_root[OF _ new] upd i(1) by blast
    moreover have "ref_of (al_root (as ! i)) = ref_of (al_root (pl_allocators p ! i))"
      using upd i(1) by (simp add: same_frame_def)
    ultimately have bi: "tspan (ablk nodeName b) \<subseteq> tspan (al_root (pl_allocators p ! i))" by simp
    show ?thesis
    proof
      assume "ablk nodeName b \<in> live (pl_allocators p ! j)"
      moreover have "alloc_inv (pl_allocators p ! j)" using inv j by (simp add: pool_inv_def)
      ultimately have "tspan (ablk nodeName b) \<subseteq> tspan (al_root (pl_allocators p ! j))" using live_in_root by blast
      moreover have "tspan (al_root (pl_allocators p ! i)) \<inter> tspan (al_root (pl_allocators p ! j)) = {}"
        using inv i(1) j False unfolding pool_inv_def roots_apart_def by blast
      moreover have "unat (fst b) \<in> tspan (ablk nodeName b)" by simp
      ultimately show False using bi by blast
    qed
  qed (use i(2) in simp)
  then have "ablk nodeName b \<notin> pool_live p" by (auto simp: pool_live_def in_set_conv_nth)
  moreover have "(\<Union>j < length as. live (as ! j)) = insert (ablk nodeName b) (\<Union>j < length as. live (pl_allocators p ! j))"
    using upd i by (auto split: if_splits)
  then have "pool_live (p\<lparr>pl_allocators := as\<rparr>) = insert (ablk nodeName b) (pool_live p)"
    unfolding pool_live_nth using i(3) by simp
  ultimately show ?thesis using same_frame_pool[OF inv l2] by blast
qed

lemma pool_alloc_inv: "pool_inv p \<Longrightarrow> a \<in> set (pl_allocators p) \<Longrightarrow> alloc_inv a"
  by (simp add: pool_inv_def)

lemma exact_try:
  assumes inv: "pool_inv p"
    and r: "try_each (\<lambda>a. al_allocatePrefix a prefix nodeName) e (pl_allocators p) = (as, r)"
  shows "pool_inv (p\<lparr>pl_allocators := as\<rparr>) \<and> same_settings p (p\<lparr>pl_allocators := as\<rparr>) \<and>
    (case r of Inl _ \<Rightarrow> pool_live (p\<lparr>pl_allocators := as\<rparr>) = pool_live p
     | Inr b \<Rightarrow> snd b = prefix \<and> ablk nodeName b \<notin> pool_live p \<and>
         pool_live (p\<lparr>pl_allocators := as\<rparr>) = insert (ablk nodeName b) (pool_live p))"
proof (cases r)
  case (Inl e')
  then show ?thesis
    using pool_grant_err[OF inv exact.try_each_err[of "pl_allocators p" prefix nodeName e as e']] r inv
    by (simp add: pool_inv_def)
next
  case (Inr b)
  have "snd b = prefix"
    using try_each_some[OF r[unfolded Inr]] al_allocatePrefix_size pool_alloc_inv[OF inv] by blast
  then show ?thesis
    using exact.try_each_ok[of "pl_allocators p" prefix nodeName e as b] r inv Inr pool_grant_ok[OF inv]
      pool_alloc_inv[OF inv] by fastforce
qed

definition demand_result ::
  "pool \<Rightarrow> string \<Rightarrow> nat \<Rightarrow> nat \<Rightarrow> pool \<Rightarrow> bref list \<Rightarrow> error option \<Rightarrow> bool" where
  "demand_result p nodeName prefix minP p' bs e \<longleftrightarrow>
     pool_inv p' \<and> same_settings p p' \<and>
     (\<exists>L. distinct (bs @ L) \<and> ablk nodeName ` set (bs @ L) \<inter> pool_live p = {} \<and>
        pool_live p' = pool_live p \<union> ablk nodeName ` set (bs @ L) \<and>
        (e = None \<longrightarrow> L = [] \<and> (\<Sum>b \<leftarrow> bs. addresses (snd b)) = addresses prefix \<and>
           (\<forall>b \<in> set bs. prefix \<le> snd b \<and> snd b \<le> max prefix minP)))"

lemma demand_resultI:
  assumes "pool_inv p'" "same_settings p p'" "distinct (bs @ L)" "ablk nodeName ` set (bs @ L) \<inter> pool_live p = {}"
    "pool_live p' = pool_live p \<union> ablk nodeName ` set (bs @ L)"
    "e = None \<Longrightarrow> L = [] \<and> (\<Sum>b \<leftarrow> bs. addresses (snd b)) = addresses prefix \<and>
       (\<forall>b \<in> set bs. prefix \<le> snd b \<and> snd b \<le> max prefix minP)"
  shows "demand_result p nodeName prefix minP p' bs e"
  unfolding demand_result_def using assms by blast

lemma ablk_inj: "inj (ablk nodeName)"
  by (auto intro!: injI simp: prod_eq_iff)

lemma allocatePrefixOrSplit_result:
  assumes "pool_inv p" "minP \<le> 32" "allocatePrefixOrSplit p prefix minP nodeName = (p', bs, e)"
  shows "demand_result p nodeName prefix minP p' bs e"
  using assms
proof (induction p prefix minP nodeName arbitrary: p' bs e rule: allocatePrefixOrSplit.induct)
  case (1 p prefix minP nodeName)
  obtain as r where t: "try_each (\<lambda>a. al_allocatePrefix a prefix nodeName) (ErrNoSpace prefix) (pl_allocators p) = (as, r)"
    by (cases "try_each (\<lambda>a. al_allocatePrefix a prefix nodeName) (ErrNoSpace prefix) (pl_allocators p)")
  let ?p = "p\<lparr>pl_allocators := as\<rparr>"
  note tr = exact_try[OF "1.prems"(1) t]
  note unf = "1.prems"(3)[unfolded allocatePrefixOrSplit.simps[of p prefix minP nodeName] t]
  show ?case
  proof (cases r)
    case (Inr b)
    then have "p' = ?p" "bs = [b]" "e = None" using unf by auto
    then show ?thesis using tr Inr by (intro demand_resultI[of _ _ _ "[]"]) auto
  next
    case (Inl le)
    have p1: "pool_inv ?p" "same_settings p ?p" "pool_live ?p = pool_live p" using tr Inl by auto
    show ?thesis
    proof (cases "prefix \<ge> minP")
      case True
      then have "p' = ?p" "bs = []" "e = Some (ErrPoolExhausted le)" using unf Inl by (auto simp: Let_def)
      then show ?thesis using p1 by (intro demand_resultI[of _ _ _ "[]"]) auto
    next
      case False
      obtain p2 f e2 where h: "allocatePrefixOrSplit ?p (prefix + 1) minP nodeName = (p2, f, e2)"
        by (cases "allocatePrefixOrSplit ?p (prefix + 1) minP nodeName")
      have r1: "demand_result ?p nodeName (prefix + 1) minP p2 f e2"
        using "1.IH"(1)[OF t[symmetric] Inl refl False p1(1) "1.prems"(2) h] .
      then obtain L where L: "pool_inv p2" "same_settings ?p p2" "distinct (f @ L)"
        "ablk nodeName ` set (f @ L) \<inter> pool_live p = {}" "pool_live p2 = pool_live p \<union> ablk nodeName ` set (f @ L)"
        "e2 = None \<Longrightarrow> L = [] \<and> (\<Sum>b \<leftarrow> f. addresses (snd b)) = addresses (prefix + 1) \<and>
           (\<forall>b \<in> set f. prefix + 1 \<le> snd b \<and> snd b \<le> max (prefix + 1) minP)"
        unfolding demand_result_def p1(3) by blast
      show ?thesis
      proof (cases e2)
        case (Some e')
        then have "p' = p2" "bs = []" "e = Some e'" using unf Inl False h by (auto simp: Let_def)
        then show ?thesis using L same_settings_trans[OF p1(2) L(2)]
          by (intro demand_resultI[of _ _ _ "f @ L"]) auto
      next
        case None
        obtain p3 g e3 where h3: "allocatePrefixOrSplit p2 (prefix + 1) minP nodeName = (p3, g, e3)"
          by (cases "allocatePrefixOrSplit p2 (prefix + 1) minP nodeName")
        have res: "p' = p3" "bs = f @ g" "e = e3" using unf Inl False h h3 None by (auto simp: Let_def)
        have "demand_result p2 nodeName (prefix + 1) minP p3 g e3"
          using "1.IH"(2)[OF t[symmetric] Inl refl False h[symmetric] refl None L(1) "1.prems"(2) h3] .
        then obtain M where M: "pool_inv p3" "same_settings p2 p3" "distinct (g @ M)"
          "ablk nodeName ` set (g @ M) \<inter> pool_live p2 = {}" "pool_live p3 = pool_live p2 \<union> ablk nodeName ` set (g @ M)"
          "e3 = None \<Longrightarrow> M = [] \<and> (\<Sum>b \<leftarrow> g. addresses (snd b)) = addresses (prefix + 1) \<and>
             (\<forall>b \<in> set g. prefix + 1 \<le> snd b \<and> snd b \<le> max (prefix + 1) minP)"
          unfolding demand_result_def by blast
        note Ln = L(6)[OF None]
        have apart: "set f \<inter> set (g @ M) = {}"
          using M(4) L(5) Ln ablk_inj[of nodeName] by (auto simp: inj_def)
        show ?thesis unfolding res
        proof (rule demand_resultI[of _ _ _ M])
          show "same_settings p p3" using p1(2) L(2) M(2) same_settings_trans by blast
          show "distinct ((f @ g) @ M)" using apart L(3) M(3) by auto
          show "ablk nodeName ` set ((f @ g) @ M) \<inter> pool_live p = {}" using L(4,5) M(4) by auto
          show "pool_live p3 = pool_live p \<union> ablk nodeName ` set ((f @ g) @ M)" using M(5) L(5) Ln by auto
          have "addresses prefix = addresses (prefix + 1) + addresses (prefix + 1)"
            using addresses_Suc[of prefix] False "1.prems"(2) by simp
          then show "M = [] \<and> (\<Sum>b \<leftarrow> f @ g. addresses (snd b)) = addresses prefix \<and>
             (\<forall>b \<in> set (f @ g). prefix \<le> snd b \<and> snd b \<le> max prefix minP)" if "e3 = None"
            using M(6)[OF that] Ln False by force
        qed (rule M(1))
      qed
    qed
  qed
qed

subsection \<open>Giving a block back\<close>

lemma freeNow_ok:
  assumes inv: "alloc_inv a" and s: "ablk nodeName b \<in> live a"
  shows "alloc_inv (fst (freeNow a (Some b)))" "same_frame a (fst (freeNow a (Some b)))"
    "live (fst (freeNow a (Some b))) = live a - {ablk nodeName b}" "snd (freeNow a (Some b)) = None"
proof -
  have h: "ablk nodeName b \<in> heldset a" using s by (simp add: live_def)
  have "checkOwned a (Some b) = None" using checkOwned_Some[OF inv, of b] h by blast
  then have f: "freeNow a (Some b) = (releaseLocked a b, None)" by (simp add: freeNow_def)
  have r: "alloc_inv (releaseLocked a b)" "same_frame a (releaseLocked a b)"
    "heldset (releaseLocked a b) = heldset a - {ablk nodeName b}"
    using releaseLocked_inv[OF inv h] by simp_all
  have "al_now (releaseLocked a b) = al_now a" using r(2) by (simp add: same_frame_def)
  then have "live (releaseLocked a b) = live a - {ablk nodeName b}" unfolding live_def r(3) by auto
  then show "alloc_inv (fst (freeNow a (Some b)))" "same_frame a (fst (freeNow a (Some b)))"
    "live (fst (freeNow a (Some b))) = live a - {ablk nodeName b}" "snd (freeNow a (Some b)) = None"
    using f r by simp_all
qed

lemma block_cidr_parse:
  assumes "block_ok (fst b) (snd b)"
  shows "parse_cidr (block_cidr b) = Some (fst b, \<lparr>net_ip = fst b, net_ones = snd b\<rparr>)"
  using assms parse_cidr_string[of "snd b" "fst b"] and_cidr_mask_id[of "snd b" "fst b"]
  by (simp add: block_cidr_def block_ok_def addresses_def)

lemma find_upt_Some:
  "find P [0 ..< n] = Some i \<longleftrightarrow> i < n \<and> P i \<and> (\<forall>j < i. \<not> P j)"
  unfolding find_Some_iff by (auto simp: nth_upt)

lemma owner_index_block:
  assumes inv: "pool_inv p" and i: "i < length (pl_allocators p)" and s: "s \<in> live (pl_allocators p ! i)"
  shows "owner_index p (block_cidr (ref_of s)) = Some i"
proof -
  let ?A = "pl_allocators p" and ?b = "ref_of s"
  have ai: "alloc_inv (?A ! j)" if "j < length ?A" for j using that inv by (simp add: pool_inv_def)
  note in_i = live_in_root[OF ai[OF i] s]
  have "s \<in> lv (?A ! i)" using s heldsetD(1) by (auto simp: live_def)
  then have ok: "block_ok (fst ?b) (snd ?b)" using leaf_wf(4)[OF alloc_invD(2)[OF ai[OF i]]] by simp
  have c: "al_contains (?A ! j) (block_cidr ?b) \<longleftrightarrow> j = i" if j: "j < length ?A" for j
  proof -
    have "al_contains (?A ! j) (block_cidr ?b) \<longleftrightarrow>
        blk_plen (al_root (?A ! j)) \<le> blk_plen s \<and> tspan s \<subseteq> tspan (al_root (?A ! j))"
      using al_contains_iff[OF ai[OF j] block_cidr_parse[OF ok]] by simp
    also have "\<dots> \<longleftrightarrow> j = i"
    proof
      assume "blk_plen (al_root (?A ! j)) \<le> blk_plen s \<and> tspan s \<subseteq> tspan (al_root (?A ! j))"
      then have "tspan (al_root (?A ! i)) \<inter> tspan (al_root (?A ! j)) \<noteq> {}"
        using in_i base_in_span[of "blk_base s" "blk_plen s"] by blast
      then show "j = i" using inv i j unfolding pool_inv_def roots_apart_def by blast
    qed (use in_i in simp)
    finally show ?thesis .
  qed
  show ?thesis unfolding owner_index_def find_upt_Some using c i by auto
qed

lemma pool_freeNow_ok:
  assumes inv: "pool_inv p" and s: "ablk nodeName b \<in> pool_live p"
  shows "pool_inv (fst (pool_freeNow p b)) \<and> same_settings p (fst (pool_freeNow p b)) \<and>
    snd (pool_freeNow p b) = None \<and> pool_live (fst (pool_freeNow p b)) = pool_live p - {ablk nodeName b}"
proof -
  let ?A = "pl_allocators p"
  obtain i where i: "i < length ?A" "ablk nodeName b \<in> live (?A ! i)" using s by (auto simp: pool_live_nth)
  have ai: "alloc_inv (?A ! j)" if "j < length ?A" for j using that inv by (simp add: pool_inv_def)
  have own: "owner_index p (block_cidr b) = Some i" using owner_index_block[OF inv i] by simp
  let ?a = "fst (freeNow (?A ! i) (Some b))"
  note f = freeNow_ok[OF ai[OF i(1)] i(2)]
  have p': "pool_freeNow p b = (p\<lparr>pl_allocators := ?A[i := ?a]\<rparr>, None)"
    using own f(4) by (auto simp: pool_freeNow_def at_owner_def split: prod.splits)
  have "list_all2 (\<lambda>a a'. alloc_inv a' \<and> same_frame a a') ?A (?A[i := ?a])"
    using f(1,2) ai i(1) by (auto simp: list_all2_conv_all_nth nth_list_update)
  note sf = same_frame_pool[OF inv this]
  have no: "ablk nodeName b \<notin> live (?A ! j)" if "j < length ?A" "j \<noteq> i" for j
    using owner_index_block[OF inv that(1), of "ablk nodeName b"] own that(2) by auto
  have "(\<Union>j < length ?A. live (?A[i := ?a] ! j)) = (\<Union>j < length ?A. live (?A ! j)) - {ablk nodeName b}"
  proof -
    have "live (?A[i := ?a] ! j) = live (?A ! j) - {ablk nodeName b}" if "j < length ?A" for j
      using no[OF that] f(3) i(1) by (cases "j = i") simp_all
    then show ?thesis by auto
  qed
  then have "pool_live (p\<lparr>pl_allocators := ?A[i := ?a]\<rparr>) = pool_live p - {ablk nodeName b}"
    by (simp add: pool_live_nth)
  then show ?thesis using sf p' by simp
qed

lemma rollback:
  assumes "pool_inv p" "distinct bs" "ablk nodeName ` set bs \<subseteq> pool_live p"
  shows "pool_inv (foldl (\<lambda>q b. fst (pool_freeNow q b)) p bs) \<and>
    same_settings p (foldl (\<lambda>q b. fst (pool_freeNow q b)) p bs) \<and>
    pool_live (foldl (\<lambda>q b. fst (pool_freeNow q b)) p bs) = pool_live p - ablk nodeName ` set bs"
  using assms
proof (induction bs arbitrary: p)
  case (Cons b bs)
  note f = pool_freeNow_ok[OF Cons.prems(1), where nodeName = nodeName and b = b]
  have fb: "pool_inv (fst (pool_freeNow p b))" "same_settings p (fst (pool_freeNow p b))"
    "pool_live (fst (pool_freeNow p b)) = pool_live p - {ablk nodeName b}" using f Cons.prems(3) by auto
  have "ablk nodeName ` set bs \<subseteq> pool_live (fst (pool_freeNow p b))"
    using Cons.prems(2,3) fb(3) ablk_inj[of nodeName] by (auto simp: inj_def)
  then show ?case using Cons.IH[OF fb(1)] Cons.prems(2) fb(2,3) same_settings_trans[OF fb(2)] by auto
qed simp

definition settled :: "pool \<Rightarrow> string \<Rightarrow> pool \<Rightarrow> bref list \<Rightarrow> bref list \<Rightarrow> bool" where
  "settled p nodeName p' got L \<longleftrightarrow>
     pool_inv p' \<and> same_settings p p' \<and> distinct (got @ L) \<and> ablk nodeName ` set (got @ L) \<inter> pool_live p = {} \<and>
     pool_live p' = pool_live p \<union> ablk nodeName ` set (got @ L)"

lemma demand_loop_result:
  assumes "pool_inv p0" "minP \<le> 32" "settled p0 nodeName p got []" "\<forall>x \<in> set prefixes. x \<le> minP"
    "demand_loop p minP nodeName got prefixes = (p', r)"
  shows "case r of
      Inr bs \<Rightarrow> settled p0 nodeName p' bs [] \<and>
        (\<Sum>b \<leftarrow> bs. addresses (snd b)) = (\<Sum>b \<leftarrow> got. addresses (snd b)) + (\<Sum>x \<leftarrow> prefixes. addresses x) \<and>
        (\<forall>b \<in> set bs - set got. snd b \<le> minP)
    | Inl e \<Rightarrow> \<exists>L. settled p0 nodeName p' [] L"
  using assms
proof (induction prefixes arbitrary: p got)
  case (Cons x xs)
  obtain p1 bs e where a: "allocatePrefixOrSplit p x minP nodeName = (p1, bs, e)"
    by (cases "allocatePrefixOrSplit p x minP nodeName")
  have pinv: "pool_inv p" and pl: "pool_live p = pool_live p0 \<union> ablk nodeName ` set got" and
    ps: "same_settings p0 p" and gd: "distinct got" "ablk nodeName ` set got \<inter> pool_live p0 = {}"
    using Cons.prems(3) by (auto simp: settled_def)
  obtain L where L: "pool_inv p1" "same_settings p p1" "distinct (bs @ L)"
    "ablk nodeName ` set (bs @ L) \<inter> pool_live p = {}" "pool_live p1 = pool_live p \<union> ablk nodeName ` set (bs @ L)"
    "e = None \<Longrightarrow> L = [] \<and> (\<Sum>b \<leftarrow> bs. addresses (snd b)) = addresses x \<and>
       (\<forall>b \<in> set bs. x \<le> snd b \<and> snd b \<le> max x minP)"
    using allocatePrefixOrSplit_result[OF pinv Cons.prems(2) a] unfolding demand_result_def by blast
  have apart: "set got \<inter> set (bs @ L) = {}" using L(4) pl ablk_inj[of nodeName] by (auto simp: inj_def)
  have ss: "same_settings p0 p1" using ps L(2) same_settings_trans by blast
  have fresh: "ablk nodeName ` set (bs @ L) \<inter> pool_live p0 = {}" using L(4) pl by auto
  show ?case
  proof (cases e)
    case None
    note Ln = L(6)[OF None]
    have "settled p0 nodeName p1 (got @ bs) []"
      unfolding settled_def using L(1,3,5) ss apart gd fresh pl Ln by auto
    note IH = Cons.IH[OF Cons.prems(1,2) this]
    have "demand_loop p1 minP nodeName (got @ bs) xs = (p', r)" using Cons.prems(5) a None by simp
    from IH[OF _ this] Ln Cons.prems(4) show ?thesis by (cases r) (auto simp: max_absorb2)
  next
    case (Some e')
    then have r: "r = Inl e'" "p' = foldl (\<lambda>q b. fst (pool_freeNow q b)) p1 (got @ bs)"
      using Cons.prems(5) a by auto
    have d: "distinct (got @ bs)" "ablk nodeName ` set (got @ bs) \<subseteq> pool_live p1"
      using apart gd L(3,5) pl by auto
    note rb = rollback[OF L(1) d]
    have "pool_live p' = pool_live p0 \<union> ablk nodeName ` set L"
      using rb r(2) L(3,5) pl gd(2) fresh apart ablk_inj[of nodeName] by (auto simp: inj_def)
    then have "settled p0 nodeName p' [] L"
      unfolding settled_def using rb r(2) ss L(3) fresh same_settings_trans[OF ss] by auto
    then show ?thesis using r(1) by auto
  qed
qed auto

end
