(* ===== verification/Pool_Props.thy ===== *)
theory Pool_Props
  imports Pool_Inv
begin

text \<open>
  The arithmetic of \<open>SplitDemand\<close>, adding CIDRs, and the properties of the pool.
\<close>

subsection \<open>Splitting a demand\<close>

lemma max_blocks_eq:
  "0 < m \<Longrightarrow> max_blocks m x units = (replicate (units div m) x, units mod m)"
proof (induction m x units rule: max_blocks.induct)
  case (1 m x units)
  show ?case
  proof (cases "units < m")
    case True
    then show ?thesis by (simp add: max_blocks.simps[of m x units])
  next
    case False
    then have "units div m = Suc ((units - m) div m)" "units mod m = (units - m) mod m"
      using 1(2) by (simp_all add: le_div_geq le_mod_geq)
    then show ?thesis using 1 False by (simp add: max_blocks.simps[of m x units])
  qed
qed

lemma level_of_exp: "level_of (2 ^ j) = j"
proof (induction j)
  case (Suc j)
  have "(1::nat) < 2 ^ Suc j" by (rule one_less_power) simp_all
  then show ?case using Suc by (subst level_of.simps) simp
qed (simp add: level_of.simps[of "Suc 0"])

lemma bit_blocks_exp:
  "bit_blocks minP u (2 ^ Suc j) = (if bit u (Suc j) then [minP - Suc j] else []) @ bit_blocks minP u (2 ^ j)"
  "bit_blocks minP u (2 ^ 0) = (if bit u 0 then [minP] else [])"
proof -
  have "bit_blocks minP u (2 ^ Suc j) = (if u AND 2 ^ Suc j \<noteq> 0 then [minP - level_of (2 ^ Suc j)] else []) @
      bit_blocks minP u (2 ^ j)"
    by (subst bit_blocks.simps) simp
  then show "bit_blocks minP u (2 ^ Suc j) = (if bit u (Suc j) then [minP - Suc j] else []) @ bit_blocks minP u (2 ^ j)"
    unfolding level_of_exp and_exp_eq_0_iff_not_bit not_not .
  have "bit_blocks minP u 0 = []" by (subst bit_blocks.simps) simp
  then have "bit_blocks minP u (2 ^ 0) = (if u AND 2 ^ 0 \<noteq> 0 then [minP - level_of (2 ^ 0)] else [])"
    by (subst bit_blocks.simps) simp
  then show "bit_blocks minP u (2 ^ 0) = (if bit u 0 then [minP] else [])"
    unfolding level_of_exp and_exp_eq_0_iff_not_bit not_not by simp
qed

lemma mod_bit: "u mod 2 ^ Suc j = (if bit u j then 2 ^ j else 0) + u mod 2 ^ j" for u :: nat
  using take_bit_Suc_from_most[of j u] by (auto simp: take_bit_eq_mod)

lemma bit_blocks_sum:
  "j \<le> minP \<Longrightarrow> minP \<le> 32 \<Longrightarrow>
   (\<Sum>x \<leftarrow> bit_blocks minP u (2 ^ j). addresses x) = addresses minP * (u mod 2 ^ Suc j) \<and>
   (\<forall>x \<in> set (bit_blocks minP u (2 ^ j)). minP - j \<le> x \<and> x \<le> minP) \<and>
   sorted_wrt (<) (bit_blocks minP u (2 ^ j))"
proof (induction j)
  case 0
  then show ?case unfolding bit_blocks_exp(2) mod_bit[of u 0] by simp
next
  case (Suc j)
  have a: "addresses (minP - Suc j) = addresses minP * 2 ^ Suc j"
    using Suc.prems by (simp add: addresses_def power_add[symmetric] del: power_Suc)
  have IH: "(\<Sum>x \<leftarrow> bit_blocks minP u (2 ^ j). addresses x) = addresses minP * (u mod 2 ^ Suc j)"
    "\<forall>x \<in> set (bit_blocks minP u (2 ^ j)). minP - j \<le> x \<and> x \<le> minP"
    "sorted_wrt (<) (bit_blocks minP u (2 ^ j))" using Suc by auto
  have lt: "minP - Suc j < x" if "x \<in> set (bit_blocks minP u (2 ^ j))" for x
  proof -
    have "minP - j \<le> x" using IH(2) that by blast
    then show ?thesis using Suc.prems(1) by linarith
  qed
  have "(\<Sum>x \<leftarrow> bit_blocks minP u (2 ^ Suc j). addresses x) = addresses minP * (u mod 2 ^ Suc (Suc j))"
    unfolding bit_blocks_exp(1) mod_bit[of u "Suc j"] using IH(1) a by (simp add: distrib_left del: power_Suc)
  moreover have "\<forall>x \<in> set (bit_blocks minP u (2 ^ Suc j)). minP - Suc j \<le> x \<and> x \<le> minP"
    unfolding bit_blocks_exp(1) using IH(2) lt by fastforce
  moreover have "sorted_wrt (<) (bit_blocks minP u (2 ^ Suc j))"
    unfolding bit_blocks_exp(1) using IH(3) lt by auto
  ultimately show ?case by blast
qed

lemma splitDemand_facts:
  fixes req :: int
  assumes "maxP \<le> minP" "minP \<le> 32"
  defines "units \<equiv> nat (max ((req + int (addresses minP) - 1) sdiv int (addresses minP)) 1)"
  shows "(\<Sum>x \<leftarrow> splitDemand req minP maxP. addresses x) = addresses minP * units"
    "\<forall>x \<in> set (splitDemand req minP maxP). maxP \<le> x \<and> x \<le> minP"
    "sorted (splitDemand req minP maxP)"
proof -
  define k where "k = minP - maxP"
  have k: "k \<le> minP" "k \<le> 32" "minP - k = maxP" using assms by (auto simp: k_def)
  have mu: "push_bit k 1 = (2 ^ k :: nat)" by (simp add: push_bit_eq_mult)
  have un: "push_bit (32 - minP) 1 = int (addresses minP)" by (simp add: addresses_def push_bit_eq_mult)
  let ?bb = "bit_blocks minP (units mod 2 ^ k) (2 ^ k div 2)"
  have eq: "splitDemand req minP maxP = replicate (units div 2 ^ k) maxP @ ?bb"
    unfolding splitDemand_def un mu units_def k_def[symmetric] Let_def
    by (subst max_blocks_eq) simp_all
  have bb: "(\<Sum>x \<leftarrow> ?bb. addresses x) = addresses minP * (units mod 2 ^ k) \<and>
      (\<forall>x \<in> set ?bb. maxP \<le> x \<and> x \<le> minP) \<and> sorted ?bb"
  proof (cases k)
    case 0
    then show ?thesis by (simp add: bit_blocks.simps[of minP _ 0])
  next
    case (Suc j)
    have "j \<le> minP" using Suc k by simp
    note b = bit_blocks_sum[OF this assms(2), of "units mod 2 ^ k"]
    have "2 ^ k div 2 = (2 ^ j :: nat)" using Suc by simp
    moreover have "maxP \<le> minP - j" using Suc k by simp
    ultimately show ?thesis using b Suc strict_sorted_imp_sorted by (auto simp: order_trans)
  qed
  have "addresses maxP = addresses minP * 2 ^ k"
    using assms by (simp add: addresses_def k_def power_add[symmetric])
  then have "(\<Sum>x \<leftarrow> splitDemand req minP maxP. addresses x) =
      units div 2 ^ k * (addresses minP * 2 ^ k) + addresses minP * (units mod 2 ^ k)"
    using bb by (simp add: eq sum_list_replicate)
  also have "\<dots> = addresses minP * (units div 2 ^ k * 2 ^ k + units mod 2 ^ k)" by (simp only: distrib_left mult.assoc mult.left_commute)
  also have "units div 2 ^ k * 2 ^ k + units mod 2 ^ k = units" by (rule div_mult_mod_eq)
  finally show "(\<Sum>x \<leftarrow> splitDemand req minP maxP. addresses x) = addresses minP * units" .
  show "\<forall>x \<in> set (splitDemand req minP maxP). maxP \<le> x \<and> x \<le> minP"
    "sorted (splitDemand req minP maxP)"
    using bb assms(1) by (auto simp: eq sorted_append)
qed

lemma ceil_units:
  fixes req u :: int
  assumes u: "0 < u"
  shows "max 1 req \<le> u * max ((req + u - 1) sdiv u) 1 \<and> u * max ((req + u - 1) sdiv u) 1 < max 1 req + u"
proof (cases "1 \<le> req")
  case True
  define q where "q = (req + u - 1) div u"
  have q: "(req + u - 1) sdiv u = q" using True u by (simp add: signed_divide_int_def q_def)
  have e: "u * q = (req + u - 1) - (req + u - 1) mod u" by (simp add: q_def minus_mod_eq_mult_div)
  have "0 \<le> (req + u - 1) mod u" "(req + u - 1) mod u < u" using u by simp_all
  then have b: "req \<le> u * q" "u * q < req + u" using e by linarith+
  then have "1 \<le> q" using True u by (metis int_one_le_iff_zero_less less_le_trans zero_less_mult_pos zero_less_one)
  then show ?thesis using b True by (simp add: q max_absorb1 max_absorb2)
next
  case False
  have "(req + u - 1) sdiv u \<le> 0"
  proof (cases "0 \<le> req + u - 1")
    case True
    then show ?thesis using False u by (simp add: signed_divide_int_def)
  next
    case F: False
    then have "(req + u - 1) sdiv u = - (\<bar>req + u - 1\<bar> div u)"
      using u by (simp add: signed_divide_int_def sgn_if)
    then show ?thesis using u by (simp add: pos_imp_zdiv_nonneg_iff)
  qed
  then show ?thesis using False u by (simp add: max_absorb1 max_absorb2)
qed

lemma splitDemand_bounds:
  fixes req :: int
  assumes "maxP \<le> minP" "minP \<le> 32"
  shows "max 1 req \<le> int (\<Sum>x \<leftarrow> splitDemand req minP maxP. addresses x)"
    "int (\<Sum>x \<leftarrow> splitDemand req minP maxP. addresses x) < max 1 req + int (addresses minP)"
  using splitDemand_facts(1)[OF assms, of req] ceil_units[of "int (addresses minP)" req] by simp_all

subsection \<open>Adding a CIDR\<close>

lemma overlaps_root:
  assumes "alloc_inv a" "alloc_inv b"
  shows "overlaps (root_net a) (root_net b) \<longleftrightarrow> tspan (al_root a) \<inter> tspan (al_root b) \<noteq> {}"
proof -
  have ok: "block_ok (blk_base (al_root a)) (blk_plen (al_root a))" "block_ok (blk_base (al_root b)) (blk_plen (al_root b))"
    using wf_block_ok alloc_invD(2) assms by blast+
  have "overlaps (root_net a) (root_net b) \<longleftrightarrow>
      unat (blk_base (al_root b)) \<in> tspan (al_root a) \<or> unat (blk_base (al_root a)) \<in> tspan (al_root b)"
    using root_net_contains[OF assms(1)] root_net_contains[OF assms(2)] by (simp add: overlaps_def root_net_def)
  also have "\<dots> \<longleftrightarrow> tspan (al_root a) \<inter> tspan (al_root b) \<noteq> {}"
  proof -
    define x y where "x = unat (blk_base (al_root a))" and "y = unat (blk_base (al_root b))"
    define m n where "m = addresses (blk_plen (al_root a))" and "n = addresses (blk_plen (al_root b))"
    have "0 < m" "0 < n" by (simp_all add: m_def n_def)
    then have "y \<in> {x ..< x + m} \<or> x \<in> {y ..< y + n} \<longleftrightarrow> max x y \<in> {x ..< x + m} \<inter> {y ..< y + n}" by auto
    moreover have "z \<in> {x ..< x + m} \<inter> {y ..< y + n} \<Longrightarrow> max x y \<in> {x ..< x + m} \<inter> {y ..< y + n}" for z by auto
    ultimately show ?thesis unfolding span_def x_def[symmetric] y_def[symmetric] m_def[symmetric] n_def[symmetric] by blast
  qed
  finally show ?thesis .
qed

lemma addCIDR_ok:
  assumes inv: "pool_inv p" and r: "addCIDR p cidr mn mx = (p', None)"
  obtains a where "pl_allocators p' = pl_allocators p @ [a]" "pool_inv p'" "live a = {}" "alloc_inv a"
    "\<forall>b \<in> set (pl_allocators p). tspan (al_root b) \<inter> tspan (al_root a) = {}"
    "pl_now p' = pl_now p" "pl_quarantine p' = pl_quarantine p"
proof -
  let ?e = "case parse_cidr cidr of None \<Rightarrow> mx
                    | Some (_, n) \<Rightarrow> if mx < int (net_ones n) then int (net_ones n) else mx"
  obtain a0 where n: "newBuddyAllocator cidr mn ?e = Inr a0"
    using r by (cases "newBuddyAllocator cidr mn ?e") (simp_all add: addCIDR_def Let_def)
  note i0 = newBuddyAllocator_inv[OF n]
  let ?a = "setClock (setQuarantine a0 (pl_quarantine p)) (pl_now p)"
  have no: "\<not> list_ex (\<lambda>existing. overlaps (root_net existing) (root_net a0)) (pl_allocators p)"
    and p': "p' = (if pl_allocators p = [] then p\<lparr>pl_min := mn, pl_max := mx\<rparr> else p)
        \<lparr>pl_allocators := pl_allocators p @ [?a]\<rparr>"
    using r n by (auto simp: addCIDR_def Let_def split: if_splits)
  have ai: "alloc_inv ?a" by (intro setters_inv i0(1))
  have rt: "al_root ?a = al_root a0" by (simp add: setClock_def setQuarantine_def)
  have apart: "\<forall>b \<in> set (pl_allocators p). tspan (al_root b) \<inter> tspan (al_root ?a) = {}"
    unfolding rt using no overlaps_root[OF pool_alloc_inv[OF inv] i0(1)] by (auto simp: list_ex_iff)
  have "live ?a = {}" using i0(2) by (simp add: live_def setters_inv i0)
  moreover have al: "pl_allocators p' = pl_allocators p @ [?a]" using p' by simp
  moreover have "pl_now p' = pl_now p" "pl_quarantine p' = pl_quarantine p" using p' by auto
  moreover have "roots_apart (pl_allocators p')"
    using inv apart unfolding al pool_inv_def roots_apart_def
    by (auto simp: nth_append less_Suc_eq Int_commute)
  then have "pool_inv p'" using inv ai p' unfolding pool_inv_def
    by (auto simp: setClock_def setQuarantine_def)
  ultimately show thesis using that[of ?a] ai apart by blast
qed

lemma try_each_first:
  "try_each op e ss = (ss', Inr b) \<Longrightarrow>
   \<exists>i < length ss. length ss' = length ss \<and> op (ss ! i) = (ss' ! i, Inr b) \<and>
     (\<forall>j < i. \<exists>e'. op (ss ! j) = (ss' ! j, Inl e')) \<and> (\<forall>j. i < j \<and> j < length ss \<longrightarrow> ss' ! j = ss ! j)"
proof (induction ss arbitrary: e ss')
  case (Cons s ss)
  obtain s1 r1 where s1: "op s = (s1, r1)" by (cases "op s")
  show ?case
  proof (cases r1)
    case (Inr c)
    then show ?thesis using Cons.prems s1 by (intro exI[of _ 0]) auto
  next
    case (Inl e1)
    obtain ss1 where ss1: "try_each op e1 ss = (ss1, Inr b)" "ss' = s1 # ss1"
      using Cons.prems s1 Inl by (auto split: prod.splits)
    obtain i where i: "i < length ss" "length ss1 = length ss" "op (ss ! i) = (ss1 ! i, Inr b)"
     "\<forall>j < i. \<exists>e'. op (ss ! j) = (ss1 ! j, Inl e')" "\<forall>j. i < j \<and> j < length ss \<longrightarrow> ss1 ! j = ss ! j"
      using Cons.IH[OF ss1(1)] by blast
    show ?thesis using i ss1(2) s1 Inl by (intro exI[of _ "Suc i"]) (auto simp: nth_Cons split: nat.splits)
  qed
qed simp

lemma pool_allocate_result:
  assumes inv: "pool_inv p" and r: "pool_allocate p req nodeName = (p', r)"
  shows "pool_inv p' \<and> same_settings p p' \<and>
    (case r of Inl _ \<Rightarrow> pool_live p' = pool_live p
     | Inr b \<Rightarrow> ablk nodeName b \<notin> pool_live p \<and> pool_live p' = insert (ablk nodeName b) (pool_live p))"
proof (cases "pl_allocators p = []")
  case True
  then show ?thesis using r inv by (auto simp: pool_allocate_def pool_try_def)
next
  case False
  obtain as q where t: "try_each (\<lambda>a. al_allocate a req nodeName) ErrPoolEmpty (pl_allocators p) = (as, q)"
    by (cases "try_each (\<lambda>a. al_allocate a req nodeName) ErrPoolEmpty (pl_allocators p)")
  have ai: "\<forall>a \<in> set (pl_allocators p). alloc_inv a" using pool_alloc_inv[OF inv] by blast
  show ?thesis
  proof (cases q)
    case (Inl e)
    then show ?thesis using r False t pool_grant_err[OF inv allocating.try_each_err[OF ai t[unfolded Inl]]]
      by (auto simp: pool_allocate_def pool_try_def)
  next
    case (Inr b)
    then have "p' = p\<lparr>pl_allocators := as\<rparr>" "r = Inr b" using r False t by (auto simp: pool_allocate_def pool_try_def)
    then show ?thesis using allocating.try_each_ok[OF ai t[unfolded Inr]] pool_grant_ok[OF inv] by fastforce
  qed
qed

lemma pool_spread_result:
  assumes inv: "pool_inv p" and r: "pool_allocateSpread p req nodeName = (p', r)"
  shows "pool_inv p' \<and> same_settings p p' \<and>
    (case r of Inl _ \<Rightarrow> pool_live p' = pool_live p
     | Inr b \<Rightarrow> ablk nodeName b \<notin> pool_live p \<and> pool_live p' = insert (ablk nodeName b) (pool_live p))"
proof (cases "pl_allocators p = []")
  case True
  then show ?thesis using r inv by (auto simp: pool_allocateSpread_def pool_try_def)
next
  case False
  obtain as q where t: "try_each (spread_or_allocate req nodeName) ErrPoolEmpty (pl_allocators p) = (as, q)"
    by (cases "try_each (spread_or_allocate req nodeName) ErrPoolEmpty (pl_allocators p)")
  have ai: "\<forall>a \<in> set (pl_allocators p). alloc_inv a" using pool_alloc_inv[OF inv] by blast
  show ?thesis
  proof (cases q)
    case (Inl e)
    then show ?thesis using r False t pool_grant_err[OF inv spreading.try_each_err[OF ai t[unfolded Inl]]]
      by (auto simp: pool_allocateSpread_def pool_try_def)
  next
    case (Inr b)
    then have "p' = p\<lparr>pl_allocators := as\<rparr>" "r = Inr b" using r False t by (auto simp: pool_allocateSpread_def pool_try_def)
    then show ?thesis using spreading.try_each_ok[OF ai t[unfolded Inr]] pool_grant_ok[OF inv] by fastforce
  qed
qed

lemma pool_live_disjoint:
  assumes inv: "pool_inv p" and s: "s \<in> pool_live p" "u \<in> pool_live p" and ne: "tspan s \<inter> tspan u \<noteq> {}"
  shows "s = u"
proof -
  let ?A = "pl_allocators p"
  obtain i j where ij: "i < length ?A" "s \<in> live (?A ! i)" "j < length ?A" "u \<in> live (?A ! j)"
    using s by (auto simp: pool_live_nth)
  have ai: "alloc_inv (?A ! k)" if "k < length ?A" for k using that inv by (simp add: pool_inv_def)
  have "i = j"
  proof (rule ccontr)
    assume "i \<noteq> j"
    then have "tspan (al_root (?A ! i)) \<inter> tspan (al_root (?A ! j)) = {}"
      using inv ij unfolding pool_inv_def roots_apart_def by blast
    then show False using live_in_root[OF ai ij(2)] live_in_root[OF ai ij(4)] ij(1,3) ne by blast
  qed
  then show ?thesis using leaf_disjoint[OF alloc_invD(2)[OF ai[OF ij(1)]]] ij ne heldsetD(1)
    unfolding live_def by blast
qed

subsection \<open>A concrete pool for the witnesses\<close>

definition demo_pool :: pool where
  "demo_pool = \<lparr>pl_allocators = [setQuarantine demo 0], pl_quarantine = 0, pl_now = 0, pl_min = 28, pl_max = 24\<rparr>"

lemma demo_pool_inv: "pool_inv demo_pool"
  using demo_inv by (auto simp: pool_inv_def roots_apart_def demo_pool_def setters_inv)
    (simp_all add: setQuarantine_def demo_def addFree_def)

lemma demo_pool_limits: "0 \<le> pl_max demo_pool" "pl_max demo_pool \<le> pl_min demo_pool" "pl_min demo_pool \<le> 32"
  by (simp_all add: demo_pool_def)

lemma demo_pool_added: "addCIDR newPool ''10.0.0.0/24'' 28 24 = (demo_pool, None)"
  by (simp add: addCIDR_def newPool_def newBuddyAllocator_def parse_demo Let_def demo_pool_def
      setQuarantine_def setClock_def demo_def addFree_def)

definition tiny_pool :: pool where
  "tiny_pool = \<lparr>pl_allocators = [addFree \<lparr>al_root = BlockFree 167772160 28, al_min = 28, al_max = 28,
      al_free = (\<lambda>_. []), al_quarantined = [], al_quarantine = 0, al_now = 0\<rparr> (167772160, 28)],
    pl_quarantine = 0, pl_now = 0, pl_min = 28, pl_max = 26\<rparr>"

lemma tiny_pool_added: "addCIDR newPool ''10.0.0.0/28'' 28 26 = (tiny_pool, None)"
  by (simp add: addCIDR_def newPool_def newBuddyAllocator_def parse_demo Let_def tiny_pool_def
      setQuarantine_def setClock_def addFree_def)

lemma newPool_inv: "pool_inv newPool"
  by (simp add: newPool_def pool_inv_def roots_apart_def)

lemma tiny_pool_inv: "pool_inv tiny_pool"
  by (rule addCIDR_ok[OF newPool_inv tiny_pool_added])

subsection \<open>The properties\<close>

text \<open>
  \<open>SplitDemand\<close> covers a demand with less than one minimum block of waste: the addresses of
  the prefixes it returns add up to at least the demand and to less than the demand plus one
  minimum block, every prefix lies between the configured limits, and larger blocks come first.
\<close>

lemma splitDemand_covers:
  assumes "maxP \<le> minP" "minP \<le> 32"
  shows "max 1 req \<le> int (\<Sum>x \<leftarrow> splitDemand req minP maxP. addresses x) \<and>
    int (\<Sum>x \<leftarrow> splitDemand req minP maxP. addresses x) < max 1 req + int (addresses minP) \<and>
    (\<forall>x \<in> set (splitDemand req minP maxP). maxP \<le> x \<and> x \<le> minP) \<and> sorted (splitDemand req minP maxP)"
  using splitDemand_facts(2,3)[OF assms, of req] splitDemand_bounds[OF assms, of req] by blast

text \<open>
  C19. A successful \<open>AllocateDemand\<close> gives the node distinct, previously free blocks of at most the
  minimum block's prefix length that hold the demand with less than one minimum block of waste,
  and changes nothing else that is held in the pool.
\<close>

theorem allocateDemand_success:
  assumes "pool_inv p" "0 \<le> pl_max p" "pl_max p \<le> pl_min p" "pl_min p \<le> 32"
    "allocateDemand p req nodeName = (p', Inr bs)"
  shows "pool_inv p' \<and> distinct bs \<and> ablk nodeName ` set bs \<inter> pool_live p = {} \<and>
    pool_live p' = pool_live p \<union> ablk nodeName ` set bs \<and> (\<forall>b \<in> set bs. int (snd b) \<le> pl_min p) \<and>
    max 1 req \<le> int (\<Sum>b \<leftarrow> bs. addresses (snd b)) \<and>
    int (\<Sum>b \<leftarrow> bs. addresses (snd b)) < max 1 req + int (addresses (nat (pl_min p)))"
proof -
  let ?mn = "nat (pl_min p)" and ?mx = "nat (pl_max p)"
  have le: "?mx \<le> ?mn" "?mn \<le> 32" "int ?mn = pl_min p" using assms(2-4) by auto
  note sd = splitDemand_facts[OF le(1,2), of req]
  have loop: "demand_loop p ?mn nodeName [] (splitDemand req ?mn ?mx) = (p', Inr bs)"
    using assms(5) by (auto simp: allocateDemand_def split: if_splits)
  have "settled p nodeName p [] []" using assms(1) by (simp add: settled_def)
  moreover have "\<forall>x \<in> set (splitDemand req ?mn ?mx). x \<le> ?mn" using sd(2) by blast
  ultimately have res: "settled p nodeName p' bs []" "\<forall>b \<in> set bs. snd b \<le> ?mn"
    "(\<Sum>b \<leftarrow> bs. addresses (snd b)) = (\<Sum>x \<leftarrow> splitDemand req ?mn ?mx. addresses x)"
    using demand_loop_result[OF assms(1) le(2) _ _ loop] by auto
  have "\<forall>b \<in> set bs. int (snd b) \<le> int ?mn" using res(2) by (simp only: of_nat_le_iff)
  then have "\<forall>b \<in> set bs. int (snd b) \<le> pl_min p" unfolding le(3) .
  then show ?thesis using res(1) splitDemand_bounds[OF le(1,2), of req]
    by (simp add: settled_def res(3))
qed

theorem allocateDemand_success_witness:
  "\<exists>p'. allocateDemand demo_pool 40 ''n1'' = (p', Inr [(167772160, 27), (167772192, 28)]) \<and> pool_inv p'"
proof -
  have "snd (allocateDemand demo_pool 40 ''n1'') = Inr [(167772160, 27), (167772192, 28)]" by code_simp
  then have r: "allocateDemand demo_pool 40 ''n1'' =
      (fst (allocateDemand demo_pool 40 ''n1''), Inr [(167772160, 27), (167772192, 28)])"
    by (metis prod.collapse)
  show ?thesis using allocateDemand_success[OF demo_pool_inv demo_pool_limits r] r by blast
qed

text \<open>
  A failed \<open>AllocateDemand\<close> never takes anything away: every block that was held stays held,
  and whatever is left over is a block of the requesting node.
\<close>

lemma allocateDemand_failure:
  assumes "pool_inv p" "0 \<le> pl_max p" "pl_max p \<le> pl_min p" "pl_min p \<le> 32"
    "allocateDemand p req nodeName = (p', Inl e)"
  shows "pool_inv p' \<and> pool_live p \<subseteq> pool_live p' \<and>
    (\<forall>s \<in> pool_live p' - pool_live p. is_BlockAllocated s \<and> blk_node s = nodeName)"
proof (cases "pl_allocators p = []")
  case True
  then show ?thesis using assms(1,5) by (auto simp: allocateDemand_def)
next
  case False
  let ?mn = "nat (pl_min p)" and ?mx = "nat (pl_max p)"
  have le: "?mx \<le> ?mn" "?mn \<le> 32" using assms(2-4) by auto
  have loop: "demand_loop p ?mn nodeName [] (splitDemand req ?mn ?mx) = (p', Inl e)"
    using assms(5) False by (simp add: allocateDemand_def)
  have "settled p nodeName p [] []" using assms(1) by (simp add: settled_def)
  moreover have "\<forall>x \<in> set (splitDemand req ?mn ?mx). x \<le> ?mn" using splitDemand_facts(2)[OF le] by blast
  ultimately obtain L where "settled p nodeName p' [] L"
    using demand_loop_result[OF assms(1) le(2) _ _ loop] by auto
  then show ?thesis by (auto simp: settled_def)
qed

text \<open>
  The rollback of \<open>AllocateDemand\<close> is incomplete. In a pool with the single CIDR 10.0.0.0/28
  and limits /28 to /26, a demand of 64 addresses fails, but the /28 that the first half of the
  fallback obtained stays allocated to the node although no caller knows of it: the recursive
  call's blocks are dropped when the first of the two halves fails.
\<close>

lemma allocateDemand_leaks:
  "addCIDR newPool ''10.0.0.0/28'' 28 26 = (tiny_pool, None) \<and> pool_live tiny_pool = {} \<and>
   (\<exists>e. snd (allocateDemand tiny_pool 64 ''n1'') = Inl e) \<and>
   pool_live (fst (allocateDemand tiny_pool 64 ''n1'')) = {BlockAllocated 167772160 28 ''n1''}"
proof -
  have e: "case snd (allocateDemand tiny_pool 64 ''n1'') of Inl e \<Rightarrow> True | Inr _ \<Rightarrow> False" by code_simp
  have "map (\<lambda>a. held (al_root a)) (pl_allocators (fst (allocateDemand tiny_pool 64 ''n1''))) =
      [[BlockAllocated 167772160 28 ''n1'']]" by code_simp
  then obtain a where "pl_allocators (fst (allocateDemand tiny_pool 64 ''n1'')) = [a]"
    "held (al_root a) = [BlockAllocated 167772160 28 ''n1'']" by auto
  then have "pool_live (fst (allocateDemand tiny_pool 64 ''n1'')) = {BlockAllocated 167772160 28 ''n1''}"
    by (auto simp: pool_live_def live_def heldset_held is_due_def)
  moreover have "pool_live tiny_pool = {}" by (simp add: pool_live_def live_def heldset_def tiny_pool_def)
  ultimately show ?thesis using e tiny_pool_added by (simp split: sum.splits)
qed

text \<open>
  \<open>Pool.Allocate\<close> fills the CIDRs in order: the block comes from the first CIDR whose allocator
  can serve the request, later CIDRs are untouched, the block overlaps nothing held anywhere in the
  pool, and the pool stays well formed.
\<close>

lemma pool_allocate_fills_in_order:
  assumes "pool_inv p" "pool_allocate p req nodeName = (p', Inr b)"
  shows "(\<exists>i < length (pl_allocators p).
      al_allocate (pl_allocators p ! i) req nodeName = (pl_allocators p' ! i, Inr b) \<and>
      (\<forall>j < i. \<exists>e. snd (al_allocate (pl_allocators p ! j) req nodeName) = Inl e) \<and>
      (\<forall>j. i < j \<and> j < length (pl_allocators p) \<longrightarrow> pl_allocators p' ! j = pl_allocators p ! j)) \<and>
    (\<forall>s \<in> pool_live p. tspan s \<inter> span (fst b) (snd b) = {}) \<and>
    pool_live p' = insert (BlockAllocated (fst b) (snd b) nodeName) (pool_live p) \<and> pool_inv p'"
proof -
  have r: "pool_inv p'" "ablk nodeName b \<notin> pool_live p" "pool_live p' = insert (ablk nodeName b) (pool_live p)"
    using pool_allocate_result[OF assms] by auto
  have apart: "tspan s \<inter> span (fst b) (snd b) = {}" if "s \<in> pool_live p" for s
  proof (rule ccontr)
    assume "tspan s \<inter> span (fst b) (snd b) \<noteq> {}"
    then have "s = ablk nodeName b" using pool_live_disjoint[OF r(1), of s "ablk nodeName b"] r(3) that by simp
    then show False using r(2) that by simp
  qed
  have ne: "pl_allocators p \<noteq> []" using assms(2) by (auto simp: pool_allocate_def pool_try_def)
  obtain as q where t: "try_each (\<lambda>a. al_allocate a req nodeName) ErrPoolEmpty (pl_allocators p) = (as, q)"
    by (cases "try_each (\<lambda>a. al_allocate a req nodeName) ErrPoolEmpty (pl_allocators p)")
  then have "q = Inr b" "pl_allocators p' = as"
    using assms(2) ne by (auto simp: pool_allocate_def pool_try_def split: sum.splits)
  then have "\<exists>i < length (pl_allocators p).
      al_allocate (pl_allocators p ! i) req nodeName = (pl_allocators p' ! i, Inr b) \<and>
      (\<forall>j < i. \<exists>e. snd (al_allocate (pl_allocators p ! j) req nodeName) = Inl e) \<and>
      (\<forall>j. i < j \<and> j < length (pl_allocators p) \<longrightarrow> pl_allocators p' ! j = pl_allocators p ! j)"
    using try_each_first[OF t[unfolded \<open>q = Inr b\<close>]] by (metis snd_conv)
  then show ?thesis using r(1,3) apart by blast
qed

text \<open>
  \<open>AddCIDR\<close> keeps the CIDRs of a pool disjoint: when it succeeds, the new CIDR starts empty and
  overlaps no CIDR already there, nothing held changes, and the pool stays well formed. So the held
  blocks of a pool never overlap, across CIDRs as well as within one.
\<close>

lemma addCIDR_keeps_disjoint:
  assumes "pool_inv p" "addCIDR p cidr mn mx = (p', None)"
  shows "pool_inv p' \<and> pool_live p' = pool_live p \<and> length (pl_allocators p') = Suc (length (pl_allocators p)) \<and>
    (\<forall>b \<in> set (pl_allocators p). tspan (al_root b) \<inter> tspan (al_root (last (pl_allocators p'))) = {}) \<and>
    (\<forall>s \<in> pool_live p'. \<forall>u \<in> pool_live p'. tspan s \<inter> tspan u \<noteq> {} \<longrightarrow> s = u)"
proof -
  obtain a where a: "pl_allocators p' = pl_allocators p @ [a]" "pool_inv p'" "live a = {}"
    "\<forall>b \<in> set (pl_allocators p). tspan (al_root b) \<inter> tspan (al_root a) = {}"
    by (rule addCIDR_ok[OF assms]) blast
  then have "pool_live p' = pool_live p" by (simp add: pool_live_def)
  then show ?thesis using a pool_live_disjoint[OF a(2)] by simp
qed

end
