(* ===== verification/Aggregate.thy ===== *)
theory Aggregate
  imports Allocator
begin

text \<open>
  Route aggregation (ipam/buddy/aggregate.go) and block halves (ipam/buddy/halves.go). The Go map
  that \<open>Aggregate\<close> uses as a set is a list here; \<open>for p := range set\<close> visits it in the order of the
  list, while Go's order is unspecified. The lemmas show when the result does not depend on it.
\<close>

type_synonym pfx = "addr \<times> nat"

abbreviation pspan :: "pfx \<Rightarrow> nat set" where
  "pspan p \<equiv> span (fst p) (snd p)"

definition size_of :: "pfx \<Rightarrow> addr" where
  "size_of p = push_bit (32 - snd p) 1"

definition sibling :: "pfx \<Rightarrow> pfx" where
  "sibling p = (fst p XOR size_of p, snd p)"

definition parent :: "pfx \<Rightarrow> pfx" where
  "parent p = (fst p AND NOT (size_of p), snd p - 1)"

definition parse_all :: "string list \<Rightarrow> error + pfx list" where
  "parse_all cidrs = foldl (\<lambda>acc c. case acc of
       Inl e \<Rightarrow> Inl e
     | Inr ps \<Rightarrow> (case parse_cidr c of
           None \<Rightarrow> Inl (ErrInvalidCIDR c)
         | Some (_, n) \<Rightarrow> Inr (List.insert (net_ip n, net_ones n) ps)))
     (Inr []) cidrs"

definition mergeable :: "pfx list \<Rightarrow> pfx \<Rightarrow> bool" where
  "mergeable ps p \<longleftrightarrow> snd p \<noteq> 0 \<and> sibling p \<in> set ps"

definition merge_pair :: "pfx list \<Rightarrow> pfx \<Rightarrow> pfx list" where
  "merge_pair ps p = List.insert (parent p) (removeAll (sibling p) (removeAll p ps))"

lemma size_of_nz: "snd p \<noteq> 0 \<Longrightarrow> size_of p = half_of (snd p - 1)"
  by (cases p) (auto simp: size_of_def half_of_def)

lemma sibling_ne: "0 < snd p \<Longrightarrow> snd p \<le> 32 \<Longrightarrow> sibling p \<noteq> p"
proof
  assume p: "0 < snd p" "snd p \<le> 32" "sibling p = p"
  then have "fst p XOR size_of p = fst p" unfolding sibling_def by (metis fst_conv)
  moreover have "size_of p = fst p XOR (fst p XOR size_of p)" by (simp flip: xor.assoc)
  ultimately have "size_of p = 0" by simp
  then show False using p half_of_ne0[of "snd p - 1"] size_of_nz[of p] by simp
qed

lemma card_merge_pair:
  assumes "p \<in> set xs" "sibling p \<in> set xs" "sibling p \<noteq> p"
  shows "card (set (merge_pair xs p)) < card (set xs)"
proof -
  have "card (set xs - {p} - {sibling p}) = card (set xs) - 1 - 1" using assms by simp
  moreover have "2 \<le> card (set xs)"
    using card_mono[of "set xs" "{p, sibling p}"] assms by simp
  moreover have "card (set (merge_pair xs p)) \<le> Suc (card (set xs - {p} - {sibling p}))"
    by (simp add: merge_pair_def card_insert_if Diff_insert2[symmetric])
  ultimately show ?thesis by linarith
qed

text \<open>
  The loop \<open>for changed := true; changed;\<close>. Prefix lengths are at most 32 after parsing; the guard on
  \<open>sibling p \<noteq> p\<close>, which then always holds, lets the definition terminate for every list.
\<close>

function agg_loop :: "pfx list \<Rightarrow> pfx list" where
  "agg_loop ps =
     (case find (mergeable ps) ps of
        None \<Rightarrow> ps
      | Some p \<Rightarrow> if sibling p = p then ps else agg_loop (merge_pair ps p))"
  by pat_completeness auto
termination
proof (relation "measure (\<lambda>xs. card (set xs))")
  fix xs p assume "find (mergeable xs) xs = Some p" "sibling p \<noteq> p"
  then show "(merge_pair xs p, xs) \<in> measure (\<lambda>xs. card (set xs))"
    using card_merge_pair[of p xs] by (auto simp: find_Some_iff mergeable_def)
qed simp

declare agg_loop.simps [simp del]

definition pfx_less :: "pfx \<Rightarrow> pfx \<Rightarrow> bool" where
  "pfx_less a b \<longleftrightarrow> fst a < fst b \<or> fst a = fst b \<and> snd a < snd b"

definition aggregate :: "string list \<Rightarrow> error + string list" where
  "aggregate cidrs =
     (case parse_all cidrs of
        Inl e \<Rightarrow> Inl e
      | Inr ps \<Rightarrow> Inr (map (\<lambda>p. cidr_string (fst p) (snd p)) (sort_by pfx_less (agg_loop ps))))"

text \<open>\<open>Halves\<close> and \<open>OtherHalf\<close>.\<close>

definition halves :: "string \<Rightarrow> error + (string \<times> string)" where
  "halves cidr =
     (case parse_cidr cidr of
        None \<Rightarrow> Inl (ErrInvalidCIDR cidr)
      | Some (_, n) \<Rightarrow>
          if net_ones n \<ge> 32 then Inl (ErrCannotSplit cidr)
          else (let base = net_ip n; ones = net_ones n; half = push_bit (31 - ones) 1
                in Inr (cidr_string base (ones + 1), cidr_string (base + half) (ones + 1))))"

definition otherHalf :: "string \<Rightarrow> string \<Rightarrow> error + string" where
  "otherHalf cidr half =
     (case halves cidr of
        Inl e \<Rightarrow> Inl e
      | Inr (lower, upper) \<Rightarrow>
          if half = lower then Inr upper
          else if half = upper then Inr lower
          else Inl (ErrNotAHalf half cidr))"

subsection \<open>Geometry of siblings\<close>

lemma pair_geometry:
  assumes ok: "block_ok x n" "0 < n"
  shows "block_ok (fst (parent (x, n))) (n - 1)"
    "x = fst (parent (x, n)) \<and> sibling (x, n) = (fst (parent (x, n)) + half_of (n - 1), n) \<or>
     x = fst (parent (x, n)) + half_of (n - 1) \<and> sibling (x, n) = (fst (parent (x, n)), n)"
proof -
  let ?k = "32 - n" and ?s = "half_of (n - 1)"
  have n: "n \<le> 32" using ok by (simp add: block_ok_def)
  have s: "size_of (x, n) = ?s" using size_of_nz[of "(x, n)"] ok by simp
  have s2: "?s = 2 ^ ?k" using ok n by (simp add: half_of_def push_bit_eq_mult)
  have par: "fst (parent (x, n)) = unset_bit ?k x"
    using s s2 by (simp add: parent_def unset_bit_eq_and_not)
  have sib: "fst (sibling (x, n)) = flip_bit ?k x"
    using s s2 by (simp add: sibling_def flip_bit_eq_xor)
  have a: "addresses n = 2 ^ ?k" "addresses (n - 1) = 2 * 2 ^ ?k"
    using ok n by (simp_all add: addresses_def Suc_diff_le flip: power_Suc)
  obtain q where q: "unat x = 2 ^ ?k * q" using ok(1) a by (auto simp: block_ok_def dvd_def)
  have bq: "bit x ?k \<longleftrightarrow> odd q"
  proof -
    have "bit x ?k \<longleftrightarrow> bit (unat x) ?k" by (simp add: bit_unsigned_iff)
    also have "\<dots> \<longleftrightarrow> odd (unat x div 2 ^ ?k)" by (simp add: bit_iff_odd)
    also have "unat x div 2 ^ ?k = q" using q by simp
    finally show ?thesis .
  qed
  have "block_ok (fst (parent (x, n))) (n - 1) \<and>
    (x = fst (parent (x, n)) \<and> sibling (x, n) = (fst (parent (x, n)) + half_of (n - 1), n) \<or>
     x = fst (parent (x, n)) + half_of (n - 1) \<and> sibling (x, n) = (fst (parent (x, n)), n))"
  proof (cases "bit x ?k")
    case False
    have "fst (parent (x, n)) = x" unfolding par unset_bit_eq using False by simp
    moreover have "fst (sibling (x, n)) = x + ?s" unfolding sib flip_bit_eq_if set_bit_eq using False s2 by simp
    moreover have "even q" using False bq by simp
    then have "addresses (n - 1) dvd unat x" unfolding a q by (auto simp: dvd_def)
    ultimately show ?thesis using n by (cases "sibling (x, n)") (auto simp: block_ok_def sibling_def)
  next
    case True
    have p: "fst (parent (x, n)) = x - ?s" unfolding par unset_bit_eq using True s2 by simp
    moreover have "fst (sibling (x, n)) = x - ?s" unfolding sib flip_bit_eq_if unset_bit_eq using True s2 by simp
    moreover have "odd q" using True bq by simp
    then obtain r where r: "q = 2 * r + 1" by (auto elim: oddE)
    have us: "unat ?s = 2 ^ ?k" using unat_half_of[of "n - 1"] ok n a by simp
    then have "?s \<le> x" using q r by (simp add: word_le_nat_alt)
    then have "unat (x - ?s) = 2 * 2 ^ ?k * r" using us q r by (simp add: unat_sub algebra_simps)
    then have "addresses (n - 1) dvd unat (x - ?s)" unfolding a by simp
    ultimately show ?thesis using n by (auto simp: block_ok_def sibling_def)
  qed
  then show "block_ok (fst (parent (x, n))) (n - 1)"
    "x = fst (parent (x, n)) \<and> sibling (x, n) = (fst (parent (x, n)) + half_of (n - 1), n) \<or>
     x = fst (parent (x, n)) + half_of (n - 1) \<and> sibling (x, n) = (fst (parent (x, n)), n)" by blast+
qed

lemma pair_spans:
  assumes "block_ok (fst p) (snd p)" "0 < snd p"
  shows "block_ok (fst (parent p)) (snd (parent p))" "block_ok (fst (sibling p)) (snd (sibling p))"
    "pspan (parent p) = pspan p \<union> pspan (sibling p)" "pspan p \<inter> pspan (sibling p) = {}"
proof -
  obtain x n where p: "p = (x, n)" by (cases p)
  have pp: "pspan p = span x n" by (simp add: p)
  define b where "b = fst (parent (x, n))"
  have n: "0 < n" "n - 1 < 32" "Suc (n - 1) = n" "snd (parent (x, n)) = n - 1"
    using assms p by (auto simp: block_ok_def parent_def)
  have par: "parent p = (b, n - 1)" using n(4) by (simp add: p b_def prod_eq_iff)
  have g: "block_ok b (n - 1)"
    "x = b \<and> sibling p = (b + half_of (n - 1), n) \<or> x = b + half_of (n - 1) \<and> sibling p = (b, n)"
    using pair_geometry[of x n, folded b_def] assms n(1) by (simp_all add: p)
  note h = block_ok_halves(1,2)[OF g(1) n(2), unfolded n(3)]
  note s = span_halves[OF g(1) n(2), unfolded n(3)]
  from g(2) have "pspan (parent p) = pspan p \<union> pspan (sibling p) \<and> pspan p \<inter> pspan (sibling p) = {} \<and>
      block_ok (fst (sibling p)) (snd (sibling p))"
  proof (elim disjE conjE)
    assume a: "x = b" "sibling p = (b + half_of (n - 1), n)"
    show ?thesis unfolding a(2) par pp a(1) fst_conv snd_conv by (intro conjI s h)
  next
    assume a: "x = b + half_of (n - 1)" "sibling p = (b, n)"
    have "span (b + half_of (n - 1)) n \<inter> span b n = {}" using s(2) by (simp only: Int_commute)
    moreover have "span b (n - 1) = span (b + half_of (n - 1)) n \<union> span b n" using s(1) by (simp only: Un_commute)
    ultimately show ?thesis unfolding a(2) par pp a(1) fst_conv snd_conv by (intro conjI h)
  qed
  then show "pspan (parent p) = pspan p \<union> pspan (sibling p)" "pspan p \<inter> pspan (sibling p) = {}"
    "block_ok (fst (sibling p)) (snd (sibling p))" by blast+
  show "block_ok (fst (parent p)) (snd (parent p))" using g(1) par by simp
qed

definition aligned_set :: "pfx set \<Rightarrow> bool" where
  "aligned_set A \<longleftrightarrow> (\<forall>p \<in> A. block_ok (fst p) (snd p))"

definition apart_set :: "pfx set \<Rightarrow> bool" where
  "apart_set A \<longleftrightarrow> (\<forall>p \<in> A. \<forall>q \<in> A. p \<noteq> q \<longrightarrow> pspan p \<inter> pspan q = {})"

definition merged_set :: "pfx set \<Rightarrow> bool" where
  "merged_set A \<longleftrightarrow> (\<forall>p \<in> A. 0 < snd p \<longrightarrow> sibling p \<notin> A)"

abbreviation covered :: "pfx set \<Rightarrow> nat set" where
  "covered A \<equiv> (\<Union>p \<in> A. pspan p)"

lemma merge_pair_facts:
  assumes p: "p \<in> set xs" "mergeable xs p" and al: "aligned_set (set xs)"
  shows "covered (set (merge_pair xs p)) = covered (set xs)" "aligned_set (set (merge_pair xs p))"
    "apart_set (set xs) \<Longrightarrow> apart_set (set (merge_pair xs p))" "distinct xs \<Longrightarrow> distinct (merge_pair xs p)"
proof -
  have ok: "block_ok (fst p) (snd p)" "0 < snd p" "sibling p \<in> set xs"
    using p al by (auto simp: aligned_set_def mergeable_def)
  note g = pair_spans[OF ok(1,2)]
  have S: "set (merge_pair xs p) = insert (parent p) (set xs - {p} - {sibling p})"
    by (auto simp: merge_pair_def)
  have "covered (set xs) = covered (set xs - {p} - {sibling p}) \<union> (pspan p \<union> pspan (sibling p))"
    using p(1) ok(3) by blast
  then show "covered (set (merge_pair xs p)) = covered (set xs)" unfolding S g(3)[symmetric] by auto
  show "aligned_set (set (merge_pair xs p))" unfolding S using al g(1) by (auto simp: aligned_set_def)
  show "distinct xs \<Longrightarrow> distinct (merge_pair xs p)" by (simp add: merge_pair_def distinct_removeAll)
  assume ap: "apart_set (set xs)"
  have "pspan (parent p) \<inter> pspan q = {}" if "q \<in> set xs - {p} - {sibling p}" for q
  proof -
    have "pspan p \<inter> pspan q = {}" "pspan (sibling p) \<inter> pspan q = {}"
      using ap that p(1) ok(3) unfolding apart_set_def by blast+
    then show ?thesis unfolding g(3) by blast
  qed
  then show "apart_set (set (merge_pair xs p))" unfolding S using ap unfolding apart_set_def
    by (auto simp: Int_commute)
qed

lemma agg_loop_facts:
  assumes "aligned_set (set xs)"
  shows "covered (set (agg_loop xs)) = covered (set xs) \<and> aligned_set (set (agg_loop xs)) \<and>
    merged_set (set (agg_loop xs)) \<and> (apart_set (set xs) \<longrightarrow> apart_set (set (agg_loop xs))) \<and>
    (distinct xs \<longrightarrow> distinct (agg_loop xs))"
  using assms
proof (induction xs rule: agg_loop.induct)
  case (1 ps)
  show ?case
  proof (cases "find (mergeable ps) ps")
    case None
    then have "agg_loop ps = ps" by (simp add: agg_loop.simps[of ps])
    moreover have "\<forall>p \<in> set ps. \<not> mergeable ps p" using None unfolding find_None_iff by blast
    then have "merged_set (set ps)" unfolding mergeable_def merged_set_def by blast
    ultimately show ?thesis using 1 by simp
  next
    case (Some p)
    have p: "p \<in> set ps" "mergeable ps p" using Some by (auto simp: find_Some_iff)
    then have "block_ok (fst p) (snd p)" "0 < snd p" using 1(2) by (auto simp: aligned_set_def mergeable_def)
    then have ne: "sibling p \<noteq> p" using sibling_ne by (simp add: block_ok_def)
    then have "agg_loop ps = agg_loop (merge_pair ps p)" using Some by (simp add: agg_loop.simps[of ps])
    then show ?thesis using 1(1)[OF Some ne merge_pair_facts(2)[OF p 1(2)]] merge_pair_facts[OF p 1(2)] by auto
  qed
qed

text \<open>
  In a disjoint set of aligned prefixes without a mergeable pair, every aligned block the set covers
  lies inside one of its prefixes. So the set is the only such set with that coverage, and no set of
  aligned prefixes with the same coverage is smaller.
\<close>

lemma merged_set_maximal:
  assumes fin: "finite A" and al: "aligned_set A" and ap: "apart_set A" and mg: "merged_set A"
    and q: "block_ok x n" "span x n \<subseteq> covered A"
  shows "\<exists>p \<in> A. span x n \<subseteq> pspan p"
proof (rule ccontr)
  assume no: "\<not> ?thesis"
  let ?I = "{p \<in> A. pspan p \<inter> span x n \<noteq> {}}"
  have inside: "pspan p \<subseteq> span x n \<and> n < snd p" if "p \<in> ?I" for p
  proof -
    have pk: "block_ok (fst p) (snd p)" using al that by (simp add: aligned_set_def)
    have nn: "\<not> span x n \<subseteq> pspan p" using no that by blast
    then have "\<not> snd p \<le> n" using aligned_nested[OF q(1) pk] that by (auto simp: Int_commute)
    moreover from this have "pspan p \<subseteq> span x n" using aligned_nested[OF pk q(1)] that by auto
    ultimately show ?thesis by simp
  qed
  have "unat x \<in> covered A" using q(2) base_in_span[of x n] by blast
  then obtain p0 where "p0 \<in> A" "unat x \<in> pspan p0" by blast
  then have "p0 \<in> ?I" using base_in_span[of x n] by blast
  then have ne: "snd ` ?I \<noteq> {}" by blast
  have finI: "finite (snd ` ?I)" using fin by simp
  obtain p where p: "p \<in> ?I" "snd p = Max (snd ` ?I)" using Max_in[OF finI ne] by (metis (no_types, lifting) imageE)
  have mx: "snd r \<le> snd p" if "r \<in> ?I" for r using Max_ge[OF finI] that p(2) by auto
  have pk: "block_ok (fst p) (snd p)" "0 < snd p" "p \<in> A"
    using al p inside[OF p(1)] by (auto simp: aligned_set_def)
  note g = pair_spans[OF pk(1,2)]
  have par: "pspan (parent p) \<subseteq> span x n"
  proof -
    have "n \<le> snd (parent p)" using conjunct2[OF inside[OF p(1)]] by (simp add: parent_def)
    moreover have "pspan (parent p) \<inter> span x n \<noteq> {}" using g(3) p(1) by blast
    ultimately show ?thesis using aligned_nested[OF g(1) q(1)] by blast
  qed
  obtain r where r: "r \<in> A" "unat (fst (sibling p)) \<in> pspan r"
    using par g(3) q(2) base_in_span[of "fst (sibling p)" "snd (sibling p)"] by blast
  have rI: "r \<in> ?I" using r par g(3) base_in_span[of "fst (sibling p)" "snd (sibling p)"] by blast
  have rk: "block_ok (fst r) (snd r)" using al r by (simp add: aligned_set_def)
  have sn: "snd (sibling p) = snd p" by (simp add: sibling_def)
  have "r = sibling p"
  proof (cases "snd r = snd p")
    case True
    have m: "pspan (sibling p) \<inter> pspan r \<noteq> {}" "pspan r \<inter> pspan (sibling p) \<noteq> {}"
      using r(2) base_in_span[of "fst (sibling p)" "snd (sibling p)"] by blast+
    have "pspan (sibling p) \<subseteq> pspan r" "pspan r \<subseteq> pspan (sibling p)"
      using aligned_nested[OF g(2) rk _ m(1)] aligned_nested[OF rk g(2) _ m(2)] sn True by simp_all
    then have "span (fst r) (snd p) = span (fst (sibling p)) (snd p)" using True sn by auto
    then have "unat (fst r) = unat (fst (sibling p))"
      unfolding span_def by (simp add: atLeastLessThan_eq_iff)
    then show ?thesis using True sn by (simp add: prod_eq_iff word_unat_eq_iff)
  next
    case False
    then have "snd r < snd p" using mx[OF rI] by simp
    then have "snd r \<le> snd (parent p)" by (simp add: parent_def)
    moreover have "pspan (parent p) \<inter> pspan r \<noteq> {}"
      using r(2) g(3) base_in_span[of "fst (sibling p)" "snd (sibling p)"] by blast
    ultimately have "pspan (parent p) \<subseteq> pspan r" using aligned_nested[OF g(1) rk] by blast
    then have "pspan p \<inter> pspan r \<noteq> {}" using g(3) base_in_span[of "fst p" "snd p"] by blast
    then have "r = p" using ap r(1) pk(3) unfolding apart_set_def by blast
    then show ?thesis using False by simp
  qed
  then show False using mg pk r(1) unfolding merged_set_def by blast
qed

lemma merged_set_unique:
  assumes A: "finite A" "aligned_set A" "apart_set A" "merged_set A"
    and B: "finite B" "aligned_set B" "apart_set B" "merged_set B" and cov: "covered A = covered B"
  shows "A = B"
proof -
  have half: "P \<subseteq> Q" if P: "finite P" "aligned_set P" "apart_set P" "merged_set P"
    and Q: "finite Q" "aligned_set Q" "apart_set Q" "merged_set Q" and c: "covered P = covered Q" for P Q
  proof
    fix p assume p: "p \<in> P"
    have "block_ok (fst p) (snd p)" "pspan p \<subseteq> covered Q" using P(2) p c by (auto simp: aligned_set_def)
    then obtain q where q: "q \<in> Q" "pspan p \<subseteq> pspan q" using merged_set_maximal[OF Q] by blast
    have "block_ok (fst q) (snd q)" "pspan q \<subseteq> covered P" using Q(2) q c by (auto simp: aligned_set_def)
    then obtain r where r: "r \<in> P" "pspan q \<subseteq> pspan r" using merged_set_maximal[OF P] by blast
    have "p = r" using P(3) p r(1) q(2) r(2) base_in_span[of "fst p" "snd p"] unfolding apart_set_def by blast
    then have eq: "pspan p = pspan q" using q(2) r(2) by auto
    then have "unat (fst p) = unat (fst q)" "addresses (snd p) = addresses (snd q)"
      by (auto simp: span_def atLeastLessThan_eq_iff)
    moreover have "snd p \<le> 32" "snd q \<le> 32" using P(2) Q(2) p q by (auto simp: aligned_set_def block_ok_def)
    ultimately have "p = q" by (auto simp: prod_eq_iff word_unat_eq_iff addresses_def)
    then show "p \<in> Q" using q(1) by simp
  qed
  show ?thesis using half[OF A B cov] half[OF B A cov[symmetric]] by blast
qed

subsection \<open>On the texts\<close>

lemma parse_all_foldl:
  "foldl (\<lambda>acc c. case acc of
       Inl e \<Rightarrow> Inl e
     | Inr ps \<Rightarrow> (case parse_cidr c of
           None \<Rightarrow> Inl (ErrInvalidCIDR c)
         | Some (_, n) \<Rightarrow> Inr (List.insert (net_ip n, net_ones n) ps))) (Inl e) cs = Inl e"
  by (induction cs) auto

definition pfx_of :: "string \<Rightarrow> pfx" where
  "pfx_of c = (case parse_cidr c of None \<Rightarrow> (0, 0) | Some (_, n) \<Rightarrow> (net_ip n, net_ones n))"

lemma parse_all_Inr_foldl:
  "(\<forall>c \<in> set cs. parse_cidr c \<noteq> None) \<Longrightarrow>
   foldl (\<lambda>acc c. case acc of
       Inl e \<Rightarrow> Inl e
     | Inr ps \<Rightarrow> (case parse_cidr c of
           None \<Rightarrow> Inl (ErrInvalidCIDR c)
         | Some (_, n) \<Rightarrow> Inr (List.insert (net_ip n, net_ones n) ps))) (Inr qs) cs =
   Inr (fold List.insert (map pfx_of cs) qs)"
  by (induction cs arbitrary: qs) (auto simp: pfx_of_def)

lemma parse_all_ok:
  assumes "\<forall>c \<in> set cs. parse_cidr c \<noteq> None"
  shows "parse_all cs = Inr (fold List.insert (map pfx_of cs) [])"
  using parse_all_Inr_foldl[OF assms, of "[]"] by (simp add: parse_all_def)

lemma parse_all_err:
  "parse_all cs = Inl e \<Longrightarrow> \<exists>c \<in> set cs. parse_cidr c = None \<and> e = ErrInvalidCIDR c"
proof -
  have "foldl (\<lambda>acc c. case acc of
       Inl e \<Rightarrow> Inl e
     | Inr ps \<Rightarrow> (case parse_cidr c of
           None \<Rightarrow> Inl (ErrInvalidCIDR c)
         | Some (_, n) \<Rightarrow> Inr (List.insert (net_ip n, net_ones n) ps))) (Inr qs) cs = Inl e \<Longrightarrow>
     \<exists>c \<in> set cs. parse_cidr c = None \<and> e = ErrInvalidCIDR c" for qs
    by (induction cs arbitrary: qs) (auto simp: parse_all_foldl split: option.splits)
  then show "parse_all cs = Inl e \<Longrightarrow> \<exists>c \<in> set cs. parse_cidr c = None \<and> e = ErrInvalidCIDR c"
    unfolding parse_all_def by blast
qed

lemma fold_insert: "set (fold List.insert xs ys) = set xs \<union> set ys" "distinct ys \<Longrightarrow> distinct (fold List.insert xs ys)"
  by (induction xs arbitrary: ys) auto

lemma pfx_of_ok: "parse_cidr c \<noteq> None \<Longrightarrow> block_ok (fst (pfx_of c)) (snd (pfx_of c))"
  using parse_cidr_bounds by (force simp: pfx_of_def block_ok_def addresses_def split: option.splits)

lemma pfx_less_order: "pfx_less = (<)"
  by (intro ext) (auto simp: pfx_less_def less_prod_def)

lemma aggregate_ok:
  assumes "\<forall>c \<in> set cs. parse_cidr c \<noteq> None"
  defines "qs \<equiv> agg_loop (fold List.insert (map pfx_of cs) [])"
  shows "aggregate cs = Inr (map (\<lambda>p. cidr_string (fst p) (snd p)) (sort qs))"
    "covered (set qs) = covered (pfx_of ` set cs)" "aligned_set (set qs)" "merged_set (set qs)" "distinct qs"
    "apart_set (pfx_of ` set cs) \<Longrightarrow> apart_set (set qs)"
proof -
  let ?ps = "fold List.insert (map pfx_of cs) []"
  have ps: "set ?ps = pfx_of ` set cs" "distinct ?ps" by (simp_all add: fold_insert)
  have "aligned_set (set ?ps)" using assms pfx_of_ok by (auto simp: ps(1) aligned_set_def)
  note f = agg_loop_facts[OF this, folded qs_def]
  show "aggregate cs = Inr (map (\<lambda>p. cidr_string (fst p) (snd p)) (sort qs))"
    by (simp add: aggregate_def parse_all_ok[OF assms(1)] pfx_less_order sort_by_less qs_def)
  show "covered (set qs) = covered (pfx_of ` set cs)" "aligned_set (set qs)" "merged_set (set qs)" "distinct qs"
    "apart_set (pfx_of ` set cs) \<Longrightarrow> apart_set (set qs)" using f ps by auto
qed

lemma pfx_of_string:
  "block_ok (fst p) (snd p) \<Longrightarrow> pfx_of (cidr_string (fst p) (snd p)) = p"
  using parse_cidr_string[of "snd p" "fst p"] and_cidr_mask_id[of "snd p" "fst p"]
  by (simp add: pfx_of_def block_ok_def addresses_def)

lemma aggregate_output:
  assumes "\<forall>c \<in> set cs. parse_cidr c \<noteq> None" "aggregate cs = Inr out"
  defines "qs \<equiv> agg_loop (fold List.insert (map pfx_of cs) [])"
  shows "pfx_of ` set out = set qs" "map pfx_of out = sort qs" "\<forall>c \<in> set out. parse_cidr c \<noteq> None"
proof -
  note ok = aggregate_ok[OF assms(1), folded qs_def]
  have out: "out = map (\<lambda>p. cidr_string (fst p) (snd p)) (sort qs)" using ok(1) assms(2) by simp
  have al: "block_ok (fst p) (snd p)" if "p \<in> set qs" for p using ok(3) that by (simp add: aligned_set_def)
  have "map (pfx_of \<circ> (\<lambda>p. cidr_string (fst p) (snd p))) (sort qs) = map id (sort qs)"
    by (rule map_cong[OF refl]) (simp add: pfx_of_string al)
  then show mp: "map pfx_of out = sort qs" by (simp add: out)
  have "pfx_of ` set out = set (map pfx_of out)" by (simp only: set_map)
  then show "pfx_of ` set out = set qs" by (simp only: mp set_sort)
  show "\<forall>c \<in> set out. parse_cidr c \<noteq> None"
    using al parse_cidr_string by (auto simp: out block_ok_def)
qed

lemma aggregate_spec:
  shows "(aggregate cs = Inr out \<longrightarrow>
      covered (pfx_of ` set out) = covered (pfx_of ` set cs) \<and> aligned_set (pfx_of ` set out) \<and>
      merged_set (pfx_of ` set out) \<and> sorted (map pfx_of out) \<and> distinct (map pfx_of out)) \<and>
    ((\<exists>res. aggregate cs = Inr res) \<longleftrightarrow> (\<forall>c \<in> set cs. parse_cidr c \<noteq> None))"
proof (cases "\<forall>c \<in> set cs. parse_cidr c \<noteq> None")
  case True
  note ok = aggregate_ok[OF True]
  show ?thesis using aggregate_output[OF True, of out] ok True by auto
next
  case False
  then obtain c where c: "c \<in> set cs" "parse_cidr c = None" by blast
  have "\<exists>e. parse_all cs = Inl e"
  proof -
    have "\<exists>e. foldl (\<lambda>acc c. case acc of
       Inl e \<Rightarrow> Inl e
     | Inr ps \<Rightarrow> (case parse_cidr c of
           None \<Rightarrow> Inl (ErrInvalidCIDR c)
         | Some (_, n) \<Rightarrow> Inr (List.insert (net_ip n, net_ones n) ps))) (Inr qs) cs = Inl e" for qs
      using c(1)
    proof (induction cs arbitrary: qs)
      case (Cons d ds)
      then show ?case using c(2) by (cases "parse_cidr d") (auto simp: parse_all_foldl)
    qed simp
    then show ?thesis unfolding parse_all_def by blast
  qed
  then show ?thesis using False by (auto simp: aggregate_def)
qed

text \<open>
  C29. \<open>Aggregate\<close> loses and invents no address: when every input is a CIDR it succeeds, the prefixes
  it returns cover exactly the addresses of the inputs, they are aligned, distinct and sorted by
  address, and no two of them could still be merged. An input that is not a CIDR is an error.
\<close>

theorem aggregate_covers:
  shows "(aggregate cs = Inr out \<longrightarrow>
      covered (pfx_of ` set out) = covered (pfx_of ` set cs) \<and> aligned_set (pfx_of ` set out) \<and>
      merged_set (pfx_of ` set out) \<and> sorted (map pfx_of out) \<and> distinct (map pfx_of out)) \<and>
    ((\<exists>res. aggregate cs = Inr res) \<longleftrightarrow> (\<forall>c \<in> set cs. parse_cidr c \<noteq> None))"
  by (rule aggregate_spec)

theorem aggregate_covers_witness:
  "aggregate [''10.0.0.16/28'', ''10.0.0.0/28'', ''10.0.0.64/26''] = Inr [''10.0.0.0/27'', ''10.0.0.64/26''] \<and>
   covered (pfx_of ` {''10.0.0.0/27'', ''10.0.0.64/26''}) =
     covered (pfx_of ` {''10.0.0.16/28'', ''10.0.0.0/28'', ''10.0.0.64/26''})"
proof -
  have r: "aggregate [''10.0.0.16/28'', ''10.0.0.0/28'', ''10.0.0.64/26''] = Inr [''10.0.0.0/27'', ''10.0.0.64/26'']"
    by code_simp
  show ?thesis
    using aggregate_covers[of "[''10.0.0.16/28'', ''10.0.0.0/28'', ''10.0.0.64/26'']" "[''10.0.0.0/27'', ''10.0.0.64/26'']"] r
    by simp
qed

lemma aligned_apart_card:
  assumes A: "finite A" "aligned_set A" "apart_set A" "merged_set A"
    and B: "finite B" "aligned_set B" "covered B = covered A"
  shows "card A \<le> card B"
proof -
  define f where "f b = (SOME a. a \<in> A \<and> pspan b \<subseteq> pspan a)" for b
  have f: "f b \<in> A \<and> pspan b \<subseteq> pspan (f b)" if "b \<in> B" for b
  proof -
    have "block_ok (fst b) (snd b)" "pspan b \<subseteq> covered A" using that B by (auto simp: aligned_set_def)
    then have "\<exists>a. a \<in> A \<and> pspan b \<subseteq> pspan a" using merged_set_maximal[OF A] by blast
    then show ?thesis unfolding f_def by (rule someI_ex)
  qed
  have "A \<subseteq> f ` B"
  proof
    fix a assume a: "a \<in> A"
    then have "unat (fst a) \<in> covered B" using B(3) base_in_span[of "fst a" "snd a"] by blast
    then obtain b where b: "b \<in> B" "unat (fst a) \<in> pspan b" by blast
    have "f b = a" using f[OF b(1)] b(2) a A(3) base_in_span[of "fst a" "snd a"] unfolding apart_set_def by blast
    then show "a \<in> f ` B" using b(1) by blast
  qed
  then show ?thesis using B(1) by (meson card_image_le card_mono finite_imageI order_trans)
qed

text \<open>
  On disjoint CIDRs, which is what a node's blocks are, \<open>Aggregate\<close> is minimal and independent
  of Go's map order: no set of aligned prefixes covering the same addresses is smaller, and any
  listing of the same CIDRs gives the same texts in the same order.
\<close>

lemma aggregate_minimal:
  assumes "\<forall>c \<in> set cs. parse_cidr c \<noteq> None" "apart_set (pfx_of ` set cs)" "aggregate cs = Inr out"
  shows "apart_set (pfx_of ` set out) \<and>
    (\<forall>B. finite B \<and> aligned_set B \<and> covered B = covered (pfx_of ` set cs) \<longrightarrow> length out \<le> card B) \<and>
    (\<forall>cs'. (\<forall>c \<in> set cs'. parse_cidr c \<noteq> None) \<and> pfx_of ` set cs' = pfx_of ` set cs \<longrightarrow> aggregate cs' = Inr out)"
proof -
  define qs where "qs = agg_loop (fold List.insert (map pfx_of cs) [])"
  note ok = aggregate_ok[OF assms(1), folded qs_def]
  note o = aggregate_output[OF assms(1,3), folded qs_def]
  have ap: "apart_set (set qs)" using ok(6) assms(2) by simp
  have len: "length out = card (set qs)" using o(2) ok(5) by (metis distinct_card length_map length_sort)
  have small: "length out \<le> card B" if "finite B" "aligned_set B" "covered B = covered (pfx_of ` set cs)" for B
    unfolding len using aligned_apart_card[OF _ ok(3) ap ok(4) that(1,2)] that(3) ok(2) by simp
  have order: "aggregate cs' = Inr out"
    if c: "\<forall>c \<in> set cs'. parse_cidr c \<noteq> None" "pfx_of ` set cs' = pfx_of ` set cs" for cs'
  proof -
    define rs where "rs = agg_loop (fold List.insert (map pfx_of cs') [])"
    note ok' = aggregate_ok[OF c(1), folded rs_def]
    have ap': "apart_set (set rs)" using ok'(6) assms(2) c(2) by simp
    have "set rs = set qs"
      by (rule merged_set_unique[OF _ ok'(3) ap' ok'(4) _ ok(3) ap ok(4)]) (simp_all add: ok'(2) ok(2) c(2))
    then have "sort rs = sort qs"
      using ok'(5) ok(5) by (intro sorted_distinct_set_unique) simp_all
    then show ?thesis using ok'(1) ok(1) assms(3) by simp
  qed
  have "apart_set (pfx_of ` set out)" unfolding o(1) by (rule ap)
  then show ?thesis
    by (intro conjI allI impI) (assumption, elim conjE, rule small, assumption+, elim conjE, rule order, assumption+)
qed

lemma demo_pfx:
  "pfx_of ''10.0.0.0/25'' = (167772160, 25)" "parse_cidr ''10.0.0.0/25'' \<noteq> None"
  "pfx_of ''10.0.0.128/25'' = (167772288, 25)" "parse_cidr ''10.0.0.128/25'' \<noteq> None"
  "pfx_of ''10.0.0.0/24'' = (167772160, 24)" "parse_cidr ''10.0.0.0/24'' \<noteq> None"
  "pfx_of ''10.0.1.0/24'' = (167772416, 24)" "parse_cidr ''10.0.1.0/24'' \<noteq> None"
  by (simp_all add: pfx_of_def parse_cidr_def parse_ip_def parse_octet_def parse_mask_def digit_val_def cidr_mask_def
      mask_eq_exp_minus_1)

text \<open>
  On overlapping CIDRs the result depends on the order in which Go visits its map, and it need
  not be minimal: the same four CIDRs give one prefix in one order and two, one inside the other, in
  another order.
\<close>

lemma aggregate_order_dependent:
  "aggregate [''10.0.0.0/25'', ''10.0.0.128/25'', ''10.0.0.0/24'', ''10.0.1.0/24''] =
     Inr [cidr_string 167772160 23, cidr_string 167772160 24] \<and>
   aggregate [''10.0.0.0/24'', ''10.0.1.0/24'', ''10.0.0.0/25'', ''10.0.0.128/25''] = Inr [cidr_string 167772160 23]"
proof -
  have p: "\<forall>c \<in> set [''10.0.0.0/25'', ''10.0.0.128/25'', ''10.0.0.0/24'', ''10.0.1.0/24'']. parse_cidr c \<noteq> None"
    "\<forall>c \<in> set [''10.0.0.0/24'', ''10.0.1.0/24'', ''10.0.0.0/25'', ''10.0.0.128/25'']. parse_cidr c \<noteq> None"
    using demo_pfx by simp_all
  have "sort_by pfx_less (agg_loop [(167772416, 24), (167772160, 24), (167772288, 25), (167772160, 25)]) =
       [(167772160, 23), (167772160, 24)]"
    "sort_by pfx_less (agg_loop [(167772288, 25), (167772160, 25), (167772416, 24), (167772160, 24)]) = [(167772160, 23)]" by code_simp+
  then show ?thesis using aggregate_ok(1)[OF p(1)] aggregate_ok(1)[OF p(2)]
    by (simp add: demo_pfx List.insert_def pfx_less_order sort_by_less)
qed

lemma halves_spec:
  assumes "parse_cidr c = Some (ip, n)" "net_ones n < 32"
  shows "\<exists>l u. halves c = Inr (l, u) \<and> parse_cidr l \<noteq> None \<and> parse_cidr u \<noteq> None \<and>
    pspan (pfx_of l) \<union> pspan (pfx_of u) = pspan (pfx_of c) \<and> pspan (pfx_of l) \<inter> pspan (pfx_of u) = {} \<and>
    otherHalf c l = Inr u \<and> otherHalf c u = Inr l \<and>
    (\<forall>h. h \<noteq> l \<and> h \<noteq> u \<longrightarrow> otherHalf c h = Inl (ErrNotAHalf h c)) \<and>
    aggregate [l, u] = Inr [cidr_string (net_ip n) (net_ones n)]"
proof -
  let ?x = "net_ip n" and ?m = "net_ones n"
  let ?l = "cidr_string ?x (Suc ?m)" and ?u = "cidr_string (?x + half_of ?m) (Suc ?m)"
  have ok: "block_ok ?x ?m" using pfx_of_ok[of c] assms(1) by (simp add: pfx_of_def)
  note h = block_ok_halves(1,2)[OF ok assms(2)] and s = span_halves[OF ok assms(2)]
  have hv: "halves c = Inr (?l, ?u)" using assms by (simp add: halves_def half_of_def Let_def)
  have pl: "pfx_of ?l = (?x, Suc ?m)" "pfx_of ?u = (?x + half_of ?m, Suc ?m)"
    using pfx_of_string[of "(?x, Suc ?m)"] pfx_of_string[of "(?x + half_of ?m, Suc ?m)"] h by simp_all
  have pn: "parse_cidr ?l \<noteq> None" "parse_cidr ?u \<noteq> None" using assms(2) by (simp_all add: parse_cidr_string)
  have pc: "pfx_of c = (?x, ?m)" using assms(1) by (simp add: pfx_of_def)
  have ne: "?l \<noteq> ?u" using cidr_string_inj[of "Suc ?m" "Suc ?m" ?x "?x + half_of ?m"] assms(2) half_of_nz[OF assms(2), of ?x]
    by auto
  have pp: "\<forall>d \<in> set [?l, ?u]. parse_cidr d \<noteq> None" using pn by simp
  have ap: "apart_set (pfx_of ` set [?l, ?u])" using s(2) by (auto simp: pl apart_set_def)
  obtain out where out: "aggregate [?l, ?u] = Inr out" using aggregate_ok(1)[OF pp] by blast
  define qs where "qs = agg_loop (fold List.insert (map pfx_of [?l, ?u]) [])"
  note aok = aggregate_ok[OF pp, folded qs_def]
  have cv: "covered (set qs) = covered {(?x, ?m)}" using aok(2) s(1) by (simp add: pl)
  have "set qs = {(?x, ?m)}"
  proof (rule merged_set_unique[OF _ aok(3) aok(6)[OF ap] aok(4) _ _ _ _ cv])
    show "aligned_set {(?x, ?m)}" using ok by (simp add: aligned_set_def)
    show "apart_set {(?x, ?m)}" by (simp add: apart_set_def)
    show "merged_set {(?x, ?m)}" using sibling_ne[of "(?x, ?m)"] assms(2) by (simp add: merged_set_def)
  qed simp_all
  then have "sort qs = [(?x, ?m)]"
    using sorted_distinct_set_unique[of "sort qs" "[(?x, ?m)]"] aok(5) by simp
  then have ag: "aggregate [?l, ?u] = Inr [cidr_string ?x ?m]" using aok(1) by simp
  show ?thesis
    by (intro exI[of _ ?l] exI[of _ ?u] conjI hv pn ag)
      (use hv ne s pl pc in \<open>auto simp: otherHalf_def\<close>)
qed

text \<open>
  \<open>Halves\<close> splits a block into its two buddy halves, which are disjoint and together are the
  block; it refuses exactly what is not a CIDR or is a single address. \<open>OtherHalf\<close> exchanges the two
  halves and refuses every other text, and aggregating the halves gives the block back.
\<close>

lemma halves_partition:
  assumes "parse_cidr c = Some (ip, n)" "net_ones n < 32"
  shows "\<exists>l u. halves c = Inr (l, u) \<and> parse_cidr l \<noteq> None \<and> parse_cidr u \<noteq> None \<and>
    pspan (pfx_of l) \<union> pspan (pfx_of u) = pspan (pfx_of c) \<and> pspan (pfx_of l) \<inter> pspan (pfx_of u) = {} \<and>
    otherHalf c l = Inr u \<and> otherHalf c u = Inr l \<and>
    (\<forall>h. h \<noteq> l \<and> h \<noteq> u \<longrightarrow> otherHalf c h = Inl (ErrNotAHalf h c)) \<and>
    aggregate [l, u] = Inr [cidr_string (net_ip n) (net_ones n)]"
  by (rule halves_spec[OF assms])

end
