(* ===== verification/Ipam_Types.thy ===== *)
theory Ipam_Types
  imports Aggregate
begin

text \<open>
  The API objects of the dynamic IPAM (api/v1alpha1/ipam_types.go) as far as planning, the
  controller and the node agent read or write them. \<open>NodeBlock\<close> phases are Go strings; the empty
  phase of a freshly created object is \<open>NoPhase\<close>, and \<open>OtherPhase\<close> stands for any text that is not one
  of the declared constants. Times are nanoseconds, a missing \<open>LastTransitionTime\<close> is \<open>None\<close>.
\<close>

datatype block_phase =
    NoPhase
  | NodeBlockPending
  | NodeBlockActive
  | NodeBlockDraining
  | NodeBlockQuarantined
  | NodeBlockReleased
  | OtherPhase string

record node_block =
  nb_name :: string
  nb_created :: go_time
  nb_node :: string
  nb_pool :: string
  nb_cidr :: string
  nb_drain :: bool
  nb_initial :: bool
  nb_release :: string
  nb_phase :: block_phase
  nb_used :: int
  nb_half_usage :: "int list"
  nb_release_ready :: string
  nb_reclaimed :: int
  nb_acked :: "string list"
  nb_transition :: "go_time option"

record pool_spec =
  sp_cidrs :: "string list"
  sp_min_block :: int
  sp_max_block :: int
  sp_expand :: int
  sp_trigger_floor :: int
  sp_capacity_cap :: int
  sp_initial_percent :: int
  sp_reserved :: "string list"
  sp_shrink :: int
  sp_shrink_cooldown :: int
  sp_quarantine :: int
  sp_low_water :: int
  sp_disable_shrink :: bool

record cidr_usage =
  cu_cidr :: string
  cu_state :: string
  cu_total :: int
  cu_allocated :: int

text \<open>
  What planning reads of a core/v1 Node: its name, whether it is being deleted, the allocatable pod
  count if it reports one, and its addresses as (type, address) pairs.
\<close>

record node =
  nd_name :: string
  nd_deleting :: bool
  nd_pods :: "int option"
  nd_addresses :: "(string \<times> string) list"

text \<open>\<open>withDefaults\<close>: zero values are replaced by the documented defaults.\<close>

definition def_value :: "int \<Rightarrow> int \<Rightarrow> int" where
  "def_value v d = (if v = 0 then d else v)"

definition withDefaults :: "pool_spec \<Rightarrow> pool_spec" where
  "withDefaults s = s\<lparr>
     sp_min_block := def_value (sp_min_block s) 28,
     sp_max_block := def_value (sp_max_block s) 22,
     sp_expand := def_value (sp_expand s) 80,
     sp_trigger_floor := def_value (sp_trigger_floor s) 8,
     sp_capacity_cap := def_value (sp_capacity_cap s) 120,
     sp_initial_percent := def_value (sp_initial_percent s) 25,
     sp_shrink := def_value (sp_shrink s) 50,
     sp_shrink_cooldown := def_value (sp_shrink_cooldown s) 300,
     sp_quarantine := def_value (sp_quarantine s) 60,
     sp_low_water := def_value (sp_low_water s) 10\<rparr>"

definition blockPhase :: "node_block \<Rightarrow> block_phase" where
  "blockPhase b = (if nb_phase b = NoPhase then NodeBlockPending else nb_phase b)"

definition allocatablePods :: "node \<Rightarrow> int" where
  "allocatablePods n = (case nd_pods n of Some q \<Rightarrow> if q > 0 then q else 110 | None \<Rightarrow> 110)"

definition blockAddresses :: "string \<Rightarrow> int" where
  "blockAddresses cidr = (case parse_cidr cidr of
     None \<Rightarrow> 0
   | Some (_, n) \<Rightarrow> push_bit (32 - net_ones n) 1)"

definition transitionTime :: "node_block \<Rightarrow> go_time" where
  "transitionTime b = (case nb_transition b of Some t \<Rightarrow> t | None \<Rightarrow> nb_created b)"

definition blockName :: "string \<Rightarrow> string" where
  "blockName cidr = map (\<lambda>c. if c = CHR ''.'' \<or> c = CHR ''/'' then CHR ''-'' else c) cidr"

text \<open>
  \<open>servedCIDR\<close>: the part of a block its owner hands out, the kept half while the other half is being
  given back.
\<close>

definition servedCIDR :: "node_block \<Rightarrow> string" where
  "servedCIDR b =
     (if nb_release b = [] then nb_cidr b
      else (case otherHalf (nb_cidr b) (nb_release b) of
              Inl _ \<Rightarrow> nb_cidr b
            | Inr keep \<Rightarrow> keep))"

lemma blockAddresses_eq: "blockAddresses c = (case parse_cidr c of None \<Rightarrow> 0 | Some (_, n) \<Rightarrow> int (addresses (net_ones n)))"
  by (auto simp: blockAddresses_def addresses_def push_bit_eq_mult split: option.splits)

lemma blockAddresses_nonneg [simp]: "0 \<le> blockAddresses c"
  by (auto simp: blockAddresses_eq split: option.splits)

text \<open>The addresses of a CIDR text; none when it does not parse.\<close>

definition cidr_span :: "string \<Rightarrow> nat set" where
  "cidr_span c = (case parse_cidr c of None \<Rightarrow> {} | Some (_, n) \<Rightarrow> span (net_ip n) (net_ones n))"

lemma cidr_span_pfx: "parse_cidr c \<noteq> None \<Longrightarrow> cidr_span c = span (fst (pfx_of c)) (snd (pfx_of c))"
  by (auto simp: cidr_span_def pfx_of_def)

lemma cidr_span_sub_pfx: "cidr_span c \<subseteq> span (fst (pfx_of c)) (snd (pfx_of c))"
  by (auto simp: cidr_span_def pfx_of_def split: option.splits)

lemma cidr_spans_pfx: "\<forall>c \<in> set cs. parse_cidr c \<noteq> None \<Longrightarrow> (\<Union>c \<in> set cs. cidr_span c) = covered (pfx_of ` set cs)"
  by (simp add: cidr_span_pfx)

text \<open>What \<open>aggregate\<close> does to the addresses of a list of CIDR texts.\<close>

lemma aggregate_spans:
  assumes "aggregate cs = Inr out"
  shows "(\<Union>c \<in> set out. cidr_span c) = (\<Union>c \<in> set cs. cidr_span c)" "\<forall>c \<in> set cs. parse_cidr c \<noteq> None"
    "\<forall>c \<in> set out. \<exists>b n. c = cidr_string b n \<and> block_ok b n"
proof -
  show p: "\<forall>c \<in> set cs. parse_cidr c \<noteq> None" using aggregate_spec[of cs out] assms by blast
  note ok = aggregate_ok[OF p]
  have "\<forall>c \<in> set out. parse_cidr c \<noteq> None" by (rule aggregate_output(3)[OF p assms])
  then show "(\<Union>c \<in> set out. cidr_span c) = (\<Union>c \<in> set cs. cidr_span c)"
    using aggregate_spec[of cs out] assms p by (simp add: cidr_spans_pfx)
  show "\<forall>c \<in> set out. \<exists>b n. c = cidr_string b n \<and> block_ok b n"
    using ok(1,3) assms by (auto simp: aligned_set_def)
qed

lemma otherHalf_spec:
  assumes "otherHalf c h = Inr k"
  shows "parse_cidr h \<noteq> None" "parse_cidr k \<noteq> None" "cidr_span h \<union> cidr_span k = cidr_span c"
    "cidr_span h \<inter> cidr_span k = {}"
proof -
  obtain l u where lu: "halves c = Inr (l, u)" "h = l \<and> k = u \<or> h = u \<and> k = l"
    using assms by (auto simp: otherHalf_def split: sum.splits if_splits)
  obtain ip n where n: "parse_cidr c = Some (ip, n)" "net_ones n < 32"
    using lu(1) by (auto simp: halves_def split: option.splits if_splits)
  have sp: "parse_cidr l \<noteq> None" "parse_cidr u \<noteq> None" "pspan (pfx_of l) \<union> pspan (pfx_of u) = pspan (pfx_of c)"
    "pspan (pfx_of l) \<inter> pspan (pfx_of u) = {}"
    using halves_spec[OF n] lu(1) by auto
  then have "cidr_span l \<union> cidr_span u = cidr_span c" "cidr_span l \<inter> cidr_span u = {}"
    using n(1) by (simp_all add: cidr_span_pfx)
  then show "parse_cidr h \<noteq> None" "parse_cidr k \<noteq> None" "cidr_span h \<union> cidr_span k = cidr_span c"
    "cidr_span h \<inter> cidr_span k = {}"
    using lu(2) sp(1,2) by auto
qed

text \<open>
  Filling in defaults is idempotent and changes only fields that are zero; afterwards no numeric
  field of the specification that has a default is zero.
\<close>

lemma withDefaults_idempotent:
  "withDefaults (withDefaults s) = withDefaults s \<and>
   sp_cidrs (withDefaults s) = sp_cidrs s \<and> sp_reserved (withDefaults s) = sp_reserved s \<and>
   sp_disable_shrink (withDefaults s) = sp_disable_shrink s \<and>
   (\<forall>f \<in> {sp_min_block, sp_max_block, sp_expand, sp_trigger_floor, sp_capacity_cap, sp_initial_percent,
      sp_shrink, sp_shrink_cooldown, sp_quarantine, sp_low_water}.
      f (withDefaults s) \<noteq> 0 \<and> (f s \<noteq> 0 \<longrightarrow> f (withDefaults s) = f s))"
  by (simp add: withDefaults_def def_value_def)

end
