(* ===== verification/Kube_Api.thy ===== *)
theory Kube_Api
  imports Ipam_Types
begin

text \<open>
  The API server, as the controller and the agents use it. It is not code of this repository, so it is
  a parameter: the record \<open>api\<close> of its operations on an abstract server state. What the code relies on
  is stated by \<open>api_laws\<close> over \<open>st\<close>, the NodeBlocks that the server stores by name:
  reads return what is stored and change nothing; a create succeeds only under a free name; an update
  writes the spec and leaves the status, a status update the reverse (the code creates objects with an empty
  status, so it does not matter that a create ignores the status); an operation that reports an error
  has either not happened or happened without its answer arriving. The object that a successful write
  returns is the one now stored (client-go decodes the answer into the object passed in).
\<close>

datatype api_error = NotFound | AlreadyExists | ApiConflict | ApiFailed

record 'c api =
  a_get :: "'c \<Rightarrow> string \<Rightarrow> 'c \<times> (api_error + node_block)"
  a_list :: "'c \<Rightarrow> 'c \<times> (api_error + node_block list)"
  a_create :: "'c \<Rightarrow> node_block \<Rightarrow> 'c \<times> (api_error + node_block)"
  a_update :: "'c \<Rightarrow> node_block \<Rightarrow> 'c \<times> (api_error + node_block)"
  a_update_status :: "'c \<Rightarrow> node_block \<Rightarrow> 'c \<times> (api_error + node_block)"
  a_delete :: "'c \<Rightarrow> node_block \<Rightarrow> 'c \<times> api_error option"

text \<open>\<open>client.IgnoreNotFound\<close>, on the error of a call.\<close>

definition ignore_not_found :: "api_error \<Rightarrow> api_error option" where
  "ignore_not_found e = (if e = NotFound then None else Some e)"

definition same_spec :: "node_block \<Rightarrow> node_block \<Rightarrow> bool" where
  "same_spec b c \<longleftrightarrow> nb_name c = nb_name b \<and> nb_node c = nb_node b \<and> nb_pool c = nb_pool b \<and> nb_cidr c = nb_cidr b \<and>
     nb_drain c = nb_drain b \<and> nb_initial c = nb_initial b \<and> nb_release c = nb_release b"

definition same_status :: "node_block \<Rightarrow> node_block \<Rightarrow> bool" where
  "same_status b c \<longleftrightarrow> nb_phase c = nb_phase b \<and> nb_used c = nb_used b \<and> nb_half_usage c = nb_half_usage b \<and>
     nb_release_ready c = nb_release_ready b \<and> nb_reclaimed c = nb_reclaimed b \<and> nb_acked c = nb_acked b \<and>
     nb_transition c = nb_transition b"

type_synonym store = "string \<Rightarrow> node_block option"

text \<open>The effect of a write on the store, when it has one: the object \<open>b\<close> is written as \<open>b'\<close>.\<close>

definition creates :: "store \<Rightarrow> node_block \<Rightarrow> node_block \<Rightarrow> store \<Rightarrow> bool" where
  "creates m b b' m' \<longleftrightarrow> m (nb_name b) = None \<and> same_spec b b' \<and> same_status b b' \<and> m' = m(nb_name b \<mapsto> b')"

definition updates :: "store \<Rightarrow> node_block \<Rightarrow> node_block \<Rightarrow> store \<Rightarrow> bool" where
  "updates m b b' m' \<longleftrightarrow> (\<exists>old. m (nb_name b) = Some old \<and> same_spec b b' \<and> same_status old b' \<and> m' = m(nb_name b \<mapsto> b'))"

definition updates_status :: "store \<Rightarrow> node_block \<Rightarrow> node_block \<Rightarrow> store \<Rightarrow> bool" where
  "updates_status m b b' m' \<longleftrightarrow> (\<exists>old. m (nb_name b) = Some old \<and> same_spec old b' \<and> same_status b b' \<and> m' = m(nb_name b \<mapsto> b'))"

definition write_law :: "('c \<Rightarrow> store) \<Rightarrow> ('c \<Rightarrow> node_block \<Rightarrow> 'c \<times> (api_error + node_block)) \<Rightarrow>
    (store \<Rightarrow> node_block \<Rightarrow> node_block \<Rightarrow> store \<Rightarrow> bool) \<Rightarrow> bool" where
  "write_law st op effect \<longleftrightarrow> (\<forall>s b s' r. op s b = (s', r) \<longrightarrow>
     (case r of Inr b' \<Rightarrow> effect (st s) b b' (st s') | Inl _ \<Rightarrow> st s' = st s \<or> (\<exists>b'. effect (st s) b b' (st s'))))"

definition api_laws :: "('c, 'z) api_scheme \<Rightarrow> ('c \<Rightarrow> store) \<Rightarrow> bool" where
  "api_laws A st \<longleftrightarrow>
     (\<forall>s n s' r. a_get A s n = (s', r) \<longrightarrow> st s' = st s \<and> (\<forall>b. r = Inr b \<longrightarrow> st s n = Some b \<and> nb_name b = n)) \<and>
     (\<forall>s s' r. a_list A s = (s', r) \<longrightarrow> st s' = st s \<and>
        (\<forall>bs. r = Inr bs \<longrightarrow> distinct (map nb_name bs) \<and> (\<forall>b. b \<in> set bs \<longleftrightarrow> st s (nb_name b) = Some b))) \<and>
     write_law st (a_create A) creates \<and> write_law st (a_update A) updates \<and>
     write_law st (a_update_status A) updates_status \<and>
     (\<forall>s b s' r. a_delete A s b = (s', r) \<longrightarrow> st s' = st s \<and> r \<noteq> None \<or> st s' = (st s)(nb_name b := None))"

lemma write_lawD:
  assumes "write_law st op effect" "op s b = (s', r)"
  shows "r = Inr b' \<Longrightarrow> effect (st s) b b' (st s')" "st s' = st s \<or> (\<exists>b'. effect (st s) b b' (st s'))"
  using assms unfolding write_law_def by (fastforce split: sum.splits)+

lemma api_getD:
  assumes "api_laws A st" "a_get A s n = (s', r)"
  shows "st s' = st s" "r = Inr b \<Longrightarrow> st s n = Some b \<and> nb_name b = n"
proof -
  have "\<forall>s n s' r. a_get A s n = (s', r) \<longrightarrow> st s' = st s \<and> (\<forall>b. r = Inr b \<longrightarrow> st s n = Some b \<and> nb_name b = n)"
    using assms(1) unfolding api_laws_def by (elim conjE)
  then show "st s' = st s" "r = Inr b \<Longrightarrow> st s n = Some b \<and> nb_name b = n" using assms(2) by blast+
qed

lemma api_listD:
  assumes "api_laws A st" "a_list A s = (s', r)"
  shows "st s' = st s" "r = Inr bs \<Longrightarrow> distinct (map nb_name bs) \<and> (\<forall>b. b \<in> set bs \<longleftrightarrow> st s (nb_name b) = Some b)"
proof -
  have "\<forall>s s' r. a_list A s = (s', r) \<longrightarrow> st s' = st s \<and>
        (\<forall>bs. r = Inr bs \<longrightarrow> distinct (map nb_name bs) \<and> (\<forall>b. b \<in> set bs \<longleftrightarrow> st s (nb_name b) = Some b))"
    using assms(1) unfolding api_laws_def by (elim conjE)
  then show "st s' = st s"
    "r = Inr bs \<Longrightarrow> distinct (map nb_name bs) \<and> (\<forall>b. b \<in> set bs \<longleftrightarrow> st s (nb_name b) = Some b)"
    using assms(2) by blast+
qed

lemma api_writes:
  assumes "api_laws A st"
  shows "write_law st (a_create A) creates" "write_law st (a_update A) updates"
    "write_law st (a_update_status A) updates_status"
  using assms by (simp_all add: api_laws_def)

lemmas api_createD = write_lawD[OF api_writes(1)]
lemmas api_updateD = write_lawD[OF api_writes(2)]
lemmas api_update_statusD = write_lawD[OF api_writes(3)]

lemma api_deleteD:
  assumes "api_laws A st" "a_delete A s b = (s', r)"
  shows "st s' = st s \<or> st s' = (st s)(nb_name b := None)"
proof -
  have "\<forall>s b s' r. a_delete A s b = (s', r) \<longrightarrow> st s' = st s \<and> r \<noteq> None \<or> st s' = (st s)(nb_name b := None)"
    using assms(1) unfolding api_laws_def by (elim conjE)
  then show ?thesis using assms(2) by blast
qed

subsection \<open>A concrete server\<close>

text \<open>
  A server that satisfies the laws, for the examples: a list of objects and a script that says of each
  further call whether it works, is rejected, or takes effect without an answer.
\<close>

datatype fault = Works | Rejected api_error | Unanswered api_error

record server =
  sv_blocks :: "node_block list"
  sv_faults :: "fault list"

definition sv_store :: "server \<Rightarrow> store" where
  "sv_store s n = find (\<lambda>b. nb_name b = n) (sv_blocks s)"

definition sv_fault :: "server \<Rightarrow> fault \<times> server" where
  "sv_fault s = (case sv_faults s of [] \<Rightarrow> (Works, s) | f # fs \<Rightarrow> (f, s\<lparr>sv_faults := fs\<rparr>))"

definition sv_call :: "server \<Rightarrow> ('a \<Rightarrow> server) \<Rightarrow> (server \<Rightarrow> api_error + 'a) \<Rightarrow> server \<times> (api_error + 'a)" where
  "sv_call s0 effect op =
     (case sv_fault s0 of
        (Rejected e, s) \<Rightarrow> (s, Inl e)
      | (Works, s) \<Rightarrow> (case op s of Inl e \<Rightarrow> (s, Inl e) | Inr b \<Rightarrow> ((effect b)\<lparr>sv_faults := sv_faults s\<rparr>, Inr b))
      | (Unanswered e, s) \<Rightarrow> (case op s of Inl e' \<Rightarrow> (s, Inl e') | Inr b \<Rightarrow> ((effect b)\<lparr>sv_faults := sv_faults s\<rparr>, Inl e)))"

definition sv_put :: "server \<Rightarrow> node_block \<Rightarrow> server" where
  "sv_put s b = s\<lparr>sv_blocks := (if \<exists>c \<in> set (sv_blocks s). nb_name c = nb_name b
     then map (\<lambda>c. if nb_name c = nb_name b then b else c) (sv_blocks s) else sv_blocks s @ [b])\<rparr>"

definition with_status :: "node_block \<Rightarrow> node_block \<Rightarrow> node_block" where
  "with_status b old = b\<lparr>nb_phase := nb_phase old, nb_used := nb_used old, nb_half_usage := nb_half_usage old,
     nb_release_ready := nb_release_ready old, nb_reclaimed := nb_reclaimed old, nb_acked := nb_acked old,
     nb_transition := nb_transition old\<rparr>"

definition sv_find :: "server \<Rightarrow> string \<Rightarrow> api_error + node_block" where
  "sv_find s n = (case sv_store s n of None \<Rightarrow> Inl NotFound | Some b \<Rightarrow> Inr b)"

definition server_api :: "server api" where
  "server_api = \<lparr>
     a_get = (\<lambda>s n. sv_call s (\<lambda>_. s) (\<lambda>s. sv_find s n)),
     a_list = (\<lambda>s. sv_call s (\<lambda>_. s) (\<lambda>s. Inr (filter (\<lambda>b. sv_store s (nb_name b) = Some b) (remdups (sv_blocks s))))),
     a_create = (\<lambda>s b. sv_call s (sv_put s) (\<lambda>s. if sv_store s (nb_name b) = None then Inr b else Inl AlreadyExists)),
     a_update = (\<lambda>s b. sv_call s (sv_put s) (\<lambda>s. map_sum id (with_status b) (sv_find s (nb_name b)))),
     a_update_status = (\<lambda>s b. sv_call s (sv_put s) (\<lambda>s. map_sum id (\<lambda>old. with_status old b) (sv_find s (nb_name b)))),
     a_delete = (\<lambda>s b. case sv_call s (\<lambda>_. s\<lparr>sv_blocks := filter (\<lambda>c. nb_name c \<noteq> nb_name b) (sv_blocks s)\<rparr>)
         (\<lambda>s. sv_find s (nb_name b)) of (s', Inl e) \<Rightarrow> (s', Some e) | (s', Inr _) \<Rightarrow> (s', None))\<rparr>"

lemma sv_store_faults [simp]: "sv_store (s\<lparr>sv_faults := fs\<rparr>) = sv_store s"
  by (simp add: sv_store_def fun_eq_iff)

lemma sv_store_fault [simp]: "sv_fault s = (f, s') \<Longrightarrow> sv_store s' = sv_store s"
  by (auto simp: sv_fault_def split: list.splits)

lemma sv_store_put: "sv_store (sv_put s b) = (sv_store s)(nb_name b \<mapsto> b)"
proof
  fix n
  have upd: "find (\<lambda>c. nb_name c = n) (map (\<lambda>c. if nb_name c = nb_name b then b else c) bs) =
      (if n = nb_name b \<and> (\<exists>c \<in> set bs. nb_name c = nb_name b) then Some b else find (\<lambda>c. nb_name c = n) bs)" for bs
    by (induction bs) auto
  have app: "find (\<lambda>c. nb_name c = n) (bs @ [b]) =
      (if n = nb_name b then Some b else find (\<lambda>c. nb_name c = n) bs)" if "\<not> (\<exists>c \<in> set bs. nb_name c = nb_name b)" for bs
    using that by (induction bs) auto
  show "sv_store (sv_put s b) n = ((sv_store s)(nb_name b \<mapsto> b)) n"
    using upd[of "sv_blocks s"] app[of "sv_blocks s"] by (auto simp: sv_store_def sv_put_def)
qed

lemma sv_store_name: "sv_store s n = Some b \<Longrightarrow> nb_name b = n \<and> b \<in> set (sv_blocks s)"
  by (auto simp: sv_store_def find_Some_iff)

lemma sv_call_spec:
  assumes call: "sv_call s eff op = (s', r)"
    and op: "\<And>s1 x. sv_store s1 = sv_store s \<Longrightarrow> sv_blocks s1 = sv_blocks s \<Longrightarrow> op s1 = Inr x \<Longrightarrow> P x"
  shows "case r of Inr x \<Rightarrow> P x \<and> sv_store s' = sv_store (eff x)
    | Inl _ \<Rightarrow> sv_store s' = sv_store s \<or> (\<exists>x. P x \<and> sv_store s' = sv_store (eff x))"
proof -
  obtain f s1 where f: "sv_fault s = (f, s1)" by (cases "sv_fault s")
  have b: "sv_store s1 = sv_store s" "sv_blocks s1 = sv_blocks s"
    using f by (auto simp: sv_fault_def sv_store_def fun_eq_iff split: list.splits)
  show ?thesis
  proof (cases "op s1")
    case (Inl e)
    have "\<exists>e'. (s', r) = (s1, Inl e')" unfolding call[symmetric] by (cases f) (simp_all add: sv_call_def f Inl)
    then show ?thesis using b(1) by auto
  next
    case (Inr x)
    have "P x" by (rule op[OF b Inr])
    moreover have "\<exists>e. (s', r) \<in> {(s1, Inl e), ((eff x)\<lparr>sv_faults := sv_faults s1\<rparr>, Inl e),
        ((eff x)\<lparr>sv_faults := sv_faults s1\<rparr>, Inr x)}"
      unfolding call[symmetric] by (cases f) (auto simp: sv_call_def f Inr)
    ultimately show ?thesis using b(1) by auto
  qed
qed

lemma with_status_props:
  "same_spec b (with_status b old)" "same_status old (with_status b old)" "nb_name (with_status b old) = nb_name b"
  by (simp_all add: same_spec_def same_status_def with_status_def)

lemma sv_find_Inr: "sv_find s n = Inr b \<longleftrightarrow> sv_store s n = Some b"
  by (auto simp: sv_find_def split: option.splits)

lemma server_get:
  assumes "a_get server_api s n = (s', r)"
  shows "sv_store s' = sv_store s \<and> (\<forall>b. r = Inr b \<longrightarrow> sv_store s n = Some b \<and> nb_name b = n)"
proof -
  have "case r of Inr x \<Rightarrow> sv_store s n = Some x \<and> sv_store s' = sv_store s
    | Inl _ \<Rightarrow> sv_store s' = sv_store s \<or> (\<exists>x. sv_store s n = Some x \<and> sv_store s' = sv_store s)"
    by (rule sv_call_spec[of s "\<lambda>_. s" "\<lambda>s. sv_find s n"]) (use assms in \<open>simp_all add: server_api_def sv_find_Inr\<close>)
  then show ?thesis using sv_store_name by (auto split: sum.splits)
qed

lemma server_list:
  assumes "a_list server_api s = (s', r)"
  shows "sv_store s' = sv_store s \<and>
    (\<forall>bs. r = Inr bs \<longrightarrow> distinct (map nb_name bs) \<and> (\<forall>b. b \<in> set bs \<longleftrightarrow> sv_store s (nb_name b) = Some b))"
proof -
  let ?bs = "filter (\<lambda>b. sv_store s (nb_name b) = Some b) (remdups (sv_blocks s))"
  have call: "sv_call s (\<lambda>_. s) (\<lambda>s. Inr (filter (\<lambda>b. sv_store s (nb_name b) = Some b) (remdups (sv_blocks s)))) = (s', r)"
    using assms by (simp add: server_api_def)
  have "case r of Inr x \<Rightarrow> x = ?bs \<and> sv_store s' = sv_store s
    | Inl _ \<Rightarrow> sv_store s' = sv_store s \<or> (\<exists>x. x = ?bs \<and> sv_store s' = sv_store s)"
    by (rule sv_call_spec[OF call]) simp
  then have r: "sv_store s' = sv_store s" "\<forall>bs. r = Inr bs \<longrightarrow> bs = ?bs" by (cases r; simp)+
  have "inj_on nb_name (set ?bs)"
  proof (rule inj_onI)
    fix x y assume "x \<in> set ?bs" "y \<in> set ?bs" "nb_name x = nb_name y"
    then have "sv_store s (nb_name x) = Some x" "sv_store s (nb_name x) = Some y" by simp_all
    then show "x = y" by simp
  qed
  then have "distinct (map nb_name ?bs)" by (simp add: distinct_map)
  moreover have "\<forall>b. b \<in> set ?bs \<longleftrightarrow> sv_store s (nb_name b) = Some b"
  proof
    fix b show "b \<in> set ?bs \<longleftrightarrow> sv_store s (nb_name b) = Some b" using sv_store_name[of s "nb_name b" b] by auto
  qed
  ultimately have "distinct (map nb_name ?bs) \<and> (\<forall>b. b \<in> set ?bs \<longleftrightarrow> sv_store s (nb_name b) = Some b)" by (rule conjI)
  then have "r = Inr bs \<Longrightarrow> distinct (map nb_name bs) \<and> (\<forall>b. b \<in> set bs \<longleftrightarrow> sv_store s (nb_name b) = Some b)" for bs
    using r(2) by blast
  then show ?thesis using r(1) by blast
qed

lemma server_write:
  assumes "\<And>s1 b x. op s1 b = Inr x \<Longrightarrow> nb_name x = nb_name b \<and> effect (sv_store s1) b x ((sv_store s1)(nb_name b \<mapsto> x))"
  shows "write_law sv_store (\<lambda>s b. sv_call s (sv_put s) (\<lambda>s. op s b)) effect"
  unfolding write_law_def
proof (intro allI impI)
  fix s b s' r assume call: "sv_call s (sv_put s) (\<lambda>s. op s b) = (s', r)"
  have "case r of Inr x \<Rightarrow> effect (sv_store s) b x (sv_store (sv_put s x)) \<and> sv_store s' = sv_store (sv_put s x)
    | Inl _ \<Rightarrow> sv_store s' = sv_store s \<or>
        (\<exists>x. effect (sv_store s) b x (sv_store (sv_put s x)) \<and> sv_store s' = sv_store (sv_put s x))"
    by (rule sv_call_spec[OF call]) (use assms in \<open>force simp: sv_store_put\<close>)
  then show "case r of Inr b' \<Rightarrow> effect (sv_store s) b b' (sv_store s')
    | Inl _ \<Rightarrow> sv_store s' = sv_store s \<or> (\<exists>b'. effect (sv_store s) b b' (sv_store s'))"
    by (auto split: sum.splits)
qed

lemma server_delete:
  assumes "a_delete server_api s b = (s', r)"
  shows "sv_store s' = sv_store s \<and> r \<noteq> None \<or> sv_store s' = (sv_store s)(nb_name b := None)"
proof -
  let ?eff = "s\<lparr>sv_blocks := filter (\<lambda>c. nb_name c \<noteq> nb_name b) (sv_blocks s)\<rparr>"
  have del: "sv_store ?eff = (sv_store s)(nb_name b := None)"
  proof
    fix n
    have del: "find (\<lambda>c. nb_name c = n) (filter (\<lambda>c. nb_name c \<noteq> nb_name b) bs) =
        (if n = nb_name b then None else find (\<lambda>c. nb_name c = n) bs)" for bs by (induction bs) auto
    show "sv_store ?eff n = ((sv_store s)(nb_name b := None)) n" using del[of "sv_blocks s"] by (simp add: sv_store_def)
  qed
  obtain q where c: "sv_call s (\<lambda>_. ?eff) (\<lambda>s. sv_find s (nb_name b)) = (s', q)" "r = (case q of Inl e \<Rightarrow> Some e | Inr _ \<Rightarrow> None)"
    using assms by (auto simp: server_api_def split: prod.splits sum.splits)
  have "case q of Inr x \<Rightarrow> True \<and> sv_store s' = sv_store ?eff
    | Inl _ \<Rightarrow> sv_store s' = sv_store s \<or> (\<exists>x :: node_block. True \<and> sv_store s' = sv_store ?eff)"
    by (rule sv_call_spec[OF c(1)]) simp
  then show ?thesis using c(2) del by (auto split: sum.splits)
qed

lemma server_api_laws: "api_laws server_api sv_store"
proof -
  have "write_law sv_store (\<lambda>s b. sv_call s (sv_put s) (\<lambda>s. if sv_store s (nb_name b) = None then Inr b else Inl AlreadyExists)) creates"
    by (rule server_write) (auto simp: creates_def same_spec_def same_status_def split: if_splits)
  moreover have "write_law sv_store (\<lambda>s b. sv_call s (sv_put s) (\<lambda>s. map_sum id (with_status b) (sv_find s (nb_name b)))) updates"
    by (rule server_write) (auto simp: updates_def sv_find_def with_status_props split: option.splits)
  moreover have "write_law sv_store (\<lambda>s b. sv_call s (sv_put s)
      (\<lambda>s. map_sum id (\<lambda>old. with_status old b) (sv_find s (nb_name b)))) updates_status"
    by (rule server_write)
      (auto simp: updates_status_def sv_find_def with_status_props dest: sv_store_name split: option.splits)
  moreover have "a_create server_api = (\<lambda>s b. sv_call s (sv_put s)
        (\<lambda>s. if sv_store s (nb_name b) = None then Inr b else Inl AlreadyExists))"
    "a_update server_api = (\<lambda>s b. sv_call s (sv_put s) (\<lambda>s. map_sum id (with_status b) (sv_find s (nb_name b))))"
    "a_update_status server_api = (\<lambda>s b. sv_call s (sv_put s)
        (\<lambda>s. map_sum id (\<lambda>old. with_status old b) (sv_find s (nb_name b))))"
    by (simp_all add: server_api_def)
  ultimately show ?thesis
    unfolding api_laws_def using server_get server_list server_delete by auto
qed

end
