(* ===== verification/Sizing.thy ===== *)
theory Sizing
  imports Ipam_Types
begin

text \<open>
  Sizing decisions (ipam/sizing.go): how many pod addresses a set of blocks gives, how large a node's
  first block is, when a node needs to grow and by how much. Go's \<open>int\<close> is \<open>int\<close> with division that
  truncates towards zero (\<open>sdiv\<close>); the quantities are pod counts and block sizes, far from the
  64-bit limits.
\<close>

definition blockOverhead :: int where "blockOverhead = 3"
definition minInitialAddresses :: int where "minInitialAddresses = 16"

definition usableAddresses :: "int \<Rightarrow> int" where
  "usableAddresses sz = (if sz \<le> blockOverhead then 0 else sz - blockOverhead)"

definition capacityOf :: "string list \<Rightarrow> int" where
  "capacityOf cidrs =
     (let agg = (case aggregate cidrs of Inl _ \<Rightarrow> cidrs | Inr agg \<Rightarrow> agg)
      in (\<Sum>c \<leftarrow> agg. usableAddresses (blockAddresses c)))"

definition blocksCapacity :: "node_block list \<Rightarrow> int" where
  "blocksCapacity blocks = capacityOf (map servedCIDR blocks)"

text \<open>\<open>for p < n { p <<= 1 }\<close>; the guard \<open>0 < p\<close> only serves termination, as \<open>p\<close> starts at 1.\<close>

function pow2_loop :: "int \<Rightarrow> int \<Rightarrow> int" where
  "pow2_loop p n = (if 0 < p \<and> p < n then pow2_loop (push_bit 1 p) n else p)"
  by pat_completeness auto
termination by (relation "measure (\<lambda>(p, n). nat (n - p))") (auto simp: push_bit_eq_mult)

declare pow2_loop.simps [simp del]

definition nextPow2 :: "int \<Rightarrow> int" where
  "nextPow2 n = pow2_loop 1 n"

definition initialBlockSize :: "pool_spec \<Rightarrow> int \<Rightarrow> int" where
  "initialBlockSize spec pods =
     (let want = (pods * sp_initial_percent spec + 99) sdiv 100
      in nextPow2 (max want minInitialAddresses))"

definition capacityCap :: "pool_spec \<Rightarrow> int \<Rightarrow> int" where
  "capacityCap spec pods = pods * sp_capacity_cap spec sdiv 100"

definition needsGrowth :: "pool_spec \<Rightarrow> int \<Rightarrow> int \<Rightarrow> bool" where
  "needsGrowth spec capacity used =
     (let threshold = max (sp_trigger_floor spec) (capacity * (100 - sp_expand spec) sdiv 100)
      in capacity - used < threshold)"

function capacity_search :: "pool_spec \<Rightarrow> int \<Rightarrow> int \<Rightarrow> int \<Rightarrow> int" where
  "capacity_search spec demand limit c =
     (if c < limit \<and> needsGrowth spec c demand then capacity_search spec demand limit (c + 1) else c)"
  by pat_completeness auto
termination by (relation "measure (\<lambda>(s, d, l, c). nat (l - c))") auto

declare capacity_search.simps [simp del]

definition requiredCapacity :: "pool_spec \<Rightarrow> int \<Rightarrow> int" where
  "requiredCapacity spec demand =
     capacity_search spec demand (2 * demand + sp_trigger_floor spec + 8) (demand + sp_trigger_floor spec)"

text \<open>The loop that cuts a grow back to the headroom; the guard on \<open>minBlock\<close> only serves termination.\<close>

function cut_back :: "int \<Rightarrow> int \<Rightarrow> int \<Rightarrow> int" where
  "cut_back headroom minBlock need =
     (if 0 < minBlock \<and> need \<ge> minBlock \<and> usableAddresses need > headroom
      then cut_back headroom minBlock (need - minBlock) else need)"
  by pat_completeness auto
termination by (relation "measure (\<lambda>(h, m, n). nat n)") auto

declare cut_back.simps [simp del]

definition growthNeed :: "pool_spec \<Rightarrow> int \<Rightarrow> int \<Rightarrow> int \<Rightarrow> int \<Rightarrow> int" where
  "growthNeed spec capacity demand headroom minBlock =
     (let short = max (requiredCapacity spec demand - capacity) 1;
          need = (short + blockOverhead + minBlock - 1) sdiv minBlock * minBlock;
          need = cut_back headroom minBlock need
      in if need < minBlock then 0 else need)"

subsection \<open>Loops\<close>

lemma pow2_loop_spec:
  assumes "0 < p" "p = 2 ^ i"
  shows "\<exists>k. pow2_loop p n = 2 ^ k \<and> i \<le> k \<and> n \<le> 2 ^ k \<and> (k = i \<or> 2 ^ k < 2 * n)"
  using assms
proof (induction p n arbitrary: i rule: pow2_loop.induct)
  case (1 p n)
  show ?case
  proof (cases "p < n")
    case True
    have "push_bit 1 p = 2 ^ Suc i" using "1.prems" by (simp add: push_bit_eq_mult)
    then obtain k where "pow2_loop (push_bit 1 p) n = 2 ^ k" "Suc i \<le> k" "n \<le> 2 ^ k" "k = Suc i \<or> 2 ^ k < 2 * n"
      using "1.IH"[of "Suc i"] "1.prems" True by auto
    moreover have "pow2_loop p n = pow2_loop (push_bit 1 p) n" using True "1.prems"(1) by (subst pow2_loop.simps) simp
    ultimately show ?thesis using True "1.prems"(2) by (intro exI[of _ k]) auto
  next
    case False
    then have "pow2_loop p n = p" by (subst pow2_loop.simps) simp
    then show ?thesis using "1.prems" False by (intro exI[of _ i]) auto
  qed
qed

lemma nextPow2_spec: "\<exists>k. nextPow2 n = 2 ^ k \<and> n \<le> 2 ^ k \<and> (k = 0 \<or> 2 ^ k < 2 * n)"
  using pow2_loop_spec[of 1 0 n] by (auto simp: nextPow2_def)

lemma nextPow2_least: "n \<le> 2 ^ j \<Longrightarrow> nextPow2 n \<le> 2 ^ j"
proof -
  assume n: "n \<le> 2 ^ j"
  obtain k where k: "nextPow2 n = 2 ^ k" "k = 0 \<or> 2 ^ k < 2 * n" using nextPow2_spec by blast
  show ?thesis
  proof (cases "k \<le> j")
    case True
    then show ?thesis using k by simp
  next
    case False
    then have "2 ^ Suc j \<le> (2 ^ k :: int)" by (intro power_increasing) simp_all
    moreover have "k \<noteq> 0" using False by simp
    ultimately show ?thesis using k n by simp
  qed
qed

lemma capacity_search_spec:
  "c \<le> l \<Longrightarrow> (\<forall>x. c0 \<le> x \<and> x < c \<longrightarrow> needsGrowth s x d) \<Longrightarrow> c0 \<le> c \<Longrightarrow>
   (let r = capacity_search s d l c in c \<le> r \<and> r \<le> l \<and> (r = l \<or> \<not> needsGrowth s r d) \<and>
     (\<forall>x. c0 \<le> x \<and> x < r \<longrightarrow> needsGrowth s x d))"
proof (induction s d l c rule: capacity_search.induct)
  case (1 s d l c)
  show ?case
  proof (cases "c < l \<and> needsGrowth s c d")
    case True
    then have "\<forall>x. c0 \<le> x \<and> x < c + 1 \<longrightarrow> needsGrowth s x d" using "1.prems"(2) by (metis add1_zle_eq add_le_cancel_right order_le_less)
    then show ?thesis using 1 True by (auto simp: capacity_search.simps[of s d l c] Let_def)
  next
    case False
    then show ?thesis using "1.prems" by (auto simp: capacity_search.simps[of s d l c] Let_def)
  qed
qed

lemma cut_back_spec:
  "0 < m \<Longrightarrow> \<exists>k. cut_back h m n = n - int k * m \<and> (0 \<le> n \<longrightarrow> 0 \<le> cut_back h m n) \<and>
     (m \<le> cut_back h m n \<longrightarrow> usableAddresses (cut_back h m n) \<le> h) \<and>
     (usableAddresses n \<le> h \<longrightarrow> cut_back h m n = n) \<and>
     (k > 0 \<longrightarrow> usableAddresses (cut_back h m n + m) > h)"
proof (induction h m n rule: cut_back.induct)
  case (1 h m n)
  show ?case
  proof (cases "n \<ge> m \<and> usableAddresses n > h")
    case True
    then have eq: "cut_back h m n = cut_back h m (n - m)" using 1(2) by (simp add: cut_back.simps[of h m n])
    obtain k where k: "cut_back h m (n - m) = n - m - int k * m" "0 \<le> n - m \<longrightarrow> 0 \<le> cut_back h m (n - m)"
      "m \<le> cut_back h m (n - m) \<longrightarrow> usableAddresses (cut_back h m (n - m)) \<le> h"
      "k > 0 \<longrightarrow> usableAddresses (cut_back h m (n - m) + m) > h"
      using 1 True by blast
    have "usableAddresses (cut_back h m n + m) > h"
    proof (cases "k = 0")
      case True
      then show ?thesis using k(1) eq \<open>n \<ge> m \<and> usableAddresses n > h\<close> by simp
    qed (use k eq in simp)
    then show ?thesis using k eq True by (intro exI[of _ "Suc k"]) (auto simp: algebra_simps)
  next
    case False
    then have "cut_back h m n = n" by (auto simp: cut_back.simps[of h m n])
    then show ?thesis using False by (intro exI[of _ 0]) auto
  qed
qed

lemma sdiv_nonneg: "0 \<le> x \<Longrightarrow> 0 < y \<Longrightarrow> x sdiv y = x div y" for x y :: int
  by (cases "x = 0") (simp_all add: signed_divide_int_def)

lemma needsGrowth_limit:
  assumes "50 \<le> sp_expand spec" "sp_expand spec \<le> 100" "0 \<le> sp_trigger_floor spec" "0 \<le> demand"
  shows "\<not> needsGrowth spec (2 * demand + sp_trigger_floor spec + 8) demand"
proof -
  let ?c = "2 * demand + sp_trigger_floor spec + 8"
  have "?c * (100 - sp_expand spec) \<le> ?c * 50" using assms by (intro mult_left_mono) simp_all
  then have "?c * (100 - sp_expand spec) sdiv 100 \<le> ?c - demand"
    using assms by (subst sdiv_nonneg) simp_all
  then show ?thesis using assms by (simp add: needsGrowth_def Let_def)
qed

lemma requiredCapacity_spec:
  assumes "50 \<le> sp_expand spec" "sp_expand spec \<le> 100" "0 \<le> sp_trigger_floor spec" "0 \<le> demand"
  shows "\<not> needsGrowth spec (requiredCapacity spec demand) demand"
    "c < requiredCapacity spec demand \<Longrightarrow> needsGrowth spec c demand"
    "demand + sp_trigger_floor spec \<le> requiredCapacity spec demand"
    "requiredCapacity spec demand \<le> 2 * demand + sp_trigger_floor spec + 8"
proof -
  let ?l = "2 * demand + sp_trigger_floor spec + 8" and ?c0 = "demand + sp_trigger_floor spec"
  have s: "?c0 \<le> requiredCapacity spec demand \<and> requiredCapacity spec demand \<le> ?l \<and>
    (requiredCapacity spec demand = ?l \<or> \<not> needsGrowth spec (requiredCapacity spec demand) demand) \<and>
    (\<forall>x. ?c0 \<le> x \<and> x < requiredCapacity spec demand \<longrightarrow> needsGrowth spec x demand)"
    unfolding requiredCapacity_def
    by (rule capacity_search_spec[of ?c0 ?l ?c0 spec demand, unfolded Let_def]) (use assms in auto)
  show "\<not> needsGrowth spec (requiredCapacity spec demand) demand" using s needsGrowth_limit[OF assms] by auto
  show "?c0 \<le> requiredCapacity spec demand" "requiredCapacity spec demand \<le> ?l" using s by auto
  assume "c < requiredCapacity spec demand"
  then show "needsGrowth spec c demand" using s
    by (cases "?c0 \<le> c") (auto simp: needsGrowth_def Let_def)
qed

definition demo_spec :: pool_spec where
  "demo_spec = withDefaults \<lparr>sp_cidrs = [''10.0.0.0/24''], sp_min_block = 28, sp_max_block = 24, sp_expand = 0,
     sp_trigger_floor = 0, sp_capacity_cap = 0, sp_initial_percent = 0, sp_reserved = [], sp_shrink = 0,
     sp_shrink_cooldown = 0, sp_quarantine = 0, sp_low_water = 0, sp_disable_shrink = False\<rparr>"

lemma demo_spec_simps [simp]:
  "sp_cidrs demo_spec = [''10.0.0.0/24'']" "sp_min_block demo_spec = 28" "sp_max_block demo_spec = 24"
  "sp_expand demo_spec = 80" "sp_trigger_floor demo_spec = 8" "sp_capacity_cap demo_spec = 120"
  "sp_initial_percent demo_spec = 25" "sp_reserved demo_spec = []" "sp_shrink demo_spec = 50"
  "sp_shrink_cooldown demo_spec = 300" "sp_quarantine demo_spec = 60" "sp_low_water demo_spec = 10"
  "sp_disable_shrink demo_spec = False"
  by (simp_all add: demo_spec_def withDefaults_def def_value_def)

text \<open>
  A node's first block has a power-of-two size of at least 16 addresses and at least the
  configured share of the allocatable pods, and it is the smallest such size.
\<close>

lemma initialBlockSize_least:
  assumes "0 \<le> pods" "0 \<le> sp_initial_percent spec"
  shows "(\<exists>k. initialBlockSize spec pods = 2 ^ k) \<and> 16 \<le> initialBlockSize spec pods \<and>
    pods * sp_initial_percent spec \<le> initialBlockSize spec pods * 100 \<and>
    (\<forall>j. 16 \<le> (2 ^ j :: int) \<and> pods * sp_initial_percent spec \<le> 2 ^ j * 100 \<longrightarrow> initialBlockSize spec pods \<le> 2 ^ j)"
proof -
  let ?x = "pods * sp_initial_percent spec" and ?w = "(pods * sp_initial_percent spec + 99) div 100"
  have x: "0 \<le> ?x" using assms by simp
  have eq: "initialBlockSize spec pods = nextPow2 (max ?w 16)"
    using x by (simp add: initialBlockSize_def Let_def sdiv_nonneg minInitialAddresses_def)
  have ceil: "?w \<le> m \<longleftrightarrow> ?x \<le> m * 100" for m by linarith
  obtain k where k: "nextPow2 (max ?w 16) = 2 ^ k" "max ?w 16 \<le> 2 ^ k" using nextPow2_spec by blast
  then have "16 \<le> (2 ^ k :: int)" "?x \<le> 2 ^ k * 100" using ceil[of "2 ^ k"] by auto
  then show ?thesis using k eq nextPow2_least[of "max ?w 16"] ceil by auto
qed

text \<open>
  \<open>requiredCapacity\<close> is exactly the smallest capacity that does not trigger a grow: at it
  \<open>needsGrowth\<close> is false and below it \<open>needsGrowth\<close> is true, for every growth threshold the API admits.
\<close>

lemma requiredCapacity_least:
  assumes "50 \<le> sp_expand spec" "sp_expand spec \<le> 100" "0 \<le> sp_trigger_floor spec" "0 \<le> demand"
  shows "\<not> needsGrowth spec (requiredCapacity spec demand) demand \<and>
    (\<forall>c < requiredCapacity spec demand. needsGrowth spec c demand)"
  using requiredCapacity_spec(1,2)[OF assms] by blast

lemma needsGrowth_mono:
  assumes "\<not> needsGrowth spec c d" "c \<le> c'" "0 \<le> c" "0 \<le> sp_expand spec" "sp_expand spec \<le> 100"
  shows "\<not> needsGrowth spec c' d"
proof -
  let ?q = "100 - sp_expand spec"
  have "(c' - c) * ?q \<le> (c' - c) * 100" using assms by (intro mult_left_mono) simp_all
  then have "c' * ?q \<le> c * ?q + (c' - c) * 100" by (simp add: algebra_simps)
  then have "c' * ?q div 100 \<le> (c * ?q + (c' - c) * 100) div 100" by (intro zdiv_mono1) simp_all
  also have "\<dots> = c * ?q div 100 + (c' - c)" by simp
  finally have "c' * ?q sdiv 100 \<le> c * ?q sdiv 100 + (c' - c)" using assms by (simp add: sdiv_nonneg)
  then show ?thesis using assms(1,2) by (simp add: needsGrowth_def Let_def)
qed

lemma growthNeed_spec:
  fixes capacity demand headroom :: int and spec :: pool_spec
  assumes m: "3 < minBlock"
  defines "short \<equiv> max (requiredCapacity spec demand - capacity) 1"
    and "g \<equiv> growthNeed spec capacity demand headroom minBlock"
  shows "minBlock dvd g" "0 \<le> g" "g \<noteq> 0 \<Longrightarrow> minBlock \<le> g \<and> usableAddresses g \<le> headroom"
    "g < short + blockOverhead + minBlock"
    "g < short + blockOverhead \<Longrightarrow> headroom < usableAddresses (g + minBlock)"
proof -
  define q where "q = (short + blockOverhead + minBlock - 1) div minBlock"
  have short: "1 \<le> short" by (simp add: short_def)
  have sd: "(short + blockOverhead + minBlock - 1) sdiv minBlock = q"
    using short m by (simp add: q_def sdiv_nonneg blockOverhead_def)
  define n where "n = q * minBlock"
  have e: "n = (short + blockOverhead + minBlock - 1) - (short + blockOverhead + minBlock - 1) mod minBlock"
    by (simp add: n_def q_def minus_mod_eq_div_mult)
  have "0 \<le> (short + blockOverhead + minBlock - 1) mod minBlock" "(short + blockOverhead + minBlock - 1) mod minBlock < minBlock"
    using m by simp_all
  then have n: "short + blockOverhead \<le> n" "n < short + blockOverhead + minBlock" using e by linarith+
  obtain k where k: "cut_back headroom minBlock n = n - int k * minBlock" "0 \<le> cut_back headroom minBlock n"
    "minBlock \<le> cut_back headroom minBlock n \<Longrightarrow> usableAddresses (cut_back headroom minBlock n) \<le> headroom"
    "k > 0 \<Longrightarrow> usableAddresses (cut_back headroom minBlock n + minBlock) > headroom"
    using cut_back_spec[of minBlock headroom n] m n(1) short by (auto simp: blockOverhead_def)
  let ?c = "cut_back headroom minBlock n"
  have g: "g = (if ?c < minBlock then 0 else ?c)"
    by (simp add: g_def growthNeed_def Let_def sd n_def flip: short_def)
  have "?c = (q - int k) * minBlock" using k(1) by (simp add: n_def left_diff_distrib)
  then have dv: "minBlock dvd ?c" by simp
  then have c0: "?c < minBlock \<Longrightarrow> ?c = 0" using k(2) m by (metis zdvd_not_zless order_le_less)
  have gc: "g = ?c" using g c0 by auto
  have "int k * minBlock \<ge> 0" using m by simp
  then have le: "?c \<le> n" using k(1) by simp
  show "minBlock dvd g" "0 \<le> g" using gc dv k(2) by simp_all
  show "g \<noteq> 0 \<Longrightarrow> minBlock \<le> g \<and> usableAddresses g \<le> headroom" using gc k(3) c0 by force
  show "g < short + blockOverhead + minBlock" using gc le n(2) by simp
  show "g < short + blockOverhead \<Longrightarrow> headroom < usableAddresses (g + minBlock)"
    using gc k(1,4) n(1) by (cases "k = 0") auto
qed

text \<open>
  C38. \<open>growthNeed\<close> is zero or a positive multiple of the minimum block whose usable size fits the
  headroom under the node's cap, and exceeds what is missing by less than one minimum block and the
  three reserved addresses. Unless the cap cuts it back, adding it makes the grow trigger false; and
  it is cut back only as far as the cap demands.
\<close>

theorem growthNeed_bounds:
  fixes capacity :: int
  assumes "50 \<le> sp_expand spec" "sp_expand spec \<le> 100" "0 \<le> sp_trigger_floor spec" "0 \<le> demand" "3 < minBlock"
    and "g = growthNeed spec capacity demand headroom minBlock" "short = max (requiredCapacity spec demand - capacity) 1"
  shows "minBlock dvd g \<and> 0 \<le> g \<and> (g \<noteq> 0 \<longrightarrow> minBlock \<le> g \<and> usableAddresses g \<le> headroom) \<and>
    g < short + blockOverhead + minBlock \<and>
    (short + blockOverhead \<le> g \<longrightarrow> \<not> needsGrowth spec (capacity + usableAddresses g) demand) \<and>
    (g < short + blockOverhead \<longrightarrow> headroom < usableAddresses (g + minBlock))"
proof -
  note s = growthNeed_spec[OF assms(5), where spec = spec and capacity = capacity and demand = demand
      and headroom = headroom, folded assms(6,7)]
  note r = requiredCapacity_spec[OF assms(1-4)]
  have "\<not> needsGrowth spec (capacity + usableAddresses g) demand" if g: "short + blockOverhead \<le> g"
  proof (rule needsGrowth_mono[OF r(1)])
    have "1 \<le> short" "requiredCapacity spec demand - capacity \<le> short" by (simp_all add: assms(7))
    then show "requiredCapacity spec demand \<le> capacity + usableAddresses g"
      using g by (simp add: usableAddresses_def blockOverhead_def)
  qed (use assms(1-4) r(3) in simp_all)
  then show ?thesis using s by blast
qed

theorem growthNeed_bounds_witness:
  "growthNeed demo_spec 29 40 71 16 = 32 \<and> \<not> needsGrowth demo_spec 58 40"
proof -
  have g: "growthNeed demo_spec 29 40 71 16 = 32" "requiredCapacity demo_spec 40 = 49" by code_simp+
  show ?thesis
    using growthNeed_bounds[of demo_spec 40 16 32 29 71 20] g by (simp add: usableAddresses_def blockOverhead_def)
qed

end
