(* ===== verification/Plan.thy ===== *)
theory Plan
  imports Sizing Pool
begin

text \<open>
  Planning (ipam/plan.go): from the pool specification, the nodes and the NodeBlocks of the cluster,
  which blocks to create, drain, split, quarantine or delete. Problems, which the code formats as
  text for the pool status, are values. Go maps that are only read are functions with the zero value
  for missing keys; \<open>byNode\<close> is the sublist of a node's blocks in the order they are listed. A pointer
  comparison \<open>b == c\<close> of NodeBlocks is equality: names are unique in the API server.
\<close>

datatype reason = Initial | Grow | GrowInPlace | GrowBeside

record planned_block =
  pb_node :: string
  pb_cidr :: string
  pb_reason :: reason

datatype problem =
    InvalidCIDR string
  | OverlapsReserved string ipnet
  | ContainsNodeIP string string string
  | CannotAdd error
  | CannotPlace string string error
  | NoInitialBlock string error
  | CapacityCapReached string int int
  | CannotGrow string error
  | LowOnAddresses int

record half_release =
  hr_name :: string
  hr_half :: string

record pool_plan =
  pp_pool :: pool
  pp_new :: "planned_block list"
  pp_problems :: "problem list"
  pp_exhausted :: bool
  pp_pending :: bool
  pp_drain :: "string list"
  pp_undrain :: "string list"
  pp_quarantine :: "string list"
  pp_delete :: "string list"
  pp_release :: "half_release list"
  pp_unrelease :: "string list"
  pp_split :: "string list"
  pp_cidrs :: "cidr_usage list"

record plan_input =
  in_now :: go_time
  in_starved :: "string \<Rightarrow> go_time"
  in_last_change :: "string \<Rightarrow> go_time"
  in_waiting :: "string \<Rightarrow> int"
  in_pods :: "string \<Rightarrow> int"

text \<open>\<open>validCIDRs\<close> and \<open>buildPool\<close>.\<close>

definition reserved_nets :: "pool_spec \<Rightarrow> ipnet list" where
  "reserved_nets spec = concat (map (\<lambda>r. case parse_cidr r of Some (_, n) \<Rightarrow> [n] | None \<Rightarrow> []) (sp_reserved spec))"

definition node_conflict :: "string \<Rightarrow> ipnet \<Rightarrow> node list \<Rightarrow> problem option" where
  "node_conflict c n nds =
     foldl (\<lambda>bad nd. foldl (\<lambda>bad (ty, address).
         if ty \<noteq> ''InternalIP'' then bad
         else (case parse_ip address of
                 Some ip \<Rightarrow> if net_contains n ip then Some (ContainsNodeIP c address (nd_name nd)) else bad
               | None \<Rightarrow> bad)) bad (nd_addresses nd)) None nds"

definition cidr_problem :: "pool_spec \<Rightarrow> node list \<Rightarrow> string \<Rightarrow> problem option" where
  "cidr_problem spec nds c =
     (case parse_cidr c of
        None \<Rightarrow> Some (InvalidCIDR c)
      | Some (_, n) \<Rightarrow>
          (case find (\<lambda>r. net_contains r (net_ip n) \<or> net_contains n (net_ip r)) (reserved_nets spec) of
             Some r \<Rightarrow> Some (OverlapsReserved c r)
           | None \<Rightarrow> node_conflict c n nds))"

definition validCIDRs :: "pool_spec \<Rightarrow> node list \<Rightarrow> string list \<times> problem list" where
  "validCIDRs spec nds =
     foldl (\<lambda>(ok, problems) c. case cidr_problem spec nds c of
         Some bad \<Rightarrow> (ok, problems @ [bad])
       | None \<Rightarrow> (ok @ [c], problems)) ([], []) (sp_cidrs spec)"

fun add_cidrs :: "pool_spec \<Rightarrow> pool \<Rightarrow> problem list \<Rightarrow> string list \<Rightarrow> pool \<times> problem list" where
  "add_cidrs spec p problems [] = (p, problems)"
| "add_cidrs spec p problems (c # cs) =
     (case addCIDR p c (sp_min_block spec) (sp_max_block spec) of
        (p', None) \<Rightarrow> add_cidrs spec p' problems cs
      | (p', Some e) \<Rightarrow> add_cidrs spec p' (problems @ [CannotAdd e]) cs)"

fun place_blocks :: "pool \<Rightarrow> problem list \<Rightarrow> node_block list \<Rightarrow> pool \<times> problem list" where
  "place_blocks p problems [] = (p, problems)"
| "place_blocks p problems (b # bs) =
     (if blockPhase b = NodeBlockReleased then place_blocks p problems bs
      else (case pool_reserve p (nb_cidr b) (nb_node b) of
              (p', Inr _) \<Rightarrow> place_blocks p' problems bs
            | (p', Inl e) \<Rightarrow> place_blocks p' (problems @ [CannotPlace (nb_name b) (nb_cidr b) e]) bs))"

definition buildPool :: "pool_spec \<Rightarrow> node list \<Rightarrow> node_block list \<Rightarrow> pool \<times> problem list" where
  "buildPool spec nds blocks =
     (case validCIDRs spec nds of
        (cidrs, problems) \<Rightarrow>
          (case add_cidrs spec newPool problems cidrs of
             (p, problems) \<Rightarrow> place_blocks p problems (sort_by (\<lambda>a b. nb_cidr a < nb_cidr b) blocks)))"

text \<open>\<open>classify\<close> and \<open>completeSplits\<close>.\<close>

record node_blocks =
  ns_used :: int
  ns_in_flight :: bool
  ns_active :: "bref list"
  ns_active_blocks :: "node_block list"
  ns_draining :: "node_block list"
  ns_releasing :: "node_block list"

definition classify_step :: "pool \<Rightarrow> node_blocks \<Rightarrow> node_block \<Rightarrow> node_blocks" where
  "classify_step p st b =
     (case blockPhase b of
        NodeBlockActive \<Rightarrow>
          if nb_drain b then st\<lparr>ns_draining := ns_draining st @ [b]\<rparr>
          else
            (let st = st\<lparr>ns_used := ns_used st + nb_used b, ns_active_blocks := ns_active_blocks st @ [b]\<rparr>;
                 st = (if nb_release b \<noteq> [] then st\<lparr>ns_releasing := ns_releasing st @ [b]\<rparr> else st)
             in case pool_find p (nb_cidr b) of
                  Some found \<Rightarrow> st\<lparr>ns_active := ns_active st @ [ref_of found]\<rparr>
                | None \<Rightarrow> st)
      | NodeBlockPending \<Rightarrow> st\<lparr>ns_in_flight := True\<rparr>
      | NodeBlockDraining \<Rightarrow>
          if nb_drain b then st\<lparr>ns_draining := ns_draining st @ [b]\<rparr> else st\<lparr>ns_in_flight := True\<rparr>
      | _ \<Rightarrow> st)"

definition classify :: "pool \<Rightarrow> node_block list \<Rightarrow> node_blocks" where
  "classify p owned = foldl (classify_step p)
     \<lparr>ns_used = 0, ns_in_flight = False, ns_active = [], ns_active_blocks = [], ns_draining = [], ns_releasing = []\<rparr>
     owned"

definition split_ready :: "node_block \<Rightarrow> bool" where
  "split_ready b \<longleftrightarrow> nb_release_ready b \<noteq> [] \<and> nb_release_ready b = nb_release b"

definition completeSplits :: "pool_plan \<Rightarrow> node_block list \<Rightarrow> pool_plan \<times> bool" where
  "completeSplits plan releasing =
     (plan\<lparr>pp_split := pp_split plan @ map nb_name (filter split_ready releasing)\<rparr>, list_ex split_ready releasing)"

text \<open>\<open>starved\<close> and \<open>latestChange\<close>.\<close>

definition starveGrace :: duration where
  "starveGrace = 5 * second"

definition starved :: "go_time \<Rightarrow> node_block list \<Rightarrow> go_time \<Rightarrow> bool" where
  "starved t owned lastChange \<longleftrightarrow>
     \<not> (t = 0) \<and> \<not> (lastChange \<noteq> 0 \<and> t < lastChange + starveGrace) \<and>
     \<not> list_ex (\<lambda>b. t < transitionTime b + starveGrace) owned"

definition latestChange :: "node_block list \<Rightarrow> go_time" where
  "latestChange owned = foldl (\<lambda>t b. if transitionTime b > t then transitionTime b else t) 0 owned"

text \<open>\<open>startingBlock\<close>, \<open>shrinkCandidate\<close>, \<open>splitCandidate\<close>.\<close>

fun starting_loop :: "node_block option \<Rightarrow> node_block list \<Rightarrow> string" where
  "starting_loop oldest [] = (case oldest of None \<Rightarrow> [] | Some old \<Rightarrow> nb_name old)"
| "starting_loop oldest (b # bs) =
     (if nb_initial b then nb_name b
      else if blockPhase b = NodeBlockQuarantined \<or> blockPhase b = NodeBlockReleased then starting_loop oldest bs
      else if nb_drain b then starting_loop oldest bs
      else (case oldest of
              None \<Rightarrow> starting_loop (Some b) bs
            | Some old \<Rightarrow>
                if nb_created b < nb_created old \<or> (nb_created b = nb_created old \<and> nb_name b < nb_name old)
                then starting_loop (Some b) bs else starting_loop oldest bs))"

definition startingBlock :: "node_block list \<Rightarrow> string" where
  "startingBlock owned = starting_loop None owned"

definition keeps_enough :: "pool_spec \<Rightarrow> int \<Rightarrow> int \<Rightarrow> int \<Rightarrow> bool" where
  "keeps_enough spec floor used rest \<longleftrightarrow>
     \<not> (rest < floor \<or> used * 100 > sp_shrink spec * rest \<or> needsGrowth spec rest used)"

definition shrink_before :: "node_block \<Rightarrow> node_block \<Rightarrow> bool" where
  "shrink_before a b =
     (if nb_used a \<noteq> nb_used b then nb_used a < nb_used b
      else if blockAddresses (nb_cidr a) \<noteq> blockAddresses (nb_cidr b)
           then blockAddresses (nb_cidr a) < blockAddresses (nb_cidr b)
      else nb_cidr a < nb_cidr b)"

definition shrinkable :: "pool_spec \<Rightarrow> int \<Rightarrow> int \<Rightarrow> node_block list \<Rightarrow> string \<Rightarrow> go_time \<Rightarrow> node_block \<Rightarrow> bool" where
  "shrinkable spec floor used active first now c \<longleftrightarrow>
     \<not> (nb_name c = first \<or> now - transitionTime c < sp_shrink_cooldown spec * second) \<and>
     keeps_enough spec floor used (blocksCapacity (filter (\<lambda>b. b \<noteq> c) active))"

definition shrinkCandidate ::
  "pool_spec \<Rightarrow> int \<Rightarrow> int \<Rightarrow> node_block list \<Rightarrow> string \<Rightarrow> go_time \<Rightarrow> string" where
  "shrinkCandidate spec pods used active first now =
     (if length active < 2 then []
      else (case find (shrinkable spec (usableAddresses (initialBlockSize spec pods)) used active first now)
                   (sort_by shrink_before active) of
              Some c \<Rightarrow> nb_name c
            | None \<Rightarrow> []))"

definition split_before :: "node_block \<Rightarrow> node_block \<Rightarrow> bool" where
  "split_before a b =
     (if blockAddresses (nb_cidr a) \<noteq> blockAddresses (nb_cidr b)
      then blockAddresses (nb_cidr b) < blockAddresses (nb_cidr a)
      else nb_cidr a < nb_cidr b)"

text \<open>The half to give back and the half to keep, if the block may be split at all.\<close>

definition empty_half :: "pool_spec \<Rightarrow> string \<Rightarrow> int \<Rightarrow> go_time \<Rightarrow> node_block \<Rightarrow> (string \<times> string) option" where
  "empty_half spec first minAddrs now c =
     (if nb_name c = first \<or> nb_release c \<noteq> [] \<or> blockAddresses (nb_cidr c) \<le> minAddrs \<or>
         length (nb_half_usage c) \<noteq> 2 \<or> now - transitionTime c < sp_shrink_cooldown spec * second then None
      else (case halves (nb_cidr c) of
              Inl _ \<Rightarrow> None
            | Inr (lower, upper) \<Rightarrow>
                if nb_half_usage c ! 1 = 0 then Some (upper, lower)
                else if nb_half_usage c ! 0 = 0 then Some (lower, upper)
                else None))"

fun split_loop ::
  "pool_spec \<Rightarrow> int \<Rightarrow> int \<Rightarrow> node_block list \<Rightarrow> string \<Rightarrow> int \<Rightarrow> go_time \<Rightarrow> node_block list \<Rightarrow> string \<times> string" where
  "split_loop spec floor used active first minAddrs now [] = ([], [])"
| "split_loop spec floor used active first minAddrs now (c # cs) =
     (case empty_half spec first minAddrs now c of
        None \<Rightarrow> split_loop spec floor used active first minAddrs now cs
      | Some (half, keep) \<Rightarrow>
          if keeps_enough spec floor used (capacityOf (keep # map servedCIDR (filter (\<lambda>b. b \<noteq> c) active)))
          then (nb_name c, half)
          else split_loop spec floor used active first minAddrs now cs)"

definition splitCandidate ::
  "pool_spec \<Rightarrow> int \<Rightarrow> int \<Rightarrow> node_block list \<Rightarrow> string \<Rightarrow> int \<Rightarrow> go_time \<Rightarrow> string \<times> string" where
  "splitCandidate spec pods used active first minAddrs now =
     split_loop spec (usableAddresses (initialBlockSize spec pods)) used active first minAddrs now
       (sort_by split_before active)"

lemma shrinkCandidate_in:
  assumes "shrinkCandidate spec pods used active first now \<noteq> []"
  shows "\<exists>c \<in> set active. nb_name c = shrinkCandidate spec pods used active first now"
proof -
  let ?P = "shrinkable spec (usableAddresses (initialBlockSize spec pods)) used active first now"
  obtain c where "find ?P (sort_by shrink_before active) = Some c"
    "shrinkCandidate spec pods used active first now = nb_name c"
    using assms by (auto simp: shrinkCandidate_def split: option.splits if_splits)
  then show ?thesis using find_SomeD[of ?P "sort_by shrink_before active" c] by auto
qed

text \<open>\<open>shrinkNode\<close>: drain whole blocks as long as there is a candidate, or else split one block.\<close>

function drain_loop ::
  "pool_spec \<Rightarrow> int \<Rightarrow> int \<Rightarrow> node_block list \<Rightarrow> string \<Rightarrow> go_time \<Rightarrow> string list \<times> node_block list" where
  "drain_loop spec pods demand active first now =
     (let name = shrinkCandidate spec pods demand active first now in
      if name = [] then ([], active)
      else (case drain_loop spec pods demand (filter (\<lambda>b. nb_name b \<noteq> name) active) first now of
              (drained, rest) \<Rightarrow> (name # drained, rest)))"
  by pat_completeness auto
termination
proof (relation "measure (\<lambda>(s, p, d, active, f, n). length active)")
  fix spec pods demand active first now name
  assume n: "name = shrinkCandidate spec pods demand active first now" "name \<noteq> []"
  obtain c where "c \<in> set active" "nb_name c = name" using shrinkCandidate_in n by metis
  then have "length (filter (\<lambda>b. nb_name b \<noteq> name) active) < length active" by (intro length_filter_less) auto
  then show "((spec, pods, demand, filter (\<lambda>b. nb_name b \<noteq> name) active, first, now), spec, pods, demand, active, first, now)
      \<in> measure (\<lambda>(s, p, d, active, f, n). length active)" by simp
qed simp

declare drain_loop.simps [simp del]

definition shrinkNode ::
  "pool_plan \<Rightarrow> pool_spec \<Rightarrow> node_block list \<Rightarrow> int \<Rightarrow> int \<Rightarrow> int \<Rightarrow> node_block list \<Rightarrow> node_block list \<Rightarrow>
   int \<Rightarrow> go_time \<Rightarrow> pool_plan" where
  "shrinkNode plan spec owned pods used podCount activeBlocks draining minAddrs now =
     (let demand = used + (\<Sum>d \<leftarrow> draining. nb_used d);
          demand = max demand podCount;
          first = startingBlock owned
      in case drain_loop spec pods demand activeBlocks first now of
           (drained, activeBlocks) \<Rightarrow>
             (let plan = plan\<lparr>pp_drain := pp_drain plan @ drained\<rparr> in
              if drained \<noteq> [] then plan
              else (case splitCandidate spec pods demand activeBlocks first minAddrs now of
                      (name, half) \<Rightarrow>
                        if name \<noteq> [] then plan\<lparr>pp_release := pp_release plan @ [\<lparr>hr_name = name, hr_half = half\<rparr>]\<rparr>
                        else plan)))"

text \<open>
  \<open>growNode\<close>: at most eight steps (\<open>steps\<close> is what is left of them), each taking a piece next to a block
  of the node, or else the whole rest from the pool. The last component of the result tells the early
  return of the Go function from the end of its loop.
\<close>

fun take_beside :: "pool \<Rightarrow> bref list \<Rightarrow> int \<Rightarrow> string \<Rightarrow> pool \<times> (bref \<times> bref) option" where
  "take_beside p [] piece node = (p, None)"
| "take_beside p (b # bs) piece node =
     (case pool_allocateFromBuddy p b piece node of
        (p', Inl _) \<Rightarrow> take_beside p' bs piece node
      | (p', Inr got) \<Rightarrow> (p', Some (got, b)))"

definition block_new :: "string \<Rightarrow> reason \<Rightarrow> bref \<Rightarrow> planned_block" where
  "block_new node why b = \<lparr>pb_node = node, pb_cidr = block_cidr b, pb_reason = why\<rparr>"

fun grow_loop ::
  "nat \<Rightarrow> pool_spec \<Rightarrow> string \<Rightarrow> int \<Rightarrow> int \<Rightarrow> int \<Rightarrow> int \<Rightarrow> int \<Rightarrow> pool_plan \<Rightarrow> bref list \<Rightarrow> string list \<Rightarrow> int \<Rightarrow> nat \<Rightarrow>
   pool_plan \<times> nat \<times> bool" where
  "grow_loop 0 spec node pods limit required demand minAddrs plan active cidrs have added = (plan, added, False)"
| "grow_loop (Suc steps) spec node pods limit required demand minAddrs plan active cidrs have added =
     (if \<not> (added = 0 \<or> have < required) then (plan, added, False)
      else
        (let need = growthNeed spec have demand (limit - have) minAddrs in
         if need = 0 then
           (if added = 0
            then plan\<lparr>pp_problems := pp_problems plan @ [CapacityCapReached node (sp_capacity_cap spec) pods]\<rparr>
            else plan, added, True)
         else
           (let active = sort_by (\<lambda>a b. addresses (snd b) < addresses (snd a)) active;
                piece = push_bit (bits_len (nat need) - 1) 1
            in case take_beside (pp_pool plan) active piece node of
                 (p, Some (got, b)) \<Rightarrow>
                   (let why = (if addresses (snd got) < addresses (snd b) then GrowBeside else GrowInPlace);
                        plan = plan\<lparr>pp_pool := p, pp_new := pp_new plan @ [block_new node why got]\<rparr>;
                        cidrs = cidrs @ [block_cidr got]
                    in grow_loop steps spec node pods limit required demand minAddrs plan active cidrs
                         (capacityOf cidrs) (added + 1))
               | (p, None) \<Rightarrow>
                   (case allocateDemand p need node of
                      (p, Inl e) \<Rightarrow>
                        (plan\<lparr>pp_pool := p, pp_exhausted := True, pp_problems := pp_problems plan @ [CannotGrow node e]\<rparr>,
                         added, False)
                    | (p, Inr got) \<Rightarrow>
                        (plan\<lparr>pp_pool := p, pp_new := pp_new plan @ map (block_new node Grow) got\<rparr>,
                         added + 1, False)))))"

definition growNode ::
  "pool_plan \<Rightarrow> pool_spec \<Rightarrow> string \<Rightarrow> int \<Rightarrow> int \<Rightarrow> int \<Rightarrow> int \<Rightarrow> bref list \<Rightarrow> pool_plan" where
  "growNode plan spec node pods capacity demand minAddrs active =
     (case grow_loop 8 spec node pods (capacityCap spec pods) (requiredCapacity spec demand) demand minAddrs
             plan active (map block_cidr active) capacity 0 of
        (plan, added, returned) \<Rightarrow>
          if \<not> returned \<and> added > 0 then plan\<lparr>pp_pending := True\<rparr> else plan)"

text \<open>\<open>cidrUsage\<close> and \<open>lowWater\<close>.\<close>

definition cidrUsage :: "pool_spec \<Rightarrow> node list \<Rightarrow> node_block list \<Rightarrow> cidr_usage list" where
  "cidrUsage spec nds blocks =
     map (\<lambda>c. let total = blockAddresses c;
                  allocated = (\<Sum>b \<leftarrow> filter (\<lambda>b. blockPhase b \<noteq> NodeBlockReleased \<and>
                      (case (parse_cidr c, parse_cidr (nb_cidr b)) of
                         (Some (_, pn), Some (ip, _)) \<Rightarrow> net_contains pn ip
                       | _ \<Rightarrow> False)) blocks. blockAddresses (nb_cidr b))
              in \<lparr>cu_cidr = c,
                  cu_state = (if allocated = 0 then ''Standby'' else if allocated \<ge> total then ''Full'' else ''Active''),
                  cu_total = total, cu_allocated = allocated\<rparr>)
       (fst (validCIDRs spec nds))"

definition lowWater :: "pool_spec \<Rightarrow> cidr_usage list \<Rightarrow> bool" where
  "lowWater spec u =
     (let total = (\<Sum>c \<leftarrow> u. cu_total c); alloc = (\<Sum>c \<leftarrow> u. cu_allocated c)
      in total > 0 \<and> (total - alloc) * 100 < sp_low_water spec * total)"

text \<open>\<open>planPool\<close>: the pass over the blocks, the step for one node, and the whole.\<close>

definition plan_blocks :: "pool_spec \<Rightarrow> node list \<Rightarrow> node_block list \<Rightarrow> go_time \<Rightarrow> pool_plan \<Rightarrow> pool_plan" where
  "plan_blocks spec nds blocks now plan =
     foldl (\<lambda>plan b.
         if blockPhase b = NodeBlockReleased then plan
         else if blockPhase b = NodeBlockQuarantined then
           (if now - transitionTime b \<ge> sp_quarantine spec * second
            then plan\<lparr>pp_delete := pp_delete plan @ [nb_name b]\<rparr> else plan)
         else if nb_node b \<notin> set (map nd_name nds)
           then plan\<lparr>pp_quarantine := pp_quarantine plan @ [nb_name b]\<rparr>
         else plan) plan blocks"

definition owned_by :: "node_block list \<Rightarrow> string \<Rightarrow> node_block list" where
  "owned_by blocks name = filter (\<lambda>b. blockPhase b \<noteq> NodeBlockReleased \<and> nb_node b = name) blocks"

definition plan_node :: "pool_spec \<Rightarrow> node_block list \<Rightarrow> plan_input \<Rightarrow> pool_plan \<Rightarrow> node \<Rightarrow> pool_plan" where
  "plan_node spec blocks inp plan n =
     (if nd_deleting n then plan
      else
        (let owned = owned_by blocks (nd_name n); pods = allocatablePods n;
             minAddrs = push_bit (nat (32 - sp_min_block spec)) 1
         in
         if owned = [] then
           (case pool_allocateSpread (pp_pool plan) (initialBlockSize spec pods) (nd_name n) of
              (p, Inl e) \<Rightarrow>
                plan\<lparr>pp_pool := p, pp_exhausted := True, pp_problems := pp_problems plan @ [NoInitialBlock (nd_name n) e]\<rparr>
            | (p, Inr b) \<Rightarrow>
                plan\<lparr>pp_pool := p, pp_new := pp_new plan @ [block_new (nd_name n) Initial b], pp_pending := True\<rparr>)
         else
           (let st = classify (pp_pool plan) owned in
            if ns_in_flight st then plan\<lparr>pp_pending := True\<rparr>
            else
              (case completeSplits plan (ns_releasing st) of
                 (plan, True) \<Rightarrow> plan
               | (plan, False) \<Rightarrow>
                   (let capacity = blocksCapacity (ns_active_blocks st);
                        demand = max (ns_used st + in_waiting inp (nd_name n)) (in_pods inp (nd_name n))
                    in
                    if needsGrowth spec capacity demand \<or>
                       starved (in_starved inp (nd_name n)) owned (in_last_change inp (nd_name n))
                    then
                      (if ns_releasing st \<noteq> []
                       then plan\<lparr>pp_unrelease := pp_unrelease plan @ map nb_name (ns_releasing st)\<rparr>
                       else (case sort_by (\<lambda>a b. nb_used b < nb_used a) (ns_draining st) of
                               d # _ \<Rightarrow> plan\<lparr>pp_undrain := pp_undrain plan @ [nb_name d], pp_pending := True\<rparr>
                             | [] \<Rightarrow> growNode plan spec (nd_name n) pods capacity demand minAddrs (ns_active st)))
                    else if \<not> sp_disable_shrink spec \<and> ns_releasing st = [] \<and>
                            in_now inp - latestChange owned \<ge> sp_shrink_cooldown spec * second
                    then shrinkNode plan spec owned pods (ns_used st) (in_pods inp (nd_name n))
                           (ns_active_blocks st) (ns_draining st) minAddrs (in_now inp)
                    else plan)))))"

definition planPool :: "pool_spec \<Rightarrow> node list \<Rightarrow> node_block list \<Rightarrow> plan_input \<Rightarrow> pool_plan" where
  "planPool spec nds blocks inp =
     (case buildPool spec nds blocks of
        (p, problems) \<Rightarrow>
          (let plan = \<lparr>pp_pool = p, pp_new = [], pp_problems = problems, pp_exhausted = False, pp_pending = False,
                 pp_drain = [], pp_undrain = [], pp_quarantine = [], pp_delete = [], pp_release = [],
                 pp_unrelease = [], pp_split = [], pp_cidrs = []\<rparr>;
               plan = plan_blocks spec nds blocks (in_now inp) plan;
               plan = foldl (plan_node spec blocks inp) plan (sort_by (\<lambda>a b. nd_name a < nd_name b) nds);
               plan = plan\<lparr>pp_cidrs := cidrUsage spec nds blocks\<rparr>;
               plan = (if lowWater spec (pp_cidrs plan) \<and> \<not> pp_exhausted plan
                       then plan\<lparr>pp_problems := pp_problems plan @ [LowOnAddresses (sp_low_water spec)]\<rparr> else plan)
           in plan\<lparr>pp_delete := sort_by (<) (pp_delete plan), pp_quarantine := sort_by (<) (pp_quarantine plan)\<rparr>))"

text \<open>\<open>nextTimer\<close> and \<open>changedNodes\<close>.\<close>

definition consider_at :: "go_time \<Rightarrow> duration \<Rightarrow> go_time \<Rightarrow> duration" where
  "consider_at now best at = (if at - now > 0 \<and> (best = 0 \<or> at - now < best) then at - now else best)"

definition nextTimer :: "pool_spec \<Rightarrow> node_block list \<Rightarrow> go_time \<Rightarrow> duration" where
  "nextTimer spec blocks now =
     (let quarantine = sp_quarantine spec * second; cooldown = sp_shrink_cooldown spec * second;
          best = foldl (\<lambda>best b. if blockPhase b = NodeBlockQuarantined
                                 then consider_at now best (transitionTime b + quarantine) else best) 0 blocks
      in if sp_disable_shrink spec then best
         else foldl (\<lambda>best node.
                let owned = owned_by blocks node;
                    active = length (filter (\<lambda>b. blockPhase b = NodeBlockActive \<and> \<not> nb_drain b) owned)
                in if active < 2 then best
                   else foldl (\<lambda>best b. consider_at now best (transitionTime b + cooldown))
                          (consider_at now best (latestChange owned + cooldown)) owned)
              best (remdups (map nb_node (filter (\<lambda>b. blockPhase b \<noteq> NodeBlockReleased) blocks))))"

definition owner_of :: "node_block list \<Rightarrow> string \<Rightarrow> string" where
  "owner_of blocks name = foldl (\<lambda>n b. if nb_name b = name then nb_node b else n) [] blocks"

definition changedNodes :: "pool_plan \<Rightarrow> node_block list \<Rightarrow> string list" where
  "changedNodes plan blocks =
     map pb_node (pp_new plan) @
     filter (\<lambda>n. n \<noteq> []) (map (owner_of blocks)
       (pp_drain plan @ pp_undrain plan @ pp_quarantine plan @ pp_delete plan @ pp_unrelease plan @ pp_split plan @
        map hr_name (pp_release plan)))"

end
