(* ===== verification/Controller.thy ===== *)
theory Controller
  imports Kube_Api Plan "HOL-Library.Sublist"
begin

text \<open>
  The IPAM controller (ipam/ipam_controller.go): one reconcile pass reads the cluster, plans, creates the
  planned blocks, carries out the lifecycle steps and writes the pool status. The operations of the API
  server for the other kinds extend \<open>api\<close>; the clock is read once per pass. Events sent to the recorder
  and log lines are not modelled; the optional kube-proxy step is in \<^verbatim>\<open>Kube_Proxy\<close>.
\<close>

record pod =
  pod_node :: string
  pod_host_network :: bool
  pod_deleting :: bool
  pod_phase :: string
  pod_ip :: string

record kube_event =
  ev_reason :: string
  ev_message :: string
  ev_last :: go_time
  ev_time :: go_time
  ev_created :: go_time
  ev_host :: string
  ev_reporting :: string

record allocation_summary =
  as_node :: string
  as_blocks :: "string list"
  as_allocated :: int
  as_capacity :: int
  as_utilization :: int
  as_last_change :: "go_time option"

datatype pool_message = JoinedProblems "problem list" | PoolServing string

record pool_status =
  pst_total :: nat
  pst_allocated :: nat
  pst_free :: nat
  pst_phase :: string
  pst_message :: pool_message
  pst_cidrs :: "cidr_usage list"
  pst_allocations :: "allocation_summary list"
  pst_reconciled :: "go_time option"

record ippool =
  ip_name :: string
  ip_created :: go_time
  ip_spec :: pool_spec
  ip_status :: pool_status

record 'c kube = "'c api" +
  a_now :: "'c \<Rightarrow> go_time"
  a_pools :: "'c \<Rightarrow> 'c \<times> (api_error + ippool list)"
  a_get_pool :: "'c \<Rightarrow> string \<Rightarrow> 'c \<times> (api_error + ippool)"
  a_update_pool_status :: "'c \<Rightarrow> ippool \<Rightarrow> 'c \<times> api_error option"
  a_nodes :: "'c \<Rightarrow> 'c \<times> (api_error + node list)"
  a_pods :: "'c \<Rightarrow> 'c \<times> (api_error + pod list)"
  a_events :: "'c \<Rightarrow> 'c \<times> (api_error + kube_event list)"
  a_retry :: "('c \<times> allocation_summary list \<Rightarrow> ('c \<times> allocation_summary list) \<times> api_error option) \<Rightarrow>
    'c \<times> allocation_summary list \<Rightarrow> ('c \<times> allocation_summary list) \<times> api_error option"

text \<open>Go's \<open>if err != nil { return err }\<close>.\<close>

definition ebind :: "'s \<times> ('e + 'a) \<Rightarrow> ('s \<Rightarrow> 'a \<Rightarrow> 's \<times> ('e + 'b)) \<Rightarrow> 's \<times> ('e + 'b)" where
  "ebind r f = (case r of (s, Inl e) \<Rightarrow> (s, Inl e) | (s, Inr x) \<Rightarrow> f s x)"

subsection \<open>Reading the cluster\<close>

definition primary_before :: "ippool \<Rightarrow> ippool \<Rightarrow> bool" where
  "primary_before a b =
     (if ip_created a \<noteq> ip_created b then ip_created a < ip_created b else ip_name a < ip_name b)"

definition primaryPool :: "ippool list \<Rightarrow> string" where
  "primaryPool pools = (case sort_by primary_before pools of [] \<Rightarrow> [] | p # _ \<Rightarrow> ip_name p)"

definition blocksFor :: "string \<Rightarrow> node_block list \<Rightarrow> node_block list" where
  "blocksFor pool items = filter (\<lambda>b. nb_pool b = pool) items"

definition counts_pod :: "pod \<Rightarrow> bool" where
  "counts_pod p \<longleftrightarrow> \<not> (pod_node p = [] \<or> pod_host_network p \<or> pod_deleting p \<or>
     pod_phase p = ''Succeeded'' \<or> pod_phase p = ''Failed'')"

definition nodePods :: "pod list \<Rightarrow> (string \<Rightarrow> int) \<times> (string \<Rightarrow> int)" where
  "nodePods items =
     foldl (\<lambda>(pods, waiting) p.
         if \<not> counts_pod p then (pods, waiting)
         else (let pods = pods(pod_node p := pods (pod_node p) + 1)
               in if pod_phase p = ''Pending'' \<and> pod_ip p = []
                  then (pods, waiting(pod_node p := waiting (pod_node p) + 1))
                  else (pods, waiting))) (\<lambda>_. 0, \<lambda>_. 0) items"

definition starveWindow :: duration where
  "starveWindow = 3 * 60 * second"

definition isNoIPEvent :: "kube_event \<Rightarrow> bool" where
  "isNoIPEvent e \<longleftrightarrow> ev_reason e = ''FailedCreatePodSandBox'' \<and> sublist ''no IP addresses available'' (ev_message e)"

definition event_time :: "kube_event \<Rightarrow> go_time" where
  "event_time e = (if ev_last e \<noteq> 0 then ev_last e else if ev_time e \<noteq> 0 then ev_time e else ev_created e)"

definition event_node :: "kube_event \<Rightarrow> string" where
  "event_node e = (if ev_host e = [] then ev_reporting e else ev_host e)"

definition starvedNodes :: "kube_event list \<Rightarrow> go_time \<Rightarrow> (string \<Rightarrow> int) \<Rightarrow> string \<Rightarrow> go_time" where
  "starvedNodes items now waiting =
     (let out = foldl (\<lambda>out e.
            if \<not> isNoIPEvent e then out
            else if now - event_time e > starveWindow then out
            else if event_node e \<noteq> [] \<and> event_time e > out (event_node e)
                 then out(event_node e := event_time e) else out) (\<lambda>_. 0) items
      in (\<lambda>node. if waiting node = 0 then 0 else out node))"

subsection \<open>Creating and splitting blocks\<close>

definition new_block :: "string \<Rightarrow> planned_block \<Rightarrow> node_block" where
  "new_block pool pb = \<lparr>nb_name = blockName (pb_cidr pb), nb_created = 0, nb_node = pb_node pb, nb_pool = pool,
     nb_cidr = pb_cidr pb, nb_drain = False, nb_initial = (pb_reason pb = Initial), nb_release = [],
     nb_phase = NoPhase, nb_used = 0, nb_half_usage = [], nb_release_ready = [], nb_reclaimed = 0, nb_acked = [],
     nb_transition = None\<rparr>"

definition createBlock :: "('c, 'z) kube_scheme \<Rightarrow> 'c \<Rightarrow> string \<Rightarrow> planned_block \<Rightarrow> 'c \<times> (api_error + bool)" where
  "createBlock A s pool pb =
     (case a_create A s (new_block pool pb) of
        (s, Inl e) \<Rightarrow> (s, if e = AlreadyExists then Inr False else Inl e)
      | (s, Inr nb) \<Rightarrow>
          (case a_update_status A s (nb\<lparr>nb_phase := NodeBlockPending, nb_transition := Some (a_now A s)\<rparr>) of
             (s, Inl e) \<Rightarrow> (s, if e = NotFound then Inr True else Inl e)
           | (s, Inr _) \<Rightarrow> (s, Inr True)))"

definition rest_block :: "string \<Rightarrow> string \<Rightarrow> string \<Rightarrow> node_block" where
  "rest_block pool node half = \<lparr>nb_name = blockName half, nb_created = 0, nb_node = node, nb_pool = pool,
     nb_cidr = half, nb_drain = True, nb_initial = False, nb_release = [],
     nb_phase = NoPhase, nb_used = 0, nb_half_usage = [], nb_release_ready = [], nb_reclaimed = 0, nb_acked = [],
     nb_transition = None\<rparr>"

text \<open>The last part of \<open>splitBlock\<close>: the released half becomes a quarantined block of its own.\<close>

definition create_rest :: "('c, 'z) kube_scheme \<Rightarrow> 'c \<Rightarrow> string \<Rightarrow> string \<Rightarrow> string \<Rightarrow> go_time \<Rightarrow> 'c \<times> (api_error + bool)" where
  "create_rest A s pool node half now =
     (case a_create A s (rest_block pool node half) of
        (s, Inl e) \<Rightarrow> (s, if e = AlreadyExists then Inr True else Inl e)
      | (s, Inr rest) \<Rightarrow>
          (case a_update_status A s (rest\<lparr>nb_phase := NodeBlockQuarantined, nb_transition := Some now\<rparr>) of
             (s, Inl e) \<Rightarrow> (s, if e = NotFound then Inr True else Inl e)
           | (s, Inr _) \<Rightarrow> (s, Inr True)))"

definition splitBlock :: "('c, 'z) kube_scheme \<Rightarrow> 'c \<Rightarrow> string \<Rightarrow> string \<Rightarrow> 'c \<times> (api_error + bool)" where
  "splitBlock A s pool name =
     (case a_get A s name of
        (s, Inl e) \<Rightarrow> (s, if e = NotFound then Inr False else Inl e)
      | (s, Inr nb) \<Rightarrow>
          (let half = nb_release nb; whole = nb_cidr nb in
           if half = [] \<or> nb_release_ready nb \<noteq> half then (s, Inr False)
           else (case otherHalf whole half of
               Inl _ \<Rightarrow>
                 (case a_update A s (nb\<lparr>nb_release := []\<rparr>) of
                    (s, Inl e) \<Rightarrow> (s, if e = NotFound then Inr True else Inl e)
                  | (s, Inr _) \<Rightarrow> (s, Inr True))
             | Inr keep \<Rightarrow>
                 (case a_update A s (nb\<lparr>nb_cidr := keep, nb_release := []\<rparr>) of
                    (s, Inl e) \<Rightarrow> (s, if e = NotFound then Inr False else Inl e)
                  | (s, Inr nb) \<Rightarrow>
                      (let now = a_now A s in
                       case a_update_status A s (nb\<lparr>nb_half_usage := [], nb_release_ready := [], nb_transition := Some now\<rparr>) of
                         (s, Inl e) \<Rightarrow>
                           if e \<noteq> NotFound \<and> e \<noteq> ApiConflict then (s, Inl e)
                           else create_rest A s pool (nb_node nb) half now
                       | (s, Inr nb) \<Rightarrow> create_rest A s pool (nb_node nb) half now)))))"

subsection \<open>\<open>applyLifecycle\<close>\<close>

text \<open>
  A step of \<open>applyLifecycle\<close> for one name either goes on, telling whether it changed something
  (\<open>Inr\<close>), or makes the whole function return (\<open>Inl\<close>), possibly without an error.
\<close>

definition setDrain :: "('c, 'z) kube_scheme \<Rightarrow> bool \<Rightarrow> 'c \<Rightarrow> string \<Rightarrow> 'c \<times> (api_error option + bool)" where
  "setDrain A drain s name =
     (case a_get A s name of
        (s, Inl e) \<Rightarrow> (s, if e = NotFound then Inr False else Inl (Some e))
      | (s, Inr nb) \<Rightarrow>
          if nb_drain nb = drain then (s, Inr False)
          else (case a_update A s (nb\<lparr>nb_drain := drain\<rparr>) of
                  (s, Inl e) \<Rightarrow> (s, if e = NotFound then Inr False else Inl (Some e))
                | (s, Inr _) \<Rightarrow> (s, Inr True)))"

definition setRelease :: "('c, 'z) kube_scheme \<Rightarrow> 'c \<Rightarrow> string \<times> string \<Rightarrow> 'c \<times> (api_error option + bool)" where
  "setRelease A s = (\<lambda>(name, half).
     (case a_get A s name of
        (s, Inl e) \<Rightarrow> (s, if e = NotFound then Inr False else Inl (Some e))
      | (s, Inr nb) \<Rightarrow>
          if nb_release nb = half then (s, Inr False)
          else (case a_update A s (nb\<lparr>nb_release := half\<rparr>) of
                  (s, Inl e) \<Rightarrow> (s, if e = NotFound then Inr False else Inl (Some e))
                | (s, Inr _) \<Rightarrow> (s, Inr True))))"

definition split_step :: "('c, 'z) kube_scheme \<Rightarrow> string \<Rightarrow> 'c \<Rightarrow> string \<Rightarrow> 'c \<times> (api_error option + bool)" where
  "split_step A pool s name =
     (case splitBlock A s pool name of (s, Inl e) \<Rightarrow> (s, Inl (Some e)) | (s, Inr ch) \<Rightarrow> (s, Inr ch))"

definition quarantine_step :: "('c, 'z) kube_scheme \<Rightarrow> 'c \<Rightarrow> string \<Rightarrow> 'c \<times> (api_error option + bool)" where
  "quarantine_step A s name =
     (case a_get A s name of
        (s, Inl e) \<Rightarrow> (s, if e = NotFound then Inr False else Inl (Some e))
      | (s, Inr nb) \<Rightarrow>
          (case a_update_status A s (nb\<lparr>nb_phase := NodeBlockQuarantined, nb_transition := Some (a_now A s)\<rparr>) of
             (s, Inl e) \<Rightarrow> (s, Inl (ignore_not_found e))
           | (s, Inr _) \<Rightarrow> (s, Inr True)))"

definition delete_step :: "('c, 'z) kube_scheme \<Rightarrow> 'c \<Rightarrow> string \<Rightarrow> 'c \<times> (api_error option + bool)" where
  "delete_step A s name =
     (case a_get A s name of
        (s, Inl e) \<Rightarrow> (s, if e = NotFound then Inr False else Inl (Some e))
      | (s, Inr nb) \<Rightarrow>
          (case a_delete A s nb of
             (s, None) \<Rightarrow> (s, Inr True)
           | (s, Some e) \<Rightarrow> (s, if e = NotFound then Inr True else Inl (Some e))))"

fun each :: "('s \<Rightarrow> 'a \<Rightarrow> 's \<times> ('r + bool)) \<Rightarrow> 's \<Rightarrow> bool \<Rightarrow> 'a list \<Rightarrow> 's \<times> ('r + bool) \<times> bool" where
  "each f s changed [] = (s, Inr changed, changed)"
| "each f s changed (x # xs) =
     (case f s x of
        (s, Inl r) \<Rightarrow> (s, Inl r, changed)
      | (s, Inr ch) \<Rightarrow> each f s (changed \<or> ch) xs)"

text \<open>Two loops in sequence: the second runs unless the first returned.\<close>

definition and_each :: "'s \<times> ('r + bool) \<times> bool \<Rightarrow> ('s \<Rightarrow> 'a \<Rightarrow> 's \<times> ('r + bool)) \<Rightarrow> 'a list \<Rightarrow> 's \<times> ('r + bool) \<times> bool" where
  "and_each r f xs = (case r of (s, Inl e, ch) \<Rightarrow> (s, Inl e, ch) | (s, Inr _, ch) \<Rightarrow> each f s ch xs)"

definition applyLifecycle :: "('c, 'z) kube_scheme \<Rightarrow> 'c \<Rightarrow> string \<Rightarrow> pool_plan \<Rightarrow> 'c \<times> (api_error + bool)" where
  "applyLifecycle A s pool plan =
     (let r = each (setDrain A True) s False (pp_drain plan);
          r = and_each r (setDrain A False) (pp_undrain plan);
          r = and_each r (setRelease A) (map (\<lambda>h. (hr_name h, hr_half h)) (pp_release plan));
          r = and_each r (setRelease A) (map (\<lambda>n. (n, [])) (pp_unrelease plan));
          r = and_each r (split_step A pool) (pp_split plan);
          r = and_each r (quarantine_step A) (pp_quarantine plan);
          r = and_each r (delete_step A) (pp_delete plan)
      in case r of
           (s, Inl (Some e), _) \<Rightarrow> (s, Inl e)
         | (s, Inl None, changed) \<Rightarrow> (s, Inr changed)
         | (s, Inr _, changed) \<Rightarrow> (s, Inr changed))"

subsection \<open>The pool status\<close>

definition phaseFor :: "pool_plan \<Rightarrow> string \<times> pool_message" where
  "phaseFor plan =
     (if pp_exhausted plan then (''Exhausted'', JoinedProblems (pp_problems plan))
      else if pp_problems plan \<noteq> [] then (''Degraded'', JoinedProblems (pp_problems plan))
      else (''Ready'', JoinedProblems []))"

definition summary_of :: "node_block list \<Rightarrow> string \<Rightarrow> allocation_summary" where
  "summary_of blocks node =
     (let owned = owned_by blocks node;
          capacity = capacityOf (map nb_cidr (filter (\<lambda>b. blockPhase b = NodeBlockActive \<and> \<not> nb_drain b) owned));
          allocated = (\<Sum>b \<leftarrow> owned. nb_used b)
      in \<lparr>as_node = node, as_blocks = sort_by (<) (map nb_cidr owned), as_allocated = allocated, as_capacity = capacity,
          as_utilization = (if capacity > 0 then allocated * 100 sdiv capacity else 0), as_last_change = None\<rparr>)"

definition summarise :: "node_block list \<Rightarrow> allocation_summary list" where
  "summarise blocks =
     map (summary_of blocks)
       (sort_by (<) (remdups (map nb_node (filter (\<lambda>b. blockPhase b \<noteq> NodeBlockReleased) blocks))))"

definition stampChanges ::
  "allocation_summary list \<Rightarrow> allocation_summary list \<Rightarrow> string list \<Rightarrow> go_time \<Rightarrow> allocation_summary list" where
  "stampChanges cur prev touched now =
     (let was = foldl (\<lambda>m p. m(as_node p := as_last_change p)) (\<lambda>_. None) prev
      in map (\<lambda>c. if as_node c \<in> set touched then c\<lparr>as_last_change := Some now\<rparr>
                  else (case was (as_node c) of Some t \<Rightarrow> c\<lparr>as_last_change := Some t\<rparr> | None \<Rightarrow> c)) cur)"

definition heartbeatDue :: "go_time option \<Rightarrow> go_time \<Rightarrow> bool" where
  "heartbeatDue prev now = (case prev of None \<Rightarrow> True | Some t \<Rightarrow> now - t \<ge> 30 * second)"

definition equalStatus :: "pool_status \<Rightarrow> pool_status \<Rightarrow> bool" where
  "equalStatus a b \<longleftrightarrow> a\<lparr>pst_reconciled := None\<rparr> = b\<lparr>pst_reconciled := None\<rparr>"

definition status_for :: "pool_plan option \<Rightarrow> node_block list \<Rightarrow> string \<Rightarrow> pool_message \<Rightarrow> go_time \<Rightarrow> pool_status" where
  "status_for plan blocks phase msg now =
     (let st = \<lparr>pst_total = 0, pst_allocated = 0, pst_free = 0, pst_phase = phase, pst_message = msg,
            pst_cidrs = [], pst_allocations = [], pst_reconciled = Some now\<rparr>
      in case plan of
           None \<Rightarrow> st
         | Some plan \<Rightarrow>
             (let stats = poolStats (pp_pool plan)
              in st\<lparr>pst_total := ps_total stats, pst_allocated := ps_allocated stats, pst_free := ps_free stats,
                    pst_allocations := summarise blocks, pst_cidrs := pp_cidrs plan\<rparr>))"

text \<open>
  One attempt of the retry in \<open>updateStatus\<close>. The summaries are part of its state, because the Go closure
  stamps the same slice again on every attempt.
\<close>

definition retry_status ::
  "('c, 'z) kube_scheme \<Rightarrow> string \<Rightarrow> pool_status \<Rightarrow> string list \<Rightarrow> go_time \<Rightarrow>
   'c \<times> allocation_summary list \<Rightarrow> ('c \<times> allocation_summary list) \<times> api_error option" where
  "retry_status A name st touched now = (\<lambda>(s, cur).
     (case a_get_pool A s name of
        (s, Inl e) \<Rightarrow> ((s, cur), Some e)
      | (s, Inr fresh) \<Rightarrow>
          (let cur = stampChanges cur (pst_allocations (ip_status fresh)) touched now
           in case a_update_pool_status A s (fresh\<lparr>ip_status := st\<lparr>pst_allocations := cur\<rparr>\<rparr>) of
                (s, e) \<Rightarrow> ((s, cur), e))))"

definition updateStatus ::
  "('c, 'z) kube_scheme \<Rightarrow> 'c \<Rightarrow> ippool \<Rightarrow> pool_plan option \<Rightarrow> node_block list \<Rightarrow> string list \<Rightarrow>
   string \<Rightarrow> pool_message \<Rightarrow> 'c \<times> api_error option" where
  "updateStatus A s pool plan blocks touched phase msg =
     (let now = a_now A s;
          st = status_for plan blocks phase msg now;
          st = st\<lparr>pst_allocations := stampChanges (pst_allocations st) (pst_allocations (ip_status pool)) touched now\<rparr>
      in if equalStatus (ip_status pool) st \<and> \<not> heartbeatDue (pst_reconciled (ip_status pool)) now then (s, None)
         else (case a_update_pool_status A s (pool\<lparr>ip_status := st\<rparr>) of
                 (s, e) \<Rightarrow>
                   if e \<noteq> Some ApiConflict \<or> touched = [] then (s, e)
                   else (case a_retry A (retry_status A (ip_name pool) st touched now) (s, pst_allocations st) of
                           ((s, _), e) \<Rightarrow> (s, e))))"

subsection \<open>\<open>Reconcile\<close>\<close>

definition requeueInterval :: duration where "requeueInterval = 30 * second"
definition requeueBusy :: duration where "requeueBusy = 5 * second"
definition timerSlack :: duration where "timerSlack = 500000000"

definition requeueAfter :: "duration \<Rightarrow> duration" where
  "requeueAfter timer = (if timer > 0 \<and> timer + timerSlack < requeueInterval then timer + timerSlack else requeueInterval)"

text \<open>The result of a pass without error: requeue after a time, or not at all (0).\<close>

fun create_blocks :: "('c, 'z) kube_scheme \<Rightarrow> 'c \<Rightarrow> string \<Rightarrow> bool \<Rightarrow> planned_block list \<Rightarrow> 'c \<times> (api_error + bool)" where
  "create_blocks A s pool collided [] = (s, Inr collided)"
| "create_blocks A s pool collided (pb # pbs) =
     ebind (createBlock A s pool pb) (\<lambda>s created. create_blocks A s pool (collided \<or> \<not> created) pbs)"

definition last_changes :: "allocation_summary list \<Rightarrow> string \<Rightarrow> go_time" where
  "last_changes allocs =
     foldl (\<lambda>m na. case as_last_change na of Some t \<Rightarrow> m(as_node na := t) | None \<Rightarrow> m) (\<lambda>_. 0) allocs"

text \<open>The pass of the serving pool, after its specification was completed by \<open>withDefaults\<close>.\<close>

definition finish_pass ::
  "('c, 'z) kube_scheme \<Rightarrow> ippool \<Rightarrow> pool_spec \<Rightarrow> node_block list \<Rightarrow> pool_plan \<Rightarrow> 'c \<Rightarrow> bool \<Rightarrow> 'c \<times> (api_error + duration)" where
  "finish_pass A pool spec blocks plan s collided =
     ebind (applyLifecycle A s (ip_name pool) plan) (\<lambda>s changed.
       ebind (if pp_new plan \<noteq> [] \<or> changed
              then ebind (a_list A s) (\<lambda>s all. (s, Inr (blocksFor (ip_name pool) all))) else (s, Inr blocks)) (\<lambda>s after.
         case updateStatus A s pool (Some plan) after (changedNodes plan blocks) (fst (phaseFor plan)) (snd (phaseFor plan)) of
           (s, Some e) \<Rightarrow> (s, if e = ApiConflict then Inr second else Inl e)
         | (s, None) \<Rightarrow>
             (s, Inr (if collided \<or> pp_pending plan \<or> changed then requeueBusy
                      else requeueAfter (nextTimer spec after (a_now A s))))))"

definition serve_pool :: "('c, 'z) kube_scheme \<Rightarrow> 'c \<Rightarrow> ippool \<Rightarrow> 'c \<times> (api_error + duration)" where
  "serve_pool A s pool =
     (let spec = withDefaults (ip_spec pool) in
      ebind (a_nodes A s) (\<lambda>s nds.
      ebind (a_list A s) (\<lambda>s all. let blocks = blocksFor (ip_name pool) all in
      ebind (a_pods A s) (\<lambda>s podlist. case nodePods podlist of (pods, waiting) \<Rightarrow>
      ebind (a_events A s) (\<lambda>s events.
        let plan = planPool spec nds blocks
              \<lparr>in_now = a_now A s, in_starved = starvedNodes events (a_now A s) waiting,
               in_last_change = last_changes (pst_allocations (ip_status pool)), in_waiting = waiting, in_pods = pods\<rparr>
        in ebind (create_blocks A s (ip_name pool) False (pp_new plan)) (finish_pass A pool spec blocks plan))))))"

definition reconcile :: "('c, 'z) kube_scheme \<Rightarrow> 'c \<Rightarrow> string \<Rightarrow> 'c \<times> (api_error + duration)" where
  "reconcile A s name =
     (case a_get_pool A s name of
        (s, Inl e) \<Rightarrow> (s, if e = NotFound then Inr 0 else Inl e)
      | (s, Inr pool) \<Rightarrow>
          ebind (a_pools A s) (\<lambda>s pools.
            if primaryPool pools \<noteq> ip_name pool
            then (case updateStatus A s pool None [] [] ''Inactive'' (PoolServing (primaryPool pools)) of
                    (s, Some e) \<Rightarrow> (s, Inl e) | (s, None) \<Rightarrow> (s, Inr 0))
            else serve_pool A s pool))"

end
