(* ===== verification/Plan_Inv.thy ===== *)
theory Plan_Inv
  imports Plan Pool_Props
begin

text \<open>
  What planning does to the rebuilt pool: every block it plans was free in the pool and is held
  afterwards, and nothing that was held is given up. \<open>pool_good\<close> is the pool's invariant with
  consistent limits, \<open>plans\<close> relates the pool before a planning step to the plan after it.
\<close>

definition pool_good :: "pool \<Rightarrow> bool" where
  "pool_good p \<longleftrightarrow> pool_inv p \<and> 0 \<le> pl_max p \<and> pl_max p \<le> pl_min p \<and> pl_min p \<le> 32"

lemma pool_good_settings: "pool_good p \<Longrightarrow> pool_inv q \<Longrightarrow> same_settings p q \<Longrightarrow> pool_good q"
  by (simp add: pool_good_def same_settings_def)

subsection \<open>Operations on the owning allocator\<close>

lemma owner_index_lt: "owner_index p c = Some i \<Longrightarrow> i < length (pl_allocators p)"
  unfolding owner_index_def find_upt_Some by simp

lemma pool_inv_upd:
  assumes inv: "pool_inv p" and i: "i < length (pl_allocators p)" and a: "alloc_inv a'" "same_frame (pl_allocators p ! i) a'"
  shows "list_all2 (\<lambda>a a'. alloc_inv a' \<and> same_frame a a') (pl_allocators p) ((pl_allocators p)[i := a'])"
  using assms by (auto simp: list_all2_conv_all_nth nth_list_update pool_inv_def)

lemma at_owner_grant:
  assumes inv: "pool_inv p" and i: "i < length (pl_allocators p)"
    and op: "f (pl_allocators p ! i) = (a', Inr b)"
    and g: "alloc_inv a' \<and> same_frame (pl_allocators p ! i) a' \<and> ablk node b \<notin> live (pl_allocators p ! i) \<and>
      live a' = insert (ablk node b) (live (pl_allocators p ! i))"
    and r: "at_owner p i f = (p', r)"
  shows "r = Inr b \<and> pool_inv p' \<and> same_settings p p' \<and> ablk node b \<notin> pool_live p \<and>
    pool_live p' = insert (ablk node b) (pool_live p)"
proof -
  let ?A = "pl_allocators p"
  have e: "p' = p\<lparr>pl_allocators := ?A[i := a']\<rparr>" "r = Inr b" using r op by (simp_all add: at_owner_def)
  have ai: "j < length ?A \<Longrightarrow> alloc_inv (?A ! j)" for j using inv by (simp add: pool_inv_def)
  have "pool_inv p' \<and> same_settings p p' \<and> ablk node b \<notin> pool_live p \<and>
      pool_live p' = insert (ablk node b) (pool_live p)"
    unfolding e(1) by (rule pool_grant_ok[OF inv i]) (use g ai i in \<open>auto simp: nth_list_update\<close>)
  then show ?thesis using e(2) by simp
qed

lemma at_owner_keep:
  assumes inv: "pool_inv p" and i: "i < length (pl_allocators p)"
    and op: "f (pl_allocators p ! i) = (a', v)"
    and g: "alloc_inv a' \<and> same_frame (pl_allocators p ! i) a' \<and> live a' = live (pl_allocators p ! i)"
    and r: "at_owner p i f = (p', r)"
  shows "r = v \<and> pool_inv p' \<and> same_settings p p' \<and> pool_live p' = pool_live p"
proof -
  let ?A = "pl_allocators p"
  have e: "p' = p\<lparr>pl_allocators := ?A[i := a']\<rparr>" "r = v" using r op by (simp_all add: at_owner_def)
  have "list_all2 (\<lambda>a a'. alloc_inv a' \<and> same_frame a a' \<and> live a' = live a) ?A (?A[i := a'])"
    using inv i g by (auto simp: list_all2_conv_all_nth nth_list_update pool_inv_def)
  then show ?thesis using pool_grant_err[OF inv] e by simp
qed

interpretation beside: block_grantor alloc_inv live same_frame "\<lambda>a. al_allocateFromBuddy a b req nodeName" nodeName
  for b req nodeName
proof
  show "same_frame s s" for s by simp
  fix s s' assume inv: "alloc_inv s"
  show "alloc_inv s' \<and> same_frame s s' \<and> BlockAllocated (fst c) (snd c) nodeName \<notin> live s \<and>
      live s' = insert (BlockAllocated (fst c) (snd c) nodeName) (live s)"
    if r: "al_allocateFromBuddy s b req nodeName = (s', Inr c)" for c
  proof (cases rule: allocateFromBuddy_cases[OF inv, of b req nodeName])
    case (2 b' c' a')
    then have "granted (swept s) s' c' c nodeName" using r by simp
    then show ?thesis by (rule granted_live[OF inv])
  qed (use r in simp)
  show "alloc_inv s' \<and> same_frame s s' \<and> live s' = live s"
    if r: "al_allocateFromBuddy s b req nodeName = (s', Inl e)" for e
    by (cases rule: allocateFromBuddy_cases[OF inv, of b req nodeName]) (use r swept_live[OF inv] in auto)
qed

lemma pool_fromBuddy_result:
  assumes inv: "pool_inv p" and r: "pool_allocateFromBuddy p b req node = (p', r)"
  shows "pool_inv p' \<and> same_settings p p' \<and>
    (case r of Inl _ \<Rightarrow> pool_live p' = pool_live p
     | Inr c \<Rightarrow> ablk node c \<notin> pool_live p \<and> pool_live p' = insert (ablk node c) (pool_live p))"
proof (cases "owner_index p (block_cidr b)")
  case None
  then show ?thesis using r inv by (auto simp: pool_allocateFromBuddy_def)
next
  case (Some i)
  have i: "i < length (pl_allocators p)" by (rule owner_index_lt[OF Some])
  have ai: "alloc_inv (pl_allocators p ! i)" using inv i by (simp add: pool_inv_def)
  have r': "at_owner p i (\<lambda>a. al_allocateFromBuddy a b req node) = (p', r)"
    using r Some by (simp add: pool_allocateFromBuddy_def)
  obtain a' v where op: "al_allocateFromBuddy (pl_allocators p ! i) b req node = (a', v)"
    by (cases "al_allocateFromBuddy (pl_allocators p ! i) b req node")
  show ?thesis
  proof (cases v)
    case (Inl e)
    then show ?thesis using at_owner_keep[OF inv i op _ r'] beside.grant_err[OF ai] op by auto
  next
    case (Inr c)
    then show ?thesis using at_owner_grant[OF inv i op[unfolded Inr] beside.grant_ok[OF ai op[unfolded Inr]] r'] by simp
  qed
qed

interpretation reserving: block_grantor alloc_inv live same_frame "\<lambda>a. al_reserve a cidr nodeName" nodeName
  for cidr nodeName
proof
  show "same_frame s s" for s by simp
  fix s s' assume inv: "alloc_inv s"
  have none: "parse_cidr cidr = None \<Longrightarrow> al_reserve s cidr nodeName = (s, Inl (ErrInvalidCIDR cidr))"
    by (simp add: al_reserve_def)
  show "alloc_inv s' \<and> same_frame s s' \<and> BlockAllocated (fst b) (snd b) nodeName \<notin> live s \<and>
      live s' = insert (BlockAllocated (fst b) (snd b) nodeName) (live s)"
    if r: "al_reserve s cidr nodeName = (s', Inr b)" for b
  proof (cases "parse_cidr cidr")
    case (Some q)
    then obtain ip n where p: "parse_cidr cidr = Some (ip, n)" by (cases q) auto
    note k = al_reserve_Inr[OF inv p r]
    have "tspan (ablk nodeName b) = span (net_ip n) (net_ones n)" by (simp add: k(3))
    then have "BlockAllocated (fst b) (snd b) nodeName \<notin> heldset s"
      using k(7) base_in_span[of "net_ip n" "net_ones n"] by blast
    moreover have "al_now s' = al_now s" using k(2) by (simp add: same_frame_def)
    ultimately show ?thesis using k(1-4) by (auto simp: live_def is_due_def)
  qed (use none r in simp)
  show "alloc_inv s' \<and> same_frame s s' \<and> live s' = live s"
    if r: "al_reserve s cidr nodeName = (s', Inl e)" for e
  proof (cases "parse_cidr cidr")
    case (Some q)
    then obtain ip n where p: "parse_cidr cidr = Some (ip, n)" by (cases q) auto
    show ?thesis by (cases rule: al_reserve_cases[OF inv p, of nodeName]) (use r inv in auto)
  qed (use none r inv in simp)
qed

lemma pool_reserve_result:
  assumes inv: "pool_inv p" and r: "pool_reserve p c node = (p', r)"
  shows "pool_inv p' \<and> same_settings p p' \<and>
    (case r of Inl _ \<Rightarrow> pool_live p' = pool_live p
     | Inr b \<Rightarrow> b = pfx_of c \<and> parse_cidr c \<noteq> None \<and> ablk node b \<notin> pool_live p \<and>
         pool_live p' = insert (ablk node b) (pool_live p))"
proof (cases "owner_index p c")
  case None
  then show ?thesis using r inv by (auto simp: pool_reserve_def)
next
  case (Some i)
  have i: "i < length (pl_allocators p)" by (rule owner_index_lt[OF Some])
  have ai: "alloc_inv (pl_allocators p ! i)" using inv i by (simp add: pool_inv_def)
  have r': "at_owner p i (\<lambda>a. al_reserve a c node) = (p', r)" using r Some by (simp add: pool_reserve_def)
  obtain a' v where op: "al_reserve (pl_allocators p ! i) c node = (a', v)"
    by (cases "al_reserve (pl_allocators p ! i) c node")
  show ?thesis
  proof (cases v)
    case (Inl e)
    then show ?thesis using at_owner_keep[OF inv i op _ r'] reserving.grant_err[OF ai] op by auto
  next
    case (Inr b)
    obtain ip n where p: "parse_cidr c = Some (ip, n)"
      using op Inr by (cases "parse_cidr c") (auto simp: al_reserve_def)
    have "b = pfx_of c" using al_reserve_Inr(3)[OF ai p op[unfolded Inr]] p by (simp add: pfx_of_def)
    then show ?thesis
      using at_owner_grant[OF inv i op[unfolded Inr] reserving.grant_ok[OF ai op[unfolded Inr]] r'] p by simp
  qed
qed

subsection \<open>Rebuilding the pool\<close>

lemma newBuddy_limits: "newBuddyAllocator c mn mx = Inr a \<Longrightarrow> mx \<le> mn \<and> mn \<le> 32"
  by (auto simp: newBuddyAllocator_def Let_def split: option.splits if_splits)

lemma addCIDR_good:
  assumes g: "pool_good p" and m: "0 \<le> mx" and r: "addCIDR p c mn mx = (p', e)"
  shows "pool_good p' \<and> pool_live p' = pool_live p"
proof (cases e)
  case (Some err)
  then have "p' = p" using r by (auto simp: addCIDR_def Let_def split: sum.splits if_splits)
  then show ?thesis using g by simp
next
  case None
  have inv: "pool_inv p" using g by (simp add: pool_good_def)
  note r' = r[unfolded None]
  obtain a where a: "pl_allocators p' = pl_allocators p @ [a]" "pool_inv p'" "live a = {}"
    by (rule addCIDR_ok[OF inv r']) blast
  obtain x where x: "newBuddyAllocator c mn (case parse_cidr c of None \<Rightarrow> mx
                    | Some (_, n) \<Rightarrow> if mx < int (net_ones n) then int (net_ones n) else mx) = Inr x"
    using r' by (cases "newBuddyAllocator c mn (case parse_cidr c of None \<Rightarrow> mx
                    | Some (_, n) \<Rightarrow> if mx < int (net_ones n) then int (net_ones n) else mx)") (simp_all add: addCIDR_def Let_def)
  have "mx \<le> mn \<and> mn \<le> 32" using newBuddy_limits[OF x] by (auto split: option.splits if_splits)
  moreover have "pl_min p' = (if pl_allocators p = [] then mn else pl_min p)"
    "pl_max p' = (if pl_allocators p = [] then mx else pl_max p)"
    using r' x by (auto simp: addCIDR_def Let_def split: if_splits)
  ultimately show ?thesis using g a m by (auto simp: pool_good_def pool_live_def)
qed

lemma add_cidrs_good:
  "pool_good p \<Longrightarrow> 0 \<le> sp_max_block spec \<Longrightarrow> add_cidrs spec p pr cs = (p', pr') \<Longrightarrow>
   pool_good p' \<and> pool_live p' = pool_live p \<and> set pr \<subseteq> set pr'"
proof (induction cs arbitrary: p pr)
  case (Cons c cs)
  obtain q e where q: "addCIDR p c (sp_min_block spec) (sp_max_block spec) = (q, e)"
    by (cases "addCIDR p c (sp_min_block spec) (sp_max_block spec)")
  note g = addCIDR_good[OF Cons.prems(1,2) q]
  show ?case
  proof (cases e)
    case None
    then have "add_cidrs spec q pr cs = (p', pr')" using Cons.prems(3) q by simp
    then show ?thesis using Cons.IH[of q pr] g Cons.prems(2) by simp
  next
    case (Some x)
    then have "add_cidrs spec q (pr @ [CannotAdd x]) cs = (p', pr')" using Cons.prems(3) q by simp
    then show ?thesis using Cons.IH[of q "pr @ [CannotAdd x]"] g Cons.prems(2) by simp
  qed
qed simp

definition placed :: "problem list \<Rightarrow> node_block \<Rightarrow> bool" where
  "placed problems b \<longleftrightarrow> blockPhase b \<noteq> NodeBlockReleased \<and>
     (\<forall>e. CannotPlace (nb_name b) (nb_cidr b) e \<notin> set problems)"

lemma place_blocks_good:
  "pool_good p \<Longrightarrow> place_blocks p pr bs = (p', pr') \<Longrightarrow>
   pool_good p' \<and> pool_live p \<subseteq> pool_live p' \<and> set pr \<subseteq> set pr' \<and>
   (\<forall>b \<in> set bs. placed pr' b \<longrightarrow> ablk (nb_node b) (pfx_of (nb_cidr b)) \<in> pool_live p')"
proof (induction bs arbitrary: p pr)
  case (Cons b bs)
  show ?case
  proof (cases "blockPhase b = NodeBlockReleased")
    case True
    then have "place_blocks p pr bs = (p', pr')" using Cons.prems(2) by simp
    then show ?thesis using Cons.IH[OF Cons.prems(1)] True by (auto simp: placed_def)
  next
    case False
    have inv: "pool_inv p" using Cons.prems(1) by (simp add: pool_good_def)
    obtain q r where q: "pool_reserve p (nb_cidr b) (nb_node b) = (q, r)"
      by (cases "pool_reserve p (nb_cidr b) (nb_node b)")
    note res = pool_reserve_result[OF inv q]
    have gq: "pool_good q" using pool_good_settings[OF Cons.prems(1)] res by blast
    show ?thesis
    proof (cases r)
      case (Inr x)
      then have "place_blocks q pr bs = (p', pr')" using Cons.prems(2) False q by simp
      then show ?thesis using Cons.IH[OF gq] res Inr by auto
    next
      case (Inl e)
      then have "place_blocks q (pr @ [CannotPlace (nb_name b) (nb_cidr b) e]) bs = (p', pr')"
        using Cons.prems(2) False q by simp
      note IH = Cons.IH[OF gq this]
      have "CannotPlace (nb_name b) (nb_cidr b) e \<in> set pr'" using IH by auto
      then have "\<not> placed pr' b" by (auto simp: placed_def)
      then show ?thesis using IH res Inl by auto
    qed
  qed
qed simp

lemma newPool_good: "pool_good newPool"
  using newPool_inv by (simp add: pool_good_def) (simp add: newPool_def)

lemma buildPool_good:
  assumes m: "0 \<le> sp_max_block spec" and b: "buildPool spec nds blocks = (p, pr)"
  shows "pool_good p \<and> (\<forall>b \<in> set blocks. placed pr b \<longrightarrow> ablk (nb_node b) (pfx_of (nb_cidr b)) \<in> pool_live p)"
proof -
  obtain cs pr0 where v: "validCIDRs spec nds = (cs, pr0)" by (cases "validCIDRs spec nds")
  obtain q pr1 where q: "add_cidrs spec newPool pr0 cs = (q, pr1)" by (cases "add_cidrs spec newPool pr0 cs")
  have "place_blocks q pr1 (sort_by (\<lambda>a b. nb_cidr a < nb_cidr b) blocks) = (p, pr)"
    using b v q by (simp add: buildPool_def)
  then show ?thesis using place_blocks_good add_cidrs_good[OF newPool_good m q] by fastforce
qed


subsection \<open>What a planning step adds\<close>

text \<open>A planned block before it is written as text: its node, the reason and the block.\<close>

type_synonym grant = "string \<times> reason \<times> bref"

definition as_new :: "grant \<Rightarrow> planned_block" where
  "as_new g = block_new (fst g) (fst (snd g)) (snd (snd g))"

definition as_held :: "grant \<Rightarrow> btree" where
  "as_held g = ablk (fst g) (snd (snd g))"

lemma as_new_simps [simp]:
  "as_new (n, w, b) = block_new n w b" "as_held (n, w, b) = ablk n b"
  by (simp_all add: as_new_def as_held_def)

definition extends :: "pool_plan \<Rightarrow> pool_plan \<Rightarrow> bool" where
  "extends s s' \<longleftrightarrow> pool_good (pp_pool s') \<and> same_settings (pp_pool s) (pp_pool s') \<and>
     (\<exists>gs. pp_new s' = pp_new s @ map as_new gs \<and> distinct (map as_held gs) \<and>
        as_held ` set gs \<inter> pool_live (pp_pool s) = {} \<and>
        pool_live (pp_pool s) \<union> as_held ` set gs \<subseteq> pool_live (pp_pool s'))"

lemma extends_same [intro]:
  "pool_good (pp_pool s) \<Longrightarrow> pp_pool s' = pp_pool s \<Longrightarrow> pp_new s' = pp_new s \<Longrightarrow> extends s s'"
  unfolding extends_def by (auto intro!: exI[of _ "[]"])

lemma extends_update [simp]:
  "extends s (s'\<lparr>pp_pending := b\<rparr>) = extends s s'" "extends s (s'\<lparr>pp_exhausted := b\<rparr>) = extends s s'"
  "extends s (s'\<lparr>pp_problems := pr\<rparr>) = extends s s'" "extends s (s'\<lparr>pp_drain := ns\<rparr>) = extends s s'"
  "extends s (s'\<lparr>pp_undrain := ns\<rparr>) = extends s s'" "extends s (s'\<lparr>pp_release := rs\<rparr>) = extends s s'"
  "extends s (s'\<lparr>pp_unrelease := ns\<rparr>) = extends s s'" "extends s (s'\<lparr>pp_split := ns\<rparr>) = extends s s'"
  "extends s (s'\<lparr>pp_delete := ns\<rparr>) = extends s s'" "extends s (s'\<lparr>pp_quarantine := ns\<rparr>) = extends s s'"
  "extends s (s'\<lparr>pp_cidrs := us\<rparr>) = extends s s'"
  by (simp_all add: extends_def)

lemma extends_good: "extends s s' \<Longrightarrow> pool_good (pp_pool s')"
  by (simp add: extends_def)

lemma extends_settings: "extends s s' \<Longrightarrow> same_settings (pp_pool s) (pp_pool s')"
  by (simp add: extends_def)

lemma extendsI:
  assumes "pool_good (pp_pool s')" "same_settings (pp_pool s) (pp_pool s')"
    "pp_new s' = pp_new s @ map as_new gs" "distinct (map as_held gs)"
    "as_held ` set gs \<inter> pool_live (pp_pool s) = {}"
    "pool_live (pp_pool s) \<union> as_held ` set gs \<subseteq> pool_live (pp_pool s')"
  shows "extends s s'"
  unfolding extends_def using assms by blast

lemma extends_trans:
  assumes "extends s t" "extends t u"
  shows "extends s u"
proof -
  obtain gs where gs: "pp_new t = pp_new s @ map as_new gs" "distinct (map as_held gs)"
    "as_held ` set gs \<inter> pool_live (pp_pool s) = {}"
    "pool_live (pp_pool s) \<union> as_held ` set gs \<subseteq> pool_live (pp_pool t)"
    using assms(1) unfolding extends_def by blast
  obtain hs where hs: "pp_new u = pp_new t @ map as_new hs" "distinct (map as_held hs)"
    "as_held ` set hs \<inter> pool_live (pp_pool t) = {}"
    "pool_live (pp_pool t) \<union> as_held ` set hs \<subseteq> pool_live (pp_pool u)"
    using assms(2) unfolding extends_def by blast
  show ?thesis
  proof (rule extendsI)
    show "pool_good (pp_pool u)" by (rule extends_good[OF assms(2)])
    show "same_settings (pp_pool s) (pp_pool u)"
      by (rule same_settings_trans[OF extends_settings[OF assms(1)] extends_settings[OF assms(2)]])
    show "pp_new u = pp_new s @ map as_new (gs @ hs)" using gs(1) hs(1) by simp
    show "distinct (map as_held (gs @ hs))" using gs(2,4) hs(2,3) by auto
    show "as_held ` set (gs @ hs) \<inter> pool_live (pp_pool s) = {}" using gs(3,4) hs(3) by auto
    show "pool_live (pp_pool s) \<union> as_held ` set (gs @ hs) \<subseteq> pool_live (pp_pool u)" using gs(4) hs(4) by auto
  qed
qed

text \<open>A step of a pass over nodes or blocks that only adds free blocks to the plan; its folds do too.\<close>

locale planning_pass =
  fixes step :: "pool_plan \<Rightarrow> 'n \<Rightarrow> pool_plan"
  assumes step_extends: "pool_good (pp_pool s) \<Longrightarrow> extends s (step s n)"
begin

lemma fold_extends: "pool_good (pp_pool s) \<Longrightarrow> extends s (foldl step s ns)"
proof (induction ns arbitrary: s)
  case (Cons n ns)
  have "extends s (step s n)" by (rule step_extends[OF Cons.prems])
  then show ?case using Cons.IH[of "step s n"] extends_trans extends_good by fastforce
qed auto

end

lemma pool_good_grant:
  assumes g: "pool_good (pp_pool s)" and r: "pool_inv p'" "same_settings (pp_pool s) p'"
    "ablk node b \<notin> pool_live (pp_pool s)" "pool_live p' = insert (ablk node b) (pool_live (pp_pool s))"
    and u: "pp_pool u = p'" "pp_new u = pp_new s @ [block_new node why b]"
  shows "extends s u"
  by (rule extendsI[of u s "[(node, why, b)]"]) (use pool_good_settings[OF g r(1,2)] r u in auto)

lemma pool_good_keep:
  assumes g: "pool_good (pp_pool s)" and r: "pool_inv p'" "same_settings (pp_pool s) p'"
    "pool_live (pp_pool s) \<subseteq> pool_live p'"
    and u: "pp_pool u = p'" "pp_new u = pp_new s"
  shows "extends s u"
  by (rule extendsI[of u s "[]"]) (use pool_good_settings[OF g r(1,2)] r u in auto)

lemma allocateDemand_result:
  assumes g: "pool_good p" and r: "allocateDemand p req node = (p', r)"
  shows "case r of Inr bs \<Rightarrow> settled p node p' bs [] | Inl e \<Rightarrow> \<exists>L. settled p node p' [] L"
proof (cases "pl_allocators p = []")
  case True
  then have "p' = p \<and> (\<exists>e. r = Inl e)" using r by (auto simp: allocateDemand_def)
  then show ?thesis using g by (auto simp: settled_def pool_good_def intro!: exI[of _ "[]"])
next
  case False
  let ?mn = "nat (pl_min p)" and ?mx = "nat (pl_max p)"
  have le: "?mx \<le> ?mn" "?mn \<le> 32" using g by (auto simp: pool_good_def)
  have s0: "settled p node p [] []" using g by (simp add: settled_def pool_good_def)
  have loop: "demand_loop p ?mn node [] (splitDemand req ?mn ?mx) = (p', r)"
    using r False by (simp add: allocateDemand_def)
  have sz: "\<forall>x \<in> set (splitDemand req ?mn ?mx). x \<le> ?mn" using splitDemand_facts(2)[OF le, of req] by blast
  show ?thesis
    using demand_loop_result[OF _ le(2) s0 sz loop] g by (auto simp: pool_good_def split: sum.splits)
qed

end
