(* ===== verification/Plan_Props.thy ===== *)
theory Plan_Props
  imports Plan_Inv
begin

text \<open>
  The properties of the planner: what it adds never overlaps what is held (this theory), what it takes
  away leaves every node enough (\<open>Shrink_Props\<close>).
\<close>

subsection \<open>Growing one node\<close>

lemma take_beside_extends:
  assumes "pool_good (pp_pool s)" "take_beside (pp_pool s) bs piece node = (p', r)"
  shows "case r of
      None \<Rightarrow> extends s (s\<lparr>pp_pool := p'\<rparr>)
    | Some (got, b) \<Rightarrow> extends s (s\<lparr>pp_pool := p', pp_new := pp_new s @ [block_new node why got]\<rparr>)"
  using assms
proof (induction bs arbitrary: s)
  case (Cons b bs)
  have inv: "pool_inv (pp_pool s)" using Cons.prems(1) by (simp add: pool_good_def)
  obtain q v where q: "pool_allocateFromBuddy (pp_pool s) b piece node = (q, v)"
    by (cases "pool_allocateFromBuddy (pp_pool s) b piece node")
  note res = pool_fromBuddy_result[OF inv q]
  show ?case
  proof (cases v)
    case (Inr got)
    then have "p' = q" "r = Some (got, b)" using Cons.prems(2) q by simp_all
    then show ?thesis using pool_good_grant[where p' = q and node = node and b = got, OF Cons.prems(1)] res Inr by simp
  next
    case (Inl e)
    let ?t = "s\<lparr>pp_pool := q\<rparr>"
    have st: "extends s ?t" using pool_good_keep[OF Cons.prems(1), of q ?t] res Inl by simp
    have "take_beside (pp_pool ?t) bs piece node = (p', r)" using Cons.prems(2) q Inl by simp
    note IH = Cons.IH[OF extends_good[OF st] this]
    show ?thesis using IH extends_trans[OF st] by (auto split: option.splits prod.splits)
  qed
qed (use pool_good_keep in \<open>auto simp: pool_good_def\<close>)

lemma demand_extends:
  assumes g: "pool_good (pp_pool s)" and r: "allocateDemand (pp_pool s) need node = (p', v)"
  shows "case v of
      Inl e \<Rightarrow> extends s (s\<lparr>pp_pool := p'\<rparr>)
    | Inr bs \<Rightarrow> extends s (s\<lparr>pp_pool := p', pp_new := pp_new s @ map (block_new node why) bs\<rparr>)"
proof (cases v)
  case (Inl e)
  then obtain L where "settled (pp_pool s) node p' [] L" using allocateDemand_result[OF g r] by auto
  then show ?thesis using Inl pool_good_keep[OF g, of p'] by (auto simp: settled_def)
next
  case (Inr bs)
  have set: "settled (pp_pool s) node p' bs []" using allocateDemand_result[OF g r] Inr by simp
  let ?gs = "map (\<lambda>b. (node, why, b)) bs"
  have "extends s (s\<lparr>pp_pool := p', pp_new := pp_new s @ map (block_new node why) bs\<rparr>)"
  proof (rule extendsI[where gs = ?gs])
    show "distinct (map as_held ?gs)"
      using set ablk_inj[of node] by (auto simp: settled_def distinct_map comp_def inj_on_def)
    have img: "as_held ` set ?gs = ablk node ` set bs" by (simp add: image_image)
    show "as_held ` set ?gs \<inter> pool_live (pp_pool s) = {}" using set img by (simp add: settled_def)
    show "pool_live (pp_pool s) \<union> as_held ` set ?gs
        \<subseteq> pool_live (pp_pool (s\<lparr>pp_pool := p', pp_new := pp_new s @ map (block_new node why) bs\<rparr>))"
      using set img by (simp add: settled_def)
    show "pool_good (pp_pool (s\<lparr>pp_pool := p', pp_new := pp_new s @ map (block_new node why) bs\<rparr>))"
      using set pool_good_settings[OF g] by (simp add: settled_def)
    show "same_settings (pp_pool s) (pp_pool (s\<lparr>pp_pool := p', pp_new := pp_new s @ map (block_new node why) bs\<rparr>))"
      using set by (simp add: settled_def)
  qed (simp add: comp_def)
  then show ?thesis using Inr by simp
qed

lemma grow_loop_extends:
  assumes "pool_good (pp_pool plan)"
    "grow_loop steps spec node pods limit required demand minAddrs plan active cidrs have added = (plan', added', early)"
  shows "extends plan plan'"
  using assms
proof (induction steps spec node pods limit required demand minAddrs plan active cidrs "have" added rule: grow_loop.induct)
  case (2 steps spec node pods limit required demand minAddrs plan active cidrs "have" added)
  let ?need = "growthNeed spec have demand (limit - have) minAddrs"
  let ?active = "sort_by (\<lambda>a b. addresses (snd b) < addresses (snd a)) active"
  let ?piece = "push_bit (bits_len (nat ?need) - 1) 1 :: int"
  show ?case
  proof (cases "(added = 0 \<or> have < required) \<and> ?need \<noteq> 0")
    case False
    then show ?thesis using "2.prems" by (auto simp: Let_def split: if_splits)
  next
    case True
    then have go: "added = 0 \<or> have < required" "?need \<noteq> 0" by simp_all
    obtain p r where tb: "take_beside (pp_pool plan) ?active ?piece node = (p, r)"
      by (cases "take_beside (pp_pool plan) ?active ?piece node")
    note tbe = take_beside_extends[OF "2.prems"(1) tb]
    show ?thesis
    proof (cases r)
      case None
      let ?t = "plan\<lparr>pp_pool := p\<rparr>"
      have t: "extends plan ?t" using tbe None by simp
      obtain q v where q: "allocateDemand (pp_pool ?t) ?need node = (q, v)"
        by (cases "allocateDemand (pp_pool ?t) ?need node")
      have "extends ?t plan'"
        using demand_extends[OF extends_good[OF t] q, of Grow] "2.prems"(2) go tb None q
        by (cases v) (auto simp: Let_def)
      then show ?thesis by (rule extends_trans[OF t])
    next
      case (Some gb)
      obtain got b where gb: "gb = (got, b)" by (cases gb)
      let ?why = "if addresses (snd got) < addresses (snd b) then GrowBeside else GrowInPlace"
      let ?t = "plan\<lparr>pp_pool := p, pp_new := pp_new plan @ [block_new node ?why got]\<rparr>"
      have t: "extends plan ?t" using take_beside_extends[OF "2.prems"(1) tb, of ?why] Some gb by simp
      have "grow_loop steps spec node pods limit required demand minAddrs ?t ?active (cidrs @ [block_cidr got])
          (capacityOf (cidrs @ [block_cidr got])) (added + 1) = (plan', added', early)"
        using "2.prems"(2) go tb Some gb by (simp add: Let_def)
      then have "extends ?t plan'"
        using "2.IH"[OF _ refl] go tb Some gb extends_good[OF t] by (simp add: Let_def)
      then show ?thesis by (rule extends_trans[OF t])
    qed
  qed
qed auto

lemma growNode_extends:
  assumes "pool_good (pp_pool plan)"
  shows "extends plan (growNode plan spec node pods capacity demand minAddrs active)"
  using grow_loop_extends[OF assms] by (auto simp: growNode_def split: prod.splits)

lemma shrinkNode_same:
  "pp_pool (shrinkNode plan spec owned pods u podCount act dr minAddrs now) = pp_pool plan \<and>
   pp_new (shrinkNode plan spec owned pods u podCount act dr minAddrs now) = pp_new plan"
  by (simp add: shrinkNode_def Let_def split: prod.splits)

lemma plan_node_extends:
  assumes g: "pool_good (pp_pool plan)"
  shows "extends plan (plan_node spec blocks inp plan n)"
proof (cases "nd_deleting n")
  case True
  then show ?thesis using g by (auto simp: plan_node_def)
next
  case False
  let ?owned = "owned_by blocks (nd_name n)"
  let ?st = "classify (pp_pool plan) ?owned"
  show ?thesis
  proof (cases "?owned = []")
    case True
    let ?size = "initialBlockSize spec (allocatablePods n)"
    obtain p r where r: "pool_allocateSpread (pp_pool plan) ?size (nd_name n) = (p, r)"
      by (cases "pool_allocateSpread (pp_pool plan) ?size (nd_name n)")
    have inv: "pool_inv (pp_pool plan)" using g by (simp add: pool_good_def)
    show ?thesis
      using pool_spread_result[OF inv r] pool_good_grant[where p' = p and node = "nd_name n" and why = Initial, OF g] pool_good_keep[OF g, of p] r False True
      by (cases r) (auto simp: plan_node_def Let_def)
  next
    case ne: False
    obtain sp ready where cs: "completeSplits plan (ns_releasing ?st) = (plan\<lparr>pp_split := sp\<rparr>, ready)"
      by (simp add: completeSplits_def)
    let ?t = "plan\<lparr>pp_split := sp\<rparr>"
    have t: "extends plan ?t" using g by (intro extends_same) simp_all
    have gt: "pool_good (pp_pool ?t)" using g by simp
    have grow: "extends ?t (growNode ?t spec node pods capacity demand minAddrs active)"
      for node pods capacity demand minAddrs active by (rule growNode_extends[OF gt])
    have shrink: "extends ?t (shrinkNode ?t spec owned pods u podCount act dr minAddrs now)"
      for owned pods u podCount act dr minAddrs now using shrinkNode_same gt by (intro extends_same) simp_all
    have "plan_node spec blocks inp plan n = plan\<lparr>pp_pending := True\<rparr> \<or>
        extends ?t (plan_node spec blocks inp plan n)"
    proof (cases "ns_in_flight ?st")
      case True
      then show ?thesis using False ne by (simp add: plan_node_def Let_def)
    next
      case nf: False
      have "extends ?t ?t" using gt by (intro extends_same) simp_all
      then have "extends ?t (plan_node spec blocks inp plan n)"
        using grow shrink
        by (simp only: plan_node_def Let_def False ne nf cs prod.case if_False split: bool.split if_split list.split) simp
      then show ?thesis by simp
    qed
    then show ?thesis using extends_trans[OF t] g by auto
  qed
qed

interpretation over_nodes: planning_pass "plan_node spec blocks inp" for spec blocks inp
  by unfold_locales (rule plan_node_extends)

text \<open>The passes of \<open>planPool\<close> extend the plan with the rebuilt pool and no new block.\<close>

lemma plan_blocks_same:
  "pp_pool (plan_blocks spec nds blocks now plan) = pp_pool plan \<and>
   pp_new (plan_blocks spec nds blocks now plan) = pp_new plan"
  unfolding plan_blocks_def by (induction blocks arbitrary: plan) auto

definition empty_plan :: "pool \<Rightarrow> problem list \<Rightarrow> pool_plan" where
  "empty_plan p problems = \<lparr>pp_pool = p, pp_new = [], pp_problems = problems, pp_exhausted = False, pp_pending = False,
     pp_drain = [], pp_undrain = [], pp_quarantine = [], pp_delete = [], pp_release = [],
     pp_unrelease = [], pp_split = [], pp_cidrs = []\<rparr>"

lemma planPool_extends:
  assumes m: "0 \<le> sp_max_block spec" and b: "buildPool spec nds blocks = (p, problems)"
  shows "extends (empty_plan p problems) (planPool spec nds blocks inp)"
proof -
  let ?e = "empty_plan p problems"
  let ?b = "plan_blocks spec nds blocks (in_now inp) ?e"
  have g: "pool_good (pp_pool ?e)" using buildPool_good[OF m b] by (simp add: empty_plan_def)
  have b1: "extends ?e ?b" using g plan_blocks_same by (intro extends_same) simp_all
  have b2: "extends ?b (foldl (plan_node spec blocks inp) ?b ns)" for ns
    by (rule over_nodes.fold_extends[OF extends_good[OF b1]])
  show ?thesis
    using extends_trans[OF b1 b2, of "sort_by (\<lambda>a b. nd_name a < nd_name b) nds"] b
    by (simp add: planPool_def Let_def empty_plan_def)
qed

subsection \<open>The addresses of the planned blocks\<close>

lemma cidr_span_block:
  "block_ok (fst b) (snd b) \<Longrightarrow> cidr_span (block_cidr b) = span (fst b) (snd b) \<and> parse_cidr (block_cidr b) \<noteq> None"
  by (simp add: cidr_span_def block_cidr_parse)

lemma pool_live_ok:
  assumes inv: "pool_inv p" and s: "ablk node b \<in> pool_live p"
  shows "block_ok (fst b) (snd b)" "\<exists>a \<in> set (pl_allocators p). span (fst b) (snd b) \<subseteq> tspan (al_root a)"
proof -
  obtain a where a: "a \<in> set (pl_allocators p)" "ablk node b \<in> live a" using s by (auto simp: pool_live_def)
  have ai: "alloc_inv a" by (rule pool_alloc_inv[OF inv a(1)])
  have "ablk node b \<in> lv a" using a(2) heldsetD(1) by (auto simp: live_def)
  then show "block_ok (fst b) (snd b)" using leaf_wf(4)[OF alloc_invD(2)[OF ai]] by fastforce
  show "\<exists>a \<in> set (pl_allocators p). span (fst b) (snd b) \<subseteq> tspan (al_root a)"
    using live_in_root[OF ai a(2)] a(1) by auto
qed

lemma planPool_disjoint:
  assumes "0 \<le> sp_max_block spec" "planPool spec nds blocks inp = plan" "buildPool spec nds blocks = (p, problems)"
  shows "(\<forall>n \<in> set (pp_new plan). parse_cidr (pb_cidr n) \<noteq> None) \<and>
    (\<forall>j < length (pp_new plan). \<forall>i < j. cidr_span (pb_cidr (pp_new plan ! i)) \<inter> cidr_span (pb_cidr (pp_new plan ! j)) = {}) \<and>
    (\<forall>n \<in> set (pp_new plan). \<forall>b \<in> set blocks. placed problems b \<longrightarrow> cidr_span (pb_cidr n) \<inter> cidr_span (nb_cidr b) = {})"
proof -
  let ?live = "pool_live (pp_pool plan)"
  have ext: "extends (empty_plan p problems) plan" using planPool_extends[OF assms(1,3)] assms(2) by blast
  obtain gs where gs: "pp_new plan = map as_new gs" "distinct (map as_held gs)"
    "as_held ` set gs \<inter> pool_live p = {}" "pool_live p \<union> as_held ` set gs \<subseteq> ?live"
    using ext by (auto simp: extends_def empty_plan_def)
  have inv: "pool_inv (pp_pool plan)" using extends_good[OF ext] by (simp add: pool_good_def)
  have sp: "cidr_span (pb_cidr (as_new g)) = tspan (as_held g) \<and> parse_cidr (pb_cidr (as_new g)) \<noteq> None"
    if "g \<in> set gs" for g
    using pool_live_ok(1)[where node = "fst g" and b = "snd (snd g)", OF inv] cidr_span_block[of "snd (snd g)"] gs(4) that
    by (auto simp: as_new_def as_held_def block_new_def)
  have new: "cidr_span (pb_cidr (pp_new plan ! i)) \<inter> cidr_span (pb_cidr (pp_new plan ! j)) = {}"
    if ij: "j < length (pp_new plan)" "i < j" for i j
  proof (rule ccontr)
    assume "cidr_span (pb_cidr (pp_new plan ! i)) \<inter> cidr_span (pb_cidr (pp_new plan ! j)) \<noteq> {}"
    moreover have ij': "i < length gs" "j < length gs" using ij gs(1) by simp_all
    ultimately have "tspan (as_held (gs ! i)) \<inter> tspan (as_held (gs ! j)) \<noteq> {}"
      using sp[of "gs ! i"] sp[of "gs ! j"] gs(1) by simp
    moreover have "as_held (gs ! i) \<in> ?live" "as_held (gs ! j) \<in> ?live" using gs(4) ij' by auto
    ultimately have "as_held (gs ! i) = as_held (gs ! j)" using pool_live_disjoint[OF inv] by blast
    then show False using gs(2) ij' ij(2) by (auto simp: distinct_conv_nth)
  qed
  have old: "cidr_span (pb_cidr n) \<inter> cidr_span (nb_cidr b) = {}"
    if n: "n \<in> set (pp_new plan)" and b: "b \<in> set blocks" "placed problems b" for n b
  proof (rule ccontr)
    assume ne: "cidr_span (pb_cidr n) \<inter> cidr_span (nb_cidr b) \<noteq> {}"
    obtain g where g: "g \<in> set gs" "n = as_new g" using n gs(1) by auto
    let ?b = "ablk (nb_node b) (pfx_of (nb_cidr b))"
    have hb: "?b \<in> pool_live p" using buildPool_good[OF assms(1,3)] b by blast
    have "tspan (as_held g) \<inter> tspan ?b \<noteq> {}" using ne sp[OF g(1)] g(2) cidr_span_sub_pfx[of "nb_cidr b"] by auto
    then have "as_held g = ?b" using pool_live_disjoint[OF inv] gs(4) g(1) hb by blast
    then show False using gs(3) g(1) hb by auto
  qed
  show ?thesis using gs(1) sp new old by auto
qed


text \<open>
  C3. Every block the planner creates is a well-formed CIDR of the node's own, disjoint from every other
  block it creates and from every NodeBlock that found its place in the rebuilt pool.
\<close>

theorem planPool_new_disjoint:
  assumes "0 \<le> sp_max_block spec" "planPool spec nds blocks inp = plan" "buildPool spec nds blocks = (p, problems)"
  shows "(\<forall>n \<in> set (pp_new plan). parse_cidr (pb_cidr n) \<noteq> None) \<and>
    (\<forall>j < length (pp_new plan). \<forall>i < j. cidr_span (pb_cidr (pp_new plan ! i)) \<inter> cidr_span (pb_cidr (pp_new plan ! j)) = {}) \<and>
    (\<forall>n \<in> set (pp_new plan). \<forall>b \<in> set blocks. placed problems b \<longrightarrow> cidr_span (pb_cidr n) \<inter> cidr_span (nb_cidr b) = {})"
  by (rule planPool_disjoint[OF assms])
text \<open>The CIDRs of the rebuilt pool are valid CIDRs of its specification.\<close>

definition roots :: "pool \<Rightarrow> bref set" where
  "roots p = set (map (ref_of \<circ> al_root) (pl_allocators p))"

lemma same_settings_roots: "same_settings p q \<Longrightarrow> roots q = roots p"
  by (simp add: same_settings_def roots_def)

lemma newBuddy_root: "newBuddyAllocator c mn mx = Inr a \<Longrightarrow> ref_of (al_root a) = pfx_of c \<and> parse_cidr c \<noteq> None"
  by (auto simp: newBuddyAllocator_def pfx_of_def Let_def split: option.splits if_splits)

lemma addCIDR_roots:
  assumes "addCIDR p c mn mx = (p', e)"
  shows "roots p' \<subseteq> insert (pfx_of c) (roots p)"
proof -
  let ?mx = "case parse_cidr c of None \<Rightarrow> mx | Some (_, n) \<Rightarrow> if mx < int (net_ones n) then int (net_ones n) else mx"
  show ?thesis
  proof (cases "newBuddyAllocator c mn ?mx")
    case (Inr a)
    then show ?thesis
      using assms newBuddy_root[OF Inr] by (auto simp: addCIDR_def Let_def roots_def setClock_def setQuarantine_def split: if_splits)
  qed (use assms in \<open>auto simp: addCIDR_def Let_def\<close>)
qed

lemma add_cidrs_roots: "add_cidrs spec p pr cs = (p', pr') \<Longrightarrow> roots p' \<subseteq> roots p \<union> pfx_of ` set cs"
proof (induction cs arbitrary: p pr)
  case (Cons c cs)
  obtain q e where q: "addCIDR p c (sp_min_block spec) (sp_max_block spec) = (q, e)"
    by (cases "addCIDR p c (sp_min_block spec) (sp_max_block spec)")
  obtain pr2 where "add_cidrs spec q pr2 cs = (p', pr')" using Cons.prems q by (cases e) auto
  then show ?case using Cons.IH addCIDR_roots[OF q] by fastforce
qed simp

lemma place_blocks_settings:
  "pool_inv p \<Longrightarrow> place_blocks p pr bs = (p', pr') \<Longrightarrow> same_settings p p'"
proof (induction bs arbitrary: p pr)
  case (Cons b bs)
  obtain q r where q: "pool_reserve p (nb_cidr b) (nb_node b) = (q, r)"
    by (cases "pool_reserve p (nb_cidr b) (nb_node b)")
  have res: "pool_inv q" "same_settings p q" using pool_reserve_result[OF Cons.prems(1) q] by simp_all
  show ?case
  proof (cases "blockPhase b = NodeBlockReleased")
    case True
    then show ?thesis using Cons by simp
  next
    case False
    then obtain pr2 where "place_blocks q pr2 bs = (p', pr')" using Cons.prems(2) q by (cases r) auto
    then show ?thesis using Cons.IH[OF res(1)] same_settings_trans[OF res(2)] by blast
  qed
qed simp

lemma buildPool_roots:
  assumes m: "0 \<le> sp_max_block spec" and b: "buildPool spec nds blocks = (p, pr)"
  shows "roots p \<subseteq> pfx_of ` set (fst (validCIDRs spec nds))"
proof -
  obtain cs pr0 where v: "validCIDRs spec nds = (cs, pr0)" by (cases "validCIDRs spec nds")
  obtain q pr1 where q: "add_cidrs spec newPool pr0 cs = (q, pr1)" by (cases "add_cidrs spec newPool pr0 cs")
  have "place_blocks q pr1 (sort_by (\<lambda>a b. nb_cidr a < nb_cidr b) blocks) = (p, pr)"
    using b v q by (simp add: buildPool_def)
  moreover have "pool_inv q" using add_cidrs_good[OF newPool_good m q] by (simp add: pool_good_def)
  ultimately have "roots p = roots q" using place_blocks_settings same_settings_roots by blast
  then show ?thesis using add_cidrs_roots[OF q] v by (simp add: roots_def newPool_def)
qed

lemma validCIDRs_ok: "c \<in> set (fst (validCIDRs spec nds)) \<Longrightarrow> c \<in> set (sp_cidrs spec) \<and> cidr_problem spec nds c = None"
proof -
  have "c \<in> set (fst (foldl (\<lambda>(ok, problems) c. case cidr_problem spec nds c of
         Some bad \<Rightarrow> (ok, problems @ [bad]) | None \<Rightarrow> (ok @ [c], problems)) a cs)) \<Longrightarrow>
      c \<in> set (fst a) \<or> c \<in> set cs \<and> cidr_problem spec nds c = None" for a cs
    by (induction cs arbitrary: a) (fastforce split: option.splits prod.splits)+
  from this[of "([], [])"] show "c \<in> set (fst (validCIDRs spec nds)) \<Longrightarrow>
      c \<in> set (sp_cidrs spec) \<and> cidr_problem spec nds c = None" by (simp add: validCIDRs_def)
qed

lemma node_conflict_None:
  assumes "node_conflict c n nds = None" "nd \<in> set nds" "(''InternalIP'', a) \<in> set (nd_addresses nd)" "parse_ip a = Some ip"
  shows "\<not> net_contains n ip"
proof -
  define f :: "node \<Rightarrow> problem option \<Rightarrow> string \<times> string \<Rightarrow> problem option" where
    "f = (\<lambda>nd bad (ty, address). if ty \<noteq> ''InternalIP'' then bad
         else (case parse_ip address of
                 Some ip \<Rightarrow> if net_contains n ip then Some (ContainsNodeIP c address (nd_name nd)) else bad
               | None \<Rightarrow> bad))"
  have keep: "f nd bad ta = None \<Longrightarrow> bad = None" for nd bad ta
    by (auto simp: f_def split: prod.splits if_splits option.splits)
  have inner: "foldl (f nd) bad tas = None \<Longrightarrow> bad = None \<and> (\<forall>ta \<in> set tas. f nd None ta = None)" for nd bad tas
  proof (induction tas arbitrary: bad)
    case (Cons ta tas)
    then have "f nd bad ta = None \<and> (\<forall>ta \<in> set tas. f nd None ta = None)" by simp
    then show ?case using keep[of nd bad ta] by auto
  qed simp
  have "foldl (\<lambda>bad nd. foldl (f nd) bad (nd_addresses nd)) bad nds = None \<Longrightarrow>
      bad = None \<and> (\<forall>nd \<in> set nds. foldl (f nd) None (nd_addresses nd) = None)" for bad
  proof (induction nds arbitrary: bad)
    case (Cons nd nds)
    then have "foldl (f nd) bad (nd_addresses nd) = None \<and>
        (\<forall>nd \<in> set nds. foldl (f nd) None (nd_addresses nd) = None)" by simp
    then show ?case using inner[of nd bad "nd_addresses nd"] by auto
  qed simp
  then have outer: "foldl (\<lambda>bad nd. foldl (f nd) bad (nd_addresses nd)) None nds = None \<Longrightarrow>
      foldl (f nd) None (nd_addresses nd) = None" using assms(2) by blast
  have "node_conflict c n nds = foldl (\<lambda>bad nd. foldl (f nd) bad (nd_addresses nd)) None nds"
    by (simp add: node_conflict_def f_def)
  then have "foldl (f nd) None (nd_addresses nd) = None" using outer assms(1) by simp
  then have "f nd None (''InternalIP'', a) = None" using inner assms(3) by blast
  then have "(if net_contains n ip then Some (ContainsNodeIP c a (nd_name nd)) else None) = None"
    using assms(4) by (simp add: f_def)
  then show ?thesis by (simp split: if_splits)
qed

lemma cidr_span_parse:
  assumes "parse_cidr c = Some (ip, n)"
  shows "cidr_span c = span (net_ip n) (net_ones n)" "block_ok (net_ip n) (net_ones n)"
  using parse_cidr_bounds[OF assms] assms by (simp_all add: cidr_span_def block_ok_def addresses_def)

lemma net_contains_span:
  assumes "parse_cidr c = Some (ip, n)"
  shows "net_contains n x \<longleftrightarrow> unat x \<in> cidr_span c"
proof -
  have "net_contains \<lparr>net_ip = net_ip n, net_ones = net_ones n\<rparr> x \<longleftrightarrow> unat x \<in> span (net_ip n) (net_ones n)"
    using net_contains_iff[OF parse_cidr_bounds(3)[OF assms]] by (simp add: span_def addresses_def)
  then show ?thesis using cidr_span_parse(1)[OF assms] by (simp add: net_contains_def)
qed

lemma nets_apart:
  assumes "parse_cidr c = Some (cip, cn)" "parse_cidr r = Some (rip, rn)"
    "\<not> net_contains rn (net_ip cn)" "\<not> net_contains cn (net_ip rn)"
  shows "cidr_span r \<inter> cidr_span c = {}"
proof (rule ccontr)
  assume ne: "cidr_span r \<inter> cidr_span c \<noteq> {}"
  note cs = cidr_span_parse[OF assms(1)] and rs = cidr_span_parse[OF assms(2)]
  have out: "unat (net_ip cn) \<notin> cidr_span r" "unat (net_ip rn) \<notin> cidr_span c"
    using assms(3,4) net_contains_span[OF assms(2)] net_contains_span[OF assms(1)] by simp_all
  have "cidr_span r \<subseteq> cidr_span c \<or> cidr_span c \<subseteq> cidr_span r"
    using aligned_nested[OF cs(2) rs(2)] aligned_nested[OF rs(2) cs(2)] ne nat_le_linear
    unfolding cs(1) rs(1) by (metis Int_commute)
  then show False using out base_in_span cs(1) rs(1) by blast
qed

lemma planPool_new_root:
  assumes "0 \<le> sp_max_block spec" "buildPool spec nds blocks = (p, problems)"
    "n \<in> set (pp_new (planPool spec nds blocks inp))"
  shows "\<exists>r \<in> roots p. cidr_span (pb_cidr n) \<subseteq> span (fst r) (snd r)"
proof -
  let ?plan = "planPool spec nds blocks inp"
  have ext: "extends (empty_plan p problems) ?plan" by (rule planPool_extends[OF assms(1,2)])
  obtain gs where gs: "pp_new ?plan = map as_new gs" "as_held ` set gs \<subseteq> pool_live (pp_pool ?plan)"
    using ext by (auto simp: extends_def empty_plan_def)
  have inv: "pool_inv (pp_pool ?plan)" using extends_good[OF ext] by (simp add: pool_good_def)
  obtain g where g: "g \<in> set gs" "n = as_new g" using assms(3) gs(1) by auto
  have h: "ablk (fst g) (snd (snd g)) \<in> pool_live (pp_pool ?plan)" using gs(2) g(1) by (auto simp: as_held_def)
  obtain a where a: "a \<in> set (pl_allocators (pp_pool ?plan))" "span (fst (snd (snd g))) (snd (snd (snd g))) \<subseteq> tspan (al_root a)"
    using pool_live_ok(2)[OF inv h] by blast
  have sn: "cidr_span (pb_cidr n) = span (fst (snd (snd g))) (snd (snd (snd g)))"
    using cidr_span_block[OF pool_live_ok(1)[OF inv h]] g(2) by (simp add: as_new_def block_new_def)
  have "ref_of (al_root a) \<in> roots (pp_pool ?plan)" using a(1) by (auto simp: roots_def)
  then have "ref_of (al_root a) \<in> roots p"
    using same_settings_roots[OF extends_settings[OF ext]] by (simp add: empty_plan_def)
  then show ?thesis using a(2) sn by (intro bexI[of _ "ref_of (al_root a)"]) simp_all
qed

text \<open>
  C23. A planned block lies inside one of the pool's CIDRs, contains no node's \<open>InternalIP\<close> and
  overlaps no reserved range.
\<close>

theorem planPool_new_valid:
  assumes "0 \<le> sp_max_block spec" "planPool spec nds blocks inp = plan" "n \<in> set (pp_new plan)"
  shows "(\<exists>c \<in> set (sp_cidrs spec). cidr_span (pb_cidr n) \<subseteq> cidr_span c) \<and>
    (\<forall>nd \<in> set nds. \<forall>a ip. (''InternalIP'', a) \<in> set (nd_addresses nd) \<and> parse_ip a = Some ip \<longrightarrow>
       unat ip \<notin> cidr_span (pb_cidr n)) \<and>
    (\<forall>r \<in> set (sp_reserved spec). parse_cidr r \<noteq> None \<longrightarrow> cidr_span r \<inter> cidr_span (pb_cidr n) = {})"
proof -
  obtain p problems where b: "buildPool spec nds blocks = (p, problems)" by (cases "buildPool spec nds blocks")
  obtain r where r: "r \<in> roots p" "cidr_span (pb_cidr n) \<subseteq> span (fst r) (snd r)"
    using planPool_new_root[OF assms(1) b] assms(2,3) by blast
  obtain c where c: "c \<in> set (fst (validCIDRs spec nds))" "r = pfx_of c"
    using buildPool_roots[OF assms(1) b] r(1) by auto
  note ok = validCIDRs_ok[OF c(1)]
  have pc: "parse_cidr c \<noteq> None" using ok by (auto simp: cidr_problem_def split: option.splits)
  have sub: "cidr_span (pb_cidr n) \<subseteq> cidr_span c" using r(2) c(2) cidr_span_pfx[OF pc] by simp
  obtain cip cn where cn: "parse_cidr c = Some (cip, cn)" using ok by (auto simp: cidr_problem_def split: option.splits)
  have apart: "find (\<lambda>r. net_contains r (net_ip cn) \<or> net_contains cn (net_ip r)) (reserved_nets spec) = None"
    and nc: "node_conflict c cn nds = None"
    using ok cn by (auto simp: cidr_problem_def split: option.splits)
  have rs: "cidr_span r \<inter> cidr_span (pb_cidr n) = {}" if r: "r \<in> set (sp_reserved spec)" "parse_cidr r \<noteq> None" for r
  proof -
    obtain rip rn where rn: "parse_cidr r = Some (rip, rn)" using r(2) by auto
    have "rn \<in> set (reserved_nets spec)" using r(1) rn by (force simp: reserved_nets_def)
    then have "\<not> net_contains rn (net_ip cn)" "\<not> net_contains cn (net_ip rn)" using apart by (auto simp: find_None_iff)
    then have "cidr_span r \<inter> cidr_span c = {}" by (rule nets_apart[OF cn rn])
    then show ?thesis using sub by blast
  qed
  show ?thesis
    using sub ok rs node_conflict_None[OF nc] net_contains_span[OF cn] by blast
qed

end
