(* ===== verification/Rebuild.thy ===== *)
theory Rebuild
  imports Plan_Props
begin

text \<open>
  The controller keeps no state of its own: every pass rebuilds the pool from the NodeBlocks. This theory
  shows that the rebuilt pool holds exactly those blocks, for every set of disjoint blocks inside the
  pool's ranges and in whatever order they are listed.
\<close>

text \<open>A pool in which nothing is quarantined: then everything held is live.\<close>

definition pool_clear :: "pool \<Rightarrow> bool" where
  "pool_clear p \<longleftrightarrow> (\<forall>a \<in> set (pl_allocators p). \<forall>s \<in> heldset a. \<not> is_BlockQuarantined s)"

lemma clear_live: "pool_clear p \<Longrightarrow> a \<in> set (pl_allocators p) \<Longrightarrow> heldset a = live a"
  by (auto simp: pool_clear_def live_def is_due_def)

lemma span_sub_plen:
  assumes "span b n \<subseteq> span c m" "n \<le> 32" "m \<le> 32"
  shows "m \<le> n"
proof -
  have card: "card (span x k) = addresses k" for x k by (simp add: span_def)
  have "addresses n \<le> addresses m" using card_mono[OF _ assms(1)] card by (simp add: span_def)
  then show ?thesis using assms(2,3) by (simp add: addresses_def)
qed

lemma owner_index_root:
  assumes inv: "pool_inv p" and r: "r \<in> roots p" and c: "parse_cidr c = Some (ip, n)"
    and sub: "span (net_ip n) (net_ones n) \<subseteq> span (fst r) (snd r)"
  shows "\<exists>i. owner_index p c = Some i \<and> ref_of (al_root (pl_allocators p ! i)) = r \<and> i < length (pl_allocators p)"
proof -
  let ?A = "pl_allocators p"
  have ai: "alloc_inv (?A ! j)" if "j < length ?A" for j using that inv by (simp add: pool_inv_def)
  obtain i where i: "i < length ?A" "ref_of (al_root (?A ! i)) = r"
    using r by (auto simp: roots_def in_set_conv_nth)
  have n32: "net_ones n \<le> 32" by (rule parse_cidr_bounds(1)[OF c])
  have r32: "snd r \<le> 32" using wf_block_ok[OF alloc_invD(2)[OF ai[OF i(1)]]] i(2) by (auto simp: block_ok_def)
  have in_i: "al_contains (?A ! i) c"
    using al_contains_iff[OF ai[OF i(1)] c] sub i(2) span_sub_plen[OF sub n32 r32] by auto
  have uniq: "j = i" if j: "j < length ?A" "al_contains (?A ! j) c" for j
  proof (rule ccontr)
    assume "j \<noteq> i"
    moreover have "span (net_ip n) (net_ones n) \<subseteq> tspan (al_root (?A ! j)) \<inter> tspan (al_root (?A ! i))"
      using al_contains_iff[OF ai[OF j(1)] c] al_contains_iff[OF ai[OF i(1)] c] j(2) in_i by simp
    moreover have "j \<noteq> i \<Longrightarrow> tspan (al_root (?A ! j)) \<inter> tspan (al_root (?A ! i)) = {}"
      using inv i(1) j(1) unfolding pool_inv_def roots_apart_def by blast
    ultimately show False using base_in_span by blast
  qed
  have "owner_index p c = Some i"
    unfolding owner_index_def find_upt_Some using i(1) in_i uniq by (metis less_trans not_less_iff_gr_or_eq)
  then show ?thesis using i by blast
qed

lemma pool_reserve_possible:
  assumes inv: "pool_inv p" and clear: "pool_clear p" and r: "r \<in> roots p" and c: "parse_cidr c = Some (ip, n)"
    and sub: "cidr_span c \<subseteq> span (fst r) (snd r)"
    and free: "\<forall>s \<in> pool_live p. tspan s \<inter> cidr_span c = {}"
  shows "\<exists>p'. pool_reserve p c node = (p', Inr (net_ip n, net_ones n)) \<and> pool_clear p'"
proof -
  let ?A = "pl_allocators p"
  have sp: "cidr_span c = span (net_ip n) (net_ones n)" using c by (simp add: cidr_span_def)
  obtain i where i: "owner_index p c = Some i" "ref_of (al_root (?A ! i)) = r" "i < length ?A"
    using owner_index_root[OF inv r c] sub sp by auto
  have ai: "alloc_inv (?A ! i)" using inv i(3) by (simp add: pool_inv_def)
  have mem: "?A ! i \<in> set ?A" using i(3) by simp
  have r32: "snd r \<le> 32" using wf_block_ok[OF alloc_invD(2)[OF ai]] i(2) by (auto simp: block_ok_def)
  have "blk_plen (al_root (?A ! i)) \<le> net_ones n" "span (net_ip n) (net_ones n) \<subseteq> tspan (al_root (?A ! i))"
    using sub sp i(2) span_sub_plen[of "net_ip n" "net_ones n" "fst r" "snd r"] parse_cidr_bounds(1)[OF c] r32 by auto
  moreover have "\<forall>s \<in> heldset (?A ! i). tspan s \<inter> span (net_ip n) (net_ones n) = {}"
    using free clear_live[OF clear mem] mem sp by (auto simp: pool_live_def)
  ultimately obtain a' where a': "al_reserve (?A ! i) c node = (a', Inr (net_ip n, net_ones n))"
    using al_reserve_possible[OF ai c] by blast
  have "pool_clear (p\<lparr>pl_allocators := ?A[i := a']\<rparr>)"
    unfolding pool_clear_def
  proof (intro ballI)
    fix a s assume as: "a \<in> set (pl_allocators (p\<lparr>pl_allocators := ?A[i := a']\<rparr>))" "s \<in> heldset a"
    then have "a = a' \<or> a \<in> set ?A" using set_update_subset_insert[of ?A i a'] by auto
    then show "\<not> is_BlockQuarantined s"
      using al_reserve_Inr(4)[OF ai c a'] as(2) clear mem by (auto simp: pool_clear_def)
  qed
  then show ?thesis using a' i(1) by (simp add: pool_reserve_def at_owner_def)
qed

text \<open>Blocks that fit a set of ranges: well-formed, inside one of the ranges each, and pairwise disjoint.\<close>

definition fits :: "bref set \<Rightarrow> node_block \<Rightarrow> bool" where
  "fits R b \<longleftrightarrow> parse_cidr (nb_cidr b) \<noteq> None \<and> (\<exists>r \<in> R. cidr_span (nb_cidr b) \<subseteq> span (fst r) (snd r))"

definition apart_blocks :: "node_block list \<Rightarrow> bool" where
  "apart_blocks bs \<longleftrightarrow> pairwise (\<lambda>b c. cidr_span (nb_cidr b) \<inter> cidr_span (nb_cidr c) = {}) (set bs)"

definition recorded :: "node_block list \<Rightarrow> btree set" where
  "recorded bs = (\<lambda>b. ablk (nb_node b) (pfx_of (nb_cidr b))) ` {b \<in> set bs. blockPhase b \<noteq> NodeBlockReleased}"

lemma place_blocks_all:
  assumes "pool_good p" "pool_clear p" "distinct bs" "apart_blocks bs" "\<forall>b \<in> set bs. fits (roots p) b"
    "\<forall>b \<in> set bs. \<forall>s \<in> pool_live p. tspan s \<inter> cidr_span (nb_cidr b) = {}"
  shows "\<exists>p'. place_blocks p pr bs = (p', pr) \<and> pool_live p' = pool_live p \<union> recorded bs"
  using assms
proof (induction bs arbitrary: p)
  case Nil
  then show ?case by (simp add: recorded_def)
next
  case (Cons b bs)
  have rest: "distinct bs" "apart_blocks bs" using Cons.prems(3,4) by (auto simp: apart_blocks_def pairwise_def)
  show ?case
  proof (cases "blockPhase b = NodeBlockReleased")
    case True
    then have "recorded (b # bs) = recorded bs" by (auto simp: recorded_def)
    then show ?thesis using Cons.IH[OF Cons.prems(1,2) rest] Cons.prems(5,6) True by simp
  next
    case False
    obtain ip n where n: "parse_cidr (nb_cidr b) = Some (ip, n)" using Cons.prems(5) by (auto simp: fits_def)
    obtain r where r: "r \<in> roots p" "cidr_span (nb_cidr b) \<subseteq> span (fst r) (snd r)"
      using Cons.prems(5) by (auto simp: fits_def)
    have inv: "pool_inv p" using Cons.prems(1) by (simp add: pool_good_def)
    obtain q where q: "pool_reserve p (nb_cidr b) (nb_node b) = (q, Inr (net_ip n, net_ones n))" "pool_clear q"
      using pool_reserve_possible[OF inv Cons.prems(2) r(1) n r(2)] Cons.prems(6) by fastforce
    note res = pool_reserve_result[OF inv q(1)]
    have px: "pfx_of (nb_cidr b) = (net_ip n, net_ones n)" using n by (simp add: pfx_of_def)
    have live: "pool_live q = insert (ablk (nb_node b) (pfx_of (nb_cidr b))) (pool_live p)" using res px by simp
    have sp: "cidr_span (nb_cidr b) = span (net_ip n) (net_ones n)" using n by (simp add: cidr_span_def)
    have "roots q = roots p" using same_settings_roots res by blast
    moreover have "\<forall>c \<in> set bs. \<forall>s \<in> pool_live q. tspan s \<inter> cidr_span (nb_cidr c) = {}"
      using Cons.prems(3,4,6) live sp px by (auto simp: apart_blocks_def pairwise_def)
    moreover have "pool_good q" using pool_good_settings[OF Cons.prems(1)] res by blast
    ultimately obtain p' where p': "place_blocks q pr bs = (p', pr)" "pool_live p' = pool_live q \<union> recorded bs"
      using Cons.IH[OF _ q(2) rest] Cons.prems(5) by auto
    have "recorded (b # bs) = insert (ablk (nb_node b) (pfx_of (nb_cidr b))) (recorded bs)"
      using False by (auto simp: recorded_def)
    then show ?thesis using p' q(1) live False by auto
  qed
qed

definition no_misplaced :: "problem list \<Rightarrow> bool" where
  "no_misplaced pr \<longleftrightarrow> (\<forall>n c e. CannotPlace n c e \<notin> set pr)"

lemma no_misplaced_snoc [simp]:
  "no_misplaced (pr @ [x]) \<longleftrightarrow> no_misplaced pr \<and> (\<forall>n c e. x \<noteq> CannotPlace n c e)"
  by (auto simp: no_misplaced_def)

lemma node_conflict_kind:
  assumes "node_conflict c n nds = Some x"
  shows "\<exists>a m. x = ContainsNodeIP c a m"
proof -
  have "\<forall>x. node_conflict c n nds = Some x \<longrightarrow> (\<exists>a m. x = ContainsNodeIP c a m)"
    unfolding node_conflict_def
    by (rule foldl_invariant, rule foldl_invariant) (auto split: prod.splits if_splits option.splits)
  then show ?thesis using assms by blast
qed

lemma validCIDRs_kinds: "no_misplaced (snd (validCIDRs spec nds))"
proof -
  have prob: "cidr_problem spec nds c \<noteq> Some (CannotPlace m d e)" for c m d e
    using node_conflict_kind[of c _ nds "CannotPlace m d e"] by (auto simp: cidr_problem_def split: option.splits)
  show ?thesis
    unfolding validCIDRs_def
    by (rule foldl_invariant) (use prob in \<open>auto simp: no_misplaced_def split: option.splits\<close>)
qed

lemma add_cidrs_kinds: "no_misplaced pr \<Longrightarrow> add_cidrs spec p pr cs = (p', pr') \<Longrightarrow> no_misplaced pr'"
proof (induction cs arbitrary: p pr)
  case (Cons c cs)
  obtain q e where q: "addCIDR p c (sp_min_block spec) (sp_max_block spec) = (q, e)"
    by (cases "addCIDR p c (sp_min_block spec) (sp_max_block spec)")
  show ?case
  proof (cases e)
    case None
    then show ?thesis using Cons q by simp
  next
    case (Some x)
    then show ?thesis using Cons.IH[of "pr @ [CannotAdd x]" q] Cons.prems q by simp
  qed
qed simp

lemma newBuddy_clear: "newBuddyAllocator c mn mx = Inr a \<Longrightarrow> heldset a = {}"
  by (auto simp: newBuddyAllocator_def heldset_def addFree_def Let_def split: option.splits if_splits)

lemma addCIDR_clear:
  assumes "pool_clear p" "addCIDR p c mn mx = (p', e)"
  shows "pool_clear p'"
proof -
  let ?mx = "case parse_cidr c of None \<Rightarrow> mx | Some (_, n) \<Rightarrow> if mx < int (net_ones n) then int (net_ones n) else mx"
  show ?thesis
  proof (cases "newBuddyAllocator c mn ?mx")
    case (Inr a)
    have "heldset (setClock (setQuarantine a q) t) = heldset a" for q t
      by (simp add: heldset_def setClock_def setQuarantine_def)
    then show ?thesis
      using assms newBuddy_clear[OF Inr] Inr by (auto simp: addCIDR_def Let_def pool_clear_def split: if_splits)
  qed (use assms in \<open>auto simp: addCIDR_def Let_def\<close>)
qed

lemma add_cidrs_clear: "pool_clear p \<Longrightarrow> add_cidrs spec p pr cs = (p', pr') \<Longrightarrow> pool_clear p'"
proof (induction cs arbitrary: p pr)
  case (Cons c cs)
  obtain q e where q: "addCIDR p c (sp_min_block spec) (sp_max_block spec) = (q, e)"
    by (cases "addCIDR p c (sp_min_block spec) (sp_max_block spec)")
  obtain pr2 where "add_cidrs spec q pr2 cs = (p', pr')" using Cons.prems(2) q by (cases e) auto
  then show ?case using Cons.IH addCIDR_clear[OF Cons.prems(1) q] by blast
qed simp

definition pool_ranges :: "pool_spec \<Rightarrow> node list \<Rightarrow> bref set" where
  "pool_ranges spec nds = roots (fst (buildPool spec nds []))"

lemma apart_sort: "apart_blocks (sort_by lt bs) = apart_blocks bs"
  by (simp add: apart_blocks_def)

lemma recorded_sort: "recorded (sort_by lt bs) = recorded bs"
  by (simp add: recorded_def)

lemma buildPool_exact:
  assumes m: "0 \<le> sp_max_block spec" and bs: "distinct bs" "apart_blocks bs" "\<forall>b \<in> set bs. fits (pool_ranges spec nds) b"
  shows "\<exists>p. buildPool spec nds bs = (p, snd (buildPool spec nds [])) \<and> pool_live p = recorded bs \<and> roots p = pool_ranges spec nds"
    "no_misplaced (snd (buildPool spec nds []))"
proof -
  obtain cs pr0 where v: "validCIDRs spec nds = (cs, pr0)" by (cases "validCIDRs spec nds")
  obtain q pr1 where q: "add_cidrs spec newPool pr0 cs = (q, pr1)" by (cases "add_cidrs spec newPool pr0 cs")
  have e: "buildPool spec nds [] = (q, pr1)" using v q by (simp add: buildPool_def)
  have g: "pool_good q" "pool_live q = {}"
    using add_cidrs_good[OF newPool_good m q] by (auto simp: pool_live_def newPool_def)
  have c: "pool_clear q" by (rule add_cidrs_clear[OF _ q]) (simp add: pool_clear_def newPool_def)
  have rq: "roots q = pool_ranges spec nds" using e by (simp add: pool_ranges_def)
  obtain p where p: "place_blocks q pr1 (sort_by (\<lambda>a b. nb_cidr a < nb_cidr b) bs) = (p, pr1)" "pool_live p = recorded bs"
    using place_blocks_all[OF g(1) c, of "sort_by (\<lambda>a b. nb_cidr a < nb_cidr b) bs" pr1] bs g(2) rq
    by (auto simp: apart_sort recorded_sort)
  have "same_settings q p" using place_blocks_settings p(1) g(1) by (auto simp: pool_good_def)
  then show "\<exists>p. buildPool spec nds bs = (p, snd (buildPool spec nds [])) \<and> pool_live p = recorded bs \<and>
      roots p = pool_ranges spec nds"
    using p v q e rq same_settings_roots by (auto simp: buildPool_def)
  show "no_misplaced (snd (buildPool spec nds []))"
    using add_cidrs_kinds[OF _ q] validCIDRs_kinds[of spec nds] v e by simp
qed

text \<open>
  C17. Rebuilding is exact: the pool built from disjoint NodeBlocks inside its ranges holds precisely
  the blocks they record, each for its node, reports no block that cannot be placed, and does not depend
  on the order in which they are listed.
\<close>

theorem buildPool_rebuilds:
  assumes "0 \<le> sp_max_block spec" "distinct bs" "apart_blocks bs" "\<forall>b \<in> set bs. fits (pool_ranges spec nds) b"
  shows "pool_live (fst (buildPool spec nds bs)) = recorded bs \<and>
    (\<forall>b \<in> set bs. blockPhase b \<noteq> NodeBlockReleased \<longrightarrow> placed (snd (buildPool spec nds bs)) b) \<and>
    (\<forall>cs. set cs = set bs \<and> distinct cs \<longrightarrow>
       pool_live (fst (buildPool spec nds cs)) = pool_live (fst (buildPool spec nds bs)) \<and>
       snd (buildPool spec nds cs) = snd (buildPool spec nds bs))"
proof -
  note b = buildPool_exact[OF assms]
  have "pool_live (fst (buildPool spec nds cs)) = recorded bs \<and> snd (buildPool spec nds cs) = snd (buildPool spec nds [])"
    if "set cs = set bs" "distinct cs" for cs
    using buildPool_exact(1)[OF assms(1) that(2), of nds] assms(3,4) that(1) by (auto simp: apart_blocks_def recorded_def)
  then show ?thesis using b by (auto simp: placed_def no_misplaced_def)
qed

end
