(* ===== verification/Controller_Inv.thy ===== *)
theory Controller_Inv
  imports Controller Rebuild
begin

text \<open>
  What a controller pass keeps of the cluster, whatever the API server answers: the stored NodeBlocks
  stay disjoint, inside the pool's ranges and with the pool's reference. A pass may stop after any call
  (an error, or a write whose answer is lost), so this covers a crash between any two of its steps.
\<close>

definition kube_laws :: "('c, 'z) kube_scheme \<Rightarrow> ('c \<Rightarrow> store) \<Rightarrow> bool" where
  "kube_laws A st \<longleftrightarrow> api_laws A st \<and>
     (\<forall>s. st (fst (a_pools A s)) = st s) \<and> (\<forall>s n. st (fst (a_get_pool A s n)) = st s) \<and>
     (\<forall>s p. st (fst (a_update_pool_status A s p)) = st s) \<and> (\<forall>s. st (fst (a_nodes A s)) = st s) \<and>
     (\<forall>s. st (fst (a_pods A s)) = st s) \<and> (\<forall>s. st (fst (a_events A s)) = st s) \<and>
     (\<forall>f. (\<forall>x. st (fst (fst (f x))) = st (fst x)) \<longrightarrow> (\<forall>x. st (fst (fst (a_retry A f x))) = st (fst x)))"

lemma kube_lawsD:
  assumes "kube_laws A st"
  shows "api_laws A st" "st (fst (a_pools A s)) = st s" "st (fst (a_get_pool A s n)) = st s"
    "st (fst (a_update_pool_status A s p)) = st s" "st (fst (a_nodes A s)) = st s" "st (fst (a_pods A s)) = st s"
    "st (fst (a_events A s)) = st s" "(\<And>x. st (fst (fst (f x))) = st (fst x)) \<Longrightarrow> st (fst (fst (a_retry A f y))) = st (fst y)"
  using assms unfolding kube_laws_def by blast+

text \<open>The invariant of the stored blocks of a pool with the ranges \<open>R\<close>.\<close>

definition cluster_inv :: "string \<Rightarrow> bref set \<Rightarrow> store \<Rightarrow> bool" where
  "cluster_inv pool R m \<longleftrightarrow>
     (\<forall>n b. m n = Some b \<longrightarrow> nb_name b = n \<and> blockPhase b \<noteq> NodeBlockReleased \<and> nb_pool b = pool \<and> fits R b) \<and>
     (\<forall>n k b c. m n = Some b \<longrightarrow> m k = Some c \<longrightarrow> n \<noteq> k \<longrightarrow> cidr_span (nb_cidr b) \<inter> cidr_span (nb_cidr c) = {})"

lemma cluster_invD:
  assumes "cluster_inv pool R m" "m n = Some b"
  shows "nb_name b = n" "blockPhase b \<noteq> NodeBlockReleased" "nb_pool b = pool" "fits R b"
    "m k = Some c \<Longrightarrow> n \<noteq> k \<Longrightarrow> cidr_span (nb_cidr b) \<inter> cidr_span (nb_cidr c) = {}"
  using assms unfolding cluster_inv_def by blast+

lemma cluster_inv_put:
  assumes inv: "cluster_inv pool R m" and b: "nb_name b = n" "blockPhase b \<noteq> NodeBlockReleased" "nb_pool b = pool" "fits R b"
    and apart: "\<And>k c. m k = Some c \<Longrightarrow> n \<noteq> k \<Longrightarrow> cidr_span (nb_cidr b) \<inter> cidr_span (nb_cidr c) = {}"
  shows "cluster_inv pool R (m(n \<mapsto> b))"
  unfolding cluster_inv_def
proof (intro conjI allI impI)
  fix k c assume "(m(n \<mapsto> b)) k = Some c"
  then have "k = n \<and> c = b \<or> m k = Some c" by (auto split: if_splits)
  then show "nb_name c = k" "blockPhase c \<noteq> NodeBlockReleased" "nb_pool c = pool" "fits R c"
    using b cluster_invD[OF inv] by blast+
next
  fix k l c d assume c: "(m(n \<mapsto> b)) k = Some c" and d: "(m(n \<mapsto> b)) l = Some d" and "k \<noteq> l"
  show "cidr_span (nb_cidr c) \<inter> cidr_span (nb_cidr d) = {}"
  proof (cases "k = n")
    case True
    then show ?thesis using c d apart[of l d] \<open>k \<noteq> l\<close> by simp
  next
    case False
    then show ?thesis
      using c d apart[of k c] cluster_invD(5)[OF inv, of k c l d] \<open>k \<noteq> l\<close> by (cases "l = n") (auto simp: Int_commute)
  qed
qed

lemma fits_sub: "fits R b \<Longrightarrow> cidr_span c \<subseteq> cidr_span (nb_cidr b) \<Longrightarrow> parse_cidr c \<noteq> None \<Longrightarrow> nb_cidr d = c \<Longrightarrow> fits R d"
  unfolding fits_def by auto

lemma cluster_inv_update:
  assumes inv: "cluster_inv pool R m" and u: "updates m b b' m'" and old: "m (nb_name b) = Some old"
    and b: "nb_pool b = pool" "parse_cidr (nb_cidr b) \<noteq> None" "cidr_span (nb_cidr b) \<subseteq> cidr_span (nb_cidr old)"
  shows "cluster_inv pool R m'"
proof -
  have s: "same_spec b b'" "same_status old b'" "m' = m(nb_name b \<mapsto> b')" using u old by (auto simp: updates_def)
  note o = cluster_invD[OF inv old]
  have ph: "blockPhase b' = blockPhase old" using s(2) by (simp add: same_status_def blockPhase_def)
  have sp: "nb_cidr b' = nb_cidr b" "nb_name b' = nb_name b" "nb_pool b' = nb_pool b" using s(1) by (simp_all add: same_spec_def)
  show ?thesis
    unfolding s(3)
  proof (rule cluster_inv_put[OF inv])
    show "fits R b'" using fits_sub[OF o(4) b(3,2) sp(1)] .
    fix k c assume "m k = Some c" "nb_name b \<noteq> k"
    then show "cidr_span (nb_cidr b') \<inter> cidr_span (nb_cidr c) = {}" using o(5) b(3) sp(1) by fastforce
  qed (use sp ph o b in simp_all)
qed

lemma cluster_inv_status:
  assumes inv: "cluster_inv pool R m" and u: "updates_status m b b' m'" and ph: "nb_phase b \<noteq> NodeBlockReleased"
  shows "cluster_inv pool R m'"
proof -
  obtain old where s: "m (nb_name b) = Some old" "same_spec old b'" "same_status b b'" "m' = m(nb_name b \<mapsto> b')"
    using u by (auto simp: updates_status_def)
  note o = cluster_invD[OF inv s(1)]
  have ph': "blockPhase b' \<noteq> NodeBlockReleased" using s(3) ph by (simp add: same_status_def blockPhase_def)
  have sp: "nb_cidr b' = nb_cidr old" "nb_name b' = nb_name old" "nb_pool b' = nb_pool old"
    using s(2) by (simp_all add: same_spec_def)
  show ?thesis
    unfolding s(4)
  proof (rule cluster_inv_put[OF inv])
    show "fits R b'" using o(4) sp(1) by (simp add: fits_def)
    fix k c assume "m k = Some c" "nb_name b \<noteq> k"
    then show "cidr_span (nb_cidr b') \<inter> cidr_span (nb_cidr c) = {}" using o(5) sp(1) by fastforce
  qed (use sp ph' o in simp_all)
qed

lemma cluster_inv_create:
  assumes inv: "cluster_inv pool R m" and u: "creates m b b' m'"
    and b: "nb_phase b \<noteq> NodeBlockReleased" "nb_pool b = pool" "fits R b"
    and apart: "\<And>k c. m k = Some c \<Longrightarrow> cidr_span (nb_cidr b) \<inter> cidr_span (nb_cidr c) = {}"
  shows "cluster_inv pool R m'"
proof -
  have s: "same_spec b b'" "same_status b b'" "m' = m(nb_name b \<mapsto> b')" using u by (auto simp: creates_def)
  have sp: "nb_cidr b' = nb_cidr b" "nb_name b' = nb_name b" "nb_pool b' = nb_pool b" using s(1) by (simp_all add: same_spec_def)
  show ?thesis
    unfolding s(3)
    by (rule cluster_inv_put[OF inv])
      (use sp s(2) b apart in \<open>auto simp: fits_def same_status_def blockPhase_def\<close>)
qed

lemma cluster_inv_delete: "cluster_inv pool R m \<Longrightarrow> cluster_inv pool R (m(n := None))"
  unfolding cluster_inv_def by (auto split: if_splits)

subsection \<open>Splitting\<close>

lemma create_rest_keeps:
  assumes laws: "kube_laws A st" and inv: "cluster_inv pool R (st s)" and r: "create_rest A s pool node half now = (s', v)"
    and h: "parse_cidr half \<noteq> None" "\<exists>r \<in> R. cidr_span half \<subseteq> span (fst r) (snd r)"
    "\<And>k c. st s k = Some c \<Longrightarrow> cidr_span half \<inter> cidr_span (nb_cidr c) = {}"
  shows "cluster_inv pool R (st s')"
proof -
  note api = kube_lawsD(1)[OF laws]
  let ?b = "rest_block pool node half"
  obtain t q where c: "a_create A s ?b = (t, q)" by (cases "a_create A s ?b")
  have b: "nb_phase ?b \<noteq> NodeBlockReleased" "nb_pool ?b = pool" "fits R ?b" "nb_cidr ?b = half"
    using h(1,2) by (simp_all add: rest_block_def fits_def)
  have it: "cluster_inv pool R (st t)"
    using api_createD(2)[OF api c] cluster_inv_create[OF inv _ b(1-3)] h(3) b(4) inv by fastforce
  show ?thesis
  proof (cases q)
    case (Inl e)
    then show ?thesis using r c it by (auto simp: create_rest_def)
  next
    case (Inr rest)
    let ?q = "rest\<lparr>nb_phase := NodeBlockQuarantined, nb_transition := Some now\<rparr>"
    obtain t' q' where u: "a_update_status A t ?q = (t', q')" by (cases "a_update_status A t ?q")
    have "cluster_inv pool R (st t')"
      using api_update_statusD(2)[OF api u] cluster_inv_status[OF it] it by fastforce
    moreover have "s' = t'" using r c Inr u by (cases q') (auto simp: create_rest_def)
    ultimately show ?thesis by simp
  qed
qed

lemma splitBlock_keeps:
  assumes laws: "kube_laws A st" and inv: "cluster_inv pool R (st s)" and r: "splitBlock A s pool name = (s', v)"
  shows "cluster_inv pool R (st s')"
proof -
  note api = kube_lawsD(1)[OF laws]
  obtain t q where g: "a_get A s name = (t, q)" by (cases "a_get A s name")
  have tt: "st t = st s" by (rule api_getD(1)[OF api g])
  show ?thesis
  proof (cases q)
    case (Inl e)
    then show ?thesis using r g tt inv by (auto simp: splitBlock_def)
  next
    case (Inr nb)
    have nb: "st s name = Some nb" "nb_name nb = name" using api_getD(2)[OF api g Inr] by auto
    note o = cluster_invD[OF inv nb(1)]
    show ?thesis
    proof (cases "nb_release nb = [] \<or> nb_release_ready nb \<noteq> nb_release nb")
      case True
      then show ?thesis using r g Inr tt inv by (auto simp: splitBlock_def Let_def)
    next
      case go: False
      show ?thesis
      proof (cases "otherHalf (nb_cidr nb) (nb_release nb)")
        case (Inl e)
        let ?b = "nb\<lparr>nb_release := []\<rparr>"
        obtain t' q' where u: "a_update A t ?b = (t', q')" by (cases "a_update A t ?b")
        have "cluster_inv pool R (st t')"
          using api_updateD(2)[OF api u] cluster_inv_update[OF inv, of ?b] nb o(3,4) tt inv by (auto simp: fits_def)
        moreover have "s' = t'" using r g Inr go Inl u by (cases q') (auto simp: splitBlock_def Let_def split: if_splits)
        ultimately show ?thesis by simp
      next
        case keep: (Inr keep)
        note h = otherHalf_spec[OF keep]
        let ?b = "nb\<lparr>nb_cidr := keep, nb_release := []\<rparr>"
        obtain t1 q1 where u1: "a_update A t ?b = (t1, q1)" by (cases "a_update A t ?b")
        have i1: "cluster_inv pool R (st t1)"
          using api_updateD(2)[OF api u1] cluster_inv_update[OF inv, of ?b] nb o(3) h(2,3) tt inv by fastforce
        show ?thesis
        proof (cases q1)
          case (Inl e)
          then show ?thesis using r g Inr go keep u1 i1 by (auto simp: splitBlock_def Let_def split: if_splits)
        next
          case n1: (Inr n1)
          have up: "updates (st s) ?b n1 (st t1)" using api_updateD(1)[OF api u1 n1] tt by simp
          then have s1: "st t1 = (st s)(name \<mapsto> n1)" "nb_cidr n1 = keep" "nb_name n1 = name" "nb_phase n1 = nb_phase nb"
            using nb by (auto simp: updates_def same_spec_def same_status_def)
          let ?n2 = "n1\<lparr>nb_half_usage := [], nb_release_ready := [], nb_transition := Some (a_now A t1)\<rparr>"
          obtain t2 q2 where u2: "a_update_status A t1 ?n2 = (t2, q2)" by (cases "a_update_status A t1 ?n2")
          have ph: "nb_phase ?n2 \<noteq> NodeBlockReleased" using o(2) s1(4) by (auto simp: blockPhase_def)
          have i2: "cluster_inv pool R (st t2)"
            using api_update_statusD(2)[OF api u2] cluster_inv_status[OF i1 _ ph] i1 by fastforce
          have spans: "\<exists>d. st t1 k = Some d \<and> nb_cidr d = nb_cidr c" if "st t2 k = Some c" for k c
            using api_update_statusD(2)[OF api u2] that
            by (auto simp: updates_status_def same_spec_def split: if_splits)
          have apart: "cidr_span (nb_release nb) \<inter> cidr_span (nb_cidr c) = {}" if c: "st t2 k = Some c" for k c
          proof -
            obtain d where d: "st t1 k = Some d" "nb_cidr d = nb_cidr c" using spans[OF c] by blast
            show ?thesis
            proof (cases "k = name")
              case True
              then show ?thesis using d s1 h(4) by simp
            next
              case False
              then have "st s k = Some d" using d(1) s1(1) by simp
              then have "cidr_span (nb_cidr nb) \<inter> cidr_span (nb_cidr d) = {}" using o(5)[of k d] False by blast
              then show ?thesis using h(3) d(2) by auto
            qed
          qed
          have fit: "\<exists>r \<in> R. cidr_span (nb_release nb) \<subseteq> span (fst r) (snd r)"
            using o(4) h(3) unfolding fits_def by blast
          have "s' = t2 \<or> (\<exists>node v. create_rest A t2 pool node (nb_release nb) (a_now A t1) = (s', v))"
            using r g Inr go keep u1 n1 u2 by (cases q2) (auto simp: splitBlock_def Let_def split: if_splits)
          then show ?thesis
          proof (elim disjE exE)
            fix node v assume "create_rest A t2 pool node (nb_release nb) (a_now A t1) = (s', v)"
            then show ?thesis by (rule create_rest_keeps[OF laws i2 _ h(1) fit apart])
          qed (use i2 in simp)
        qed
      qed
    qed
  qed
qed

subsection \<open>The steps of \<open>applyLifecycle\<close>\<close>

lemma set_spec_keeps:
  assumes laws: "kube_laws A st" and inv: "cluster_inv pool R (st s)"
    and nb: "st s n = Some nb" "nb_name nb = n" and same: "nb_name b = n" "nb_pool b = nb_pool nb" "nb_cidr b = nb_cidr nb"
    and u: "a_update A s b = (s', r)"
  shows "cluster_inv pool R (st s')"
proof -
  note o = cluster_invD[OF inv nb(1)]
  have "updates (st s) b b' m' \<Longrightarrow> cluster_inv pool R m'" for b' m'
    by (rule cluster_inv_update[OF inv]) (use nb same o(3,4) in \<open>auto simp: fits_def\<close>)
  then show ?thesis using api_updateD(2)[OF kube_lawsD(1)[OF laws] u] inv by auto
qed

lemma setDrain_keeps:
  assumes laws: "kube_laws A st" and inv: "cluster_inv pool R (st s)" and r: "setDrain A d s n = (s', v)"
  shows "cluster_inv pool R (st s')"
proof -
  obtain t q where g: "a_get A s n = (t, q)" by (cases "a_get A s n")
  have tt: "st t = st s" by (rule api_getD(1)[OF kube_lawsD(1)[OF laws] g])
  show ?thesis
  proof (cases q)
    case (Inr nb)
    have nb: "st t n = Some nb" "nb_name nb = n" using api_getD(2)[OF kube_lawsD(1)[OF laws] g Inr] tt by auto
    obtain t' q' where u: "a_update A t (nb\<lparr>nb_drain := d\<rparr>) = (t', q')" by (cases "a_update A t (nb\<lparr>nb_drain := d\<rparr>)")
    have "cluster_inv pool R (st t')" by (rule set_spec_keeps[OF laws _ nb _ _ _ u]) (use inv tt nb in simp_all)
    moreover have "s' = t \<or> s' = t'" using r g Inr u by (cases q') (auto simp: setDrain_def split: if_splits)
    ultimately show ?thesis using inv tt by auto
  qed (use r g tt inv in \<open>auto simp: setDrain_def\<close>)
qed

lemma setRelease_keeps:
  assumes laws: "kube_laws A st" and inv: "cluster_inv pool R (st s)" and r: "setRelease A s x = (s', v)"
  shows "cluster_inv pool R (st s')"
proof -
  obtain n half where x: "x = (n, half)" by (cases x)
  obtain t q where g: "a_get A s n = (t, q)" by (cases "a_get A s n")
  have tt: "st t = st s" by (rule api_getD(1)[OF kube_lawsD(1)[OF laws] g])
  show ?thesis
  proof (cases q)
    case (Inr nb)
    have nb: "st t n = Some nb" "nb_name nb = n" using api_getD(2)[OF kube_lawsD(1)[OF laws] g Inr] tt by auto
    obtain t' q' where u: "a_update A t (nb\<lparr>nb_release := half\<rparr>) = (t', q')" by (cases "a_update A t (nb\<lparr>nb_release := half\<rparr>)")
    have "cluster_inv pool R (st t')" by (rule set_spec_keeps[OF laws _ nb _ _ _ u]) (use inv tt nb in simp_all)
    moreover have "s' = t \<or> s' = t'" using r g Inr u x by (cases q') (auto simp: setRelease_def split: if_splits)
    ultimately show ?thesis using inv tt by auto
  qed (use r g x tt inv in \<open>auto simp: setRelease_def\<close>)
qed

lemma split_step_keeps:
  assumes "kube_laws A st" "cluster_inv pool R (st s)" "split_step A pool s n = (s', v)"
  shows "cluster_inv pool R (st s')"
  using splitBlock_keeps[OF assms(1,2)] assms(3) by (auto simp: split_step_def split: prod.splits sum.splits)

lemma quarantine_step_keeps:
  assumes laws: "kube_laws A st" and inv: "cluster_inv pool R (st s)" and r: "quarantine_step A s n = (s', v)"
  shows "cluster_inv pool R (st s')"
proof -
  obtain t q where g: "a_get A s n = (t, q)" by (cases "a_get A s n")
  have it: "cluster_inv pool R (st t)" using api_getD(1)[OF kube_lawsD(1)[OF laws] g] inv by simp
  show ?thesis
  proof (cases q)
    case (Inr nb)
    let ?b = "nb\<lparr>nb_phase := NodeBlockQuarantined, nb_transition := Some (a_now A t)\<rparr>"
    obtain t' q' where u: "a_update_status A t ?b = (t', q')" by (cases "a_update_status A t ?b")
    have "cluster_inv pool R (st t')"
      using api_update_statusD(2)[OF kube_lawsD(1)[OF laws] u] cluster_inv_status[OF it] it by fastforce
    moreover have "s' = t'" using r g Inr u by (cases q') (auto simp: quarantine_step_def)
    ultimately show ?thesis by simp
  qed (use r g it in \<open>auto simp: quarantine_step_def\<close>)
qed

lemma delete_step_keeps:
  assumes laws: "kube_laws A st" and inv: "cluster_inv pool R (st s)" and r: "delete_step A s n = (s', v)"
  shows "cluster_inv pool R (st s')"
proof -
  obtain t q where g: "a_get A s n = (t, q)" by (cases "a_get A s n")
  have it: "cluster_inv pool R (st t)" using api_getD(1)[OF kube_lawsD(1)[OF laws] g] inv by simp
  show ?thesis
  proof (cases q)
    case (Inr nb)
    obtain t' q' where u: "a_delete A t nb = (t', q')" by (cases "a_delete A t nb")
    have "cluster_inv pool R (st t')"
      using api_deleteD[OF kube_lawsD(1)[OF laws] u] cluster_inv_delete[OF it] it by auto
    moreover have "s' = t'" using r g Inr u by (cases q') (auto simp: delete_step_def)
    ultimately show ?thesis by simp
  qed (use r g it in \<open>auto simp: delete_step_def\<close>)
qed

lemma each_keeps:
  assumes "\<And>s x s' v. I s \<Longrightarrow> f s x = (s', v) \<Longrightarrow> I s'" "I s" "each f s ch xs = (s', r)"
  shows "I s'"
  using assms(2,3)
proof (induction xs arbitrary: s ch)
  case (Cons x xs)
  obtain t v where t: "f s x = (t, v)" by (cases "f s x")
  show ?case using Cons.IH[of t] Cons.prems t assms(1)[OF Cons.prems(1) t] by (cases v) auto
qed simp

lemma and_each_keeps:
  assumes "\<And>s x s' v. I s \<Longrightarrow> f s x = (s', v) \<Longrightarrow> I s'" "I (fst p)"
  shows "I (fst (and_each p f xs))"
proof -
  obtain s v ch where p: "p = (s, v, ch)" by (cases p)
  obtain s' r where e: "each f s ch xs = (s', r)" by (cases "each f s ch xs")
  show ?thesis using p e each_keeps[of I f, OF assms(1) _ e] assms(2) by (cases v) (auto simp: and_each_def)
qed

lemma applyLifecycle_keeps:
  assumes laws: "kube_laws A st" and inv: "cluster_inv pool R (st s)" and r: "applyLifecycle A s pool plan = (s', v)"
  shows "cluster_inv pool R (st s')"
proof -
  let ?I = "\<lambda>s. cluster_inv pool R (st s)"
  note steps = setDrain_keeps[OF laws] setRelease_keeps[OF laws] split_step_keeps[OF laws]
    quarantine_step_keeps[OF laws] delete_step_keeps[OF laws]
  let ?r1 = "each (setDrain A True) s False (pp_drain plan)"
  let ?r2 = "and_each ?r1 (setDrain A False) (pp_undrain plan)"
  let ?r3 = "and_each ?r2 (setRelease A) (map (\<lambda>h. (hr_name h, hr_half h)) (pp_release plan))"
  let ?r4 = "and_each ?r3 (setRelease A) (map (\<lambda>n. (n, [])) (pp_unrelease plan))"
  let ?r5 = "and_each ?r4 (split_step A pool) (pp_split plan)"
  let ?r6 = "and_each ?r5 (quarantine_step A) (pp_quarantine plan)"
  let ?r7 = "and_each ?r6 (delete_step A) (pp_delete plan)"
  obtain s1 v1 where e: "?r1 = (s1, v1)" by (cases ?r1)
  have "?I s1" by (rule each_keeps[where I = ?I, OF steps(1) inv e])
  then have "?I (fst ?r1)" unfolding e by simp
  then have "?I (fst ?r2)" by (rule and_each_keeps[where I = ?I, rotated]) (rule steps)
  then have "?I (fst ?r3)" by (rule and_each_keeps[where I = ?I, rotated]) (rule steps)
  then have "?I (fst ?r4)" by (rule and_each_keeps[where I = ?I, rotated]) (rule steps)
  then have "?I (fst ?r5)" by (rule and_each_keeps[where I = ?I, rotated]) (rule steps)
  then have "?I (fst ?r6)" by (rule and_each_keeps[where I = ?I, rotated]) (rule steps)
  then have "?I (fst ?r7)" by (rule and_each_keeps[where I = ?I, rotated]) (rule steps)
  moreover have "s' = fst ?r7"
    using r by (auto simp: applyLifecycle_def Let_def split: prod.splits sum.splits option.splits)
  ultimately show ?thesis by simp
qed

subsection \<open>Creating the planned blocks\<close>

text \<open>Planned blocks that may still be created: inside the ranges, apart from each other and from what is stored.\<close>

definition creatable :: "bref set \<Rightarrow> store \<Rightarrow> planned_block list \<Rightarrow> bool" where
  "creatable R m pbs \<longleftrightarrow>
     (\<forall>pb \<in> set pbs. parse_cidr (pb_cidr pb) \<noteq> None \<and> (\<exists>r \<in> R. cidr_span (pb_cidr pb) \<subseteq> span (fst r) (snd r)) \<and>
        (\<forall>n c. m n = Some c \<longrightarrow> cidr_span (pb_cidr pb) \<inter> cidr_span (nb_cidr c) = {})) \<and>
     (\<forall>j < length pbs. \<forall>i < j. cidr_span (pb_cidr (pbs ! i)) \<inter> cidr_span (pb_cidr (pbs ! j)) = {})"

lemma creatable_Cons:
  assumes "creatable R m (pb # pbs)"
  shows "creatable R m pbs"
    "\<forall>q \<in> set pbs. cidr_span (pb_cidr pb) \<inter> cidr_span (pb_cidr q) = {}"
proof -
  have p: "cidr_span (pb_cidr ((pb # pbs) ! i)) \<inter> cidr_span (pb_cidr ((pb # pbs) ! j)) = {}"
    if "j < Suc (length pbs)" "i < j" for i j using assms that unfolding creatable_def by simp
  show "creatable R m pbs"
    using assms p[of "Suc j" "Suc i" for i j] unfolding creatable_def by auto
  show "\<forall>q \<in> set pbs. cidr_span (pb_cidr pb) \<inter> cidr_span (pb_cidr q) = {}"
  proof
    fix q assume "q \<in> set pbs"
    then obtain j where "j < length pbs" "pbs ! j = q" by (auto simp: in_set_conv_nth)
    then show "cidr_span (pb_cidr pb) \<inter> cidr_span (pb_cidr q) = {}" using p[of "Suc j" 0] by simp
  qed
qed

text \<open>Creating blocks or changing a status leaves the stored CIDRs as they are, except for the new one.\<close>

definition adds_only :: "store \<Rightarrow> string \<Rightarrow> store \<Rightarrow> bool" where
  "adds_only m cidr m' \<longleftrightarrow> (\<forall>n c. m' n = Some c \<longrightarrow> nb_cidr c = cidr \<or> (\<exists>d. m n = Some d \<and> nb_cidr d = nb_cidr c))"

lemma createBlock_keeps:
  assumes laws: "kube_laws A st" and inv: "cluster_inv pool R (st s)" and r: "createBlock A s pool pb = (s', v)"
    and c: "creatable R (st s) (pb # pbs)"
  shows "cluster_inv pool R (st s')" "adds_only (st s) (pb_cidr pb) (st s')"
proof -
  note api = kube_lawsD(1)[OF laws]
  let ?b = "new_block pool pb"
  have b: "nb_phase ?b \<noteq> NodeBlockReleased" "nb_pool ?b = pool" "fits R ?b" "nb_cidr ?b = pb_cidr pb"
    using c by (auto simp: new_block_def fits_def creatable_def)
  obtain t q where cr: "a_create A s ?b = (t, q)" by (cases "a_create A s ?b")
  have eff: "st t = st s \<or> (\<exists>b'. creates (st s) ?b b' (st t))" by (rule api_createD(2)[OF api cr])
  have ap: "cidr_span (nb_cidr ?b) \<inter> cidr_span (nb_cidr x) = {}" if "st s k = Some x" for k x
    using c that b(4) by (auto simp: creatable_def)
  have it: "cluster_inv pool R (st t)" using eff cluster_inv_create[OF inv _ b(1-3) ap] inv by auto
  have at: "adds_only (st s) (pb_cidr pb) (st t)"
    using eff b(4) by (auto simp: adds_only_def creates_def same_spec_def split: if_splits)
  have "cluster_inv pool R (st s') \<and> adds_only (st s) (pb_cidr pb) (st s')"
  proof (cases q)
    case (Inl e)
    then show ?thesis using r cr it at by (auto simp: createBlock_def)
  next
    case (Inr nb)
    let ?n = "nb\<lparr>nb_phase := NodeBlockPending, nb_transition := Some (a_now A t)\<rparr>"
    obtain t' q' where u: "a_update_status A t ?n = (t', q')" by (cases "a_update_status A t ?n")
    have eff': "st t' = st t \<or> (\<exists>b'. updates_status (st t) ?n b' (st t'))" by (rule api_update_statusD(2)[OF api u])
    have "cluster_inv pool R (st t')" using eff' cluster_inv_status[OF it] it by fastforce
    moreover have "\<exists>d. st t k = Some d \<and> nb_cidr d = nb_cidr x" if "st t' k = Some x" for k x
      using eff' that by (auto simp: updates_status_def same_spec_def split: if_splits)
    then have "adds_only (st s) (pb_cidr pb) (st t')" using at unfolding adds_only_def by metis
    moreover have "s' = t'" using r cr Inr u by (cases q') (auto simp: createBlock_def)
    ultimately show ?thesis by simp
  qed
  then show "cluster_inv pool R (st s')" "adds_only (st s) (pb_cidr pb) (st s')" by auto
qed

lemma create_blocks_keeps:
  assumes laws: "kube_laws A st"
  shows "cluster_inv pool R (st s) \<Longrightarrow> creatable R (st s) pbs \<Longrightarrow> create_blocks A s pool ch pbs = (s', v) \<Longrightarrow>
    cluster_inv pool R (st s')"
proof (induction pbs arbitrary: s ch)
  case (Cons pb pbs)
  obtain t q where c: "createBlock A s pool pb = (t, q)" by (cases "createBlock A s pool pb")
  note k = createBlock_keeps[OF laws Cons.prems(1) c Cons.prems(2)]
  show ?case
  proof (cases q)
    case (Inl e)
    then show ?thesis using Cons.prems(3) c k by (auto simp: ebind_def)
  next
    case (Inr created)
    note tl = creatable_Cons[OF Cons.prems(2)]
    have "creatable R (st t) pbs"
      unfolding creatable_def
    proof (intro conjI ballI allI impI)
      fix p n x assume p: "p \<in> set pbs" and x: "st t n = Some x"
      then show "cidr_span (pb_cidr p) \<inter> cidr_span (nb_cidr x) = {}"
        using k(2) tl unfolding adds_only_def creatable_def by (metis Int_commute)
    qed (use tl(1) in \<open>auto simp: creatable_def\<close>)
    then show ?thesis using Cons.IH[OF k(1)] Cons.prems(3) c Inr by (auto simp: ebind_def)
  qed
qed simp

subsection \<open>The whole pass\<close>

lemma ebind_cases:
  assumes "ebind r f = (s', v)"
  obtains (err) e where "r = (s', Inl e)" | (ok) s x where "r = (s, Inr x)" "f s x = (s', v)"
  using assms by (auto simp: ebind_def split: prod.splits sum.splits)

lemma updateStatus_same:
  assumes laws: "kube_laws A st" and r: "updateStatus A s p plan bs touched ph msg = (s', v)"
  shows "st s' = st s"
proof -
  note k = kube_lawsD[OF laws]
  have retry: "st (fst (fst (retry_status A n stt tch now x))) = st (fst x)" for n stt tch now x
  proof -
    obtain t cur where x: "x = (t, cur)" by (cases x)
    obtain t1 q where g: "a_get_pool A t n = (t1, q)" by (cases "a_get_pool A t n")
    have t1: "st t1 = st t" using k(3)[of t n] g by simp
    show ?thesis
    proof (cases q)
      case (Inr fresh)
      let ?cur = "stampChanges cur (pst_allocations (ip_status fresh)) tch now"
      show ?thesis
        using k(4)[of t1 "fresh\<lparr>ip_status := stt\<lparr>pst_allocations := ?cur\<rparr>\<rparr>"] t1 x g Inr
        by (auto simp: retry_status_def Let_def split: prod.splits)
    qed (use t1 x g in \<open>simp add: retry_status_def\<close>)
  qed
  let ?now = "a_now A s" and ?st = "status_for plan bs ph msg (a_now A s)"
  let ?st' = "?st\<lparr>pst_allocations := stampChanges (pst_allocations ?st) (pst_allocations (ip_status p)) touched ?now\<rparr>"
  obtain t e where u: "a_update_pool_status A s (p\<lparr>ip_status := ?st'\<rparr>) = (t, e)"
    by (cases "a_update_pool_status A s (p\<lparr>ip_status := ?st'\<rparr>)")
  have t: "st t = st s" using k(4)[of s "p\<lparr>ip_status := ?st'\<rparr>"] u by simp
  obtain t2 cur e2 where w: "a_retry A (retry_status A (ip_name p) ?st' touched ?now) (t, pst_allocations ?st') = ((t2, cur), e2)"
    by (metis surj_pair)
  have t2: "st t2 = st t"
    using k(8)[of "retry_status A (ip_name p) ?st' touched ?now" "(t, pst_allocations ?st')"] retry w by simp
  have "s' \<in> {s, t, t2}"
    using r u w by (simp only: updateStatus_def Let_def prod.case split: if_split_asm) simp_all
  then show ?thesis using t t2 by auto
qed

lemma finish_pass_keeps:
  assumes laws: "kube_laws A st" and inv: "cluster_inv pool R (st s)"
    and r: "finish_pass A p spec bs plan s col = (s', v)" and p: "ip_name p = pool"
  shows "cluster_inv pool R (st s')"
  using r unfolding finish_pass_def p
proof (cases rule: ebind_cases)
  case (err e)
  then show ?thesis by (rule applyLifecycle_keeps[OF laws inv])
next
  case (ok t changed)
  have it: "cluster_inv pool R (st t)" by (rule applyLifecycle_keeps[OF laws inv ok(1)])
  let ?l = "if pp_new plan \<noteq> [] \<or> changed then ebind (a_list A t) (\<lambda>s all. (s, Inr (blocksFor pool all))) else (t, Inr bs)"
  have same: "st t2 = st t" if "?l = (t2, w)" for t2 w
    using that api_listD(1)[OF kube_lawsD(1)[OF laws], of t]
    by (auto simp: ebind_def split: if_splits prod.splits sum.splits)
  from ok(2) show ?thesis
  proof (cases rule: ebind_cases)
    case (err e)
    then show ?thesis using same it by simp
  next
    case l: (ok t2 after)
    obtain t3 u where u: "updateStatus A t2 p (Some plan) after (changedNodes plan bs) (fst (phaseFor plan)) (snd (phaseFor plan)) = (t3, u)"
      by (cases "updateStatus A t2 p (Some plan) after (changedNodes plan bs) (fst (phaseFor plan)) (snd (phaseFor plan))")
    have "s' = t3" using l(2) u by (auto split: option.splits)
    then show ?thesis using updateStatus_same[OF laws u] same[OF l(1)] it by simp
  qed
qed

end
