(* ===== verification/Controller_Props.thy ===== *)
theory Controller_Props
  imports Controller_Inv
begin

text \<open>The properties of the controller pass.\<close>

lemma api_listed:
  assumes "kube_laws A st" "a_list A s = (s', Inr bs)"
  shows "st s' = st s" "distinct bs" "b \<in> set bs \<longleftrightarrow> st s (nb_name b) = Some b"
  using api_listD[OF kube_lawsD(1)[OF assms(1)] assms(2)] by (auto simp: distinct_map)

lemma listed_blocks:
  assumes laws: "kube_laws A st" and inv: "cluster_inv pool R (st s)" and l: "a_list A s = (s', Inr all)"
  shows "blocksFor pool all = all"
  using cluster_invD(3)[OF inv] api_listed(3)[OF laws l] by (auto simp: blocksFor_def filter_id_conv)

text \<open>What a plan adds to a list of all the stored blocks can be created: it is apart from them and from the rest of the plan.\<close>

lemma plan_creatable:
  assumes m: "0 \<le> sp_max_block spec" and inv: "cluster_inv pool R store" and d: "distinct bs"
    and l: "\<And>b. b \<in> set bs \<longleftrightarrow> store (nb_name b) = Some b" and R: "pool_ranges spec nds = R"
  shows "creatable R store (pp_new (planPool spec nds bs inp))"
proof -
  let ?plan = "planPool spec nds bs inp"
  note cd = cluster_invD[OF inv]
  have lb: "apart_blocks bs" "\<forall>b \<in> set bs. blockPhase b \<noteq> NodeBlockReleased"
    using cd(2) l cd(5) by (fastforce simp: apart_blocks_def intro: pairwiseI)+
  have fit: "\<forall>b \<in> set bs. fits (pool_ranges spec nds) b" using cd(4) l R by blast
  obtain p where p: "buildPool spec nds bs = (p, snd (buildPool spec nds []))" "roots p = R"
    using buildPool_exact(1)[OF m d lb(1) fit] R by auto
  have pl: "placed (snd (buildPool spec nds [])) b" if "b \<in> set bs" for b
    using buildPool_exact(2)[OF m d lb(1) fit] lb(2) that by (auto simp: placed_def no_misplaced_def)
  note dis = planPool_disjoint[OF m refl p(1), of inp]
  have "cidr_span (pb_cidr pb) \<inter> cidr_span (nb_cidr c) = {}" if "pb \<in> set (pp_new ?plan)" "store n = Some c" for pb n c
  proof -
    have "c \<in> set bs" using l[of c] cd(1)[OF that(2)] that(2) by simp
    then show ?thesis using dis pl that(1) by blast
  qed
  then have "\<forall>pb \<in> set (pp_new ?plan). parse_cidr (pb_cidr pb) \<noteq> None \<and>
      (\<exists>r \<in> R. cidr_span (pb_cidr pb) \<subseteq> span (fst r) (snd r)) \<and>
      (\<forall>n c. store n = Some c \<longrightarrow> cidr_span (pb_cidr pb) \<inter> cidr_span (nb_cidr c) = {})"
    using conjunct1[OF dis] planPool_new_root[OF m p(1)] p(2) by simp
  then show ?thesis unfolding creatable_def using conjunct1[OF conjunct2[OF dis]] by (rule conjI)
qed

lemma planned_creatable:
  assumes m: "0 \<le> sp_max_block spec" and laws: "kube_laws A st" and inv: "cluster_inv pool R (st s)"
    and l: "a_list A s = (s', Inr all)" and R: "pool_ranges spec nds = R"
  shows "creatable R (st s) (pp_new (planPool spec nds all inp))"
  by (rule plan_creatable[OF m inv api_listed(2,3)[OF laws l] R])

lemma serve_pool_keeps:
  assumes laws: "kube_laws A st" and inv: "cluster_inv (ip_name p) R (st s)"
    and m: "0 \<le> sp_max_block (withDefaults (ip_spec p))"
    and nodes: "\<And>s s' nds. a_nodes A s = (s', Inr nds) \<Longrightarrow> pool_ranges (withDefaults (ip_spec p)) nds = R"
    and r: "serve_pool A s p = (s', v)"
  shows "cluster_inv (ip_name p) R (st s')"
proof -
  note k = kube_lawsD[OF laws]
  let ?I = "\<lambda>s. cluster_inv (ip_name p) R (st s)"
  from r show ?thesis
    unfolding serve_pool_def Let_def
  proof (cases rule: ebind_cases)
    case (err e)
    then show ?thesis using k(5)[of s] inv by simp
  next
    case n: (ok s1 nds)
    have i1: "?I s1" using k(5)[of s] n(1) inv by simp
    from n(2) show ?thesis
    proof (cases rule: ebind_cases)
      case (err e)
      then show ?thesis using api_listD(1)[OF k(1)] i1 by simp
    next
      case l: (ok s2 all)
      have i2: "?I s2" using api_listed(1)[OF laws l(1)] i1 by simp
      note bf = listed_blocks[OF laws i1 l(1)]
      from l(2) show ?thesis
        unfolding bf
      proof (cases rule: ebind_cases)
        case (err e)
        then show ?thesis using k(6)[of s2] i2 by simp
      next
        case po: (ok s3 pods)
        have i3: "?I s3" "st s3 = st s1" using k(6)[of s2] po(1) i2 api_listed(1)[OF laws l(1)] by simp_all
        obtain np wt where nw: "nodePods pods = (np, wt)" by (cases "nodePods pods")
        from po(2) show ?thesis
          unfolding nw prod.case
        proof (cases rule: ebind_cases)
          case (err e)
          then show ?thesis using k(7)[of s3] i3 by simp
        next
          case ev: (ok s4 evs)
          have s4: "st s4 = st s1" using k(7)[of s3] ev(1) i3(2) by simp
          let ?plan = "planPool (withDefaults (ip_spec p)) nds all
            \<lparr>in_now = a_now A s4, in_starved = starvedNodes evs (a_now A s4) wt,
             in_last_change = last_changes (pst_allocations (ip_status p)), in_waiting = wt, in_pods = np\<rparr>"
          have cr: "creatable R (st s4) (pp_new ?plan)"
            using planned_creatable[OF m laws i1 l(1) nodes[OF n(1)]] s4 by simp
          from ev(2) show ?thesis
          proof (cases rule: ebind_cases)
            case (err e)
            then show ?thesis using create_blocks_keeps[OF laws _ cr] i1 s4 by simp
          next
            case c: (ok s5 col)
            have "?I s5" using create_blocks_keeps[OF laws _ cr c(1)] i1 s4 by simp
            then show ?thesis by (rule finish_pass_keeps[OF laws _ c(2) refl])
          qed
        qed
      qed
    qed
  qed
qed

lemma reconcile_apart:
  assumes "kube_laws A st" "cluster_inv name R (st s)"
    "\<And>t t' p. a_get_pool A t name = (t', Inr p) \<Longrightarrow> ip_name p = name \<and> withDefaults (ip_spec p) = spec"
    "\<And>t t' nds. a_nodes A t = (t', Inr nds) \<Longrightarrow> pool_ranges spec nds = R"
    "0 \<le> sp_max_block spec" "reconcile A s name = (s', v)"
  shows "cluster_inv name R (st s')"
proof -
  note k = kube_lawsD[OF assms(1)]
  obtain t q where g: "a_get_pool A s name = (t, q)" by (cases "a_get_pool A s name")
  have it: "cluster_inv name R (st t)" using k(3)[of s name] g assms(2) by simp
  show ?thesis
  proof (cases q)
    case (Inl e)
    then show ?thesis using assms(6) g it by (auto simp: reconcile_def)
  next
    case (Inr p)
    have p: "ip_name p = name" "withDefaults (ip_spec p) = spec" using assms(3)[OF g[unfolded Inr]] by auto
    have rc: "ebind (a_pools A t) (\<lambda>s pools.
            if primaryPool pools \<noteq> ip_name p
            then (case updateStatus A s p None [] [] ''Inactive'' (PoolServing (primaryPool pools)) of
                    (s, Some e) \<Rightarrow> (s, Inl e) | (s, None) \<Rightarrow> (s, Inr 0))
            else serve_pool A s p) = (s', v)"
      using assms(6) g Inr by (simp add: reconcile_def)
    from rc show ?thesis
    proof (cases rule: ebind_cases)
      case (err e)
      then show ?thesis using k(2)[of t] it by simp
    next
      case (ok t2 pools)
      have i2: "cluster_inv name R (st t2)" using k(2)[of t] ok(1) it by simp
      show ?thesis
      proof (cases "primaryPool pools = ip_name p")
        case True
        then have "serve_pool A t2 p = (s', v)" using ok(2) by simp
        then show ?thesis using serve_pool_keeps[OF assms(1), of p R t2] i2 assms(4,5) p by simp
      next
        case False
        then obtain w where "updateStatus A t2 p None [] [] ''Inactive'' (PoolServing (primaryPool pools)) = (s', w)"
          using ok(2) by (auto split: prod.splits option.splits)
        then show ?thesis using updateStatus_same[OF assms(1)] i2 by simp
      qed
    qed
  qed
qed


end
