(* ===== verification/Agent_State.thy ===== *)
theory Agent_State
  imports Ipam_Types
begin

text \<open>
  The pure part of the node agent (ipam/agent/state.go): which routes a node needs, which blocks it can
  acknowledge, when a new block may be promoted, and the CNI configuration with its JSON text. Go collects
  the blocks by owner in a map, whose order is random; here the owners come in the order of their blocks.
\<close>

text \<open>What the agent reads of a core/v1 Node in addition: its conditions as (type, status) pairs.\<close>

record cluster_node = node +
  nd_conditions :: "(string \<times> string) list"

datatype route = Route (rt_dst: string) (rt_gateway: string)

datatype route_problem = NoInternalIP string "string list" | BadBlocks error

definition routable :: "block_phase \<Rightarrow> bool" where
  "routable phase = (case phase of
       NoPhase \<Rightarrow> True | NodeBlockPending \<Rightarrow> True | NodeBlockActive \<Rightarrow> True | NodeBlockDraining \<Rightarrow> True
     | _ \<Rightarrow> False)"

definition ServedCIDR :: "node_block \<Rightarrow> string" where
  "ServedCIDR b =
     (if nb_release b = [] then nb_cidr b
      else (case otherHalf (nb_cidr b) (nb_release b) of
              Inl _ \<Rightarrow> nb_cidr b
            | Inr keep \<Rightarrow> keep))"

definition phaseOf :: "node_block \<Rightarrow> block_phase" where
  "phaseOf b = (if nb_phase b = NoPhase then NodeBlockPending else nb_phase b)"

definition internalIP :: "('z) node_scheme \<Rightarrow> string" where
  "internalIP n = (case find (\<lambda>a. fst a = ''InternalIP'') (nd_addresses n) of Some a \<Rightarrow> snd a | None \<Rightarrow> [])"

subsection \<open>Routes\<close>

definition node_ips :: "('z) node_scheme list \<Rightarrow> string \<Rightarrow> string" where
  "node_ips nds = foldl (\<lambda>ips n. ips(nd_name n := internalIP n)) (\<lambda>_. []) nds"

definition routed_blocks :: "string \<Rightarrow> node_block list \<Rightarrow> node_block list" where
  "routed_blocks self blocks = filter (\<lambda>b. \<not> (nb_node b = self \<or> \<not> routable (nb_phase b))) blocks"

definition byOwner :: "string \<Rightarrow> node_block list \<Rightarrow> string \<Rightarrow> string list" where
  "byOwner self blocks owner = map nb_cidr (filter (\<lambda>b. nb_node b = owner) (routed_blocks self blocks))"

definition owner_routes :: "(string \<Rightarrow> string) \<Rightarrow> string \<Rightarrow> string list \<Rightarrow> route_problem + route list" where
  "owner_routes ips owner cidrs =
     (let gw = ips owner in
      if gw = [] then Inl (NoInternalIP owner cidrs)
      else (case aggregate cidrs of
              Inl e \<Rightarrow> Inl (BadBlocks e)
            | Inr agg \<Rightarrow> Inr (map (\<lambda>c. Route c gw) agg)))"

definition desiredRoutes :: "string \<Rightarrow> ('z) node_scheme list \<Rightarrow> node_block list \<Rightarrow> route list \<times> route_problem list" where
  "desiredRoutes self nds blocks =
     (let res = map (\<lambda>owner. owner_routes (node_ips nds) owner (byOwner self blocks owner))
                  (remdups (map nb_node (routed_blocks self blocks)))
      in (sort_by (\<lambda>a b. rt_dst a < rt_dst b) (concat [rs. Inr rs \<leftarrow> res]), [p. Inl p \<leftarrow> res]))"

definition ackableBlocks :: "string \<Rightarrow> node_block list \<Rightarrow> string list" where
  "ackableBlocks self blocks =
     sort_by (<) (map nb_name (filter (\<lambda>b. nb_node b \<noteq> self \<and> routable (nb_phase b)) blocks))"

subsection \<open>Promotion\<close>

definition nodeReady :: "('z) cluster_node_scheme \<Rightarrow> bool" where
  "nodeReady n = (case find (\<lambda>c. fst c = ''Ready'') (nd_conditions n) of Some c \<Rightarrow> snd c = ''True'' | None \<Rightarrow> False)"

definition readyToPromote :: "string \<Rightarrow> node_block \<Rightarrow> ('z) cluster_node_scheme list \<Rightarrow> go_time \<Rightarrow> duration \<Rightarrow> bool" where
  "readyToPromote self b nds now timeout =
     (if list_all (\<lambda>n. nd_name n = self \<or> nd_deleting n \<or> \<not> nodeReady n \<or> nd_name n \<in> set (nb_acked b)) nds then True
      else now - (case nb_transition b of None \<Rightarrow> nb_created b | Some t \<Rightarrow> t) \<ge> timeout)"

subsection \<open>The CNI configuration\<close>

record cni_ipam =
  ci_type :: string
  ci_data_dir :: string
  ci_ranges :: "string list list"
  ci_routes :: "string list"

record cni_plugin =
  cp_type :: string
  cp_ip_masq :: "bool option"
  cp_ipam :: "cni_ipam option"
  cp_capabilities :: "(string \<times> bool) list"

record cni_conflist =
  cc_version :: string
  cc_name :: string
  cc_plugins :: "cni_plugin list"

text \<open>\<open>json.MarshalIndent\<close> with two spaces; bytes above 127 are copied, as in valid UTF-8 text.\<close>

datatype json = JBool bool | JStr string | JArr "json list" | JObj "string list" "json list"

definition hex_digit :: "nat \<Rightarrow> char" where
  "hex_digit d = (if d < 10 then char_of (48 + d) else char_of (87 + d))"

definition json_char :: "char \<Rightarrow> string" where
  "json_char c =
     (let k = of_char c :: nat in
      if k = 34 \<or> k = 92 then [CHR 0x5C, c]
      else if k = 8 then [CHR 0x5C, CHR ''b''] else if k = 9 then [CHR 0x5C, CHR ''t'']
      else if k = 10 then [CHR 0x5C, CHR ''n''] else if k = 12 then [CHR 0x5C, CHR ''f'']
      else if k = 13 then [CHR 0x5C, CHR ''r'']
      else if k < 32 \<or> k = 60 \<or> k = 62 \<or> k = 38
      then [CHR 0x5C, CHR ''u'', CHR ''0'', CHR ''0'', hex_digit (k div 16), hex_digit (k mod 16)]
      else [c])"

definition json_string :: "string \<Rightarrow> string" where
  "json_string s = [CHR 0x22] @ concat (map json_char s) @ [CHR 0x22]"

definition new_line :: "nat \<Rightarrow> string" where
  "new_line k = CHR 0x0A # replicate (2 * k) (CHR '' '')"

definition json_items :: "nat \<Rightarrow> string \<Rightarrow> string list \<Rightarrow> string \<Rightarrow> string" where
  "json_items k op items cl =
     (case items of [] \<Rightarrow> op @ cl
      | x # xs \<Rightarrow> op @ new_line (k + 1) @ x @ concat (map (\<lambda>y. '','' @ new_line (k + 1) @ y) xs) @ new_line k @ cl)"

fun json_text :: "nat \<Rightarrow> json \<Rightarrow> string" where
  "json_text k (JBool b) = (if b then ''true'' else ''false'')"
| "json_text k (JStr s) = json_string s"
| "json_text k (JArr xs) = json_items k ''['' (map (json_text (k + 1)) xs) '']''"
| "json_text k (JObj ks vs) =
     json_items k ''{'' (map2 (\<lambda>n v. json_string n @ '': '' @ v) ks (map (json_text (k + 1)) vs)) ''}''"

definition json_object :: "(string \<times> json option) list \<Rightarrow> json" where
  "json_object entries = (let fs = [(k, v). (k, Some v) \<leftarrow> entries] in JObj (map fst fs) (map snd fs))"

definition ipam_json :: "cni_ipam \<Rightarrow> json" where
  "ipam_json i = json_object [(''type'', Some (JStr (ci_type i))), (''dataDir'', Some (JStr (ci_data_dir i))),
     (''ranges'', Some (JArr (map (\<lambda>rs. JArr (map (\<lambda>r. json_object [(''subnet'', Some (JStr r))]) rs)) (ci_ranges i)))),
     (''routes'', Some (JArr (map (\<lambda>d. json_object [(''dst'', Some (JStr d))]) (ci_routes i))))]"

definition plugin_json :: "cni_plugin \<Rightarrow> json" where
  "plugin_json p = json_object [(''type'', Some (JStr (cp_type p))), (''ipMasq'', map_option JBool (cp_ip_masq p)),
     (''ipam'', map_option ipam_json (cp_ipam p)),
     (''capabilities'', if cp_capabilities p = [] then None
        else Some (json_object (map (\<lambda>(k, v). (k, Some (JBool v))) (cp_capabilities p))))]"

definition conflist_json :: "cni_conflist \<Rightarrow> json" where
  "conflist_json c = json_object [(''cniVersion'', Some (JStr (cc_version c))), (''name'', Some (JStr (cc_name c))),
     (''plugins'', Some (JArr (map plugin_json (cc_plugins c))))]"

datatype render_error = NoBlocksToRender | InvalidBlock string | RenderAggregate error

definition conflist_for :: "string \<Rightarrow> string \<Rightarrow> string list \<Rightarrow> cni_conflist" where
  "conflist_for netName dataDir sorted_cidrs = \<lparr>cc_version = ''0.4.0'', cc_name = netName,
     cc_plugins =
       [\<lparr>cp_type = ''ptp'', cp_ip_masq = Some False,
          cp_ipam = Some \<lparr>ci_type = ''host-local'', ci_data_dir = dataDir, ci_ranges = [sorted_cidrs],
            ci_routes = [''0.0.0.0/0'']\<rparr>,
          cp_capabilities = []\<rparr>,
        \<lparr>cp_type = ''portmap'', cp_ip_masq = None, cp_ipam = None, cp_capabilities = [(''portMappings'', True)]\<rparr>]\<rparr>"

definition parse_blocks :: "string list \<Rightarrow> render_error + (string \<times> addr) list" where
  "parse_blocks cidrs =
     foldl (\<lambda>acc c. case acc of Inl e \<Rightarrow> Inl e
        | Inr bs \<Rightarrow> (case parse_cidr c of None \<Rightarrow> Inl (InvalidBlock c) | Some (_, n) \<Rightarrow> Inr (bs @ [(c, net_ip n)])))
       (Inr []) cidrs"

definition renderCNIConfig :: "string \<Rightarrow> string \<Rightarrow> string list \<Rightarrow> render_error + string" where
  "renderCNIConfig netName dataDir cidrs =
     (if cidrs = [] then Inl NoBlocksToRender
      else (case parse_blocks cidrs of
              Inl e \<Rightarrow> Inl e
            | Inr blocks \<Rightarrow>
                (case aggregate (map fst (sort_by (\<lambda>a b. snd a < snd b) blocks)) of
                   Inl e \<Rightarrow> Inl (RenderAggregate e)
                 | Inr sorted_cidrs \<Rightarrow> Inr (json_text 0 (conflist_json (conflist_for netName dataDir sorted_cidrs))))))"

end
