(* ===== verification/Agent_Routes.thy ===== *)
theory Agent_Routes
  imports Agent_State
begin

text \<open>What the desired routes of a node are, in terms of addresses.\<close>

lemma set_Inr_list: "set [q. Inr q \<leftarrow> xs] = {q. Inr q \<in> set xs}"
  and set_Inl_list: "set [p. Inl p \<leftarrow> xs] = {p. Inl p \<in> set xs}"
  by (induction xs) (auto split: sum.splits)

lemma set_byOwner: "set (byOwner self blocks owner) = nb_cidr ` {b \<in> set (routed_blocks self blocks). nb_node b = owner}"
  by (auto simp: byOwner_def)

lemma set_routed: "b \<in> set (routed_blocks self blocks) \<longleftrightarrow> b \<in> set blocks \<and> nb_node b \<noteq> self \<and> routable (nb_phase b)"
  by (auto simp: routed_blocks_def)

lemma owner_routes_Inr:
  "owner_routes ips owner cidrs = Inr rs \<longleftrightarrow>
     ips owner \<noteq> [] \<and> (\<exists>agg. aggregate cidrs = Inr agg \<and> rs = map (\<lambda>c. Route c (ips owner)) agg)"
  by (auto simp: owner_routes_def Let_def split: sum.splits)

lemma desiredRoutes_lists:
  assumes "desiredRoutes self nds blocks = (rs, ps)"
  defines "f \<equiv> \<lambda>owner. owner_routes (node_ips nds) owner (byOwner self blocks owner)"
  shows "r \<in> set rs \<longleftrightarrow> (\<exists>b q. b \<in> set (routed_blocks self blocks) \<and> f (nb_node b) = Inr q \<and> r \<in> set q)"
    "p \<in> set ps \<longleftrightarrow> (\<exists>b. b \<in> set (routed_blocks self blocks) \<and> f (nb_node b) = Inl p)"
proof -
  define res where "res = map f (remdups (map nb_node (routed_blocks self blocks)))"
  have rs: "rs = sort_by (\<lambda>a b. rt_dst a < rt_dst b) (concat [rs. Inr rs \<leftarrow> res])" and ps: "ps = [p. Inl p \<leftarrow> res]"
    using assms(1) by (simp_all add: desiredRoutes_def Let_def res_def f_def)
  have res: "y \<in> set res \<longleftrightarrow> (\<exists>b. b \<in> set (routed_blocks self blocks) \<and> f (nb_node b) = y)" for y
    by (auto simp: res_def)
  have "set rs = \<Union>(set ` set [q. Inr q \<leftarrow> res])" unfolding rs set_sort_by by (rule set_concat)
  then have "set rs = \<Union>(set ` {q. Inr q \<in> set res})" by (simp only: set_Inr_list)
  then show "r \<in> set rs \<longleftrightarrow> (\<exists>b q. b \<in> set (routed_blocks self blocks) \<and> f (nb_node b) = Inr q \<and> r \<in> set q)"
    unfolding res by blast
  have "set ps = {p. Inl p \<in> set res}" by (simp only: ps set_Inl_list)
  then show "p \<in> set ps \<longleftrightarrow> (\<exists>b. b \<in> set (routed_blocks self blocks) \<and> f (nb_node b) = Inl p)" unfolding res by blast
qed

lemma desiredRoutes_set:
  assumes "desiredRoutes self nds blocks = (rs, ps)"
  shows "r \<in> set rs \<longleftrightarrow> (\<exists>b agg. b \<in> set (routed_blocks self blocks) \<and> node_ips nds (nb_node b) \<noteq> [] \<and>
      aggregate (byOwner self blocks (nb_node b)) = Inr agg \<and> rt_dst r \<in> set agg \<and> rt_gateway r = node_ips nds (nb_node b))"
proof -
  have "r \<in> set (map (\<lambda>c. Route c g) agg) \<longleftrightarrow> rt_dst r \<in> set agg \<and> rt_gateway r = g" for g agg by (cases r) auto
  then show ?thesis unfolding desiredRoutes_lists(1)[OF assms] owner_routes_Inr by blast
qed

lemma desiredRoutes_problems:
  assumes "desiredRoutes self nds blocks = (rs, ps)"
  shows "ps = [] \<longleftrightarrow> (\<forall>b \<in> set (routed_blocks self blocks). node_ips nds (nb_node b) \<noteq> [] \<and> parse_cidr (nb_cidr b) \<noteq> None)"
proof -
  let ?f = "\<lambda>owner. owner_routes (node_ips nds) owner (byOwner self blocks owner)"
  have "ps = [] \<longleftrightarrow> (\<forall>p. p \<notin> set ps)" by (cases ps) auto
  also have "\<dots> \<longleftrightarrow> (\<forall>b \<in> set (routed_blocks self blocks). \<forall>p. ?f (nb_node b) \<noteq> Inl p)"
    unfolding desiredRoutes_lists(2)[OF assms] by blast
  also have "\<dots> \<longleftrightarrow> (\<forall>b \<in> set (routed_blocks self blocks). \<exists>q. ?f (nb_node b) = Inr q)"
    by (metis Inl_Inr_False sumE)
  also have "\<dots> \<longleftrightarrow> (\<forall>b \<in> set (routed_blocks self blocks). node_ips nds (nb_node b) \<noteq> [] \<and>
      (\<forall>c \<in> set (byOwner self blocks (nb_node b)). parse_cidr c \<noteq> None))"
    unfolding owner_routes_Inr using aggregate_spec by metis
  finally show ?thesis by (auto simp: set_byOwner)
qed

lemma desiredRoutes_sorted:
  assumes "desiredRoutes self nds blocks = (rs, ps)"
  shows "sorted (map rt_dst rs)"
proof -
  have "sorted_wrt (\<lambda>x y. \<not> rt_dst y < rt_dst x) (sort_by (\<lambda>a b. rt_dst a < rt_dst b) xs)" for xs :: "route list"
    by (rule sorted_sort_by) auto
  then show ?thesis using assms by (auto simp: desiredRoutes_def Let_def sorted_map not_less)
qed

lemma desiredRoutes_exact_addrs:
  assumes "desiredRoutes self nds blocks = (rs, ps)"
  shows "(\<exists>r \<in> set rs. x \<in> cidr_span (rt_dst r) \<and> rt_gateway r = g) \<longleftrightarrow>
    g \<noteq> [] \<and> (\<exists>b \<in> set (routed_blocks self blocks). x \<in> cidr_span (nb_cidr b) \<and> node_ips nds (nb_node b) = g \<and>
       (\<forall>c \<in> set (routed_blocks self blocks). nb_node c = nb_node b \<longrightarrow> parse_cidr (nb_cidr c) \<noteq> None))" (is "?L \<longleftrightarrow> ?R")
proof
  assume ?L
  then obtain r where r0: "r \<in> set rs" "x \<in> cidr_span (rt_dst r)" "rt_gateway r = g" by blast
  obtain b agg where r: "b \<in> set (routed_blocks self blocks)" "g \<noteq> []" "g = node_ips nds (nb_node b)"
      "aggregate (byOwner self blocks (nb_node b)) = Inr agg" "rt_dst r \<in> set agg" "x \<in> cidr_span (rt_dst r)"
    using r0 desiredRoutes_set[OF assms, of r] by metis
  note a = aggregate_spans[OF r(4)]
  have "x \<in> (\<Union>c \<in> set (byOwner self blocks (nb_node b)). cidr_span c)" using a(1) r(5,6) by blast
  then show ?R using a(2) r(2,3) by (fastforce simp: set_byOwner)
next
  assume ?R
  then obtain b where b: "g \<noteq> []" "b \<in> set (routed_blocks self blocks)" "x \<in> cidr_span (nb_cidr b)"
      "node_ips nds (nb_node b) = g"
      "\<forall>c \<in> set (routed_blocks self blocks). nb_node c = nb_node b \<longrightarrow> parse_cidr (nb_cidr c) \<noteq> None"
    by blast
  have "\<forall>c \<in> set (byOwner self blocks (nb_node b)). parse_cidr c \<noteq> None" using b(5) by (auto simp: set_byOwner)
  then obtain agg where agg: "aggregate (byOwner self blocks (nb_node b)) = Inr agg"
    using aggregate_spec[of "byOwner self blocks (nb_node b)"] by blast
  have "x \<in> (\<Union>c \<in> set agg. cidr_span c)"
    unfolding aggregate_spans(1)[OF agg] using b(2,3) by (auto simp: set_byOwner)
  then obtain c where "c \<in> set agg" "x \<in> cidr_span c" by blast
  then show ?L using agg b(1,2,4)
    by (intro bexI[of _ "Route c g"]) (auto simp: desiredRoutes_set[OF assms])
qed

text \<open>The destinations of one owner are disjoint when its blocks are.\<close>

lemma aggregate_apart:
  assumes "apart_set (pfx_of ` set cs)" "aggregate cs = Inr out" "c \<in> set out" "d \<in> set out" "x \<in> cidr_span c" "x \<in> cidr_span d"
  shows "c = d"
proof -
  note sp = aggregate_spans[OF assms(2)]
  define qs where "qs = agg_loop (fold List.insert (map pfx_of cs) [])"
  have ap: "apart_set (set qs)" unfolding qs_def by (rule aggregate_ok(6)[OF sp(2) assms(1)])
  have q: "pfx_of ` set out = set qs" using aggregate_output(1)[OF sp(2) assms(2)] by (simp add: qs_def)
  obtain b n where c: "c = cidr_string b n" "block_ok b n" using sp(3) assms(3) by blast
  obtain b' n' where d: "d = cidr_string b' n'" "block_ok b' n'" using sp(3) assms(4) by blast
  have pc: "pfx_of c = (b, n)" using pfx_of_string[of "(b, n)"] c by simp
  have pd: "pfx_of d = (b', n')" using pfx_of_string[of "(b', n')"] d by simp
  have "x \<in> pspan (b, n)" "x \<in> pspan (b', n')"
    using assms(5,6) cidr_span_sub_pfx[of c] cidr_span_sub_pfx[of d] pc pd by auto
  moreover have "(b, n) \<in> set qs" "(b', n') \<in> set qs" using q assms(3,4) pc pd by (metis imageI)+
  ultimately have "(b, n) = (b', n')" using ap unfolding apart_set_def by blast
  then show ?thesis using c d by simp
qed

lemma desiredRoutes_unique:
  assumes d: "desiredRoutes self nds blocks = (rs, ps)"
    and ap: "\<And>b c. b \<in> set (routed_blocks self blocks) \<Longrightarrow> c \<in> set (routed_blocks self blocks) \<Longrightarrow> b \<noteq> c \<Longrightarrow>
      cidr_span (nb_cidr b) \<inter> cidr_span (nb_cidr c) = {}"
    and r: "r \<in> set rs" "r' \<in> set rs" "x \<in> cidr_span (rt_dst r)" "x \<in> cidr_span (rt_dst r')"
  shows "r = r'"
proof -
  note D = desiredRoutes_set[OF d]
  obtain b agg where b: "b \<in> set (routed_blocks self blocks)" "aggregate (byOwner self blocks (nb_node b)) = Inr agg"
      "rt_dst r \<in> set agg" "rt_gateway r = node_ips nds (nb_node b)" using r(1) D by blast
  obtain c agg' where c: "c \<in> set (routed_blocks self blocks)" "aggregate (byOwner self blocks (nb_node c)) = Inr agg'"
      "rt_dst r' \<in> set agg'" "rt_gateway r' = node_ips nds (nb_node c)" using r(2) D by blast
  obtain b1 where b1: "b1 \<in> set (routed_blocks self blocks)" "nb_node b1 = nb_node b" "x \<in> cidr_span (nb_cidr b1)"
    using aggregate_spans(1)[OF b(2)] b(3) r(3) by (fastforce simp: set_byOwner)
  obtain c1 where c1: "c1 \<in> set (routed_blocks self blocks)" "nb_node c1 = nb_node c" "x \<in> cidr_span (nb_cidr c1)"
    using aggregate_spans(1)[OF c(2)] c(3) r(4) by (fastforce simp: set_byOwner)
  have "b1 = c1" using ap b1 c1 by blast
  then have same: "nb_node b = nb_node c" using b1 c1 by simp
  have "apart_set (pfx_of ` set (byOwner self blocks (nb_node b)))"
    unfolding apart_set_def
  proof (intro ballI impI)
    fix p q assume p: "p \<in> pfx_of ` set (byOwner self blocks (nb_node b))" and q: "q \<in> pfx_of ` set (byOwner self blocks (nb_node b))"
      and "p \<noteq> q"
    obtain e where e: "e \<in> set (routed_blocks self blocks)" "nb_node e = nb_node b" "p = pfx_of (nb_cidr e)"
      using p by (auto simp: set_byOwner)
    obtain f where f: "f \<in> set (routed_blocks self blocks)" "nb_node f = nb_node b" "q = pfx_of (nb_cidr f)"
      using q by (auto simp: set_byOwner)
    have "parse_cidr (nb_cidr e) \<noteq> None" "parse_cidr (nb_cidr f) \<noteq> None"
      using aggregate_spans(2)[OF b(2)] e f by (auto simp: set_byOwner)
    then show "pspan p \<inter> pspan q = {}" using ap[OF e(1) f(1)] e(3) f(3) \<open>p \<noteq> q\<close> by (auto simp: cidr_span_pfx)
  qed
  then have "rt_dst r = rt_dst r'" using aggregate_apart[OF _ b(2,3) _ r(3,4)] b(2) c(2,3) same by simp
  then show ?thesis using b(4) c(4) same by (simp add: route.expand)
qed

text \<open>
  C26. The desired routes lead an address to a gateway exactly when it lies in a routable block of another node,
  the gateway is that node's InternalIP, and all its routable blocks are well-formed; they come sorted by
  destination, and no problem is reported exactly when every other node with a routable block has an InternalIP and
  well-formed blocks. For disjoint blocks no address has two routes.
\<close>

theorem desiredRoutes_exact:
  assumes "desiredRoutes self nds blocks = (rs, ps)"
  shows "(\<forall>x g. (\<exists>r \<in> set rs. x \<in> cidr_span (rt_dst r) \<and> rt_gateway r = g) \<longleftrightarrow>
      g \<noteq> [] \<and> (\<exists>b \<in> set (routed_blocks self blocks). x \<in> cidr_span (nb_cidr b) \<and> node_ips nds (nb_node b) = g \<and>
        (\<forall>c \<in> set (routed_blocks self blocks). nb_node c = nb_node b \<longrightarrow> parse_cidr (nb_cidr c) \<noteq> None))) \<and>
    sorted (map rt_dst rs) \<and>
    (ps = [] \<longleftrightarrow> (\<forall>b \<in> set (routed_blocks self blocks). node_ips nds (nb_node b) \<noteq> [] \<and> parse_cidr (nb_cidr b) \<noteq> None)) \<and>
    ((\<forall>b \<in> set (routed_blocks self blocks). \<forall>c \<in> set (routed_blocks self blocks). b \<noteq> c \<longrightarrow>
        cidr_span (nb_cidr b) \<inter> cidr_span (nb_cidr c) = {}) \<longrightarrow>
     (\<forall>r \<in> set rs. \<forall>r' \<in> set rs. r \<noteq> r' \<longrightarrow> cidr_span (rt_dst r) \<inter> cidr_span (rt_dst r') = {}))"
proof (intro conjI allI impI ballI)
  fix r r' assume ap: "\<forall>b \<in> set (routed_blocks self blocks). \<forall>c \<in> set (routed_blocks self blocks). b \<noteq> c \<longrightarrow>
        cidr_span (nb_cidr b) \<inter> cidr_span (nb_cidr c) = {}" and r: "r \<in> set rs" "r' \<in> set rs" "r \<noteq> r'"
  show "cidr_span (rt_dst r) \<inter> cidr_span (rt_dst r') = {}"
    using desiredRoutes_unique[OF assms _ r(1,2)] ap r(3) by blast
qed (rule desiredRoutes_exact_addrs[OF assms] desiredRoutes_sorted[OF assms] desiredRoutes_problems[OF assms])+

end
