(* ===== verification/Agent_Host.thy ===== *)
theory Agent_Host
  imports Agent_State Kube_Api "HOL-Library.AList"
begin

text \<open>
  What the agent does on its host (ipam/agent/host.go, ipam/agent/nat.go): counting and reclaiming host-local's
  lease files, replacing the CNI configuration file, and removing stale masquerade rules. The file system, the
  routing table, iptables, the informer cache and client-go's \<open>RetryOnConflict\<close> are parameters: the record \<open>host\<close>
  adds their operations to those of the API server. Go iterates over the CIDRs of a map in random order when
  it looks for the one an address belongs to; here they come in the given order, which makes no difference for
  disjoint CIDRs. An IPv6 file name counts as no address; Go parses it, and then no IPv4 block contains it.
\<close>

datatype sys_error = NotExist | SysFailed

record agent_pod =
  ap_ip :: string
  ap_ips :: "string list"

record 'c host = "'c api" +
  h_now :: "'c \<Rightarrow> go_time"
  h_nodes :: "'c \<Rightarrow> 'c \<times> (api_error + cluster_node list)"
  h_blocks :: "'c \<Rightarrow> 'c \<times> (api_error + node_block list)"
  h_pods :: "'c \<Rightarrow> string \<Rightarrow> 'c \<times> (api_error + agent_pod list)"
  h_retry :: "('c \<Rightarrow> 'c \<times> api_error option) \<Rightarrow> 'c \<Rightarrow> 'c \<times> api_error option"
  h_managed :: "'c \<Rightarrow> 'c \<times> (sys_error + route list)"
  h_replace :: "'c \<Rightarrow> route \<Rightarrow> 'c \<times> sys_error option"
  h_delete :: "'c \<Rightarrow> route \<Rightarrow> 'c \<times> sys_error option"
  h_read_file :: "'c \<Rightarrow> string \<Rightarrow> 'c \<times> (sys_error + string)"
  h_mkdir_all :: "'c \<Rightarrow> string \<Rightarrow> 'c \<times> sys_error option"
  h_create_temp :: "'c \<Rightarrow> string \<Rightarrow> 'c \<times> (sys_error + string)"
  h_write :: "'c \<Rightarrow> string \<Rightarrow> string \<Rightarrow> 'c \<times> sys_error option"
  h_close :: "'c \<Rightarrow> string \<Rightarrow> 'c \<times> sys_error option"
  h_chmod :: "'c \<Rightarrow> string \<Rightarrow> 'c \<times> sys_error option"
  h_rename :: "'c \<Rightarrow> string \<Rightarrow> string \<Rightarrow> 'c \<times> sys_error option"
  h_remove :: "'c \<Rightarrow> string \<Rightarrow> 'c \<times> sys_error option"
  h_read_dir :: "'c \<Rightarrow> string \<Rightarrow> 'c \<times> (sys_error + string list)"
  h_mod_time :: "'c \<Rightarrow> string \<Rightarrow> 'c \<times> go_time option"
  h_run :: "'c \<Rightarrow> string list \<Rightarrow> 'c \<times> bool \<times> string"

subsection \<open>Leases\<close>

datatype lease_error = InvalidCIDR string | ReadLeases sys_error | RemoveLease sys_error

definition lease_nets :: "string list \<Rightarrow> lease_error + (string \<times> ipnet) list" where
  "lease_nets cidrs =
     foldl (\<lambda>acc c. case acc of Inl e \<Rightarrow> Inl e
        | Inr ns \<Rightarrow> (case parse_cidr c of None \<Rightarrow> Inl (InvalidCIDR c) | Some (_, n) \<Rightarrow> Inr (AList.update c n ns)))
       (Inr []) cidrs"

definition net_of :: "(string \<times> ipnet) list \<Rightarrow> addr \<Rightarrow> string option" where
  "net_of ns ip = map_option fst (find (\<lambda>(c, n). net_contains n ip) ns)"

definition count_entry :: "(string \<times> ipnet) list \<Rightarrow> (string \<Rightarrow> int) \<Rightarrow> string \<Rightarrow> string \<Rightarrow> int" where
  "count_entry ns counts name =
     (case parse_ip name of
        None \<Rightarrow> counts
      | Some ip \<Rightarrow> (case net_of ns ip of None \<Rightarrow> counts | Some c \<Rightarrow> counts(c := counts c + 1)))"

definition countLeases :: "('c, 'z) host_scheme \<Rightarrow> 'c \<Rightarrow> string \<Rightarrow> string list \<Rightarrow> 'c \<times> (lease_error + (string \<Rightarrow> int))" where
  "countLeases H s dir cidrs =
     (case lease_nets cidrs of
        Inl e \<Rightarrow> (s, Inl e)
      | Inr ns \<Rightarrow>
          (case h_read_dir H s dir of
             (s, Inl e) \<Rightarrow> (s, if e = NotExist then Inr (\<lambda>_. 0) else Inl (ReadLeases e))
           | (s, Inr entries) \<Rightarrow> (s, Inr (foldl (count_entry ns) (\<lambda>_. 0) entries))))"

definition podIPs :: "agent_pod list \<Rightarrow> string list" where
  "podIPs pods = concat (map (\<lambda>p. (if ap_ip p \<noteq> [] then [ap_ip p] else []) @ ap_ips p) pods)"

definition join_path :: "string \<Rightarrow> string \<Rightarrow> string" where
  "join_path dir name = dir @ ''/'' @ name"

text \<open>One lease file: the state, the reclaimed leases by CIDR, and the first error.\<close>

definition reclaim_entry ::
  "('c, 'z) host_scheme \<Rightarrow> string \<Rightarrow> (string \<times> ipnet) list \<Rightarrow> string list \<Rightarrow> duration \<Rightarrow> go_time \<Rightarrow>
   'c \<times> (string \<Rightarrow> int) \<times> lease_error option \<Rightarrow> string \<Rightarrow> 'c \<times> (string \<Rightarrow> int) \<times> lease_error option" where
  "reclaim_entry H dir ns ips minAge now = (\<lambda>(s, out, err) name.
     (case parse_ip name of
        None \<Rightarrow> (s, out, err)
      | Some ip \<Rightarrow>
          if name \<in> set ips then (s, out, err)
          else (case h_mod_time H s (join_path dir name) of
                  (s, None) \<Rightarrow> (s, out, err)
                | (s, Some t) \<Rightarrow>
                    if now - t < minAge then (s, out, err)
                    else (case net_of ns ip of
                            None \<Rightarrow> (s, out, err)
                          | Some c \<Rightarrow>
                              (case h_remove H s (join_path dir name) of
                                 (s, Some e) \<Rightarrow> (s, out, if err = None then Some (RemoveLease e) else err)
                               | (s, None) \<Rightarrow> (s, out(c := out c + 1), err))))))"

definition reclaimLeases ::
  "('c, 'z) host_scheme \<Rightarrow> 'c \<Rightarrow> string \<Rightarrow> string list \<Rightarrow> string list \<Rightarrow> duration \<Rightarrow> go_time \<Rightarrow>
   'c \<times> (string \<Rightarrow> int) \<times> lease_error option" where
  "reclaimLeases H s dir cidrs ips minAge now =
     (case lease_nets cidrs of
        Inl e \<Rightarrow> (s, \<lambda>_. 0, Some e)
      | Inr ns \<Rightarrow>
          (case h_read_dir H s dir of
             (s, Inl e) \<Rightarrow> (s, \<lambda>_. 0, if e = NotExist then None else Some (ReadLeases e))
           | (s, Inr entries) \<Rightarrow> foldl (reclaim_entry H dir ns ips minAge now) (s, \<lambda>_. 0, None) entries))"

subsection \<open>The configuration file\<close>

text \<open>\<open>filepath.Dir\<close> of a path without redundant elements.\<close>

definition dir_of :: "string \<Rightarrow> string" where
  "dir_of path =
     (let d = rev (dropWhile (\<lambda>c. c \<noteq> CHR ''/'') (rev path))
      in if d = [] then ''.'' else if d = ''/'' then d else butlast d)"

definition fill_temp :: "('c, 'z) host_scheme \<Rightarrow> 'c \<Rightarrow> string \<Rightarrow> string \<Rightarrow> string \<Rightarrow> 'c \<times> (sys_error + bool)" where
  "fill_temp H s tmp path data =
     (case h_write H s tmp data of
        (s, Some e) \<Rightarrow> (fst (h_close H s tmp), Inl e)
      | (s, None) \<Rightarrow>
          (case h_close H s tmp of
             (s, Some e) \<Rightarrow> (s, Inl e)
           | (s, None) \<Rightarrow>
               (case h_chmod H s tmp of
                  (s, Some e) \<Rightarrow> (s, Inl e)
                | (s, None) \<Rightarrow>
                    (case h_rename H s tmp path of (s, Some e) \<Rightarrow> (s, Inl e) | (s, None) \<Rightarrow> (s, Inr True)))))"

definition writeFileIfChanged :: "('c, 'z) host_scheme \<Rightarrow> 'c \<Rightarrow> string \<Rightarrow> string \<Rightarrow> 'c \<times> (sys_error + bool)" where
  "writeFileIfChanged H s path data =
     (case h_read_file H s path of
        (s, old) \<Rightarrow>
          if old = Inr data then (s, Inr False)
          else (case h_mkdir_all H s (dir_of path) of
                  (s, Some e) \<Rightarrow> (s, Inl e)
                | (s, None) \<Rightarrow>
                    (case h_create_temp H s (dir_of path) of
                       (s, Inl e) \<Rightarrow> (s, Inl e)
                     | (s, Inr tmp) \<Rightarrow>
                         (case fill_temp H s tmp path data of (s, r) \<Rightarrow> (fst (h_remove H s tmp), r)))))"

subsection \<open>Masquerade rules\<close>

record shell_state =
  ss_out :: "string list"
  ss_cur :: string
  ss_quoted :: bool
  ss_have :: bool
  ss_esc :: bool

definition shell_char :: "shell_state \<Rightarrow> char \<Rightarrow> shell_state" where
  "shell_char st r =
     (if ss_esc st then st\<lparr>ss_cur := ss_cur st @ [r], ss_esc := False\<rparr>
      else if r = CHR 0x5C then st\<lparr>ss_esc := True, ss_have := True\<rparr>
      else if r = CHR 0x22 then st\<lparr>ss_quoted := \<not> ss_quoted st, ss_have := True\<rparr>
      else if r = CHR '' '' \<and> \<not> ss_quoted st
      then (if ss_have st then st\<lparr>ss_out := ss_out st @ [ss_cur st], ss_cur := [], ss_have := False\<rparr> else st)
      else st\<lparr>ss_cur := ss_cur st @ [r], ss_have := True\<rparr>)"

definition splitShell :: "string \<Rightarrow> string list" where
  "splitShell line =
     (let st = foldl shell_char \<lparr>ss_out = [], ss_cur = [], ss_quoted = False, ss_have = False, ss_esc = False\<rparr> line
      in if ss_have st then ss_out st @ [ss_cur st] else ss_out st)"

definition is_space :: "char \<Rightarrow> bool" where
  "is_space c = (let k = of_char c :: nat in k = 32 \<or> 9 \<le> k \<and> k \<le> 13)"

definition trimSpace :: "string \<Rightarrow> string" where
  "trimSpace line = rev (dropWhile is_space (rev (dropWhile is_space line)))"

fun scan_rule :: "string \<Rightarrow> string \<Rightarrow> string list \<Rightarrow> string \<times> string" where
  "scan_rule src target (x # y # rest) =
     (if x = ''-s'' then scan_rule y target (y # rest)
      else if x = ''-j'' then scan_rule src y (y # rest)
      else scan_rule src target (y # rest))"
| "scan_rule src target _ = (src, target)"

definition stale_rule :: "ipnet list \<Rightarrow> string \<Rightarrow> (string list \<times> string) option" where
  "stale_rule ns line =
     (let f = splitShell (trimSpace line) in
      if length f < 4 \<or> f ! 0 \<noteq> ''-A'' \<or> f ! 1 \<noteq> ''POSTROUTING'' then None
      else (case scan_rule [] [] (drop 2 f) of (src, target) \<Rightarrow>
        if take 4 target \<noteq> ''CNI-'' \<or> src = [] then None
        else (let ip = (case parse_cidr src of Some (ip, _) \<Rightarrow> Some ip | None \<Rightarrow> parse_ip src)
              in if list_ex (\<lambda>n. case ip of None \<Rightarrow> False | Some x \<Rightarrow> net_contains n x) ns
                 then Some (drop 2 f, target) else None)))"

definition staleCNIMasquerade :: "string \<Rightarrow> string list \<Rightarrow> (string list \<times> string) list" where
  "staleCNIMasquerade saveOutput cidrs =
     (let ns = [n. Some (_, n) \<leftarrow> map parse_cidr cidrs]
      in [r. Some r \<leftarrow> map (stale_rule ns) (split_on (CHR 0x0A) saveOutput)])"

text \<open>State, removed rules, whether a delete failed, and the chains already seen.\<close>

definition clean_rule ::
  "('c, 'z) host_scheme \<Rightarrow> 'c \<times> int \<times> bool \<times> string list \<Rightarrow> string list \<times> string \<Rightarrow> 'c \<times> int \<times> bool \<times> string list" where
  "clean_rule H = (\<lambda>(s, removed, failed, seen) (spec, chain).
     (case h_run H s ([''-t'', ''nat'', ''-D'', ''POSTROUTING''] @ spec) of
        (s, False, _) \<Rightarrow> (s, removed, True, seen)
      | (s, True, _) \<Rightarrow>
          if chain \<in> set seen then (s, removed + 1, failed, seen)
          else (case h_run H s [''-t'', ''nat'', ''-F'', chain] of
                  (s, _) \<Rightarrow>
                    (case h_run H s [''-t'', ''nat'', ''-X'', chain] of
                       (s, _) \<Rightarrow> (s, removed + 1, failed, chain # seen)))))"

definition cleanStaleNAT :: "('c, 'z) host_scheme \<Rightarrow> 'c \<Rightarrow> string list \<Rightarrow> 'c \<times> int \<times> bool" where
  "cleanStaleNAT H s cidrs =
     (case h_run H s [''-t'', ''nat'', ''-S'', ''POSTROUTING''] of
        (s, False, _) \<Rightarrow> (s, 0, True)
      | (s, True, out) \<Rightarrow>
          (case foldl (clean_rule H) (s, 0, False, []) (staleCNIMasquerade out cidrs) of
             (s, removed, failed, _) \<Rightarrow> (s, removed, failed)))"

end
