(* ===== verification/Agent.thy ===== *)
theory Agent
  imports Agent_Host
begin

text \<open>
  The agent's pass (ipam/agent/agent.go): routes, acknowledgements, masquerade clean-up, and this node's own
  blocks with the CNI configuration. The configuration of the agent is a record, extended by the two fields a pass
  changes. Errors are collected in a list, as \<open>errors.Join\<close> does; log lines are not modelled. \<open>Run\<close> repeats the pass
  on a timer or a watch event and has no state of its own.
\<close>

record agent =
  ag_node :: string
  ag_conf_path :: string
  ag_net :: string
  ag_lease_dir :: string
  ag_data_dir :: string
  ag_promote_timeout :: duration
  ag_nat :: bool
  ag_nat_every :: duration
  ag_reclaim :: bool
  ag_leak_min_age :: duration
  ag_drain_settle :: duration
  ag_last_nat :: go_time
  ag_releasing :: "string \<Rightarrow> (string \<times> go_time) option"

datatype agent_error =
    ListNodes api_error
  | ListBlocks api_error
  | ListPods api_error
  | ListRoutes sys_error
  | InstallRoute route sys_error
  | DeleteRoute route sys_error
  | IncompleteRoutes "route_problem list"
  | UpdateStatus string api_error
  | CleanNAT
  | RenderConfig render_error
  | WriteConfig sys_error
  | CountLeases lease_error
  | CountHalves lease_error

subsection \<open>Routes\<close>

definition install_step :: "('c, 'z) host_scheme \<Rightarrow> route list \<Rightarrow> 'c \<times> agent_error list \<Rightarrow> route \<Rightarrow> 'c \<times> agent_error list" where
  "install_step H have_routes = (\<lambda>(s, errs) r.
     (if r \<in> set have_routes then (s, errs)
      else (case h_replace H s r of (s, Some e) \<Rightarrow> (s, errs @ [InstallRoute r e]) | (s, None) \<Rightarrow> (s, errs))))"

definition remove_step :: "('c, 'z) host_scheme \<Rightarrow> route list \<Rightarrow> 'c \<times> agent_error list \<Rightarrow> route \<Rightarrow> 'c \<times> agent_error list" where
  "remove_step H want = (\<lambda>(s, errs) r.
     (if r \<in> set want then (s, errs)
      else (case h_delete H s r of (s, Some e) \<Rightarrow> (s, errs @ [DeleteRoute r e]) | (s, None) \<Rightarrow> (s, errs))))"

definition syncRoutes :: "('c, 'z) host_scheme \<Rightarrow> agent \<Rightarrow> 'c \<Rightarrow> cluster_node list \<Rightarrow> node_block list \<Rightarrow> 'c \<times> agent_error list" where
  "syncRoutes H a s nds blocks =
     (case desiredRoutes (ag_node a) nds blocks of
        (want, problems) \<Rightarrow>
          (case h_managed H s of
             (s, Inl e) \<Rightarrow> (s, [ListRoutes e])
           | (s, Inr have_routes) \<Rightarrow>
               (case foldl (remove_step H want) (foldl (install_step H have_routes) (s, []) want) have_routes of
                  (s, errs) \<Rightarrow> (s, if problems \<noteq> [] then errs @ [IncompleteRoutes problems] else errs))))"

subsection \<open>Status updates\<close>

text \<open>\<open>mutate\<close> may read the clock, and returns \<open>None\<close> when there is nothing to write.\<close>

definition update_once :: "('c, 'z) host_scheme \<Rightarrow> string \<Rightarrow> ('c \<Rightarrow> node_block \<Rightarrow> node_block option) \<Rightarrow> 'c \<Rightarrow> 'c \<times> api_error option" where
  "update_once H name mutate s =
     (case a_get H s name of
        (s, Inl e) \<Rightarrow> (s, ignore_not_found e)
      | (s, Inr b) \<Rightarrow>
          (case mutate s b of
             None \<Rightarrow> (s, None)
           | Some b \<Rightarrow> (case a_update_status H s b of (s, Inl e) \<Rightarrow> (s, Some e) | (s, Inr _) \<Rightarrow> (s, None))))"

definition agent_update :: "('c, 'z) host_scheme \<Rightarrow> 'c \<Rightarrow> string \<Rightarrow> ('c \<Rightarrow> node_block \<Rightarrow> node_block option) \<Rightarrow> 'c \<times> api_error option" where
  "agent_update H s name mutate = h_retry H (update_once H name mutate) s"

definition ack_block :: "string \<Rightarrow> node_block \<Rightarrow> node_block option" where
  "ack_block node b =
     (if node \<in> set (nb_acked b) then None else Some (b\<lparr>nb_acked := sort_by (<) (nb_acked b @ [node])\<rparr>))"

definition ack :: "('c, 'z) host_scheme \<Rightarrow> agent \<Rightarrow> 'c \<times> agent_error list \<Rightarrow> string \<Rightarrow> 'c \<times> agent_error list" where
  "ack H a = (\<lambda>(s, errs) name.
     (case agent_update H s name (\<lambda>_. ack_block (ag_node a)) of
        (s, Some e) \<Rightarrow> (s, errs @ [UpdateStatus name e])
      | (s, None) \<Rightarrow> (s, errs)))"

subsection \<open>This node's own blocks\<close>

definition joins_config :: "agent \<Rightarrow> cluster_node list \<Rightarrow> bool \<Rightarrow> go_time \<Rightarrow> node_block \<Rightarrow> bool" where
  "joins_config a nds routesOK now b =
     (case phaseOf b of
        NodeBlockActive \<Rightarrow> \<not> nb_drain b
      | NodeBlockDraining \<Rightarrow> \<not> nb_drain b
      | NodeBlockPending \<Rightarrow> \<not> nb_drain b \<and> routesOK \<and> readyToPromote (ag_node a) b nds now (ag_promote_timeout a)
      | _ \<Rightarrow> False)"

definition halves_of :: "node_block list \<Rightarrow> string list" where
  "halves_of own = concat (map (\<lambda>b. case halves (nb_cidr b) of Inl _ \<Rightarrow> [] | Inr (lo, hi) \<Rightarrow> [lo, hi]) own)"

definition countHalves :: "('c, 'z) host_scheme \<Rightarrow> 'c \<Rightarrow> string \<Rightarrow> node_block list \<Rightarrow> 'c \<times> (lease_error + (string \<Rightarrow> int))" where
  "countHalves H s dir own = countLeases H s dir (halves_of own)"

definition halfUsage :: "string \<Rightarrow> (string \<Rightarrow> int) \<Rightarrow> int list" where
  "halfUsage cidr halfUsed = (case halves cidr of Inl _ \<Rightarrow> [] | Inr (lo, hi) \<Rightarrow> [halfUsed lo, halfUsed hi])"

text \<open>\<open>setHalfStatus\<close>: the block, and whether it was changed.\<close>

definition setHalfStatus :: "node_block \<Rightarrow> string \<Rightarrow> string \<Rightarrow> int list \<Rightarrow> string \<Rightarrow> node_block \<times> bool" where
  "setHalfStatus cur readCIDR readRelease usage ready =
     (if nb_cidr cur \<noteq> readCIDR then (cur, False)
      else (let changed = (nb_half_usage cur \<noteq> usage);
                ready = (if nb_release cur \<noteq> readRelease then [] else ready);
                cur' = cur\<lparr>nb_half_usage := usage\<rparr>
            in if nb_release_ready cur' \<noteq> ready then (cur'\<lparr>nb_release_ready := ready\<rparr>, True) else (cur', changed)))"

definition releasing_block :: "node_block \<Rightarrow> bool" where
  "releasing_block b \<longleftrightarrow> \<not> (nb_release b = [] \<or> nb_drain b \<or> phaseOf b \<noteq> NodeBlockActive \<or> ServedCIDR b = nb_cidr b)"

definition release_step ::
  "go_time \<Rightarrow> duration \<Rightarrow> (string \<Rightarrow> int) \<Rightarrow> bool \<Rightarrow> (string \<Rightarrow> (string \<times> go_time) option) \<times> (string \<Rightarrow> string) \<Rightarrow> node_block \<Rightarrow>
   (string \<Rightarrow> (string \<times> go_time) option) \<times> (string \<Rightarrow> string)" where
  "release_step now settle halfUsed configOK = (\<lambda>(marks, out) b.
     (if \<not> releasing_block b then (marks, out)
      else (let half = nb_release b;
                known = (case marks (nb_name b) of Some m \<Rightarrow> fst m = half | None \<Rightarrow> False)
            in if \<not> known \<and> \<not> configOK then (marks, out)
               else (let marks = (if known then marks else marks(nb_name b \<mapsto> (half, now)));
                         since = (case marks (nb_name b) of Some m \<Rightarrow> snd m | None \<Rightarrow> now)
                     in if halfUsed half = 0 \<and> now - since \<ge> settle
                        then (marks, out(nb_name b := half)) else (marks, out)))))"

definition releaseReady ::
  "agent \<Rightarrow> go_time \<Rightarrow> node_block list \<Rightarrow> (string \<Rightarrow> int) \<Rightarrow> bool \<Rightarrow> agent \<times> (string \<Rightarrow> string)" where
  "releaseReady a now own halfUsed configOK =
     (case foldl (release_step now (ag_drain_settle a) halfUsed configOK) (ag_releasing a, \<lambda>_. []) own of
        (marks, out) \<Rightarrow>
          (a\<lparr>ag_releasing := (\<lambda>n. if n \<in> set (map nb_name (filter releasing_block own)) then marks n else None)\<rparr>, out))"

definition reclaim :: "('c, 'z) host_scheme \<Rightarrow> agent \<Rightarrow> 'c \<Rightarrow> string list \<Rightarrow> 'c \<times> (string \<Rightarrow> int)" where
  "reclaim H a s cidrs =
     (case h_pods H s (ag_node a) of
        (s, Inl e) \<Rightarrow> (s, \<lambda>_. 0)
      | (s, Inr pods) \<Rightarrow>
          if pods = [] then (s, \<lambda>_. 0)
          else (case reclaimLeases H s (ag_lease_dir a) cidrs (podIPs pods) (ag_leak_min_age a) (h_now H s) of
                  (s, out, _) \<Rightarrow> (s, out)))"

definition nextPhase :: "go_time \<Rightarrow> duration \<Rightarrow> node_block \<Rightarrow> bool \<Rightarrow> int \<Rightarrow> bool \<Rightarrow> block_phase option" where
  "nextPhase now settle cur promoting used configOK =
     (let phase = phaseOf cur in
      if promoting \<and> phase = NodeBlockPending then Some NodeBlockActive
      else if phase = NodeBlockActive \<and> nb_drain cur \<and> configOK then Some NodeBlockDraining
      else if phase = NodeBlockDraining \<and> \<not> nb_drain cur then Some NodeBlockActive
      else if phase = NodeBlockPending \<and> nb_drain cur \<and> used = 0 \<and> now - transitionTime cur \<ge> settle
        then Some NodeBlockQuarantined
      else if phase = NodeBlockDraining \<and> used = 0 \<and> configOK \<and> now - transitionTime cur \<ge> settle
        then Some NodeBlockQuarantined
      else None)"

text \<open>What the pass found out about a block of this node.\<close>

record findings =
  fd_cidr :: string
  fd_release :: string
  fd_promoting :: bool
  fd_used :: int
  fd_reclaimed :: int
  fd_half_usage :: "int list"
  fd_ready :: string
  fd_config_ok :: bool

definition own_mutate :: "go_time \<Rightarrow> duration \<Rightarrow> findings \<Rightarrow> node_block \<Rightarrow> node_block option" where
  "own_mutate now settle f cur =
     (case setHalfStatus cur (fd_cidr f) (fd_release f) (fd_half_usage f) (fd_ready f) of
        (cur, changed) \<Rightarrow>
          (let (cur, changed) = (case nextPhase now settle cur (fd_promoting f) (fd_used f) (fd_config_ok f) of
                 Some ph \<Rightarrow> (cur\<lparr>nb_phase := ph, nb_transition := Some now\<rparr>, True) | None \<Rightarrow> (cur, changed));
               (cur, changed) = (if nb_used cur \<noteq> fd_used f then (cur\<lparr>nb_used := fd_used f\<rparr>, True) else (cur, changed));
               (cur, changed) = (if fd_reclaimed f > 0
                 then (cur\<lparr>nb_reclaimed := nb_reclaimed cur + fd_reclaimed f\<rparr>, True) else (cur, changed))
           in if changed then Some cur else None))"

definition own_update ::
  "('c, 'z) host_scheme \<Rightarrow> agent \<Rightarrow> (node_block \<Rightarrow> findings) \<Rightarrow> 'c \<times> agent_error list \<Rightarrow> node_block \<Rightarrow> 'c \<times> agent_error list" where
  "own_update H a found = (\<lambda>(s, errs) b.
     (case agent_update H s (nb_name b) (\<lambda>s. own_mutate (h_now H s) (ag_drain_settle a) (found b)) of
        (s, Some e) \<Rightarrow> (s, errs @ [UpdateStatus (nb_name b) e])
      | (s, None) \<Rightarrow> (s, errs)))"

definition own_config :: "('c, 'z) host_scheme \<Rightarrow> agent \<Rightarrow> 'c \<Rightarrow> node_block list \<Rightarrow> 'c \<times> (agent_error + bool)" where
  "own_config H a s inConfig =
     (if inConfig = [] then (s, Inr False)
      else (case renderCNIConfig (ag_net a) (ag_data_dir a) (map ServedCIDR inConfig) of
              Inl e \<Rightarrow> (s, Inl (RenderConfig e))
            | Inr conf \<Rightarrow>
                (case writeFileIfChanged H s (ag_conf_path a) conf of
                   (s, Inl e) \<Rightarrow> (s, Inl (WriteConfig e))
                 | (s, Inr _) \<Rightarrow> (s, Inr True))))"

definition own_findings ::
  "(string \<Rightarrow> int) \<Rightarrow> (string \<Rightarrow> int) \<Rightarrow> (string \<Rightarrow> int) \<Rightarrow> (string \<Rightarrow> string) \<Rightarrow> string list \<Rightarrow> bool \<Rightarrow> node_block \<Rightarrow> findings" where
  "own_findings used reclaimed halfUsed ready promoted configOK b =
     \<lparr>fd_cidr = nb_cidr b, fd_release = nb_release b, fd_promoting = (nb_name b \<in> set promoted), fd_used = used (nb_cidr b),
      fd_reclaimed = reclaimed (nb_cidr b), fd_half_usage = halfUsage (nb_cidr b) halfUsed, fd_ready = ready (nb_name b),
      fd_config_ok = configOK\<rparr>"

text \<open>The part of \<open>syncOwn\<close> after the configuration was written.\<close>

definition own_status ::
  "('c, 'z) host_scheme \<Rightarrow> agent \<Rightarrow> 'c \<Rightarrow> node_block list \<Rightarrow> string list \<Rightarrow> bool \<Rightarrow> ('c \<times> agent) \<times> agent_error list" where
  "own_status H a s own promoted configOK =
     (case (if ag_reclaim a then reclaim H a s (map nb_cidr own) else (s, \<lambda>_. 0)) of
        (s, reclaimed) \<Rightarrow>
          (case countLeases H s (ag_lease_dir a) (map nb_cidr own) of
             (s, Inl e) \<Rightarrow> ((s, a), [CountLeases e])
           | (s, Inr used) \<Rightarrow>
               (case countHalves H s (ag_lease_dir a) own of
                  (s, Inl e) \<Rightarrow> ((s, a), [CountHalves e])
                | (s, Inr halfUsed) \<Rightarrow>
                    (case releaseReady a (h_now H s) own halfUsed configOK of
                       (a, ready) \<Rightarrow>
                         (case foldl (own_update H a (own_findings used reclaimed halfUsed ready promoted configOK)) (s, []) own of
                            (s, errs) \<Rightarrow> ((s, a), errs))))))"

definition syncOwn ::
  "('c, 'z) host_scheme \<Rightarrow> agent \<Rightarrow> 'c \<Rightarrow> cluster_node list \<Rightarrow> node_block list \<Rightarrow> bool \<Rightarrow> ('c \<times> agent) \<times> agent_error list" where
  "syncOwn H a s nds blocks routesOK =
     (let own = filter (\<lambda>b. nb_node b = ag_node a) blocks in
      if own = [] then ((s, a), [])
      else (let inConfig = filter (joins_config a nds routesOK (h_now H s)) own;
                promoted = map nb_name (filter (\<lambda>b. phaseOf b = NodeBlockPending) inConfig)
            in case own_config H a s inConfig of
                 (s, Inl e) \<Rightarrow> ((s, a), [e])
               | (s, Inr configOK) \<Rightarrow> own_status H a s own promoted configOK))"

definition cleanNAT :: "('c, 'z) host_scheme \<Rightarrow> agent \<Rightarrow> 'c \<Rightarrow> node_block list \<Rightarrow> ('c \<times> agent) \<times> agent_error list" where
  "cleanNAT H a s blocks =
     (if \<not> ag_nat a \<or> h_now H s - ag_last_nat a < ag_nat_every a then ((s, a), [])
      else (let cidrs = map nb_cidr (filter (\<lambda>b. nb_node b = ag_node a) blocks) in
            if cidrs = [] then ((s, a), [])
            else (case cleanStaleNAT H s cidrs of
                    (s', _, failed) \<Rightarrow> ((s', a\<lparr>ag_last_nat := h_now H s\<rparr>), if failed then [CleanNAT] else []))))"

definition sync :: "('c, 'z) host_scheme \<Rightarrow> 'c \<times> agent \<Rightarrow> ('c \<times> agent) \<times> agent_error list" where
  "sync H = (\<lambda>(s, a).
     (case h_nodes H s of
        (s, Inl e) \<Rightarrow> ((s, a), [ListNodes e])
      | (s, Inr nds) \<Rightarrow>
          (case h_blocks H s of
             (s, Inl e) \<Rightarrow> ((s, a), [ListBlocks e])
           | (s, Inr blocks) \<Rightarrow>
               (case syncRoutes H a s nds blocks of
                  (s, routeErrs) \<Rightarrow>
                    (case (if routeErrs = [] then foldl (ack H a) (s, []) (ackableBlocks (ag_node a) blocks) else (s, [])) of
                       (s, ackErrs) \<Rightarrow>
                         (case cleanNAT H a s blocks of
                            ((s, a), natErrs) \<Rightarrow>
                              (case syncOwn H a s nds blocks (routeErrs = []) of
                                 (sa, ownErrs) \<Rightarrow> (sa, routeErrs @ ackErrs @ natErrs @ ownErrs))))))))"

end
