(* ===== verification/Agent_Laws.thy ===== *)
theory Agent_Laws
  imports Agent "HOL-Library.Sublist"
begin

text \<open>
  What the agent relies on of the services it uses, and the frame of every part of its pass: which of the three
  observed states, the stored NodeBlocks \<open>st\<close>, the files \<open>fl\<close> and the routes \<open>tb\<close>, it can change.
\<close>

definition keeps :: "('c \<Rightarrow> 'v) \<Rightarrow> ('c \<Rightarrow> 'c \<times> 'r) \<Rightarrow> bool" where
  "keeps v f \<longleftrightarrow> (\<forall>s. v (fst (f s)) = v s)"

lemma keepsD: "keeps v f \<Longrightarrow> v (fst (f s)) = v s"
  by (simp add: keeps_def)

lemma keepsE: "keeps v f \<Longrightarrow> f s = (s', r) \<Longrightarrow> v s' = v s"
  by (metis keepsD fst_conv)

text \<open>\<open>retry.RetryOnConflict\<close> calls its function again only after a conflict, and may give up then.\<close>

inductive retried :: "('c \<Rightarrow> 'c \<times> api_error option) \<Rightarrow> 'c \<Rightarrow> 'c \<times> api_error option \<Rightarrow> bool" for f where
  retried_last: "retried f s (f s)"
| retried_again: "f s = (s1, Some ApiConflict) \<Longrightarrow> retried f s1 r \<Longrightarrow> retried f s r"

lemma retried_invariant:
  assumes "retried f s r" "\<And>s. P s \<Longrightarrow> P (fst (f s))" "P s"
  shows "P (fst r)"
  using assms(1,3)
proof (induction rule: retried.induct)
  case (retried_again s s1 r)
  then show ?case using assms(2)[of s] by simp
qed (rule assms(2))

lemma retried_answer:
  assumes "retried f s r" "\<And>s. P s \<Longrightarrow> P (fst (f s))" "P s"
  shows "\<exists>t. P t \<and> f t = r"
  using assms(1,3)
proof (induction rule: retried.induct)
  case (retried_again s s1 r)
  then show ?case using assms(2)[of s] by simp
qed blast

definition retry_law :: "('c, 'z) host_scheme \<Rightarrow> bool" where
  "retry_law H \<longleftrightarrow> (\<forall>f s. retried f s (h_retry H f s))"

text \<open>
  The file system: a temporary file is new, empty and named \<open>*.tmp\<close>, a rename replaces its target at once, and a
  failed operation leaves the other files alone. \<open>F\<close> are the files before, \<open>F'\<close> those after.
\<close>

type_synonym files = "string \<Rightarrow> string option"

definition temp_law :: "files \<Rightarrow> files \<Rightarrow> sys_error + string \<Rightarrow> bool" where
  "temp_law F F' r \<longleftrightarrow> (case r of Inl _ \<Rightarrow> F' = F | Inr t \<Rightarrow> suffix ''.tmp'' t \<and> F t = None \<and> F' = F(t \<mapsto> []))"

definition write_law_at :: "files \<Rightarrow> string \<Rightarrow> string \<Rightarrow> files \<Rightarrow> sys_error option \<Rightarrow> bool" where
  "write_law_at F t d F' e \<longleftrightarrow> (\<forall>q. q \<noteq> t \<longrightarrow> F' q = F q) \<and> (e = None \<and> F t = Some [] \<longrightarrow> F' t = Some d)"

definition file_laws :: "('c, 'z) host_scheme \<Rightarrow> ('c \<Rightarrow> files) \<Rightarrow> bool" where
  "file_laws H fl \<longleftrightarrow>
     (\<forall>s p. case snd (h_read_file H s p) of Inl _ \<Rightarrow> True | Inr d \<Rightarrow> fl s p = Some d) \<and>
     (\<forall>d. keeps fl (\<lambda>s. h_mkdir_all H s d)) \<and> (\<forall>t. keeps fl (\<lambda>s. h_close H s t)) \<and> (\<forall>t. keeps fl (\<lambda>s. h_chmod H s t)) \<and>
     (\<forall>s d. temp_law (fl s) (fl (fst (h_create_temp H s d))) (snd (h_create_temp H s d))) \<and>
     (\<forall>s t d. write_law_at (fl s) t d (fl (fst (h_write H s t d))) (snd (h_write H s t d))) \<and>
     (\<forall>s t p. fl (fst (h_rename H s t p)) =
        (if snd (h_rename H s t p) = None then (fl s)(p := fl s t, t := None) else fl s)) \<and>
     (\<forall>s p. fl (fst (h_remove H s p)) = (if snd (h_remove H s p) = None then (fl s)(p := None) else fl s))"

text \<open>
  The routes with the agent's protocol. Installing one may replace another route to the same destination (the
  kernel does, the test double does not), an error changes nothing. \<open>T\<close> and \<open>T'\<close> are the tables before and after.
\<close>

definition replace_law :: "route set \<Rightarrow> route \<Rightarrow> route set \<Rightarrow> sys_error option \<Rightarrow> bool" where
  "replace_law T r T' e \<longleftrightarrow>
     (if e = None then r \<in> T' \<and> T' \<subseteq> insert r T \<and> (\<forall>q \<in> T. rt_dst q \<noteq> rt_dst r \<longrightarrow> q \<in> T') else T' = T)"

definition route_laws :: "('c, 'z) host_scheme \<Rightarrow> ('c \<Rightarrow> route set) \<Rightarrow> bool" where
  "route_laws H tb \<longleftrightarrow>
     (\<forall>s. case snd (h_managed H s) of Inl _ \<Rightarrow> True | Inr rs \<Rightarrow> set rs = tb s) \<and>
     (\<forall>s r. replace_law (tb s) r (tb (fst (h_replace H s r))) (snd (h_replace H s r))) \<and>
     (\<forall>s r. tb (fst (h_delete H s r)) = (if snd (h_delete H s r) = None then tb s - {r} else tb s))"

definition host_frames :: "('c, 'z) host_scheme \<Rightarrow> ('c \<Rightarrow> store) \<Rightarrow> ('c \<Rightarrow> string \<Rightarrow> string option) \<Rightarrow> ('c \<Rightarrow> route set) \<Rightarrow> bool" where
  "host_frames H st fl tb \<longleftrightarrow>
     keeps (\<lambda>s. (st s, fl s, tb s)) (h_nodes H) \<and> keeps (\<lambda>s. (st s, fl s, tb s)) (h_blocks H) \<and>
     (\<forall>n. keeps (\<lambda>s. (st s, fl s, tb s)) (\<lambda>s. h_pods H s n)) \<and> keeps (\<lambda>s. (st s, fl s, tb s)) (h_managed H) \<and>
     (\<forall>p. keeps (\<lambda>s. (st s, fl s, tb s)) (\<lambda>s. h_read_file H s p)) \<and> (\<forall>p. keeps (\<lambda>s. (st s, fl s, tb s)) (\<lambda>s. h_read_dir H s p)) \<and>
     (\<forall>p. keeps (\<lambda>s. (st s, fl s, tb s)) (\<lambda>s. h_mod_time H s p)) \<and> (\<forall>p. keeps (\<lambda>s. (st s, fl s, tb s)) (\<lambda>s. h_run H s p)) \<and>
     (\<forall>n. keeps (\<lambda>s. (fl s, tb s)) (\<lambda>s. a_get H s n)) \<and> (\<forall>b. keeps (\<lambda>s. (fl s, tb s)) (\<lambda>s. a_update_status H s b)) \<and>
     (\<forall>r. keeps (\<lambda>s. (st s, fl s)) (\<lambda>s. h_replace H s r)) \<and> (\<forall>r. keeps (\<lambda>s. (st s, fl s)) (\<lambda>s. h_delete H s r)) \<and>
     (\<forall>d. keeps (\<lambda>s. (st s, tb s)) (\<lambda>s. h_mkdir_all H s d)) \<and> (\<forall>d. keeps (\<lambda>s. (st s, tb s)) (\<lambda>s. h_create_temp H s d)) \<and>
     (\<forall>t d. keeps (\<lambda>s. (st s, tb s)) (\<lambda>s. h_write H s t d)) \<and> (\<forall>t. keeps (\<lambda>s. (st s, tb s)) (\<lambda>s. h_close H s t)) \<and>
     (\<forall>t. keeps (\<lambda>s. (st s, tb s)) (\<lambda>s. h_chmod H s t)) \<and> (\<forall>t p. keeps (\<lambda>s. (st s, tb s)) (\<lambda>s. h_rename H s t p)) \<and>
     (\<forall>p. keeps (\<lambda>s. (st s, tb s)) (\<lambda>s. h_remove H s p))"

text \<open>
  Everything together. A read that answers \<open>NotFound\<close> tells the truth. The node and block lists come from a cache,
  which may be stale, so nothing is said about what they contain.
\<close>

definition host_laws :: "('c, 'z) host_scheme \<Rightarrow> ('c \<Rightarrow> store) \<Rightarrow> ('c \<Rightarrow> string \<Rightarrow> string option) \<Rightarrow> ('c \<Rightarrow> route set) \<Rightarrow> bool" where
  "host_laws H st fl tb \<longleftrightarrow>
     api_laws H st \<and> (\<forall>s n s'. a_get H s n = (s', Inl NotFound) \<longrightarrow> st s n = None) \<and>
     retry_law H \<and> file_laws H fl \<and> route_laws H tb \<and> host_frames H st fl tb"

lemma host_lawsD:
  assumes "host_laws H st fl tb"
  shows "api_laws H st" "a_get H s n = (s', Inl NotFound) \<Longrightarrow> st s n = None" "retried f s (h_retry H f s)"
    "file_laws H fl" "route_laws H tb" "host_frames H st fl tb"
  using assms by (auto simp: host_laws_def retry_law_def)

lemma keeps_pair: "keeps (\<lambda>s. (f s, g s)) h \<longleftrightarrow> keeps f h \<and> keeps g h"
  by (auto simp: keeps_def)

lemma frame_st:
  assumes "host_laws H st fl tb"
  shows "st (fst (h_nodes H s)) = st s" "st (fst (h_blocks H s)) = st s" "st (fst (h_pods H s n)) = st s"
    "st (fst (h_managed H s)) = st s" "st (fst (h_read_file H s p)) = st s" "st (fst (h_read_dir H s p)) = st s"
    "st (fst (h_mod_time H s p)) = st s" "st (fst (h_run H s ws)) = st s" "st (fst (h_replace H s r)) = st s"
    "st (fst (h_delete H s r)) = st s" "st (fst (h_mkdir_all H s p)) = st s" "st (fst (h_create_temp H s p)) = st s"
    "st (fst (h_write H s p d)) = st s" "st (fst (h_close H s p)) = st s" "st (fst (h_chmod H s p)) = st s"
    "st (fst (h_rename H s p q)) = st s" "st (fst (h_remove H s p)) = st s" "st (fst (a_get H s n)) = st s"
proof -
  note f = host_lawsD(6)[OF assms]
  show "st (fst (h_nodes H s)) = st s" "st (fst (h_blocks H s)) = st s" "st (fst (h_pods H s n)) = st s"
    "st (fst (h_managed H s)) = st s" "st (fst (h_read_file H s p)) = st s" "st (fst (h_read_dir H s p)) = st s"
    "st (fst (h_mod_time H s p)) = st s" "st (fst (h_run H s ws)) = st s" "st (fst (h_replace H s r)) = st s"
    "st (fst (h_delete H s r)) = st s" "st (fst (h_mkdir_all H s p)) = st s" "st (fst (h_create_temp H s p)) = st s"
    "st (fst (h_write H s p d)) = st s" "st (fst (h_close H s p)) = st s" "st (fst (h_chmod H s p)) = st s"
    "st (fst (h_rename H s p q)) = st s" "st (fst (h_remove H s p)) = st s"
    using f by (simp_all add: host_frames_def keeps_def)
  obtain s' r where g: "a_get H s n = (s', r)" by (cases "a_get H s n")
  show "st (fst (a_get H s n)) = st s" using api_getD(1)[OF host_lawsD(1)[OF assms] g] g by simp
qed

lemma frame_fl:
  assumes "host_laws H st fl tb"
  shows "fl (fst (h_nodes H s)) = fl s" "fl (fst (h_blocks H s)) = fl s" "fl (fst (h_pods H s n)) = fl s"
    "fl (fst (h_managed H s)) = fl s" "fl (fst (h_read_file H s p)) = fl s" "fl (fst (h_read_dir H s p)) = fl s"
    "fl (fst (h_mod_time H s p)) = fl s" "fl (fst (h_run H s ws)) = fl s" "fl (fst (h_replace H s r)) = fl s"
    "fl (fst (h_delete H s r)) = fl s" "fl (fst (a_get H s n)) = fl s" "fl (fst (a_update_status H s b)) = fl s"
  using host_lawsD(6)[OF assms] by (simp_all add: host_frames_def keeps_def)

lemma frame_tb:
  assumes "host_laws H st fl tb"
  shows "tb (fst (h_nodes H s)) = tb s" "tb (fst (h_blocks H s)) = tb s" "tb (fst (h_pods H s n)) = tb s"
    "tb (fst (h_managed H s)) = tb s" "tb (fst (h_read_file H s p)) = tb s" "tb (fst (h_read_dir H s p)) = tb s"
    "tb (fst (h_mod_time H s p)) = tb s" "tb (fst (h_run H s ws)) = tb s"
    "tb (fst (h_mkdir_all H s p)) = tb s" "tb (fst (h_create_temp H s p)) = tb s"
    "tb (fst (h_write H s p d)) = tb s" "tb (fst (h_close H s p)) = tb s" "tb (fst (h_chmod H s p)) = tb s"
    "tb (fst (h_rename H s p q)) = tb s" "tb (fst (h_remove H s p)) = tb s"
    "tb (fst (a_get H s n)) = tb s" "tb (fst (a_update_status H s b)) = tb s"
  using host_lawsD(6)[OF assms] by (simp_all add: host_frames_def keeps_def)

end
