(* ===== verification/Agent_Sync_Routes.thy ===== *)
theory Agent_Sync_Routes
  imports Agent_Routes Agent_Laws
begin

text \<open>The two loops of \<open>syncRoutes\<close>, and the route table at every moment between their steps.\<close>

definition route_covers :: "route set \<Rightarrow> nat \<Rightarrow> bool" where
  "route_covers T x \<longleftrightarrow> (\<exists>r \<in> T. x \<in> cidr_span (rt_dst r))"

lemma route_covers_dst: "rt_dst ` S \<subseteq> rt_dst ` T \<Longrightarrow> route_covers S x \<Longrightarrow> route_covers T x"
proof -
  assume sub: "rt_dst ` S \<subseteq> rt_dst ` T" and "route_covers S x"
  then obtain r where "r \<in> S" "x \<in> cidr_span (rt_dst r)" by (auto simp: route_covers_def)
  moreover then obtain q where "q \<in> T" "rt_dst q = rt_dst r" using sub by (metis image_eqI image_iff subsetD)
  ultimately show ?thesis unfolding route_covers_def by metis
qed

lemma managedD:
  assumes "host_laws H st fl tb" "h_managed H s = (s', Inr rs)"
  shows "set rs = tb s" "tb s' = tb s"
proof -
  have "case snd (h_managed H s) of Inl _ \<Rightarrow> True | Inr rs \<Rightarrow> set rs = tb s"
    using host_lawsD(5)[OF assms(1)] unfolding route_laws_def by (elim conjE) (rule spec)
  then show "set rs = tb s" using assms(2) by simp
  show "tb s' = tb s" using frame_tb(4)[OF assms(1), of s] assms(2) by simp
qed

lemma replaceD:
  assumes "host_laws H st fl tb" "h_replace H s r = (s', e)"
  shows "tb s' \<subseteq> insert r (tb s)" "q \<in> tb s \<Longrightarrow> rt_dst q \<noteq> rt_dst r \<or> q = r \<Longrightarrow> q \<in> tb s'" "e = None \<Longrightarrow> r \<in> tb s'"
    "rt_dst ` tb s \<subseteq> rt_dst ` tb s'"
proof -
  have "\<forall>s r. replace_law (tb s) r (tb (fst (h_replace H s r))) (snd (h_replace H s r))"
    using host_lawsD(5)[OF assms(1)] unfolding route_laws_def by (elim conjE)
  then have l: "replace_law (tb s) r (tb s') e" using assms(2) by (metis fst_conv snd_conv)
  show "tb s' \<subseteq> insert r (tb s)" "q \<in> tb s \<Longrightarrow> rt_dst q \<noteq> rt_dst r \<or> q = r \<Longrightarrow> q \<in> tb s'" "e = None \<Longrightarrow> r \<in> tb s'"
    using l by (auto simp: replace_law_def split: if_splits)
  show "rt_dst ` tb s \<subseteq> rt_dst ` tb s'"
  proof
    fix d assume "d \<in> rt_dst ` tb s"
    then obtain q where "q \<in> tb s" "d = rt_dst q" by blast
    then show "d \<in> rt_dst ` tb s'" using l by (metis (full_types) imageI replace_law_def)
  qed
qed

lemma deleteD:
  assumes "host_laws H st fl tb" "h_delete H s r = (s', e)"
  shows "tb s' = (if e = None then tb s - {r} else tb s)"
proof -
  have "\<forall>s r. tb (fst (h_delete H s r)) = (if snd (h_delete H s r) = None then tb s - {r} else tb s)"
    using host_lawsD(5)[OF assms(1)] unfolding route_laws_def by (elim conjE)
  then show ?thesis using assms(2) by (metis fst_conv snd_conv)
qed

text \<open>One step of the loops.\<close>

lemma install_step_cases:
  assumes "install_step H hv (s, errs) w = (s1, errs1)"
  obtains (skip) "w \<in> set hv" "s1 = s" "errs1 = errs"
    | (ok) "w \<notin> set hv" "h_replace H s w = (s1, None)" "errs1 = errs"
    | (err) e where "w \<notin> set hv" "h_replace H s w = (s1, Some e)" "errs1 = errs @ [InstallRoute w e]"
  using assms by (auto simp: install_step_def split: if_splits prod.splits option.splits)

lemma remove_step_cases:
  assumes "remove_step H want (s, errs) r = (s1, errs1)"
  obtains (skip) "r \<in> set want" "s1 = s" "errs1 = errs"
    | (ok) "r \<notin> set want" "h_delete H s r = (s1, None)" "errs1 = errs"
    | (err) e where "r \<notin> set want" "h_delete H s r = (s1, Some e)" "errs1 = errs @ [DeleteRoute r e]"
  using assms by (auto simp: remove_step_def split: if_splits prod.splits option.splits)

lemma install_loop:
  assumes laws: "host_laws H st fl tb" and "foldl (install_step H hv) (s, errs) ws = (s', errs')"
  shows "tb s' \<subseteq> tb s \<union> set ws \<and> rt_dst ` tb s \<subseteq> rt_dst ` tb s' \<and> (\<exists>new. errs' = errs @ new) \<and>
    (\<forall>q \<in> tb s. (\<forall>w \<in> set ws. rt_dst w = rt_dst q \<longrightarrow> w = q) \<longrightarrow> q \<in> tb s') \<and>
    (errs' = errs \<longrightarrow> inj_on rt_dst (set ws) \<longrightarrow> set ws - set hv \<subseteq> tb s')"
  using assms(2)
proof (induction ws arbitrary: s errs)
  case (Cons w ws)
  obtain s1 errs1 where step: "install_step H hv (s, errs) w = (s1, errs1)" by (cases "install_step H hv (s, errs) w")
  then have f: "foldl (install_step H hv) (s1, errs1) ws = (s', errs')" using Cons.prems by simp
  note I = Cons.IH[OF f]
  have I1: "tb s' \<subseteq> tb s1 \<union> set ws" and I2: "rt_dst ` tb s1 \<subseteq> rt_dst ` tb s'" and I3: "\<exists>new. errs' = errs1 @ new"
    using I by (simp_all only:)
  from step show ?case
  proof (cases rule: install_step_cases)
    case skip
    then show ?thesis using I by (auto simp: inj_on_def)
  next
    case ok
    note R = replaceD[OF laws ok(2)]
    have "\<forall>q \<in> tb s. (\<forall>v \<in> set (w # ws). rt_dst v = rt_dst q \<longrightarrow> v = q) \<longrightarrow> q \<in> tb s'" using I R(2) by auto
    moreover have "w \<in> tb s'" if "inj_on rt_dst (set (w # ws))" using I R(3) that by (auto simp: inj_on_def)
    then have "inj_on rt_dst (set (w # ws)) \<Longrightarrow> errs' = errs \<Longrightarrow> set (w # ws) - set hv \<subseteq> tb s'"
      using I ok(3) by (auto simp: inj_on_def)
    moreover have "rt_dst ` tb s \<subseteq> rt_dst ` tb s'" by (rule subset_trans[OF R(4) I2])
    moreover have "tb s' \<subseteq> tb s \<union> set (w # ws)" "\<exists>new. errs' = errs @ new" using I1 I3 R(1) ok(3) by auto
    ultimately show ?thesis by blast
  next
    case (err e)
    note R = replaceD[OF laws err(2)]
    have "\<forall>q \<in> tb s. (\<forall>v \<in> set (w # ws). rt_dst v = rt_dst q \<longrightarrow> v = q) \<longrightarrow> q \<in> tb s'" using I R(2) by auto
    moreover have "rt_dst ` tb s \<subseteq> rt_dst ` tb s'" by (rule subset_trans[OF R(4) I2])
    moreover have "tb s' \<subseteq> tb s \<union> set (w # ws)" "\<exists>new. errs' = errs @ new" "errs' \<noteq> errs" using I1 I3 R(1) err(3) by auto
    ultimately show ?thesis by blast
  qed
qed auto

lemma remove_loop:
  assumes laws: "host_laws H st fl tb" and "foldl (remove_step H want) (s, errs) rs = (s', errs')"
  shows "tb s' \<subseteq> tb s \<and> tb s \<inter> set want \<subseteq> tb s' \<and> (\<exists>new. errs' = errs @ new) \<and>
    (errs' = errs \<longrightarrow> tb s' \<inter> set rs \<subseteq> set want)"
  using assms(2)
proof (induction rs arbitrary: s errs)
  case (Cons r rs)
  obtain s1 errs1 where step: "remove_step H want (s, errs) r = (s1, errs1)" by (cases "remove_step H want (s, errs) r")
  then have f: "foldl (remove_step H want) (s1, errs1) rs = (s', errs')" using Cons.prems by simp
  note I = Cons.IH[OF f]
  from step show ?case
  proof (cases rule: remove_step_cases)
    case ok
    then show ?thesis using I deleteD[OF laws ok(2)] by auto
  next
    case (err e)
    then show ?thesis using I deleteD[OF laws err(2)] by auto
  qed (use I in auto)
qed auto

lemma wanted_installed:
  assumes laws: "host_laws H st fl tb" and m: "h_managed H s = (s0, Inr hv)" and inj: "inj_on rt_dst (set want)"
    and i: "foldl (install_step H hv) (s0, []) want = (s1, [])"
  shows "set want \<subseteq> tb s1"
proof
  fix r assume r: "r \<in> set want"
  note I = install_loop[OF laws i] and M = managedD[OF laws m]
  show "r \<in> tb s1"
  proof (cases "r \<in> set hv")
    case True
    have "\<forall>w \<in> set want. rt_dst w = rt_dst r \<longrightarrow> w = r" using inj r by (auto simp: inj_on_def)
    then show ?thesis using I M True by simp
  qed (use I inj r in blast)
qed

lemma syncRoutes_ok:
  assumes laws: "host_laws H st fl tb" and d: "desiredRoutes (ag_node a) nds blocks = (want, ps)"
    and inj: "inj_on rt_dst (set want)" and r: "syncRoutes H a s nds blocks = (s', [])"
  shows "tb s' = set want \<and> ps = []"
proof -
  obtain s0 m where m: "h_managed H s = (s0, m)" by (cases "h_managed H s")
  obtain hv where hv: "m = Inr hv" using r m d by (cases m) (auto simp: syncRoutes_def)
  obtain s1 errs1 where i: "foldl (install_step H hv) (s0, []) want = (s1, errs1)"
    by (cases "foldl (install_step H hv) (s0, []) want")
  obtain s2 errs2 where x: "foldl (remove_step H want) (s1, errs1) hv = (s2, errs2)"
    by (cases "foldl (remove_step H want) (s1, errs1) hv")
  have e: "s2 = s'" "errs2 = []" "ps = []" using r m hv d i x by (auto simp: syncRoutes_def split: if_splits)
  have e1: "errs1 = []" using remove_loop[OF laws x] e(2) by simp
  note I = install_loop[OF laws i[unfolded e1]] and X = remove_loop[OF laws x[unfolded e1 e(2)]]
  note M = managedD[OF laws m[unfolded hv]]
  have "set want \<subseteq> tb s1" by (rule wanted_installed[OF laws m[unfolded hv] inj i[unfolded e1]])
  then show ?thesis using I M X e by auto
qed


end
