(* ===== verification/Agent_Inv.thy ===== *)
theory Agent_Inv
  imports Agent_Sync_Routes
begin

text \<open>
  How a pass changes the stored NodeBlocks: only the status of existing ones, and only along the moves
  of the block life cycle.
\<close>

inductive phase_move :: "node_block \<Rightarrow> node_block \<Rightarrow> bool" where
  stay: "same_spec b b' \<Longrightarrow> phaseOf b' = phaseOf b \<Longrightarrow> phase_move b b'"
| promote: "same_spec b b' \<Longrightarrow> phaseOf b = NodeBlockPending \<Longrightarrow> nb_phase b' = NodeBlockActive \<Longrightarrow> phase_move b b'"
| drain: "same_spec b b' \<Longrightarrow> phaseOf b = NodeBlockActive \<Longrightarrow> nb_drain b \<Longrightarrow> nb_phase b' = NodeBlockDraining \<Longrightarrow> phase_move b b'"
| restore: "same_spec b b' \<Longrightarrow> phaseOf b = NodeBlockDraining \<Longrightarrow> \<not> nb_drain b \<Longrightarrow> nb_phase b' = NodeBlockActive \<Longrightarrow> phase_move b b'"
| rest: "same_spec b b' \<Longrightarrow> phaseOf b \<in> {NodeBlockPending, NodeBlockDraining} \<Longrightarrow> nb_drain b \<Longrightarrow>
    nb_phase b' = NodeBlockQuarantined \<Longrightarrow> phase_move b b'"

inductive_cases phase_moveE: "phase_move b b'"

lemma phase_move_spec: "phase_move b b' \<Longrightarrow> same_spec b b'"
  by (elim phase_moveE)

lemma same_spec_refl [simp]: "same_spec b b"
  by (simp add: same_spec_def)

lemma same_spec_trans: "same_spec a b \<Longrightarrow> same_spec b c \<Longrightarrow> same_spec a c"
  by (simp add: same_spec_def)

lemma moves_spec: "phase_move\<^sup>*\<^sup>* b b' \<Longrightarrow> same_spec b b'"
  by (induction rule: rtranclp_induct) (auto intro: same_spec_trans dest: phase_move_spec)

text \<open>A block that rests, or was given back, is never taken up again by an agent; nothing is ever released by one.\<close>

lemma moves_final:
  "phase_move\<^sup>*\<^sup>* b b' \<Longrightarrow> phaseOf b \<notin> {NodeBlockPending, NodeBlockActive, NodeBlockDraining} \<Longrightarrow> phaseOf b' = phaseOf b"
  by (induction rule: rtranclp_induct) (auto elim!: phase_moveE simp: phaseOf_def split: if_splits)

lemma moves_released:
  "phase_move\<^sup>*\<^sup>* b b' \<Longrightarrow> blockPhase b \<noteq> NodeBlockReleased \<Longrightarrow> blockPhase b' \<noteq> NodeBlockReleased"
  by (induction rule: rtranclp_induct) (auto elim!: phase_moveE simp: phaseOf_def blockPhase_def split: if_splits)

subsection \<open>One status update\<close>

definition mutates :: "(node_block \<Rightarrow> node_block \<Rightarrow> bool) \<Rightarrow> ('c \<Rightarrow> node_block \<Rightarrow> node_block option) \<Rightarrow> bool" where
  "mutates R mut \<longleftrightarrow> (\<forall>s b b2. mut s b = Some b2 \<longrightarrow>
     nb_name b2 = nb_name b \<and> (\<forall>b'. same_spec b b' \<longrightarrow> same_status b2 b' \<longrightarrow> R b b'))"

definition evolves :: "(node_block \<Rightarrow> node_block \<Rightarrow> bool) \<Rightarrow> store \<Rightarrow> store \<Rightarrow> bool" where
  "evolves R m m' \<longleftrightarrow> (\<forall>n. rel_option R (m n) (m' n))"

lemma evolves_refl: "reflp R \<Longrightarrow> evolves R m m"
  by (auto simp: evolves_def reflp_def intro!: option.rel_refl)

lemma evolves_trans: "transp R \<Longrightarrow> evolves R m1 m2 \<Longrightarrow> evolves R m2 m3 \<Longrightarrow> evolves R m1 m3"
  unfolding evolves_def transp_def by (smt (verit, best) option.rel_cases option.rel_inject(2) option.rel_inject(1))

lemma evolves_put: "m n = Some b \<Longrightarrow> R b b' \<Longrightarrow> reflp R \<Longrightarrow> evolves R m (m(n \<mapsto> b'))"
  by (auto simp: evolves_def reflp_def intro!: option.rel_refl)

lemma updates_statusE:
  assumes "updates_status m b b' m'"
  obtains old where "m (nb_name b) = Some old" "same_spec old b'" "same_status b b'" "m' = m(nb_name b \<mapsto> b')"
  using assms by (auto simp: updates_status_def)

lemma update_once_cases:
  assumes laws: "host_laws H st fl tb" and mut: "mutates R mut" and r: "update_once H name mut s = (s', e)"
  obtains (same) "st s' = st s" "e = None \<Longrightarrow> st s name = None \<or> (\<exists>t b. st s name = Some b \<and> mut t b = None)"
    | (change) t b b2 b' where "st s name = Some b" "nb_name b = name" "mut t b = Some b2" "same_spec b b'" "same_status b2 b'" "R b b'"
        "st s' = (st s)(name \<mapsto> b')"
proof -
  obtain t g where g: "a_get H s name = (t, g)" by (cases "a_get H s name")
  note G = api_getD[OF host_lawsD(1)[OF laws] g]
  show ?thesis
  proof (cases g)
    case (Inl x)
    then have "st s' = st s" "e = ignore_not_found x" using r g G(1) by (auto simp: update_once_def)
    moreover have "st s name = None" if "x = NotFound" using host_lawsD(2)[OF laws] g Inl that by blast
    ultimately show ?thesis using same by (auto simp: ignore_not_found_def split: if_splits)
  next
    case (Inr b)
    have b: "st s name = Some b" "nb_name b = name" using G(2)[OF Inr] by auto
    show ?thesis
    proof (cases "mut t b")
      case None
      then show ?thesis using same r g Inr G(1) b(1) by (auto simp: update_once_def)
    next
      case (Some b2)
      obtain t' u where u: "a_update_status H t b2 = (t', u)" by (cases "a_update_status H t b2")
      have s': "s' = t'" "(case u of Inl x \<Rightarrow> e = Some x | Inr _ \<Rightarrow> e = None)"
        using r g Inr Some u by (auto simp: update_once_def split: sum.splits)
      have n: "nb_name b2 = name" using mut Some b(2) unfolding mutates_def by metis
      have eff: ?thesis if up: "updates_status (st t) b2 b' (st t')" for b'
      proof -
        obtain old where o: "st t (nb_name b2) = Some old" "same_spec old b'" "same_status b2 b'" "st t' = (st t)(nb_name b2 \<mapsto> b')"
          by (rule updates_statusE[OF up])
        have "old = b" using o(1) n G(1) b(1) by simp
        moreover have "R b b'" using mut Some o(2,3) calculation unfolding mutates_def by blast
        ultimately show ?thesis using change[of b t b2 b'] b Some o s'(1) n G(1) by simp
      qed
      show ?thesis
      proof (cases u)
        case (Inr c)
        then show ?thesis using eff api_update_statusD(1)[OF host_lawsD(1)[OF laws] u] by blast
      next
        case (Inl x)
        then show ?thesis using eff api_update_statusD(2)[OF host_lawsD(1)[OF laws] u] same s' G(1) by auto
      qed
    qed
  qed
qed

lemma agent_update_evolves:
  assumes laws: "host_laws H st fl tb" and mut: "mutates R mut" and r: "agent_update H s name mut = (s', e)"
  shows "rel_option R\<^sup>*\<^sup>* (st s name) (st s' name)" "k \<noteq> name \<Longrightarrow> st s' k = st s k" "fl s' = fl s" "tb s' = tb s"
proof -
  have "retried (update_once H name mut) s (s', e)" using host_lawsD(3)[OF laws] r unfolding agent_update_def by metis
  then have "(\<lambda>t. rel_option R\<^sup>*\<^sup>* (st s name) (st t name) \<and> (\<forall>k. k \<noteq> name \<longrightarrow> st t k = st s k) \<and> fl t = fl s \<and> tb t = tb s) (fst (s', e))"
  proof (rule retried_invariant)
    fix t assume t: "rel_option R\<^sup>*\<^sup>* (st s name) (st t name) \<and> (\<forall>k. k \<noteq> name \<longrightarrow> st t k = st s k) \<and> fl t = fl s \<and> tb t = tb s"
    obtain t' e' where u: "update_once H name mut t = (t', e')" by (cases "update_once H name mut t")
    have "fl (fst (update_once H name mut t)) = fl t" "tb (fst (update_once H name mut t)) = tb t"
      using frame_fl(11,12)[OF laws] frame_tb(16,17)[OF laws]
      by (auto simp: update_once_def split: prod.splits sum.splits option.splits) (metis fst_conv)+
    moreover have "rel_option R\<^sup>*\<^sup>* (st s name) (st t' name) \<and> (\<forall>k. k \<noteq> name \<longrightarrow> st t' k = st s k)"
    proof (rule update_once_cases[OF laws mut u])
      assume "st t' = st t"
      then show ?thesis using t by simp
    next
      fix a b b2 b' assume "st t name = Some b" "R b b'" "st t' = (st t)(name \<mapsto> b')"
      then show ?thesis using t by (auto elim!: option.rel_cases intro: rtranclp.rtrancl_into_rtrancl)
    qed
    ultimately show "rel_option R\<^sup>*\<^sup>* (st s name) (st (fst (update_once H name mut t)) name) \<and>
        (\<forall>k. k \<noteq> name \<longrightarrow> st (fst (update_once H name mut t)) k = st s k) \<and>
        fl (fst (update_once H name mut t)) = fl s \<and> tb (fst (update_once H name mut t)) = tb s"
      using u t by simp
  qed (auto intro!: option.rel_refl)
  then show "rel_option R\<^sup>*\<^sup>* (st s name) (st s' name)" "k \<noteq> name \<Longrightarrow> st s' k = st s k" "fl s' = fl s" "tb s' = tb s" by auto
qed

text \<open>After an update that reports success the block is gone, or the last change was made or found unnecessary.\<close>

lemma agent_update_settles:
  assumes laws: "host_laws H st fl tb" and mut: "mutates R mut" and r: "agent_update H s name mut = (s', None)"
  shows "st s' name = None \<or> (\<exists>t b. rel_option R\<^sup>*\<^sup>* (st s name) (Some b) \<and>
    (mut t b = None \<and> st s' name = Some b \<or>
     (\<exists>b2 b'. mut t b = Some b2 \<and> st s' name = Some b' \<and> same_spec b b' \<and> same_status b2 b')))"
proof -
  have "retried (update_once H name mut) s (s', None)" using host_lawsD(3)[OF laws] r unfolding agent_update_def by metis
  then have "\<exists>t. rel_option R\<^sup>*\<^sup>* (st s name) (st t name) \<and> update_once H name mut t = (s', None)"
  proof (rule retried_answer)
    fix t assume t: "rel_option R\<^sup>*\<^sup>* (st s name) (st t name)"
    obtain t' e' where u: "update_once H name mut t = (t', e')" by (cases "update_once H name mut t")
    show "rel_option R\<^sup>*\<^sup>* (st s name) (st (fst (update_once H name mut t)) name)"
    proof (rule update_once_cases[OF laws mut u])
      fix a b b2 b' assume "st t name = Some b" "R b b'" "st t' = (st t)(name \<mapsto> b')"
      then show ?thesis using t u by (auto elim!: option.rel_cases intro: rtranclp.rtrancl_into_rtrancl)
    qed (use t u in simp)
  qed (auto intro!: option.rel_refl)
  then obtain t where t: "rel_option R\<^sup>*\<^sup>* (st s name) (st t name)" "update_once H name mut t = (s', None)" by blast
  from laws mut t(2) show ?thesis
  proof (cases rule: update_once_cases)
    case same
    then obtain u b where "st s' name = None \<or> (st t name = Some b \<and> mut u b = None \<and> st s' name = Some b)" by fastforce
    then show ?thesis using t(1) by metis
  next
    case (change u b b2 b')
    then show ?thesis using t(1) by (intro disjI2) auto
  qed
qed

end
