(* ===== verification/Agent_Pass.thy ===== *)
theory Agent_Pass
  imports Agent_Inv
begin

text \<open>The frames of the parts of a pass, and what its status updates do to this node's blocks.\<close>

lemma foldl_keeps:
  assumes "\<And>s x. v (f s x) = v s"
  shows "v (foldl f s xs) = v s"
  using assms by (induction xs arbitrary: s) auto

lemma syncRoutes_frame:
  assumes laws: "host_laws H st fl tb" and r: "syncRoutes H a s nds blocks = (s', errs)"
  shows "st s' = st s" "fl s' = fl s"
proof -
  let ?v = "\<lambda>x. (st (fst x), fl (fst x))"
  have i: "?v (install_step H hv x w) = ?v x" for hv x w
    using frame_st(9)[OF laws] frame_fl(9)[OF laws]
    by (cases x) (auto simp: install_step_def split: prod.splits option.splits; metis fst_conv)
  have d: "?v (remove_step H want x w) = ?v x" for want x w
    using frame_st(10)[OF laws] frame_fl(10)[OF laws]
    by (cases x) (auto simp: remove_step_def split: prod.splits option.splits; metis fst_conv)
  have f: "?v (foldl (remove_step H want) (foldl (install_step H hv) x ws) hv) = ?v x" for want hv ws x
    by (simp only: foldl_keeps[of ?v, OF d] foldl_keeps[of ?v, OF i])
  obtain s0 m where m: "h_managed H s = (s0, m)" by (cases "h_managed H s")
  have "st s0 = st s" "fl s0 = fl s" using frame_st(4)[OF laws, of s] frame_fl(4)[OF laws, of s] m by simp_all
  then have "st s' = st s \<and> fl s' = fl s"
    using r m f by (auto simp: syncRoutes_def split: prod.splits sum.splits) (metis fst_conv prod.inject)+
  then show "st s' = st s" "fl s' = fl s" by blast+
qed

lemma countLeases_frame:
  assumes laws: "host_laws H st fl tb" and r: "countLeases H s dir cs = (s', x)"
  shows "st s' = st s" "fl s' = fl s" "tb s' = tb s"
  using r frame_st(6)[OF laws, of s dir] frame_fl(6)[OF laws, of s dir] frame_tb(6)[OF laws, of s dir]
  by (auto simp: countLeases_def split: sum.splits prod.splits)

lemma removeD:
  assumes "host_laws H st fl tb" "h_remove H s p = (s', e)"
  shows "st s' = st s" "tb s' = tb s" "fl s' = (if e = None then (fl s)(p := None) else fl s)"
proof -
  have "\<forall>s p. fl (fst (h_remove H s p)) = (if snd (h_remove H s p) = None then (fl s)(p := None) else fl s)"
    using host_lawsD(4)[OF assms(1)] unfolding file_laws_def by (elim conjE)
  then show "fl s' = (if e = None then (fl s)(p := None) else fl s)" using assms(2) by (metis fst_conv snd_conv)
  show "st s' = st s" "tb s' = tb s" using frame_st(17)[OF assms(1), of s p] frame_tb(15)[OF assms(1), of s p] assms(2) by auto
qed

lemma reclaim_entry_frame:
  assumes laws: "host_laws H st fl tb" and c: "\<not> prefix (dir @ ''/'') c"
  shows "st (fst (reclaim_entry H dir ns ips age now x name)) = st (fst x) \<and>
    fl (fst (reclaim_entry H dir ns ips age now x name)) c = fl (fst x) c \<and>
    tb (fst (reclaim_entry H dir ns ips age now x name)) = tb (fst x)"
proof -
  obtain s out err where x: "x = (s, out, err)" by (cases x)
  obtain s1 t where m: "h_mod_time H s (join_path dir name) = (s1, t)" by (cases "h_mod_time H s (join_path dir name)")
  obtain s2 e where r: "h_remove H s1 (join_path dir name) = (s2, e)" by (cases "h_remove H s1 (join_path dir name)")
  have c': "c \<noteq> join_path dir name" using c by (auto simp: join_path_def)
  have "st s1 = st s" "fl s1 = fl s" "tb s1 = tb s"
    using frame_st(7)[OF laws, of s] frame_fl(7)[OF laws, of s] frame_tb(7)[OF laws, of s] m by (metis fst_conv)+
  then show ?thesis using removeD[OF laws r] c' x m r
    by (auto simp: reclaim_entry_def split: option.splits)
qed

lemma reclaim_frame:
  assumes laws: "host_laws H st fl tb" and c: "\<not> prefix (ag_lease_dir a @ ''/'') c" and r: "reclaim H a s cs = (s', x)"
  shows "st s' = st s" "fl s' c = fl s c" "tb s' = tb s"
proof -
  let ?v = "\<lambda>x. (st (fst x), fl (fst x) c, tb (fst x))"
  let ?f = "\<lambda>ns pods now. reclaim_entry H (ag_lease_dir a) ns (podIPs pods) (ag_leak_min_age a) now"
  have e: "?v (foldl (?f ns pods now) (t, \<lambda>_. 0, None) es) = (st t, fl t c, tb t)" for ns pods now t es
    using foldl_keeps[of ?v "?f ns pods now" "(t, \<lambda>_. 0, None)" es] reclaim_entry_frame[OF laws c] by simp
  obtain s1 p where p: "h_pods H s (ag_node a) = (s1, p)" by (cases "h_pods H s (ag_node a)")
  obtain s2 d where d: "h_read_dir H s1 (ag_lease_dir a) = (s2, d)" by (cases "h_read_dir H s1 (ag_lease_dir a)")
  have "st s1 = st s" "fl s1 = fl s" "tb s1 = tb s"
    using frame_st(3)[OF laws, of s "ag_node a"] frame_fl(3)[OF laws, of s "ag_node a"] frame_tb(3)[OF laws, of s "ag_node a"] p by simp_all
  moreover have "st s2 = st s1" "fl s2 = fl s1" "tb s2 = tb s1"
    using frame_st(6)[OF laws, of s1 "ag_lease_dir a"] frame_fl(6)[OF laws, of s1 "ag_lease_dir a"]
      frame_tb(6)[OF laws, of s1 "ag_lease_dir a"] d by simp_all
  ultimately have "st s' = st s \<and> fl s' c = fl s c \<and> tb s' = tb s"
    using r p d e by (auto simp: reclaim_def reclaimLeases_def split: sum.splits prod.splits if_splits) (metis fst_conv prod.inject)+
  then show "st s' = st s" "fl s' c = fl s c" "tb s' = tb s" by blast+
qed

lemma cleanNAT_frame:
  assumes laws: "host_laws H st fl tb" and r: "cleanNAT H a s blocks = ((s', a'), errs)"
  shows "st s' = st s" "fl s' = fl s" "tb s' = tb s" "a' = a\<lparr>ag_last_nat := ag_last_nat a'\<rparr>"
proof -
  let ?v = "\<lambda>x. (st (fst x), fl (fst x), tb (fst x))"
  have run: "st t' = st t \<and> fl t' = fl t \<and> tb t' = tb t" if "h_run H t ws = (t', z)" for t ws t' z
    using frame_st(8)[OF laws, of t ws] frame_fl(8)[OF laws, of t ws] frame_tb(8)[OF laws, of t ws] that by simp
  have c: "?v (clean_rule H x w) = ?v x" for x w
    using run by (cases x; cases w) (auto simp: clean_rule_def split: prod.splits bool.splits; metis)
  have "st t' = st t \<and> fl t' = fl t \<and> tb t' = tb t" if "cleanStaleNAT H t cs = (t', z)" for t cs t' z
    using that run foldl_keeps[of ?v "clean_rule H", OF c]
    by (auto simp: cleanStaleNAT_def split: prod.splits bool.splits) (metis fst_conv prod.inject)+
  then show "st s' = st s" "fl s' = fl s" "tb s' = tb s" "a' = a\<lparr>ag_last_nat := ag_last_nat a'\<rparr>"
    using r by (auto simp: cleanNAT_def Let_def split: if_splits prod.splits)
qed

end
