(* ===== verification/Agent_Own.thy ===== *)
theory Agent_Own
  imports Agent_Pass
begin

text \<open>The configuration file and the status updates of this node's own blocks.\<close>

subsection \<open>The file\<close>

lemma fileD:
  assumes "host_laws H st fl tb"
  shows "h_read_file H s p = (s', Inr d) \<Longrightarrow> fl s p = Some d"
    "h_create_temp H s q = (s', r) \<Longrightarrow> temp_law (fl s) (fl s') r"
    "h_write H s t d = (s', e) \<Longrightarrow> write_law_at (fl s) t d (fl s') e"
    "h_rename H s t p = (s', e) \<Longrightarrow> fl s' = (if e = None then (fl s)(p := fl s t, t := None) else fl s)"
    "fl (fst (h_mkdir_all H s p)) = fl s" "fl (fst (h_close H s p)) = fl s" "fl (fst (h_chmod H s p)) = fl s"
proof -
  note f = host_lawsD(4)[OF assms, unfolded file_laws_def]
  have "case snd (h_read_file H s p) of Inl _ \<Rightarrow> True | Inr d \<Rightarrow> fl s p = Some d" using f by (elim conjE) simp
  then show "h_read_file H s p = (s', Inr d) \<Longrightarrow> fl s p = Some d" by simp
  have "temp_law (fl s) (fl (fst (h_create_temp H s q))) (snd (h_create_temp H s q))" using f by (elim conjE) simp
  then show "h_create_temp H s q = (s', r) \<Longrightarrow> temp_law (fl s) (fl s') r" by simp
  have "write_law_at (fl s) t d (fl (fst (h_write H s t d))) (snd (h_write H s t d))" using f by (elim conjE) simp
  then show "h_write H s t d = (s', e) \<Longrightarrow> write_law_at (fl s) t d (fl s') e" by simp
  have "fl (fst (h_rename H s t p)) = (if snd (h_rename H s t p) = None then (fl s)(p := fl s t, t := None) else fl s)"
    using f by (elim conjE) simp
  then show "h_rename H s t p = (s', e) \<Longrightarrow> fl s' = (if e = None then (fl s)(p := fl s t, t := None) else fl s)" by simp
  show "fl (fst (h_mkdir_all H s p)) = fl s" "fl (fst (h_close H s p)) = fl s" "fl (fst (h_chmod H s p)) = fl s"
    using f by (simp_all add: keeps_def)
qed

lemma fill_temp_file:
  assumes laws: "host_laws H st fl tb" and r: "fill_temp H s tmp path data = (s', x)"
    and t: "fl s tmp = Some []" "tmp \<noteq> path"
  shows "fl s' path = (case x of Inl _ \<Rightarrow> fl s path | Inr _ \<Rightarrow> Some data)" "q \<noteq> path \<Longrightarrow> q \<noteq> tmp \<Longrightarrow> fl s' q = fl s q"
    "st s' = st s" "tb s' = tb s"
proof -
  obtain s1 e1 where w: "h_write H s tmp data = (s1, e1)" by (cases "h_write H s tmp data")
  obtain s2 e2 where c: "h_close H s1 tmp = (s2, e2)" by (cases "h_close H s1 tmp")
  obtain s3 e3 where m: "h_chmod H s2 tmp = (s3, e3)" by (cases "h_chmod H s2 tmp")
  obtain s4 e4 where n: "h_rename H s3 tmp path = (s4, e4)" by (cases "h_rename H s3 tmp path")
  have W: "\<forall>q. q \<noteq> tmp \<longrightarrow> fl s1 q = fl s q" "e1 = None \<longrightarrow> fl s1 tmp = Some data"
    using fileD(3)[OF laws w] t(1) by (auto simp: write_law_at_def)
  have "fl s2 = fl s1" "fl s3 = fl s2" using fileD(6)[OF laws, of s1 tmp] fileD(7)[OF laws, of s2 tmp] c m by simp_all
  note F = this fileD(4)[OF laws n]
  have "st s1 = st s" "st s2 = st s1" "st s3 = st s2" "st s4 = st s3" "tb s1 = tb s" "tb s2 = tb s1" "tb s3 = tb s2" "tb s4 = tb s3"
    using frame_st(13)[OF laws, of s tmp data] frame_st(14)[OF laws, of s1 tmp] frame_st(15)[OF laws, of s2 tmp]
      frame_st(16)[OF laws, of s3 tmp path] frame_tb(11)[OF laws, of s tmp data] frame_tb(12)[OF laws, of s1 tmp]
      frame_tb(13)[OF laws, of s2 tmp] frame_tb(14)[OF laws, of s3 tmp path] w c m n by simp_all
  then show "fl s' path = (case x of Inl _ \<Rightarrow> fl s path | Inr _ \<Rightarrow> Some data)" "q \<noteq> path \<Longrightarrow> q \<noteq> tmp \<Longrightarrow> fl s' q = fl s q"
    "st s' = st s" "tb s' = tb s"
    using r w c m n W F t(2) by (auto simp: fill_temp_def split: option.splits)
qed

text \<open>Replacing the configuration file is all or nothing.\<close>

lemma writeFile_atomic:
  assumes laws: "host_laws H st fl tb" and p: "\<not> suffix ''.tmp'' path" and r: "writeFileIfChanged H s path data = (s', x)"
  shows "fl s' path = (case x of Inl _ \<Rightarrow> fl s path | Inr _ \<Rightarrow> Some data)"
    "\<not> suffix ''.tmp'' q \<Longrightarrow> q \<noteq> path \<Longrightarrow> fl s' q = fl s q" "st s' = st s" "tb s' = tb s"
proof -
  obtain s1 old where o: "h_read_file H s path = (s1, old)" by (cases "h_read_file H s path")
  obtain s2 e2 where m: "h_mkdir_all H s1 (dir_of path) = (s2, e2)" by (cases "h_mkdir_all H s1 (dir_of path)")
  obtain s3 t where c: "h_create_temp H s2 (dir_of path) = (s3, t)" by (cases "h_create_temp H s2 (dir_of path)")
  have s1: "fl s1 = fl s" "st s1 = st s" "tb s1 = tb s"
    using frame_fl(5)[OF laws, of s path] frame_st(5)[OF laws, of s path] frame_tb(5)[OF laws, of s path] o by simp_all
  have s2: "fl s2 = fl s" "st s2 = st s" "tb s2 = tb s"
    using fileD(5)[OF laws, of s1 "dir_of path"] frame_st(11)[OF laws, of s1 "dir_of path"] frame_tb(9)[OF laws, of s1 "dir_of path"] m s1 by simp_all
  have s3: "temp_law (fl s) (fl s3) t" "st s3 = st s" "tb s3 = tb s"
    using fileD(2)[OF laws c] frame_st(12)[OF laws, of s2 "dir_of path"] frame_tb(10)[OF laws, of s2 "dir_of path"] c s2 by simp_all
  show "fl s' path = (case x of Inl _ \<Rightarrow> fl s path | Inr _ \<Rightarrow> Some data)"
    "\<not> suffix ''.tmp'' q \<Longrightarrow> q \<noteq> path \<Longrightarrow> fl s' q = fl s q" "st s' = st s" "tb s' = tb s"
  proof (atomize (full), goal_cases)
    case 1
    show ?case
    proof (cases "old = Inr data")
      case True
      then show ?thesis using r o s1 fileD(1)[OF laws, of s path] by (auto simp: writeFileIfChanged_def)
    next
      case False
      show ?thesis
      proof (cases e2)
        case (Some e)
        then show ?thesis using r o m False s2 by (auto simp: writeFileIfChanged_def)
      next
        case None
        show ?thesis
        proof (cases t)
          case (Inl e)
          then show ?thesis using r o m c False None s3 by (auto simp: writeFileIfChanged_def temp_law_def)
        next
          case (Inr tmp)
          obtain s4 y where f: "fill_temp H s3 tmp path data = (s4, y)" by (cases "fill_temp H s3 tmp path data")
          obtain s5 e5 where d: "h_remove H s4 tmp = (s5, e5)" by (cases "h_remove H s4 tmp")
          have T: "suffix ''.tmp'' tmp" "fl s3 = (fl s)(tmp \<mapsto> [])" using s3(1) Inr by (auto simp: temp_law_def)
          have ne: "tmp \<noteq> path" using T(1) p by blast
          note F = fill_temp_file[OF laws f _ ne] and D = removeD[OF laws d]
          have "s' = s5" "x = y" using r o m c False None Inr f d by (auto simp: writeFileIfChanged_def)
          then show ?thesis using F T D ne s3 by (auto split: sum.splits if_splits)
        qed
      qed
    qed
  qed
qed

lemma parse_blocks_ok: "parse_blocks cs = Inr bs \<Longrightarrow> map fst bs = cs \<and> (\<forall>c \<in> set cs. parse_cidr c \<noteq> None)"
proof (induction cs arbitrary: bs rule: rev_induct)
  case (snoc c cs)
  obtain bs0 where b: "parse_blocks cs = Inr bs0"
    using snoc.prems by (cases "parse_blocks cs") (auto simp: parse_blocks_def)
  then show ?case using snoc.IH[OF b] snoc.prems b by (auto simp: parse_blocks_def split: option.splits)
qed (simp add: parse_blocks_def)

lemma renderCNIConfig_ranges:
  assumes "renderCNIConfig net dir cs = Inr conf"
  shows "\<exists>rs. conf = json_text 0 (conflist_json (conflist_for net dir rs)) \<and>
    (\<Union>r \<in> set rs. cidr_span r) = (\<Union>c \<in> set cs. cidr_span c) \<and> cs \<noteq> [] \<and> (\<forall>c \<in> set cs. parse_cidr c \<noteq> None)"
proof -
  have ne: "cs \<noteq> []" using assms by (auto simp: renderCNIConfig_def)
  obtain bs where b: "parse_blocks cs = Inr bs"
    using assms ne by (cases "parse_blocks cs") (auto simp: renderCNIConfig_def)
  obtain rs where a: "aggregate (map fst (sort_by (\<lambda>a b. snd a < snd b) bs)) = Inr rs"
      "conf = json_text 0 (conflist_json (conflist_for net dir rs))"
    using assms ne b unfolding renderCNIConfig_def
    by (cases "aggregate (map fst (sort_by (\<lambda>a b. snd a < snd b) bs))") simp_all
  note p = parse_blocks_ok[OF b]
  have "set (map fst (sort_by (\<lambda>a b. snd a < snd b) bs)) = set (map fst bs)" by simp
  also have "\<dots> = set cs" by (simp only: conjunct1[OF p])
  finally have "set (map fst (sort_by (\<lambda>a b. snd a < snd b) bs)) = set cs" .
  then have "(\<Union>r \<in> set rs. cidr_span r) = (\<Union>c \<in> set cs. cidr_span c)" using aggregate_spans(1)[OF a(1)] by (simp only:)
  then show ?thesis by (intro exI[of _ rs] conjI a(2) ne conjunct2[OF p])
qed

subsection \<open>Status updates\<close>

lemma setHalfStatus_only:
  "setHalfStatus cur c r u y = (cur', ch) \<Longrightarrow> cur' = cur\<lparr>nb_half_usage := nb_half_usage cur', nb_release_ready := nb_release_ready cur'\<rparr>"
  by (auto simp: setHalfStatus_def Let_def split: if_splits)

lemma nextPhase_cong:
  "nb_phase b = nb_phase c \<Longrightarrow> nb_drain b = nb_drain c \<Longrightarrow> nb_transition b = nb_transition c \<Longrightarrow> nb_created b = nb_created c \<Longrightarrow>
   nextPhase now settle b p u ok = nextPhase now settle c p u ok"
proof -
  assume "nb_phase b = nb_phase c" "nb_drain b = nb_drain c" "nb_transition b = nb_transition c" "nb_created b = nb_created c"
  then have "phaseOf b = phaseOf c" "transitionTime b = transitionTime c" "nb_drain b = nb_drain c"
    unfolding phaseOf_def transitionTime_def by (simp_all only:)
  then show ?thesis by (simp only: nextPhase_def)
qed

lemma own_mutate_phase:
  "(case own_mutate now settle f cur of
      None \<Rightarrow> nextPhase now settle cur (fd_promoting f) (fd_used f) (fd_config_ok f) = None
    | Some b2 \<Rightarrow> nb_name b2 = nb_name cur \<and>
        nb_phase b2 = (case nextPhase now settle cur (fd_promoting f) (fd_used f) (fd_config_ok f) of Some ph \<Rightarrow> ph | None \<Rightarrow> nb_phase cur))"
proof -
  obtain cur' ch where h: "setHalfStatus cur (fd_cidr f) (fd_release f) (fd_half_usage f) (fd_ready f) = (cur', ch)"
    by (cases "setHalfStatus cur (fd_cidr f) (fd_release f) (fd_half_usage f) (fd_ready f)")
  note o = setHalfStatus_only[OF h]
  have "nextPhase now settle cur' p u ok = nextPhase now settle cur p u ok" for p u ok
    by (rule nextPhase_cong; subst o) simp_all
  moreover have "nb_name cur' = nb_name cur" "nb_phase cur' = nb_phase cur" by (subst o, simp)+
  ultimately show ?thesis using h
    by (cases "nextPhase now settle cur (fd_promoting f) (fd_used f) (fd_config_ok f)") (simp_all add: own_mutate_def Let_def)
qed

text \<open>The moves of one status update: \<open>nextPhase\<close> takes a Pending block up only when it was found ready.\<close>

definition own_move :: "bool \<Rightarrow> bool \<Rightarrow> node_block \<Rightarrow> node_block \<Rightarrow> bool" where
  "own_move promoting ok b b' \<longleftrightarrow> phase_move b b' \<and>
     (phaseOf b' \<noteq> phaseOf b \<longrightarrow>
       phaseOf b = NodeBlockPending \<and> phaseOf b' = NodeBlockActive \<and> promoting \<or>
       phaseOf b = NodeBlockPending \<and> phaseOf b' = NodeBlockQuarantined \<and> nb_drain b \<or>
       phaseOf b = NodeBlockActive \<and> phaseOf b' = NodeBlockDraining \<and> nb_drain b \<and> ok \<or>
       phaseOf b = NodeBlockDraining \<and> phaseOf b' = NodeBlockActive \<and> \<not> nb_drain b \<or>
       phaseOf b = NodeBlockDraining \<and> phaseOf b' = NodeBlockQuarantined \<and> nb_drain b \<and> ok)"

lemma nextPhase_move:
  assumes "nextPhase now settle b p u ok = Some ph" "same_spec b b'" "nb_phase b' = ph"
  shows "own_move p ok b b'"
proof -
  have "phaseOf b' = ph" using assms(1,3) by (auto simp: nextPhase_def phaseOf_def Let_def split: if_splits)
  moreover have "phase_move b b'"
    using assms by (auto simp: nextPhase_def Let_def split: if_splits intro: phase_move.intros)
  ultimately show ?thesis using assms(1) by (auto simp: own_move_def nextPhase_def Let_def split: if_splits)
qed

lemma own_mutates: "mutates (own_move (fd_promoting f) (fd_config_ok f)) (\<lambda>s. own_mutate (now s) settle f)"
  unfolding mutates_def
proof (intro allI impI conjI)
  fix s b b2 assume m: "own_mutate (now s) settle f b = Some b2"
  then show "nb_name b2 = nb_name b" using own_mutate_phase[of "now s" settle b f] by simp
  fix b' assume b': "same_spec b b'" "same_status b2 b'"
  have ph: "nb_phase b' = (case nextPhase (now s) settle b (fd_promoting f) (fd_used f) (fd_config_ok f) of Some ph \<Rightarrow> ph | None \<Rightarrow> nb_phase b)"
    using own_mutate_phase[of "now s" settle b f] m b'(2) by (simp add: same_status_def)
  show "own_move (fd_promoting f) (fd_config_ok f) b b'"
  proof (cases "nextPhase (now s) settle b (fd_promoting f) (fd_used f) (fd_config_ok f)")
    case None
    then have "phaseOf b' = phaseOf b" using ph by (simp add: phaseOf_def)
    then show ?thesis using b'(1) by (simp add: own_move_def stay)
  next
    case (Some x)
    then show ?thesis using nextPhase_move[OF Some b'(1)] ph by simp
  qed
qed

lemma ack_mutates: "mutates phase_move (\<lambda>_. ack_block node)"
  by (auto simp: mutates_def ack_block_def same_status_def phaseOf_def intro!: stay split: if_splits)

lemma own_move_phase_move: "own_move p ok \<le> phase_move"
  by (auto simp: own_move_def)

end
