(* ===== verification/Agent_Props.thy ===== *)
theory Agent_Props
  imports Agent_Own
begin

text \<open>The properties of the agent's pass.\<close>

subsection \<open>The update loops\<close>

lemma moves_reflp: "reflp phase_move\<^sup>*\<^sup>*" "transp phase_move\<^sup>*\<^sup>*"
  by (auto simp: reflp_def transp_def)

lemma agent_update_all:
  assumes laws: "host_laws H st fl tb" and mut: "mutates R mut" and R: "R \<le> phase_move" and r: "agent_update H s name mut = (s', e)"
  shows "evolves phase_move\<^sup>*\<^sup>* (st s) (st s')"
  unfolding evolves_def
proof
  fix n
  have "R\<^sup>*\<^sup>* \<le> phase_move\<^sup>*\<^sup>*" by (rule rtranclp_mono[OF R])
  then have "rel_option R\<^sup>*\<^sup>* \<le> rel_option phase_move\<^sup>*\<^sup>*" by (rule option.rel_mono)
  then show "rel_option phase_move\<^sup>*\<^sup>* (st s n) (st s' n)"
    using agent_update_evolves(1,2)[OF laws mut r] by (cases "n = name") (auto intro!: option.rel_refl)
qed

lemma ack_step:
  assumes laws: "host_laws H st fl tb" and r: "ack H a (s, errs) name = (s', errs')"
  shows "evolves phase_move\<^sup>*\<^sup>* (st s) (st s') \<and> fl s' = fl s \<and> tb s' = tb s \<and> (\<forall>k. k \<noteq> name \<longrightarrow> st s' k = st s k) \<and>
    (\<exists>new. errs' = errs @ new)"
proof -
  obtain t e where u: "agent_update H s name (\<lambda>_. ack_block (ag_node a)) = (t, e)"
    by (cases "agent_update H s name (\<lambda>_. ack_block (ag_node a))")
  have "t = s'" "\<exists>new. errs' = errs @ new" using r u by (auto simp: ack_def split: option.splits)
  then show ?thesis
    using agent_update_all[OF laws ack_mutates order_refl u] agent_update_evolves(2-4)[OF laws ack_mutates u] by blast
qed

lemma ack_loop:
  assumes laws: "host_laws H st fl tb" and "foldl (ack H a) (s, errs) names = (s', errs')"
  shows "evolves phase_move\<^sup>*\<^sup>* (st s) (st s') \<and> fl s' = fl s \<and> tb s' = tb s \<and> (\<forall>k. k \<notin> set names \<longrightarrow> st s' k = st s k) \<and>
    (\<exists>new. errs' = errs @ new)"
  using assms(2)
proof (induction names arbitrary: s errs)
  case Nil
  then show ?case using evolves_refl[OF moves_reflp(1)] by simp
next
  case (Cons n ns)
  obtain s1 errs1 where a: "ack H a (s, errs) n = (s1, errs1)" by (cases "ack H a (s, errs) n")
  then have "foldl (ack H a) (s1, errs1) ns = (s', errs')" using Cons.prems by simp
  note I = Cons.IH[OF this] and A = ack_step[OF laws a]
  show ?case using I A evolves_trans[OF moves_reflp(2), of "st s" "st s1" "st s'"] by auto
qed

lemma own_step:
  assumes laws: "host_laws H st fl tb" and r: "own_update H a found (s, errs) b = (s', errs')"
  shows "evolves phase_move\<^sup>*\<^sup>* (st s) (st s') \<and> fl s' = fl s \<and> tb s' = tb s \<and> (\<forall>k. k \<noteq> nb_name b \<longrightarrow> st s' k = st s k) \<and>
    (\<exists>new. errs' = errs @ new) \<and>
    rel_option (own_move (fd_promoting (found b)) (fd_config_ok (found b)))\<^sup>*\<^sup>* (st s (nb_name b)) (st s' (nb_name b)) \<and>
    (errs' = errs \<longrightarrow> (\<forall>c. st s' (nb_name b) = Some c \<longrightarrow>
       \<not> (fd_promoting (found b) \<and> phaseOf c = NodeBlockPending) \<and> \<not> (phaseOf c = NodeBlockDraining \<and> \<not> nb_drain c)))"
proof -
  let ?mut = "\<lambda>s. own_mutate (h_now H s) (ag_drain_settle a) (found b)"
  obtain t e where u: "agent_update H s (nb_name b) ?mut = (t, e)" by (cases "agent_update H s (nb_name b) ?mut")
  have t: "t = s'" "errs' = errs \<longleftrightarrow> e = None" "\<exists>new. errs' = errs @ new"
    using r u by (auto simp: own_update_def split: option.splits)
  note m = own_mutates[where f = "found b" and settle = "ag_drain_settle a" and now = "h_now H"]
  have "\<not> (fd_promoting (found b) \<and> phaseOf c = NodeBlockPending) \<and> \<not> (phaseOf c = NodeBlockDraining \<and> \<not> nb_drain c)"
    if e: "e = None" and c: "st s' (nb_name b) = Some c" for c
  proof -
    obtain q d where d: "?mut q d = None \<and> c = d \<or> (\<exists>b2. ?mut q d = Some b2 \<and> same_spec d c \<and> same_status b2 c)"
      using agent_update_settles[OF laws m u[unfolded e]] c t(1) by auto
    have "nb_phase c = (case nextPhase (h_now H q) (ag_drain_settle a) d (fd_promoting (found b)) (fd_used (found b))
        (fd_config_ok (found b)) of Some ph \<Rightarrow> ph | None \<Rightarrow> nb_phase d) \<and> nb_drain c = nb_drain d"
      using d own_mutate_phase[of "h_now H q" "ag_drain_settle a" d "found b"]
      by (auto simp: same_status_def same_spec_def)
    then show ?thesis by (auto simp: nextPhase_def phaseOf_def Let_def split: if_splits)
  qed
  then show ?thesis
    using agent_update_all[OF laws m own_move_phase_move u] agent_update_evolves[OF laws m u] t by auto
qed

lemma own_loop:
  assumes laws: "host_laws H st fl tb" and "foldl (own_update H a found) (s, errs) own = (s', errs')"
  shows "evolves phase_move\<^sup>*\<^sup>* (st s) (st s') \<and> fl s' = fl s \<and> tb s' = tb s \<and> (\<forall>k. k \<notin> nb_name ` set own \<longrightarrow> st s' k = st s k) \<and>
    (\<exists>new. errs' = errs @ new)"
  using assms(2)
proof (induction own arbitrary: s errs)
  case Nil
  then show ?case using evolves_refl[OF moves_reflp(1)] by simp
next
  case (Cons b bs)
  obtain s1 errs1 where a: "own_update H a found (s, errs) b = (s1, errs1)" by (cases "own_update H a found (s, errs) b")
  then have "foldl (own_update H a found) (s1, errs1) bs = (s', errs')" using Cons.prems by simp
  note I = Cons.IH[OF this] and A = own_step[OF laws a]
  have "evolves phase_move\<^sup>*\<^sup>* (st s) (st s')"
    using I A evolves_trans[OF moves_reflp(2), of "st s" "st s1" "st s'"] by blast
  moreover have "\<forall>k. k \<notin> nb_name ` set (b # bs) \<longrightarrow> st s' k = st s k" using I A by auto
  moreover have "fl s' = fl s" "tb s' = tb s" "\<exists>new. errs' = errs @ new" using I A by auto
  ultimately show ?case by blast
qed

lemma own_loop_block:
  assumes laws: "host_laws H st fl tb" and "foldl (own_update H a found) (s, errs) own = (s', errs')"
    and "distinct (map nb_name own)" "b \<in> set own"
  shows "rel_option (own_move (fd_promoting (found b)) (fd_config_ok (found b)))\<^sup>*\<^sup>* (st s (nb_name b)) (st s' (nb_name b)) \<and>
    (errs' = errs \<longrightarrow> (\<forall>c. st s' (nb_name b) = Some c \<longrightarrow>
       \<not> (fd_promoting (found b) \<and> phaseOf c = NodeBlockPending) \<and> \<not> (phaseOf c = NodeBlockDraining \<and> \<not> nb_drain c)))"
  using assms(2-)
proof (induction own arbitrary: s errs)
  case (Cons d bs)
  obtain s1 errs1 where a: "own_update H a found (s, errs) d = (s1, errs1)" by (cases "own_update H a found (s, errs) d")
  then have f: "foldl (own_update H a found) (s1, errs1) bs = (s', errs')" using Cons.prems by simp
  note A = own_step[OF laws a] and L = own_loop[OF laws f]
  have e: "errs' = errs \<longrightarrow> errs1 = errs" using A L by auto
  show ?case
  proof (cases "b = d")
    case True
    then have "st s' (nb_name b) = st s1 (nb_name b)" using L Cons.prems(2) by auto
    then show ?thesis using A e True by simp
  next
    case False
    then have b: "b \<in> set bs" using Cons.prems(3) by simp
    then have "nb_name b \<noteq> nb_name d" using Cons.prems(2) by (metis distinct.simps(2) image_eqI list.set_map list.simps(9))
    then have "st s1 (nb_name b) = st s (nb_name b)" using A by blast
    then show ?thesis using Cons.IH[OF f _ b] Cons.prems(2) e by auto
  qed
qed simp

subsection \<open>The life cycle\<close>

lemma own_config_frame:
  assumes laws: "host_laws H st fl tb" and p: "\<not> suffix ''.tmp'' (ag_conf_path a)" and r: "own_config H a s bs = (s', x)"
  shows "st s' = st s" "tb s' = tb s"
    "x = Inr True \<Longrightarrow> \<exists>conf. fl s' (ag_conf_path a) = Some conf \<and> renderCNIConfig (ag_net a) (ag_data_dir a) (map ServedCIDR bs) = Inr conf"
    "x = Inr ok \<Longrightarrow> ok \<longleftrightarrow> bs \<noteq> []"
proof -
  have "st s' = st s \<and> tb s' = tb s \<and>
    (x = Inr True \<longrightarrow> (\<exists>conf. fl s' (ag_conf_path a) = Some conf \<and> renderCNIConfig (ag_net a) (ag_data_dir a) (map ServedCIDR bs) = Inr conf)) \<and>
    (\<forall>ok. x = Inr ok \<longrightarrow> ok = (bs \<noteq> []))"
  proof (cases "bs = []")
    case False
    show ?thesis
    proof (cases "renderCNIConfig (ag_net a) (ag_data_dir a) (map ServedCIDR bs)")
      case (Inr conf)
      obtain t y where w: "writeFileIfChanged H s (ag_conf_path a) conf = (t, y)" by (cases "writeFileIfChanged H s (ag_conf_path a) conf")
      show ?thesis using r False Inr w writeFile_atomic[OF laws p w] by (auto simp: own_config_def split: sum.splits)
    qed (use r False in \<open>auto simp: own_config_def\<close>)
  qed (use r in \<open>auto simp: own_config_def\<close>)
  then show "st s' = st s" "tb s' = tb s"
    "x = Inr True \<Longrightarrow> \<exists>conf. fl s' (ag_conf_path a) = Some conf \<and> renderCNIConfig (ag_net a) (ag_data_dir a) (map ServedCIDR bs) = Inr conf"
    "x = Inr ok \<Longrightarrow> ok \<longleftrightarrow> bs \<noteq> []" by blast+
qed

text \<open>\<open>own_status\<close> is the reads of the leases, then the update loop.\<close>

lemma own_status_cases:
  assumes laws: "host_laws H st fl tb" and c: "\<not> prefix (ag_lease_dir a @ ''/'') (ag_conf_path a)"
    and r: "own_status H a s own promoted ok = ((s', a'), errs)"
  obtains (early) e where "st s' = st s" "fl s' (ag_conf_path a) = fl s (ag_conf_path a)" "tb s' = tb s" "errs = [e]"
    | (loop) t used reclaimed halfUsed ready where "st t = st s" "fl t (ag_conf_path a) = fl s (ag_conf_path a)" "tb t = tb s"
        "foldl (own_update H a' (own_findings used reclaimed halfUsed ready promoted ok)) (t, []) own = (s', errs)"
        "ag_drain_settle a' = ag_drain_settle a"
proof -
  obtain s1 rc where rc: "(if ag_reclaim a then reclaim H a s (map nb_cidr own) else (s, \<lambda>_. 0)) = (s1, rc)"
    by (cases "if ag_reclaim a then reclaim H a s (map nb_cidr own) else (s, \<lambda>_. 0)")
  have s1: "st s1 = st s" "fl s1 (ag_conf_path a) = fl s (ag_conf_path a)" "tb s1 = tb s"
    using rc reclaim_frame[OF laws c] by (auto split: if_splits)
  obtain s2 u where u: "countLeases H s1 (ag_lease_dir a) (map nb_cidr own) = (s2, u)"
    by (cases "countLeases H s1 (ag_lease_dir a) (map nb_cidr own)")
  note s2 = countLeases_frame[OF laws u]
  obtain s3 h where h: "countHalves H s2 (ag_lease_dir a) own = (s3, h)" by (cases "countHalves H s2 (ag_lease_dir a) own")
  note s3 = countLeases_frame[OF laws h[unfolded countHalves_def]]
  show ?thesis
  proof (cases u)
    case (Inl e)
    then show ?thesis using early r rc u s1 s2 by (auto simp: own_status_def)
  next
    case (Inr used)
    show ?thesis
    proof (cases h)
      case (Inl e)
      then show ?thesis using early r rc u h \<open>u = Inr used\<close> s1 s2 s3 by (auto simp: own_status_def)
    next
      case (Inr half)
      obtain a2 ready where rr: "releaseReady a (h_now H s3) own half ok = (a2, ready)" by (cases "releaseReady a (h_now H s3) own half ok")
      obtain t ers where f: "foldl (own_update H a2 (own_findings used rc half ready promoted ok)) (s3, []) own = (t, ers)"
        by (cases "foldl (own_update H a2 (own_findings used rc half ready promoted ok)) (s3, []) own")
      have "a2 = a'" "t = s'" "ers = errs" using r rc u h \<open>u = Inr used\<close> Inr rr f by (auto simp: own_status_def)
      moreover have "ag_drain_settle a2 = ag_drain_settle a" using rr by (auto simp: releaseReady_def split: prod.splits)
      ultimately show ?thesis using loop[of s3 used rc half ready] s1 s2 s3 f by simp
    qed
  qed
qed

text \<open>The parts of a pass, one after the other.\<close>

lemma sync_cases:
  assumes laws: "host_laws H st fl tb" and r: "sync H (s, a) = ((s', a'), errs)"
  obtains (stop) "st s' = st s" "fl s' = fl s" "errs \<noteq> []"
    | (pass) s1 s2 s3 a3 s4 s5 nds blocks routeErrs ackErrs ownErrs where
        "h_blocks H s1 = (s2, Inr blocks)" "st s1 = st s" "st s2 = st s" "fl s2 = fl s" "tb s2 = tb s"
        "syncRoutes H a s2 nds blocks = (s3, routeErrs)"
        "(if routeErrs = [] then foldl (ack H a) (s3, []) (ackableBlocks (ag_node a) blocks) else (s3, [])) = (s4, ackErrs)"
        "st s5 = st s4" "fl s5 = fl s4" "tb s5 = tb s4" "a3 = a\<lparr>ag_last_nat := ag_last_nat a3\<rparr>"
        "syncOwn H a3 s5 nds blocks (routeErrs = []) = ((s', a'), ownErrs)" "errs = [] \<longrightarrow> routeErrs = [] \<and> ackErrs = [] \<and> ownErrs = []"
proof -
  obtain t1 n where n: "h_nodes H s = (t1, n)" by (cases "h_nodes H s")
  have t1: "st t1 = st s" "fl t1 = fl s" "tb t1 = tb s"
    using frame_st(1)[OF laws, of s] frame_fl(1)[OF laws, of s] frame_tb(1)[OF laws, of s] n by simp_all
  obtain t2 bl where b: "h_blocks H t1 = (t2, bl)" by (cases "h_blocks H t1")
  have t2: "st t2 = st s" "fl t2 = fl s" "tb t2 = tb s"
    using frame_st(2)[OF laws, of t1] frame_fl(2)[OF laws, of t1] frame_tb(2)[OF laws, of t1] b t1 by simp_all
  show ?thesis
  proof (cases n)
    case (Inl e)
    then show ?thesis using stop r n t1 by (auto simp: sync_def)
  next
    case nds: (Inr nds)
    show ?thesis
    proof (cases bl)
      case (Inl e)
      then show ?thesis using stop r n nds b t2 by (auto simp: sync_def)
    next
      case blocks: (Inr blocks)
      obtain t3 re where re: "syncRoutes H a t2 nds blocks = (t3, re)" by (cases "syncRoutes H a t2 nds blocks")
      obtain t4 ae where ae: "(if re = [] then foldl (ack H a) (t3, []) (ackableBlocks (ag_node a) blocks) else (t3, [])) = (t4, ae)"
        by (cases "if re = [] then foldl (ack H a) (t3, []) (ackableBlocks (ag_node a) blocks) else (t3, [])")
      obtain t5 a3 ne where nat: "cleanNAT H a t4 blocks = ((t5, a3), ne)" by (cases "cleanNAT H a t4 blocks") auto
      obtain t6 a6 oe where own: "syncOwn H a3 t5 nds blocks (re = []) = ((t6, a6), oe)"
        by (cases "syncOwn H a3 t5 nds blocks (re = [])") auto
      have res: "t6 = s'" "a6 = a'" "errs = re @ ae @ ne @ oe"
        using r n nds b blocks re ae nat own by (auto simp: sync_def)
      show ?thesis
        by (rule pass[of t1 t2 blocks nds t3 re t4 ae t5 a3 oe])
          (use t1 t2 b blocks re ae cleanNAT_frame[OF laws nat] own res in auto)
    qed
  qed
qed

lemma syncOwn_moves:
  assumes laws: "host_laws H st fl tb" and p: "\<not> suffix ''.tmp'' (ag_conf_path a)" "\<not> prefix (ag_lease_dir a @ ''/'') (ag_conf_path a)"
    and r: "syncOwn H a s nds blocks ok = ((s', a'), errs)"
  shows "evolves phase_move\<^sup>*\<^sup>* (st s) (st s') \<and>
    (\<forall>k. k \<notin> nb_name ` {b \<in> set blocks. nb_node b = ag_node a} \<longrightarrow> st s' k = st s k)"
proof -
  define own where "own = filter (\<lambda>b. nb_node b = ag_node a) blocks"
  have same: ?thesis if "st s' = st s" using that evolves_refl[OF moves_reflp(1)] by simp
  show ?thesis
  proof (cases "own = []")
    case True
    then show ?thesis using r same by (simp add: syncOwn_def own_def[symmetric])
  next
    case False
    define ic where "ic = filter (joins_config a nds ok (h_now H s)) own"
    obtain t x where c: "own_config H a s ic = (t, x)" by (cases "own_config H a s ic")
    note C = own_config_frame[OF laws p(1) c]
    show ?thesis
    proof (cases x)
      case (Inl e)
      then show ?thesis using r False c same C(1) by (auto simp: syncOwn_def Let_def own_def[symmetric] ic_def[symmetric])
    next
      case (Inr cok)
      then have "own_status H a t own (map nb_name (filter (\<lambda>b. phaseOf b = NodeBlockPending) ic)) cok = ((s', a'), errs)"
        using r False c by (simp add: syncOwn_def Let_def own_def[symmetric] ic_def[symmetric])
      from laws p(2) this show ?thesis
      proof (cases rule: own_status_cases)
        case (early e)
        then show ?thesis using same C(1) by simp
      next
        case (loop u used rc half ready)
        then show ?thesis using own_loop[OF laws loop(4)] C(1) by (auto simp: own_def)
      qed
    qed
  qed
qed

lemma sync_moves:
  assumes laws: "host_laws H st fl tb" and p: "\<not> suffix ''.tmp'' (ag_conf_path a)" "\<not> prefix (ag_lease_dir a @ ''/'') (ag_conf_path a)"
    and r: "sync H (s, a) = ((s', a'), errs)"
  shows "evolves phase_move\<^sup>*\<^sup>* (st s) (st s')"
  using laws r
proof (cases rule: sync_cases)
  case stop
  then show ?thesis using evolves_refl[OF moves_reflp(1)] by simp
next
  case (pass s1 s2 s3 a3 s4 s5 nds blocks re ae oe)
  have 3: "st s3 = st s" using syncRoutes_frame(1)[OF laws pass(6)] pass(3) by simp
  have 4: "evolves phase_move\<^sup>*\<^sup>* (st s3) (st s4)"
    using pass(7) ack_loop[OF laws] evolves_refl[OF moves_reflp(1)] by (auto split: if_splits)
  have a3: "ag_conf_path a3 = ag_conf_path a" "ag_lease_dir a3 = ag_lease_dir a" by (subst pass(11), simp)+
  have "evolves phase_move\<^sup>*\<^sup>* (st s5) (st s')" using syncOwn_moves[OF laws _ _ pass(12)] p a3 by simp
  then show ?thesis using 3 4 pass(8) evolves_trans[OF moves_reflp(2)] by metis
qed

end
