(* ===== verification/Agent_Config.thy ===== *)
theory Agent_Config
  imports Agent_Props
begin

text \<open>What a pass guarantees about the CNI configuration on disk and the phases of this node's blocks.\<close>

lemma renderCNIConfig_D:
  "renderCNIConfig net dir cs = Inr conf \<Longrightarrow> \<exists>rs. conf = json_text 0 (conflist_json (conflist_for net dir rs)) \<and>
    (\<Union>r \<in> set rs. cidr_span r) = (\<Union>c \<in> set cs. cidr_span c)"
  using renderCNIConfig_ranges[of net dir cs conf] by metis

text \<open>\<open>serves a F X\<close>: the configuration file hands out exactly the addresses \<open>X\<close>.\<close>

definition serves :: "agent \<Rightarrow> files \<Rightarrow> nat set \<Rightarrow> bool" where
  "serves a F X \<longleftrightarrow> (\<exists>rs. F (ag_conf_path a) = Some (json_text 0 (conflist_json (conflist_for (ag_net a) (ag_data_dir a) rs))) \<and>
     (\<Union>r \<in> set rs. cidr_span r) = X)"

lemma syncOwn_result:
  assumes laws: "host_laws H st fl tb" and p: "\<not> suffix ''.tmp'' (ag_conf_path a)" "\<not> prefix (ag_lease_dir a @ ''/'') (ag_conf_path a)"
    and r: "syncOwn H a s nds blocks ok = ((s', a'), errs)" and dn: "distinct (map nb_name blocks)"
  defines "own \<equiv> filter (\<lambda>b. nb_node b = ag_node a) blocks"
  defines "ic \<equiv> filter (joins_config a nds ok (h_now H s)) own"
  obtains (quiet) "st s' = st s" "tb s' = tb s" "errs = [] \<Longrightarrow> own = []"
    | (settled) "tb s' = tb s" "ic \<noteq> [] \<Longrightarrow> serves a (fl s') (\<Union>b \<in> set ic. cidr_span (ServedCIDR b))"
        "\<And>b. b \<in> set own \<Longrightarrow>
          rel_option (own_move (b \<in> set ic \<and> phaseOf b = NodeBlockPending) (ic \<noteq> []))\<^sup>*\<^sup>* (st s (nb_name b)) (st s' (nb_name b))"
        "\<And>b c. errs = [] \<Longrightarrow> b \<in> set own \<Longrightarrow> st s' (nb_name b) = Some c \<Longrightarrow>
          \<not> (b \<in> set ic \<and> phaseOf b = NodeBlockPending \<and> phaseOf c = NodeBlockPending) \<and> \<not> (phaseOf c = NodeBlockDraining \<and> \<not> nb_drain c)"
        "\<And>k. k \<notin> nb_name ` set own \<Longrightarrow> st s' k = st s k"
proof (cases "own = []")
  case True
  then show ?thesis using r quiet by (simp add: syncOwn_def own_def[symmetric])
next
  case False
  obtain t x where c: "own_config H a s ic = (t, x)" by (cases "own_config H a s ic")
  note C = own_config_frame[OF laws p(1) c]
  show ?thesis
  proof (cases x)
    case (Inl e)
    then show ?thesis using r False c quiet C(1,2) by (auto simp: syncOwn_def Let_def own_def[symmetric] ic_def[symmetric])
  next
    case (Inr cok)
    define pn where "pn = map nb_name (filter (\<lambda>b. phaseOf b = NodeBlockPending) ic)"
    have cok: "cok \<longleftrightarrow> ic \<noteq> []" using C(4)[OF Inr] .
    have o: "own_status H a t own pn cok = ((s', a'), errs)"
      using r False c Inr by (simp add: syncOwn_def Let_def own_def[symmetric] ic_def[symmetric] pn_def)
    have dno: "distinct (map nb_name own)" using dn by (simp add: own_def distinct_map_filter)
    have pn: "nb_name b \<in> set pn \<longleftrightarrow> b \<in> set ic \<and> phaseOf b = NodeBlockPending" if "b \<in> set own" for b
    proof -
      have "inj_on nb_name (set own)" using dno by (simp add: distinct_map)
      moreover have "set ic \<subseteq> set own" by (auto simp: ic_def)
      ultimately show ?thesis using that by (auto simp: pn_def inj_on_def)
    qed
    from laws p(2) o show ?thesis
    proof (cases rule: own_status_cases)
      case (early e)
      then show ?thesis using quiet C(1,2) by simp
    next
      case (loop u used rc half ready)
      note L = own_loop[OF laws loop(4)] and B = own_loop_block[OF laws loop(4) dno]
      have pr: "fd_promoting (own_findings used rc half ready pn cok b) = (nb_name b \<in> set pn)"
        "fd_config_ok (own_findings used rc half ready pn cok b) = cok" for b by (simp_all add: own_findings_def)
      have ust: "st u = st s" "tb u = tb s" "fl u (ag_conf_path a) = fl t (ag_conf_path a)" using loop(1-3) C(1,2) by simp_all
      show ?thesis
      proof (rule settled)
        show "tb s' = tb s" using L ust by simp
        show "serves a (fl s') (\<Union>b \<in> set ic. cidr_span (ServedCIDR b))" if "ic \<noteq> []"
        proof -
          have "x = Inr True" using Inr cok that by simp
          then obtain conf where c: "fl t (ag_conf_path a) = Some conf"
              "renderCNIConfig (ag_net a) (ag_data_dir a) (map ServedCIDR ic) = Inr conf"
            using C(3) by blast
          obtain rs where "conf = json_text 0 (conflist_json (conflist_for (ag_net a) (ag_data_dir a) rs))"
              "(\<Union>r \<in> set rs. cidr_span r) = (\<Union>c \<in> set (map ServedCIDR ic). cidr_span c)"
            using renderCNIConfig_D[OF c(2)] by blast
          moreover have "fl s' (ag_conf_path a) = Some conf" using L ust(3) c(1) by simp
          ultimately show ?thesis unfolding serves_def by auto
        qed
        show "rel_option (own_move (b \<in> set ic \<and> phaseOf b = NodeBlockPending) (ic \<noteq> []))\<^sup>*\<^sup>* (st s (nb_name b)) (st s' (nb_name b))"
          if "b \<in> set own" for b
          using B[OF that] pr pn[OF that] cok ust(1) by simp
        show "\<not> (b \<in> set ic \<and> phaseOf b = NodeBlockPending \<and> phaseOf c = NodeBlockPending) \<and> \<not> (phaseOf c = NodeBlockDraining \<and> \<not> nb_drain c)"
          if "errs = []" "b \<in> set own" "st s' (nb_name b) = Some c" for b c
          using B[OF that(2)] pr pn[OF that(2)] that by auto
        show "st s' k = st s k" if "k \<notin> nb_name ` set own" for k using L ust(1) that by auto
      qed
    qed
  qed
qed

text \<open>What the moves do to a block, from what the pass knew of it.\<close>

lemma own_moves_spec: "(own_move p ok)\<^sup>*\<^sup>* b c \<Longrightarrow> same_spec b c"
  using moves_spec rtranclp_mono[OF own_move_phase_move] by blast

lemma own_moves_undrained:
  assumes "(own_move p ok)\<^sup>*\<^sup>* b c" "\<not> nb_drain b"
  shows "phaseOf c = phaseOf b \<or> phaseOf c = NodeBlockActive \<and> (phaseOf b = NodeBlockPending \<and> p \<or> phaseOf b = NodeBlockDraining)"
  using assms(1)
proof (induction rule: rtranclp_induct)
  case (step c d)
  have "\<not> nb_drain c" using own_moves_spec[OF step.hyps(1)] assms(2) by (simp add: same_spec_def)
  then show ?case using step by (auto simp: own_move_def)
qed simp

lemma own_moves_parked:
  assumes "(own_move p ok)\<^sup>*\<^sup>* b c" "phaseOf c \<in> {NodeBlockDraining, NodeBlockQuarantined}" "phaseOf c \<noteq> phaseOf b"
  shows "nb_drain b"
proof (rule ccontr)
  assume "\<not> nb_drain b"
  from own_moves_undrained[OF assms(1) this] show False using assms(2,3) by auto
qed

lemma ServedCIDR_spec: "same_spec b c \<Longrightarrow> ServedCIDR c = ServedCIDR b"
  unfolding ServedCIDR_def by (simp add: same_spec_def cong: sum.case_cong)

text \<open>The acknowledgements leave this node's blocks alone.\<close>

lemma acks_own:
  assumes laws: "host_laws H st fl tb" and dn: "distinct (map nb_name blocks)" and b: "b \<in> set blocks" "nb_node b = node"
    and r: "(if ok then foldl (ack H a) (s, []) (ackableBlocks node blocks) else (s, [])) = (s', errs)"
  shows "st s' (nb_name b) = st s (nb_name b)"
proof -
  have "inj_on nb_name (set blocks)" using dn by (simp add: distinct_map)
  then have "nb_name b \<notin> set (ackableBlocks node blocks)" using b by (auto simp: ackableBlocks_def inj_on_def)
  then show ?thesis using r ack_loop[OF laws, of a s "[]" "ackableBlocks node blocks" s' errs] by (auto split: if_splits)
qed

definition fresh_cache :: "('c, 'z) host_scheme \<Rightarrow> ('c \<Rightarrow> store) \<Rightarrow> bool" where
  "fresh_cache H st \<longleftrightarrow> (\<forall>t t' bs. h_blocks H t = (t', Inr bs) \<longrightarrow>
     distinct (map nb_name bs) \<and> (\<forall>b. b \<in> set bs \<longleftrightarrow> st t (nb_name b) = Some b) \<and> (\<forall>n b. st t n = Some b \<longrightarrow> nb_name b = n))"

lemma evolves_fwd: "evolves R m m' \<Longrightarrow> m n = Some b \<Longrightarrow> \<exists>c. m' n = Some c \<and> R b c"
  and evolves_bwd: "evolves R m m' \<Longrightarrow> m' n = Some c \<Longrightarrow> \<exists>b. m n = Some b \<and> R b c"
  unfolding evolves_def by (metis option.rel_cases option.distinct(1) option.inject)+

text \<open>This node's blocks in the store.\<close>

definition owned :: "store \<Rightarrow> string \<Rightarrow> node_block set" where
  "owned m node = {b. m (nb_name b) = Some b \<and> nb_node b = node}"

text \<open>A whole pass with a cache that is up to date, as seen from this node's blocks.\<close>

lemma sync_own_cases:
  assumes laws: "host_laws H st fl tb" and p: "\<not> suffix ''.tmp'' (ag_conf_path a)" "\<not> prefix (ag_lease_dir a @ ''/'') (ag_conf_path a)"
    and fresh: "fresh_cache H st" and r: "sync H (s, a) = ((s', a'), errs)"
  obtains (quiet) "\<And>b. b \<in> owned (st s) (ag_node a) \<Longrightarrow> st s' (nb_name b) = Some b" "errs = [] \<Longrightarrow> owned (st s) (ag_node a) = {}"
    | (settled) s2 s3 now nds blocks re ic where "st s2 = st s" "tb s2 = tb s" "\<And>b. b \<in> set blocks \<longleftrightarrow> st s (nb_name b) = Some b"
        "syncRoutes H a s2 nds blocks = (s3, re)" "tb s' = tb s3" "errs = [] \<Longrightarrow> re = []"
        "ic = {b \<in> owned (st s) (ag_node a). joins_config a nds (re = []) now b}"
        "ic \<noteq> {} \<Longrightarrow> serves a (fl s') (\<Union>b \<in> ic. cidr_span (ServedCIDR b))"
        "\<And>b. b \<in> owned (st s) (ag_node a) \<Longrightarrow>
          rel_option (own_move (b \<in> ic \<and> phaseOf b = NodeBlockPending) (ic \<noteq> {}))\<^sup>*\<^sup>* (Some b) (st s' (nb_name b))"
        "\<And>b c. errs = [] \<Longrightarrow> b \<in> owned (st s) (ag_node a) \<Longrightarrow> st s' (nb_name b) = Some c \<Longrightarrow>
          \<not> (b \<in> ic \<and> phaseOf b = NodeBlockPending \<and> phaseOf c = NodeBlockPending) \<and> \<not> (phaseOf c = NodeBlockDraining \<and> \<not> nb_drain c)"
  using laws r
proof (cases rule: sync_cases)
  case stop
  then show ?thesis using quiet by (auto simp: owned_def)
next
  case (pass s1 s2 s3 a3 s4 s5 nds blocks re ae oe)
  have fr: "distinct (map nb_name blocks)" "\<And>b. b \<in> set blocks \<longleftrightarrow> st s (nb_name b) = Some b"
    using fresh pass(1,2) by (auto simp: fresh_cache_def)
  have a3: "ag_conf_path a3 = ag_conf_path a" "ag_lease_dir a3 = ag_lease_dir a" "ag_node a3 = ag_node a" "ag_net a3 = ag_net a"
    "ag_data_dir a3 = ag_data_dir a" "ag_promote_timeout a3 = ag_promote_timeout a" by (subst pass(11), simp)+
  have jc: "joins_config a3 = joins_config a" by (intro ext) (simp only: joins_config_def a3)
  have s3: "st s3 = st s" using syncRoutes_frame(1)[OF laws pass(6)] pass(3) by simp
  have same: "st s5 (nb_name b) = Some b" if "b \<in> owned (st s) (ag_node a)" for b
    using acks_own[OF laws fr(1) _ _ pass(7)] fr(2) s3 pass(8) that by (auto simp: owned_def)
  have ow: "set (filter (\<lambda>b. nb_node b = ag_node a3) blocks) = owned (st s) (ag_node a)" by (auto simp: fr(2) owned_def a3)
  have t4: "tb s4 = tb s3" using pass(7) ack_loop[OF laws] by (auto split: if_splits)
  let ?ic = "{b \<in> owned (st s) (ag_node a). joins_config a nds (re = []) (h_now H s5) b}"
  let ?fic = "filter (joins_config a3 nds (re = []) (h_now H s5)) (filter (\<lambda>b. nb_node b = ag_node a3) blocks)"
  have sic: "set ?fic = ?ic" using ow jc by (auto simp only: set_filter)
  have nic: "?fic = [] \<longleftrightarrow> ?ic = {}" by (simp only: sic[symmetric] set_empty)
  have "\<not> suffix ''.tmp'' (ag_conf_path a3)" "\<not> prefix (ag_lease_dir a3 @ ''/'') (ag_conf_path a3)" using p a3 by simp_all
  from laws this pass(12) fr(1) show ?thesis
  proof (cases rule: syncOwn_result)
    case q: quiet
    show ?thesis
    proof (rule quiet)
      show "st s' (nb_name b) = Some b" if "b \<in> owned (st s) (ag_node a)" for b using q(1) same[OF that] by simp
      show "owned (st s) (ag_node a) = {}" if "errs = []" using q(3) pass(13) that ow by (metis set_empty)
    qed
  next
    case d: settled
    have sv: "serves a3 F X \<longleftrightarrow> serves a F X" for F X by (simp add: serves_def a3)
    show ?thesis
    proof (rule settled[of s2 blocks nds s3 re ?ic "h_now H s5"])
      show "st s2 = st s" "tb s2 = tb s" "syncRoutes H a s2 nds blocks = (s3, re)" using pass by simp_all
      show "b \<in> set blocks \<longleftrightarrow> st s (nb_name b) = Some b" for b by (rule fr(2))
      show "tb s' = tb s3" using d(1) pass(10) t4 by simp
      show "errs = [] \<Longrightarrow> re = []" using pass(13) by simp
      show "serves a (fl s') (\<Union>b \<in> ?ic. cidr_span (ServedCIDR b))" if "?ic \<noteq> {}"
        using d(2) nic that unfolding sic sv by blast
      show "rel_option (own_move (b \<in> ?ic \<and> phaseOf b = NodeBlockPending) (?ic \<noteq> {}))\<^sup>*\<^sup>* (Some b) (st s' (nb_name b))"
        if "b \<in> owned (st s) (ag_node a)" for b
        using d(3)[of b, unfolded sic nic ow same[OF that], OF that] .
      show "\<not> (b \<in> ?ic \<and> phaseOf b = NodeBlockPending \<and> phaseOf c = NodeBlockPending) \<and> \<not> (phaseOf c = NodeBlockDraining \<and> \<not> nb_drain c)"
        if "errs = []" "b \<in> owned (st s) (ag_node a)" "st s' (nb_name b) = Some c" for b c
        using d(4)[of b c, unfolded sic ow] pass(13) that by blast
    qed simp
  qed
qed

lemma active_in_config:
  assumes "(own_move (b \<in> ic \<and> phaseOf b = NodeBlockPending) k)\<^sup>*\<^sup>* b c"
    and ic: "b \<in> ic \<longleftrightarrow> joins_config a nds ok now b"
    and settled: "\<not> (b \<in> ic \<and> phaseOf b = NodeBlockPending \<and> phaseOf c = NodeBlockPending) \<and> \<not> (phaseOf c = NodeBlockDraining \<and> \<not> nb_drain c)"
  shows "phaseOf c = NodeBlockActive \<and> \<not> nb_drain c \<longleftrightarrow> b \<in> ic"
proof -
  have d: "nb_drain c = nb_drain b" using own_moves_spec[OF assms(1)] by (simp add: same_spec_def)
  show ?thesis
  proof (cases "nb_drain b")
    case True
    then show ?thesis using ic d by (auto simp: joins_config_def split: block_phase.splits)
  next
    case False
    note m = own_moves_undrained[OF assms(1) False]
    have "b \<in> ic \<Longrightarrow> phaseOf b \<in> {NodeBlockActive, NodeBlockDraining, NodeBlockPending}"
      "phaseOf b \<in> {NodeBlockActive, NodeBlockDraining} \<Longrightarrow> b \<in> ic"
      using ic False by (auto simp: joins_config_def split: block_phase.splits)
    then show ?thesis using m settled d False by auto
  qed
qed

lemma sync_config:
  assumes laws: "host_laws H st fl tb" and p: "\<not> suffix ''.tmp'' (ag_conf_path a)" "\<not> prefix (ag_lease_dir a @ ''/'') (ag_conf_path a)"
    and fresh: "fresh_cache H st" and r: "sync H (s, a) = ((s', a'), [])"
    and names: "\<And>n b. st s n = Some b \<Longrightarrow> nb_name b = n"
    and some: "{b \<in> owned (st s') (ag_node a). phaseOf b = NodeBlockActive \<and> \<not> nb_drain b} \<noteq> {}"
  shows "serves a (fl s') (\<Union>b \<in> {b \<in> owned (st s') (ag_node a). phaseOf b = NodeBlockActive \<and> \<not> nb_drain b}. cidr_span (ServedCIDR b))"
proof -
  have ev: "evolves phase_move\<^sup>*\<^sup>* (st s) (st s')" by (rule sync_moves[OF laws p r])
  have origin: "\<exists>b. b \<in> owned (st s) (ag_node a) \<and> st s (nb_name c) = Some b \<and> nb_name b = nb_name c" if "c \<in> owned (st s') (ag_node a)" for c
  proof -
    have "st s' (nb_name c) = Some c" using that by (simp add: owned_def)
    then obtain b where b: "st s (nb_name c) = Some b" "phase_move\<^sup>*\<^sup>* b c" using evolves_bwd[OF ev] by blast
    have "same_spec b c" by (rule moves_spec[OF b(2)])
    then show ?thesis using that b(1) names[OF b(1)] by (auto simp: owned_def same_spec_def)
  qed
  from laws p fresh r show ?thesis
  proof (cases rule: sync_own_cases)
    case quiet
    then show ?thesis using some origin by blast
  next
    case (settled s2 s3 now nds blocks re ic)
    have bc: "phaseOf c = NodeBlockActive \<and> \<not> nb_drain c \<longleftrightarrow> b \<in> ic" and sc: "same_spec b c" and n: "nb_name c = nb_name b"
      if b: "b \<in> owned (st s) (ag_node a)" and c: "st s' (nb_name b) = Some c" for b c
    proof -
      have m: "(own_move (b \<in> ic \<and> phaseOf b = NodeBlockPending) (ic \<noteq> {}))\<^sup>*\<^sup>* b c" using settled(9)[OF b] c by simp
      have "b \<in> ic \<longleftrightarrow> joins_config a nds (re = []) now b" using settled(7) b by simp
      from active_in_config[OF m this settled(10)[OF refl b c]] show "phaseOf c = NodeBlockActive \<and> \<not> nb_drain c \<longleftrightarrow> b \<in> ic" .
      show "same_spec b c" by (rule own_moves_spec[OF m])
      then show "nb_name c = nb_name b" by (simp add: same_spec_def)
    qed
    have eq: "(\<Union>b \<in> {c \<in> owned (st s') (ag_node a). phaseOf c = NodeBlockActive \<and> \<not> nb_drain c}. cidr_span (ServedCIDR b)) =
        (\<Union>b \<in> ic. cidr_span (ServedCIDR b))" (is "?L = ?R")
    proof (intro set_eqI iffI)
      fix x assume "x \<in> ?L"
      then obtain c where c: "c \<in> owned (st s') (ag_node a)" "phaseOf c = NodeBlockActive" "\<not> nb_drain c" "x \<in> cidr_span (ServedCIDR c)" by blast
      obtain b where b: "b \<in> owned (st s) (ag_node a)" "nb_name b = nb_name c" using origin[OF c(1)] by blast
      have s: "st s' (nb_name b) = Some c" using c(1) b(2) by (simp add: owned_def)
      show "x \<in> ?R" using bc[OF b(1) s] c(2-4) ServedCIDR_spec[OF sc[OF b(1) s]] by auto
    next
      fix x assume "x \<in> ?R"
      then obtain b where b: "b \<in> ic" "x \<in> cidr_span (ServedCIDR b)" by blast
      have bo: "b \<in> owned (st s) (ag_node a)" using b(1) settled(7) by simp
      then obtain c where c: "st s' (nb_name b) = Some c" using evolves_fwd[OF ev, of "nb_name b" b] by (auto simp: owned_def)
      have "c \<in> owned (st s') (ag_node a)" using sc[OF bo c] n[OF bo c] c bo by (auto simp: owned_def same_spec_def)
      then show "x \<in> ?L" using bc[OF bo c] ServedCIDR_spec[OF sc[OF bo c]] b by auto
    qed
    obtain c where c: "c \<in> owned (st s') (ag_node a)" "phaseOf c = NodeBlockActive" "\<not> nb_drain c" using some by blast
    obtain b where b: "b \<in> owned (st s) (ag_node a)" "nb_name b = nb_name c" using origin[OF c(1)] by blast
    have "st s' (nb_name b) = Some c" using c(1) b(2) by (simp add: owned_def)
    then have "ic \<noteq> {}" using bc[OF b(1)] c by blast
    then show ?thesis using settled(8) eq by simp
  qed
qed

lemma sync_promotion:
  assumes laws: "host_laws H st fl tb" and p: "\<not> suffix ''.tmp'' (ag_conf_path a)" "\<not> prefix (ag_lease_dir a @ ''/'') (ag_conf_path a)"
    and fresh: "fresh_cache H st" and r: "sync H (s, a) = ((s', a'), errs)"
    and b: "b \<in> owned (st s) (ag_node a)" "phaseOf b = NodeBlockPending"
    and c: "st s' (nb_name b) = Some c" "phaseOf c \<in> {NodeBlockActive, NodeBlockDraining}"
  shows "\<exists>(nds :: cluster_node list) blocks want now X. (\<forall>d. d \<in> set blocks \<longleftrightarrow> st s (nb_name d) = Some d) \<and>
    desiredRoutes (ag_node a) nds blocks = (want, []) \<and> (inj_on rt_dst (set want) \<longrightarrow> tb s' = set want) \<and>
    readyToPromote (ag_node a) b nds now (ag_promote_timeout a) \<and> serves a (fl s') X \<and> cidr_span (ServedCIDR b) \<subseteq> X"
  using laws p fresh r
proof (cases rule: sync_own_cases)
  case quiet
  then show ?thesis using b c by auto
next
  case (settled s2 s3 now nds blocks re ic)
  have m: "(own_move (b \<in> ic \<and> phaseOf b = NodeBlockPending) (ic \<noteq> {}))\<^sup>*\<^sup>* b c" using settled(9)[OF b(1)] c(1) by simp
  have "(own_move q k)\<^sup>*\<^sup>* b d \<Longrightarrow> \<not> q \<Longrightarrow> phaseOf d \<in> {NodeBlockPending, NodeBlockQuarantined}" for q k d
    by (induction rule: rtranclp_induct) (auto simp: own_move_def b(2))
  then have ic: "b \<in> ic" using m c(2) by fastforce
  then have j: "joins_config a nds (re = []) now b" using settled(7) by simp
  then have re: "re = []" and rp: "readyToPromote (ag_node a) b nds now (ag_promote_timeout a)"
    using b(2) by (simp_all add: joins_config_def)
  obtain want ps where d: "desiredRoutes (ag_node a) nds blocks = (want, ps)" by (cases "desiredRoutes (ag_node a) nds blocks")
  have sr: "syncRoutes H a s2 nds blocks = (s3, [])" using settled(4) re by simp
  have ps: "ps = []" using sr d by (auto simp: syncRoutes_def split: prod.splits sum.splits if_splits)
  have "inj_on rt_dst (set want) \<longrightarrow> tb s' = set want" using syncRoutes_ok[OF laws d _ sr] settled(5) by simp
  moreover have "serves a (fl s') (\<Union>b \<in> ic. cidr_span (ServedCIDR b))" using settled(8) ic by blast
  moreover have "cidr_span (ServedCIDR b) \<subseteq> (\<Union>b \<in> ic. cidr_span (ServedCIDR b))" using ic by blast
  ultimately have "(\<forall>d. d \<in> set blocks \<longleftrightarrow> st s (nb_name d) = Some d) \<and>
    desiredRoutes (ag_node a) nds blocks = (want, []) \<and> (inj_on rt_dst (set want) \<longrightarrow> tb s' = set want) \<and>
    readyToPromote (ag_node a) b nds now (ag_promote_timeout a) \<and> serves a (fl s') (\<Union>b \<in> ic. cidr_span (ServedCIDR b)) \<and>
    cidr_span (ServedCIDR b) \<subseteq> (\<Union>b \<in> ic. cidr_span (ServedCIDR b))"
    using settled(3) d ps rp by (intro conjI allI) simp_all
  then show ?thesis by (intro exI)
qed

lemma ServedCIDR_sub: "cidr_span (ServedCIDR b) \<subseteq> cidr_span (nb_cidr b)"
  using otherHalf_spec(3)[of "nb_cidr b" "nb_release b"] by (auto simp: ServedCIDR_def split: sum.splits)

lemma sync_withdrawal:
  assumes laws: "host_laws H st fl tb" and p: "\<not> suffix ''.tmp'' (ag_conf_path a)" "\<not> prefix (ag_lease_dir a @ ''/'') (ag_conf_path a)"
    and fresh: "fresh_cache H st" and r: "sync H (s, a) = ((s', a'), errs)"
    and apart: "\<And>b c. b \<in> owned (st s) (ag_node a) \<Longrightarrow> c \<in> owned (st s) (ag_node a) \<Longrightarrow> b \<noteq> c \<Longrightarrow>
      cidr_span (nb_cidr b) \<inter> cidr_span (nb_cidr c) = {}"
    and b: "b \<in> owned (st s) (ag_node a)" "phaseOf b \<in> {NodeBlockActive, NodeBlockDraining}"
    and c: "st s' (nb_name b) = Some c" "phaseOf c \<in> {NodeBlockDraining, NodeBlockQuarantined}" "phaseOf c \<noteq> phaseOf b"
  shows "nb_drain b \<and> (\<exists>X. serves a (fl s') X \<and> cidr_span (nb_cidr b) \<inter> X = {})"
  using laws p fresh r
proof (cases rule: sync_own_cases)
  case quiet
  then show ?thesis using b c by auto
next
  case (settled s2 s3 now nds blocks re ic)
  have m: "(own_move (b \<in> ic \<and> phaseOf b = NodeBlockPending) (ic \<noteq> {}))\<^sup>*\<^sup>* b c" using settled(9)[OF b(1)] c(1) by simp
  have d: "nb_drain b" by (rule own_moves_parked[OF m c(2,3)])
  have "(own_move q k)\<^sup>*\<^sup>* b e \<Longrightarrow> \<not> k \<Longrightarrow> phaseOf e = phaseOf b" for q k e
  proof (induction rule: rtranclp_induct)
    case (step y z)
    have "nb_drain y" using own_moves_spec[OF step.hyps(1)] d by (simp add: same_spec_def)
    then show ?case using step b(2) by (auto simp: own_move_def)
  qed simp
  then have ic: "ic \<noteq> {}" using m c(3) by blast
  have "b \<notin> ic" using settled(7) d by (auto simp: joins_config_def split: block_phase.splits)
  then have "cidr_span (nb_cidr b) \<inter> (\<Union>e \<in> ic. cidr_span (ServedCIDR e)) = {}"
    using apart[OF b(1)] ServedCIDR_sub settled(7) by fastforce
  then show ?thesis using settled(8)[OF ic] d by blast
qed

subsection \<open>The properties\<close>

text \<open>
  C14. A pass of the agent, with any cache contents and any errors, creates and deletes no NodeBlock, changes no
  specification, and moves the phases only along the life cycle: Pending to Active, Active to Draining when a drain is
  requested, back when it is not, and a block to be drained from Pending or Draining to Quarantined. A quarantined or
  released block stays so.
\<close>

theorem sync_lifecycle:
  assumes "host_laws H st fl tb" "\<not> suffix ''.tmp'' (ag_conf_path a)" "\<not> prefix (ag_lease_dir a @ ''/'') (ag_conf_path a)"
    "sync H (s, a) = ((s', a'), errs)"
  shows "(\<forall>n. rel_option phase_move\<^sup>*\<^sup>* (st s n) (st s' n)) \<and>
    (\<forall>n b c. st s n = Some b \<and> st s' n = Some c \<and> phaseOf b \<in> {NodeBlockQuarantined, NodeBlockReleased} \<longrightarrow> phaseOf c = phaseOf b)"
proof -
  have ev: "evolves phase_move\<^sup>*\<^sup>* (st s) (st s')" by (rule sync_moves[OF assms])
  have "phaseOf c = phaseOf b" if "st s n = Some b" "st s' n = Some c" "phaseOf b \<in> {NodeBlockQuarantined, NodeBlockReleased}" for n b c
    using evolves_fwd[OF ev that(1)] that(2,3) moves_final[of b c] by auto
  then show ?thesis using ev by (auto simp: evolves_def)
qed




end
