(* ===== verification/Cluster.thy ===== *)
theory Cluster
  imports Controller_Props Agent_Config
begin

text \<open>
  The system: the controller and one agent per node work on the same API server. A step is a whole pass of one of them; the
  passes come in any order and any number, each with any errors and, for the agents, any cache contents.
\<close>

inductive cluster_step ::
  "('c, 'y) kube_scheme \<Rightarrow> (string \<Rightarrow> ('c, 'z) host_scheme) \<Rightarrow> string \<Rightarrow> 'c \<times> (string \<Rightarrow> agent) \<Rightarrow> 'c \<times> (string \<Rightarrow> agent) \<Rightarrow> bool"
  for A Hs pool where
    controller_pass: "reconcile A s pool = (s', v) \<Longrightarrow> cluster_step A Hs pool (s, ags) (s', ags)"
  | agent_pass: "sync (Hs n) (s, ags n) = ((s', a'), errs) \<Longrightarrow> cluster_step A Hs pool (s, ags) (s', ags(n := a'))"

lemma evolves_cluster_inv:
  assumes ev: "evolves phase_move\<^sup>*\<^sup>* m m'" and inv: "cluster_inv pool R m"
  shows "cluster_inv pool R m'"
  unfolding cluster_inv_def
proof (intro conjI allI impI)
  fix n c assume "m' n = Some c"
  then obtain b where b: "m n = Some b" "phase_move\<^sup>*\<^sup>* b c" using evolves_bwd[OF ev] by blast
  note i = cluster_invD[OF inv b(1)] and s = moves_spec[OF b(2)]
  show "nb_name c = n" "nb_pool c = pool" "fits R c" using i s by (auto simp: same_spec_def fits_def)
  show "blockPhase c \<noteq> NodeBlockReleased" by (rule moves_released[OF b(2) i(2)])
next
  fix n k b c assume "m' n = Some b" "m' k = Some c" "n \<noteq> k"
  moreover then obtain b0 c0 where "m n = Some b0" "phase_move\<^sup>*\<^sup>* b0 b" "m k = Some c0" "phase_move\<^sup>*\<^sup>* c0 c"
    using evolves_bwd[OF ev] by blast
  moreover then have "nb_cidr b = nb_cidr b0" "nb_cidr c = nb_cidr c0" using moves_spec by (auto simp: same_spec_def)
  ultimately show "cidr_span (nb_cidr b) \<inter> cidr_span (nb_cidr c) = {}" using cluster_invD(5)[OF inv] by metis
qed

text \<open>The settings of an agent do not change.\<close>

definition agent_ready :: "agent \<Rightarrow> bool" where
  "agent_ready a \<longleftrightarrow> \<not> suffix ''.tmp'' (ag_conf_path a) \<and> \<not> prefix (ag_lease_dir a @ ''/'') (ag_conf_path a)"

lemma releaseReady_settings: "releaseReady a now own h ok = (a', out) \<Longrightarrow> a' = a\<lparr>ag_releasing := ag_releasing a'\<rparr>"
  by (auto simp: releaseReady_def split: prod.splits)

lemma syncOwn_settings:
  assumes "syncOwn H a s nds blocks ok = ((s', a'), errs)"
  shows "a' = a\<lparr>ag_releasing := ag_releasing a'\<rparr>"
proof -
  have "own_status H a t own pn k = ((s', a'), e) \<Longrightarrow> a' = a\<lparr>ag_releasing := ag_releasing a'\<rparr>" for t own pn k e
    by (auto simp: own_status_def split: prod.splits sum.splits if_splits dest!: releaseReady_settings)
  then show ?thesis using assms by (auto simp: syncOwn_def Let_def split: prod.splits sum.splits if_splits)
qed

lemma agent_ready_upd: "agent_ready (b\<lparr>ag_last_nat := x\<rparr>) = agent_ready b" "agent_ready (b\<lparr>ag_releasing := y\<rparr>) = agent_ready b"
  by (simp_all add: agent_ready_def)

lemma sync_ready:
  assumes "sync H (s, a) = ((s', a'), errs)" "agent_ready a"
  shows "agent_ready a'"
proof -
  have c: "cleanNAT H b t bl = ((t', b'), e) \<Longrightarrow> b' = b\<lparr>ag_last_nat := ag_last_nat b'\<rparr>" for b t bl t' b' e
    by (auto simp: cleanNAT_def Let_def split: if_splits prod.splits)
  have c: "agent_ready b \<Longrightarrow> cleanNAT H b t bl = ((t', b'), e) \<Longrightarrow> agent_ready b'" for b t bl t' b' e
    using agent_ready_upd(1) c by metis
  have o: "agent_ready b \<Longrightarrow> syncOwn H b t nds bl ok = ((t', b'), e) \<Longrightarrow> agent_ready b'" for b t nds bl ok t' b' e
    using agent_ready_upd(2) syncOwn_settings by metis
  obtain t1 n where n: "h_nodes H s = (t1, n)" by (cases "h_nodes H s")
  obtain t2 bl where b: "h_blocks H t1 = (t2, bl)" by (cases "h_blocks H t1")
  show ?thesis
  proof (cases "\<exists>nds blocks. n = Inr nds \<and> bl = Inr blocks")
    case True
    then obtain nds blocks where nb: "n = Inr nds" "bl = Inr blocks" by blast
    obtain t3 re where re: "syncRoutes H a t2 nds blocks = (t3, re)" by (cases "syncRoutes H a t2 nds blocks")
    obtain t4 ae where ae: "(if re = [] then foldl (ack H a) (t3, []) (ackableBlocks (ag_node a) blocks) else (t3, [])) = (t4, ae)"
      by (cases "if re = [] then foldl (ack H a) (t3, []) (ackableBlocks (ag_node a) blocks) else (t3, [])")
    obtain t5 a3 ne where nat: "cleanNAT H a t4 blocks = ((t5, a3), ne)" by (cases "cleanNAT H a t4 blocks") auto
    obtain t6 a6 oe where own: "syncOwn H a3 t5 nds blocks (re = []) = ((t6, a6), oe)"
      by (cases "syncOwn H a3 t5 nds blocks (re = [])") auto
    have "a6 = a'" using assms(1) n nb b re ae nat own by (auto simp: sync_def)
    then show ?thesis using o[OF c[OF assms(2) nat] own] by simp
  next
    case False
    then have "a' = a" using assms(1) n b by (cases n; cases bl) (auto simp: sync_def)
    then show ?thesis using assms(2) by simp
  qed
qed


end
