(* ===== verification/Shrink_Props.thy ===== *)
theory Shrink_Props
  imports Plan_Props
begin

text \<open>
  The properties of what the planner takes away: draining and splitting leave a node its starting block
  and capacity enough not to grow again at once, and the lifecycle lists of a plan are exactly the
  blocks in the states they name.
\<close>

subsection \<open>Choosing blocks to drain and to split\<close>

lemma shrink_before_order:
  "\<not> shrink_before y x \<Longrightarrow> \<not> shrink_before z y \<Longrightarrow> \<not> shrink_before z x"
  "shrink_before x y \<Longrightarrow> \<not> shrink_before y x"
  by (auto simp: shrink_before_def split: if_splits)

lemma shrinkCandidate_Some:
  assumes "shrinkCandidate spec pods used active first now = n" "n \<noteq> []"
  obtains c where "c \<in> set active" "nb_name c = n" "2 \<le> length active"
    "shrinkable spec (usableAddresses (initialBlockSize spec pods)) used active first now c"
    "\<forall>d \<in> set active. shrinkable spec (usableAddresses (initialBlockSize spec pods)) used active first now d \<longrightarrow>
       \<not> shrink_before d c"
proof -
  let ?P = "shrinkable spec (usableAddresses (initialBlockSize spec pods)) used active first now"
  obtain c where f: "find ?P (sort_by shrink_before active) = Some c" "nb_name c = n" "2 \<le> length active"
    using assms by (auto simp: shrinkCandidate_def split: option.splits if_splits)
  have "c \<in> set active \<and> ?P c \<and> (\<forall>y \<in> set active. ?P y \<longrightarrow> \<not> shrink_before y c)"
    by (rule find_sort_least[OF f(1)]) (erule (1) shrink_before_order | erule shrink_before_order(2))+
  then show thesis using that f by blast
qed

lemma filter_name:
  "distinct (map nb_name bs) \<Longrightarrow> c \<in> set bs \<Longrightarrow> filter (\<lambda>b. b \<noteq> c) bs = filter (\<lambda>b. nb_name b \<noteq> nb_name c) bs"
  by (intro filter_cong refl) (metis distinct_map inj_on_def)

definition cooled :: "pool_spec \<Rightarrow> go_time \<Rightarrow> node_block \<Rightarrow> bool" where
  "cooled spec now b \<longleftrightarrow> sp_shrink_cooldown spec * second \<le> now - transitionTime b"

lemma drain_loop_spec:
  assumes "distinct (map nb_name active)" "drain_loop spec pods d active first now = (drained, rest)"
  shows "rest = filter (\<lambda>b. nb_name b \<notin> set drained) active \<and>
    (\<forall>n \<in> set drained. \<exists>b \<in> set active. nb_name b = n \<and> n \<noteq> first \<and> cooled spec now b) \<and>
    (drained \<noteq> [] \<longrightarrow> keeps_enough spec (usableAddresses (initialBlockSize spec pods)) d (blocksCapacity rest)) \<and>
    (active \<noteq> [] \<longrightarrow> rest \<noteq> []) \<and> shrinkCandidate spec pods d rest first now = []"
  using assms
proof (induction spec pods d active first now arbitrary: drained rest rule: drain_loop.induct)
  case (1 spec pods d active first now)
  let ?n = "shrinkCandidate spec pods d active first now"
  show ?case
  proof (cases "?n = []")
    case True
    then show ?thesis using "1.prems"(2) by (simp add: drain_loop.simps Let_def)
  next
    case False
    let ?act = "filter (\<lambda>b. nb_name b \<noteq> ?n) active"
    obtain c where c: "c \<in> set active" "nb_name c = ?n" "2 \<le> length active"
      "shrinkable spec (usableAddresses (initialBlockSize spec pods)) d active first now c"
      using shrinkCandidate_Some[OF refl False] by blast
    obtain dr where dr: "drain_loop spec pods d ?act first now = (dr, rest)" "drained = ?n # dr"
      using "1.prems"(2) False by (subst (asm) drain_loop.simps) (auto simp: Let_def split: prod.splits)
    have dist: "distinct (map nb_name ?act)" using "1.prems"(1) distinct_map_filter by blast
    note IH = "1.IH"[OF refl False dist dr(1)]
    have keep: "keeps_enough spec (usableAddresses (initialBlockSize spec pods)) d (blocksCapacity ?act)"
      using c(4) filter_name[OF "1.prems"(1) c(1)] c(2) by (simp add: shrinkable_def)
    have "?act \<noteq> []"
    proof
      assume e: "?act = []"
      then have "\<forall>b \<in> set active. b = c"
        using c(1,2) "1.prems"(1) by (auto simp: filter_empty_conv distinct_map inj_on_def)
      then have "set active \<subseteq> {c}" by blast
      moreover have "card (set active) = length active" using "1.prems"(1) by (simp add: distinct_map distinct_card)
      ultimately show False using c(3) card_mono[of "{c}" "set active"] by simp
    qed
    moreover have "cooled spec now c" "?n \<noteq> first" using c(2,4) by (simp_all add: shrinkable_def cooled_def)
    moreover have "filter (\<lambda>b. nb_name b \<notin> set dr) ?act = filter (\<lambda>b. nb_name b \<notin> set drained) active"
      by (auto simp: dr(2) intro!: filter_cong)
    moreover have "keeps_enough spec (usableAddresses (initialBlockSize spec pods)) d (blocksCapacity rest)"
      using IH keep by (cases "dr = []") auto
    ultimately show ?thesis using IH c(1,2) dr(2) by auto
  qed
qed

text \<open>
  \<open>shrinkCandidate\<close> names a block only if the node keeps at least one other, and then the least
  used eligible one (the smallest of the least used): not the starting block, past its cooldown, and not
  needed for the rest to hold the demand below the shrink threshold without growing again.
\<close>

lemma shrinkCandidate_safe:
  assumes "shrinkCandidate spec pods used active first now = n" "n \<noteq> []"
  shows "\<exists>c \<in> set active. nb_name c = n \<and> 2 \<le> length active \<and> n \<noteq> first \<and> cooled spec now c \<and>
    keeps_enough spec (usableAddresses (initialBlockSize spec pods)) used (blocksCapacity (filter (\<lambda>b. b \<noteq> c) active)) \<and>
    (\<forall>d \<in> set active. shrinkable spec (usableAddresses (initialBlockSize spec pods)) used active first now d \<longrightarrow>
       nb_used c \<le> nb_used d \<and> (nb_used c = nb_used d \<longrightarrow> blockAddresses (nb_cidr c) \<le> blockAddresses (nb_cidr d)))"
proof (rule shrinkCandidate_Some[OF assms])
  fix c
  assume c: "c \<in> set active" "nb_name c = n" "2 \<le> length active"
    "shrinkable spec (usableAddresses (initialBlockSize spec pods)) used active first now c"
    "\<forall>d \<in> set active. shrinkable spec (usableAddresses (initialBlockSize spec pods)) used active first now d \<longrightarrow>
       \<not> shrink_before d c"
  then show ?thesis
    by (intro bexI[of _ c]) (auto simp: shrinkable_def cooled_def shrink_before_def split: if_splits)
qed

definition demo_node :: "string \<Rightarrow> int \<Rightarrow> node" where
  "demo_node name pods = \<lparr>nd_name = name, nd_deleting = False, nd_pods = Some pods,
     nd_addresses = [(''InternalIP'', ''192.168.1.7'')]\<rparr>"

definition demo_block :: "string \<Rightarrow> string \<Rightarrow> string \<Rightarrow> int \<Rightarrow> node_block" where
  "demo_block name node cidr used = \<lparr>nb_name = name, nb_created = 1, nb_node = node, nb_pool = ''pool'', nb_cidr = cidr,
     nb_drain = False, nb_initial = False, nb_release = [], nb_phase = NodeBlockActive, nb_used = used,
     nb_half_usage = [], nb_release_ready = [], nb_reclaimed = 0, nb_acked = [], nb_transition = Some 1\<rparr>"

definition demo_input :: "int \<Rightarrow> plan_input" where
  "demo_input pods = \<lparr>in_now = 1000 * second, in_starved = \<lambda>_. 0, in_last_change = \<lambda>_. 0,
     in_waiting = \<lambda>_. 0, in_pods = \<lambda>_. pods\<rparr>"

definition demo_active :: "node_block list" where
  "demo_active = [demo_block ''b1'' ''n1'' ''10.0.0.0/27'' 3, demo_block ''b2'' ''n1'' ''10.0.0.64/26'' 2]"

subsection \<open>The changes to one node\<close>

lemma classify_lists:
  "ns_active_blocks (classify p owned) = filter (\<lambda>b. blockPhase b = NodeBlockActive \<and> \<not> nb_drain b) owned \<and>
   ns_draining (classify p owned) =
     filter (\<lambda>b. (blockPhase b = NodeBlockActive \<or> blockPhase b = NodeBlockDraining) \<and> nb_drain b) owned \<and>
   ns_releasing (classify p owned) =
     filter (\<lambda>b. blockPhase b = NodeBlockActive \<and> \<not> nb_drain b \<and> nb_release b \<noteq> []) owned \<and>
   ns_in_flight (classify p owned) =
     list_ex (\<lambda>b. blockPhase b = NodeBlockPending \<or> blockPhase b = NodeBlockDraining \<and> \<not> nb_drain b) owned \<and>
   ns_used (classify p owned) =
     (\<Sum>b \<leftarrow> filter (\<lambda>b. blockPhase b = NodeBlockActive \<and> \<not> nb_drain b) owned. nb_used b)"
proof -
  have "(let r = foldl (classify_step p) st bs in
      ns_active_blocks r = ns_active_blocks st @ filter (\<lambda>b. blockPhase b = NodeBlockActive \<and> \<not> nb_drain b) bs \<and>
      ns_draining r = ns_draining st @
        filter (\<lambda>b. (blockPhase b = NodeBlockActive \<or> blockPhase b = NodeBlockDraining) \<and> nb_drain b) bs \<and>
      ns_releasing r = ns_releasing st @
        filter (\<lambda>b. blockPhase b = NodeBlockActive \<and> \<not> nb_drain b \<and> nb_release b \<noteq> []) bs \<and>
      ns_in_flight r = (ns_in_flight st \<or>
        list_ex (\<lambda>b. blockPhase b = NodeBlockPending \<or> blockPhase b = NodeBlockDraining \<and> \<not> nb_drain b) bs) \<and>
      ns_used r = ns_used st + (\<Sum>b \<leftarrow> filter (\<lambda>b. blockPhase b = NodeBlockActive \<and> \<not> nb_drain b) bs. nb_used b))"
    for st :: node_blocks and bs
    by (induction bs arbitrary: st)
      (auto simp: classify_step_def Let_def split: block_phase.splits option.splits)
  from this[of "\<lparr>ns_used = 0, ns_in_flight = False, ns_active = [], ns_active_blocks = [], ns_draining = [],
      ns_releasing = []\<rparr>" owned]
  show ?thesis by (simp add: classify_def Let_def)
qed

text \<open>Growing touches none of the lists of changes to existing blocks.\<close>

definition marks ::
  "pool_plan \<Rightarrow> (string list \<times> string list) \<times> (half_release list \<times> string list \<times> string list) \<times> string list \<times> string list"
  where "marks s = ((pp_drain s, pp_undrain s), (pp_release s, pp_unrelease s, pp_split s), pp_delete s, pp_quarantine s)"

lemma marks_update [simp]:
  "marks (s\<lparr>pp_pool := p\<rparr>) = marks s" "marks (s\<lparr>pp_new := ns\<rparr>) = marks s" "marks (s\<lparr>pp_pending := b\<rparr>) = marks s"
  "marks (s\<lparr>pp_exhausted := b\<rparr>) = marks s" "marks (s\<lparr>pp_problems := pr\<rparr>) = marks s"
  by (simp_all add: marks_def)

lemma grow_loop_marks:
  "marks (fst (grow_loop steps spec node pods limit required demand minAddrs plan active cidrs have added)) = marks plan"
proof (induction steps spec node pods limit required demand minAddrs plan active cidrs "have" added rule: grow_loop.induct)
  case (2 steps spec node pods limit required demand minAddrs plan active cidrs "have" added)
  let ?need = "growthNeed spec have demand (limit - have) minAddrs"
  let ?active = "sort_by (\<lambda>a b. addresses (snd b) < addresses (snd a)) active"
  let ?piece = "push_bit (bits_len (nat ?need) - 1) 1 :: int"
  show ?case
  proof (cases "(added = 0 \<or> have < required) \<and> ?need \<noteq> 0")
    case True
    then have go: "added = 0 \<or> have < required" "?need \<noteq> 0" by simp_all
    obtain p r where tb: "take_beside (pp_pool plan) ?active ?piece node = (p, r)"
      by (cases "take_beside (pp_pool plan) ?active ?piece node")
    obtain q v where q: "allocateDemand p ?need node = (q, v)" by (cases "allocateDemand p ?need node")
    show ?thesis
    proof (cases r)
      case None
      then show ?thesis using tb q go by (cases v) (simp_all add: Let_def)
    next
      case (Some gb)
      obtain got b where gb: "gb = (got, b)" by (cases gb)
      show ?thesis using "2.IH"[OF _ refl] go tb Some gb by (simp add: Let_def)
    qed
  qed (auto simp: Let_def)
qed simp

lemma growNode_marks: "marks (growNode plan spec node pods capacity demand minAddrs active) = marks plan"
  using grow_loop_marks[of 8 spec node pods "capacityCap spec pods" "requiredCapacity spec demand" demand minAddrs plan
      active "map block_cidr active" capacity 0]
  by (auto simp: growNode_def split: prod.splits)

text \<open>The blocks a node keeps in use, and the pods it has to hold in them.\<close>

definition in_use :: "node_block list \<Rightarrow> string \<Rightarrow> node_block list" where
  "in_use blocks name = filter (\<lambda>b. blockPhase b = NodeBlockActive \<and> \<not> nb_drain b) (owned_by blocks name)"

definition being_drained :: "node_block list \<Rightarrow> string \<Rightarrow> node_block list" where
  "being_drained blocks name =
     filter (\<lambda>b. (blockPhase b = NodeBlockActive \<or> blockPhase b = NodeBlockDraining) \<and> nb_drain b) (owned_by blocks name)"

definition pods_to_hold :: "node_block list \<Rightarrow> plan_input \<Rightarrow> string \<Rightarrow> int" where
  "pods_to_hold blocks inp name =
     max ((\<Sum>b \<leftarrow> in_use blocks name. nb_used b) + (\<Sum>b \<leftarrow> being_drained blocks name. nb_used b)) (in_pods inp name)"

definition drained_of :: "pool_spec \<Rightarrow> node_block list \<Rightarrow> plan_input \<Rightarrow> node \<Rightarrow> string list \<Rightarrow> bool" where
  "drained_of spec blocks inp n ds \<longleftrightarrow> ds = [] \<or> \<not> nd_deleting n \<and>
     (\<exists>rest. drain_loop spec (allocatablePods n) (pods_to_hold blocks inp (nd_name n)) (in_use blocks (nd_name n))
        (startingBlock (owned_by blocks (nd_name n))) (in_now inp) = (ds, rest))"

lemma plan_node_drains:
  "\<exists>ds. pp_drain (plan_node spec blocks inp plan n) = pp_drain plan @ ds \<and> drained_of spec blocks inp n ds"
proof (cases "nd_deleting n \<or> owned_by blocks (nd_name n) = []")
  case True
  then show ?thesis
    by (intro exI[of _ "[]"]) (auto simp: plan_node_def drained_of_def Let_def split: prod.splits sum.splits)
next
  case False
  let ?owned = "owned_by blocks (nd_name n)"
  let ?st = "classify (pp_pool plan) ?owned"
  have fields: "ns_active_blocks ?st = in_use blocks (nd_name n)" "ns_draining ?st = being_drained blocks (nd_name n)"
    "ns_used ?st = (\<Sum>b \<leftarrow> in_use blocks (nd_name n). nb_used b)"
    using classify_lists[of "pp_pool plan" ?owned] by (simp_all add: in_use_def being_drained_def)
  obtain sp ready where cs: "completeSplits plan (ns_releasing ?st) = (plan\<lparr>pp_split := sp\<rparr>, ready)"
    by (simp add: completeSplits_def)
  let ?t = "plan\<lparr>pp_split := sp\<rparr>"
  have grow: "pp_drain (growNode ?t spec node pods c d m act) = pp_drain plan" for node pods c d m act
    using growNode_marks[of ?t] by (simp add: marks_def)
  let ?minAddrs = "push_bit (nat (32 - sp_min_block spec)) 1 :: int"
  obtain ds rest where dl: "drain_loop spec (allocatablePods n) (pods_to_hold blocks inp (nd_name n)) (in_use blocks (nd_name n))
        (startingBlock ?owned) (in_now inp) = (ds, rest)"
    by (cases "drain_loop spec (allocatablePods n) (pods_to_hold blocks inp (nd_name n)) (in_use blocks (nd_name n))
        (startingBlock ?owned) (in_now inp)")
  have shrink: "pp_drain (shrinkNode ?t spec ?owned (allocatablePods n) (ns_used ?st) (in_pods inp (nd_name n))
      (ns_active_blocks ?st) (ns_draining ?st) ?minAddrs (in_now inp)) = pp_drain plan @ ds"
    using dl by (simp add: shrinkNode_def Let_def fields pods_to_hold_def split: prod.splits)
  have none: "drained_of spec blocks inp n []" and some: "drained_of spec blocks inp n ds"
    using dl False by (auto simp: drained_of_def)
  have "pp_drain (plan_node spec blocks inp plan n) \<in> {pp_drain plan, pp_drain plan @ ds}"
    using False grow shrink
    by (simp only: plan_node_def Let_def cs prod.case if_False split: bool.split if_split list.split) simp
  then show ?thesis using none some by (metis append_Nil2 insertE singletonD)
qed

lemma plan_nodes_drain:
  "\<exists>dss. list_all2 (drained_of spec blocks inp) ns dss \<and>
     pp_drain (foldl (plan_node spec blocks inp) plan ns) = pp_drain plan @ concat dss"
proof (induction ns arbitrary: plan)
  case (Cons n ns)
  obtain ds where ds: "pp_drain (plan_node spec blocks inp plan n) = pp_drain plan @ ds" "drained_of spec blocks inp n ds"
    using plan_node_drains by blast
  obtain dss where "list_all2 (drained_of spec blocks inp) ns dss"
    "pp_drain (foldl (plan_node spec blocks inp) (plan_node spec blocks inp plan n) ns) =
       pp_drain (plan_node spec blocks inp plan n) @ concat dss" using Cons.IH by blast
  then show ?case using ds by (intro exI[of _ "ds # dss"]) simp
qed simp

lemma plan_blocks_drain: "pp_drain (plan_blocks spec nds blocks now plan) = pp_drain plan"
  unfolding plan_blocks_def by (induction blocks arbitrary: plan) auto

lemma planPool_drain:
  "\<exists>dss. list_all2 (drained_of spec blocks inp) (sort_by (\<lambda>a b. nd_name a < nd_name b) nds) dss \<and>
     pp_drain (planPool spec nds blocks inp) = concat dss"
proof -
  obtain p pr where b: "buildPool spec nds blocks = (p, pr)" by (cases "buildPool spec nds blocks")
  show ?thesis
    using plan_nodes_drain[of spec blocks inp "sort_by (\<lambda>a b. nd_name a < nd_name b) nds"
        "plan_blocks spec nds blocks (in_now inp) (empty_plan p pr)"] plan_blocks_drain b
    by (simp add: planPool_def Let_def empty_plan_def)
qed

lemma drained_of_spec:
  assumes d: "distinct (map nb_name blocks)" and ds: "drained_of spec blocks inp n ds" and x: "x \<in> set ds"
  shows "\<exists>b \<in> set (in_use blocks (nd_name n)). nb_name b = x \<and> cooled spec (in_now inp) b \<and>
      x \<noteq> startingBlock (owned_by blocks (nd_name n))"
    "(let kept = filter (\<lambda>b. nb_name b \<notin> set ds) (in_use blocks (nd_name n)) in
      kept \<noteq> [] \<and> keeps_enough spec (usableAddresses (initialBlockSize spec (allocatablePods n)))
        (pods_to_hold blocks inp (nd_name n)) (blocksCapacity kept))"
    "\<not> nd_deleting n"
proof -
  obtain rest where dl: "drain_loop spec (allocatablePods n) (pods_to_hold blocks inp (nd_name n)) (in_use blocks (nd_name n))
        (startingBlock (owned_by blocks (nd_name n))) (in_now inp) = (ds, rest)"
    using ds x by (auto simp: drained_of_def)
  have dist: "distinct (map nb_name (in_use blocks (nd_name n)))"
    using d by (simp add: in_use_def owned_by_def distinct_map_filter)
  note sp = drain_loop_spec[OF dist dl]
  show "\<exists>b \<in> set (in_use blocks (nd_name n)). nb_name b = x \<and> cooled spec (in_now inp) b \<and>
      x \<noteq> startingBlock (owned_by blocks (nd_name n))" using sp x by blast
  have "in_use blocks (nd_name n) \<noteq> []" using sp x by (metis empty_iff list.set(1))
  then show "(let kept = filter (\<lambda>b. nb_name b \<notin> set ds) (in_use blocks (nd_name n)) in
      kept \<noteq> [] \<and> keeps_enough spec (usableAddresses (initialBlockSize spec (allocatablePods n)))
        (pods_to_hold blocks inp (nd_name n)) (blocksCapacity kept))"
    using sp x by (auto simp: Let_def)
  show "\<not> nd_deleting n" using ds x by (auto simp: drained_of_def)
qed

lemma in_use_node: "b \<in> set (in_use blocks m) \<Longrightarrow> b \<in> set blocks \<and> nb_node b = m"
  by (simp add: in_use_def owned_by_def)

text \<open>
  C22. Every block the planner drains is an active block, past its cooldown, of a node that is not being
  deleted, and not the node's starting block. With all drained blocks of that node gone, the node still
  has a block, at least the capacity of its first block, does not need to grow, and its pods fill at most
  the shrink threshold of what is left.
\<close>

theorem planPool_drain_safe:
  assumes "distinct (map nb_name blocks)" "distinct (map nd_name nds)"
    "planPool spec nds blocks inp = plan" "x \<in> set (pp_drain plan)"
  shows "\<exists>n \<in> set nds. \<not> nd_deleting n \<and>
    (\<exists>b \<in> set (in_use blocks (nd_name n)). nb_name b = x \<and> cooled spec (in_now inp) b \<and>
       x \<noteq> startingBlock (owned_by blocks (nd_name n))) \<and>
    (let kept = filter (\<lambda>b. nb_name b \<notin> set (pp_drain plan)) (in_use blocks (nd_name n));
         capacity = blocksCapacity kept; demand = pods_to_hold blocks inp (nd_name n)
     in kept \<noteq> [] \<and> usableAddresses (initialBlockSize spec (allocatablePods n)) \<le> capacity \<and>
        demand * 100 \<le> sp_shrink spec * capacity \<and> \<not> needsGrowth spec capacity demand)"
proof -
  let ?ns = "sort_by (\<lambda>a b. nd_name a < nd_name b) nds"
  obtain dss where dss: "list_all2 (drained_of spec blocks inp) ?ns dss" "pp_drain plan = concat dss"
    using planPool_drain assms(3) by blast
  obtain i where i: "i < length dss" "x \<in> set (dss ! i)" using assms(4) dss(2) in_set_conv_nth[of _ dss] by auto
  have len: "length dss = length ?ns" using list_all2_lengthD[OF dss(1)] by (rule sym)
  have ok: "drained_of spec blocks inp (?ns ! j) (dss ! j)" if "j < length dss" for j
    using dss(1) that len by (simp add: list_all2_conv_all_nth)
  let ?n = "?ns ! i"
  have n: "?n \<in> set nds" using i(1) len nth_mem[of i ?ns] by simp
  have dn: "distinct (map nd_name ?ns)"
    using assms(2) by (simp add: distinct_map)
  have "filter (\<lambda>b. nb_name b \<notin> set (dss ! i)) (in_use blocks (nd_name ?n)) =
      filter (\<lambda>b. nb_name b \<notin> set (pp_drain plan)) (in_use blocks (nd_name ?n))"
  proof (intro filter_cong refl iffI notI)
    fix b assume b: "b \<in> set (in_use blocks (nd_name ?n))" "nb_name b \<notin> set (dss ! i)" "nb_name b \<in> set (pp_drain plan)"
    then obtain j where j: "j < length dss" "nb_name b \<in> set (dss ! j)" using dss(2) in_set_conv_nth[of _ dss] by auto
    obtain c where c: "c \<in> set (in_use blocks (nd_name (?ns ! j)))" "nb_name c = nb_name b"
      using drained_of_spec(1)[OF assms(1) ok[OF j(1)] j(2)] by blast
    have "b = c" using in_use_node[OF b(1)] in_use_node[OF c(1)] c(2) assms(1) by (auto simp: distinct_map inj_on_def)
    then have "nd_name (?ns ! j) = nd_name ?n" using in_use_node[OF b(1)] in_use_node[OF c(1)] by simp
    then have "map nd_name ?ns ! j = map nd_name ?ns ! i" using i(1) j(1) len by simp
    then have "j = i" using nth_eq_iff_index_eq[OF dn, of j i] i(1) j(1) len by simp
    then show False using b(2) j(2) by simp
  qed (use i dss(2) in auto)
  then show ?thesis
    using drained_of_spec[OF assms(1) ok[OF i(1)] i(2)] n by (auto simp: Let_def keeps_enough_def intro!: bexI[of _ ?n])
qed

theorem planPool_drain_safe_witness:
  "pp_drain (planPool demo_spec [demo_node ''n1'' 110] demo_active (demo_input 5)) = [''b2'']"
proof -
  let ?plan = "planPool demo_spec [demo_node ''n1'' 110] demo_active (demo_input 5)"
  have r: "pp_drain ?plan = [''b2'']" by code_simp
  have "distinct (map nb_name demo_active)" "distinct (map nd_name [demo_node ''n1'' 110])"
    by (simp_all add: demo_active_def demo_block_def)
  from planPool_drain_safe[OF this refl, of "''b2''" demo_spec "demo_input 5"] r show ?thesis by simp
qed

subsection \<open>Deleted and quarantined blocks\<close>

lemma shrinkNode_rest:
  "pp_delete (shrinkNode plan spec owned pods u podCount act dr minAddrs now) = pp_delete plan \<and>
   pp_quarantine (shrinkNode plan spec owned pods u podCount act dr minAddrs now) = pp_quarantine plan"
  by (simp add: shrinkNode_def Let_def split: prod.splits)

lemma plan_node_rest:
  "pp_delete (plan_node spec blocks inp plan n) = pp_delete plan \<and>
   pp_quarantine (plan_node spec blocks inp plan n) = pp_quarantine plan"
proof (cases "nd_deleting n \<or> owned_by blocks (nd_name n) = []")
  case True
  then show ?thesis by (auto simp: plan_node_def Let_def split: prod.splits sum.splits)
next
  case False
  let ?st = "classify (pp_pool plan) (owned_by blocks (nd_name n))"
  obtain sp ready where cs: "completeSplits plan (ns_releasing ?st) = (plan\<lparr>pp_split := sp\<rparr>, ready)"
    by (simp add: completeSplits_def)
  let ?t = "plan\<lparr>pp_split := sp\<rparr>"
  have grow: "pp_delete (growNode ?t spec node pods c d m act) = pp_delete plan \<and>
      pp_quarantine (growNode ?t spec node pods c d m act) = pp_quarantine plan" for node pods c d m act
    using growNode_marks[of ?t] by (simp add: marks_def)
  show ?thesis
    using False grow shrinkNode_rest
    by (simp only: plan_node_def Let_def cs prod.case if_False split: bool.split if_split list.split) simp
qed

lemma plan_nodes_rest:
  "pp_delete (foldl (plan_node spec blocks inp) plan ns) = pp_delete plan \<and>
   pp_quarantine (foldl (plan_node spec blocks inp) plan ns) = pp_quarantine plan"
  using plan_node_rest by (induction ns arbitrary: plan) simp_all

definition expired :: "pool_spec \<Rightarrow> go_time \<Rightarrow> node_block \<Rightarrow> bool" where
  "expired spec now b \<longleftrightarrow> blockPhase b = NodeBlockQuarantined \<and> sp_quarantine spec * second \<le> now - transitionTime b"

definition orphaned :: "node list \<Rightarrow> node_block \<Rightarrow> bool" where
  "orphaned nds b \<longleftrightarrow> blockPhase b \<noteq> NodeBlockReleased \<and> blockPhase b \<noteq> NodeBlockQuarantined \<and>
     nb_node b \<notin> set (map nd_name nds)"

lemma plan_blocks_lists:
  "pp_delete (plan_blocks spec nds blocks now plan) = pp_delete plan @ map nb_name (filter (expired spec now) blocks) \<and>
   pp_quarantine (plan_blocks spec nds blocks now plan) = pp_quarantine plan @ map nb_name (filter (orphaned nds) blocks)"
  unfolding plan_blocks_def
  by (induction blocks arbitrary: plan) (auto simp: expired_def orphaned_def)

text \<open>
  C32. The planner deletes exactly the quarantined blocks whose rest is over and quarantines exactly the
  blocks, not yet quarantined or released, of nodes that no longer exist; both in name order, once each.
\<close>

theorem planPool_lifecycle:
  "pp_delete (planPool spec nds blocks inp) = sort (map nb_name (filter (expired spec (in_now inp)) blocks)) \<and>
   pp_quarantine (planPool spec nds blocks inp) = sort (map nb_name (filter (orphaned nds) blocks))"
proof -
  obtain p pr where b: "buildPool spec nds blocks = (p, pr)" by (cases "buildPool spec nds blocks")
  show ?thesis
    using plan_nodes_rest plan_blocks_lists[of spec nds blocks "in_now inp"] b
    by (simp add: planPool_def Let_def sort_by_less)
qed

end
