(* ===== verification/Plan_Examples.thy ===== *)
theory Plan_Examples
  imports Shrink_Props
begin

text \<open>
  Two concrete plans that show where the planner does not do what its comments promise, and the witnesses
  of the planner's theorems that need a whole plan to be evaluated.
\<close>

definition grow_plan :: "int \<Rightarrow> pool_plan" where
  "grow_plan pods = planPool demo_spec [demo_node ''n1'' pods] [demo_block ''b1'' ''n1'' ''10.0.0.0/27'' 20]
     (demo_input (if pods < 40 then 38 else 36))"

text \<open>
  When a grow stops because the capacity cap leaves no room for a second piece, the early return
  skips \<open>plan.Pending = true\<close> although a first piece was planned: the node gets a new block, which is
  not yet active, and the plan says that none is pending.
\<close>

lemma growNode_drops_pending:
  "map pb_cidr (pp_new (grow_plan 38)) = [''10.0.0.32/28''] \<and> \<not> pp_pending (grow_plan 38)"
proof
  show "map pb_cidr (pp_new (grow_plan 38)) = [''10.0.0.32/28'']" by code_simp
  show "\<not> pp_pending (grow_plan 38)" by code_simp
qed

lemma grow_plan_50: "map pb_cidr (pp_new (grow_plan 50)) = [''10.0.0.32/27'']"
  by code_simp

text \<open>
  The capacity cap can be exceeded: a piece that completes a block with its buddy costs no overhead
  of its own, which \<open>growthNeed\<close> does not foresee. A node with 50 pods and cap 60 that owns a /27 is given
  the other /27 and then has 61 usable addresses.
\<close>

lemma capacity_cap_exceeded:
  "map pb_cidr (pp_new (grow_plan 50)) = [''10.0.0.32/27''] \<and> capacityCap demo_spec 50 = 60 \<and>
   capacityOf (''10.0.0.0/27'' # map pb_cidr (pp_new (grow_plan 50))) = 61"
proof -
  note n = grow_plan_50
  have "capacityCap demo_spec 50 = 60" "capacityOf [''10.0.0.0/27'', ''10.0.0.32/27''] = 61" by code_simp+
  then show ?thesis using n by simp
qed

theorem planPool_new_disjoint_witness:
  "map pb_cidr (pp_new (grow_plan 50)) = [''10.0.0.32/27''] \<and>
   cidr_span ''10.0.0.32/27'' \<inter> cidr_span ''10.0.0.0/27'' = {}"
proof -
  let ?nds = "[demo_node ''n1'' 50]" and ?b = "demo_block ''b1'' ''n1'' ''10.0.0.0/27'' 20"
  note n = grow_plan_50
  obtain p pr where b: "buildPool demo_spec ?nds [?b] = (p, pr)" by (cases "buildPool demo_spec ?nds [?b]")
  have "snd (buildPool demo_spec ?nds [?b]) = []" by code_simp
  then have pr: "pr = []" using b by simp
  have "blockPhase ?b = NodeBlockActive" by code_simp
  then have "placed pr ?b" by (simp add: placed_def pr)
  moreover obtain x where x: "pp_new (grow_plan 50) = [x]" "pb_cidr x = ''10.0.0.32/27''" using n by auto
  moreover have "nb_cidr ?b = ''10.0.0.0/27''" by (simp add: demo_block_def)
  moreover have "planPool demo_spec ?nds [?b] (demo_input 36) = grow_plan 50" by (simp add: grow_plan_def)
  ultimately show ?thesis using planPool_new_disjoint[OF _ _ b, of "demo_input 36" "grow_plan 50"] n by simp
qed

theorem planPool_new_valid_witness:
  "\<exists>n. pp_new (grow_plan 50) = [n] \<and> cidr_span (pb_cidr n) \<subseteq> cidr_span ''10.0.0.0/24''"
proof -
  obtain n where n: "pp_new (grow_plan 50) = [n]" using grow_plan_50 by auto
  have p: "planPool demo_spec [demo_node ''n1'' 50] [demo_block ''b1'' ''n1'' ''10.0.0.0/27'' 20] (demo_input 36) = grow_plan 50"
    by (simp add: grow_plan_def)
  have "cidr_span (pb_cidr n) \<subseteq> cidr_span ''10.0.0.0/24''"
    using planPool_new_valid[OF _ p, of n] n by simp
  then show ?thesis using n by blast
qed

end
