(* ===== verification/Controller_Examples.thy ===== *)
theory Controller_Examples
  imports Controller_Props Plan_Examples
begin

text \<open>Controller passes against the concrete server, and a pass that gives away addresses already in use.\<close>

definition demo_ippool :: ippool where
  "demo_ippool = \<lparr>ip_name = ''pool'', ip_created = 1, ip_spec = demo_spec,
     ip_status = \<lparr>pst_total = 0, pst_allocated = 0, pst_free = 0, pst_phase = [], pst_message = JoinedProblems [],
        pst_cidrs = [], pst_allocations = [], pst_reconciled = None\<rparr>\<rparr>"

definition demo_kube :: "node list \<Rightarrow> server kube" where
  "demo_kube nds = \<lparr>
     a_get = a_get server_api, a_list = a_list server_api, a_create = a_create server_api,
     a_update = a_update server_api, a_update_status = a_update_status server_api, a_delete = a_delete server_api,
     a_now = (\<lambda>_. 1000 * second), a_pools = (\<lambda>s. (s, Inr [demo_ippool])),
     a_get_pool = (\<lambda>s n. (s, if n = ''pool'' then Inr demo_ippool else Inl NotFound)),
     a_update_pool_status = (\<lambda>s p. (s, None)), a_nodes = (\<lambda>s. (s, Inr nds)), a_pods = (\<lambda>s. (s, Inr [])),
     a_events = (\<lambda>s. (s, Inr [])), a_retry = (\<lambda>f x. f x)\<rparr>"

lemma demo_kube_laws: "kube_laws (demo_kube nds) sv_store"
  using server_api_laws by (simp add: kube_laws_def api_laws_def demo_kube_def)

lemma demo_withDefaults: "withDefaults demo_spec = demo_spec"
  by (simp add: demo_spec_def withDefaults_def def_value_def)

definition two_nodes :: "node list" where
  "two_nodes = [demo_node ''n1'' 110, demo_node ''n2'' 110]"

text \<open>The first create takes effect although its answer is lost, so the pass stops there; the next one goes on.\<close>

definition after_lost :: server where
  "after_lost = fst (reconcile (demo_kube two_nodes) \<lparr>sv_blocks = [], sv_faults = [Works, Unanswered ApiFailed]\<rparr> ''pool'')"


definition orphan_server :: server where
  "orphan_server = \<lparr>sv_blocks = [(demo_block ''10-0-0-0-27'' ''n1'' ''10.0.0.0/27'' 20)\<lparr>nb_pool := ''old''\<rparr>], sv_faults = []\<rparr>"

text \<open>
  Blocks of a deleted IPPool stay in the cluster on purpose, but the pass of another pool does not
  see them, because it only reads blocks with its own name: with a pool of the same CIDR under a new name,
  the addresses of a node's live block are given to another node.
\<close>

lemma reconcile_ignores_other_pools:
  "map (\<lambda>b. (nb_node b, nb_cidr b)) (sv_blocks (fst (reconcile (demo_kube [demo_node ''n2'' 220]) orphan_server ''pool''))) =
     [(''n1'', ''10.0.0.0/27''), (''n2'', ''10.0.0.0/26'')] \<and>
   cidr_span ''10.0.0.0/27'' \<subseteq> cidr_span ''10.0.0.0/26''"
proof
  show "map (\<lambda>b. (nb_node b, nb_cidr b)) (sv_blocks (fst (reconcile (demo_kube [demo_node ''n2'' 220]) orphan_server ''pool''))) =
     [(''n1'', ''10.0.0.0/27''), (''n2'', ''10.0.0.0/26'')]" by code_simp
  have "parse_cidr ''10.0.0.0/27'' = Some (167772160, \<lparr>net_ip = 167772160, net_ones = 27\<rparr>)"
    "parse_cidr ''10.0.0.0/26'' = Some (167772160, \<lparr>net_ip = 167772160, net_ones = 26\<rparr>)" by code_simp+
  then show "cidr_span ''10.0.0.0/27'' \<subseteq> cidr_span ''10.0.0.0/26''"
    by (auto simp: cidr_span_def span_def addresses_def)
qed

theorem buildPool_rebuilds_witness:
  "pool_live (fst (buildPool demo_spec [] demo_active)) = recorded demo_active \<and> recorded demo_active \<noteq> {}"
proof -
  have p: "parse_cidr ''10.0.0.0/27'' = Some (167772160, \<lparr>net_ip = 167772160, net_ones = 27\<rparr>)"
    "parse_cidr ''10.0.0.64/26'' = Some (167772224, \<lparr>net_ip = 167772224, net_ones = 26\<rparr>)" by code_simp+
  have d: "distinct demo_active" by (simp add: demo_active_def demo_block_def)
  have a: "apart_blocks demo_active"
    using p by (auto simp: apart_blocks_def pairwise_def demo_active_def demo_block_def cidr_span_def span_def addresses_def)
  have "map (ref_of \<circ> al_root) (pl_allocators (fst (buildPool demo_spec [] []))) = [(167772160, 24)]" by code_simp
  then have "(167772160, 24) \<in> pool_ranges demo_spec []" unfolding pool_ranges_def roots_def by simp
  moreover have "cidr_span ''10.0.0.0/27'' \<subseteq> span 167772160 24" "cidr_span ''10.0.0.64/26'' \<subseteq> span 167772160 24"
    using p by (auto simp: cidr_span_def span_def addresses_def)
  ultimately have f: "\<forall>b \<in> set demo_active. fits (pool_ranges demo_spec []) b"
    using p by (force simp: fits_def demo_active_def demo_block_def)
  have "blockPhase (demo_block ''b1'' ''n1'' ''10.0.0.0/27'' 3) \<noteq> NodeBlockReleased" by (simp add: blockPhase_def demo_block_def)
  then have "recorded demo_active \<noteq> {}" by (auto simp: recorded_def demo_active_def)
  then show ?thesis using buildPool_rebuilds[OF _ d a f] by simp
qed

end
