(* ===== verification/Agent_World.thy ===== *)
theory Agent_World
  imports Agent_Config
begin

text \<open>
  A concrete host for the examples: an API server that may fail by script, a cache that may be stale, a few files, a
  routing table that behaves like the kernel's and refuses one destination, and lease files.
\<close>

record world =
  w_server :: server
  w_cache :: "node_block list"
  w_nodes :: "cluster_node list"
  w_pods :: "agent_pod list"
  w_files :: "(string \<times> string) list"
  w_leases :: "string list"
  w_routes :: "route list"
  w_refused :: string
  w_clock :: go_time
  w_rules :: string

definition w_store :: "world \<Rightarrow> store" where
  "w_store w = sv_store (w_server w)"

definition w_file :: "world \<Rightarrow> files" where
  "w_file w = map_of (w_files w)"

definition w_table :: "world \<Rightarrow> route set" where
  "w_table w = set (w_routes w)"

definition temp_name :: "world \<Rightarrow> string" where
  "temp_name w = replicate (Suc (sum_list (map (length \<circ> fst) (w_files w)))) (CHR ''x'') @ ''.tmp''"

text \<open>A lease is old unless the last digit of its address is 9.\<close>

definition lease_time :: "string \<Rightarrow> go_time" where
  "lease_time p = (if last p = CHR ''9'' then 999 * second else 0)"

text \<open>\<open>up_to_date\<close>: the lists come from the server itself, otherwise from the cache.\<close>

definition world_host :: "bool \<Rightarrow> world host" where
  "world_host up_to_date = \<lparr>
     a_get = (\<lambda>w n. (w, sv_find (w_server w) n)),
     a_list = (\<lambda>w. case a_list server_api (w_server w) of (s, r) \<Rightarrow> (w\<lparr>w_server := s\<rparr>, r)),
     a_create = (\<lambda>w b. case a_create server_api (w_server w) b of (s, r) \<Rightarrow> (w\<lparr>w_server := s\<rparr>, r)),
     a_update = (\<lambda>w b. case a_update server_api (w_server w) b of (s, r) \<Rightarrow> (w\<lparr>w_server := s\<rparr>, r)),
     a_update_status = (\<lambda>w b. case a_update_status server_api (w_server w) b of (s, r) \<Rightarrow> (w\<lparr>w_server := s\<rparr>, r)),
     a_delete = (\<lambda>w b. case a_delete server_api (w_server w) b of (s, r) \<Rightarrow> (w\<lparr>w_server := s\<rparr>, r)),
     h_now = w_clock,
     h_nodes = (\<lambda>w. (w, Inr (w_nodes w))),
     h_blocks = (\<lambda>w. (w, Inr (if up_to_date
        then filter (\<lambda>b. w_store w (nb_name b) = Some b) (remdups (sv_blocks (w_server w))) else w_cache w))),
     h_pods = (\<lambda>w n. (w, Inr (w_pods w))),
     h_retry = (\<lambda>f w. case f w of (w', e) \<Rightarrow> if e = Some ApiConflict then f w' else (w', e)),
     h_managed = (\<lambda>w. (w, Inr (w_routes w))),
     h_replace = (\<lambda>w r. if rt_dst r = w_refused w then (w, Some SysFailed)
        else (w\<lparr>w_routes := filter (\<lambda>q. rt_dst q \<noteq> rt_dst r) (w_routes w) @ [r]\<rparr>, None)),
     h_delete = (\<lambda>w r. if r \<in> set (w_routes w) then (w\<lparr>w_routes := filter (\<lambda>q. q \<noteq> r) (w_routes w)\<rparr>, None)
        else (w, Some SysFailed)),
     h_read_file = (\<lambda>w p. (w, case w_file w p of None \<Rightarrow> Inl NotExist | Some d \<Rightarrow> Inr d)),
     h_mkdir_all = (\<lambda>w d. (w, None)),
     h_create_temp = (\<lambda>w d. (w\<lparr>w_files := AList.update (temp_name w) [] (w_files w)\<rparr>, Inr (temp_name w))),
     h_write = (\<lambda>w t d. (w\<lparr>w_files := AList.update t d (w_files w)\<rparr>, None)),
     h_close = (\<lambda>w t. (w, None)),
     h_chmod = (\<lambda>w t. (w, None)),
     h_rename = (\<lambda>w t p. case w_file w t of None \<Rightarrow> (w, Some NotExist)
        | Some d \<Rightarrow> (w\<lparr>w_files := AList.delete t (AList.update p d (w_files w))\<rparr>, None)),
     h_remove = (\<lambda>w p. (w\<lparr>w_files := AList.delete p (w_files w),
        w_leases := filter (\<lambda>l. join_path ''/leases'' l \<noteq> p) (w_leases w)\<rparr>, None)),
     h_read_dir = (\<lambda>w d. (w, if d = ''/leases'' then Inr (w_leases w) else Inl NotExist)),
     h_mod_time = (\<lambda>w p. (w, if p \<in> join_path ''/leases'' ` set (w_leases w) then Some (lease_time p) else None)),
     h_run = (\<lambda>w ws. (w, True, w_rules w))\<rparr>"

lemma temp_name_fresh: "w_file w (temp_name w) = None"
proof -
  have "length p \<le> sum_list (map (length \<circ> fst) (w_files w))" if "(p, d) \<in> set (w_files w)" for p d
    using that member_le_sum_list[of "length p" "map (length \<circ> fst) (w_files w)"] by force
  then have "(temp_name w, d) \<notin> set (w_files w)" for d
    by (fastforce simp: temp_name_def)
  then show ?thesis by (auto simp: w_file_def map_of_eq_None_iff image_iff)
qed

lemma world_files: "file_laws (world_host u) w_file"
  using temp_name_fresh
  by (auto simp: file_laws_def world_host_def keeps_def temp_law_def write_law_at_def w_file_def AList.update_conv'
      AList.delete_conv' temp_name_def suffix_def split: option.splits)

lemma world_routes: "route_laws (world_host u) w_table"
  by (auto simp: route_laws_def world_host_def replace_law_def w_table_def)

lemma world_frames: "host_frames (world_host u) w_store w_file w_table"
  by (simp add: host_frames_def world_host_def keeps_def w_store_def w_file_def w_table_def split: prod.splits option.splits)

lemma world_retry: "retry_law (world_host u)"
  unfolding retry_law_def
proof (intro allI)
  fix f :: "world \<Rightarrow> world \<times> api_error option" and w :: world
  obtain w' e where f: "f w = (w', e)" by (cases "f w")
  show "retried f w (h_retry (world_host u) f w)"
  proof (cases "e = Some ApiConflict")
    case True
    then show ?thesis using retried_again[of f w w' "f w'"] retried_last[of f w'] f by (simp add: world_host_def)
  next
    case False
    then show ?thesis using retried_last[of f w] f by (simp add: world_host_def)
  qed
qed

lemma world_api: "api_laws (world_host u) w_store"
proof -
  have lift: "write_law w_store (\<lambda>w b. case op (w_server w) b of (s, r) \<Rightarrow> (w\<lparr>w_server := s\<rparr>, r)) eff"
    if "write_law sv_store op eff" for op eff
    using that unfolding write_law_def by (auto simp: w_store_def split: prod.splits sum.splits) blast+
  note wr = api_writes[OF server_api_laws]
  have "\<forall>w n w' r. a_get (world_host u) w n = (w', r) \<longrightarrow>
      w_store w' = w_store w \<and> (\<forall>b. r = Inr b \<longrightarrow> w_store w n = Some b \<and> nb_name b = n)"
    using sv_store_name by (auto simp: world_host_def w_store_def sv_find_Inr)
  moreover have "\<forall>w w' r. a_list (world_host u) w = (w', r) \<longrightarrow> w_store w' = w_store w \<and>
        (\<forall>bs. r = Inr bs \<longrightarrow> distinct (map nb_name bs) \<and> (\<forall>b. b \<in> set bs \<longleftrightarrow> w_store w (nb_name b) = Some b))"
    using server_list by (auto simp: world_host_def w_store_def split: prod.splits)
  moreover have "\<forall>w b w' r. a_delete (world_host u) w b = (w', r) \<longrightarrow>
      w_store w' = w_store w \<and> r \<noteq> None \<or> w_store w' = (w_store w)(nb_name b := None)"
    using server_delete by (auto simp: world_host_def w_store_def split: prod.splits)
  moreover have "write_law w_store (a_create (world_host u)) creates" "write_law w_store (a_update (world_host u)) updates"
    "write_law w_store (a_update_status (world_host u)) updates_status"
    using lift[OF wr(1)] lift[OF wr(2)] lift[OF wr(3)] by (simp_all add: world_host_def)
  ultimately show ?thesis unfolding api_laws_def by (intro conjI)
qed

lemma world_laws: "host_laws (world_host u) w_store w_file w_table"
proof -
  have "\<forall>w n w'. a_get (world_host u) w n = (w', Inl NotFound) \<longrightarrow> w_store w n = None"
    by (auto simp: world_host_def w_store_def sv_find_def split: option.splits)
  then show ?thesis
    unfolding host_laws_def using world_api world_retry world_files world_routes world_frames by (intro conjI)
qed

lemma world_fresh: "fresh_cache (world_host True) w_store"
  unfolding fresh_cache_def
proof (intro allI impI)
  fix w w' bs assume "h_blocks (world_host True) w = (w', Inr bs)"
  then have bs: "bs = filter (\<lambda>b. w_store w (nb_name b) = Some b) (remdups (sv_blocks (w_server w)))" by (auto simp: world_host_def)
  have "b = c" if "b \<in> set bs" "c \<in> set bs" "nb_name b = nb_name c" for b c using that unfolding bs by force
  then have "inj_on nb_name (set bs)" by (rule inj_onI)
  then have "distinct (map nb_name bs)" unfolding distinct_map by (simp add: bs)
  moreover have "b \<in> set bs \<longleftrightarrow> w_store w (nb_name b) = Some b" for b
    using sv_store_name[of "w_server w" "nb_name b" b] by (auto simp: bs w_store_def)
  moreover have "w_store w n = Some b \<Longrightarrow> nb_name b = n" for n b using sv_store_name by (auto simp: w_store_def)
  ultimately show "distinct (map nb_name bs) \<and> (\<forall>b. b \<in> set bs \<longleftrightarrow> w_store w (nb_name b) = Some b) \<and>
      (\<forall>n b. w_store w n = Some b \<longrightarrow> nb_name b = n)" by blast
qed

end
