(* ===== verification/Agent_Leases.thy ===== *)
theory Agent_Leases
  imports Agent_Pass
begin

text \<open>Leases and masquerade rules: what is counted, what is removed, how a rule line is read.\<close>

subsection \<open>Which block a lease belongs to\<close>

lemma lease_net_span: "parse_cidr c = Some (ip, n) \<Longrightarrow> net_contains n x \<longleftrightarrow> unat x \<in> cidr_span c"
  using parse_cidr_bounds[of c ip n] net_contains_iff[of "net_ones n" "net_ip n" x]
  by (cases n) (auto simp: cidr_span_def span_def addresses_def)

lemma lease_nets_ok:
  "lease_nets cs = Inr ns \<Longrightarrow> (\<forall>c \<in> set cs. parse_cidr c \<noteq> None) \<and> distinct (map fst ns) \<and>
     (\<forall>c n. (c, n) \<in> set ns \<longleftrightarrow> c \<in> set cs \<and> (\<exists>ip. parse_cidr c = Some (ip, n)))"
proof (induction cs arbitrary: ns rule: rev_induct)
  case (snoc c cs)
  obtain ns0 where b: "lease_nets cs = Inr ns0"
    using snoc.prems by (cases "lease_nets cs") (auto simp: lease_nets_def)
  then obtain ip n where c: "parse_cidr c = Some (ip, n)" "ns = AList.update c n ns0"
    using snoc.prems by (auto simp: lease_nets_def split: option.splits)
  note I = snoc.IH[OF b]
  have d: "distinct (map fst ns)" using I by (simp add: c(2) distinct_update)
  have "map_of ns = (map_of ns0)(c \<mapsto> n)" by (simp add: c(2) update_conv')
  then have "(d, m) \<in> set ns \<longleftrightarrow> (if d = c then m = n else (d, m) \<in> set ns0)" for d m
    using map_of_eq_Some_iff[OF d] map_of_eq_Some_iff[of ns0 d m] I by (metis fun_upd_apply option.inject)
  then show ?case using I c(1) d by auto
qed (simp add: lease_nets_def)

lemma lease_nets_err: "lease_nets cs = Inl e \<Longrightarrow> \<exists>c \<in> set cs. parse_cidr c = None \<and> e = InvalidCIDR c"
proof (induction cs arbitrary: e rule: rev_induct)
  case (snoc c cs)
  then show ?case by (cases "lease_nets cs") (auto simp: lease_nets_def split: option.splits)
qed (simp add: lease_nets_def)

definition apart_cidrs :: "string list \<Rightarrow> bool" where
  "apart_cidrs cs \<longleftrightarrow> (\<forall>c \<in> set cs. \<forall>d \<in> set cs. c \<noteq> d \<longrightarrow> cidr_span c \<inter> cidr_span d = {})"

lemma net_of_Some: "lease_nets cs = Inr ns \<Longrightarrow> net_of ns x = Some c \<Longrightarrow> c \<in> set cs \<and> unat x \<in> cidr_span c"
  using lease_nets_ok[of cs ns] by (auto simp: net_of_def find_Some_iff in_set_conv_nth lease_net_span dest!: lease_net_span)
    (metis lease_net_span nth_mem)+

lemma net_of_None: "lease_nets cs = Inr ns \<Longrightarrow> net_of ns x = None \<Longrightarrow> c \<in> set cs \<Longrightarrow> unat x \<notin> cidr_span c"
  using lease_nets_ok[of cs ns] by (fastforce simp: net_of_def find_None_iff lease_net_span)

definition lease_in :: "string \<Rightarrow> string \<Rightarrow> bool" where
  "lease_in c name \<longleftrightarrow> (case parse_ip name of None \<Rightarrow> False | Some x \<Rightarrow> unat x \<in> cidr_span c)"

lemma count_entries:
  assumes ns: "lease_nets cs = Inr ns" and ap: "apart_cidrs cs"
  shows "foldl (count_entry ns) counts entries c =
    counts c + (if c \<in> set cs then int (length (filter (lease_in c) entries)) else 0)"
proof (induction entries arbitrary: counts)
  case (Cons e es)
  have "count_entry ns counts e c = counts c + (if c \<in> set cs \<and> lease_in c e then 1 else 0)"
  proof (cases "parse_ip e")
    case (Some x)
    show ?thesis
    proof (cases "net_of ns x")
      case None
      then show ?thesis using Some net_of_None[OF ns None] by (auto simp: count_entry_def lease_in_def)
    next
      case (Some d)
      note d = net_of_Some[OF ns this]
      have "c \<in> set cs \<and> unat x \<in> cidr_span c \<longleftrightarrow> c = d" using d ap by (auto simp: apart_cidrs_def)
      then show ?thesis using Some \<open>parse_ip e = Some x\<close> by (auto simp: count_entry_def lease_in_def)
    qed
  qed (simp add: count_entry_def lease_in_def)
  then show ?case using Cons.IH[of "count_entry ns counts e"] by auto
qed simp

text \<open>
  Lease counting is exact: for disjoint blocks, every block gets the number of files whose name is one of its
  addresses, and nothing else is counted. It fails exactly when a block is malformed or the directory
  cannot be read; a missing directory counts as empty.
\<close>

lemma countLeases_exact:
  assumes "apart_cidrs cs" "h_read_dir H s dir = (s', entries)"
  shows "countLeases H s dir cs =
    (if list_all (\<lambda>c. parse_cidr c \<noteq> None) cs
     then (s', case entries of
         Inr es \<Rightarrow> Inr (\<lambda>c. if c \<in> set cs then int (length (filter (lease_in c) es)) else 0)
       | Inl e \<Rightarrow> if e = NotExist then Inr (\<lambda>_. 0) else Inl (ReadLeases e))
     else (s, Inl (InvalidCIDR (the (find (\<lambda>c. parse_cidr c = None) cs)))))"
proof (cases "lease_nets cs")
  case (Inr ns)
  then have "list_all (\<lambda>c. parse_cidr c \<noteq> None) cs" using lease_nets_ok[OF Inr] by (simp add: list_all_iff)
  then show ?thesis using assms(2) Inr count_entries[OF Inr assms(1), of "\<lambda>_. 0"]
    by (auto simp: countLeases_def fun_eq_iff split: sum.splits)
next
  case (Inl e)
  have stop: "foldl (\<lambda>acc c. case acc of Inl e \<Rightarrow> Inl e
        | Inr ns \<Rightarrow> (case parse_cidr c of None \<Rightarrow> Inl (InvalidCIDR c) | Some (_, n) \<Rightarrow> Inr (AList.update c n ns))) (Inl e) ds = Inl e"
    for e ds by (induction ds) auto
  have "foldl (\<lambda>acc c. case acc of Inl e \<Rightarrow> Inl e
        | Inr ns \<Rightarrow> (case parse_cidr c of None \<Rightarrow> Inl (InvalidCIDR c) | Some (_, n) \<Rightarrow> Inr (AList.update c n ns))) (Inr ns) ds = Inl e \<Longrightarrow>
      \<not> list_all (\<lambda>c. parse_cidr c \<noteq> None) ds \<and> e = InvalidCIDR (the (find (\<lambda>c. parse_cidr c = None) ds))" for ns ds
    by (induction ds arbitrary: ns) (auto simp: stop split: option.splits)
  then have "\<not> list_all (\<lambda>c. parse_cidr c \<noteq> None) cs \<and> e = InvalidCIDR (the (find (\<lambda>c. parse_cidr c = None) cs))"
    using Inl unfolding lease_nets_def by blast
  then show ?thesis using Inl by (simp add: countLeases_def)
qed

subsection \<open>Reclaiming\<close>

lemma reclaim_entries:
  assumes laws: "host_laws H st fl tb" and ns: "lease_nets cs = Inr ns"
    and mt: "\<And>s s' p t. h_mod_time H s p = (s', Some t) \<Longrightarrow> t = mt p"
    and r: "foldl (reclaim_entry H dir ns ips age now) (s, out, err) es = (s', out', err')" and q: "fl s' q \<noteq> fl s q"
  shows "fl s' q = None \<and> (\<exists>name c. name \<in> set es \<and> q = join_path dir name \<and> name \<notin> set ips \<and> c \<in> set cs \<and> lease_in c name \<and>
    age \<le> now - mt q)"
  using r q
proof (induction es arbitrary: s out err)
  case (Cons e es)
  obtain s1 out1 err1 where e: "reclaim_entry H dir ns ips age now (s, out, err) e = (s1, out1, err1)"
    by (cases "reclaim_entry H dir ns ips age now (s, out, err) e")
  then have f: "foldl (reclaim_entry H dir ns ips age now) (s1, out1, err1) es = (s', out', err')" using Cons.prems(1) by simp
  show ?case
  proof (cases "fl s1 q = fl s q")
    case True
    then show ?thesis using Cons.IH[OF f] Cons.prems(2) by auto
  next
    case False
    obtain s2 t where m: "h_mod_time H s (join_path dir e) = (s2, t)" by (cases "h_mod_time H s (join_path dir e)")
    obtain s3 x where d: "h_remove H s2 (join_path dir e) = (s3, x)" by (cases "h_remove H s2 (join_path dir e)")
    have "fl s2 = fl s" using frame_fl(7)[OF laws, of s "join_path dir e"] m by simp
    then have "\<exists>ip c. parse_ip e = Some ip \<and> e \<notin> set ips \<and> (\<exists>u. t = Some u \<and> \<not> now - u < age) \<and> net_of ns ip = Some c \<and> s1 = s3 \<and> x = None"
      using False e m d removeD(3)[OF laws d] by (auto simp: reclaim_entry_def split: option.splits if_splits)
    then obtain ip c u where g: "parse_ip e = Some ip" "e \<notin> set ips" "t = Some u" "\<not> now - u < age" "net_of ns ip = Some c" "s1 = s3" "x = None"
      by blast
    have q': "q = join_path dir e" "fl s1 q = None"
      using removeD(3)[OF laws d] g(6,7) False \<open>fl s2 = fl s\<close> by (auto split: if_splits)
    have "fl s' q = None"
    proof (rule ccontr)
      assume "fl s' q \<noteq> None"
      then have "fl s' q \<noteq> fl s1 q" using q'(2) by simp
      then show False using Cons.IH[OF f] \<open>fl s' q \<noteq> None\<close> by blast
    qed
    moreover have "c \<in> set cs" "lease_in c e" using net_of_Some[OF ns g(5)] g(1) by (auto simp: lease_in_def)
    moreover have "u = mt q" using mt[of s "join_path dir e" s2 u] m g(3) q'(1) by simp
    ultimately show ?thesis using q'(1) g(2,4) by auto
  qed
qed simp

text \<open>
  Reclaiming only ever removes files, and only lease files in the agent's directory for an address of the given
  blocks that no pod of this node holds and that are at least as old as required.
\<close>

lemma reclaimLeases_safe:
  assumes "host_laws H st fl tb" "\<And>s s' p t. h_mod_time H s p = (s', Some t) \<Longrightarrow> t = mt p"
    "reclaimLeases H s dir cs ips age now = (s', out, err)" "fl s' q \<noteq> fl s q"
  shows "fl s' q = None \<and> (\<exists>name c. q = join_path dir name \<and> name \<notin> set ips \<and> c \<in> set cs \<and> lease_in c name \<and> age \<le> now - mt q)"
proof -
  obtain ns where ns: "lease_nets cs = Inr ns" using assms(3,4) by (cases "lease_nets cs") (auto simp: reclaimLeases_def)
  obtain s1 r where d: "h_read_dir H s dir = (s1, r)" by (cases "h_read_dir H s dir")
  have s1: "fl s1 = fl s" using frame_fl(6)[OF assms(1), of s dir] d by simp
  then obtain es where es: "r = Inr es" using assms(3,4) ns d by (cases r) (auto simp: reclaimLeases_def)
  have f: "foldl (reclaim_entry H dir ns ips age now) (s1, \<lambda>_. 0, None) es = (s', out, err)"
    using assms(3) ns d es by (simp add: reclaimLeases_def)
  have "fl s' q = None \<and> (\<exists>name c. name \<in> set es \<and> q = join_path dir name \<and> name \<notin> set ips \<and> c \<in> set cs \<and>
      lease_in c name \<and> age \<le> now - mt q)"
    by (rule reclaim_entries[OF assms(1) ns _ f]) (use assms(2,4) s1 in auto)
  then show ?thesis by blast
qed

subsection \<open>Rule lines\<close>

text \<open>How iptables prints a word: as it is, or in quotes with escapes.\<close>

definition plain_char :: "char \<Rightarrow> bool" where
  "plain_char c \<longleftrightarrow> c \<noteq> CHR 0x5C \<and> c \<noteq> CHR 0x22 \<and> c \<noteq> CHR '' ''"

definition quote_word :: "string \<Rightarrow> string" where
  "quote_word w = [CHR 0x22] @ concat (map (\<lambda>c. if c = CHR 0x5C \<or> c = CHR 0x22 then [CHR 0x5C, c] else [c]) w) @ [CHR 0x22]"

definition prints :: "string \<Rightarrow> string \<Rightarrow> bool" where
  "prints w t \<longleftrightarrow> t = quote_word w \<or> (w \<noteq> [] \<and> list_all plain_char w \<and> t = w)"

fun join_words :: "string list \<Rightarrow> string" where
  "join_words [] = []"
| "join_words [t] = t"
| "join_words (t # u # ts) = t @ '' '' @ join_words (u # ts)"

lemma shell_plain:
  "list_all plain_char w \<Longrightarrow> ss_esc st = False \<Longrightarrow> foldl shell_char st w =
     (if w = [] then st else st\<lparr>ss_cur := ss_cur st @ w, ss_have := True\<rparr>)"
  by (induction w arbitrary: st) (auto simp: shell_char_def plain_char_def)

lemma shell_quoted:
  "ss_esc st = False \<Longrightarrow> ss_quoted st \<Longrightarrow> ss_have st \<Longrightarrow>
   foldl shell_char st (concat (map (\<lambda>c. if c = CHR 0x5C \<or> c = CHR 0x22 then [CHR 0x5C, c] else [c]) w)) =
     st\<lparr>ss_cur := ss_cur st @ w\<rparr>"
  by (induction w arbitrary: st) (auto simp: shell_char_def)

definition shell_start :: "string list \<Rightarrow> shell_state" where
  "shell_start out = \<lparr>ss_out = out, ss_cur = [], ss_quoted = False, ss_have = False, ss_esc = False\<rparr>"

lemma shell_word:
  assumes "prints w t"
  shows "foldl shell_char (shell_start out) t = (shell_start out)\<lparr>ss_cur := w, ss_have := True\<rparr>"
proof (cases "t = quote_word w")
  case True
  have o: "shell_char (shell_start out) (CHR 0x22) = (shell_start out)\<lparr>ss_quoted := True, ss_have := True\<rparr>"
    by (simp add: shell_char_def shell_start_def)
  let ?st = "(shell_start out)\<lparr>ss_quoted := True, ss_have := True\<rparr>"
  have "foldl shell_char ?st (concat (map (\<lambda>c. if c = CHR 0x5C \<or> c = CHR 0x22 then [CHR 0x5C, c] else [c]) w)) = ?st\<lparr>ss_cur := w\<rparr>"
    by (subst shell_quoted) (simp_all add: shell_start_def)
  moreover have "shell_char (?st\<lparr>ss_cur := w\<rparr>) (CHR 0x22) = (shell_start out)\<lparr>ss_cur := w, ss_have := True\<rparr>"
    by (simp add: shell_char_def shell_start_def)
  ultimately show ?thesis unfolding True quote_word_def by (simp only: foldl_append foldl.simps o)
next
  case False
  then have "w \<noteq> []" "list_all plain_char w" "t = w" using assms by (auto simp: prints_def)
  then show ?thesis using shell_plain[of w "shell_start out"] by (simp add: shell_start_def)
qed

lemma shell_words:
  "list_all2 prints ws ts \<Longrightarrow> ws \<noteq> [] \<Longrightarrow>
   foldl shell_char (shell_start out) (join_words ts) = (shell_start (out @ butlast ws))\<lparr>ss_cur := last ws, ss_have := True\<rparr>"
proof (induction ts arbitrary: ws out rule: join_words.induct)
  case (2 t)
  then show ?case using shell_word by (auto simp: list_all2_Cons2)
next
  case (3 t u ts)
  obtain w ws' where ws: "ws = w # ws'" "prints w t" "list_all2 prints ws' (u # ts)" using 3(2) by (auto simp: list_all2_Cons2)
  have ne: "ws' \<noteq> []" using ws(3) by auto
  have "shell_char ((shell_start out)\<lparr>ss_cur := w, ss_have := True\<rparr>) (CHR '' '') = shell_start (out @ [w])"
    by (simp add: shell_char_def shell_start_def)
  then show ?case using shell_word[OF ws(2)] 3(1)[OF ws(3) ne, of "out @ [w]"] ws(1) ne by simp
qed simp

text \<open>
  Reading a rule line back gives the words that were printed, whether each was printed as it is or in quotes
  with escapes, empty words included.
\<close>

lemma splitShell_roundtrip:
  assumes "list_all2 prints ws ts"
  shows "splitShell (join_words ts) = ws"
proof (cases "ws = []")
  case True
  then show ?thesis using assms by (simp add: splitShell_def)
next
  case False
  then have "splitShell (join_words ts) = butlast ws @ [last ws]"
    using shell_words[OF assms False, of "[]"] unfolding splitShell_def Let_def shell_start_def[symmetric] by (simp add: shell_start_def)
  then show ?thesis using False by simp
qed

end
