(* ===== verification/Agent_Examples.thy ===== *)
theory Agent_Examples
  imports Agent_World Agent_Leases
begin

text \<open>Passes of an agent on the concrete host: the instances of its properties, and two passes that go wrong.\<close>

definition ex_node :: "string \<Rightarrow> string \<Rightarrow> cluster_node" where
  "ex_node name ip = \<lparr>nd_name = name, nd_deleting = False, nd_pods = None,
     nd_addresses = [(''InternalIP'', ip)], nd_conditions = [(''Ready'', ''True'')]\<rparr>"

definition ex_block :: "string \<Rightarrow> string \<Rightarrow> string \<Rightarrow> block_phase \<Rightarrow> bool \<Rightarrow> node_block" where
  "ex_block name node cidr ph dr = \<lparr>nb_name = name, nb_created = 0, nb_node = node, nb_pool = ''pool'', nb_cidr = cidr,
     nb_drain = dr, nb_initial = False, nb_release = [], nb_phase = ph, nb_used = 0, nb_half_usage = [],
     nb_release_ready = [], nb_reclaimed = 0, nb_acked = [''n2''], nb_transition = Some 0\<rparr>"

definition ex_agent :: agent where
  "ex_agent = \<lparr>ag_node = ''n1'', ag_conf_path = ''/cni/conf'', ag_net = ''buddy'', ag_lease_dir = ''/leases'',
     ag_data_dir = ''/data'', ag_promote_timeout = 30 * second, ag_nat = False, ag_nat_every = 0, ag_reclaim = True,
     ag_leak_min_age = 600 * second, ag_drain_settle = 10 * second, ag_last_nat = 0, ag_releasing = (\<lambda>_. None)\<rparr>"

definition ex_world :: "node_block list \<Rightarrow> world" where
  "ex_world bs = \<lparr>w_server = \<lparr>sv_blocks = bs, sv_faults = []\<rparr>, w_cache = [],
     w_nodes = [ex_node ''n1'' ''192.168.0.1'', ex_node ''n2'' ''192.168.0.2''], w_pods = [], w_files = [], w_leases = [],
     w_routes = [], w_refused = [], w_clock = 1000 * second, w_rules = []\<rparr>"

definition ex_pass :: world where
  "ex_pass = ex_world [ex_block ''b1'' ''n1'' ''10.0.0.0/27'' NodeBlockPending False,
     ex_block ''b2'' ''n2'' ''10.0.0.32/27'' NodeBlockActive False, ex_block ''b3'' ''n1'' ''10.0.0.64/27'' NodeBlockActive True]"

definition ex_stale :: world where
  "ex_stale = (ex_world [ex_block ''b3'' ''n1'' ''10.0.0.64/27'' NodeBlockDraining True])
     \<lparr>w_cache := [ex_block ''b3'' ''n1'' ''10.0.0.64/27'' NodeBlockActive False]\<rparr>"

text \<open>One pass: the pending block is taken up, the draining one withdrawn, the other node's block gets its route.\<close>

definition ex_after :: world where
  "ex_after = fst (fst (sync (world_host True) (ex_pass, ex_agent)))"

lemma ex_pass_eval:
  "(case sync (world_host True) (ex_pass, ex_agent) of ((w, a), errs) \<Rightarrow>
      (map (\<lambda>b. (nb_name b, nb_node b, nb_phase b, nb_drain b)) (sv_blocks (w_server w)), w_routes w,
       w_files w = [(''/cni/conf'', json_text 0 (conflist_json (conflist_for ''buddy'' ''/data'' [''10.0.0.0/27''])))], errs)) =
   ([(''b1'', ''n1'', NodeBlockActive, False), (''b2'', ''n2'', NodeBlockActive, False), (''b3'', ''n1'', NodeBlockDraining, True)],
    [Route ''10.0.0.32/27'' ''192.168.0.2''], True, [])"
  by code_simp

lemma ex_after_props:
  obtains a b1 b3 where "sync (world_host True) (ex_pass, ex_agent) = ((ex_after, a), [])"
    "w_store ex_after ''b1'' = Some b1" "nb_name b1 = ''b1''" "nb_node b1 = ''n1''" "nb_phase b1 = NodeBlockActive" "\<not> nb_drain b1"
    "w_store ex_after ''b3'' = Some b3" "nb_phase b3 = NodeBlockDraining"
    "w_table ex_after = {Route ''10.0.0.32/27'' ''192.168.0.2''}"
proof -
  obtain w a e where r: "sync (world_host True) (ex_pass, ex_agent) = ((w, a), e)"
    by (cases "sync (world_host True) (ex_pass, ex_agent)") auto
  have w: "w = ex_after" using r by (simp add: ex_after_def)
  obtain b1 b2 b3 where "sv_blocks (w_server w) = [b1, b2, b3]" "nb_name b1 = ''b1''" "nb_node b1 = ''n1''" "nb_phase b1 = NodeBlockActive"
      "\<not> nb_drain b1" "nb_name b2 = ''b2''" "nb_name b3 = ''b3''" "nb_phase b3 = NodeBlockDraining"
      "w_routes w = [Route ''10.0.0.32/27'' ''192.168.0.2'']" "e = []"
    using ex_pass_eval unfolding r by (auto simp: map_eq_Cons_conv)
  then show ?thesis using that[of a b1 b3] r w by (simp add: w_store_def sv_store_def w_table_def)
qed

lemma ex_agent_paths: "\<not> suffix ''.tmp'' (ag_conf_path ex_agent)" "\<not> prefix (ag_lease_dir ex_agent @ ''/'') (ag_conf_path ex_agent)"
  by (simp_all add: ex_agent_def suffix_def)

lemma ex_owned: "ex_block ''b1'' ''n1'' ''10.0.0.0/27'' NodeBlockPending False \<in> owned (w_store ex_pass) (ag_node ex_agent)"
  "ex_block ''b3'' ''n1'' ''10.0.0.64/27'' NodeBlockActive True \<in> owned (w_store ex_pass) (ag_node ex_agent)"
  by (simp_all add: owned_def w_store_def sv_store_def ex_pass_def ex_world_def ex_block_def ex_agent_def)

theorem sync_lifecycle_witness:
  "rel_option phase_move\<^sup>*\<^sup>* (w_store ex_pass ''b3'') (w_store ex_after ''b3'') \<and> map_option nb_phase (w_store ex_after ''b3'') = Some NodeBlockDraining"
proof (rule ex_after_props)
  fix a b1 b3 assume r: "sync (world_host True) (ex_pass, ex_agent) = ((ex_after, a), [])"
    and b: "w_store ex_after ''b3'' = Some b3" "nb_phase b3 = NodeBlockDraining"
  show ?thesis using conjunct1[OF sync_lifecycle[OF world_laws ex_agent_paths r], rule_format, of "''b3''"] b by simp
qed




subsection \<open>Routes\<close>

text \<open>Two routes of the other node have become one, because its second block is the buddy of the first.\<close>

definition ex_merge :: world where
  "ex_merge = (ex_world [ex_block ''b4'' ''n2'' ''10.0.0.32/28'' NodeBlockActive False, ex_block ''b5'' ''n2'' ''10.0.0.48/28'' NodeBlockActive False])
     \<lparr>w_routes := [Route ''10.0.0.32/28'' ''192.168.0.2'', Route ''10.0.0.48/28'' ''192.168.0.2'']\<rparr>"

abbreviation ex_blocks :: "node_block list" where
  "ex_blocks \<equiv> sv_blocks (w_server ex_merge)"

lemma ex_desired: "desiredRoutes ''n1'' (w_nodes ex_merge) ex_blocks = ([Route ''10.0.0.32/27'' ''192.168.0.2''], [])"
  by code_simp

theorem desiredRoutes_exact_witness:
  "(\<exists>r \<in> set [Route ''10.0.0.32/27'' ''192.168.0.2'']. 167772200 \<in> cidr_span (rt_dst r) \<and> rt_gateway r = ''192.168.0.2'')"
proof -
  let ?b = "ex_block ''b4'' ''n2'' ''10.0.0.32/28'' NodeBlockActive False"
  have p: "parse_cidr ''10.0.0.32/28'' = Some (167772192, \<lparr>net_ip = 167772192, net_ones = 28\<rparr>)" by code_simp
  have r: "set (routed_blocks ''n1'' ex_blocks) = {?b, ex_block ''b5'' ''n2'' ''10.0.0.48/28'' NodeBlockActive False}"
    by (auto simp: routed_blocks_def ex_merge_def ex_world_def ex_block_def routable_def)
  have g: "node_ips (w_nodes ex_merge) ''n2'' = ''192.168.0.2''" "parse_cidr ''10.0.0.48/28'' \<noteq> None" by code_simp+
  have "167772200 \<in> cidr_span (nb_cidr ?b)" "nb_node ?b = ''n2''" using p by (simp_all add: ex_block_def cidr_span_def span_def addresses_def)
  moreover have "\<forall>c \<in> set (routed_blocks ''n1'' ex_blocks). parse_cidr (nb_cidr c) \<noteq> None"
    unfolding r using p g(2) by (simp add: ex_block_def)
  ultimately show ?thesis
    using conjunct1[OF desiredRoutes_exact[OF ex_desired], rule_format, of 167772200 "''192.168.0.2''"] r g(1) by auto
qed


text \<open>
  When an installation fails the pass goes on to the removals, so the addresses of a block can end up without any
  route although both the old and the new routes would have carried them.
\<close>

lemma failed_install_leaves_gap:
  "desiredRoutes ''n1'' (w_nodes ex_merge) ex_blocks = ([Route ''10.0.0.32/27'' ''192.168.0.2''], []) \<and>
   route_covers (w_table ex_merge) 167772200 \<and>
   w_table (fst (syncRoutes (world_host True) ex_agent (ex_merge\<lparr>w_refused := ''10.0.0.32/27''\<rparr>) (w_nodes ex_merge) ex_blocks)) = {}"
proof (intro conjI)
  have "parse_cidr ''10.0.0.32/28'' = Some (167772192, \<lparr>net_ip = 167772192, net_ones = 28\<rparr>)" by code_simp
  then show "route_covers (w_table ex_merge) 167772200"
    by (simp add: route_covers_def w_table_def ex_merge_def cidr_span_def span_def addresses_def)
  show "w_table (fst (syncRoutes (world_host True) ex_agent (ex_merge\<lparr>w_refused := ''10.0.0.32/27''\<rparr>) (w_nodes ex_merge) ex_blocks)) = {}"
    using ex_desired by (simp add: syncRoutes_def ex_agent_def install_step_def remove_step_def world_host_def ex_merge_def ex_world_def w_table_def)
qed (rule ex_desired)

subsection \<open>A stale cache\<close>

text \<open>
  The phase of a block is decided on its fresh copy, but the configuration is written from the cache. With a cache
  that has missed the drain request, one pass quarantines a block, so that its addresses go back to the pool,
  and leaves it in the CNI configuration, from which pods still get addresses.
\<close>

lemma quarantined_while_served:
  "(case sync (world_host False) (ex_stale, ex_agent) of ((w, a), errs) \<Rightarrow>
      (map (\<lambda>b. (nb_cidr b, nb_phase b)) (sv_blocks (w_server w)),
       w_files w = [(''/cni/conf'', json_text 0 (conflist_json (conflist_for ''buddy'' ''/data'' [''10.0.0.64/27''])))], errs)) =
   ([(''10.0.0.64/27'', NodeBlockQuarantined)], True, [])"
  by code_simp

subsection \<open>Leases\<close>

definition ex_leases :: world where
  "ex_leases = ex_merge\<lparr>w_leases := [''10.0.0.33'', ''10.0.0.34'', ''10.0.0.39''],
     w_files := [(''/leases/10.0.0.33'', []), (''/leases/10.0.0.34'', []), (''/leases/10.0.0.39'', [])]\<rparr>"

end
