(* ===== verification/Cluster_Examples.thy ===== *)
theory Cluster_Examples
  imports Cluster Controller_Examples Agent_Examples
begin

text \<open>A run of the controller and an agent on the concrete host.\<close>

definition world_kube :: "world kube" where
  "world_kube = \<lparr>
     a_get = a_get (world_host True), a_list = a_list (world_host True), a_create = a_create (world_host True),
     a_update = a_update (world_host True), a_update_status = a_update_status (world_host True), a_delete = a_delete (world_host True),
     a_now = w_clock, a_pools = (\<lambda>s. (s, Inr [demo_ippool])),
     a_get_pool = (\<lambda>s n. (s, if n = ''pool'' then Inr demo_ippool else Inl NotFound)),
     a_update_pool_status = (\<lambda>s p. (s, None)), a_nodes = (\<lambda>s. (s, Inr two_nodes)), a_pods = (\<lambda>s. (s, Inr [])),
     a_events = (\<lambda>s. (s, Inr [])), a_retry = (\<lambda>f x. f x)\<rparr>"

lemma world_kube_laws: "kube_laws world_kube w_store"
  using world_api[of True] by (simp add: kube_laws_def api_laws_def world_kube_def)

definition after_controller :: world where
  "after_controller = fst (reconcile world_kube (ex_world []) ''pool'')"

definition after_agent :: world where
  "after_agent = fst (fst (sync (world_host True) (after_controller, ex_agent)))"


end
