(* ===== verification/Kube_Objects.thy ===== *)
theory Kube_Objects
  imports Kube_Api
begin

text \<open>
  The cluster objects that the health controllers and the remediation modules read and write, and the API server as
  they use it. Of core/v1 and discovery/v1 objects only the fields that the code reads or writes are modelled. An
  annotation with JSON text is its decoded value, or the fact that it does not decode. The operations are parameters
  on an abstract state, as in \<^verbatim>\<open>Kube_Api\<close>. What the theorems rely on is only what the code itself does: a journal,
  a ghost that no code reads, records every write that a controller asks for with whether it was reported to work
  (\<open>silent\<close>, \<open>logged\<close>). The journal says nothing of what the server stores or other writers do in between.
\<close>

record container_status =
  cs_ready :: bool
  cs_restarts :: int
  cs_waiting :: "string option"

record pod =
  pd_ns :: string
  pd_name :: string
  pd_uid :: string
  pd_node :: string
  pd_ip :: string
  pd_phase :: string
  pd_created :: go_time
  pd_labels :: "string \<rightharpoonup> string"
  pd_owners :: "(string \<times> string) list"
  pd_mirror :: bool
  pd_gates :: "string list"
  pd_conditions :: "(string \<times> string) list"
  pd_containers :: "container_status list"
  pd_networks :: "(string \<times> string list) list option"

datatype taint = Taint (tn_key: string) (tn_value: string) (tn_effect: string)

record endpoint =
  ep_addresses :: "string list"
  ep_node :: "string option"
  ep_ready :: "bool option"

record slice =
  sl_ns :: string
  sl_name :: string
  sl_labels :: "string \<rightharpoonup> string"
  sl_type :: string
  sl_ports :: "(string \<times> int) list"
  sl_endpoints :: "endpoint list"

text \<open>The options of a \<open>List\<close> call.\<close>

record list_options =
  lo_ns :: "string option"
  lo_node :: "string option"
  lo_labels :: "(string \<times> string) list"

definition everything :: list_options where
  "everything = \<lparr>lo_ns = None, lo_node = None, lo_labels = []\<rparr>"

definition has_labels :: "(string \<times> string) list \<Rightarrow> (string \<rightharpoonup> string) \<Rightarrow> bool" where
  "has_labels ls m \<longleftrightarrow> list_all (\<lambda>(k, v). m k = Some v) ls"

definition pod_matches :: "list_options \<Rightarrow> pod \<Rightarrow> bool" where
  "pod_matches opt p \<longleftrightarrow> (case lo_ns opt of None \<Rightarrow> True | Some n \<Rightarrow> pd_ns p = n) \<and>
     (case lo_node opt of None \<Rightarrow> True | Some n \<Rightarrow> pd_node p = n) \<and> has_labels (lo_labels opt) (pd_labels p)"

text \<open>A Go map lookup without a check: a missing key reads as the empty string.\<close>

definition label_of :: "(string \<rightharpoonup> string) \<Rightarrow> string \<Rightarrow> string" where
  "label_of m k = (case m k of None \<Rightarrow> [] | Some v \<Rightarrow> v)"

subsection \<open>The journal of writes\<close>

definition silent :: "('c \<Rightarrow> 'w list) \<Rightarrow> ('c \<Rightarrow> 'a \<Rightarrow> 'c \<times> 'r) \<Rightarrow> bool" where
  "silent jn op \<longleftrightarrow> (\<forall>s x. jn (fst (op s x)) = jn s)"

definition logged :: "('c \<Rightarrow> ('w \<times> bool) list) \<Rightarrow> ('c \<Rightarrow> 'a \<Rightarrow> 'c \<times> api_error option) \<Rightarrow> ('a \<Rightarrow> 'w) \<Rightarrow> bool" where
  "logged jn op w \<longleftrightarrow> (\<forall>s x. jn (fst (op s x)) = jn s @ [(w x, snd (op s x) = None)])"

lemma silentD: "silent jn op \<Longrightarrow> op s x = (s', r) \<Longrightarrow> jn s' = jn s"
  by (metis silent_def fst_conv)

lemma loggedD: "logged jn op w \<Longrightarrow> op s x = (s', r) \<Longrightarrow> jn s' = jn s @ [(w x, r = None)]"
  by (metis logged_def fst_conv snd_conv)

text \<open>What a computation wrote.\<close>

definition new_writes :: "('c \<Rightarrow> 'w list) \<Rightarrow> 'c \<Rightarrow> 'c \<Rightarrow> 'w list" where
  "new_writes jn s s' = drop (length (jn s)) (jn s')"

text \<open>\<open>adds jn P s s'\<close>: the journal only grew, and every new entry satisfies \<open>P\<close>.\<close>

definition adds :: "('c \<Rightarrow> 'w list) \<Rightarrow> ('w \<Rightarrow> bool) \<Rightarrow> 'c \<Rightarrow> 'c \<Rightarrow> bool" where
  "adds jn P s s' \<longleftrightarrow> (\<exists>ws. jn s' = jn s @ ws \<and> list_all P ws)"

lemma adds_refl [intro, simp]: "adds jn P s s"
  by (simp add: adds_def)

lemma adds_same: "jn s' = jn s \<Longrightarrow> adds jn P s s'"
  by (simp add: adds_def)

lemma adds_one: "jn s' = jn s @ [w] \<Longrightarrow> P w \<Longrightarrow> adds jn P s s'"
  by (simp add: adds_def)

lemma adds_trans [trans]: "adds jn P s s' \<Longrightarrow> adds jn P s' s'' \<Longrightarrow> adds jn P s s''"
  by (auto simp: adds_def)

lemma adds_mono: "adds jn P s s' \<Longrightarrow> (\<And>w. P w \<Longrightarrow> Q w) \<Longrightarrow> adds jn Q s s'"
  by (fastforce simp: adds_def list_all_iff)

lemma adds_written: "adds jn P s s' \<longleftrightarrow> take (length (jn s)) (jn s') = jn s \<and> list_all P (new_writes jn s s')"
  unfolding adds_def new_writes_def by (metis append_eq_conv_conj append_take_drop_id)

lemma adds_foldl:
  assumes "\<And>x y. x \<in> set xs \<Longrightarrow> adds jn P (g y) (g (f y x))"
  shows "adds jn P (g y) (g (foldl f y xs))"
  using assms
proof (induction xs arbitrary: y)
  case (Cons x xs)
  have "adds jn P (g y) (g (f y x))" by (rule Cons.prems) simp
  also have "adds jn P (g (f y x)) (g (foldl f (f y x) xs))" by (rule Cons.IH) (simp add: Cons.prems)
  finally show ?case by simp
qed simp

end
