(* ===== verification/Health.thy ===== *)
theory Health
  imports Kube_Objects
begin

text \<open>
  The verdict on the probe results (cniresilience/healthagent/agent.go), and the pure parts of the probing agent
  (daemon.go): whom it probes in which round, and when a result counts. Go iterates over the reported peers of a node
  in random map order; here they come in the order of the report.
\<close>

subsection \<open>Reports\<close>

record peer_result =
  pr_primary :: bool
  pr_backup :: "bool option"

record report =
  rp_time :: int
  rp_peers :: "(string \<times> peer_result) list"

text \<open>The report annotation of a Node: absent, not the JSON of a report, or a report.\<close>

datatype annotation = NoReport | Malformed | Reported report

record health_node = node +
  nd_taints :: "taint list"
  nd_cordoned :: bool
  nd_report :: annotation

definition heartbeatSeconds :: int where "heartbeatSeconds = 10"

definition silentAfterSeconds :: int where "silentAfterSeconds = 3 * heartbeatSeconds"

subsection \<open>Classification\<close>

datatype edge = Edge (e_from: string) (e_to: string) (e_ok: bool)

record verdict =
  vd_nodes :: "string list"
  vd_links :: "(string \<times> string) list"
  vd_ambiguous :: bool

definition touching :: "edge list \<Rightarrow> string \<Rightarrow> edge list \<times> edge list" where
  "touching edges n = (filter (\<lambda>e. e_to e = n) edges, filter (\<lambda>e. e_from e = n) edges)"

definition allFailed :: "edge list \<Rightarrow> bool" where
  "allFailed es \<longleftrightarrow> \<not> list_ex e_ok es"

definition otherWorks :: "edge list \<Rightarrow> string \<Rightarrow> bool" where
  "otherWorks edges n \<longleftrightarrow> list_ex (\<lambda>e. e_ok e \<and> e_from e \<noteq> n \<and> e_to e \<noteq> n) edges"

definition seenWorking :: "edge list \<Rightarrow> string \<Rightarrow> bool" where
  "seenWorking edges n \<longleftrightarrow> list_ex (\<lambda>e. e_ok e \<and> (e_from e = n \<or> e_to e = n)) edges"

definition proven_broken :: "edge list \<Rightarrow> (string \<Rightarrow> bool) \<Rightarrow> string \<Rightarrow> bool" where
  "proven_broken edges silent_node n =
     (case touching edges n of (ins, outs) \<Rightarrow>
        let failedOut = (outs \<noteq> [] \<and> allFailed outs)
        in ins \<noteq> [] \<and> allFailed ins \<and> (failedOut \<or> silent_node n) \<and> otherWorks edges n)"

definition link_step :: "edge list \<Rightarrow> verdict \<Rightarrow> edge \<Rightarrow> verdict" where
  "link_step edges v e =
     (if e_ok e \<or> e_from e \<in> set (vd_nodes v) \<or> e_to e \<in> set (vd_nodes v) then v
      else if \<not> seenWorking edges (e_from e) \<or> \<not> seenWorking edges (e_to e) then v\<lparr>vd_ambiguous := True\<rparr>
      else (let link = (min (e_from e) (e_to e), max (e_from e) (e_to e))
            in if link \<in> set (vd_links v) then v else v\<lparr>vd_links := vd_links v @ [link]\<rparr>))"

definition classify_probes :: "string list \<Rightarrow> edge list \<Rightarrow> (string \<Rightarrow> bool) \<Rightarrow> verdict" where
  "classify_probes nds edges silent_node =
     foldl (link_step edges)
       \<lparr>vd_nodes = filter (proven_broken edges silent_node) nds, vd_links = [], vd_ambiguous = False\<rparr> edges"

subsection \<open>Health per node\<close>

datatype note_text =
    LinkBroken string string
  | AmbiguousPattern
  | NoAgentReport

record node_health =
  nh_primary :: bool
  nh_ambiguous :: bool
  nh_working :: bool
  nh_backup :: bool
  nh_backup_measured :: bool
  nh_measured :: bool
  nh_note :: "note_text list"

text \<open>What the agents' reports say: silent nodes, primary and backup edges, or the node whose report does not parse.\<close>

definition read_report ::
  "int \<Rightarrow> string + (string \<Rightarrow> bool) \<times> edge list \<times> edge list \<Rightarrow> ('z) health_node_scheme \<Rightarrow>
   string + (string \<Rightarrow> bool) \<times> edge list \<times> edge list" where
  "read_report unix acc n =
     (case acc of
        Inl e \<Rightarrow> Inl e
      | Inr (quiet, primary, backup) \<Rightarrow>
          (case nd_report n of
             NoReport \<Rightarrow> Inr (quiet(nd_name n := True), primary, backup)
           | Malformed \<Rightarrow> Inl (nd_name n)
           | Reported r \<Rightarrow>
               if unix - rp_time r > silentAfterSeconds then Inr (quiet(nd_name n := True), primary, backup)
               else Inr (quiet,
                 primary @ map (\<lambda>(p, res). Edge (nd_name n) p (pr_primary res)) (rp_peers r),
                 backup @ [Edge (nd_name n) p ok. (p, res) \<leftarrow> rp_peers r, Some ok \<leftarrow> [pr_backup res]])))"

definition takesPart :: "edge list \<Rightarrow> string \<Rightarrow> bool" where
  "takesPart edges n \<longleftrightarrow> list_ex (\<lambda>e. e_from e = n \<or> e_to e = n) edges"

definition node_status :: "edge list \<Rightarrow> edge list \<Rightarrow> verdict \<Rightarrow> verdict \<Rightarrow> string \<Rightarrow> node_health" where
  "node_status primary backup pv bv n =
     (let measured = takesPart primary n
      in \<lparr>nh_primary = n \<notin> set (vd_nodes pv), nh_ambiguous = vd_ambiguous pv,
          nh_working = measured \<and> \<not> vd_ambiguous pv \<and>
            \<not> list_ex (\<lambda>e. \<not> e_ok e \<and> (e_from e = n \<or> e_to e = n)) primary,
          nh_backup = n \<notin> set (vd_nodes bv), nh_backup_measured = takesPart backup n, nh_measured = measured,
          nh_note = [LinkBroken a b. (a, b) \<leftarrow> vd_links pv, a = n \<or> b = n] @
            (if vd_ambiguous pv then [AmbiguousPattern] else []) @ (if measured then [] else [NoAgentReport])\<rparr>)"

text \<open>The part of \<open>ReadNodeHealth\<close> after the nodes are listed.\<close>

definition node_healths :: "int \<Rightarrow> ('z) health_node_scheme list \<Rightarrow> string + (string \<times> node_health) list" where
  "node_healths unix nds =
     (case foldl (read_report unix) (Inr (\<lambda>_. False, [], [])) nds of
        Inl e \<Rightarrow> Inl e
      | Inr (quiet, primary, backup) \<Rightarrow>
          (let names = map nd_name nds;
               pv = classify_probes names primary quiet;
               bv = classify_probes names backup quiet
           in Inr (map (\<lambda>n. (n, node_status primary backup pv bv n)) names)))"

subsection \<open>The probing ring\<close>

definition ringOffsets :: "nat \<Rightarrow> nat list" where
  "ringOffsets n = [1..<n div 2 + 1]"

fun index_of :: "'a list \<Rightarrow> 'a \<Rightarrow> nat option" where
  "index_of [] x = None"
| "index_of (y # ys) x = (if y = x then Some 0 else map_option Suc (index_of ys x))"

text \<open>The round number comes from the clock and is never negative.\<close>

definition ringTarget :: "string list \<Rightarrow> string \<Rightarrow> nat \<Rightarrow> string" where
  "ringTarget sortedNodes self round_no =
     (let offsets = ringOffsets (length sortedNodes) in
      case index_of sortedNodes self of
        None \<Rightarrow> []
      | Some i \<Rightarrow>
          if offsets = [] then []
          else sortedNodes ! ((i + offsets ! (round_no mod length offsets)) mod length sortedNodes))"

subsection \<open>Streaks\<close>

record streak =
  sk_healthy :: bool
  sk_run :: int

definition streak_observe :: "int \<Rightarrow> streak \<Rightarrow> bool \<Rightarrow> streak" where
  "streak_observe threshold s ok =
     (if ok = sk_healthy s then s\<lparr>sk_run := 0\<rparr>
      else (let s = s\<lparr>sk_run := sk_run s + 1\<rparr>
            in if sk_run s \<ge> threshold then s\<lparr>sk_healthy := ok, sk_run := 0\<rparr> else s))"

end
