(* ===== verification/Health_Daemon.thy ===== *)
theory Health_Daemon
  imports Health "HOL-Library.AList"
begin

text \<open>
  The probing agent (cniresilience/healthagent/daemon.go). Its surroundings are the record \<open>prober\<close>: the clock, the list
  of the configuration objects and of the agent pods, an HTTP request to a peer, and the write of the report annotation.
  A Go map from peers is an association list; \<open>json.Marshal\<close> prints a map by sorted key, so a report lists
  the peers in that order and two reports have the same text exactly when their lists are equal. The loop around
  \<open>daemon_step\<close> that waits for the next round, and the HTTP server of the peers, are not modelled.
\<close>

text \<open>The settings, as the administrator gives them (api/v1alpha1/cniresilience_types.go).\<close>

record cni_config =
  cg_name :: string
  cg_namespace :: string
  cg_daemonset :: string
  cg_endpoint :: string
  cg_address_space :: string

record resilience_spec =
  rp_primary :: cni_config
  rp_backup :: cni_config
  rp_probe_interval :: int
  rp_probe_timeout :: int
  rp_threshold :: int
  rp_auto_recover :: bool
  rp_auto_failover :: bool

record 'c prober =
  hp_now :: "'c \<Rightarrow> go_time"
  hp_settings :: "'c \<Rightarrow> 'c \<times> (api_error + resilience_spec list)"
  hp_pods :: "'c \<Rightarrow> list_options \<Rightarrow> 'c \<times> (api_error + pod list)"
  hp_get :: "'c \<Rightarrow> string \<Rightarrow> string \<Rightarrow> duration \<Rightarrow> 'c \<times> (int \<times> int) option"
  hp_publish :: "'c \<Rightarrow> string \<times> report \<Rightarrow> 'c \<times> api_error option"

record daemon =
  dm_node :: string
  dm_primary :: "(string \<times> streak) list"
  dm_backup :: "(string \<times> streak) list"
  dm_last_sent :: "(string \<times> peer_result) list option"
  dm_last_time :: go_time

text \<open>The seconds from Go's zero time to the Unix epoch.\<close>

definition unixNano :: "go_time \<Rightarrow> int" where
  "unixNano t = t - 62135596800 * second"

definition unixSeconds :: "go_time \<Rightarrow> int" where
  "unixSeconds t = unixNano t div second"

definition largeBodyBytes :: int where "largeBodyBytes = 1400"

text \<open>One of the two requests: \<open>None\<close> is a request that fails, otherwise the status and the size of the body.\<close>

definition probe_path :: "('c, 'z) prober_scheme \<Rightarrow> string \<Rightarrow> duration \<Rightarrow> 'c \<times> bool \<Rightarrow> string \<Rightarrow> 'c \<times> bool" where
  "probe_path H ip timeout = (\<lambda>(s, ok) path.
     (if \<not> ok then (s, False)
      else (case hp_get H s ip path timeout of
              (s, None) \<Rightarrow> (s, False)
            | (s, Some (status, n)) \<Rightarrow> (s, \<not> (status \<noteq> 200 \<or> (path = ''/large'' \<and> n \<noteq> largeBodyBytes))))))"

definition probe :: "('c, 'z) prober_scheme \<Rightarrow> 'c \<Rightarrow> string \<Rightarrow> duration \<Rightarrow> 'c \<times> bool" where
  "probe H s ip timeout = foldl (probe_path H ip timeout) (s, True) [''/small'', ''/large'']"

definition backupIP :: "pod \<Rightarrow> string" where
  "backupIP p =
     (case pd_networks p of
        None \<Rightarrow> []
      | Some entries \<Rightarrow>
          (case find (\<lambda>(i, ips). i = ''net1'' \<and> ips \<noteq> []) entries of None \<Rightarrow> [] | Some (_, ips) \<Rightarrow> hd ips))"

definition add_peer :: "(string \<times> string \<times> string) list \<Rightarrow> pod \<Rightarrow> (string \<times> string \<times> string) list" where
  "add_peer peers p =
     (if pd_ip p \<noteq> [] \<and> pd_phase p = ''Running'' then AList.update (pd_node p) (pd_ip p, backupIP p) peers else peers)"

definition observed :: "int \<Rightarrow> string \<Rightarrow> bool \<Rightarrow> (string \<times> streak) list \<Rightarrow> (string \<times> streak) list" where
  "observed threshold target ok streaks =
     AList.update target
       (streak_observe threshold
          (case map_of streaks target of None \<Rightarrow> \<lparr>sk_healthy = True, sk_run = 0\<rparr> | Some k \<Rightarrow> k) ok) streaks"

definition report_peers :: "daemon \<Rightarrow> (string \<times> peer_result) list" where
  "report_peers d =
     map (\<lambda>(n, k). (n, \<lparr>pr_primary = sk_healthy k, pr_backup = map_option sk_healthy (map_of (dm_backup d) n)\<rparr>))
       (sort_by (\<lambda>a b. fst a < fst b) (dm_primary d))"

definition publish :: "('c, 'z) prober_scheme \<Rightarrow> 'c \<Rightarrow> daemon \<Rightarrow> ('c \<times> daemon) \<times> api_error option" where
  "publish H s d =
     (let content = report_peers d in
      if dm_last_sent d = Some content \<and> hp_now H s - dm_last_time d < heartbeatSeconds * second then ((s, d), None)
      else (case hp_publish H s (dm_node d, \<lparr>rp_time = unixSeconds (hp_now H s), rp_peers = content\<rparr>) of
              (s, Some e) \<Rightarrow> ((s, d), Some e)
            | (s, None) \<Rightarrow> ((s, d\<lparr>dm_last_sent := Some content, dm_last_time := hp_now H s\<rparr>), None)))"

definition daemon_round ::
  "('c, 'z) prober_scheme \<Rightarrow> 'c \<Rightarrow> daemon \<Rightarrow> duration \<Rightarrow> duration \<Rightarrow> int \<Rightarrow> ('c \<times> daemon) \<times> api_error option" where
  "daemon_round H s d interval timeout threshold =
     (case hp_pods H s (everything\<lparr>lo_labels := [(''app'', ''cni-health-agent'')]\<rparr>) of
        (s, Inl _) \<Rightarrow> publish H s d
      | (s, Inr pods) \<Rightarrow>
          (let peers = foldl add_peer [] pods;
               names = sort_by (<) (map fst peers);
               target = ringTarget names (dm_node d) (nat (unixNano (hp_now H s) div interval))
           in if target = [] then publish H s d
              else (case map_of peers target of
                      None \<Rightarrow> publish H s d
                    | Some (primaryIP, bip) \<Rightarrow>
                        (case probe H s primaryIP timeout of
                           (s, ok) \<Rightarrow>
                             (let d = d\<lparr>dm_primary := observed threshold target ok (dm_primary d)\<rparr> in
                              if bip = [] then publish H s d
                              else (case probe H s bip timeout of
                                      (s, ok) \<Rightarrow> publish H s (d\<lparr>dm_backup := observed threshold target ok (dm_backup d)\<rparr>)))))))"

text \<open>One iteration of \<open>Run\<close>: the settings come from the first configuration object, if there is one.\<close>

definition daemon_step ::
  "('c, 'z) prober_scheme \<Rightarrow> 'c \<times> daemon \<times> (duration \<times> duration \<times> int) \<Rightarrow>
   ('c \<times> daemon \<times> (duration \<times> duration \<times> int)) \<times> api_error option" where
  "daemon_step H = (\<lambda>(s, d, settings).
     (case hp_settings H s of
        (s, r) \<Rightarrow>
          (let settings = (case r of
               Inr (spec # _) \<Rightarrow> (rp_probe_interval spec * second, rp_probe_timeout spec * second, rp_threshold spec)
             | _ \<Rightarrow> settings)
           in case settings of (interval, timeout, threshold) \<Rightarrow>
                (case daemon_round H s d interval timeout threshold of ((s, d), e) \<Rightarrow> ((s, d, settings), e)))))"

end
