(* ===== verification/Failover.thy ===== *)
theory Failover
  imports Health_Daemon
begin

text \<open>
  Moving Service traffic to the backup path (cniresilience/failover/failover.go): readiness gates on pods and shadow
  EndpointSlices. The API server is the record \<open>failover_api\<close>; the hash that names a shadow slice is a parameter of it.
  The maps of failed-over nodes and of backup addresses are lists. The condition that a gate writes is its type
  and status; reason and time are not modelled.
\<close>

record 'c failover_api =
  fo_pods :: "'c \<Rightarrow> list_options \<Rightarrow> 'c \<times> (api_error + pod list)"
  fo_patch_pod :: "'c \<Rightarrow> pod \<Rightarrow> 'c \<times> api_error option"
  fo_slices :: "'c \<Rightarrow> (string \<times> string) list \<Rightarrow> 'c \<times> (api_error + slice list)"
  fo_create_slice :: "'c \<Rightarrow> slice \<Rightarrow> 'c \<times> api_error option"
  fo_get_slice :: "'c \<Rightarrow> string \<times> string \<Rightarrow> 'c \<times> (api_error + slice)"
  fo_update_slice :: "'c \<Rightarrow> slice \<Rightarrow> 'c \<times> api_error option"
  fo_delete_slice :: "'c \<Rightarrow> slice \<Rightarrow> 'c \<times> api_error option"
  fo_digest :: "string \<Rightarrow> string"

datatype failover_error =
    ListPodsFailed api_error
  | NoBackupIPs string
  | ListSlicesFailed api_error
  | GetShadow string api_error
  | ApplyShadow string api_error
  | SetGate string api_error
  | DeleteShadow string api_error

definition readinessGate :: string where "readinessGate = ''cniresilience.cn-operator/primary-path''"

definition shadowLabelKey :: string where "shadowLabelKey = ''cniresilience.cn-operator/shadow''"

definition shadowNodeLabelKey :: string where "shadowNodeLabelKey = ''cniresilience.cn-operator/node''"

definition serviceNameLabel :: string where "serviceNameLabel = ''kubernetes.io/service-name''"

definition managedByLabel :: string where "managedByLabel = ''endpointslice.kubernetes.io/managed-by''"

subsection \<open>Gates\<close>

definition hasGate :: "pod \<Rightarrow> bool" where
  "hasGate p \<longleftrightarrow> readinessGate \<in> set (pd_gates p)"

definition gateCondition :: "pod \<Rightarrow> string option" where
  "gateCondition p = map_option snd (find (\<lambda>c. fst c = readinessGate) (pd_conditions p))"

fun put_condition :: "string \<times> string \<Rightarrow> (string \<times> string) list \<Rightarrow> (string \<times> string) list" where
  "put_condition c [] = [c]"
| "put_condition c (d # ds) = (if fst d = fst c then c # ds else d # put_condition c ds)"

definition with_gate :: "string \<Rightarrow> pod \<Rightarrow> pod" where
  "with_gate status p = p\<lparr>pd_conditions := put_condition (readinessGate, status) (pd_conditions p)\<rparr>"

definition setGate :: "('c, 'z) failover_api_scheme \<Rightarrow> 'c \<Rightarrow> pod \<Rightarrow> string \<Rightarrow> 'c \<times> failover_error option" where
  "setGate F s p status =
     (if gateCondition p = Some status then (s, None)
      else (case fo_patch_pod F s (with_gate status p) of
              (s, Some e) \<Rightarrow> (s, Some (SetGate (pd_name p) e))
            | (s, None) \<Rightarrow> (s, None)))"

text \<open>A loop that sets the gates of the pods that satisfy a condition, and counts them, until an error.\<close>

fun set_gates ::
  "('c, 'z) failover_api_scheme \<Rightarrow> (pod \<Rightarrow> bool) \<Rightarrow> string \<Rightarrow> 'c \<Rightarrow> int \<Rightarrow> pod list \<Rightarrow> 'c \<times> int \<times> failover_error option" where
  "set_gates F sel status s n [] = (s, n, None)"
| "set_gates F sel status s n (p # ps) =
     (if \<not> sel p then set_gates F sel status s n ps
      else (case setGate F s p status of
              (s, Some e) \<Rightarrow> (s, n, Some e)
            | (s, None) \<Rightarrow> set_gates F sel status s (n + 1) ps))"

definition failedOverNodes :: "('c, 'z) failover_api_scheme \<Rightarrow> 'c \<Rightarrow> 'c \<times> (failover_error + string list)" where
  "failedOverNodes F s =
     (case fo_slices F s [(shadowLabelKey, ''true'')] of
        (s, Inl e) \<Rightarrow> (s, Inl (ListSlicesFailed e))
      | (s, Inr shadows) \<Rightarrow> (s, Inr (remdups (map (\<lambda>x. label_of (sl_labels x) shadowNodeLabelKey) shadows))))"

definition ensureGates :: "('c, 'z) failover_api_scheme \<Rightarrow> 'c \<Rightarrow> string list \<Rightarrow> 'c \<times> failover_error option" where
  "ensureGates F s failedOver =
     (case fo_pods F s everything of
        (s, Inl e) \<Rightarrow> (s, Some (ListPodsFailed e))
      | (s, Inr pods) \<Rightarrow>
          (case set_gates F (\<lambda>p. \<not> (\<not> hasGate p \<or> pd_node p \<in> set failedOver \<or> gateCondition p \<noteq> None)) ''True'' s 0 pods of
             (s, _, e) \<Rightarrow> (s, e)))"

definition podsOnNode :: "('c, 'z) failover_api_scheme \<Rightarrow> 'c \<Rightarrow> string \<Rightarrow> 'c \<times> (failover_error + pod list)" where
  "podsOnNode F s n =
     (case fo_pods F s (everything\<lparr>lo_node := Some n\<rparr>) of
        (s, Inl e) \<Rightarrow> (s, Inl (ListPodsFailed e))
      | (s, Inr pods) \<Rightarrow> (s, Inr pods))"

subsection \<open>Shadow slices\<close>

definition shadowName :: "('c, 'z) failover_api_scheme \<Rightarrow> string \<Rightarrow> string \<Rightarrow> string" where
  "shadowName F sliceName n = ''shadow-'' @ fo_digest F (sliceName @ ''/'' @ n)"

definition backup_addresses :: "(string \<times> string) list \<Rightarrow> endpoint \<Rightarrow> string list" where
  "backup_addresses backupIPs ep = [ip. Some ip \<leftarrow> map (map_of backupIPs) (ep_addresses ep)]"

definition shadow_endpoints :: "string \<Rightarrow> (string \<times> string) list \<Rightarrow> endpoint list \<Rightarrow> endpoint list" where
  "shadow_endpoints n backupIPs eps =
     [\<lparr>ep_addresses = backup_addresses backupIPs ep, ep_node = ep_node ep, ep_ready = Some True\<rparr>.
        ep \<leftarrow> eps, ep_node ep = Some n, backup_addresses backupIPs ep \<noteq> []]"

definition shadow_of :: "('c, 'z) failover_api_scheme \<Rightarrow> slice \<Rightarrow> string \<Rightarrow> endpoint list \<Rightarrow> slice" where
  "shadow_of F original n eps =
     \<lparr>sl_ns = sl_ns original, sl_name = shadowName F (sl_name original) n,
      sl_labels = [serviceNameLabel \<mapsto> label_of (sl_labels original) serviceNameLabel,
        managedByLabel \<mapsto> ''cniresilience.cn-operator'', shadowLabelKey \<mapsto> ''true'', shadowNodeLabelKey \<mapsto> n],
      sl_type = sl_type original, sl_ports = sl_ports original, sl_endpoints = eps\<rparr>"

definition applyShadow ::
  "('c, 'z) failover_api_scheme \<Rightarrow> 'c \<Rightarrow> slice \<Rightarrow> string \<Rightarrow> (string \<times> string) list \<Rightarrow> 'c \<times> (failover_error + bool)" where
  "applyShadow F s original n backupIPs =
     (let eps = shadow_endpoints n backupIPs (sl_endpoints original) in
      if eps = [] then (s, Inr False)
      else (let shadow = shadow_of F original n eps in
            case fo_create_slice F s shadow of
              (s, None) \<Rightarrow> (s, Inr True)
            | (s, Some e) \<Rightarrow>
                if e = AlreadyExists
                then (case fo_get_slice F s (sl_ns shadow, sl_name shadow) of
                        (s, Inl e) \<Rightarrow> (s, Inl (GetShadow (sl_name shadow) e))
                      | (s, Inr existing) \<Rightarrow>
                          (case fo_update_slice F s (existing\<lparr>sl_endpoints := eps, sl_ports := sl_ports original\<rparr>) of
                             (s, Some e) \<Rightarrow> (s, Inl (ApplyShadow (sl_name shadow) e))
                           | (s, None) \<Rightarrow> (s, Inr True)))
                else (s, Inl (ApplyShadow (sl_name shadow) e))))"

fun apply_shadows ::
  "('c, 'z) failover_api_scheme \<Rightarrow> string \<Rightarrow> (string \<times> string) list \<Rightarrow> 'c \<Rightarrow> int \<Rightarrow> slice list \<Rightarrow>
   'c \<times> int \<times> failover_error option" where
  "apply_shadows F n backupIPs s written [] = (s, written, None)"
| "apply_shadows F n backupIPs s written (x # xs) =
     (if label_of (sl_labels x) shadowLabelKey = ''true'' then apply_shadows F n backupIPs s written xs
      else (case applyShadow F s x n backupIPs of
              (s, Inl e) \<Rightarrow> (s, written, Some e)
            | (s, Inr wrote) \<Rightarrow> apply_shadows F n backupIPs s (if wrote then written + 1 else written) xs))"

fun delete_shadows :: "('c, 'z) failover_api_scheme \<Rightarrow> 'c \<Rightarrow> slice list \<Rightarrow> 'c \<times> failover_error option" where
  "delete_shadows F s [] = (s, None)"
| "delete_shadows F s (x # xs) =
     (case fo_delete_slice F s x of
        (s, Some e) \<Rightarrow> (s, Some (DeleteShadow (sl_name x) e))
      | (s, None) \<Rightarrow> delete_shadows F s xs)"

definition deleteShadows :: "('c, 'z) failover_api_scheme \<Rightarrow> 'c \<Rightarrow> string \<Rightarrow> 'c \<times> failover_error option" where
  "deleteShadows F s n =
     (case fo_slices F s [(shadowLabelKey, ''true''), (shadowNodeLabelKey, n)] of
        (s, Inl e) \<Rightarrow> (s, Some (ListSlicesFailed e))
      | (s, Inr shadows) \<Rightarrow> delete_shadows F s shadows)"

subsection \<open>Failover, failback, isolation\<close>

definition backup_ips :: "pod list \<Rightarrow> (string \<times> string) list" where
  "backup_ips pods =
     foldl (\<lambda>m p. if backupIP p \<noteq> [] \<and> pd_ip p \<noteq> [] then AList.update (pd_ip p) (backupIP p) m else m) [] pods"

definition failoverNode :: "('c, 'z) failover_api_scheme \<Rightarrow> 'c \<Rightarrow> string \<Rightarrow> 'c \<times> int \<times> failover_error option" where
  "failoverNode F s n =
     (case podsOnNode F s n of
        (s, Inl e) \<Rightarrow> (s, 0, Some e)
      | (s, Inr pods) \<Rightarrow>
          (let backupIPs = backup_ips pods in
           if backupIPs = [] then (s, 0, Some (NoBackupIPs n))
           else (case fo_slices F s [] of
                   (s, Inl e) \<Rightarrow> (s, 0, Some (ListSlicesFailed e))
                 | (s, Inr xs) \<Rightarrow>
                     (case apply_shadows F n backupIPs s 0 xs of
                        (s, written, Some e) \<Rightarrow> (s, written, Some e)
                      | (s, written, None) \<Rightarrow>
                          if written = 0 then (s, 0, None)
                          else (case set_gates F (\<lambda>p. map_of backupIPs (pd_ip p) \<noteq> None \<and> hasGate p) ''False'' s 0 pods of
                                  (s, _, e) \<Rightarrow> (s, written, e))))))"

definition failbackNode :: "('c, 'z) failover_api_scheme \<Rightarrow> 'c \<Rightarrow> string \<Rightarrow> 'c \<times> failover_error option" where
  "failbackNode F s n =
     (case podsOnNode F s n of
        (s, Inl e) \<Rightarrow> (s, Some e)
      | (s, Inr pods) \<Rightarrow>
          (case set_gates F hasGate ''True'' s 0 pods of
             (s, _, Some e) \<Rightarrow> (s, Some e)
           | (s, _, None) \<Rightarrow> deleteShadows F s n))"

definition isolateNode :: "('c, 'z) failover_api_scheme \<Rightarrow> 'c \<Rightarrow> string \<Rightarrow> 'c \<times> int \<times> failover_error option" where
  "isolateNode F s n =
     (case podsOnNode F s n of
        (s, Inl e) \<Rightarrow> (s, 0, Some e)
      | (s, Inr pods) \<Rightarrow>
          (case set_gates F hasGate ''False'' s 0 pods of
             (s, isolated, Some e) \<Rightarrow> (s, isolated, Some e)
           | (s, isolated, None) \<Rightarrow> (case deleteShadows F s n of (s, e) \<Rightarrow> (s, isolated, e))))"

end
