(* ===== verification/Recovery.thy ===== *)
theory Recovery
  imports Failover
begin

text \<open>
  Repairing a node's CNI agent (cniresilience/recovery/recovery.go): the recovery taint, and the restart of the agent
  pod with the wait for its replacement. The wait is a partial function: it polls until the clock passes
  the deadline, and returns only if the clock moves. A cancelled context shows as the answer \<open>True\<close> of a wait.
\<close>

record 'c recovery_api = "'c failover_api" +
  rc_now :: "'c \<Rightarrow> go_time"
  rc_wait :: "'c \<Rightarrow> duration \<Rightarrow> 'c \<times> bool"
  rc_get_node :: "'c \<Rightarrow> string \<Rightarrow> 'c \<times> (api_error + health_node)"
  rc_update_node :: "'c \<Rightarrow> health_node \<Rightarrow> 'c \<times> api_error option"
  rc_delete_pod :: "'c \<Rightarrow> pod \<Rightarrow> 'c \<times> api_error option"

datatype recovery_error =
    GetNodeFailed api_error
  | UpdateTaints api_error
  | ListCNIPods api_error
  | NoCNIPod string
  | DeleteCNIPod string api_error
  | Cancelled
  | ReadyTimeout string

definition recoveryTaintKey :: string where "recoveryTaintKey = ''cniresilience.cn-operator/recovering''"

definition recoveryTaintEffect :: string where "recoveryTaintEffect = ''NoSchedule''"

definition cniPodReadyTimeout :: duration where "cniPodReadyTimeout = 60 * second"

definition is_recovery_taint :: "taint \<Rightarrow> bool" where
  "is_recovery_taint t \<longleftrightarrow> tn_key t = recoveryTaintKey \<and> tn_effect t = recoveryTaintEffect"

definition taintNode :: "('c, 'z) recovery_api_scheme \<Rightarrow> 'c \<Rightarrow> string \<Rightarrow> 'c \<times> (recovery_error + bool)" where
  "taintNode R s n =
     (case rc_get_node R s n of
        (s, Inl e) \<Rightarrow> (s, Inl (GetNodeFailed e))
      | (s, Inr nd) \<Rightarrow>
          if list_ex is_recovery_taint (nd_taints nd) then (s, Inr False)
          else (case rc_update_node R s (nd\<lparr>nd_taints := nd_taints nd @ [Taint recoveryTaintKey [] recoveryTaintEffect]\<rparr>) of
                  (s, Some e) \<Rightarrow> (s, Inl (UpdateTaints e))
                | (s, None) \<Rightarrow> (s, Inr True)))"

definition untaintNode :: "('c, 'z) recovery_api_scheme \<Rightarrow> 'c \<Rightarrow> string \<Rightarrow> 'c \<times> recovery_error option" where
  "untaintNode R s n =
     (case rc_get_node R s n of
        (s, Inl e) \<Rightarrow> (s, Some (GetNodeFailed e))
      | (s, Inr nd) \<Rightarrow>
          (let newTaints = filter (\<lambda>t. \<not> is_recovery_taint t) (nd_taints nd);
               removed = list_ex is_recovery_taint (nd_taints nd)
           in if \<not> removed then (s, None)
              else (case rc_update_node R s (nd\<lparr>nd_taints := newTaints\<rparr>) of
                      (s, Some e) \<Rightarrow> (s, Some (UpdateTaints e))
                    | (s, None) \<Rightarrow> (s, None))))"

subsection \<open>Restarting the agent pod\<close>

definition pod_ready :: "pod \<Rightarrow> bool" where
  "pod_ready p \<longleftrightarrow> (''Ready'', ''True'') \<in> set (pd_conditions p)"

definition ready_replacement :: "string \<Rightarrow> string \<Rightarrow> pod \<Rightarrow> bool" where
  "ready_replacement n uid p \<longleftrightarrow> \<not> (pd_node p \<noteq> n) \<and> \<not> (pd_uid p = uid) \<and> pod_ready p"

partial_function (option) wait_ready ::
  "('c, 'z) recovery_api_scheme \<Rightarrow> list_options \<Rightarrow> string \<Rightarrow> string \<Rightarrow> go_time \<Rightarrow> 'c \<Rightarrow> ('c \<times> recovery_error option) option" where
  "wait_ready R opts n uid deadline s =
     (if \<not> rc_now R s < deadline then Some (s, Some (ReadyTimeout n))
      else (case rc_wait R s (3 * second) of
              (s, done_waiting) \<Rightarrow>
                if done_waiting then Some (s, Some Cancelled)
                else (case fo_pods R s opts of
                        (s, Inl _) \<Rightarrow> wait_ready R opts n uid deadline s
                      | (s, Inr pods) \<Rightarrow>
                          if list_ex (ready_replacement n uid) pods then Some (s, None)
                          else wait_ready R opts n uid deadline s)))"

definition restartCNIAgentPod ::
  "('c, 'z) recovery_api_scheme \<Rightarrow> 'c \<Rightarrow> string \<Rightarrow> string \<Rightarrow> string \<Rightarrow> ('c \<times> recovery_error option) option" where
  "restartCNIAgentPod R s n ns ds =
     (let opts = \<lparr>lo_ns = Some ns, lo_node = None, lo_labels = [(''k8s-app'', ds)]\<rparr> in
      case fo_pods R s opts of
        (s, Inl e) \<Rightarrow> Some (s, Some (ListCNIPods e))
      | (s, Inr pods) \<Rightarrow>
          (case find (\<lambda>p. pd_node p = n) pods of
             None \<Rightarrow> Some (s, Some (NoCNIPod n))
           | Some target \<Rightarrow>
               (case rc_delete_pod R s target of
                  (s, Some e) \<Rightarrow> Some (s, Some (DeleteCNIPod (pd_name target) e))
                | (s, None) \<Rightarrow> wait_ready R opts n (pd_uid target) (rc_now R s + cniPodReadyTimeout) s)))"

record recovery_action =
  ra_node :: string
  ra_success :: bool
  ra_error :: "recovery_error option"
  ra_timestamp :: go_time
  ra_duration :: duration

text \<open>Only the last twenty actions are kept.\<close>

definition recordAction :: "recovery_action \<Rightarrow> recovery_action list \<Rightarrow> recovery_action list" where
  "recordAction a hist =
     (let hist = hist @ [a] in if length hist > 20 then drop (length hist - 20) hist else hist)"

definition recoverNode ::
  "('c, 'z) recovery_api_scheme \<Rightarrow> 'c \<times> recovery_action list \<Rightarrow> string \<Rightarrow> string \<Rightarrow> string \<Rightarrow>
   (('c \<times> recovery_action list) \<times> recovery_error option) option" where
  "recoverNode R = (\<lambda>(s, hist) n ns ds.
     (let start = rc_now R s in
      case restartCNIAgentPod R s n ns ds of
        None \<Rightarrow> None
      | Some (s, e) \<Rightarrow>
          Some ((s, recordAction \<lparr>ra_node = n, ra_success = (e = None), ra_error = e, ra_timestamp = start,
             ra_duration = rc_now R s - start\<rparr> hist), e)))"

end
