(* ===== verification/Resilience.thy ===== *)
theory Resilience
  imports Recovery
begin

text \<open>
  The controller for CNI resilience (cniresilience/cniresilience_controller.go): one pass turns the health of every node
  into failover, failback, isolation, the recovery taint and a restart of its CNI agent. Starting a goroutine is the
  operation \<open>rz_spawn\<close>; what it runs is \<open>recoverNode\<close>. Go iterates over the health map in random order, here the nodes
  come in the order of the node list. The messages are values; appending to a message is appending to a list.
\<close>

datatype active_path = PrimaryPath | BackupPath | NoPath

datatype message =
    HealthNote note_text
  | PeerProbeFailing
  | FailbackFailed failover_error
  | PrimaryWorking
  | OnBackupPath
  | AutoFailoverDisabled
  | BothPathsDown
  | NoBackupPath
  | IsolationFailed failover_error
  | PodsTakenOut int
  | FailoverFailed failover_error
  | NothingToMove
  | FailedOverNow
  | AlreadyRestarted

record node_cni_status =
  ns_node :: string
  ns_primary :: bool
  ns_backup :: bool
  ns_active :: active_path
  ns_primary_failures :: int
  ns_backup_failures :: int
  ns_probe_time :: "go_time option"
  ns_failover_time :: "go_time option"
  ns_recovery_time :: "go_time option"
  ns_message :: "message list"

datatype cluster_phase = Healthy | Degraded | FailedOverPhase | UnknownPhase

record resilience_status =
  rt_phase :: cluster_phase
  rt_nodes :: "node_cni_status list"
  rt_failover_active :: bool
  rt_last_reconcile :: "go_time option"
  rt_recovery_count :: int
  rt_failover_count :: int

record resilience =
  rl_name :: string
  rl_spec :: resilience_spec
  rl_status :: resilience_status

record 'c resilience_api = "'c recovery_api" +
  rz_get :: "'c \<Rightarrow> string \<Rightarrow> 'c \<times> (api_error + resilience)"
  rz_nodes :: "'c \<Rightarrow> 'c \<times> (api_error + health_node list)"
  rz_patch_status :: "'c \<Rightarrow> resilience \<Rightarrow> 'c \<times> api_error option"
  rz_spawn :: "'c \<Rightarrow> string \<times> string \<times> string \<Rightarrow> 'c"

text \<open>The memory of the controller between passes.\<close>

record recovery_memory =
  rm_last_attempt :: "string \<Rightarrow> go_time option"
  rm_pending :: "string \<Rightarrow> bool"

definition recoveryBackoff :: duration where "recoveryBackoff = 120 * second"

definition claimRecovery :: "go_time \<Rightarrow> string \<Rightarrow> recovery_memory \<Rightarrow> recovery_memory \<times> bool" where
  "claimRecovery now n m =
     (case rm_last_attempt m n of
        Some last_at \<Rightarrow>
          if now - last_at < recoveryBackoff then (m, False)
          else (m\<lparr>rm_last_attempt := (rm_last_attempt m)(n \<mapsto> now), rm_pending := (rm_pending m)(n := True)\<rparr>, True)
      | None \<Rightarrow> (m\<lparr>rm_last_attempt := (rm_last_attempt m)(n \<mapsto> now), rm_pending := (rm_pending m)(n := True)\<rparr>, True))"

definition finishRecovery :: "string \<Rightarrow> recovery_memory \<Rightarrow> recovery_memory \<times> bool" where
  "finishRecovery n m = (m\<lparr>rm_pending := (rm_pending m)(n := False)\<rparr>, rm_pending m n)"

definition buildNodeStatus :: "go_time \<Rightarrow> string \<Rightarrow> node_health \<Rightarrow> node_cni_status option \<Rightarrow> node_cni_status" where
  "buildNodeStatus now n h previous =
     \<lparr>ns_node = n, ns_primary = (nh_measured h \<and> nh_primary h), ns_backup = (nh_backup_measured h \<and> nh_backup h),
      ns_active = PrimaryPath, ns_primary_failures = 0, ns_backup_failures = 0, ns_probe_time = Some now,
      ns_failover_time = (case previous of None \<Rightarrow> None | Some p \<Rightarrow> ns_failover_time p),
      ns_recovery_time = (case previous of None \<Rightarrow> None | Some p \<Rightarrow> ns_recovery_time p),
      ns_message = map HealthNote (nh_note h)\<rparr>"

fun health_phase :: "cluster_phase \<Rightarrow> node_health list \<Rightarrow> cluster_phase" where
  "health_phase phase [] = phase"
| "health_phase phase (h # hs) =
     (if \<not> nh_measured h \<or> nh_ambiguous h then UnknownPhase
      else health_phase (if \<not> nh_working h then Degraded else phase) hs)"

definition computePhase :: "bool \<Rightarrow> node_health list \<Rightarrow> cluster_phase" where
  "computePhase anyFailedOver hs = (if anyFailedOver then FailedOverPhase else health_phase Healthy hs)"

text \<open>What the loop over the nodes carries: state, memory, counters, the failed-over nodes.\<close>

record 'c pass =
  ps_world :: 'c
  ps_memory :: recovery_memory
  ps_failovers :: int
  ps_recoveries :: int
  ps_failed_over :: "string list"

subsection \<open>A node whose primary path is down\<close>

definition move_traffic ::
  "('c, 'z) resilience_api_scheme \<Rightarrow> resilience_spec \<Rightarrow> string \<Rightarrow> node_health \<Rightarrow> 'c pass \<times> node_cni_status \<Rightarrow> 'c pass \<times> node_cni_status" where
  "move_traffic R spec n h = (\<lambda>(p, status).
     (let backupWorks = (nh_backup_measured h \<and> nh_backup h); failedOver = (n \<in> set (ps_failed_over p)) in
      if failedOver \<and> backupWorks then (p, status\<lparr>ns_active := BackupPath, ns_message := [OnBackupPath]\<rparr>)
      else if \<not> rp_auto_failover spec
      then (p, (if failedOver then status\<lparr>ns_active := BackupPath\<rparr> else status)\<lparr>ns_message := [AutoFailoverDisabled]\<rparr>)
      else if \<not> backupWorks
      then (let status = status\<lparr>ns_message := [if \<not> nh_backup_measured h then NoBackupPath else BothPathsDown]\<rparr> in
            case isolateNode R (ps_world p) n of
              (s, isolated, Some e) \<Rightarrow>
                (p\<lparr>ps_world := s\<rparr>,
                 (if failedOver then status\<lparr>ns_active := BackupPath\<rparr> else status)
                   \<lparr>ns_message := ns_message status @ [IsolationFailed e]\<rparr>)
            | (s, isolated, None) \<Rightarrow>
                (p\<lparr>ps_world := s, ps_failed_over := removeAll n (ps_failed_over p)\<rparr>,
                 status\<lparr>ns_active := NoPath,
                   ns_message := (if isolated > 0 then ns_message status @ [PodsTakenOut isolated] else ns_message status)\<rparr>))
      else (case failoverNode R (ps_world p) n of
              (s, shadows, Some e) \<Rightarrow> (p\<lparr>ps_world := s\<rparr>, status\<lparr>ns_message := [FailoverFailed e]\<rparr>)
            | (s, shadows, None) \<Rightarrow>
                if shadows = 0 then (p\<lparr>ps_world := s\<rparr>, status\<lparr>ns_message := [NothingToMove]\<rparr>)
                else (p\<lparr>ps_world := s, ps_failed_over := List.insert n (ps_failed_over p), ps_failovers := ps_failovers p + 1\<rparr>,
                      status\<lparr>ns_active := BackupPath, ns_message := [FailedOverNow], ns_failover_time := Some (rc_now R s)\<rparr>))))"

definition repair_node ::
  "('c, 'z) resilience_api_scheme \<Rightarrow> resilience_spec \<Rightarrow> string \<Rightarrow> 'c pass \<times> node_cni_status \<Rightarrow> 'c pass \<times> node_cni_status" where
  "repair_node R spec n = (\<lambda>(p, status).
     (if \<not> rp_auto_recover spec then (p, status)
      else (case taintNode R (ps_world p) n of
              (s, Inl e) \<Rightarrow> (p\<lparr>ps_world := s\<rparr>, status)
            | (s, Inr False) \<Rightarrow>
                (p\<lparr>ps_world := s\<rparr>,
                 if ns_message status \<noteq> [] then status\<lparr>ns_message := ns_message status @ [AlreadyRestarted]\<rparr> else status)
            | (s, Inr True) \<Rightarrow>
                (case claimRecovery (rc_now R s) n (ps_memory p) of
                   (m, True) \<Rightarrow>
                     (p\<lparr>ps_world := rz_spawn R s (n, cg_namespace (rp_primary spec), cg_daemonset (rp_primary spec)), ps_memory := m\<rparr>, status)
                 | (m, False) \<Rightarrow> (p\<lparr>ps_world := s, ps_memory := m\<rparr>, status)))))"

definition handlePrimaryDown ::
  "('c, 'z) resilience_api_scheme \<Rightarrow> resilience_spec \<Rightarrow> string \<Rightarrow> node_health \<Rightarrow> 'c pass \<times> node_cni_status \<Rightarrow> 'c pass \<times> node_cni_status" where
  "handlePrimaryDown R spec n h x = repair_node R spec n (move_traffic R spec n h x)"

subsection \<open>The pass\<close>

definition bring_back ::
  "('c, 'z) resilience_api_scheme \<Rightarrow> string \<Rightarrow> 'c pass \<times> node_cni_status \<Rightarrow> 'c pass \<times> node_cni_status" where
  "bring_back R n = (\<lambda>(p, status).
     (case failbackNode R (ps_world p) n of
        (s, Some e) \<Rightarrow>
          (p\<lparr>ps_world := s\<rparr>,
           (if n \<in> set (ps_failed_over p) then status\<lparr>ns_active := BackupPath\<rparr> else status)\<lparr>ns_message := [FailbackFailed e]\<rparr>)
      | (s, None) \<Rightarrow>
          (let p = p\<lparr>ps_failed_over := removeAll n (ps_failed_over p)\<rparr>;
               s = fst (untaintNode R s n);
               (m, recovered) = finishRecovery n (ps_memory p);
               p = p\<lparr>ps_world := s, ps_memory := m, ps_recoveries := ps_recoveries p + (if recovered then 1 else 0)\<rparr>;
               status = (if recovered then status\<lparr>ns_recovery_time := Some (rc_now R s)\<rparr> else status)
           in (p, if ns_message status = [] then status\<lparr>ns_message := [PrimaryWorking]\<rparr> else status))))"

definition node_step ::
  "('c, 'z) resilience_api_scheme \<Rightarrow> resilience_spec \<Rightarrow> (string \<Rightarrow> node_cni_status option) \<Rightarrow>
   'c pass \<times> node_cni_status list \<Rightarrow> string \<times> node_health \<Rightarrow> 'c pass \<times> node_cni_status list" where
  "node_step R spec previous = (\<lambda>(p, statuses) (n, h).
     (let status = buildNodeStatus (rc_now R (ps_world p)) n h (previous n);
          failedOver = (n \<in> set (ps_failed_over p));
          (p, status) =
            (if \<not> nh_measured h then (p, if failedOver then status\<lparr>ns_active := BackupPath\<rparr> else status)
             else if \<not> nh_primary h then handlePrimaryDown R spec n h (p, status)
             else if \<not> nh_working h
             then (p, let status = (if failedOver then status\<lparr>ns_active := BackupPath\<rparr> else status)
                      in if ns_message status = [] then status\<lparr>ns_message := [PeerProbeFailing]\<rparr> else status)
             else bring_back R n (p, status))
      in (p, statuses @ [status])))"

datatype resilience_error =
    GetResilience api_error
  | FailoverError failover_error
  | ListHealthNodes api_error
  | ParseReport string
  | PatchResilience api_error

definition reconcile_nodes ::
  "('c, 'z) resilience_api_scheme \<Rightarrow> resilience \<Rightarrow> 'c pass \<Rightarrow> (string \<times> node_health) list \<Rightarrow> 'c pass \<times> node_cni_status list" where
  "reconcile_nodes R cr p healths =
     foldl (node_step R (rl_spec cr) (\<lambda>n. find (\<lambda>x. ns_node x = n) (rev (rt_nodes (rl_status cr))))) (p, []) healths"

definition updateStatusAndRequeue ::
  "('c, 'z) resilience_api_scheme \<Rightarrow> 'c \<Rightarrow> resilience \<Rightarrow> 'c \<times> (resilience_error + duration)" where
  "updateStatusAndRequeue R s cr =
     (case rz_patch_status R s (cr\<lparr>rl_status := (rl_status cr)\<lparr>rt_last_reconcile := Some (rc_now R s)\<rparr>\<rparr>) of
        (s, Some e) \<Rightarrow> (s, Inl (PatchResilience e))
      | (s, None) \<Rightarrow> (s, Inr (10 * second)))"

definition finish_reconcile ::
  "('c, 'z) resilience_api_scheme \<Rightarrow> resilience \<Rightarrow> 'c pass \<Rightarrow> (string \<times> node_health) list \<Rightarrow>
   ('c \<times> recovery_memory) \<times> (resilience_error + duration)" where
  "finish_reconcile R cr p healths =
     (case reconcile_nodes R cr p healths of
        (p, statuses) \<Rightarrow>
          (let active = (ps_failed_over p \<noteq> []);
               status = (rl_status cr)\<lparr>rt_nodes := statuses, rt_failover_active := active,
                 rt_phase := computePhase active (map snd healths),
                 rt_recovery_count := ps_recoveries p, rt_failover_count := ps_failovers p\<rparr>
           in case updateStatusAndRequeue R (ps_world p) (cr\<lparr>rl_status := status\<rparr>) of
                (s, r) \<Rightarrow> ((s, ps_memory p), r)))"

text \<open>\<open>client.IgnoreNotFound\<close> for a configuration object that is gone: the pass ends without error and without requeue.\<close>

definition resilience_reconcile ::
  "('c, 'z) resilience_api_scheme \<Rightarrow> 'c \<times> recovery_memory \<Rightarrow> string \<Rightarrow>
   ('c \<times> recovery_memory) \<times> (resilience_error + duration)" where
  "resilience_reconcile R = (\<lambda>(s, m) name.
     (case rz_get R s name of
        (s, Inl e) \<Rightarrow> ((s, m), if e = NotFound then Inr 0 else Inl (GetResilience e))
      | (s, Inr cr) \<Rightarrow>
          (case failedOverNodes R s of
             (s, Inl e) \<Rightarrow> ((s, m), Inl (FailoverError e))
           | (s, Inr failedOver) \<Rightarrow>
               (case ensureGates R s failedOver of
                  (s, Some e) \<Rightarrow> ((s, m), Inl (FailoverError e))
                | (s, None) \<Rightarrow>
                    (case rz_nodes R s of
                       (s, Inl e) \<Rightarrow> ((s, m), Inl (ListHealthNodes e))
                     | (s, Inr nds) \<Rightarrow>
                         (case node_healths (unixSeconds (rc_now R s)) nds of
                            Inl n \<Rightarrow> ((s, m), Inl (ParseReport n))
                          | Inr healths \<Rightarrow>
                              finish_reconcile R cr
                                \<lparr>ps_world = s, ps_memory = m, ps_failovers = rt_failover_count (rl_status cr),
                                 ps_recoveries = rt_recovery_count (rl_status cr), ps_failed_over = failedOver\<rparr> healths))))))"

end
