(* ===== verification/Resilience_Laws.thy ===== *)
theory Resilience_Laws
  imports Resilience
begin

text \<open>
  What the resilience controller relies on: lists and reads answer what was asked for, and the journal records the
  controller's own writes, each with whether it was reported to work. The locale \<open>recorded\<close> is this interface; its lemmas
  say what each step of the managers writes.
\<close>

datatype health_write =
    PatchedPod pod
  | CreatedSlice slice
  | UpdatedSlice slice
  | DeletedSlice slice
  | UpdatedNode health_node
  | DeletedPod pod
  | Spawned string
  | PatchedStatus resilience

type_synonym health_entry = "health_write \<times> bool"

definition failover_laws :: "('c, 'z) failover_api_scheme \<Rightarrow> ('c \<Rightarrow> health_entry list) \<Rightarrow> bool" where
  "failover_laws F jn \<longleftrightarrow>
     silent jn (fo_pods F) \<and> silent jn (fo_slices F) \<and> silent jn (fo_get_slice F) \<and>
     logged jn (fo_patch_pod F) PatchedPod \<and> logged jn (fo_create_slice F) CreatedSlice \<and>
     logged jn (fo_update_slice F) UpdatedSlice \<and> logged jn (fo_delete_slice F) DeletedSlice \<and>
     (\<forall>s opt s' ps. fo_pods F s opt = (s', Inr ps) \<longrightarrow> list_all (pod_matches opt) ps) \<and>
     (\<forall>s ls s' xs. fo_slices F s ls = (s', Inr xs) \<longrightarrow> list_all (\<lambda>x. has_labels ls (sl_labels x)) xs) \<and>
     (\<forall>s k s' x. fo_get_slice F s k = (s', Inr x) \<longrightarrow> (sl_ns x, sl_name x) = k)"

definition resilience_laws :: "('c, 'z) resilience_api_scheme \<Rightarrow> ('c \<Rightarrow> health_entry list) \<Rightarrow> bool" where
  "resilience_laws R jn \<longleftrightarrow> failover_laws R jn \<and>
     silent jn (rc_get_node R) \<and> logged jn (rc_update_node R) UpdatedNode \<and>
     silent jn (rz_get R) \<and> silent jn (\<lambda>s (_ :: unit). rz_nodes R s) \<and> logged jn (rz_patch_status R) PatchedStatus \<and>
     (\<forall>s x. jn (rz_spawn R s x) = jn s @ [(Spawned (fst x), True)]) \<and>
     (\<forall>s n s' nd. rc_get_node R s n = (s', Inr nd) \<longrightarrow> nd_name nd = n)"

text \<open>A shadow slice of a node; an entry that shadows a slice for a node.\<close>

definition shadows_node :: "string \<Rightarrow> slice \<Rightarrow> bool" where
  "shadows_node n x \<longleftrightarrow> sl_labels x shadowLabelKey = Some ''true'' \<and> sl_labels x shadowNodeLabelKey = Some n"

definition original_slice :: "slice \<Rightarrow> bool" where
  "original_slice x \<longleftrightarrow> label_of (sl_labels x) shadowLabelKey \<noteq> ''true''"

definition carries :: "('c, 'z) failover_api_scheme \<Rightarrow> string \<Rightarrow> (string \<times> string) list \<Rightarrow> slice \<Rightarrow> health_write \<Rightarrow> bool" where
  "carries F n ips x w \<longleftrightarrow> (\<exists>y. (w = CreatedSlice y \<or> w = UpdatedSlice y) \<and> sl_name y = shadowName F (sl_name x) n \<and>
     sl_ns y = sl_ns x \<and> sl_endpoints y = shadow_endpoints n ips (sl_endpoints x))"

locale recorded =
  fixes F :: "('c, 'z) failover_api_scheme" and jn :: "'c \<Rightarrow> health_entry list"
  assumes laws: "failover_laws F jn"
begin

lemma pods_quiet: "fo_pods F s opt = (s', r) \<Longrightarrow> jn s' = jn s"
  and slices_quiet: "fo_slices F s ls = (s', r2) \<Longrightarrow> jn s' = jn s"
  and get_slice_quiet: "fo_get_slice F s k = (s', r3) \<Longrightarrow> jn s' = jn s"
  using laws silentD[of jn "fo_pods F"] silentD[of jn "fo_slices F"] silentD[of jn "fo_get_slice F"]
  unfolding failover_laws_def by metis+

lemma patch_logged: "fo_patch_pod F s p = (s', e) \<Longrightarrow> jn s' = jn s @ [(PatchedPod p, e = None)]"
  and create_logged: "fo_create_slice F s x = (s', e) \<Longrightarrow> jn s' = jn s @ [(CreatedSlice x, e = None)]"
  and update_logged: "fo_update_slice F s x = (s', e) \<Longrightarrow> jn s' = jn s @ [(UpdatedSlice x, e = None)]"
  and delete_logged: "fo_delete_slice F s x = (s', e) \<Longrightarrow> jn s' = jn s @ [(DeletedSlice x, e = None)]"
  using laws loggedD[of jn "fo_patch_pod F" PatchedPod] loggedD[of jn "fo_create_slice F" CreatedSlice]
    loggedD[of jn "fo_update_slice F" UpdatedSlice] loggedD[of jn "fo_delete_slice F" DeletedSlice]
  unfolding failover_laws_def by metis+

lemma pods_match: "fo_pods F s opt = (s', Inr ps) \<Longrightarrow> p \<in> set ps \<Longrightarrow> pod_matches opt p"
  and slices_match: "fo_slices F s ls = (s', Inr xs) \<Longrightarrow> x \<in> set xs \<Longrightarrow> has_labels ls (sl_labels x)"
  and get_slice_name: "fo_get_slice F s k = (s', Inr x) \<Longrightarrow> (sl_ns x, sl_name x) = k"
  using laws unfolding failover_laws_def list_all_iff by blast+

lemma on_node:
  assumes "podsOnNode F s n = (s', r)"
  shows "jn s' = jn s" "r = Inr ps \<Longrightarrow> p \<in> set ps \<Longrightarrow> pd_node p = n"
proof -
  obtain s1 r1 where a: "fo_pods F s (everything\<lparr>lo_node := Some n\<rparr>) = (s1, r1)" by fastforce
  then show "jn s' = jn s" using assms pods_quiet[OF a] by (auto simp: podsOnNode_def split: sum.splits)
  show "r = Inr ps \<Longrightarrow> p \<in> set ps \<Longrightarrow> pd_node p = n"
    using assms a pods_match[of s "everything\<lparr>lo_node := Some n\<rparr>" s' ps p]
    by (auto simp: podsOnNode_def pod_matches_def everything_def split: sum.splits)
qed

lemma setGate_writes:
  assumes "setGate F s p status = (s', e)"
  shows "jn s' = jn s @ (if gateCondition p = Some status then [] else [(PatchedPod (with_gate status p), e = None)])"
    "gateCondition p = Some status \<Longrightarrow> e = None"
  using assms by (auto simp: setGate_def dest!: patch_logged split: if_splits prod.splits option.splits)

text \<open>The gates that a loop sets: all selected pods up to the first error.\<close>

lemma set_gates_writes:
  assumes "set_gates F sel status s k ps = (s', k', e)"
  shows "\<exists>ws. jn s' = jn s @ ws \<and>
     (\<forall>w \<in> set ws. \<exists>p \<in> set ps. sel p \<and> fst w = PatchedPod (with_gate status p)) \<and>
     (e = None \<longrightarrow> (\<forall>p \<in> set ps. sel p \<longrightarrow>
        gateCondition p = Some status \<or> (PatchedPod (with_gate status p), True) \<in> set ws))"
  using assms
proof (induction ps arbitrary: s k)
  case (Cons p ps)
  show ?case
  proof (cases "sel p")
    case False
    then show ?thesis using Cons by auto
  next
    case True
    obtain s1 e1 where step: "setGate F s p status = (s1, e1)" by fastforce
    note w = setGate_writes[OF step]
    show ?thesis
    proof (cases e1)
      case (Some x)
      then have "s' = s1" "e = Some x" using Cons.prems True step by simp_all
      then show ?thesis using w True by (intro exI[of _ "if gateCondition p = Some status then [] else [(PatchedPod (with_gate status p), e1 = None)]"]) auto
    next
      case None
      then have "set_gates F sel status s1 (k + 1) ps = (s', k', e)" using Cons.prems True step by simp
      from Cons.IH[OF this] obtain ws where ws: "jn s' = jn s1 @ ws"
        "\<forall>w \<in> set ws. \<exists>p \<in> set ps. sel p \<and> fst w = PatchedPod (with_gate status p)"
        "e = None \<longrightarrow> (\<forall>p \<in> set ps. sel p \<longrightarrow>
           gateCondition p = Some status \<or> (PatchedPod (with_gate status p), True) \<in> set ws)" by blast
      let ?w = "if gateCondition p = Some status then [] else [(PatchedPod (with_gate status p), True)]"
      have "jn s' = jn s @ (?w @ ws)" using w(1) ws(1) None by simp
      moreover have "\<forall>w \<in> set (?w @ ws). \<exists>p \<in> set (p # ps). sel p \<and> fst w = PatchedPod (with_gate status p)"
        using ws(2) True by (auto split: if_splits)
      moreover have "e = None \<longrightarrow> (\<forall>q \<in> set (p # ps). sel q \<longrightarrow>
           gateCondition q = Some status \<or> (PatchedPod (with_gate status q), True) \<in> set (?w @ ws))"
        using ws(3) by auto
      ultimately show ?thesis by blast
    qed
  qed
qed auto

lemma delete_shadows_writes:
  assumes "delete_shadows F s xs = (s', e)"
  shows "\<exists>ws. jn s' = jn s @ ws \<and> (\<forall>w \<in> set ws. \<exists>x \<in> set xs. fst w = DeletedSlice x) \<and>
    (e = None \<longrightarrow> (\<forall>x \<in> set xs. (DeletedSlice x, True) \<in> set ws))"
  using assms
proof (induction xs arbitrary: s)
  case (Cons x xs)
  obtain s1 e1 where step: "fo_delete_slice F s x = (s1, e1)" by fastforce
  note w = delete_logged[OF step]
  show ?case
  proof (cases e1)
    case (Some y)
    then show ?thesis using Cons.prems step w by (intro exI[of _ "[(DeletedSlice x, False)]"]) auto
  next
    case None
    then have "delete_shadows F s1 xs = (s', e)" using Cons.prems step by simp
    from Cons.IH[OF this] obtain ws where "jn s' = jn s1 @ ws" "\<forall>w \<in> set ws. \<exists>x \<in> set xs. fst w = DeletedSlice x"
      "e = None \<longrightarrow> (\<forall>x \<in> set xs. (DeletedSlice x, True) \<in> set ws)" by blast
    then show ?thesis using w None by (intro exI[of _ "(DeletedSlice x, True) # ws"]) auto
  qed
qed auto

lemma deleteShadows_writes:
  assumes "deleteShadows F s n = (s', e)"
  shows "\<exists>ws. jn s' = jn s @ ws \<and> (\<forall>w \<in> set ws. \<exists>x. shadows_node n x \<and> fst w = DeletedSlice x)"
proof -
  obtain s1 r where l: "fo_slices F s [(shadowLabelKey, ''true''), (shadowNodeLabelKey, n)] = (s1, r)" by fastforce
  show ?thesis
  proof (cases r)
    case (Inl e1)
    then show ?thesis using assms l slices_quiet[OF l] by (auto simp: deleteShadows_def)
  next
    case (Inr xs)
    then have "delete_shadows F s1 xs = (s', e)" using assms l by (simp add: deleteShadows_def)
    from delete_shadows_writes[OF this] show ?thesis
      using slices_quiet[OF l] slices_match[OF l[unfolded Inr]] by (fastforce simp: shadows_node_def has_labels_def)
  qed
qed

lemma applyShadow_writes:
  assumes "applyShadow F s x n ips = (s', r)"
  shows "\<exists>ws. jn s' = jn s @ ws \<and> (\<forall>w \<in> set ws. carries F n ips x (fst w) \<and> shadow_endpoints n ips (sl_endpoints x) \<noteq> []) \<and>
    (r = Inr True \<longrightarrow> (\<exists>w. carries F n ips x w \<and> (w, True) \<in> set ws)) \<and>
    (r = Inr False \<longrightarrow> shadow_endpoints n ips (sl_endpoints x) = [])"
proof (cases "shadow_endpoints n ips (sl_endpoints x) = []")
  case True
  then show ?thesis using assms by (auto simp: applyShadow_def)
next
  case False
  let ?eps = "shadow_endpoints n ips (sl_endpoints x)"
  let ?sh = "shadow_of F x n ?eps"
  have carry: "carries F n ips x (CreatedSlice ?sh)" by (simp add: carries_def shadow_of_def)
  obtain s1 e1 where c: "fo_create_slice F s ?sh = (s1, e1)" by fastforce
  note lc = create_logged[OF c]
  show ?thesis
  proof (cases "e1 = Some AlreadyExists")
    case False
    then have "s' = s1 \<and> r = (if e1 = None then Inr True else Inl (ApplyShadow (sl_name ?sh) (the e1)))"
      using assms c \<open>?eps \<noteq> []\<close> by (auto simp: applyShadow_def Let_def split: option.splits)
    then show ?thesis using lc carry \<open>?eps \<noteq> []\<close> by (intro exI[of _ "[(CreatedSlice ?sh, e1 = None)]"]) auto
  next
    case True
    obtain s2 r2 where g: "fo_get_slice F s1 (sl_ns ?sh, sl_name ?sh) = (s2, r2)" by fastforce
    note lg = get_slice_quiet[OF g]
    show ?thesis
    proof (cases r2)
      case (Inl e2)
      then have "s' = s2 \<and> r = Inl (GetShadow (sl_name ?sh) e2)"
        using assms c g True \<open>?eps \<noteq> []\<close> by (simp add: applyShadow_def Let_def)
      then show ?thesis using lc lg carry \<open>?eps \<noteq> []\<close> True by (intro exI[of _ "[(CreatedSlice ?sh, False)]"]) auto
    next
      case (Inr old)
      let ?new = "old\<lparr>sl_endpoints := ?eps, sl_ports := sl_ports x\<rparr>"
      obtain s3 e3 where u: "fo_update_slice F s2 ?new = (s3, e3)" by fastforce
      note lu = update_logged[OF u]
      have "sl_ns old = sl_ns x" "sl_name old = shadowName F (sl_name x) n"
        using get_slice_name[OF g[unfolded Inr]] by (simp_all add: shadow_of_def)
      then have carry2: "carries F n ips x (UpdatedSlice ?new)" by (simp add: carries_def)
      have "s' = s3 \<and> r = (if e3 = None then Inr True else Inl (ApplyShadow (sl_name ?sh) (the e3)))"
        using assms c g u True Inr \<open>?eps \<noteq> []\<close> by (auto simp: applyShadow_def Let_def split: option.splits)
      then show ?thesis using lc lg lu carry carry2 \<open>?eps \<noteq> []\<close> True
        by (intro exI[of _ "[(CreatedSlice ?sh, False), (UpdatedSlice ?new, e3 = None)]"]) auto
    qed
  qed
qed

lemma apply_shadows_writes:
  assumes "apply_shadows F n ips s k xs = (s', k', e)"
  shows "\<exists>ws. jn s' = jn s @ ws \<and>
    (\<forall>w \<in> set ws. \<exists>x \<in> set xs. original_slice x \<and> shadow_endpoints n ips (sl_endpoints x) \<noteq> [] \<and> carries F n ips x (fst w)) \<and>
    (e = None \<longrightarrow> (\<forall>x \<in> set xs. original_slice x \<longrightarrow> shadow_endpoints n ips (sl_endpoints x) \<noteq> [] \<longrightarrow>
       (\<exists>w. carries F n ips x w \<and> (w, True) \<in> set ws)))"
  using assms
proof (induction xs arbitrary: s k)
  case (Cons x xs)
  show ?case
  proof (cases "original_slice x")
    case False
    then show ?thesis using Cons by (auto simp: original_slice_def)
  next
    case True
    obtain s1 r1 where step: "applyShadow F s x n ips = (s1, r1)" by fastforce
    from applyShadow_writes[OF step] obtain us where us: "jn s1 = jn s @ us"
      "\<forall>w \<in> set us. carries F n ips x (fst w) \<and> shadow_endpoints n ips (sl_endpoints x) \<noteq> []"
      "r1 = Inr True \<longrightarrow> (\<exists>w. carries F n ips x w \<and> (w, True) \<in> set us)"
      "r1 = Inr False \<longrightarrow> shadow_endpoints n ips (sl_endpoints x) = []" by blast
    show ?thesis
    proof (cases r1)
      case (Inl y)
      then have "s' = s1" "e = Some y" using Cons.prems step True by (simp_all add: original_slice_def)
      then show ?thesis using us True by (intro exI[of _ us]) auto
    next
      case (Inr wrote)
      then have "apply_shadows F n ips s1 (if wrote then k + 1 else k) xs = (s', k', e)"
        using Cons.prems step True by (simp add: original_slice_def)
      from Cons.IH[OF this] obtain ws where ws: "jn s' = jn s1 @ ws"
        "\<forall>w \<in> set ws. \<exists>x \<in> set xs. original_slice x \<and> shadow_endpoints n ips (sl_endpoints x) \<noteq> [] \<and> carries F n ips x (fst w)"
        "e = None \<longrightarrow> (\<forall>x \<in> set xs. original_slice x \<longrightarrow> shadow_endpoints n ips (sl_endpoints x) \<noteq> [] \<longrightarrow>
           (\<exists>w. carries F n ips x w \<and> (w, True) \<in> set ws))" by blast
      have "jn s' = jn s @ (us @ ws)" using us(1) ws(1) by simp
      moreover have "\<forall>w \<in> set (us @ ws). \<exists>y \<in> set (x # xs). original_slice y \<and>
          shadow_endpoints n ips (sl_endpoints y) \<noteq> [] \<and> carries F n ips y (fst w)"
        using us(2) ws(2) True by auto
      moreover have "e = None \<longrightarrow> (\<forall>y \<in> set (x # xs). original_slice y \<longrightarrow> shadow_endpoints n ips (sl_endpoints y) \<noteq> [] \<longrightarrow>
           (\<exists>w. carries F n ips y w \<and> (w, True) \<in> set (us @ ws)))"
        using us(3,4) ws(3) Inr by (cases wrote) auto
      ultimately show ?thesis by blast
    qed
  qed
qed auto

end

end
