(* ===== verification/Resilience_Props.thy ===== *)
theory Resilience_Props
  imports Resilience_Laws
begin

text \<open>
  What the resilience controller guarantees: failover adds the backup addresses before it takes pods out, failback puts
  pods in before it removes backup addresses, a pass touches only nodes whose state is proven, and a
  restart of an agent pod always comes to an end.
\<close>

subsection \<open>Failover and failback\<close>

lemma shadow_has_backup:
  assumes "ep \<in> set eps" "ep_node ep = Some n" "a \<in> set (ep_addresses ep)" "map_of ips a = Some b"
  shows "\<exists>ep' \<in> set (shadow_endpoints n ips eps). b \<in> set (ep_addresses ep') \<and> ep_ready ep' = Some True"
proof -
  have b: "b \<in> set (backup_addresses ips ep)" using assms(3,4) by (force simp: backup_addresses_def)
  then show ?thesis using assms(1,2) by (force simp: shadow_endpoints_def)
qed

text \<open>A write that worked put the backup address \<open>b\<close> into a Service.\<close>

definition serves_backup :: "health_entry list \<Rightarrow> string \<Rightarrow> bool" where
  "serves_backup ws b \<longleftrightarrow> (\<exists>y. ((CreatedSlice y, True) \<in> set ws \<or> (UpdatedSlice y, True) \<in> set ws) \<and>
     (\<exists>ep \<in> set (sl_endpoints y). b \<in> set (ep_addresses ep) \<and> ep_ready ep = Some True))"

context recorded
begin

lemma failover_writes:
  assumes "podsOnNode F s n = (s0, Inr pods)" "fo_slices F s0 [] = (s1, Inr xs)" "failoverNode F s n = (s', k, e)"
  shows "\<exists>us ws. jn s' = jn s @ us @ ws \<and>
    (\<forall>w \<in> set us. \<exists>x \<in> set xs. original_slice x \<and> carries F n (backup_ips pods) x (fst w)) \<and>
    (\<forall>w \<in> set ws. \<exists>p \<in> set pods. hasGate p \<and> fst w = PatchedPod (with_gate ''False'' p)) \<and>
    (ws \<noteq> [] \<longrightarrow> (\<forall>x \<in> set xs. original_slice x \<longrightarrow> (\<forall>ep \<in> set (sl_endpoints x). ep_node ep = Some n \<longrightarrow>
       (\<forall>a \<in> set (ep_addresses ep). \<forall>b. map_of (backup_ips pods) a = Some b \<longrightarrow> serves_backup us b))))"
proof (cases "backup_ips pods = []")
  case True
  then show ?thesis using assms on_node(1)[OF assms(1)] by (intro exI[of _ "[]"]) (auto simp: failoverNode_def)
next
  case False
  let ?ips = "backup_ips pods"
  obtain s2 k2 e2 where a: "apply_shadows F n ?ips s1 0 xs = (s2, k2, e2)" by (rule prod_cases3)
  from apply_shadows_writes[OF a] obtain us where us: "jn s2 = jn s1 @ us"
    "\<forall>w \<in> set us. \<exists>x \<in> set xs. original_slice x \<and> shadow_endpoints n ?ips (sl_endpoints x) \<noteq> [] \<and> carries F n ?ips x (fst w)"
    "e2 = None \<longrightarrow> (\<forall>x \<in> set xs. original_slice x \<longrightarrow> shadow_endpoints n ?ips (sl_endpoints x) \<noteq> [] \<longrightarrow>
       (\<exists>w. carries F n ?ips x w \<and> (w, True) \<in> set us))" by blast
  have same: "jn s1 = jn s" using on_node(1)[OF assms(1)] slices_quiet[OF assms(2)] by simp
  have f: "failoverNode F s n = (case (s2, k2, e2) of
      (t, m, Some e) \<Rightarrow> (t, m, Some e)
    | (t, m, None) \<Rightarrow> if m = 0 then (t, 0, None)
        else (case set_gates F (\<lambda>p. map_of ?ips (pd_ip p) \<noteq> None \<and> hasGate p) ''False'' t 0 pods of (t, _, e) \<Rightarrow> (t, m, e)))"
    unfolding failoverNode_def assms(1) a[symmetric] using \<open>?ips \<noteq> []\<close> by (simp add: assms(2) Let_def)
  show ?thesis
  proof (cases "e2 = None \<and> k2 \<noteq> 0")
    case False
    have "s' = s2"
    proof (cases e2)
      case None
      then have "k2 = 0" using False by simp
      then show ?thesis using f None assms(3) by simp
    qed (use f assms(3) in simp)
    then show ?thesis using us same by (intro exI[of _ us] exI[of _ "[]"]) auto
  next
    case True
    let ?sel = "\<lambda>p. map_of ?ips (pd_ip p) \<noteq> None \<and> hasGate p"
    obtain s3 k3 e3 where g: "set_gates F ?sel ''False'' s2 0 pods = (s3, k3, e3)" by (rule prod_cases3)
    have e2: "e2 = None" and k2: "(k2 = 0) = False" using True by blast+
    have "failoverNode F s n = (s3, k2, e3)" unfolding f e2 prod.case option.case k2 if_False g by (rule refl)
    then have "s' = s3" using assms(3) by simp
    moreover from set_gates_writes[OF g] obtain ws where ws: "jn s3 = jn s2 @ ws"
      "\<forall>w \<in> set ws. \<exists>p \<in> set pods. ?sel p \<and> fst w = PatchedPod (with_gate ''False'' p)" by blast
    have backup: "serves_backup us b" if x: "x \<in> set xs" "original_slice x" and ep: "ep \<in> set (sl_endpoints x)" "ep_node ep = Some n"
      "a \<in> set (ep_addresses ep)" "map_of ?ips a = Some b" for x ep a b
    proof -
      obtain ep' where ep': "ep' \<in> set (shadow_endpoints n ?ips (sl_endpoints x))" "b \<in> set (ep_addresses ep')" "ep_ready ep' = Some True"
        using shadow_has_backup[OF ep] by blast
      then have "shadow_endpoints n ?ips (sl_endpoints x) \<noteq> []" by auto
      then obtain w where w: "carries F n ?ips x w" "(w, True) \<in> set us" using us(3) True x by blast
      show ?thesis
        using w ep' unfolding serves_backup_def carries_def by metis
    qed
    have "jn s' = jn s @ us @ ws" using \<open>s' = s3\<close> ws(1) us(1) same by simp
    moreover have "\<forall>w \<in> set us. \<exists>x \<in> set xs. original_slice x \<and> carries F n ?ips x (fst w)" using us(2) by blast
    moreover have "\<forall>w \<in> set ws. \<exists>p \<in> set pods. hasGate p \<and> fst w = PatchedPod (with_gate ''False'' p)" using ws(2) by blast
    ultimately show ?thesis using backup by blast
  qed
qed

lemma failback_writes:
  assumes "podsOnNode F s n = (s0, Inr pods)" "failbackNode F s n = (s', e)"
  shows "\<exists>us ws. jn s' = jn s @ us @ ws \<and>
    (\<forall>w \<in> set us. \<exists>p \<in> set pods. hasGate p \<and> fst w = PatchedPod (with_gate ''True'' p)) \<and>
    (\<forall>w \<in> set ws. \<exists>x. shadows_node n x \<and> fst w = DeletedSlice x) \<and>
    (ws \<noteq> [] \<longrightarrow> (\<forall>p \<in> set pods. hasGate p \<longrightarrow>
       gateCondition p = Some ''True'' \<or> (PatchedPod (with_gate ''True'' p), True) \<in> set us))"
proof -
  obtain s1 k1 e1 where g: "set_gates F hasGate ''True'' s0 0 pods = (s1, k1, e1)" by (rule prod_cases3)
  from set_gates_writes[OF g] obtain us where us: "jn s1 = jn s0 @ us"
    "\<forall>w \<in> set us. \<exists>p \<in> set pods. hasGate p \<and> fst w = PatchedPod (with_gate ''True'' p)"
    "e1 = None \<longrightarrow> (\<forall>p \<in> set pods. hasGate p \<longrightarrow>
       gateCondition p = Some ''True'' \<or> (PatchedPod (with_gate ''True'' p), True) \<in> set us)" by blast
  have same: "jn s0 = jn s" by (rule on_node(1)[OF assms(1)])
  show ?thesis
  proof (cases e1)
    case (Some x)
    then have "s' = s1" using assms g by (simp add: failbackNode_def)
    then show ?thesis using us same by (intro exI[of _ us] exI[of _ "[]"]) auto
  next
    case None
    then have "deleteShadows F s1 n = (s', e)" using assms g by (simp add: failbackNode_def)
    from deleteShadows_writes[OF this] obtain ws where
      "jn s' = jn s1 @ ws" "\<forall>w \<in> set ws. \<exists>x. shadows_node n x \<and> fst w = DeletedSlice x" by blast
    then show ?thesis using us same None by (intro exI[of _ us] exI[of _ ws]) auto
  qed
qed

end

text \<open>
  C15. Failover never leaves a Service without a working address that it had: gates go off only after every backup address of
  every address of the node that a Service lists has been written, with success, into a ready shadow endpoint,
  and only shadow slices and gates of pods of this node are touched.
\<close>

theorem failover_adds_before_removing:
  assumes "failover_laws F jn" "podsOnNode F s n = (s0, Inr pods)" "fo_slices F s0 [] = (s1, Inr xs)"
    "failoverNode F s n = (s', k, e)"
  shows "\<exists>us ws. jn s' = jn s @ us @ ws \<and>
    (\<forall>w \<in> set us. \<exists>x \<in> set xs. original_slice x \<and> carries F n (backup_ips pods) x (fst w)) \<and>
    (\<forall>w \<in> set ws. \<exists>p \<in> set pods. hasGate p \<and> fst w = PatchedPod (with_gate ''False'' p)) \<and>
    (ws \<noteq> [] \<longrightarrow> (\<forall>x \<in> set xs. original_slice x \<longrightarrow> (\<forall>ep \<in> set (sl_endpoints x). ep_node ep = Some n \<longrightarrow>
       (\<forall>a \<in> set (ep_addresses ep). \<forall>b. map_of (backup_ips pods) a = Some b \<longrightarrow> serves_backup us b))))"
  by (rule recorded.failover_writes[OF recorded.intro[OF assms(1)] assms(2-4)])

text \<open>
  C16. Failback is the reverse: shadow slices of the node are deleted only after every gated pod of the node is
  in its Services again, its gate being on already or switched on with success before.
\<close>

theorem failback_adds_before_removing:
  assumes "failover_laws F jn" "podsOnNode F s n = (s0, Inr pods)" "failbackNode F s n = (s', e)"
  shows "\<exists>us ws. jn s' = jn s @ us @ ws \<and>
    (\<forall>w \<in> set us. \<exists>p \<in> set pods. hasGate p \<and> fst w = PatchedPod (with_gate ''True'' p)) \<and>
    (\<forall>w \<in> set ws. \<exists>x. shadows_node n x \<and> fst w = DeletedSlice x) \<and>
    (ws \<noteq> [] \<longrightarrow> (\<forall>p \<in> set pods. hasGate p \<longrightarrow>
       gateCondition p = Some ''True'' \<or> (PatchedPod (with_gate ''True'' p), True) \<in> set us))"
  by (rule recorded.failback_writes[OF recorded.intro[OF assms(1)] assms(2,3)])

subsection \<open>A pass acts on proof\<close>

definition proven_down :: "node_health \<Rightarrow> bool" where
  "proven_down h \<longleftrightarrow> nh_measured h \<and> \<not> nh_primary h"

definition proven_up :: "node_health \<Rightarrow> bool" where
  "proven_up h \<longleftrightarrow> nh_measured h \<and> nh_primary h \<and> nh_working h"

definition backup_works :: "node_health \<Rightarrow> bool" where
  "backup_works h \<longleftrightarrow> nh_backup_measured h \<and> nh_backup h"

text \<open>The writes that the health of the nodes and the settings justify.\<close>

fun justified :: "('c, 'z) failover_api_scheme \<Rightarrow> resilience_spec \<Rightarrow> (string \<times> node_health) set \<Rightarrow> health_write \<Rightarrow> bool" where
  "justified F spec H (PatchedPod p) \<longleftrightarrow> gateCondition p = Some ''True'' \<or>
     gateCondition p = Some ''False'' \<and> rp_auto_failover spec \<and> (\<exists>h. (pd_node p, h) \<in> H \<and> proven_down h)"
| "justified F spec H (CreatedSlice x) \<longleftrightarrow> rp_auto_failover spec \<and>
     (\<exists>n h y. (n, h) \<in> H \<and> proven_down h \<and> backup_works h \<and> sl_name x = shadowName F y n)"
| "justified F spec H (UpdatedSlice x) \<longleftrightarrow> rp_auto_failover spec \<and>
     (\<exists>n h y. (n, h) \<in> H \<and> proven_down h \<and> backup_works h \<and> sl_name x = shadowName F y n)"
| "justified F spec H (DeletedSlice x) \<longleftrightarrow>
     (\<exists>n h. (n, h) \<in> H \<and> shadows_node n x \<and> (proven_up h \<or> proven_down h \<and> \<not> backup_works h \<and> rp_auto_failover spec))"
| "justified F spec H (UpdatedNode nd) \<longleftrightarrow> (\<exists>h. (nd_name nd, h) \<in> H \<and>
     (if list_ex is_recovery_taint (nd_taints nd) then proven_down h \<and> rp_auto_recover spec else proven_up h))"
| "justified F spec H (Spawned n) \<longleftrightarrow> (\<exists>h. (n, h) \<in> H \<and> proven_down h \<and> rp_auto_recover spec)"
| "justified F spec H (PatchedStatus r) \<longleftrightarrow> True"
| "justified F spec H (DeletedPod p) \<longleftrightarrow> False"

lemma gateCondition_with_gate [simp]: "gateCondition (with_gate st p) = Some st"
proof -
  have "find (\<lambda>c. fst c = readinessGate) (put_condition (readinessGate, st) cs) = Some (readinessGate, st)" for cs
    by (induction cs) auto
  then show ?thesis by (simp add: gateCondition_def with_gate_def)
qed

lemma pd_node_with_gate [simp]: "pd_node (with_gate st p) = pd_node p"
  by (simp add: with_gate_def)

context recorded
begin

lemma gates_on_justified:
  assumes "set_gates F sel ''True'' s k ps = (s', k', e)"
  shows "adds jn (\<lambda>w. justified F spec H (fst w)) s s'"
proof -
  from set_gates_writes[OF assms] obtain ws where "jn s' = jn s @ ws"
    "\<forall>w \<in> set ws. \<exists>p \<in> set ps. sel p \<and> fst w = PatchedPod (with_gate ''True'' p)" by blast
  then show ?thesis by (fastforce simp: adds_def list_all_iff)
qed

lemma gates_off_justified:
  assumes "set_gates F sel ''False'' s k ps = (s', k', e)" "\<And>p. p \<in> set ps \<Longrightarrow> pd_node p = n"
    "(n, h) \<in> H" "proven_down h" "rp_auto_failover spec"
  shows "adds jn (\<lambda>w. justified F spec H (fst w)) s s'"
proof -
  from set_gates_writes[OF assms(1)] obtain ws where "jn s' = jn s @ ws"
    "\<forall>w \<in> set ws. \<exists>p \<in> set ps. sel p \<and> fst w = PatchedPod (with_gate ''False'' p)" by blast
  then show ?thesis using assms(2-5) by (fastforce simp: adds_def list_all_iff)
qed

lemma deletes_justified:
  assumes "deleteShadows F s n = (s', e)" "(n, h) \<in> H" "proven_up h \<or> proven_down h \<and> \<not> backup_works h \<and> rp_auto_failover spec"
  shows "adds jn (\<lambda>w. justified F spec H (fst w)) s s'"
proof -
  from deleteShadows_writes[OF assms(1)] obtain ws where "jn s' = jn s @ ws"
    "\<forall>w \<in> set ws. \<exists>x. shadows_node n x \<and> fst w = DeletedSlice x" by blast
  then show ?thesis using assms(2,3) by (fastforce simp: adds_def list_all_iff)
qed

lemma ensureGates_justified:
  assumes "ensureGates F s fo = (s', e)"
  shows "adds jn (\<lambda>w. justified F spec H (fst w)) s s'"
proof -
  obtain s1 r where a: "fo_pods F s everything = (s1, r)" by fastforce
  have s1: "adds jn (\<lambda>w. justified F spec H (fst w)) s s1" by (rule adds_same) (rule pods_quiet[OF a])
  show ?thesis
  proof (cases r)
    case (Inl x)
    then show ?thesis using assms a s1 by (simp add: ensureGates_def)
  next
    case (Inr ps)
    obtain s2 k e2 where g: "set_gates F (\<lambda>p. \<not> (\<not> hasGate p \<or> pd_node p \<in> set fo \<or> gateCondition p \<noteq> None)) ''True'' s1 0 ps = (s2, k, e2)"
      by (rule prod_cases3)
    then have "s' = s2" using assms a Inr unfolding ensureGates_def by simp
    then show ?thesis using adds_trans[OF s1 gates_on_justified[OF g]] by simp
  qed
qed

lemma failback_justified:
  assumes "failbackNode F s n = (s', e)" "(n, h) \<in> H" "proven_up h"
  shows "adds jn (\<lambda>w. justified F spec H (fst w)) s s'"
proof -
  obtain s0 r where a: "podsOnNode F s n = (s0, r)" by fastforce
  have s0: "adds jn (\<lambda>w. justified F spec H (fst w)) s s0" by (rule adds_same) (rule on_node(1)[OF a])
  show ?thesis
  proof (cases r)
    case (Inl x)
    then show ?thesis using assms a s0 by (simp add: failbackNode_def)
  next
    case (Inr ps)
    obtain s1 k e1 where g: "set_gates F hasGate ''True'' s0 0 ps = (s1, k, e1)" by (rule prod_cases3)
    note s1 = adds_trans[OF s0 gates_on_justified[OF g]]
    show ?thesis
    proof (cases e1)
      case (Some x)
      then show ?thesis using assms(1) a Inr g s1 by (simp add: failbackNode_def)
    next
      case None
      then have "deleteShadows F s1 n = (s', e)" using assms(1) a Inr g by (simp add: failbackNode_def)
      from adds_trans[OF s1 deletes_justified[OF this assms(2)]] assms(3) show ?thesis by blast
    qed
  qed
qed

lemma isolate_justified:
  assumes "isolateNode F s n = (s', k, e)" "(n, h) \<in> H" "proven_down h" "\<not> backup_works h" "rp_auto_failover spec"
  shows "adds jn (\<lambda>w. justified F spec H (fst w)) s s'"
proof -
  obtain s0 r where a: "podsOnNode F s n = (s0, r)" by fastforce
  have s0: "adds jn (\<lambda>w. justified F spec H (fst w)) s s0" by (rule adds_same) (rule on_node(1)[OF a])
  show ?thesis
  proof (cases r)
    case (Inl x)
    then show ?thesis using assms a s0 by (simp add: isolateNode_def)
  next
    case (Inr ps)
    obtain s1 k1 e1 where g: "set_gates F hasGate ''False'' s0 0 ps = (s1, k1, e1)" by (rule prod_cases3)
    note s1 = adds_trans[OF s0 gates_off_justified[OF g on_node(2)[OF a Inr] assms(2,3,5)]]
    show ?thesis
    proof (cases e1)
      case (Some x)
      then show ?thesis using assms(1) a Inr g s1 by (simp add: isolateNode_def)
    next
      case None
      obtain s2 e2 where d: "deleteShadows F s1 n = (s2, e2)" by fastforce
      then have "s' = s2" using assms(1) a Inr g None by (simp add: isolateNode_def)
      then show ?thesis using adds_trans[OF s1 deletes_justified[OF d assms(2)]] assms(3-5) by blast
    qed
  qed
qed

lemma failover_justified:
  assumes "failoverNode F s n = (s', k, e)" "(n, h) \<in> H" "proven_down h" "backup_works h" "rp_auto_failover spec"
  shows "adds jn (\<lambda>w. justified F spec H (fst w)) s s'"
proof -
  obtain s0 r where a: "podsOnNode F s n = (s0, r)" by fastforce
  note q0 = on_node(1)[OF a]
  show ?thesis
  proof (cases r)
    case (Inl x)
    then show ?thesis using assms(1) a q0 by (simp add: failoverNode_def adds_same)
  next
    case (Inr ps)
    obtain s1 r1 where l: "fo_slices F s0 [] = (s1, r1)" by fastforce
    note q1 = slices_quiet[OF l]
    show ?thesis
    proof (cases r1)
      case (Inl x)
      then show ?thesis using assms(1) a l q0 q1 Inr by (auto simp: failoverNode_def Let_def intro: adds_same split: if_splits)
    next
      case slices: (Inr xs)
      from failover_writes[OF a[unfolded Inr] l[unfolded slices] assms(1)] obtain us ws where w: "jn s' = jn s @ us @ ws"
        "\<forall>w \<in> set us. \<exists>x \<in> set xs. original_slice x \<and> carries F n (backup_ips ps) x (fst w)"
        "\<forall>w \<in> set ws. \<exists>p \<in> set ps. hasGate p \<and> fst w = PatchedPod (with_gate ''False'' p)" by blast
      have "justified F spec H (fst w)" if "w \<in> set us" for w
        using w(2) that assms(2-5) unfolding carries_def by fastforce
      moreover have "justified F spec H (fst w)" if "w \<in> set ws" for w
        using w(3) that assms(2-5) on_node(2)[OF a Inr] by fastforce
      ultimately have "list_all (\<lambda>w. justified F spec H (fst w)) (us @ ws)" by (auto simp: list_all_iff)
      then show ?thesis using w(1) unfolding adds_def by blast
    qed
  qed
qed

end

abbreviation within :: "('c, 'z) resilience_api_scheme \<Rightarrow> ('c \<Rightarrow> health_entry list) \<Rightarrow> resilience_spec \<Rightarrow>
    (string \<times> node_health) set \<Rightarrow> 'c \<Rightarrow> 'c \<Rightarrow> bool" where
  "within R jn spec H \<equiv> adds jn (\<lambda>w. justified R spec H (fst w))"

locale recorded_resilience =
  fixes R :: "('c, 'z) resilience_api_scheme" and jn :: "'c \<Rightarrow> health_entry list"
  assumes all_laws: "resilience_laws R jn"

sublocale recorded_resilience \<subseteq> recorded R jn
  using all_laws by unfold_locales (simp add: resilience_laws_def)

context recorded_resilience
begin

lemma get_node_quiet: "rc_get_node R s n = (s', r) \<Longrightarrow> jn s' = jn s"
  and get_cr_quiet: "rz_get R s n = (s', r2) \<Longrightarrow> jn s' = jn s"
  and nodes_quiet: "rz_nodes R s = (s', r3) \<Longrightarrow> jn s' = jn s"
  using all_laws silentD[of jn "rc_get_node R"] silentD[of jn "rz_get R"] silentD[of jn "\<lambda>s (_ :: unit). rz_nodes R s"]
  unfolding resilience_laws_def by metis+

lemma update_node_logged: "rc_update_node R s nd = (s', e) \<Longrightarrow> jn s' = jn s @ [(UpdatedNode nd, e = None)]"
  and patch_status_logged: "rz_patch_status R s cr = (s', e) \<Longrightarrow> jn s' = jn s @ [(PatchedStatus cr, e = None)]"
  using all_laws loggedD[of jn "rc_update_node R" UpdatedNode] loggedD[of jn "rz_patch_status R" PatchedStatus]
  unfolding resilience_laws_def by metis+

lemma spawn_logged: "jn (rz_spawn R s x) = jn s @ [(Spawned (fst x), True)]"
  and get_node_name: "rc_get_node R s n = (s', Inr nd) \<Longrightarrow> nd_name nd = n"
  using all_laws unfolding resilience_laws_def by blast+

lemma taint_justified:
  assumes "taintNode R s n = (s', r)" "(n, h) \<in> H" "proven_down h" "rp_auto_recover spec"
  shows "within R jn spec H s s'"
proof -
  obtain s1 r1 where a: "rc_get_node R s n = (s1, r1)" by fastforce
  note q = get_node_quiet[OF a]
  show ?thesis
  proof (cases r1)
    case (Inl x)
    then show ?thesis using assms(1) a q by (auto simp: taintNode_def intro: adds_same)
  next
    case (Inr nd)
    show ?thesis
    proof (cases "list_ex is_recovery_taint (nd_taints nd)")
      case True
      then show ?thesis using assms(1) a q Inr by (auto simp: taintNode_def intro: adds_same)
    next
      case False
      let ?nd = "nd\<lparr>nd_taints := nd_taints nd @ [Taint recoveryTaintKey [] recoveryTaintEffect]\<rparr>"
      obtain s2 e where u: "rc_update_node R s1 ?nd = (s2, e)" by fastforce
      then have "s' = s2" using assms(1) a Inr False by (cases e) (simp_all add: taintNode_def)
      moreover have "justified R spec H (UpdatedNode ?nd)"
        using assms(2-4) get_node_name[OF a[unfolded Inr]] by (auto simp: is_recovery_taint_def)
      ultimately show ?thesis using update_node_logged[OF u] q by (intro adds_one[of _ _ _ "(UpdatedNode ?nd, e = None)"]) simp_all
    qed
  qed
qed

lemma untaint_justified:
  assumes "untaintNode R s n = (s', e)" "(n, h) \<in> H" "proven_up h"
  shows "within R jn spec H s s'"
proof -
  obtain s1 r1 where a: "rc_get_node R s n = (s1, r1)" by fastforce
  note q = get_node_quiet[OF a]
  show ?thesis
  proof (cases r1)
    case (Inl x)
    then show ?thesis using assms(1) a q by (auto simp: untaintNode_def intro: adds_same)
  next
    case (Inr nd)
    show ?thesis
    proof (cases "list_ex is_recovery_taint (nd_taints nd)")
      case False
      then show ?thesis using assms(1) a q Inr by (auto simp: untaintNode_def Let_def intro: adds_same)
    next
      case True
      let ?nd = "nd\<lparr>nd_taints := filter (\<lambda>t. \<not> is_recovery_taint t) (nd_taints nd)\<rparr>"
      obtain s2 e2 where u: "rc_update_node R s1 ?nd = (s2, e2)" by fastforce
      then have "s' = s2" using assms(1) a Inr True by (cases e2) (simp_all add: untaintNode_def Let_def)
      moreover have "\<not> list_ex is_recovery_taint (nd_taints ?nd)" by (simp add: list_ex_iff)
      then have "justified R spec H (UpdatedNode ?nd)"
        using assms(2,3) get_node_name[OF a[unfolded Inr]] by auto
      ultimately show ?thesis using update_node_logged[OF u] q by (intro adds_one[of _ _ _ "(UpdatedNode ?nd, e2 = None)"]) simp_all
    qed
  qed
qed

lemma move_traffic_justified:
  assumes "move_traffic R spec n h (p, st) = (p', st')" "(n, h) \<in> H" "proven_down h"
  shows "within R jn spec H (ps_world p) (ps_world p')"
proof -
  obtain s1 k1 e1 where i: "isolateNode R (ps_world p) n = (s1, k1, e1)" by (rule prod_cases3)
  obtain s2 k2 e2 where f: "failoverNode R (ps_world p) n = (s2, k2, e2)" by (rule prod_cases3)
  consider "ps_world p' = ps_world p"
    | "rp_auto_failover spec" "\<not> backup_works h" "ps_world p' = s1"
    | "rp_auto_failover spec" "backup_works h" "ps_world p' = s2"
    using assms(1) i f
    by (cases e1; cases e2) (auto simp: move_traffic_def Let_def backup_works_def split: if_splits)
  then show ?thesis
  proof cases
    case 2 then show ?thesis using isolate_justified[OF i assms(2,3)] by simp
  next
    case 3 then show ?thesis using failover_justified[OF f assms(2,3)] by simp
  qed simp
qed

lemma repair_justified:
  assumes "repair_node R spec n (p, st) = (p', st')" "(n, h) \<in> H" "proven_down h"
  shows "within R jn spec H (ps_world p) (ps_world p')"
proof -
  obtain s1 r where t: "taintNode R (ps_world p) n = (s1, r)" by fastforce
  let ?sp = "rz_spawn R s1 (n, cg_namespace (rp_primary spec), cg_daemonset (rp_primary spec))"
  consider "ps_world p' = ps_world p" | "rp_auto_recover spec" "ps_world p' = s1 \<or> ps_world p' = ?sp"
    using assms(1) t by (cases r) (auto simp: repair_node_def split: if_splits bool.splits prod.splits)
  then show ?thesis
  proof cases
    case 2
    note s1 = taint_justified[OF t assms(2,3) 2(1)]
    moreover have "within R jn spec H s1 ?sp"
      using assms(2,3) 2(1) spawn_logged[of s1] by (intro adds_one[of _ _ _ "(Spawned n, True)"]) auto
    ultimately show ?thesis using 2(2) adds_trans by metis
  qed simp
qed

lemma bring_back_justified:
  assumes "bring_back R n (p, st) = (p', st')" "(n, h) \<in> H" "proven_up h"
  shows "within R jn spec H (ps_world p) (ps_world p')"
proof -
  obtain s1 e where f: "failbackNode R (ps_world p) n = (s1, e)" by fastforce
  obtain s2 e2 where u: "untaintNode R s1 n = (s2, e2)" by fastforce
  have "ps_world p' = s1 \<or> ps_world p' = s2"
    using assms(1) f u by (cases e) (auto simp: bring_back_def Let_def split: prod.splits)
  then show ?thesis
    using adds_trans[OF failback_justified[OF f assms(2,3)] untaint_justified[OF u assms(2,3)]] failback_justified[OF f assms(2,3)]
    by metis
qed

lemma node_step_justified:
  assumes "node_step R spec previous (p, sts) (n, h) = (p', sts')" "(n, h) \<in> H"
  shows "within R jn spec H (ps_world p) (ps_world p')"
proof -
  let ?st = "buildNodeStatus (rc_now R (ps_world p)) n h (previous n)"
  obtain p1 st1 where m: "move_traffic R spec n h (p, ?st) = (p1, st1)" by fastforce
  obtain p2 st2 where r: "repair_node R spec n (p1, st1) = (p2, st2)" by fastforce
  obtain p3 st3 where b: "bring_back R n (p, ?st) = (p3, st3)" by fastforce
  consider "p' = p" | "proven_down h" "p' = p2" | "proven_up h" "p' = p3"
    using assms(1) m r b
    by (auto simp: node_step_def Let_def handlePrimaryDown_def proven_down_def proven_up_def split: if_splits)
  then show ?thesis
  proof cases
    case 2
    then show ?thesis
      using adds_trans[OF move_traffic_justified[OF m assms(2)] repair_justified[OF r assms(2)]] by simp
  next
    case 3 then show ?thesis using bring_back_justified[OF b assms(2)] by simp
  qed simp
qed

lemma nodes_justified:
  assumes "set healths \<subseteq> H"
  shows "within R jn spec H (ps_world (fst x)) (ps_world (fst (foldl (node_step R spec previous) x healths)))"
proof (rule adds_foldl[of healths jn _ "\<lambda>x. ps_world (fst x)"])
  fix nh and y :: "'c pass \<times> node_cni_status list" assume "nh \<in> set healths"
  then have "(fst nh, snd nh) \<in> H" using assms by auto
  moreover have "node_step R spec previous (fst y, snd y) (fst nh, snd nh) =
    (fst (node_step R spec previous y nh), snd (node_step R spec previous y nh))" by simp
  ultimately show "within R jn spec H (ps_world (fst y)) (ps_world (fst (node_step R spec previous y nh)))"
    by (intro node_step_justified)
qed

lemma reconcile_justified:
  assumes "resilience_reconcile R (s, m) name = ((s', m'), r)"
  shows "\<exists>healths cr. within R jn (rl_spec cr) (set healths) s s' \<and>
    (healths \<noteq> [] \<longrightarrow> (\<exists>t0 t1 t2 nds. rz_get R s name = (t0, Inr cr) \<and> rz_nodes R t1 = (t2, Inr nds) \<and>
       node_healths (unixSeconds (rc_now R t2)) nds = Inr healths))"
proof -
  obtain t0 r0 where g: "rz_get R s name = (t0, r0)" by fastforce
  note q0 = get_cr_quiet[OF g]
  have stop: ?thesis if "jn s' = jn s" using that by (intro exI[of _ "[]"]) (simp add: adds_same)
  show ?thesis
  proof (cases r0)
    case (Inl x)
    then show ?thesis using assms g q0 stop by (simp add: resilience_reconcile_def)
  next
    case (Inr cr)
    obtain t1 r1 where f: "failedOverNodes R t0 = (t1, r1)" by fastforce
    have q1: "jn t1 = jn s"
      using f q0 slices_quiet[of t0 "[(shadowLabelKey, ''true'')]"] by (auto simp: failedOverNodes_def split: sum.splits prod.splits)
    show ?thesis
    proof (cases r1)
      case (Inl x)
      then show ?thesis using assms g f q1 Inr stop by (simp add: resilience_reconcile_def)
    next
      case fo: (Inr fo)
      obtain t2 e2 where en: "ensureGates R t1 fo = (t2, e2)" by fastforce
      have w2: "within R jn (rl_spec cr) H s t2" for H
        by (rule adds_trans[OF _ ensureGates_justified[OF en]]) (rule adds_same, rule q1)
      have only_gates: ?thesis if "s' = t2 \<or> jn s' = jn t2"
        using w2[of "{}"] that adds_trans[OF w2 adds_same, of s'] by (intro exI[of _ "[]"] exI[of _ cr]) auto
      obtain t3 r3 where nd: "rz_nodes R t2 = (t3, r3)" by fastforce
      note q3 = nodes_quiet[OF nd]
      show ?thesis
      proof (cases "e2 = None \<and> (\<exists>nds hs. r3 = Inr nds \<and> node_healths (unixSeconds (rc_now R t3)) nds = Inr hs)")
        case False
        then have "s' = t2 \<or> s' = t3" using assms g f Inr fo en nd
          by (auto simp: resilience_reconcile_def split: option.splits sum.splits)
        then show ?thesis using only_gates q3 by auto
      next
        case True
        then obtain nds hs where e2: "e2 = None" and nds: "r3 = Inr nds" and hs: "node_healths (unixSeconds (rc_now R t3)) nds = Inr hs" by blast
        define p where "p = \<lparr>ps_world = t3, ps_memory = m, ps_failovers = rt_failover_count (rl_status cr),
          ps_recoveries = rt_recovery_count (rl_status cr), ps_failed_over = fo\<rparr>"
        have fin: "finish_reconcile R cr p hs = ((s', m'), r)"
          using assms g f Inr fo en nd e2 nds hs by (simp add: resilience_reconcile_def p_def)
        obtain p' sts where rn: "reconcile_nodes R cr p hs = (p', sts)" by fastforce
        have w3: "within R jn (rl_spec cr) (set hs) t3 (ps_world p')"
          using nodes_justified[OF subset_refl, where x = "(p, [])"] rn by (simp add: reconcile_nodes_def p_def) (metis fst_conv)
        obtain cr' where "\<exists>e. rz_patch_status R (ps_world p') cr' = (s', e)"
          using fin rn by (auto simp: finish_reconcile_def updateStatusAndRequeue_def Let_def split: option.splits prod.splits)
        then obtain e where "rz_patch_status R (ps_world p') cr' = (s', e)" by blast
        from patch_status_logged[OF this] have w4: "within R jn (rl_spec cr) (set hs) (ps_world p') s'"
          by (intro adds_one[of _ _ _ "(PatchedStatus cr', e = None)"]) simp_all
        have "within R jn (rl_spec cr) (set hs) t2 t3" by (rule adds_same) (rule q3)
        then have "within R jn (rl_spec cr) (set hs) s s'" using w2 w3 w4 by (meson adds_trans)
        then show ?thesis using g Inr nd nds hs by (intro exI[of _ hs] exI[of _ cr]) blast
      qed
    qed
  qed
qed

end

text \<open>
  C5. A pass acts only on proof. Whatever fails in between, it switches a gate off or writes a shadow only for a node that is
  proven broken, and only with automatic failover (a shadow only when the backup path of the node works);
  it removes a shadow only when the node is proven working, or broken with no working backup; it taints and
  restarts only a node proven broken, with automatic recovery, and removes the taint only when the node is proven
  working. A node without reports, or not blamed but not seen working, is left as it is.
\<close>

theorem reconcile_acts_on_proof:
  assumes "resilience_laws R jn" "resilience_reconcile R (s, m) name = ((s', m'), r)"
  shows "\<exists>healths cr. adds jn (\<lambda>w. justified R (rl_spec cr) (set healths) (fst w)) s s' \<and>
    (healths \<noteq> [] \<longrightarrow> (\<exists>t0 t1 t2 nds. rz_get R s name = (t0, Inr cr) \<and> rz_nodes R t1 = (t2, Inr nds) \<and>
       node_healths (unixSeconds (rc_now R t2)) nds = Inr healths))"
  by (rule recorded_resilience.reconcile_justified[OF recorded_resilience.intro[OF assms(1)] assms(2)])

subsection \<open>A restart comes to an end\<close>

text \<open>Waiting moves the clock by at least what was asked for, and nothing turns it back.\<close>

definition clock_laws :: "('c, 'z) recovery_api_scheme \<Rightarrow> bool" where
  "clock_laws R \<longleftrightarrow>
     (\<forall>s d s'. rc_wait R s d = (s', False) \<longrightarrow> rc_now R s + d \<le> rc_now R s') \<and>
     (\<forall>s opt s' r. fo_pods R s opt = (s', r) \<longrightarrow> rc_now R s \<le> rc_now R s')"

lemma wait_ready_returns:
  assumes "clock_laws R"
  shows "\<exists>s' e. wait_ready R opts n uid deadline s = Some (s', e) \<and>
    (e = None \<longrightarrow> (\<exists>t ps. fo_pods R t opts = (s', Inr ps) \<and> list_ex (ready_replacement n uid) ps)) \<and>
    (e = Some (ReadyTimeout n) \<longrightarrow> deadline \<le> rc_now R s')"
proof (induction "nat (deadline - rc_now R s)" arbitrary: s rule: less_induct)
  case less
  show ?case
  proof (cases "rc_now R s < deadline")
    case False
    then show ?thesis by (subst wait_ready.simps) simp
  next
    case True
    obtain s1 b where w: "rc_wait R s (3 * second) = (s1, b)" by fastforce
    obtain s2 r where l: "fo_pods R s1 opts = (s2, r)" by fastforce
    show ?thesis
    proof (cases b)
      case True
      then show ?thesis using \<open>rc_now R s < deadline\<close> w by (subst wait_ready.simps) simp
    next
      case False
      then have "b = False" by simp
      then have "rc_now R s + 3 * second \<le> rc_now R s1" using assms w unfolding clock_laws_def by blast
      moreover have "rc_now R s1 \<le> rc_now R s2" using assms l unfolding clock_laws_def by blast
      ultimately have "rc_now R s + 3 * second \<le> rc_now R s2" by linarith
      then have "nat (deadline - rc_now R s2) < nat (deadline - rc_now R s)"
        using True by (simp add: second_def)
      note IH = less[OF this]
      show ?thesis
      proof (cases "\<exists>ps. r = Inr ps \<and> list_ex (ready_replacement n uid) ps")
        case True
        then obtain ps where ps: "r = Inr ps" "list_ex (ready_replacement n uid) ps" by blast
        then have "wait_ready R opts n uid deadline s = Some (s2, None)"
          using \<open>rc_now R s < deadline\<close> w l False by (subst wait_ready.simps) simp
        then show ?thesis using l ps by auto
      next
        case go_on: False
        then have "wait_ready R opts n uid deadline s = wait_ready R opts n uid deadline s2"
          using \<open>rc_now R s < deadline\<close> w l False by (subst wait_ready.simps) (auto split: sum.splits)
        then show ?thesis using IH by simp
      qed
    qed
  qed
qed

text \<open>
  C34. The restart of a CNI agent pod always returns, however often the listing fails, and reports success only when
  the last listing showed a ready pod on the node that is not the deleted one; it gives up no earlier than a minute after
  the deletion.
\<close>

theorem restart_returns:
  assumes "clock_laws R"
  shows "\<exists>s' e. restartCNIAgentPod R s n ns ds = Some (s', e) \<and>
    (e = None \<longrightarrow> (\<exists>t ps target s0 s1. rc_delete_pod R s0 target = (s1, None) \<and> pd_node target = n \<and>
       fo_pods R t \<lparr>lo_ns = Some ns, lo_node = None, lo_labels = [(''k8s-app'', ds)]\<rparr> = (s', Inr ps) \<and>
       (\<exists>p \<in> set ps. pd_node p = n \<and> pd_uid p \<noteq> pd_uid target \<and> (''Ready'', ''True'') \<in> set (pd_conditions p)))) \<and>
    (e = Some (ReadyTimeout n) \<longrightarrow> (\<exists>target s0 s1. rc_delete_pod R s0 target = (s1, None) \<and> rc_now R s1 + 60 * second \<le> rc_now R s'))"
proof -
  let ?opts = "\<lparr>lo_ns = Some ns, lo_node = None, lo_labels = [(''k8s-app'', ds)]\<rparr>"
  obtain s0 r where l: "fo_pods R s ?opts = (s0, r)" by fastforce
  show ?thesis
  proof (cases "\<exists>ps target. r = Inr ps \<and> find (\<lambda>p. pd_node p = n) ps = Some target")
    case False
    then show ?thesis using l by (auto simp: restartCNIAgentPod_def Let_def split: sum.splits option.splits)
  next
    case True
    then obtain ps target where r: "r = Inr ps" and f: "find (\<lambda>p. pd_node p = n) ps = Some target" by blast
    then have node: "pd_node target = n" using find_SomeD[OF f] by simp
    obtain s1 e1 where d: "rc_delete_pod R s0 target = (s1, e1)" by fastforce
    show ?thesis
    proof (cases e1)
      case (Some x)
      then show ?thesis using l r f d by (simp add: restartCNIAgentPod_def Let_def)
    next
      case None
      have "restartCNIAgentPod R s n ns ds = wait_ready R ?opts n (pd_uid target) (rc_now R s1 + cniPodReadyTimeout) s1"
        using l r f d None by (simp add: restartCNIAgentPod_def Let_def)
      with wait_ready_returns[OF assms, of ?opts n "pd_uid target" "rc_now R s1 + cniPodReadyTimeout" s1]
      obtain s' e where w: "restartCNIAgentPod R s n ns ds = Some (s', e)"
        "e = None \<longrightarrow> (\<exists>t ps. fo_pods R t ?opts = (s', Inr ps) \<and> list_ex (ready_replacement n (pd_uid target)) ps)"
        "e = Some (ReadyTimeout n) \<longrightarrow> rc_now R s1 + cniPodReadyTimeout \<le> rc_now R s'" by auto
      have "\<exists>t ps. fo_pods R t ?opts = (s', Inr ps) \<and>
         (\<exists>p \<in> set ps. pd_node p = n \<and> pd_uid p \<noteq> pd_uid target \<and> (''Ready'', ''True'') \<in> set (pd_conditions p))" if "e = None"
        using w(2) that unfolding list_ex_iff ready_replacement_def pod_ready_def by meson
      then show ?thesis using w(1,3) d node None unfolding cniPodReadyTimeout_def by blast
    qed
  qed
qed

end
