(* ===== verification/Health_Props.thy ===== *)
theory Health_Props
  imports Health "HOL-Library.Sublist"
begin

text \<open>
  What the verdict proves, that one sweep of the ring is enough to pin down a single fault, and when a streak flips.
\<close>

subsection \<open>The verdict\<close>

definition blamed :: "string list \<Rightarrow> edge list \<Rightarrow> (string \<Rightarrow> bool) \<Rightarrow> string set" where
  "blamed nds edges quiet = {n \<in> set nds. proven_broken edges quiet n}"

definition unexplained :: "string list \<Rightarrow> edge list \<Rightarrow> (string \<Rightarrow> bool) \<Rightarrow> edge \<Rightarrow> bool" where
  "unexplained nds edges quiet e \<longleftrightarrow>
     \<not> e_ok e \<and> e_from e \<notin> blamed nds edges quiet \<and> e_to e \<notin> blamed nds edges quiet"

abbreviation link_of :: "edge \<Rightarrow> string \<times> string" where
  "link_of e \<equiv> (min (e_from e) (e_to e), max (e_from e) (e_to e))"

abbreviation ends_work :: "edge list \<Rightarrow> edge \<Rightarrow> bool" where
  "ends_work edges e \<equiv> seenWorking edges (e_from e) \<and> seenWorking edges (e_to e)"

lemma seenWorking_iff: "seenWorking edges n \<longleftrightarrow> (\<exists>e \<in> set edges. e_ok e \<and> (e_from e = n \<or> e_to e = n))"
  by (simp add: seenWorking_def list_ex_iff)

lemma proven_broken_iff:
  "proven_broken edges quiet n \<longleftrightarrow>
     (\<exists>e \<in> set edges. e_to e = n) \<and> (\<forall>e \<in> set edges. e_to e = n \<longrightarrow> \<not> e_ok e) \<and>
     ((\<exists>e \<in> set edges. e_from e = n) \<and> (\<forall>e \<in> set edges. e_from e = n \<longrightarrow> \<not> e_ok e) \<or> quiet n) \<and>
     (\<exists>e \<in> set edges. e_ok e \<and> e_from e \<noteq> n \<and> e_to e \<noteq> n)"
  by (auto simp: proven_broken_def touching_def allFailed_def otherWorks_def list_ex_iff filter_empty_conv Let_def)

lemma link_fold:
  assumes "set (vd_nodes v) = B"
  shows "vd_nodes (foldl (link_step edges) v es) = vd_nodes v"
    "vd_ambiguous (foldl (link_step edges) v es) \<longleftrightarrow> vd_ambiguous v \<or>
       (\<exists>e \<in> set es. \<not> e_ok e \<and> e_from e \<notin> B \<and> e_to e \<notin> B \<and> \<not> ends_work edges e)"
    "set (vd_links (foldl (link_step edges) v es)) = set (vd_links v) \<union>
       link_of ` {e \<in> set es. \<not> e_ok e \<and> e_from e \<notin> B \<and> e_to e \<notin> B \<and> ends_work edges e}"
    "distinct (vd_links v) \<Longrightarrow> distinct (vd_links (foldl (link_step edges) v es))"
proof -
  have "vd_nodes (foldl (link_step edges) v es) = vd_nodes v \<and>
    (vd_ambiguous (foldl (link_step edges) v es) \<longleftrightarrow> vd_ambiguous v \<or>
       (\<exists>e \<in> set es. \<not> e_ok e \<and> e_from e \<notin> B \<and> e_to e \<notin> B \<and> \<not> ends_work edges e)) \<and>
    set (vd_links (foldl (link_step edges) v es)) = set (vd_links v) \<union>
       link_of ` {e \<in> set es. \<not> e_ok e \<and> e_from e \<notin> B \<and> e_to e \<notin> B \<and> ends_work edges e} \<and>
    (distinct (vd_links v) \<longrightarrow> distinct (vd_links (foldl (link_step edges) v es)))"
    using assms
  proof (induction es arbitrary: v)
    case (Cons e es)
    have nodes: "set (vd_nodes (link_step edges v e)) = B" using Cons.prems by (simp add: link_step_def Let_def)
    note IH = Cons.IH[OF nodes]
    consider "e_ok e \<or> e_from e \<in> B \<or> e_to e \<in> B" |
      "\<not> e_ok e" "e_from e \<notin> B" "e_to e \<notin> B" "\<not> ends_work edges e" |
      "\<not> e_ok e" "e_from e \<notin> B" "e_to e \<notin> B" "ends_work edges e" by blast
    then show ?case
    proof cases
      case 1
      then have "link_step edges v e = v" using Cons.prems by (auto simp: link_step_def)
      then show ?thesis using IH 1 by auto
    next
      case 2
      then have "link_step edges v e = v\<lparr>vd_ambiguous := True\<rparr>" using Cons.prems by (auto simp: link_step_def)
      then show ?thesis using IH 2 by auto
    next
      case 3
      then have "link_step edges v e = (if link_of e \<in> set (vd_links v) then v else v\<lparr>vd_links := vd_links v @ [link_of e]\<rparr>)"
        using Cons.prems by (auto simp: link_step_def Let_def)
      moreover have "{x \<in> set (e # es). \<not> e_ok x \<and> e_from x \<notin> B \<and> e_to x \<notin> B \<and> ends_work edges x} =
        insert e {x \<in> set es. \<not> e_ok x \<and> e_from x \<notin> B \<and> e_to x \<notin> B \<and> ends_work edges x}" using 3 by auto
      ultimately show ?thesis using IH 3 by (cases "link_of e \<in> set (vd_links v)") auto
    qed
  qed simp
  then show "vd_nodes (foldl (link_step edges) v es) = vd_nodes v"
    "vd_ambiguous (foldl (link_step edges) v es) \<longleftrightarrow> vd_ambiguous v \<or>
       (\<exists>e \<in> set es. \<not> e_ok e \<and> e_from e \<notin> B \<and> e_to e \<notin> B \<and> \<not> ends_work edges e)"
    "set (vd_links (foldl (link_step edges) v es)) = set (vd_links v) \<union>
       link_of ` {e \<in> set es. \<not> e_ok e \<and> e_from e \<notin> B \<and> e_to e \<notin> B \<and> ends_work edges e}"
    "distinct (vd_links v) \<Longrightarrow> distinct (vd_links (foldl (link_step edges) v es))" by blast+
qed

lemma classify_facts:
  shows "vd_nodes (classify_probes nds edges quiet) = filter (proven_broken edges quiet) nds"
    "vd_ambiguous (classify_probes nds edges quiet) \<longleftrightarrow>
       (\<exists>e \<in> set edges. unexplained nds edges quiet e \<and> \<not> ends_work edges e)"
    "set (vd_links (classify_probes nds edges quiet)) = link_of ` {e \<in> set edges. unexplained nds edges quiet e \<and> ends_work edges e}"
    "distinct (vd_links (classify_probes nds edges quiet))"
  unfolding classify_probes_def unexplained_def
  by (simp_all add: link_fold[OF refl] blamed_def conj_ac)

text \<open>The true state of the network: which nodes and which links (in either direction) are broken.\<close>

definition gets_through :: "string set \<Rightarrow> (string \<times> string) set \<Rightarrow> edge \<Rightarrow> bool" where
  "gets_through B L e \<longleftrightarrow> e_from e \<notin> B \<and> e_to e \<notin> B \<and> (e_from e, e_to e) \<notin> L \<and> (e_to e, e_from e) \<notin> L"

lemma working_end_healthy:
  assumes "\<forall>e \<in> set edges. e_ok e \<longleftrightarrow> gets_through B L e" "seenWorking edges n"
  shows "n \<notin> B"
  using assms by (auto simp: seenWorking_iff gets_through_def)

text \<open>
  C24. Whatever is broken, the verdict is sound. A link it names is really broken and both its ends are healthy; a node it
  names is really broken, or none of the links it was probed over works; and every failed probe touches a
  named node or a named link, or the verdict says that it is ambiguous.
\<close>

theorem classify_sound:
  assumes "\<forall>e \<in> set edges. e_ok e \<longleftrightarrow> gets_through B L e" "v = classify_probes nds edges quiet"
  shows "(\<forall>(a, b) \<in> set (vd_links v). a \<notin> B \<and> b \<notin> B \<and> ((a, b) \<in> L \<or> (b, a) \<in> L)) \<and>
    (\<forall>n \<in> set (vd_nodes v). n \<in> B \<or>
       (\<forall>e \<in> set edges. e_to e = n \<longrightarrow> e_from e \<in> B \<or> (e_from e, n) \<in> L \<or> (n, e_from e) \<in> L)) \<and>
    (vd_ambiguous v \<or> (\<forall>e \<in> set edges. \<not> e_ok e \<longrightarrow>
       e_from e \<in> set (vd_nodes v) \<or> e_to e \<in> set (vd_nodes v) \<or> link_of e \<in> set (vd_links v)))"
proof (intro conjI)
  show "\<forall>(a, b) \<in> set (vd_links v). a \<notin> B \<and> b \<notin> B \<and> ((a, b) \<in> L \<or> (b, a) \<in> L)"
  proof (intro ballI, clarify)
    fix a b assume "(a, b) \<in> set (vd_links v)"
    then obtain e where e: "e \<in> set edges" "\<not> e_ok e" "ends_work edges e" "(a, b) = link_of e"
      unfolding assms(2) classify_facts(3) unexplained_def by blast
    have "e_from e \<notin> B" "e_to e \<notin> B" using working_end_healthy[OF assms(1)] e(3) by blast+
    moreover from this have "(e_from e, e_to e) \<in> L \<or> (e_to e, e_from e) \<in> L"
      using e(1,2) assms(1) by (auto simp: gets_through_def)
    ultimately show "a \<notin> B \<and> b \<notin> B \<and> ((a, b) \<in> L \<or> (b, a) \<in> L)"
      using e(4) by (cases "e_from e \<le> e_to e") (auto simp: min_def max_def)
  qed
  show "\<forall>n \<in> set (vd_nodes v). n \<in> B \<or>
       (\<forall>e \<in> set edges. e_to e = n \<longrightarrow> e_from e \<in> B \<or> (e_from e, n) \<in> L \<or> (n, e_from e) \<in> L)"
    using assms(1) unfolding assms(2) classify_facts(1) by (auto simp: proven_broken_iff gets_through_def)
  have b: "set (vd_nodes v) = blamed nds edges quiet" unfolding assms(2) classify_facts(1) by (auto simp: blamed_def)
  show "vd_ambiguous v \<or> (\<forall>e \<in> set edges. \<not> e_ok e \<longrightarrow>
       e_from e \<in> set (vd_nodes v) \<or> e_to e \<in> set (vd_nodes v) \<or> link_of e \<in> set (vd_links v))"
    using classify_facts(2,3)[of nds edges quiet] b unfolding assms(2) by (auto simp: unexplained_def)
qed

subsection \<open>The ring\<close>

lemma index_of_nth: "distinct xs \<Longrightarrow> i < length xs \<Longrightarrow> index_of xs (xs ! i) = Some i"
  by (induction xs arbitrary: i) (auto simp: nth_Cons' split: if_splits)

lemma index_of_Some: "index_of xs x = Some i \<Longrightarrow> i < length xs \<and> xs ! i = x"
  by (induction xs arbitrary: i) (auto split: if_splits)

definition ring_offset :: "nat \<Rightarrow> nat \<Rightarrow> nat" where
  "ring_offset n r = r mod (n div 2) + 1"

lemma ringTarget_at:
  assumes "distinct nds" "2 \<le> length nds" "i < length nds"
  shows "ringTarget nds (nds ! i) r = nds ! ((i + ring_offset (length nds) r) mod length nds)"
proof -
  have "ringOffsets (length nds) ! (r mod (length nds div 2)) = ring_offset (length nds) r"
    using assms(2) by (simp add: ringOffsets_def ring_offset_def del: upt_Suc)
  moreover have "ringOffsets (length nds) \<noteq> []" "length (ringOffsets (length nds)) = length nds div 2"
    using assms(2) by (auto simp: ringOffsets_def)
  ultimately show ?thesis by (simp add: ringTarget_def Let_def index_of_nth[OF assms(1,3)])
qed

lemma ring_offset_bounds: "2 \<le> n \<Longrightarrow> 0 < ring_offset n r \<and> ring_offset n r \<le> n div 2 \<and> ring_offset n r < n"
  unfolding ring_offset_def using mod_less_divisor[of "n div 2" r] by linarith

lemma ring_offset_in_window:
  assumes "0 < d" "d \<le> n div 2"
  shows "\<exists>r \<in> {r0..<r0 + n div 2}. ring_offset n r = d"
proof -
  let ?h = "n div 2"
  let ?r = "r0 + (d - 1 + (?h - r0 mod ?h)) mod ?h"
  have "?r mod ?h = (r0 mod ?h + (d - 1 + (?h - r0 mod ?h))) mod ?h"
    by (simp add: mod_simps)
  also have "r0 mod ?h + (d - 1 + (?h - r0 mod ?h)) = d - 1 + ?h"
    using mod_less_divisor[of ?h r0] assms by linarith
  also have "(d - 1 + ?h) mod ?h = d - 1" using assms by (simp only: mod_add_self2) (simp add: mod_less)
  finally have "ring_offset n ?r = d" using assms by (simp add: ring_offset_def)
  moreover have "?r \<in> {r0..<r0 + ?h}" using assms by simp
  ultimately show ?thesis by blast
qed

lemma mod_sum: "a < n \<Longrightarrow> b < (n :: nat) \<Longrightarrow> (a + b) mod n = (if a + b < n then a + b else a + b - n)"
  by (simp add: mod_if)

lemma shift_mod_neq:
  assumes "i < n" "0 < d" "d < (n :: nat)"
  shows "(i + d) mod n \<noteq> i"
  using assms by (cases "i + d < n") (simp_all add: mod_sum)

lemma shift_mod_inj:
  assumes "(i + d) mod n = (k + d) mod n" "i < n" "k < (n :: nat)" "d < n"
  shows "i = k"
  using assms by (auto simp: mod_sum split: if_splits)

lemma ringTarget_other:
  assumes "distinct nds" "2 \<le> length nds" "x \<in> set nds"
  shows "ringTarget nds x r \<in> set nds" "ringTarget nds x r \<noteq> x"
proof -
  obtain i where i: "i < length nds" "x = nds ! i" using assms(3) by (metis in_set_conv_nth)
  let ?j = "(i + ring_offset (length nds) r) mod length nds"
  have j: "?j < length nds" "?j \<noteq> i"
    using shift_mod_neq[OF i(1)] ring_offset_bounds[OF assms(2), of r] by (auto intro!: mod_less_divisor)
  show "ringTarget nds x r \<in> set nds" "ringTarget nds x r \<noteq> x"
    using ringTarget_at[OF assms(1,2) i(1), of r] j i nth_eq_iff_index_eq[OF assms(1), of ?j i] by auto
qed

lemma ringTarget_inj:
  assumes "distinct nds" "2 \<le> length nds"
  shows "inj_on (\<lambda>x. ringTarget nds x r) (set nds)"
proof (rule inj_onI)
  fix x y assume xy: "x \<in> set nds" "y \<in> set nds" "ringTarget nds x r = ringTarget nds y r"
  obtain i where i: "i < length nds" "x = nds ! i" using xy by (metis in_set_conv_nth)
  obtain k where k: "k < length nds" "y = nds ! k" using xy by (metis in_set_conv_nth)
  let ?n = "length nds" and ?d = "ring_offset (length nds) r"
  have "nds ! ((i + ?d) mod ?n) = nds ! ((k + ?d) mod ?n)"
    using xy(3) ringTarget_at[OF assms i(1)] ringTarget_at[OF assms k(1)] by (simp add: i k)
  then have "(i + ?d) mod ?n = (k + ?d) mod ?n"
    using assms(2) by (subst (asm) nth_eq_iff_index_eq[OF assms(1)]) (auto intro!: mod_less_divisor)
  from shift_mod_inj[OF this i(1) k(1)] show "x = y" using i k ring_offset_bounds[OF assms(2), of r] by simp
qed

lemma ring_pair:
  assumes "distinct nds" "2 \<le> length nds" "x \<in> set nds" "y \<in> set nds" "x \<noteq> y"
  shows "\<exists>r \<in> {r0..<r0 + length nds div 2}. ringTarget nds x r = y \<or> ringTarget nds y r = x"
proof -
  let ?n = "length nds"
  obtain i where i: "i < ?n" "x = nds ! i" using assms(3) by (metis in_set_conv_nth)
  obtain k where k: "k < ?n" "y = nds ! k" using assms(4) by (metis in_set_conv_nth)
  have shift: "\<exists>r \<in> {r0..<r0 + ?n div 2}. ringTarget nds (nds ! a) r = nds ! b"
    if "a < ?n" "b < ?n" "(a + d) mod ?n = b" "0 < d" "d \<le> ?n div 2" for a b d
    using ring_offset_in_window[OF that(4,5), of r0] ringTarget_at[OF assms(1,2) that(1)] that(3) by force
  define d where "d = (if i \<le> k then k - i else k + ?n - i)"
  have d: "0 < d" "d < ?n" "(i + d) mod ?n = k" "(k + (?n - d)) mod ?n = i"
    using assms(5) i k by (cases "i = k"; auto simp: d_def mod_sum)+
  show ?thesis
  proof (cases "d \<le> ?n div 2")
    case True then show ?thesis using shift[OF i(1) k(1) d(3,1)] i k by blast
  next
    case False
    then show ?thesis using shift[OF k(1) i(1) d(4)] d(2) i k by fastforce
  qed
qed

text \<open>
  C33. Every round every node probes one other node and is probed by one, and whenever the rounds of one sweep have passed,
  every pair of nodes has been probed in one of the two directions.
\<close>

theorem ring_covers_pairs:
  assumes "distinct nds" "2 \<le> length nds"
  shows "(\<forall>r. bij_betw (\<lambda>x. ringTarget nds x r) (set nds) (set nds) \<and> (\<forall>x \<in> set nds. ringTarget nds x r \<noteq> x)) \<and>
    (\<forall>x \<in> set nds. \<forall>y \<in> set nds. x \<noteq> y \<longrightarrow>
       (\<forall>r0. \<exists>r \<in> {r0..<r0 + length nds div 2}. ringTarget nds x r = y \<or> ringTarget nds y r = x))"
proof (intro conjI allI ballI impI)
  fix r
  have "(\<lambda>x. ringTarget nds x r) ` set nds \<subseteq> set nds" using ringTarget_other(1)[OF assms] by blast
  then have "(\<lambda>x. ringTarget nds x r) ` set nds = set nds"
    using endo_inj_surj[OF finite_set _ ringTarget_inj[OF assms]] by blast
  then show "bij_betw (\<lambda>x. ringTarget nds x r) (set nds) (set nds)"
    using ringTarget_inj[OF assms] by (simp add: bij_betw_def)
qed (use ringTarget_other(2)[OF assms] ring_pair[OF assms] in blast)+

theorem ring_covers_pairs_witness:
  "ringTarget [''a'', ''b'', ''c'', ''d''] ''a'' 0 = ''b'' \<and> ringTarget [''a'', ''b'', ''c'', ''d''] ''a'' 1 = ''c'' \<and>
   bij_betw (\<lambda>x. ringTarget [''a'', ''b'', ''c'', ''d''] x 1) {''a'', ''b'', ''c'', ''d''} {''a'', ''b'', ''c'', ''d''}"
proof -
  have "distinct [''a'', ''b'', ''c'', ''d'']" "2 \<le> length [''a'', ''b'', ''c'', ''d'']" by simp_all
  from ring_covers_pairs[OF this] have "bij_betw (\<lambda>x. ringTarget [''a'', ''b'', ''c'', ''d''] x 1)
      (set [''a'', ''b'', ''c'', ''d'']) (set [''a'', ''b'', ''c'', ''d''])" by blast
  moreover have "ringTarget [''a'', ''b'', ''c'', ''d''] ''a'' 0 = ''b''" "ringTarget [''a'', ''b'', ''c'', ''d''] ''a'' 1 = ''c''"
    by code_simp+
  ultimately show ?thesis by simp
qed

subsection \<open>One sweep pins down a single fault\<close>

text \<open>The probes of a sweep, when the agents of the quiet nodes report nothing.\<close>

definition sweep :: "string list \<Rightarrow> string set \<Rightarrow> (string \<times> string) set \<Rightarrow> (string \<Rightarrow> bool) \<Rightarrow> edge set" where
  "sweep nds B L quiet =
     {Edge x (ringTarget nds x r) (gets_through B L (Edge x (ringTarget nds x r) True)) |x r. x \<in> set nds \<and> \<not> quiet x}"

lemma sweepD:
  assumes "e \<in> sweep nds B L quiet" "distinct nds" "2 \<le> length nds"
  shows "e_ok e \<longleftrightarrow> gets_through B L e" "e_from e \<in> set nds" "e_to e \<in> set nds" "e_from e \<noteq> e_to e" "\<not> quiet (e_from e)"
  using assms ringTarget_other[OF assms(2,3)] by (auto simp: sweep_def gets_through_def) metis

lemma sweep_pair:
  assumes "distinct nds" "2 \<le> length nds" "x \<in> set nds" "y \<in> set nds" "x \<noteq> y" "\<not> quiet x" "\<not> quiet y"
  obtains e where "e \<in> sweep nds B L quiet" "e_ok e \<longleftrightarrow> gets_through B L (Edge x y True)" "{e_from e, e_to e} = {x, y}"
proof -
  obtain r where r: "ringTarget nds x r = y \<or> ringTarget nds y r = x" using ring_pair[OF assms(1-5)] by blast
  then show thesis
  proof
    assume "ringTarget nds x r = y"
    then have "Edge x y (gets_through B L (Edge x y True)) \<in> sweep nds B L quiet" using assms unfolding sweep_def by blast
    then show thesis by (rule that) simp_all
  next
    assume "ringTarget nds y r = x"
    then have "Edge y x (gets_through B L (Edge y x True)) \<in> sweep nds B L quiet" using assms unfolding sweep_def by blast
    then show thesis by (rule that) (auto simp: gets_through_def)
  qed
qed

lemma sweep_probed:
  assumes "distinct nds" "2 \<le> length nds" "y \<in> set nds"
  obtains x r where "x \<in> set nds" "x \<noteq> y" "ringTarget nds x r = y"
proof -
  have "(\<lambda>x. ringTarget nds x 0) ` set nds = set nds"
    using endo_inj_surj[OF finite_set _ ringTarget_inj[OF assms(1,2), of 0]] ringTarget_other(1)[OF assms(1,2)] by blast
  then obtain x where "x \<in> set nds" "ringTarget nds x 0 = y" using assms(3) by (metis imageE)
  moreover from this have "x \<noteq> y" using ringTarget_other(2)[OF assms(1,2), of x 0] by metis
  ultimately show thesis by (intro that[of x 0])
qed

lemma working_not_blamed:
  "e \<in> set edges \<Longrightarrow> e_ok e \<Longrightarrow> n \<in> {e_from e, e_to e} \<Longrightarrow> \<not> quiet n \<Longrightarrow> \<not> proven_broken edges quiet n"
  by (auto simp: proven_broken_iff)

lemma third_node:
  assumes "distinct nds" "3 \<le> length nds"
  obtains c where "c \<in> set nds" "c \<noteq> a" "c \<noteq> b"
proof -
  have "card (set nds - {a, b}) > 0"
    using distinct_card[OF assms(1)] assms(2) card_insert_le_m1[of 2 "{b}" a] diff_card_le_card_Diff[of "{a, b}" "set nds"] by simp
  then show thesis using that by (metis DiffE card.empty ex_in_conv insertCI less_irrefl)
qed

datatype fault = NoFault | NodeFault string | LinkFault string string

definition broken_nodes :: "fault \<Rightarrow> string set" where
  "broken_nodes f = (case f of NodeFault b \<Rightarrow> {b} | _ \<Rightarrow> {})"

definition broken_links :: "fault \<Rightarrow> (string \<times> string) set" where
  "broken_links f = (case f of LinkFault a b \<Rightarrow> {(a, b)} | _ \<Rightarrow> {})"

definition fault_in :: "string list \<Rightarrow> fault \<Rightarrow> bool" where
  "fault_in nds f = (case f of NoFault \<Rightarrow> True | NodeFault b \<Rightarrow> b \<in> set nds | LinkFault a b \<Rightarrow> a \<in> set nds \<and> b \<in> set nds \<and> a \<noteq> b)"

definition pinned :: "fault \<Rightarrow> verdict" where
  "pinned f = (case f of
       NoFault \<Rightarrow> \<lparr>vd_nodes = [], vd_links = [], vd_ambiguous = False\<rparr>
     | NodeFault b \<Rightarrow> \<lparr>vd_nodes = [b], vd_links = [], vd_ambiguous = False\<rparr>
     | LinkFault a b \<Rightarrow> \<lparr>vd_nodes = [], vd_links = [(min a b, max a b)], vd_ambiguous = False\<rparr>)"

lemma filter_single: "distinct xs \<Longrightarrow> b \<in> set xs \<Longrightarrow> (\<And>x. x \<in> set xs \<Longrightarrow> P x \<longleftrightarrow> x = b) \<Longrightarrow> filter P xs = [b]"
  by (induction xs) (auto simp: filter_empty_conv)

lemma singleton_list: "distinct xs \<Longrightarrow> set xs = {x} \<Longrightarrow> xs = [x]"
  by (metis distinct.simps(2) distinct_singleton list.set(1,2) neq_Nil_conv insert_not_empty singletonD subset_singletonD
      set_subset_Cons list.set_intros(1) set_empty)

lemma sweep_seen:
  assumes "set edges = sweep nds (broken_nodes f) (broken_links f) quiet" "distinct nds" "3 \<le> length nds"
    "\<And>x. quiet x \<Longrightarrow> f = NodeFault x" "x \<in> set nds" "f \<noteq> NodeFault x"
  obtains e where "e \<in> set edges" "e_ok e" "x \<in> {e_from e, e_to e}"
    "\<And>b. f = NodeFault b \<Longrightarrow> e_from e \<noteq> b \<and> e_to e \<noteq> b"
proof -
  have two: "2 \<le> length nds" using assms(3) by simp
  define b where "b = (case f of NoFault \<Rightarrow> x | NodeFault b \<Rightarrow> b | LinkFault a b \<Rightarrow> if x = a then b else a)"
  obtain c where c: "c \<in> set nds" "c \<noteq> x" "c \<noteq> b" by (rule third_node[OF assms(2,3)])
  have "\<not> quiet x" "\<not> quiet c" using assms(4,6) c(3) by (auto simp: b_def)
  then obtain e where "e \<in> sweep nds (broken_nodes f) (broken_links f) quiet"
      and e: "e_ok e \<longleftrightarrow> gets_through (broken_nodes f) (broken_links f) (Edge x c True)" "{e_from e, e_to e} = {x, c}"
    by (rule sweep_pair[OF assms(2) two assms(5) c(1) c(2)[symmetric]])
  then have e_in: "e \<in> set edges" using assms(1) by simp
  have "gets_through (broken_nodes f) (broken_links f) (Edge x c True)"
    using c assms(6) by (cases f) (force simp: gets_through_def broken_nodes_def broken_links_def b_def split: if_splits)+
  then have "e_ok e" using e(1) by simp
  moreover have "x \<in> {e_from e, e_to e}" using e(2) by blast
  moreover have "e_from e \<noteq> d \<and> e_to e \<noteq> d" if "f = NodeFault d" for d
  proof -
    have "d \<notin> {x, c}" using that c(3) assms(6) by (simp add: b_def)
    then show ?thesis using e(2) by blast
  qed
  ultimately show thesis using that[OF e_in] by blast
qed

lemma sweep_blames:
  assumes "set edges = sweep nds (broken_nodes f) (broken_links f) quiet" "distinct nds" "3 \<le> length nds"
    "\<And>x. quiet x \<Longrightarrow> f = NodeFault x" "x \<in> set nds"
  shows "proven_broken edges quiet x \<longleftrightarrow> f = NodeFault x"
proof
  assume "proven_broken edges quiet x"
  then show "f = NodeFault x"
    using sweep_seen[OF assms] working_not_blamed assms(4)[of x] by (metis (no_types))
next
  assume f: "f = NodeFault x"
  have two: "2 \<le> length nds" using assms(3) by simp
  have fails: "\<not> e_ok e" if "e \<in> set edges" "e_from e = x \<or> e_to e = x" for e
    using sweepD(1)[OF _ assms(2) two] that f unfolding assms(1) by (auto simp: gets_through_def broken_nodes_def)
  obtain y r where y: "y \<in> set nds" "y \<noteq> x" "ringTarget nds y r = x" by (rule sweep_probed[OF assms(2) two assms(5)])
  have "\<not> quiet y" using assms(4) f y(2) by blast
  then have in_edge: "\<exists>e \<in> set edges. e_to e = x" using y unfolding assms(1) sweep_def by force
  have out_edge: "(\<exists>e \<in> set edges. e_from e = x) \<or> quiet x"
    using assms(5) unfolding assms(1) sweep_def by force
  have fy: "f \<noteq> NodeFault y" using f y(2) by simp
  obtain e where e: "e \<in> set edges" "e_ok e" "\<And>b. f = NodeFault b \<Longrightarrow> e_from e \<noteq> b \<and> e_to e \<noteq> b"
    using sweep_seen[OF assms(1-4) y(1) fy, of thesis] by blast
  have elsewhere: "\<exists>e \<in> set edges. e_ok e \<and> e_from e \<noteq> x \<and> e_to e \<noteq> x" using e(1,2) e(3)[OF f] by blast
  have none_in: "\<forall>e \<in> set edges. e_to e = x \<longrightarrow> \<not> e_ok e" "\<forall>e \<in> set edges. e_from e = x \<longrightarrow> \<not> e_ok e"
    using fails by simp_all
  show "proven_broken edges quiet x"
    unfolding proven_broken_iff using in_edge out_edge none_in elsewhere by metis
qed

text \<open>
  C9. In a cluster of at least three nodes one sweep pins down a single fault exactly: if nothing is broken the verdict
  is clean, if one node is broken (its own agent may have gone silent) it names that node and nothing else, if
  one link is broken it names that link and blames neither end; it is never ambiguous.
\<close>

theorem sweep_pins_fault:
  assumes "set edges = sweep nds (broken_nodes f) (broken_links f) quiet" "distinct nds" "3 \<le> length nds"
    "\<And>x. quiet x \<Longrightarrow> f = NodeFault x" "fault_in nds f"
  shows "classify_probes nds edges quiet = pinned f"
proof -
  have two: "2 \<le> length nds" using assms(3) by simp
  note blames = sweep_blames[OF assms(1-4)]
  let ?v = "classify_probes nds edges quiet"
  have nodes: "vd_nodes ?v = (case f of NodeFault b \<Rightarrow> [b] | _ \<Rightarrow> [])"
    unfolding classify_facts(1) using assms(2,5) blames
    by (cases f) (auto simp: fault_in_def filter_empty_conv intro!: filter_single)
  have blamed: "blamed nds edges quiet = broken_nodes f"
    using blames assms(5) by (cases f) (auto simp: blamed_def broken_nodes_def fault_in_def)
  have open_edge: "f = LinkFault (e_from e) (e_to e) \<or> f = LinkFault (e_to e) (e_from e)"
    if "e \<in> set edges" "unexplained nds edges quiet e" for e
    using sweepD(1)[OF _ assms(2) two] that unfolding assms(1) unexplained_def blamed
    by (cases f) (auto simp: gets_through_def broken_nodes_def broken_links_def)
  have seen: "seenWorking edges x" if "x \<in> set nds" "f \<noteq> NodeFault x" for x
    using sweep_seen[OF assms(1-4) that] unfolding seenWorking_iff by (metis insertE singletonD)
  have works: "ends_work edges e" if "e \<in> set edges" "unexplained nds edges quiet e" for e
    using seen sweepD(2,3)[OF _ assms(2) two] open_edge[OF that] that(1) unfolding assms(1) by blast
  then have ambiguous: "\<not> vd_ambiguous ?v" unfolding classify_facts(2) by blast
  have links: "vd_links ?v = (case f of LinkFault a b \<Rightarrow> [(min a b, max a b)] | _ \<Rightarrow> [])"
  proof (cases f)
    case (LinkFault a b)
    have ab: "a \<in> set nds" "b \<in> set nds" "a \<noteq> b" using assms(5) LinkFault by (simp_all add: fault_in_def)
    have quiet: "\<not> quiet a" "\<not> quiet b" using assms(4) LinkFault by blast+
    obtain e where e0: "e \<in> sweep nds (broken_nodes f) (broken_links f) quiet"
      and e: "e_ok e \<longleftrightarrow> gets_through (broken_nodes f) (broken_links f) (Edge a b True)" "{e_from e, e_to e} = {a, b}"
      by (rule sweep_pair[OF assms(2) two ab quiet])
    have "unexplained nds edges quiet e"
      using e(1) unfolding unexplained_def blamed by (simp add: LinkFault broken_nodes_def broken_links_def gets_through_def)
    then have "link_of e \<in> set (vd_links ?v)" using works e0 unfolding classify_facts(3) assms(1) by blast
    moreover have "link_of e = (min a b, max a b)"
      using e(2) unfolding doubleton_eq_iff by (elim disjE) (simp_all add: min.commute max.commute)
    moreover have "set (vd_links ?v) \<subseteq> {(min a b, max a b)}"
    proof
      fix l assume "l \<in> set (vd_links ?v)"
      then obtain d where d: "d \<in> set edges" "unexplained nds edges quiet d" "l = link_of d"
        unfolding classify_facts(3) by blast
      then show "l \<in> {(min a b, max a b)}"
        using open_edge[OF d(1,2)] unfolding LinkFault by (elim disjE) (simp_all add: min.commute max.commute)
    qed
    ultimately have "set (vd_links ?v) = {(min a b, max a b)}" by auto
    then show ?thesis using singleton_list[OF classify_facts(4)] by (simp add: LinkFault)
  next
    case NoFault
    then have "set (vd_links ?v) = {}" using open_edge unfolding classify_facts(3) by blast
    then show ?thesis by (simp add: NoFault)
  next
    case (NodeFault b)
    then have "set (vd_links ?v) = {}" using open_edge unfolding classify_facts(3) by blast
    then show ?thesis by (simp add: NodeFault)
  qed
  show ?thesis
    using nodes links ambiguous by (cases f) (simp_all add: pinned_def verdict.equality)
qed

text \<open>Three nodes; the agent of the broken one is silent.\<close>

abbreviation trio :: "string list" where
  "trio \<equiv> [''a'', ''b'', ''c'']"

abbreviation trio_edges :: "edge list" where
  "trio_edges \<equiv> [Edge ''a'' ''b'' False, Edge ''c'' ''a'' True]"

lemma trio_ring: "ringTarget trio ''a'' r = ''b''" "ringTarget trio ''b'' r = ''c''" "ringTarget trio ''c'' r = ''a''"
  by (simp_all add: ringTarget_def ringOffsets_def)

lemma trio_sweep:
  "set trio_edges = sweep trio (broken_nodes (NodeFault ''b'')) (broken_links (NodeFault ''b'')) (\<lambda>x. x = ''b'')"
proof -
  have "sweep trio (broken_nodes (NodeFault ''b'')) (broken_links (NodeFault ''b'')) (\<lambda>x. x = ''b'') =
    (\<lambda>(x, y). Edge x y (gets_through {''b''} {} (Edge x y True))) ` {(x, ringTarget trio x r) |x r. x = ''a'' \<or> x = ''c''}"
    unfolding sweep_def broken_nodes_def broken_links_def by (auto simp: image_iff)
  also have "{(x, ringTarget trio x r) |x r. x = ''a'' \<or> x = ''c''} = {(''a'', ''b''), (''c'', ''a'')}"
    using trio_ring by auto
  finally show ?thesis by (simp add: gets_through_def)
qed

theorem sweep_pins_fault_witness:
  "classify_probes trio trio_edges (\<lambda>x. x = ''b'') = \<lparr>vd_nodes = [''b''], vd_links = [], vd_ambiguous = False\<rparr>"
  using sweep_pins_fault[OF trio_sweep] by (simp add: fault_in_def pinned_def)

theorem classify_sound_witness:
  "vd_nodes (classify_probes trio trio_edges (\<lambda>x. x = ''b'')) = [''b''] \<and>
   (let v = classify_probes trio trio_edges (\<lambda>x. x = ''b'')
    in vd_ambiguous v \<or> ''a'' \<in> set (vd_nodes v) \<or> ''b'' \<in> set (vd_nodes v) \<or> (''a'', ''b'') \<in> set (vd_links v))"
proof -
  have "\<forall>e \<in> set trio_edges. e_ok e \<longleftrightarrow> gets_through {''b''} {} e" by (simp add: gets_through_def)
  from classify_sound[OF this refl, of trio "\<lambda>x. x = ''b''"]
  have "let v = classify_probes trio trio_edges (\<lambda>x. x = ''b'')
    in vd_ambiguous v \<or> ''a'' \<in> set (vd_nodes v) \<or> ''b'' \<in> set (vd_nodes v) \<or> (''a'', ''b'') \<in> set (vd_links v)"
    unfolding Let_def by (simp add: min_def max_def less_eq_list_code) blast
  moreover have "vd_nodes (classify_probes trio trio_edges (\<lambda>x. x = ''b'')) = [''b'']" by code_simp
  ultimately show ?thesis by blast
qed

subsection \<open>Streaks\<close>

text \<open>The reference: the length of the run of results at the end that differ from the state.\<close>

definition opposing :: "bool \<Rightarrow> bool list \<Rightarrow> nat" where
  "opposing state obs = length (takeWhile (\<lambda>ok. ok \<noteq> state) (rev obs))"

abbreviation streak_after :: "int \<Rightarrow> bool list \<Rightarrow> streak" where
  "streak_after threshold obs \<equiv> foldl (streak_observe threshold) \<lparr>sk_healthy = True, sk_run = 0\<rparr> obs"

lemma streak_run: "sk_run (streak_after threshold obs) = int (opposing (sk_healthy (streak_after threshold obs)) obs)"
proof (induction obs rule: rev_induct)
  case (snoc ok obs)
  then show ?case by (auto simp: streak_observe_def opposing_def Let_def)
qed (simp add: opposing_def)

lemma prefix_replicate: "prefix (replicate m b) ys \<longleftrightarrow> m \<le> length (takeWhile (\<lambda>x. x = b) ys)"
proof (induction ys arbitrary: m)
  case (Cons y ys)
  then show ?case by (cases m) auto
qed simp

lemma suffix_opposing: "suffix (replicate m (\<not> state)) obs \<longleftrightarrow> m \<le> opposing state obs"
proof -
  have "(\<lambda>x. x = (\<not> state)) = (\<lambda>x. x \<noteq> state)" by auto
  then show ?thesis unfolding suffix_to_prefix rev_replicate prefix_replicate opposing_def by simp
qed

text \<open>
  A path changes its state exactly when the last results, as many as the threshold says, all contradict it: fewer
  never do, however many came before, and the count never reaches the threshold.
\<close>

lemma streak_flips:
  assumes "1 \<le> threshold"
  shows "let s = streak_after threshold obs in
    (sk_healthy (streak_observe threshold s ok) \<noteq> sk_healthy s \<longleftrightarrow>
       suffix (replicate (nat threshold) (\<not> sk_healthy s)) (obs @ [ok])) \<and> 0 \<le> sk_run s \<and> sk_run s < threshold"
proof -
  let ?s = "streak_after threshold obs"
  have "sk_run ?s < threshold"
    using assms by (induction obs rule: rev_induct) (auto simp: streak_observe_def Let_def)
  moreover have "nat threshold \<le> opposing (sk_healthy ?s) (obs @ [ok]) \<longleftrightarrow>
      ok \<noteq> sk_healthy ?s \<and> threshold \<le> sk_run ?s + 1"
    using assms unfolding streak_run by (auto simp: opposing_def)
  moreover have "sk_healthy (streak_observe threshold ?s ok) \<noteq> sk_healthy ?s \<longleftrightarrow>
      ok \<noteq> sk_healthy ?s \<and> threshold \<le> sk_run ?s + 1"
    by (auto simp: streak_observe_def Let_def)
  ultimately show ?thesis unfolding Let_def suffix_opposing by (simp add: streak_run)
qed

end
