(* ===== verification/Resilience_Examples.thy ===== *)
theory Resilience_Examples
  imports Resilience_Props Health_Props
begin

text \<open>
  A concrete cluster for the examples: pods, slices, nodes and one configuration object in lists, a clock, the journal,
  and a script that says of each further patch of a pod whether it works.
\<close>

record health_world =
  hw_pods :: "pod list"
  hw_slices :: "slice list"
  hw_nodes :: "health_node list"
  hw_cr :: resilience
  hw_time :: go_time
  hw_script :: "bool list"
  hw_journal :: "health_entry list"

definition note_write :: "health_write \<Rightarrow> bool \<Rightarrow> health_world \<Rightarrow> health_world" where
  "note_write w ok hw = hw\<lparr>hw_journal := hw_journal hw @ [(w, ok)]\<rparr>"

definition same_pod :: "pod \<Rightarrow> pod \<Rightarrow> bool" where
  "same_pod p q \<longleftrightarrow> pd_ns p = pd_ns q \<and> pd_name p = pd_name q"

definition same_slice :: "slice \<Rightarrow> slice \<Rightarrow> bool" where
  "same_slice x y \<longleftrightarrow> sl_ns x = sl_ns y \<and> sl_name x = sl_name y"

definition world_patch :: "health_world \<Rightarrow> pod \<Rightarrow> health_world \<times> api_error option" where
  "world_patch hw p =
     (let ok = (case hw_script hw of [] \<Rightarrow> True | b # _ \<Rightarrow> b); hw = hw\<lparr>hw_script := tl (hw_script hw)\<rparr> in
      if ok then (note_write (PatchedPod p) True (hw\<lparr>hw_pods := map (\<lambda>q. if same_pod p q then p else q) (hw_pods hw)\<rparr>), None)
      else (note_write (PatchedPod p) False hw, Some ApiFailed))"

definition world_create :: "health_world \<Rightarrow> slice \<Rightarrow> health_world \<times> api_error option" where
  "world_create hw x =
     (if list_ex (same_slice x) (hw_slices hw) then (note_write (CreatedSlice x) False hw, Some AlreadyExists)
      else (note_write (CreatedSlice x) True (hw\<lparr>hw_slices := hw_slices hw @ [x]\<rparr>), None))"

definition health_api :: "health_world resilience_api" where
  "health_api = \<lparr>
     fo_pods = (\<lambda>hw opt. (hw, Inr (filter (pod_matches opt) (hw_pods hw)))),
     fo_patch_pod = world_patch,
     fo_slices = (\<lambda>hw ls. (hw, Inr (filter (\<lambda>x. has_labels ls (sl_labels x)) (hw_slices hw)))),
     fo_create_slice = world_create,
     fo_get_slice = (\<lambda>hw k. (hw, case find (\<lambda>x. (sl_ns x, sl_name x) = k) (hw_slices hw) of None \<Rightarrow> Inl NotFound | Some x \<Rightarrow> Inr x)),
     fo_update_slice = (\<lambda>hw x. (note_write (UpdatedSlice x) True
        (hw\<lparr>hw_slices := map (\<lambda>y. if same_slice x y then x else y) (hw_slices hw)\<rparr>), None)),
     fo_delete_slice = (\<lambda>hw x. (note_write (DeletedSlice x) True
        (hw\<lparr>hw_slices := filter (\<lambda>y. \<not> same_slice x y) (hw_slices hw)\<rparr>), None)),
     fo_digest = id,
     rc_now = hw_time,
     rc_wait = (\<lambda>hw d. (hw\<lparr>hw_time := hw_time hw + d\<rparr>, False)),
     rc_get_node = (\<lambda>hw n. (hw, case find (\<lambda>x. nd_name x = n) (hw_nodes hw) of None \<Rightarrow> Inl NotFound | Some x \<Rightarrow> Inr x)),
     rc_update_node = (\<lambda>hw x. (note_write (UpdatedNode x) True
        (hw\<lparr>hw_nodes := map (\<lambda>y. if nd_name y = nd_name x then x else y) (hw_nodes hw)\<rparr>), None)),
     rc_delete_pod = (\<lambda>hw p. (note_write (DeletedPod p) True
        (hw\<lparr>hw_pods := map (\<lambda>q. if same_pod p q then q\<lparr>pd_uid := pd_uid q @ ''-new''\<rparr> else q) (hw_pods hw)\<rparr>), None)),
     rz_get = (\<lambda>hw n. (hw, if rl_name (hw_cr hw) = n then Inr (hw_cr hw) else Inl NotFound)),
     rz_nodes = (\<lambda>hw. (hw, Inr (hw_nodes hw))),
     rz_patch_status = (\<lambda>hw cr. (note_write (PatchedStatus cr) True (hw\<lparr>hw_cr := cr\<rparr>), None)),
     rz_spawn = (\<lambda>hw x. note_write (Spawned (fst x)) True hw)\<rparr>"

lemma health_api_reads:
  "fo_pods health_api hw opt = (hw, Inr (filter (pod_matches opt) (hw_pods hw)))"
  "fo_slices health_api hw ls = (hw, Inr (filter (\<lambda>x. has_labels ls (sl_labels x)) (hw_slices hw)))"
  "fo_get_slice health_api hw k = (hw, case find (\<lambda>x. (sl_ns x, sl_name x) = k) (hw_slices hw) of None \<Rightarrow> Inl NotFound | Some x \<Rightarrow> Inr x)"
  "rc_get_node health_api hw n = (hw, case find (\<lambda>x. nd_name x = n) (hw_nodes hw) of None \<Rightarrow> Inl NotFound | Some x \<Rightarrow> Inr x)"
  "rz_get health_api hw n = (hw, if rl_name (hw_cr hw) = n then Inr (hw_cr hw) else Inl NotFound)"
  "rz_nodes health_api hw = (hw, Inr (hw_nodes hw))"
  by (simp_all add: health_api_def)

lemma health_api_logs:
  "logged hw_journal (fo_patch_pod health_api) PatchedPod" "logged hw_journal (fo_create_slice health_api) CreatedSlice"
  "logged hw_journal (fo_update_slice health_api) UpdatedSlice" "logged hw_journal (fo_delete_slice health_api) DeletedSlice"
  "logged hw_journal (rc_update_node health_api) UpdatedNode" "logged hw_journal (rz_patch_status health_api) PatchedStatus"
  "hw_journal (rz_spawn health_api hw x) = hw_journal hw @ [(Spawned (fst x), True)]"
  by (simp_all add: logged_def health_api_def note_write_def world_patch_def world_create_def Let_def split: list.split)

lemma health_api_laws: "resilience_laws health_api hw_journal"
proof -
  have "failover_laws health_api hw_journal"
    unfolding failover_laws_def silent_def
    by (intro conjI health_api_logs)
      (auto simp: health_api_reads list_all_iff dest: find_SomeD split: option.splits)
  then show ?thesis
    unfolding resilience_laws_def silent_def
    by (intro conjI health_api_logs allI)
      (auto simp: health_api_reads dest: find_SomeD split: option.splits intro: health_api_logs(7))
qed

lemma health_clock: "clock_laws health_api"
  by (simp add: clock_laws_def health_api_def)

interpretation cluster_api: recorded_resilience health_api hw_journal
  by unfold_locales (rule health_api_laws)

subsection \<open>A broken node with two gated pods\<close>

definition gated_pod :: "string \<Rightarrow> string \<Rightarrow> string \<Rightarrow> pod" where
  "gated_pod n ip backup = \<lparr>pd_ns = ''app'', pd_name = n, pd_uid = n, pd_node = ''n1'', pd_ip = ip, pd_phase = ''Running'',
     pd_created = 0, pd_labels = [''k8s-app'' \<mapsto> ''calico-node''], pd_owners = [], pd_mirror = False, pd_gates = [readinessGate],
     pd_conditions = [(''Ready'', ''True''), (readinessGate, ''True'')], pd_containers = [],
     pd_networks = Some [(''eth0'', [ip]), (''net1'', [backup])]\<rparr>"

definition ex_slice :: slice where
  "ex_slice = \<lparr>sl_ns = ''app'', sl_name = ''web'', sl_labels = [serviceNameLabel \<mapsto> ''web''], sl_type = ''IPv4'', sl_ports = [(''http'', 80)],
     sl_endpoints = [\<lparr>ep_addresses = [''10.0.0.1''], ep_node = Some ''n1'', ep_ready = Some True\<rparr>,
       \<lparr>ep_addresses = [''10.0.0.2''], ep_node = Some ''n1'', ep_ready = Some True\<rparr>]\<rparr>"

definition ex_health_node :: "string \<Rightarrow> annotation \<Rightarrow> health_node" where
  "ex_health_node n a = \<lparr>nd_name = n, nd_deleting = False, nd_pods = None, nd_addresses = [], nd_taints = [], nd_cordoned = False,
     nd_report = a\<rparr>"

definition ex_cni :: "string \<Rightarrow> cni_config" where
  "ex_cni n = \<lparr>cg_name = n, cg_namespace = ''kube-system'', cg_daemonset = n @ ''-node'', cg_endpoint = [], cg_address_space = ''10.0.0.0/16''\<rparr>"

definition ex_cr :: resilience where
  "ex_cr = \<lparr>rl_name = ''cr'', rl_spec = \<lparr>rp_primary = ex_cni ''calico'', rp_backup = ex_cni ''flannel'', rp_probe_interval = 5,
     rp_probe_timeout = 2, rp_threshold = 3, rp_auto_recover = True, rp_auto_failover = True\<rparr>, rl_status = \<lparr>rt_phase = Healthy, rt_nodes = [], rt_failover_active = False,
     rt_last_reconcile = None, rt_recovery_count = 0, rt_failover_count = 0\<rparr>\<rparr>"

text \<open>Node \<open>n1\<close> is silent, its peers cannot reach it on the primary path but can on the backup path.\<close>

definition ex_health :: "bool list \<Rightarrow> health_world" where
  "ex_health script = \<lparr>hw_pods = [gated_pod ''p1'' ''10.0.0.1'' ''10.9.0.1'', gated_pod ''p2'' ''10.0.0.2'' ''10.9.0.2''],
     hw_slices = [ex_slice],
     hw_nodes = [ex_health_node ''n1'' NoReport,
       ex_health_node ''n2'' (Reported \<lparr>rp_time = 0, rp_peers = [(''n1'', \<lparr>pr_primary = False, pr_backup = Some True\<rparr>)]\<rparr>),
       ex_health_node ''n3'' (Reported \<lparr>rp_time = 0, rp_peers = [(''n2'', \<lparr>pr_primary = True, pr_backup = Some True\<rparr>)]\<rparr>)],
     hw_cr = ex_cr, hw_time = 62135596800 * second, hw_script = script, hw_journal = []\<rparr>"

definition ex_memory :: recovery_memory where
  "ex_memory = \<lparr>rm_last_attempt = (\<lambda>_. None), rm_pending = (\<lambda>_. False)\<rparr>"

abbreviation ex_pass :: "health_world \<times> recovery_memory \<Rightarrow> health_world \<times> recovery_memory" where
  "ex_pass hm \<equiv> fst (resilience_reconcile health_api hm ''cr'')"

abbreviation pods_gates :: "health_world \<times> recovery_memory \<Rightarrow> string option list" where
  "pods_gates hm \<equiv> map gateCondition (hw_pods (fst hm))"

abbreviation messages_of :: "health_world \<times> recovery_memory \<Rightarrow> string \<Rightarrow> message list" where
  "messages_of hm n \<equiv> concat (map ns_message (filter (\<lambda>x. ns_node x = n) (rt_nodes (rl_status (hw_cr (fst hm))))))"

definition half_done :: "health_world \<times> recovery_memory" where
  "half_done = ex_pass (ex_health [True, False], ex_memory)"


subsection \<open>Witnesses\<close>

lemma notin_map: "(\<And>w. w \<in> set ws \<Longrightarrow> f w \<noteq> y) \<Longrightarrow> y \<notin> set (map f ws)"
  by auto

definition ex_failed :: health_world where
  "ex_failed = fst (failoverNode health_api (ex_health []) ''n1'')"

fun write_name :: "health_write \<Rightarrow> string" where
  "write_name (PatchedPod p) = pd_name p"
| "write_name (CreatedSlice x) = ''create '' @ sl_name x"
| "write_name (UpdatedSlice x) = ''update '' @ sl_name x"
| "write_name (DeletedSlice x) = ''delete '' @ sl_name x"
| "write_name (UpdatedNode nd) = nd_name nd"
| "write_name (DeletedPod p) = pd_name p"
| "write_name (Spawned n) = n"
| "write_name (PatchedStatus r) = rl_name r"

lemma failover_journal:
  "map (write_name \<circ> fst) (hw_journal ex_failed) = [''create shadow-web/n1'', ''p1'', ''p2'']"
  "list_all (\<lambda>p. hasGate p \<and> pod_matches (everything\<lparr>lo_node := Some ''n1''\<rparr>) p) (hw_pods ex_failed)"
  by code_simp+

lemma pods_of_n1:
  "podsOnNode health_api hw ''n1'' = (hw, Inr (filter (pod_matches (everything\<lparr>lo_node := Some ''n1''\<rparr>)) (hw_pods hw)))"
  by (simp add: podsOnNode_def health_api_reads)

theorem failover_adds_before_removing_witness:
  "length (hw_journal ex_failed) = 3 \<and> serves_backup (hw_journal ex_failed) ''10.9.0.2''"
proof -
  let ?pods = "filter (pod_matches (everything\<lparr>lo_node := Some ''n1''\<rparr>)) (hw_pods (ex_health []))"
  let ?xs = "filter (\<lambda>x. has_labels [] (sl_labels x)) (hw_slices (ex_health []))"
  have "failoverNode health_api (ex_health []) ''n1'' = (ex_failed, snd (failoverNode health_api (ex_health []) ''n1''))"
    by (simp add: ex_failed_def)
  then have run: "failoverNode health_api (ex_health []) ''n1'' = (ex_failed, fst (snd (failoverNode health_api (ex_health []) ''n1'')),
      snd (snd (failoverNode health_api (ex_health []) ''n1'')))" by simp
  have laws: "failover_laws health_api hw_journal" using health_api_laws by (simp add: resilience_laws_def)
  have start: "hw_journal (ex_health []) = []" "?xs = [ex_slice]" by (simp_all add: ex_health_def has_labels_def)
  from failover_adds_before_removing[OF laws pods_of_n1 health_api_reads(2) run] obtain us ws where w:
    "hw_journal ex_failed = us @ ws"
    "\<forall>w \<in> set us. \<exists>x \<in> set ?xs. original_slice x \<and> carries health_api ''n1'' (backup_ips ?pods) x (fst w)"
    "ws \<noteq> [] \<longrightarrow> (\<forall>x \<in> set ?xs. original_slice x \<longrightarrow> (\<forall>ep \<in> set (sl_endpoints x). ep_node ep = Some ''n1'' \<longrightarrow>
       (\<forall>a \<in> set (ep_addresses ep). \<forall>b. map_of (backup_ips ?pods) a = Some b \<longrightarrow> serves_backup us b)))"
    unfolding start(1) append_Nil by blast
  have "(write_name \<circ> fst) w \<noteq> ''p2''" if "w \<in> set us" for w
    using w(2) that by (auto simp: carries_def shadowName_def)
  then have "''p2'' \<notin> set (map (write_name \<circ> fst) us)" by (rule notin_map)
  then have "ws \<noteq> []" using failover_journal(1) w(1) by auto
  moreover have "original_slice ex_slice" "map_of (backup_ips ?pods) ''10.0.0.2'' = Some ''10.9.0.2''" by code_simp+
  moreover have "\<lparr>ep_addresses = [''10.0.0.2''], ep_node = Some ''n1'', ep_ready = Some True\<rparr> \<in> set (sl_endpoints ex_slice)"
    by (simp add: ex_slice_def)
  ultimately have "serves_backup us ''10.9.0.2''" using w(3) unfolding start(2) by fastforce
  then have "serves_backup (hw_journal ex_failed) ''10.9.0.2''" unfolding w(1) serves_backup_def by auto
  moreover have "length (hw_journal ex_failed) = 3" using arg_cong[OF failover_journal(1), of length] by simp
  ultimately show ?thesis by blast
qed

definition ex_returned :: health_world where
  "ex_returned = fst (failbackNode health_api ex_failed ''n1'')"

lemma failback_journal:
  "map (write_name \<circ> fst) (hw_journal ex_returned) =
     [''create shadow-web/n1'', ''p1'', ''p2'', ''p1'', ''p2'', ''delete shadow-web/n1'']"
  by code_simp

theorem failback_adds_before_removing_witness:
  "map (write_name \<circ> fst) (drop 3 (hw_journal ex_returned)) = [''p1'', ''p2'', ''delete shadow-web/n1''] \<and>
   list_all (\<lambda>p. gateCondition p = Some ''True'' \<or> (PatchedPod (with_gate ''True'' p), True) \<in> set (hw_journal ex_returned))
     (hw_pods ex_failed)"
proof -
  have laws: "failover_laws health_api hw_journal" using health_api_laws by (simp add: resilience_laws_def)
  have run: "failbackNode health_api ex_failed ''n1'' = (ex_returned, snd (failbackNode health_api ex_failed ''n1''))"
    by (simp add: ex_returned_def)
  let ?pods = "filter (pod_matches (everything\<lparr>lo_node := Some ''n1''\<rparr>)) (hw_pods ex_failed)"
  from failback_adds_before_removing[OF laws pods_of_n1 run] obtain us ws where w:
    "hw_journal ex_returned = hw_journal ex_failed @ us @ ws"
    "\<forall>w \<in> set us. \<exists>p \<in> set ?pods. hasGate p \<and> fst w = PatchedPod (with_gate ''True'' p)"
    "ws \<noteq> [] \<longrightarrow> (\<forall>p \<in> set ?pods. hasGate p \<longrightarrow>
       gateCondition p = Some ''True'' \<or> (PatchedPod (with_gate ''True'' p), True) \<in> set us)" by blast
  have names: "map (write_name \<circ> fst) (us @ ws) = [''p1'', ''p2'', ''delete shadow-web/n1'']"
    using failback_journal unfolding w(1) map_append failover_journal(1) by simp
  have pods: "set ?pods = set (hw_pods ex_failed)" "\<forall>p \<in> set (hw_pods ex_failed). hasGate p"
    using failover_journal(2) by (auto simp: list_all_iff)
  have pod_names: "pd_name p \<in> {''p1'', ''p2''}" if "p \<in> set (hw_pods ex_failed)" for p
  proof -
    have "set (map pd_name (hw_pods ex_failed)) = {''p1'', ''p2''}" by code_simp
    then show ?thesis using that by auto
  qed
  have "(write_name \<circ> fst) w \<noteq> ''delete shadow-web/n1''" if "w \<in> set us" for w
  proof -
    from bspec[OF w(2) that] obtain p where p: "p \<in> set ?pods" "fst w = PatchedPod (with_gate ''True'' p)"
      by (elim bexE conjE)
    from p(1) have "p \<in> set (hw_pods ex_failed)" unfolding pods(1) .
    with p(2) show ?thesis using pod_names[of p] by (auto simp: with_gate_def)
  qed
  then have "''delete shadow-web/n1'' \<notin> set (map (write_name \<circ> fst) us)" by (rule notin_map)
  then have "ws \<noteq> []" using names by auto
  then have "list_all (\<lambda>p. gateCondition p = Some ''True'' \<or> (PatchedPod (with_gate ''True'' p), True) \<in> set (hw_journal ex_returned))
     (hw_pods ex_failed)" using w(3) pods unfolding w(1) list_all_iff by auto
  moreover have "drop 3 (hw_journal ex_returned) = us @ ws"
    unfolding w(1) using arg_cong[OF failover_journal(1), of length] by simp
  ultimately show ?thesis using names by simp
qed

theorem reconcile_acts_on_proof_witness:
  "\<exists>healths spec. healths \<noteq> [] \<and>
     list_all (\<lambda>w. justified health_api spec (set healths) (fst w)) (hw_journal (fst (ex_pass (ex_health [], ex_memory)))) \<and>
     length (hw_journal (fst (ex_pass (ex_health [], ex_memory)))) = 6"
proof -
  let ?hm = "resilience_reconcile health_api (ex_health [], ex_memory) ''cr''"
  have run: "?hm = ((fst (fst ?hm), snd (fst ?hm)), snd ?hm)" by simp
  have start: "hw_journal (ex_health []) = []" by (simp add: ex_health_def)
  have six: "length (hw_journal (fst (fst ?hm))) = 6" by code_simp
  have created: "list_ex (\<lambda>w. case fst w of CreatedSlice x \<Rightarrow> True | _ \<Rightarrow> False) (hw_journal (fst (fst ?hm)))" by code_simp
  from reconcile_acts_on_proof[OF health_api_laws run] obtain healths and cr :: resilience where
    "adds hw_journal (\<lambda>w. justified health_api (rl_spec cr) (set healths) (fst w)) (ex_health []) (fst (fst ?hm))" by blast
  then have just: "list_all (\<lambda>w. justified health_api (rl_spec cr) (set healths) (fst w)) (hw_journal (fst (fst ?hm)))"
    unfolding adds_def start append_Nil by auto
  have "healths \<noteq> []"
  proof
    assume "healths = []"
    then have none: "justified health_api (rl_spec cr) {} (fst w)" if "w \<in> set (hw_journal (fst (fst ?hm)))" for w
      using just that unfolding list_all_iff by simp
    from created obtain w where w: "w \<in> set (hw_journal (fst (fst ?hm)))" "case fst w of CreatedSlice x \<Rightarrow> True | _ \<Rightarrow> False"
      unfolding list_ex_iff by blast
    show False using none[OF w(1)] w(2) by (cases "fst w") simp_all
  qed
  then show ?thesis using just six by blast
qed

theorem restart_returns_witness:
  "\<exists>hw e. restartCNIAgentPod health_api (ex_health []) ''n1'' ''app'' ''calico-node'' = Some (hw, e)"
  using restart_returns[OF health_clock, of "ex_health []" "''n1''" "''app''" "''calico-node''"] by blast

end
