(* ===== verification/Go_Float.thy ===== *)
theory Go_Float
  imports Complex_Main Prelude
begin

text \<open>
  What the remediation modules use of Go's numbers and strings. A \<^verbatim>\<open>float64\<close> is the rational it stands for;
  \<open>to_float\<close> rounds to 53 significant bits, to the even neighbour on a tie, as every operation does. Overflow, the
  subnormal range and NaN are not modelled: percentages and latencies stay far from them.
  \<open>int64\<close> and \<open>int32\<close> are the wrap-around of machine integers, and the string functions are those of the package
  \<^verbatim>\<open>strings\<close> on ASCII text.
\<close>

subsection \<open>Floating-point numbers\<close>

function bit_length :: "int \<Rightarrow> int" where
  "bit_length n = (if n \<le> 0 then 0 else bit_length (n div 2) + 1)"
  by auto
termination by (relation "measure nat") auto

declare bit_length.simps [simp del]

definition floor_log2 :: "rat \<Rightarrow> int" where
  "floor_log2 x =
     (case quotient_of x of (p, q) \<Rightarrow>
        let k = bit_length p - bit_length q
        in if 2 powi k \<le> x then k else k - 1)"

definition round_half_even :: "rat \<Rightarrow> int" where
  "round_half_even x =
     (let f = \<lfloor>x\<rfloor>; d = x - of_int f
      in if d < 1 / 2 then f else if 1 / 2 < d then f + 1 else if even f then f else f + 1)"

definition to_float :: "rat \<Rightarrow> rat" where
  "to_float x =
     (if x = 0 then 0
      else (let u = 2 powi (floor_log2 \<bar>x\<bar> - 52) in of_int (round_half_even (x / u)) * u))"

text \<open>\<open>%.nf\<close> of a number that is not negative.\<close>

definition fixed_text :: "nat \<Rightarrow> rat \<Rightarrow> string" where
  "fixed_text k x =
     (let n = nat (round_half_even (x * 10 ^ k)); f = dec (n mod 10 ^ k)
      in dec (n div 10 ^ k) @ ''.'' @ replicate (k - length f) (CHR ''0'') @ f)"

subsection \<open>Integers\<close>

definition int64 :: "int \<Rightarrow> int" where
  "int64 x = signed_take_bit 63 x"

lemma int64_small: "0 \<le> x \<Longrightarrow> x < 2 ^ 63 \<Longrightarrow> int64 x = x"
  by (simp add: int64_def signed_take_bit_int_eq_self)

definition int32 :: "int \<Rightarrow> int" where
  "int32 x = signed_take_bit 31 x"

definition int_text :: "int \<Rightarrow> string" where
  "int_text i = (if i < 0 then CHR ''-'' # dec (nat (- i)) else dec (nat i))"

subsection \<open>Strings\<close>

fun has_prefix :: "string \<Rightarrow> string \<Rightarrow> bool" where
  "has_prefix [] xs = True"
| "has_prefix (p # ps) [] = False"
| "has_prefix (p # ps) (x # xs) = (p = x \<and> has_prefix ps xs)"

fun contains :: "string \<Rightarrow> string \<Rightarrow> bool" where
  "contains p [] = (p = [])"
| "contains p (x # xs) = (has_prefix p (x # xs) \<or> contains p xs)"

lemma has_prefix_append: "has_prefix p (p @ xs)"
  by (induction p) auto

lemma has_prefix_iff: "has_prefix p xs \<longleftrightarrow> (\<exists>ys. xs = p @ ys)"
  by (induction p xs rule: has_prefix.induct) auto

lemma contains_iff: "contains p xs \<longleftrightarrow> (\<exists>as bs. xs = as @ p @ bs)"
proof (induction xs)
  case (Cons x xs)
  have "(\<exists>as bs. x # xs = as @ p @ bs) \<longleftrightarrow> (\<exists>bs. x # xs = p @ bs) \<or> (\<exists>as bs. xs = as @ p @ bs)"
    by (metis (no_types, opaque_lifting) append_Cons append_Nil list.exhaust list.inject)
  then show ?case by (simp add: has_prefix_iff Cons.IH)
qed simp

lemma containsI: "contains p (as @ p @ bs)"
  by (auto simp: contains_iff)

lemma contains_append: "contains p xs \<or> contains p ys \<Longrightarrow> contains p (xs @ ys)"
  unfolding contains_iff by (metis append.assoc)

text \<open>\<open>strings.ToLower\<close> and \<open>strings.Join\<close>.\<close>

definition lower_char :: "char \<Rightarrow> char" where
  "lower_char c = (let k = of_char c :: nat in if 65 \<le> k \<and> k \<le> 90 then char_of (k + 32) else c)"

definition to_lower :: "string \<Rightarrow> string" where
  "to_lower xs = map lower_char xs"

fun join :: "string \<Rightarrow> string list \<Rightarrow> string" where
  "join sep [] = []"
| "join sep [x] = x"
| "join sep (x # y # ys) = x @ sep @ join sep (y # ys)"

lemma to_lower_append [simp]: "to_lower (xs @ ys) = to_lower xs @ to_lower ys"
  by (simp add: to_lower_def)

end
