(* ===== verification/Module.thy ===== *)
theory Module
  imports Kube_Objects Go_Float
begin

text \<open>
  The interface of the remediation modules (pkg/module/module.go), the objects of the API of the NetworkRemediation
  resource (api/v1alpha1: networkremediation, cni, coredns, networkpolicy and podconnectivity types), and
  the API server as the modules use it. The text of an error is a string, as it ends in the status of a module. A
  value of \<^verbatim>\<open>any\<close> is a \<open>signal\<close>, tagged with its dynamic type; a type assertion is a match on the tag.
\<close>

subsection \<open>Objects of the cluster\<close>

record k_node =
  kn_name :: string
  kn_addresses :: "(string \<times> string) list"
  kn_taints :: "taint list"
  kn_cordoned :: bool

text \<open>Resource quantities in thousandths: millicores, and thousandths of a byte.\<close>

record container =
  ct_requests :: "string \<rightharpoonup> int"
  ct_limits :: "string \<rightharpoonup> int"

record deployment =
  dp_replicas :: "int option"
  dp_available :: int
  dp_ready :: int
  dp_updated :: int
  dp_containers :: "container list"
  dp_annotations :: "string \<rightharpoonup> string"

record config_map =
  cm_data :: "(string \<rightharpoonup> string) option"

record event =
  ev_ns :: string
  ev_object :: string
  ev_reason :: string
  ev_message :: string

text \<open>A field of an unstructured object: missing, of another type than asked for, or there.\<close>

datatype 'a field = Missing | WrongType | Field 'a

definition field_or :: "'a \<Rightarrow> 'a field \<Rightarrow> 'a" where
  "field_or d f = (case f of Field x \<Rightarrow> x | _ \<Rightarrow> d)"

record daemon_set =
  ds_desired :: "int field"
  ds_ready :: "int field"
  ds_match :: "(string \<times> string) list field"

record ip_pool =
  ipp_name :: string
  ipp_disabled :: "bool field"
  ipp_spec_ok :: bool

text \<open>Of the lists of a block only the lengths matter.\<close>

record ipam_block =
  ib_cidr :: "string field"
  ib_allocations :: "int field"
  ib_unallocated :: "int field"

subsection \<open>The API server\<close>

datatype module_write =
    DeletedPodKey "string \<times> string"
  | PatchedNode k_node
  | UpdatedDeployment deployment
  | UpdatedConfigMap config_map
  | PatchedPool ip_pool

type_synonym module_entry = "module_write \<times> bool"

record 'c module_api =
  mo_now :: "'c \<Rightarrow> go_time"
  mo_sleep :: "'c \<Rightarrow> duration \<Rightarrow> 'c"
  mo_nodes :: "'c \<Rightarrow> 'c \<times> (api_error + k_node list)"
  mo_get_node :: "'c \<Rightarrow> string \<Rightarrow> 'c \<times> (api_error + k_node)"
  mo_patch_node :: "'c \<Rightarrow> k_node \<Rightarrow> 'c \<times> api_error option"
  mo_pods :: "'c \<Rightarrow> list_options \<Rightarrow> 'c \<times> (api_error + pod list)"
  mo_delete_pod :: "'c \<Rightarrow> string \<times> string \<Rightarrow> 'c \<times> api_error option"
  mo_ping :: "'c \<Rightarrow> pod \<times> string \<Rightarrow> 'c \<times> bool"
  mo_get_deployment :: "'c \<Rightarrow> string \<times> string \<Rightarrow> 'c \<times> (api_error + deployment)"
  mo_update_deployment :: "'c \<Rightarrow> deployment \<Rightarrow> 'c \<times> api_error option"
  mo_get_config_map :: "'c \<Rightarrow> string \<times> string \<Rightarrow> 'c \<times> (api_error + config_map)"
  mo_update_config_map :: "'c \<Rightarrow> config_map \<Rightarrow> 'c \<times> api_error option"
  mo_fetch_metric :: "'c \<Rightarrow> string \<Rightarrow> 'c \<times> rat option"
  mo_get_daemon_set :: "'c \<Rightarrow> string \<times> string \<Rightarrow> 'c \<times> (api_error + daemon_set)"
  mo_events :: "'c \<Rightarrow> string \<Rightarrow> 'c \<times> (api_error + event list)"
  mo_pools :: "'c \<Rightarrow> 'c \<times> (api_error + ip_pool list)"
  mo_get_pool :: "'c \<Rightarrow> string \<Rightarrow> 'c \<times> (api_error + ip_pool)"
  mo_patch_pool :: "'c \<Rightarrow> ip_pool \<Rightarrow> 'c \<times> api_error option"
  mo_blocks :: "'c \<Rightarrow> 'c \<times> (api_error + ipam_block list)"
  mo_error_text :: "api_error \<Rightarrow> string"
  mo_field_error :: string
  mo_timestamp :: "go_time \<Rightarrow> string"
  mo_order :: "string list \<Rightarrow> string list"

text \<open>
  \<open>mo_order\<close> is the order in which a \<^verbatim>\<open>range\<close> over a map meets its keys; Go leaves it open. \<open>mo_fetch_metric\<close> asks one
  URL of Prometheus and reads the number in seconds from the answer, if there is one; the answer NaN is the number
  0, which the code treats in the same way.
\<close>

subsection \<open>The NetworkRemediation resource\<close>

record cni_spec =
  cn_enabled :: bool
  cn_ns :: string
  cn_daemon_set :: string
  cn_stuck_seconds :: int
  cn_threshold :: int
  cn_cooldown :: int

record coredns_spec =
  co_enabled :: bool
  co_replicas :: int
  co_latency :: int
  co_validation :: bool
  co_heal_replicas :: bool
  co_heal_config :: bool
  co_fallback :: "string list"

record policy_spec =
  np_enabled :: bool
  np_heal :: bool
  np_cooldown :: int

text \<open>The options of podconnectivity_types.go that the code reads.\<close>

record remediation_policy =
  rm_auto :: bool
  rm_daemon_set :: string
  rm_ns :: string
  rm_max_restarts :: int
  rm_taint_key :: string
  rm_taint_value :: string
  rm_taint_effect :: string
  rm_drain :: bool
  rm_escalate :: int

record connectivity_spec =
  pc_enabled :: bool
  pc_ns :: string
  pc_anchors :: "string list"
  pc_threshold :: int
  pc_policy :: remediation_policy

record network_spec =
  sp_cni :: cni_spec
  sp_coredns :: coredns_spec
  sp_policy :: policy_spec
  sp_connectivity :: connectivity_spec

record module_status =
  ms_healthy :: bool
  ms_enabled :: bool
  ms_message :: string
  ms_checked :: "go_time option"

record network_status =
  nt_phase :: string
  nt_cni :: module_status
  nt_coredns :: module_status
  nt_policy :: module_status
  nt_connectivity :: module_status
  nt_reconciled :: "go_time option"

record network_remediation =
  nr_name :: string
  nr_spec :: network_spec
  nr_status :: network_status

subsection \<open>The interface of a module\<close>

record stuck_pod =
  st_ns :: string
  st_name :: string
  st_node :: string
  st_error :: string
  st_ipam :: bool
  st_workload :: string

datatype signal =
    BoolSignal bool
  | StringSignal string
  | IntSignal int
  | Int32Signal int
  | Int64Signal int
  | FloatSignal rat
  | StringsSignal "string list"
  | ListSignal "signal list"
  | StuckSignal "stuck_pod list"
  | UsageSignal "(string \<times> rat) list"

type_synonym signals = "string \<rightharpoonup> signal"

record check_result =
  ck_signals :: "signals option"
  ck_error :: "string option"

record eval_result =
  er_healthy :: bool
  er_needs :: bool
  er_reason :: string
  er_severity :: string
  er_action :: string
  er_data :: "signals option"

record remediate_result =
  rr_action :: string
  rr_success :: bool
  rr_error :: "string option"

text \<open>
  \<^verbatim>\<open>module.Module\<close> over a state that holds the cluster and the fields of the module. The results come as pointers,
  so \<open>Evaluate\<close> and \<open>Remediate\<close> take options; \<open>Remediate\<close> may return a result together with an error.
\<close>

record 's module =
  md_name :: string
  md_check :: "'s \<Rightarrow> network_spec \<Rightarrow> 's \<times> (string + check_result)"
  md_evaluate :: "'s \<Rightarrow> check_result option \<Rightarrow> 's \<times> (string + eval_result)"
  md_remediate :: "'s \<Rightarrow> eval_result option \<Rightarrow> 's \<times> remediate_result \<times> string option"

text \<open>What Go reports when a nil pointer is read or a nil map is written.\<close>

definition nil_dereference :: string where
  "nil_dereference = ''runtime error: invalid memory address or nil pointer dereference''"

definition nil_map_write :: string where
  "nil_map_write = ''assignment to entry in nil map''"

text \<open>Reading the signals with a type assertion, \<^verbatim>\<open>v, _ := signals[key].(T)\<close>: the zero value if it fails. A nil map reads as empty.\<close>

definition signals_of :: "check_result \<Rightarrow> signals" where
  "signals_of c = (case ck_signals c of None \<Rightarrow> Map.empty | Some m \<Rightarrow> m)"

definition bool_signal :: "signals \<Rightarrow> string \<Rightarrow> bool option" where
  "bool_signal m k = (case m k of Some (BoolSignal b) \<Rightarrow> Some b | _ \<Rightarrow> None)"

definition string_signal :: "signals \<Rightarrow> string \<Rightarrow> string" where
  "string_signal m k = (case m k of Some (StringSignal x) \<Rightarrow> x | _ \<Rightarrow> [])"

definition int_signal :: "signals \<Rightarrow> string \<Rightarrow> int" where
  "int_signal m k = (case m k of Some (IntSignal x) \<Rightarrow> x | _ \<Rightarrow> 0)"

definition int32_signal :: "signals \<Rightarrow> string \<Rightarrow> int" where
  "int32_signal m k = (case m k of Some (Int32Signal x) \<Rightarrow> x | _ \<Rightarrow> 0)"

definition strings_signal :: "signals \<Rightarrow> string \<Rightarrow> string list" where
  "strings_signal m k = (case m k of Some (StringsSignal x) \<Rightarrow> x | _ \<Rightarrow> [])"

definition is_true :: "bool option \<Rightarrow> bool" where
  "is_true b \<longleftrightarrow> b = Some True"

definition simple_eval :: "bool \<Rightarrow> bool \<Rightarrow> string \<Rightarrow> string \<Rightarrow> eval_result" where
  "simple_eval healthy needs reason severity =
     \<lparr>er_healthy = healthy, er_needs = needs, er_reason = reason, er_severity = severity, er_action = [], er_data = None\<rparr>"

definition result :: "string \<Rightarrow> bool \<Rightarrow> remediate_result" where
  "result action ok = \<lparr>rr_action = action, rr_success = ok, rr_error = None\<rparr>"

text \<open>A module that keeps its state in a part of a larger state.\<close>

definition focus :: "('s \<Rightarrow> 't) \<Rightarrow> ('t \<Rightarrow> 's \<Rightarrow> 's) \<Rightarrow> 't module \<Rightarrow> 's module" where
  "focus get put M = \<lparr>
     md_name = md_name M,
     md_check = (\<lambda>s spec. case md_check M (get s) spec of (t, r) \<Rightarrow> (put t s, r)),
     md_evaluate = (\<lambda>s c. case md_evaluate M (get s) c of (t, r) \<Rightarrow> (put t s, r)),
     md_remediate = (\<lambda>s e. case md_remediate M (get s) e of (t, r) \<Rightarrow> (put t s, r))\<rparr>"

lemma focus_simps [simp]:
  "md_name (focus get put M) = md_name M"
  "md_check (focus get put M) s spec = (case md_check M (get s) spec of (t, r) \<Rightarrow> (put t s, r))"
  "md_evaluate (focus get put M) s c = (case md_evaluate M (get s) c of (t, r) \<Rightarrow> (put t s, r))"
  "md_remediate (focus get put M) s e = (case md_remediate M (get s) e of (t, r) \<Rightarrow> (put t s, r))"
  by (simp_all add: focus_def)

end
