(* ===== verification/Network_Remediation.thy ===== *)
theory Network_Remediation
  imports Module
begin

text \<open>
  The dispatcher of the remediation modules (internal/controller/networkremediation_controller.go): it runs the
  pipeline Check, Evaluate, Remediate of every enabled module and reports in the status of the resource. The state is that
  of the whole operator; the record \<open>nr_env\<close> holds the clock and the calls on the resource itself.
\<close>

record 's registered =
  rg_module :: "'s module"
  rg_enabled :: "network_spec \<Rightarrow> bool"
  rg_set :: "module_status \<Rightarrow> network_status \<Rightarrow> network_status"

record 's nr_env =
  ne_now :: "'s \<Rightarrow> go_time"
  ne_get :: "'s \<Rightarrow> string \<Rightarrow> 's \<times> (api_error + network_remediation)"
  ne_update_status :: "'s \<Rightarrow> network_remediation \<Rightarrow> 's \<times> api_error option"

definition requeueInterval :: duration where "requeueInterval = 30 * second"

definition RegisterModule ::
  "'s module \<Rightarrow> (network_spec \<Rightarrow> bool) \<Rightarrow> (module_status \<Rightarrow> network_status \<Rightarrow> network_status) \<Rightarrow> 's registered list \<Rightarrow> 's registered list" where
  "RegisterModule M en st regs = regs @ [\<lparr>rg_module = M, rg_enabled = en, rg_set = st\<rparr>]"

definition set_status :: "'s registered \<Rightarrow> module_status \<Rightarrow> network_remediation \<Rightarrow> network_remediation" where
  "set_status reg ms nr = nr\<lparr>nr_status := rg_set reg ms (nr_status nr)\<rparr>"

definition reconcileModule ::
  "('s, 'z) nr_env_scheme \<Rightarrow> 's \<Rightarrow> network_remediation \<Rightarrow> 's registered \<Rightarrow> 's \<times> network_remediation \<times> bool" where
  "reconcileModule E s nr reg =
     (if \<not> rg_enabled reg (nr_spec nr)
      then (s, set_status reg \<lparr>ms_healthy = True, ms_enabled = False, ms_message = ''Module is disabled'', ms_checked = None\<rparr> nr, True)
      else
        (let now = ne_now E s;
             report = (\<lambda>ok msg. set_status reg \<lparr>ms_healthy = ok, ms_enabled = True, ms_message = msg, ms_checked = Some now\<rparr> nr)
         in case md_check (rg_module reg) s (nr_spec nr) of
              (s, Inl err) \<Rightarrow> (s, report False (''Check phase error: '' @ err), False)
            | (s, Inr checkResult) \<Rightarrow>
                (case md_evaluate (rg_module reg) s (Some checkResult) of
                   (s, Inl err) \<Rightarrow> (s, report False (''Evaluate phase error: '' @ err), False)
                 | (s, Inr evalResult) \<Rightarrow>
                     if er_healthy evalResult then (s, report True (er_reason evalResult), True)
                     else if \<not> er_needs evalResult then (s, report False (er_reason evalResult), False)
                     else (case md_remediate (rg_module reg) s (Some evalResult) of
                             (s, r, Some err) \<Rightarrow> (s, report False (''Remediation error: '' @ err), False)
                           | (s, r, None) \<Rightarrow>
                               (s, report (rr_success r)
                                     ((if rr_success r then ''Remediated: '' else ''Remediation failed: '') @ rr_action r),
                                rr_success r)))))"

fun reconcile_modules ::
  "('s, 'z) nr_env_scheme \<Rightarrow> 's registered list \<Rightarrow> 's \<Rightarrow> network_remediation \<Rightarrow> bool \<Rightarrow> 's \<times> network_remediation \<times> bool" where
  "reconcile_modules E [] s nr overall = (s, nr, overall)"
| "reconcile_modules E (reg # regs) s nr overall =
     (case reconcileModule E s nr reg of
        (s, nr, healthy) \<Rightarrow> reconcile_modules E regs s nr (overall \<and> healthy))"

definition nr_reconcile ::
  "('s, 'z) nr_env_scheme \<Rightarrow> 's registered list \<Rightarrow> 's \<Rightarrow> string \<Rightarrow> 's \<times> (api_error + duration option)" where
  "nr_reconcile E modules s name =
     (case ne_get E s name of
        (s, Inl e) \<Rightarrow> (s, if e = NotFound then Inr None else Inl e)
      | (s, Inr nr) \<Rightarrow>
          (case reconcile_modules E modules s nr True of
             (s, nr, overallHealthy) \<Rightarrow>
               (let now = ne_now E s;
                    st = (nr_status nr)\<lparr>nt_reconciled := Some now, nt_phase := (if overallHealthy then ''Running'' else ''Degraded'')\<rparr>
                in case ne_update_status E s (nr\<lparr>nr_status := st\<rparr>) of
                     (s, Some e) \<Rightarrow> (s, Inl e)
                   | (s, None) \<Rightarrow> (s, Inr (Some requeueInterval)))))"

subsection \<open>What a module promises\<close>

text \<open>
  The contract of the phases: Check and Evaluate write nothing, a healthy evaluation never asks for remediation, and what
  a remediation writes is what the configuration that was checked permits the module to write.
\<close>

locale consenting_module =
  fixes M :: "'s module" and jn :: "'s \<Rightarrow> ('w \<times> bool) list" and permits :: "network_spec \<Rightarrow> 'w \<Rightarrow> bool"
  assumes check_silent: "md_check M s spec = (s', r) \<Longrightarrow> jn s' = jn s"
    and evaluate_silent: "md_evaluate M s c = (s', r2) \<Longrightarrow> jn s' = jn s"
    and healthy_needs_nothing: "md_evaluate M s c = (s', Inr e) \<Longrightarrow> er_healthy e \<Longrightarrow> \<not> er_needs e"
    and remediate_permitted:
      "md_check M s spec = (s1, Inr ck) \<Longrightarrow> md_evaluate M s1 (Some ck) = (s2, Inr e) \<Longrightarrow> er_needs e \<Longrightarrow>
       md_remediate M s2 (Some e) = (s3, rr) \<Longrightarrow> adds jn (\<lambda>w. permits spec (fst w)) s2 s3"
begin

lemma pipeline_writes:
  assumes "reconcileModule E s nr reg = (s', nr', ok)" "rg_module reg = M"
  shows "adds jn (\<lambda>w. rg_enabled reg (nr_spec nr) \<and> permits (nr_spec nr) (fst w)) s s'"
proof (cases "rg_enabled reg (nr_spec nr)")
  case False then show ?thesis using assms by (simp add: reconcileModule_def)
next
  case en: True
  obtain s1 c where ck: "md_check M s (nr_spec nr) = (s1, c)" by fastforce
  note j1 = check_silent[OF ck]
  show ?thesis
  proof (cases c)
    case Inl then show ?thesis using assms en ck j1 by (auto simp: reconcileModule_def Let_def adds_same)
  next
    case c: (Inr c')
    obtain s2 e where ev: "md_evaluate M s1 (Some c') = (s2, e)" by fastforce
    note j2 = evaluate_silent[OF ev]
    show ?thesis
    proof (cases "\<exists>e'. e = Inr e' \<and> \<not> er_healthy e' \<and> er_needs e'")
      case False
      then show ?thesis using assms en ck c ev j1 j2
        by (auto simp: reconcileModule_def Let_def adds_same split: sum.splits if_splits)
    next
      case True
      then obtain e' where e: "e = Inr e'" "\<not> er_healthy e'" "er_needs e'" by blast
      obtain s3 r where rm: "md_remediate M s2 (Some e') = (s3, r)" by (metis surj_pair)
      have "s' = s3" using assms en ck c ev e rm
        by (auto simp: reconcileModule_def Let_def split: prod.splits option.splits)
      moreover have "adds jn (\<lambda>w. permits (nr_spec nr) (fst w)) s2 s3"
        using remediate_permitted ck ev rm unfolding c e(1) using e(3) by blast
      moreover have "adds jn (\<lambda>w. permits (nr_spec nr) (fst w)) s s2" by (rule adds_same) (simp add: j1 j2)
      ultimately show ?thesis using en by (auto intro: adds_trans)
    qed
  qed
qed

end

text \<open>A module that lives in a part of a larger state keeps its contract.\<close>

lemma consenting_focus:
  assumes "consenting_module M jn permits" "\<And>t s. get (put t s) = t" "\<And>s. jn' s = jn (get s)"
  shows "consenting_module (focus get put M) jn' permits"
proof
  fix s spec s' and r :: "string + check_result"
  assume "md_check (focus get put M) s spec = (s', r)"
  then show "jn' s' = jn' s" using consenting_module.check_silent[OF assms(1)] assms(2,3) by (auto split: prod.splits)
next
  fix s c s' and r :: "string + eval_result"
  assume "md_evaluate (focus get put M) s c = (s', r)"
  then show "jn' s' = jn' s" using consenting_module.evaluate_silent[OF assms(1)] assms(2,3) by (auto split: prod.splits)
next
  fix s c s' e
  assume "md_evaluate (focus get put M) s c = (s', Inr e)" "er_healthy e"
  then show "\<not> er_needs e" using consenting_module.healthy_needs_nothing[OF assms(1)] by (auto split: prod.splits)
next
  fix s spec s1 ck s2 e s3 rr
  assume "md_check (focus get put M) s spec = (s1, Inr ck)" "md_evaluate (focus get put M) s1 (Some ck) = (s2, Inr e)"
    "er_needs e" "md_remediate (focus get put M) s2 (Some e) = (s3, rr)"
  then have "adds jn (\<lambda>w. permits spec (fst w)) (get s2) (get s3)"
    using consenting_module.remediate_permitted[OF assms(1)] assms(2) by (fastforce split: prod.splits)
  then show "adds jn' (\<lambda>w. permits spec (fst w)) s2 s3" by (simp add: adds_def assms(3))
qed

text \<open>The whole pass, with a contract for every registered module.\<close>

definition permitted :: "('s registered \<Rightarrow> network_spec \<Rightarrow> 'w \<Rightarrow> bool) \<Rightarrow> 's registered list \<Rightarrow> network_spec \<Rightarrow> 'w \<Rightarrow> bool" where
  "permitted permits regs spec w \<longleftrightarrow> (\<exists>reg \<in> set regs. rg_enabled reg spec \<and> permits reg spec w)"

lemma reconcileModule_spec: "reconcileModule E s nr reg = (s', nr', ok) \<Longrightarrow> nr_spec nr' = nr_spec nr \<and> nr_name nr' = nr_name nr"
  by (auto simp: reconcileModule_def set_status_def Let_def split: if_splits sum.splits prod.splits option.splits)

lemma reconcile_modules_writes:
  assumes "\<And>reg. reg \<in> set regs \<Longrightarrow> consenting_module (rg_module reg) jn (permits reg)"
    "reconcile_modules E regs s nr b = (s', nr', b')"
  shows "adds jn (\<lambda>w. permitted permits regs (nr_spec nr) (fst w)) s s' \<and> nr_spec nr' = nr_spec nr \<and> nr_name nr' = nr_name nr"
  using assms
proof (induction regs arbitrary: s nr b)
  case (Cons reg regs)
  obtain s1 nr1 ok where r: "reconcileModule E s nr reg = (s1, nr1, ok)" by (metis surj_pair)
  note same = reconcileModule_spec[OF r]
  have "adds jn (\<lambda>w. rg_enabled reg (nr_spec nr) \<and> permits reg (nr_spec nr) (fst w)) s s1"
    by (rule consenting_module.pipeline_writes[OF Cons.prems(1) r refl]) simp
  then have "adds jn (\<lambda>w. permitted permits (reg # regs) (nr_spec nr) (fst w)) s s1"
    by (rule adds_mono) (auto simp: permitted_def)
  moreover from Cons.IH[of s1 nr1 "b \<and> ok"] Cons.prems r same
  have tail: "adds jn (\<lambda>w. permitted permits regs (nr_spec nr) (fst w)) s1 s' \<and> nr_spec nr' = nr_spec nr \<and> nr_name nr' = nr_name nr"
    by auto
  then have "adds jn (\<lambda>w. permitted permits (reg # regs) (nr_spec nr) (fst w)) s1 s'"
    by (auto intro: adds_mono simp: permitted_def)
  ultimately show ?case using tail by (blast intro: adds_trans)
qed simp

end
