(* ===== verification/Network_Policy.thy ===== *)
theory Network_Policy
  imports Network_Remediation
begin

text \<open>
  The NetworkPolicy module (networkpolicy/controller.go): it restarts the enforcement agent on the nodes where its pod is unhealthy.
  The state is the cluster with the fields of the module; the time of the last restart is absent while it is the zero time.
\<close>

record policy_config =
  pf_heal :: bool
  pf_cooldown :: int

record policy_state =
  ps_config :: policy_config
  ps_restarted :: "go_time option"

definition policyModule_new :: policy_state where
  "policyModule_new = \<lparr>ps_config = \<lparr>pf_heal = False, pf_cooldown = 0\<rparr>, ps_restarted = None\<rparr>"

definition kubeSystem :: string where "kubeSystem = ''kube-system''"

definition actionRestartFelix :: string where "actionRestartFelix = ''restart_enforcement_agent''"

definition resolveConfig :: "network_spec option \<Rightarrow> policy_config" where
  "resolveConfig spec =
     (case spec of
        None \<Rightarrow> \<lparr>pf_heal = True, pf_cooldown = 60\<rparr>
      | Some sp \<Rightarrow> \<lparr>pf_heal = np_heal (sp_policy sp),
                   pf_cooldown = (if np_cooldown (sp_policy sp) > 0 then np_cooldown (sp_policy sp) else 60)\<rparr>)"

text \<open>\<^verbatim>\<open>strings.SplitN(key, "/", 2)\<close>: at the first slash.\<close>

definition splitKey :: "string \<Rightarrow> string \<times> string" where
  "splitKey key = (if CHR ''/'' \<in> set key then (takeWhile (\<lambda>c. c \<noteq> CHR ''/'') key, tl (dropWhile (\<lambda>c. c \<noteq> CHR ''/'') key))
                   else ([], key))"

definition pod_key :: "pod \<Rightarrow> string" where
  "pod_key p = pd_ns p @ ''/'' @ pd_name p"

definition felix_bad :: "pod \<Rightarrow> bool" where
  "felix_bad p \<longleftrightarrow> pd_phase p \<noteq> ''Running'' \<or>
     list_ex (\<lambda>cs. cs_restarts cs \<ge> 3 \<or> \<not> cs_ready cs \<or>
       (case cs_waiting cs of None \<Rightarrow> False | Some r \<Rightarrow> r = ''CrashLoopBackOff'' \<or> r = ''Error'')) (pd_containers p)"

definition felix_pods :: list_options where
  "felix_pods = \<lparr>lo_ns = Some kubeSystem, lo_node = None, lo_labels = [(''k8s-app'', ''calico-node'')]\<rparr>"

definition policy_check ::
  "('c, 'z) module_api_scheme \<Rightarrow> 'c \<times> policy_state \<Rightarrow> network_spec \<Rightarrow> ('c \<times> policy_state) \<times> (string + check_result)" where
  "policy_check A = (\<lambda>(s, m) spec.
     (let cfg = resolveConfig (Some spec);
          m = m\<lparr>ps_config := cfg\<rparr>;
          signals = [''autoHeal'' \<mapsto> BoolSignal (pf_heal cfg), ''cooldownSeconds'' \<mapsto> Int32Signal (pf_cooldown cfg)]
      in case mo_pods A s felix_pods of
           (s, Inl e) \<Rightarrow> ((s, m), Inl (''failed to list calico-node pods: '' @ mo_error_text A e))
         | (s, Inr pods) \<Rightarrow>
             (let unhealthy = map pod_key (filter felix_bad pods);
                  signals = signals(''calicoNodeTotal'' \<mapsto> IntSignal (int (length pods)), ''unhealthyFelixPods'' \<mapsto> StringsSignal unhealthy)
              in ((s, m), Inr \<lparr>ck_signals = Some signals, ck_error = None\<rparr>))))"

definition policy_evaluate ::
  "'c \<times> policy_state \<Rightarrow> check_result option \<Rightarrow> ('c \<times> policy_state) \<times> (string + eval_result)" where
  "policy_evaluate s c =
     (case (case c of None \<Rightarrow> None | Some c \<Rightarrow> ck_signals c) of
        None \<Rightarrow> (s, Inr (simple_eval True False ''No check signals available'' ''info''))
      | Some signals \<Rightarrow>
          (let autoHeal = is_true (bool_signal signals ''autoHeal'');
               unhealthyFelix = strings_signal signals ''unhealthyFelixPods'';
               calicoNodeTotal = int_signal signals ''calicoNodeTotal''
           in if unhealthyFelix \<noteq> []
              then (s, Inr \<lparr>er_healthy = False, er_needs = autoHeal,
                     er_reason = ''Calico enforcement agent unhealthy on '' @ dec (length unhealthyFelix) @ '' pod(s): '' @
                       join '', '' unhealthyFelix @ ''; policy enforcement may be stale'',
                     er_severity = ''warning'', er_action = actionRestartFelix,
                     er_data = Some [''pods'' \<mapsto> StringsSignal unhealthyFelix]\<rparr>)
              else (s, Inr (simple_eval True False
                     (''All '' @ int_text calicoNodeTotal @ '' Calico enforcement agent pod(s) healthy; dataplane rules active'') ''info''))))"

text \<open>Deleting the pods: those gone already are passed over, another error ends the loop.\<close>

fun delete_felix ::
  "('c, 'z) module_api_scheme \<Rightarrow> string list \<Rightarrow> 'c \<Rightarrow> string list \<Rightarrow> 'c \<times> string list \<times> (string \<times> api_error) option" where
  "delete_felix A [] s deleted = (s, deleted, None)"
| "delete_felix A (key # ks) s deleted =
     (case mo_delete_pod A s (splitKey key) of
        (s, Some e) \<Rightarrow> if e = NotFound then delete_felix A ks s deleted else (s, deleted, Some (key, e))
      | (s, None) \<Rightarrow> delete_felix A ks s (deleted @ [key]))"

definition cooldown_duration :: "policy_state \<Rightarrow> duration" where
  "cooldown_duration m = (let d = pf_cooldown (ps_config m) * second in if d = 0 then 60 * second else d)"

definition restartEnforcementAgent ::
  "('c, 'z) module_api_scheme \<Rightarrow> 'c \<times> policy_state \<Rightarrow> eval_result \<Rightarrow> ('c \<times> policy_state) \<times> remediate_result \<times> string option" where
  "restartEnforcementAgent A = (\<lambda>(s, m) ev.
     (if (case ps_restarted m of None \<Rightarrow> False | Some t \<Rightarrow> mo_now A s - t < cooldown_duration m)
      then ((s, m), result ''enforcement-agent restart on cooldown; skipping to avoid thrashing'' True, None)
      else
        (let pods = (case er_data ev of None \<Rightarrow> [] | Some d \<Rightarrow> strings_signal d ''pods'')
         in case delete_felix A pods s [] of
              (s, _, Some (key, e)) \<Rightarrow>
                ((s, m), \<lparr>rr_action = ''delete '' @ key, rr_success = False, rr_error = Some (mo_error_text A e)\<rparr>, Some (mo_error_text A e))
            | (s, deleted, None) \<Rightarrow>
                ((s, m\<lparr>ps_restarted := Some (mo_now A s)\<rparr>),
                 result (''Restarted '' @ dec (length deleted) @ '' calico-node pod(s) to resync policy enforcement: '' @ join '', '' deleted) True,
                 None))))"

definition policy_remediate ::
  "('c, 'z) module_api_scheme \<Rightarrow> 'c \<times> policy_state \<Rightarrow> eval_result option \<Rightarrow> ('c \<times> policy_state) \<times> remediate_result \<times> string option" where
  "policy_remediate A s ev =
     (case ev of
        None \<Rightarrow> (s, result ''none'' True, None)
      | Some ev \<Rightarrow> if er_action ev = actionRestartFelix then restartEnforcementAgent A s ev else (s, result ''none'' True, None))"

definition policy_module :: "('c, 'z) module_api_scheme \<Rightarrow> ('c \<times> policy_state) module" where
  "policy_module A = \<lparr>md_name = ''networkpolicy'', md_check = policy_check A, md_evaluate = policy_evaluate, md_remediate = policy_remediate A\<rparr>"

end
