(* ===== verification/Pod_Connectivity.thy ===== *)
theory Pod_Connectivity
  imports "HOL-Library.AList" Network_Remediation
begin

text \<open>
  The pod connectivity module (podconnectivity/topology.go, triangulation.go, remediator.go, controller.go): probes along a ring
  of the nodes, the triangulation of a failure from their results, and the escalation from a restart of the CNI agent to
  the isolation and the draining of a node. The latencies and error texts of probes are never set by the code. The order of
  Go's maps is the function \<open>ord\<close>. One ping is a question to the cluster; that the module has no REST
  configuration (its mock mode) is a probe that always answers yes.
\<close>

subsection \<open>The ring\<close>

record ring_edge =
  re_source :: string
  re_source_ip :: string
  re_target :: string
  re_target_ip :: string
  re_type :: string

definition node_ip :: "k_node \<Rightarrow> string" where
  "node_ip n =
     (let ip = (case find (\<lambda>a. fst a = ''InternalIP'') (kn_addresses n) of None \<Rightarrow> [] | Some a \<Rightarrow> snd a)
      in if ip = [] \<and> kn_addresses n \<noteq> [] then snd (hd (kn_addresses n)) else ip)"

definition node_ip_map :: "k_node list \<Rightarrow> string \<Rightarrow> string" where
  "node_ip_map ns n = (case find (\<lambda>x. kn_name x = n) (rev ns) of None \<Rightarrow> [] | Some x \<Rightarrow> node_ip x)"

definition ring_edges_at :: "(string \<Rightarrow> string) \<Rightarrow> string list \<Rightarrow> nat \<Rightarrow> ring_edge list" where
  "ring_edges_at ip names i =
     (let n = length names; source = names ! i;
          mk = (\<lambda>target typ. \<lparr>re_source = source, re_source_ip = ip source, re_target = target, re_target_ip = ip target, re_type = typ\<rparr>)
      in mk (names ! ((i + 1) mod n)) ''forward'' #
         (if n \<ge> 3 then [mk (names ! ((i + n - 1) mod n)) ''reverse''] else []))"

definition buildRingTopology :: "k_node list \<Rightarrow> string list \<times> ring_edge list" where
  "buildRingTopology nodeList =
     (let names = sort (map kn_name nodeList); n = length names
      in if n < 2 then (names, [])
         else (names, concat (map (ring_edges_at (node_ip_map nodeList) names) [0..<n])))"

subsection \<open>Triangulation\<close>

datatype failure_type =
    NoFailure | LocalCNI | AppVeth | NodeIngress | NodeEgress | AsymmetricPath | TunnelCrash | TotalPartition

record edge_probe =
  eg_source :: string
  eg_target :: string
  eg_success :: bool

record anchor_probe =
  an_node :: string
  an_name :: string
  an_success :: bool

record decision =
  dc_healthy :: bool
  dc_type :: failure_type
  dc_node :: string
  dc_component :: string
  dc_action :: string
  dc_reason :: string
  dc_severity :: string

definition reaches_anchor :: "anchor_probe list \<Rightarrow> string \<Rightarrow> bool" where
  "reaches_anchor anchors n \<longleftrightarrow> list_ex (\<lambda>a. an_node a = n \<and> an_success a) anchors"

definition reaches_external :: "edge_probe list \<Rightarrow> anchor_probe list \<Rightarrow> string \<Rightarrow> bool" where
  "reaches_external ring anchors n \<longleftrightarrow> reaches_anchor anchors n \<or> list_ex (\<lambda>r. eg_source r = n \<and> eg_success r) ring"

definition no_failure :: "string \<Rightarrow> decision" where
  "no_failure reason = \<lparr>dc_healthy = True, dc_type = NoFailure, dc_node = [], dc_component = [], dc_action = ''none'',
     dc_reason = reason, dc_severity = ''info''\<rparr>"

definition blame :: "failure_type \<Rightarrow> string \<Rightarrow> string \<Rightarrow> string \<Rightarrow> string \<Rightarrow> string \<Rightarrow> decision" where
  "blame typ n component action reason severity =
     \<lparr>dc_healthy = False, dc_type = typ, dc_node = n, dc_component = component, dc_action = action, dc_reason = reason, dc_severity = severity\<rparr>"

text \<open>The counts per target and per source, as the maps hold them.\<close>

definition incoming :: "edge_probe list \<Rightarrow> string \<Rightarrow> edge_probe list" where
  "incoming ring n = filter (\<lambda>p. eg_target p = n) ring"

definition outgoing :: "edge_probe list \<Rightarrow> string \<Rightarrow> edge_probe list" where
  "outgoing ring n = filter (\<lambda>p. eg_source p = n) ring"

definition none_succeeds :: "edge_probe list \<Rightarrow> bool" where
  "none_succeeds ps \<longleftrightarrow> length ps > 0 \<and> length (filter eg_success ps) = 0"

definition triangulate ::
  "(string list \<Rightarrow> string list) \<Rightarrow> (string \<times> bool) list \<Rightarrow> edge_probe list \<Rightarrow> anchor_probe list \<Rightarrow> decision" where
  "triangulate ord local ring anchors =
     (case find (\<lambda>n. map_of local n = Some False \<and> reaches_external ring anchors n) (ord (map fst local)) of
        Some n \<Rightarrow> blame LocalCNI n ''CNI'' ''cni_restart''
          (''Local CNI probe failed on node '' @ n @ '' while external egress is operational'') ''critical''
      | None \<Rightarrow>
          if ring = [] then no_failure ''No inter-node probes executed or single node cluster''
          else
            (let failedEdges = filter (\<lambda>p. \<not> eg_success p) ring in
             if failedEdges = [] then no_failure ''All inter-node ring probes are healthy''
             else case find (\<lambda>n. none_succeeds (incoming ring n)) (ord (remdups (map eg_target ring))) of
                 Some target \<Rightarrow> blame NodeIngress target ''CNI'' ''cni_restart''
                   (''All peer nodes failed to reach node '' @ target @ '' (Ingress/Tunnel failure)'') ''critical''
               | None \<Rightarrow>
                   (case find (\<lambda>n. none_succeeds (outgoing ring n)) (ord (remdups (map eg_source ring))) of
                      Some source \<Rightarrow>
                        if reaches_anchor anchors source
                        then blame TunnelCrash source ''CNI'' ''cni_restart''
                          (''Node '' @ source @ '' can reach gateway but lost cross-node overlay connectivity'') ''critical''
                        else blame NodeEgress source ''NIC'' ''node_isolation''
                          (''Node '' @ source @ '' cannot reach any peer nodes or external anchors (Total Egress failure)'') ''critical''
                    | None \<Rightarrow>
                        (let firstFailure = hd failedEdges
                         in blame AsymmetricPath (eg_target firstFailure) ''CNI'' ''cni_restart''
                           (''Asymmetric route/tunnel failure detected between '' @ eg_source firstFailure @ '' and '' @ eg_target firstFailure)
                           ''warning''))))"

definition type_text :: "failure_type \<Rightarrow> string" where
  "type_text t = (case t of
     NoFailure \<Rightarrow> ''None'' | LocalCNI \<Rightarrow> ''LocalCNI'' | AppVeth \<Rightarrow> ''AppVeth'' | NodeIngress \<Rightarrow> ''NodeIngressDead''
   | NodeEgress \<Rightarrow> ''NodeEgressDead'' | AsymmetricPath \<Rightarrow> ''AsymmetricPathFailure'' | TunnelCrash \<Rightarrow> ''TunnelCrash''
   | TotalPartition \<Rightarrow> ''TotalNetworkPartition'')"

subsection \<open>The remediator\<close>

record connectivity_state =
  cy_failures :: int
  cy_threshold :: int
  cy_ns :: string
  cy_decision :: "decision option"
  cy_policy :: "remediation_policy option"
  cy_attempts :: "string \<rightharpoonup> int"
  cy_restarted :: "string \<rightharpoonup> go_time"

definition connectivityModule_new :: connectivity_state where
  "connectivityModule_new = \<lparr>cy_failures = 0, cy_threshold = 0, cy_ns = [], cy_decision = None, cy_policy = None,
     cy_attempts = Map.empty, cy_restarted = Map.empty\<rparr>"

definition in_namespace :: "string \<Rightarrow> list_options" where
  "in_namespace n = \<lparr>lo_ns = Some n, lo_node = None, lo_labels = []\<rparr>"

definition is_cni_pod :: "string \<Rightarrow> string \<Rightarrow> pod \<Rightarrow> bool" where
  "is_cni_pod ds n p \<longleftrightarrow> pd_node p = n \<and> (contains ds (pd_name p) \<or> contains ''calico-node'' (pd_name p) \<or> contains ''kindnet'' (pd_name p))"

definition restartCNIPod ::
  "('c, 'z) module_api_scheme \<Rightarrow> 'c \<Rightarrow> string \<Rightarrow> string \<Rightarrow> string \<Rightarrow> 'c \<times> string \<times> string option" where
  "restartCNIPod A s n ds ns =
     (case mo_pods A s (in_namespace ns) of
        (s, Inl e) \<Rightarrow> (s, [], Some (''failed to list pods in namespace '' @ ns @ '': '' @ mo_error_text A e))
      | (s, Inr pods) \<Rightarrow>
          (case find (is_cni_pod ds n) pods of
             None \<Rightarrow> (s, ''No CNI pod ('' @ ds @ '') found on node '' @ n, Some ''cni pod not found'')
           | Some p \<Rightarrow>
               (case mo_delete_pod A s (pd_ns p, pd_name p) of
                  (s, Some e) \<Rightarrow> (s, ''Failed to delete CNI pod '' @ pd_name p @ '': '' @ mo_error_text A e, Some (mo_error_text A e))
                | (s, None) \<Rightarrow>
                    (s, ''Restarted CNI agent pod '' @ pd_name p @ '' on node '' @ n @ '' to rebuild interfaces and routing tables'', None))))"

definition isolated :: "taint \<Rightarrow> bool \<Rightarrow> k_node \<Rightarrow> k_node" where
  "isolated t cordon nd =
     (let nd = (if cordon \<and> \<not> kn_cordoned nd then nd\<lparr>kn_cordoned := True\<rparr> else nd) in
      if list_ex (\<lambda>u. tn_key u = tn_key t \<and> tn_effect u = tn_effect t) (kn_taints nd) then nd
      else nd\<lparr>kn_taints := kn_taints nd @ [t]\<rparr>)"

definition degrade_node :: "('c, 'z) module_api_scheme \<Rightarrow> 'c \<Rightarrow> string \<Rightarrow> taint \<Rightarrow> bool \<Rightarrow> 'c \<times> string option" where
  "degrade_node A s n t cordon =
     (case mo_get_node A s n of
        (s, Inl e) \<Rightarrow> (s, Some (''failed to get node '' @ n @ '': '' @ mo_error_text A e))
      | (s, Inr nd) \<Rightarrow>
          (case mo_patch_node A s (isolated t cordon nd) of (s, e) \<Rightarrow> (s, map_option (mo_error_text A) e)))"

definition drainable :: "string \<Rightarrow> pod \<Rightarrow> bool" where
  "drainable n p \<longleftrightarrow> pd_node p = n \<and> \<not> pd_mirror p \<and> \<not> list_ex (\<lambda>w. fst w = ''DaemonSet'') (pd_owners p)"

fun evict_pods :: "('c, 'z) module_api_scheme \<Rightarrow> string \<Rightarrow> pod list \<Rightarrow> 'c \<Rightarrow> nat \<Rightarrow> 'c \<times> nat" where
  "evict_pods A n [] s evicted = (s, evicted)"
| "evict_pods A n (p # ps) s evicted =
     (if \<not> drainable n p then evict_pods A n ps s evicted
      else (case mo_delete_pod A s (pd_ns p, pd_name p) of
              (s, None) \<Rightarrow> evict_pods A n ps s (evicted + 1)
            | (s, Some e) \<Rightarrow> evict_pods A n ps s evicted))"

definition drainNode :: "('c, 'z) module_api_scheme \<Rightarrow> 'c \<Rightarrow> string \<Rightarrow> 'c \<times> string \<times> string option" where
  "drainNode A s n =
     (case mo_pods A s everything of
        (s, Inl e) \<Rightarrow> (s, [], Some (''failed to list pods for drain: '' @ mo_error_text A e))
      | (s, Inr pods) \<Rightarrow>
          (case evict_pods A n pods s 0 of
             (s, evicted) \<Rightarrow> (s, ''Drained node '' @ n @ '' (evicted '' @ dec evicted @ '' application pods onto healthy nodes)'', None)))"

definition resetNodeHistory :: "string \<Rightarrow> connectivity_state \<Rightarrow> connectivity_state" where
  "resetNodeHistory n m = m\<lparr>cy_attempts := (cy_attempts m)(n := None), cy_restarted := (cy_restarted m)(n := None)\<rparr>"

text \<open>The limits and names, from the policy or the defaults.\<close>

definition or_default :: "string \<Rightarrow> string \<Rightarrow> string" where
  "or_default d x = (if x \<noteq> [] then x else d)"

record escalation =
  es_daemon_set :: string
  es_ns :: string
  es_max :: int
  es_escalate :: int
  es_taint :: taint

definition escalation_of :: "remediation_policy option \<Rightarrow> escalation" where
  "escalation_of policy =
     (case policy of
        None \<Rightarrow> \<lparr>es_daemon_set = ''calico-node'', es_ns = ''kube-system'', es_max = 2, es_escalate = 2,
                 es_taint = Taint ''network-degraded'' ''true'' ''NoSchedule''\<rparr>
      | Some p \<Rightarrow> \<lparr>es_daemon_set = or_default ''calico-node'' (rm_daemon_set p), es_ns = or_default ''kube-system'' (rm_ns p),
                   es_max = (if rm_max_restarts p > 0 then rm_max_restarts p else 2),
                   es_escalate = (if rm_escalate p > 0 then rm_escalate p else 2),
                   es_taint = Taint (or_default ''network-degraded'' (rm_taint_key p)) (or_default ''true'' (rm_taint_value p))
                     (or_default ''NoSchedule'' (rm_taint_effect p))\<rparr>)"

definition attempts_of :: "connectivity_state \<Rightarrow> string \<Rightarrow> int" where
  "attempts_of m n = (case cy_attempts m n of None \<Rightarrow> 0 | Some k \<Rightarrow> k)"

definition executeRemediation ::
  "('c, 'z) module_api_scheme \<Rightarrow> 'c \<times> connectivity_state \<Rightarrow> decision \<Rightarrow> remediation_policy option \<Rightarrow>
   ('c \<times> connectivity_state) \<times> string \<times> bool \<times> string option" where
  "executeRemediation A = (\<lambda>(s, m) d policy.
     (let n = dc_node d; x = escalation_of policy; attempts = attempts_of m n; t = es_taint x in
      if n = [] then ((s, m), ''No target node identified for remediation'', False, None)
      else if (case policy of None \<Rightarrow> False | Some p \<Rightarrow> \<not> rm_auto p)
      then ((s, m), ''Auto remediation disabled by policy for node '' @ n, False, None)
      else if attempts \<ge> es_escalate x \<and> (case policy of None \<Rightarrow> False | Some p \<Rightarrow> rm_drain p)
      then (case degrade_node A s n t True of
              (s, _) \<Rightarrow> (case drainNode A s n of (s, msg, err) \<Rightarrow> ((s, m), msg, err = None, err)))
      else if dc_action d = ''node_isolation''
      then (case degrade_node A s n t True of
              (s, Some e) \<Rightarrow> ((s, m), ''Failed to isolate node '' @ n @ '': '' @ e, False, Some e)
            | (s, None) \<Rightarrow>
                ((s, m), ''Tainted node '' @ n @ '' with '' @ tn_key t @ ''='' @ tn_value t @ '':'' @ tn_effect t @ '' and cordoned node'', True, None))
      else if attempts < es_max x
      then (case restartCNIPod A s n (es_daemon_set x) (es_ns x) of
              (s, msg, None) \<Rightarrow>
                ((s, m\<lparr>cy_attempts := (cy_attempts m)(n \<mapsto> attempts + 1), cy_restarted := (cy_restarted m)(n \<mapsto> mo_now A s)\<rparr>), msg, True, None)
            | (s, msg, Some e) \<Rightarrow> ((s, m), msg, False, Some e))
      else (case degrade_node A s n t True of
              (s, Some e) \<Rightarrow> ((s, m), ''Failed to isolate node '' @ n @ '': '' @ e, False, Some e)
            | (s, None) \<Rightarrow>
                ((s, m), ''Max CNI restarts exceeded ('' @ int_text (es_max x) @ ''). Tainted and cordoned node '' @ n, True, None))))"

subsection \<open>The phases\<close>

definition canary_step :: "pod \<Rightarrow> (string \<rightharpoonup> pod) \<Rightarrow> (string \<rightharpoonup> pod)" where
  "canary_step p m =
     (if pd_phase p = ''Running'' \<and> pd_ip p \<noteq> [] \<and>
         (m (pd_node p) = None \<or> contains ''dns-checker'' (pd_name p) \<or> contains ''probe'' (pd_name p))
      then m(pd_node p \<mapsto> p) else m)"

definition node_pods :: "pod list \<Rightarrow> string \<rightharpoonup> pod" where
  "node_pods pods = fold canary_step pods Map.empty"

fun probe_nodes ::
  "('c, 'z) module_api_scheme \<Rightarrow> (string \<rightharpoonup> pod) \<Rightarrow> string \<Rightarrow> string list \<Rightarrow> 'c \<Rightarrow> (string \<times> bool) list \<Rightarrow> anchor_probe list \<Rightarrow>
   'c \<times> (string \<times> bool) list \<times> anchor_probe list" where
  "probe_nodes A pods gateway [] s local anchors = (s, local, anchors)"
| "probe_nodes A pods gateway (n # ns) s local anchors =
     (case pods n of
        None \<Rightarrow> probe_nodes A pods gateway ns s (AList.update n True local) anchors
      | Some p \<Rightarrow>
          (case mo_ping A s (p, pd_ip p) of
             (s, ok) \<Rightarrow>
               (case mo_ping A s (p, gateway) of
                  (s, anchorOk) \<Rightarrow>
                    probe_nodes A pods gateway ns s (AList.update n ok local)
                      (anchors @ [\<lparr>an_node = n, an_name = ''gateway'', an_success = anchorOk\<rparr>]))))"

fun probe_edges ::
  "('c, 'z) module_api_scheme \<Rightarrow> (string \<rightharpoonup> pod) \<Rightarrow> ring_edge list \<Rightarrow> 'c \<Rightarrow> edge_probe list \<Rightarrow> 'c \<times> edge_probe list" where
  "probe_edges A pods [] s probes = (s, probes)"
| "probe_edges A pods (e # es) s probes =
     (case (pods (re_source e), pods (re_target e)) of
        (Some src, Some dst) \<Rightarrow>
          (case mo_ping A s (src, pd_ip dst) of
             (s, ok) \<Rightarrow> probe_edges A pods es s (probes @ [\<lparr>eg_source = re_source e, eg_target = re_target e, eg_success = ok\<rparr>]))
      | _ \<Rightarrow> probe_edges A pods es s probes)"

definition decision_signals :: "decision \<Rightarrow> signals" where
  "decision_signals d =
     [''status'' \<mapsto> StringSignal (type_text (dc_type d)), ''isHealthy'' \<mapsto> BoolSignal (dc_healthy d),
      ''faultyNode'' \<mapsto> StringSignal (dc_node d), ''faultyComponent'' \<mapsto> StringSignal (dc_component d),
      ''recommendedAction'' \<mapsto> StringSignal (dc_action d), ''reason'' \<mapsto> StringSignal (dc_reason d),
      ''severity'' \<mapsto> StringSignal (dc_severity d)]"

definition connectivity_check ::
  "('c, 'z) module_api_scheme \<Rightarrow> 'c \<times> connectivity_state \<Rightarrow> network_spec \<Rightarrow> ('c \<times> connectivity_state) \<times> (string + check_result)" where
  "connectivity_check A = (\<lambda>(s, m) spec.
     (let pc = sp_connectivity spec;
          ns = or_default ''default'' (pc_ns pc);
          m = m\<lparr>cy_ns := ns, cy_policy := Some (pc_policy pc), cy_threshold := (if pc_threshold pc \<le> 0 then 2 else pc_threshold pc)\<rparr>
      in case mo_nodes A s of
           (s, Inl e) \<Rightarrow> ((s, m), Inl (''failed to list cluster nodes: '' @ mo_error_text A e))
         | (s, Inr nds) \<Rightarrow>
             if nds = [] then ((s, m), Inr \<lparr>ck_signals = Some [''status'' \<mapsto> StringSignal ''no_nodes''], ck_error = None\<rparr>)
             else
               (case mo_pods A s (in_namespace ns) of
                  (s, Inl e) \<Rightarrow> ((s, m), Inl (''failed to list pods in '' @ ns @ '': '' @ mo_error_text A e))
                | (s, Inr pods) \<Rightarrow>
                    (let canaries = node_pods pods;
                         gateway = (case pc_anchors pc of [] \<Rightarrow> ''8.8.8.8'' | a # _ \<Rightarrow> a)
                     in case buildRingTopology nds of
                          (names, edges) \<Rightarrow>
                            (case probe_nodes A canaries gateway names s [] [] of
                               (s, local, anchors) \<Rightarrow>
                                 (case probe_edges A canaries edges s [] of
                                    (s, ring) \<Rightarrow>
                                      (let d = triangulate (mo_order A) local ring anchors
                                       in ((s, m\<lparr>cy_decision := Some d\<rparr>), Inr \<lparr>ck_signals = Some (decision_signals d), ck_error = None\<rparr>))))))))"

definition connectivity_evaluate ::
  "'c \<times> connectivity_state \<Rightarrow> check_result option \<Rightarrow> ('c \<times> connectivity_state) \<times> (string + eval_result)" where
  "connectivity_evaluate = (\<lambda>(s, m) c.
     (case c of
        None \<Rightarrow> ((s, m), Inl nil_dereference)
      | Some c \<Rightarrow>
          (case ck_error c of
             Some err \<Rightarrow> ((s, m), Inr (simple_eval False False (''Check error: '' @ err) ''warning''))
           | None \<Rightarrow>
               (let signals = signals_of c;
                    isHealthy = is_true (bool_signal signals ''isHealthy'');
                    status = string_signal signals ''status''
                in if isHealthy \<or> status = ''healthy'' \<or> status = ''insufficient_pods'' \<or> status = ''no_nodes''
                   then (let m = m\<lparr>cy_failures := 0\<rparr>;
                             m = (case cy_decision m of
                                    Some d \<Rightarrow> if dc_node d \<noteq> [] then resetNodeHistory (dc_node d) m else m
                                  | None \<Rightarrow> m)
                         in ((s, m), Inr (simple_eval True False ''Pod-to-pod network connectivity is healthy'' ''info'')))
                   else (let m = m\<lparr>cy_failures := cy_failures m + 1\<rparr>;
                             threshold = (if cy_threshold m \<le> 0 then 2 else cy_threshold m)
                         in ((s, m), Inr (simple_eval False (cy_failures m \<ge> threshold) (string_signal signals ''reason'')
                               (or_default ''critical'' (string_signal signals ''severity'')))))))))"

definition connectivity_remediate ::
  "('c, 'z) module_api_scheme \<Rightarrow> 'c \<times> connectivity_state \<Rightarrow> eval_result option \<Rightarrow>
   ('c \<times> connectivity_state) \<times> remediate_result \<times> string option" where
  "connectivity_remediate A = (\<lambda>(s, m) ev.
     (case cy_decision m of
        None \<Rightarrow> ((s, m), result ''No faulty node identified for remediation'' False, None)
      | Some d \<Rightarrow>
          if dc_node d = [] then ((s, m), result ''No faulty node identified for remediation'' False, None)
          else (case executeRemediation A (s, m) d (cy_policy m) of
                  ((s, m), msg, success, Some err) \<Rightarrow> ((s, m), \<lparr>rr_action = msg, rr_success = False, rr_error = Some err\<rparr>, None)
                | ((s, m), msg, success, None) \<Rightarrow> ((s, m\<lparr>cy_failures := 0\<rparr>), result msg success, None))))"

definition connectivity_module :: "('c, 'z) module_api_scheme \<Rightarrow> ('c \<times> connectivity_state) module" where
  "connectivity_module A = \<lparr>md_name = ''podconnectivity'', md_check = connectivity_check A, md_evaluate = connectivity_evaluate,
     md_remediate = connectivity_remediate A\<rparr>"

end
