(* ===== verification/Core_Dns.thy ===== *)
theory Core_Dns
  imports Network_Remediation
begin

text \<open>
  The CoreDNS module (coredns/controller.go): scaling the deployment back up, repairing the forward directive of the
  Corefile, restoring CPU resources, restarting crash-looping pods. The regular expression of the forward directive is the matcher
  \<open>match_forward\<close>: every part of it is a run of characters that the next part cannot start with, so the greedy match is the
  only one. Text is ASCII. The HTTP request to Prometheus with the decoding of its answer is \<open>mo_fetch_metric\<close>.
\<close>

record coredns_state =
  dn_remediated :: "go_time option"
  dn_replicas :: int
  dn_fallback :: "string list"

definition corednsModule_new :: coredns_state where
  "corednsModule_new = \<lparr>dn_remediated = None, dn_replicas = 0, dn_fallback = []\<rparr>"

definition corednsKey :: "string \<times> string" where "corednsKey = (''kube-system'', ''coredns'')"

definition corefileName :: string where "corefileName = ''Corefile''"

definition defaultFallbackUpstream :: string where "defaultFallbackUpstream = ''/etc/resolv.conf''"

definition actionScaleReplicas :: string where "actionScaleReplicas = ''scale_replicas''"

definition actionRepairConfigMap :: string where "actionRepairConfigMap = ''repair_configmap''"

definition actionRestoreResources :: string where "actionRestoreResources = ''restore_resources''"

definition actionRestartDeployment :: string where "actionRestartDeployment = ''restart_deployment''"

subsection \<open>The forward directive\<close>

text \<open>The white space of a regular expression, and of \<^verbatim>\<open>strings.TrimSpace\<close>.\<close>

definition re_space :: "char \<Rightarrow> bool" where
  "re_space c \<longleftrightarrow> (let k = of_char c :: nat in k = 9 \<or> k = 10 \<or> k = 12 \<or> k = 13 \<or> k = 32)"

definition go_space :: "char \<Rightarrow> bool" where
  "go_space c \<longleftrightarrow> re_space c \<or> (of_char c :: nat) = 11"

definition trim_space :: "string \<Rightarrow> string" where
  "trim_space xs = rev (dropWhile go_space (rev (dropWhile go_space xs)))"

definition newline :: char where "newline = CHR 0x0A"

definition target_char :: "char \<Rightarrow> bool" where
  "target_char c \<longleftrightarrow> \<not> re_space c \<and> c \<noteq> CHR ''{''"

text \<open>A match at the start of a line: the text of the match, the target, and the text behind the match.\<close>

definition match_forward :: "string \<Rightarrow> (string \<times> string \<times> string) option" where
  "match_forward xs =
     (let a = dropWhile re_space xs in
      if \<not> has_prefix ''forward'' a then None
      else let b = drop 7 a; c = dropWhile re_space b in
        if c = b \<or> \<not> has_prefix ''.'' c then None
        else let d = drop 1 c; e = dropWhile re_space d; target = takeWhile target_char e; rest = dropWhile target_char e in
          if e = d \<or> target = [] then None else Some (take (length xs - length rest) xs, target, rest))"

lemma match_forward_shorter: "match_forward xs = Some (m, t, rest) \<Longrightarrow> length rest < length xs"
proof -
  assume "match_forward xs = Some (m, t, rest)"
  then obtain e where e: "rest = dropWhile target_char e" "t = takeWhile target_char e" "t \<noteq> []" "length e \<le> length xs"
  proof -
    define a where "a = dropWhile re_space xs"
    define c where "c = dropWhile re_space (drop 7 a)"
    define e where "e = dropWhile re_space (drop 1 c)"
    assume *: "\<And>e. rest = dropWhile target_char e \<Longrightarrow> t = takeWhile target_char e \<Longrightarrow> t \<noteq> [] \<Longrightarrow> length e \<le> length xs \<Longrightarrow> thesis"
      "match_forward xs = Some (m, t, rest)"
    have "length e \<le> length c" unfolding e_def using length_dropWhile_le[of re_space "drop 1 c"] by simp
    also have "\<dots> \<le> length a" unfolding c_def using length_dropWhile_le[of re_space "drop 7 a"] by simp
    also have "\<dots> \<le> length xs" unfolding a_def by (rule length_dropWhile_le)
    finally show thesis using *(2) by (intro *(1)[of e]) (auto simp: match_forward_def Let_def a_def c_def e_def split: if_splits)
  qed
  have "length e = length t + length rest" unfolding e(1,2) by (metis length_append takeWhile_dropWhile_id)
  then show ?thesis using e(3,4) by (cases t) auto
qed

fun find_forward :: "bool \<Rightarrow> string \<Rightarrow> string option" where
  "find_forward bol [] = None"
| "find_forward bol (x # xs) =
     (case (if bol then match_forward (x # xs) else None) of
        Some (m, target, rest) \<Rightarrow> Some target
      | None \<Rightarrow> find_forward (x = newline) xs)"

text \<open>\<^verbatim>\<open>Regexp.expand\<close>: references to the groups of the match in a replacement text.\<close>

definition word_char :: "char \<Rightarrow> bool" where
  "word_char c \<longleftrightarrow> (let k = of_char c :: nat in 48 \<le> k \<and> k \<le> 57 \<or> 65 \<le> k \<and> k \<le> 90 \<or> 97 \<le> k \<and> k \<le> 122 \<or> k = 95)"

definition group_text :: "string \<Rightarrow> string \<Rightarrow> string \<Rightarrow> string" where
  "group_text m t name = (if name = ''0'' then m else if name = ''1'' then t else [])"

definition extract_name :: "string \<Rightarrow> (string \<times> string) option" where
  "extract_name xs =
     (let brace = has_prefix ''{'' xs; ys = (if brace then drop 1 xs else xs);
          name = takeWhile word_char ys; rest = dropWhile word_char ys
      in if name = [] then None
         else if brace then (if has_prefix ''}'' rest then Some (name, drop 1 rest) else None)
         else Some (name, rest))"

lemma extract_name_shorter: "extract_name xs = Some (name, rest) \<Longrightarrow> length rest \<le> length xs"
  using length_dropWhile_le[of word_char xs] length_dropWhile_le[of word_char "drop 1 xs"]
  by (auto simp: extract_name_def Let_def split: if_splits)

function expand :: "string \<Rightarrow> string \<Rightarrow> string \<Rightarrow> string" where
  "expand m t [] = []"
| "expand m t (x # xs) =
     (if x \<noteq> CHR ''$'' then x # expand m t xs
      else if has_prefix ''$'' xs then CHR ''$'' # expand m t (drop 1 xs)
      else (case extract_name xs of
              None \<Rightarrow> CHR ''$'' # expand m t xs
            | Some (name, rest) \<Rightarrow> group_text m t name @ expand m t rest))"
  by pat_completeness auto
termination by (relation "measure (\<lambda>(m, t, xs). length xs)") (auto dest: extract_name_shorter)

function replace_forward :: "string \<Rightarrow> bool \<Rightarrow> string \<Rightarrow> string" where
  "replace_forward repl bol [] = []"
| "replace_forward repl bol (x # xs) =
     (case (if bol then match_forward (x # xs) else None) of
        Some (m, target, rest) \<Rightarrow> expand m target repl @ replace_forward repl False rest
      | None \<Rightarrow> x # replace_forward repl (x = newline) xs)"
  by pat_completeness auto
termination
  by (relation "measure (\<lambda>(r, b, xs). length xs)") (auto split: if_splits dest!: match_forward_shorter)

definition corrupted_target :: "string \<Rightarrow> bool" where
  "corrupted_target t \<longleftrightarrow> has_prefix ''192.0.2.'' t \<or> has_prefix ''198.51.100.'' t \<or> has_prefix ''203.0.113.'' t \<or>
     t = ''0.0.0.0'' \<or> t = ''127.0.0.1''"

subsection \<open>Check\<close>

definition fallback_servers :: "network_spec option \<Rightarrow> string list" where
  "fallback_servers spec =
     (case spec of None \<Rightarrow> [defaultFallbackUpstream]
      | Some sp \<Rightarrow> if co_fallback (sp_coredns sp) \<noteq> [] then co_fallback (sp_coredns sp) else [defaultFallbackUpstream])"

definition expected_replicas :: "network_spec option \<Rightarrow> int" where
  "expected_replicas spec =
     (case spec of None \<Rightarrow> 2 | Some sp \<Rightarrow> if co_replicas (sp_coredns sp) > 0 then co_replicas (sp_coredns sp) else 2)"

definition latency_threshold :: "network_spec option \<Rightarrow> int" where
  "latency_threshold spec =
     (case spec of None \<Rightarrow> 150 | Some sp \<Rightarrow> if co_latency (sp_coredns sp) > 0 then co_latency (sp_coredns sp) else 150)"

definition spec_flag :: "(coredns_spec \<Rightarrow> bool) \<Rightarrow> network_spec option \<Rightarrow> bool" where
  "spec_flag f spec = (case spec of None \<Rightarrow> True | Some sp \<Rightarrow> f (sp_coredns sp))"

definition config_signals :: "network_spec option \<Rightarrow> signals" where
  "config_signals spec =
     [''expectedReplicas'' \<mapsto> Int32Signal (expected_replicas spec),
      ''autoHealReplicas'' \<mapsto> BoolSignal (spec_flag co_heal_replicas spec),
      ''autoHealConfigMap'' \<mapsto> BoolSignal (spec_flag co_heal_config spec),
      ''upstreamDnsValidation'' \<mapsto> BoolSignal (spec_flag co_validation spec),
      ''latencyThresholdMs'' \<mapsto> Int64Signal (latency_threshold spec),
      ''fallbackDNS'' \<mapsto> StringsSignal (fallback_servers spec)]"

definition few_millis :: "(string \<rightharpoonup> int) \<Rightarrow> bool" where
  "few_millis m = (case m ''cpu'' of None \<Rightarrow> False | Some v \<Rightarrow> v > 0 \<and> v \<le> 5)"

definition cpu_throttled :: "deployment \<Rightarrow> bool" where
  "cpu_throttled d = (case dp_containers d of [] \<Rightarrow> False | c # _ \<Rightarrow> few_millis (ct_requests c) \<or> few_millis (ct_limits c))"

definition checkDeployment ::
  "('c, 'z) module_api_scheme \<Rightarrow> 'c \<Rightarrow> signals \<Rightarrow> 'c \<times> (string + signals)" where
  "checkDeployment A s signals =
     (case mo_get_deployment A s corednsKey of
        (s, Inl e) \<Rightarrow>
          if e = NotFound then (s, Inr (signals(''deploymentFound'' \<mapsto> BoolSignal False)))
          else (s, Inl (''failed to get coredns deployment: '' @ mo_error_text A e))
      | (s, Inr d) \<Rightarrow>
          (s, Inr (signals(''deploymentFound'' \<mapsto> BoolSignal True,
             ''desiredReplicas'' \<mapsto> Int32Signal (case dp_replicas d of None \<Rightarrow> 1 | Some n \<Rightarrow> n),
             ''availableReplicas'' \<mapsto> Int32Signal (dp_available d),
             ''readyReplicas'' \<mapsto> Int32Signal (dp_ready d),
             ''updatedReplicas'' \<mapsto> Int32Signal (dp_updated d),
             ''cpuThrottled'' \<mapsto> BoolSignal (cpu_throttled d)))))"

definition dns_pods :: list_options where
  "dns_pods = \<lparr>lo_ns = Some ''kube-system'', lo_node = None, lo_labels = [(''k8s-app'', ''kube-dns'')]\<rparr>"

definition crash_looping :: "container_status \<Rightarrow> bool" where
  "crash_looping cs =
     (case cs_waiting cs of None \<Rightarrow> False | Some r \<Rightarrow> r = ''CrashLoopBackOff'' \<or> r = ''Error'' \<or> r = ''ImagePullBackOff'')"

definition checkPods :: "('c, 'z) module_api_scheme \<Rightarrow> 'c \<Rightarrow> signals \<Rightarrow> 'c \<times> signals" where
  "checkPods A s signals =
     (case mo_pods A s dns_pods of
        (s, Inl e) \<Rightarrow> (s, signals)
      | (s, Inr pods) \<Rightarrow>
          (let containers = concat (map pd_containers pods) in
           (s, signals(''podCount'' \<mapsto> IntSignal (int (length pods)),
              ''runningPods'' \<mapsto> IntSignal (int (length (filter (\<lambda>p. pd_phase p = ''Running'') pods))),
              ''crashLoopingPods'' \<mapsto> IntSignal (int (length (filter crash_looping containers))),
              ''totalRestarts'' \<mapsto> Int32Signal (int32 (sum_list (map cs_restarts containers)))))))"

definition corefile_of :: "config_map \<Rightarrow> string" where
  "corefile_of cm = (case cm_data cm of None \<Rightarrow> [] | Some d \<Rightarrow> (case d corefileName of None \<Rightarrow> [] | Some x \<Rightarrow> x))"

definition checkConfigMap :: "('c, 'z) module_api_scheme \<Rightarrow> 'c \<Rightarrow> signals \<Rightarrow> 'c \<times> signals" where
  "checkConfigMap A s signals =
     (case mo_get_config_map A s corednsKey of
        (s, Inl e) \<Rightarrow> (s, signals(''configMapFound'' \<mapsto> BoolSignal False))
      | (s, Inr cm) \<Rightarrow>
          (let corefile = corefile_of cm;
               signals = signals(''configMapFound'' \<mapsto> BoolSignal True, ''corefileLength'' \<mapsto> IntSignal (int (length corefile)));
               enabled = (case bool_signal signals ''upstreamDnsValidation'' of Some uv \<Rightarrow> uv | None \<Rightarrow> True)
           in case (if enabled then find_forward True corefile else None) of
                None \<Rightarrow> (s, signals(''upstreamCorrupted'' \<mapsto> BoolSignal False))
              | Some t \<Rightarrow>
                  (let forwardTarget = trim_space t in
                   (s, signals(''forwardTarget'' \<mapsto> StringSignal forwardTarget,
                      ''upstreamCorrupted'' \<mapsto> BoolSignal (corrupted_target forwardTarget))))))"

definition prometheus_urls :: "string list" where
  "prometheus_urls =
     [''http://prometheus.monitoring.svc.cluster.local:9090/api/v1/query?query=rate(coredns_dns_request_duration_seconds_sum[1m])/rate(coredns_dns_request_duration_seconds_count[1m])'',
      ''http://127.0.0.1:30090/api/v1/query?query=rate(coredns_dns_request_duration_seconds_sum[1m])/rate(coredns_dns_request_duration_seconds_count[1m])'']"

fun query_urls :: "('c, 'z) module_api_scheme \<Rightarrow> string list \<Rightarrow> 'c \<Rightarrow> 'c \<times> rat option" where
  "query_urls A [] s = (s, None)"
| "query_urls A (u # us) s =
     (case mo_fetch_metric A s u of
        (s, Some sec) \<Rightarrow> (s, Some (to_float (sec * 1000)))
      | (s, None) \<Rightarrow> query_urls A us s)"

definition queryPrometheusLatency :: "('c, 'z) module_api_scheme \<Rightarrow> 'c \<Rightarrow> 'c \<times> rat option" where
  "queryPrometheusLatency A s = query_urls A prometheus_urls s"

definition coredns_check ::
  "('c, 'z) module_api_scheme \<Rightarrow> 'c \<times> coredns_state \<Rightarrow> network_spec \<Rightarrow> ('c \<times> coredns_state) \<times> (string + check_result)" where
  "coredns_check A = (\<lambda>(s, m) spec.
     (let signals = config_signals (Some spec);
          m = m\<lparr>dn_replicas := expected_replicas (Some spec), dn_fallback := fallback_servers (Some spec)\<rparr>
      in case checkDeployment A s signals of
           (s, Inl err) \<Rightarrow> ((s, m), Inl err)
         | (s, Inr signals) \<Rightarrow>
             if bool_signal signals ''deploymentFound'' = Some False
             then ((s, m), Inr \<lparr>ck_signals = Some signals, ck_error = None\<rparr>)
             else
               (case checkPods A s signals of
                  (s, signals) \<Rightarrow>
                    (case checkConfigMap A s signals of
                       (s, signals) \<Rightarrow>
                         (case queryPrometheusLatency A s of
                            (s, ms) \<Rightarrow>
                              (let signals = (case ms of Some v \<Rightarrow> if v > 0 then signals(''prometheusLatencyMs'' \<mapsto> FloatSignal v) else signals
                                              | None \<Rightarrow> signals)
                               in ((s, m), Inr \<lparr>ck_signals = Some signals, ck_error = None\<rparr>)))))))"

subsection \<open>Evaluate\<close>

definition act :: "bool \<Rightarrow> string \<Rightarrow> string \<Rightarrow> string \<Rightarrow> signals option \<Rightarrow> eval_result" where
  "act needs reason severity action data =
     \<lparr>er_healthy = False, er_needs = needs, er_reason = reason, er_severity = severity, er_action = action, er_data = data\<rparr>"

definition evaluate_signals :: "signals \<Rightarrow> eval_result" where
  "evaluate_signals signals =
     (let expectedReplicas = (let er = int32_signal signals ''expectedReplicas'' in if er > 0 then er else 2);
          fallbackDNS = (let fd = strings_signal signals ''fallbackDNS'' in if fd \<noteq> [] then fd else [defaultFallbackUpstream]);
          validation = (case bool_signal signals ''upstreamDnsValidation'' of Some uv \<Rightarrow> uv | None \<Rightarrow> True);
          availableReplicas = int32_signal signals ''availableReplicas'';
          readyReplicas = int32_signal signals ''readyReplicas'';
          desiredReplicas = int32_signal signals ''desiredReplicas'';
          crashLoopingPods = int_signal signals ''crashLoopingPods'';
          forwardTarget = string_signal signals ''forwardTarget'';
          latencyThresholdMs = (case signals ''latencyThresholdMs'' of Some (Int64Signal lt) \<Rightarrow> if lt > 0 then lt else 150 | _ \<Rightarrow> 150)
      in if bool_signal signals ''deploymentFound'' = Some False
         then simple_eval False False ''CoreDNS deployment missing in kube-system namespace'' ''critical''
         else if availableReplicas = 0 \<or> desiredReplicas = 0
         then act (is_true (bool_signal signals ''autoHealReplicas''))
                (''CoreDNS deployment has 0 available replicas (expected '' @ int_text expectedReplicas @ '', desired '' @ int_text desiredReplicas @
                 ''); all cluster DNS resolution is unavailable'') ''critical''
                actionScaleReplicas (Some [''targetReplicas'' \<mapsto> Int32Signal expectedReplicas])
         else if validation \<and> is_true (bool_signal signals ''upstreamCorrupted'')
         then act (is_true (bool_signal signals ''autoHealConfigMap''))
                (''CoreDNS upstream resolver corrupted (forward directive points to unreachable '' @ [CHR 0x27] @ forwardTarget @ [CHR 0x27] @
                 ''); external DNS lookups failing'') ''critical''
                actionRepairConfigMap (Some [''fallbackDNS'' \<mapsto> StringsSignal fallbackDNS])
         else if is_true (bool_signal signals ''cpuThrottled'')
         then act True ''CoreDNS deployment CPU is severely throttled (<= 5m CPU request/limit), causing DNS latency spikes'' ''warning''
                actionRestoreResources None
         else if (case signals ''prometheusLatencyMs'' of Some (FloatSignal v) \<Rightarrow> v > to_float (of_int latencyThresholdMs) | _ \<Rightarrow> False)
         then act True
                (''Prometheus metric query detected DNS latency ('' @
                 (case signals ''prometheusLatencyMs'' of Some (FloatSignal v) \<Rightarrow> fixed_text 2 v | _ \<Rightarrow> []) @
                 '' ms) exceeding threshold ('' @ int_text latencyThresholdMs @ '' ms)'') ''warning''
                actionRestoreResources None
         else if crashLoopingPods > 0
         then act True (int_text crashLoopingPods @ '' CoreDNS pod(s) are crashlooping'') ''critical'' actionRestartDeployment None
         else simple_eval True False
                (''CoreDNS is healthy ('' @ int_text readyReplicas @ ''/'' @ int_text expectedReplicas @ '' replicas ready and serving)'') ''info'')"

definition coredns_evaluate ::
  "'c \<times> coredns_state \<Rightarrow> check_result option \<Rightarrow> ('c \<times> coredns_state) \<times> (string + eval_result)" where
  "coredns_evaluate s c =
     (case (case c of None \<Rightarrow> None | Some c \<Rightarrow> ck_signals c) of
        None \<Rightarrow> (s, Inr (simple_eval True False ''No check signals available'' ''info''))
      | Some signals \<Rightarrow> (s, Inr (evaluate_signals signals)))"

subsection \<open>Remediate\<close>

text \<open>The text of a duration of whole seconds.\<close>

definition seconds_text :: "nat \<Rightarrow> string" where
  "seconds_text k = (if k \<ge> 3600 then dec (k div 3600) @ ''h'' else []) @ (if k \<ge> 60 then dec (k mod 3600 div 60) @ ''m'' else []) @
     dec (k mod 60) @ ''s''"

definition round_seconds :: "duration \<Rightarrow> int" where
  "round_seconds e = (if e \<ge> 0 then (e + second div 2) div second else - ((- e + second div 2) div second))"

definition inferActionFromReason :: "string \<Rightarrow> string" where
  "inferActionFromReason reason =
     (let lower = to_lower reason in
      if contains ''available replicas'' lower \<or> contains ''0 available replicas'' lower \<or> contains ''replicas'' lower then actionScaleReplicas
      else if contains ''upstream resolver corrupted'' lower \<or> contains ''forward directive'' lower then actionRepairConfigMap
      else if contains ''throttled'' lower \<or> contains ''latency'' lower then actionRestoreResources
      else if contains ''crashlooping'' lower then actionRestartDeployment
      else [])"

type_synonym 'c dns_step = "('c \<times> coredns_state) \<times> remediate_result \<times> string option"

definition failed :: "('c, 'z) module_api_scheme \<Rightarrow> 'c \<times> coredns_state \<Rightarrow> string \<Rightarrow> api_error \<Rightarrow> 'c dns_step" where
  "failed A s action e =
     (s, \<lparr>rr_action = action, rr_success = False, rr_error = Some (mo_error_text A e)\<rparr>, Some (mo_error_text A e))"

definition remediated :: "('c, 'z) module_api_scheme \<Rightarrow> 'c \<times> coredns_state \<Rightarrow> string \<Rightarrow> 'c dns_step" where
  "remediated A = (\<lambda>(s, m) msg. ((s, m\<lparr>dn_remediated := Some (mo_now A s)\<rparr>), result msg True, None))"

definition target_replicas :: "coredns_state \<Rightarrow> eval_result option \<Rightarrow> int" where
  "target_replicas m ev =
     (case (case ev of None \<Rightarrow> None | Some ev \<Rightarrow> er_data ev) of
        Some d \<Rightarrow> (let tr = int32_signal d ''targetReplicas'' in if tr > 0 then tr else 2)
      | None \<Rightarrow> if dn_replicas m > 0 then dn_replicas m else 2)"

definition remediateScaleReplicas ::
  "('c, 'z) module_api_scheme \<Rightarrow> 'c \<times> coredns_state \<Rightarrow> eval_result option \<Rightarrow> 'c dns_step" where
  "remediateScaleReplicas A = (\<lambda>(s, m) ev.
     (case mo_get_deployment A s corednsKey of
        (s, Inl e) \<Rightarrow> failed A (s, m) ''fetch coredns deployment'' e
      | (s, Inr d) \<Rightarrow>
          (let target = target_replicas m ev in
           case mo_update_deployment A s (d\<lparr>dp_replicas := Some target\<rparr>) of
             (s, Some e) \<Rightarrow> failed A (s, m) ''scale coredns deployment'' e
           | (s, None) \<Rightarrow> remediated A (s, m) (''Scaled CoreDNS deployment back up to '' @ int_text target @ '' replicas''))))"

definition upstream_servers :: "coredns_state \<Rightarrow> eval_result option \<Rightarrow> string list" where
  "upstream_servers m ev =
     (case (case ev of None \<Rightarrow> None | Some ev \<Rightarrow> er_data ev) of
        Some d \<Rightarrow> (let f = strings_signal d ''fallbackDNS'' in if f \<noteq> [] then f else [defaultFallbackUpstream])
      | None \<Rightarrow> if dn_fallback m \<noteq> [] then dn_fallback m else [defaultFallbackUpstream])"

definition replacement_directive :: "string list \<Rightarrow> string" where
  "replacement_directive servers = ''forward . '' @ join '' '' servers"

definition repairCorefile :: "string list \<Rightarrow> string \<Rightarrow> string" where
  "repairCorefile servers corefile = replace_forward (replacement_directive servers) True corefile"

fun await_config :: "('c, 'z) module_api_scheme \<Rightarrow> string \<Rightarrow> nat \<Rightarrow> 'c \<Rightarrow> 'c" where
  "await_config A directive 0 s = s"
| "await_config A directive (Suc k) s =
     (case mo_get_config_map A s corednsKey of
        (s, Inr cm) \<Rightarrow>
          if contains directive (corefile_of cm) then s
          else await_config A directive k (mo_sleep A s (second div 10))
      | (s, Inl e) \<Rightarrow> await_config A directive k (mo_sleep A s (second div 10)))"

definition restarted_at :: "('c, 'z) module_api_scheme \<Rightarrow> 'c \<Rightarrow> deployment \<Rightarrow> deployment" where
  "restarted_at A s d =
     d\<lparr>dp_annotations := (dp_annotations d)(''kubectl.kubernetes.io/restartedAt'' \<mapsto> mo_timestamp A (mo_now A s))\<rparr>"

definition remediateRepairConfigMap ::
  "('c, 'z) module_api_scheme \<Rightarrow> 'c \<times> coredns_state \<Rightarrow> eval_result option \<Rightarrow> 'c dns_step" where
  "remediateRepairConfigMap A = (\<lambda>(s, m) ev.
     (case mo_get_config_map A s corednsKey of
        (s, Inl e) \<Rightarrow> failed A (s, m) ''fetch coredns configmap'' e
      | (s, Inr cm) \<Rightarrow>
          (let servers = upstream_servers m ev; repaired = repairCorefile servers (corefile_of cm) in
           case cm_data cm of
             None \<Rightarrow> ((s, m), \<lparr>rr_action = [], rr_success = False, rr_error = Some nil_map_write\<rparr>, Some nil_map_write)
           | Some d \<Rightarrow>
               (case mo_update_config_map A s (cm\<lparr>cm_data := Some (d(corefileName \<mapsto> repaired))\<rparr>) of
                  (s, Some e) \<Rightarrow> failed A (s, m) ''repair coredns configmap'' e
                | (s, None) \<Rightarrow>
                    (let s = await_config A (replacement_directive servers) 5 s;
                         s = (case mo_get_deployment A s corednsKey of
                                (s, Inr d) \<Rightarrow> fst (mo_update_deployment A s (restarted_at A s d))
                              | (s, Inl e) \<Rightarrow> s)
                     in remediated A (s, m)
                          (''Repaired CoreDNS ConfigMap forward directive to '' @ [CHR 0x27] @ join '' '' servers @ [CHR 0x27] @
                           '' and initiated rolling restart''))))))"

definition baseline_resources :: "container \<Rightarrow> container" where
  "baseline_resources c = c\<lparr>ct_requests := [''cpu'' \<mapsto> 100, ''memory'' \<mapsto> 70 * 1024 * 1024 * 1000],
     ct_limits := [''cpu'' \<mapsto> 100, ''memory'' \<mapsto> 170 * 1024 * 1024 * 1000]\<rparr>"

definition with_baseline :: "deployment \<Rightarrow> deployment" where
  "with_baseline d = d\<lparr>dp_containers := (case dp_containers d of [] \<Rightarrow> [] | c # cs \<Rightarrow> baseline_resources c # cs)\<rparr>"

definition remediateRestoreResources :: "('c, 'z) module_api_scheme \<Rightarrow> 'c \<times> coredns_state \<Rightarrow> 'c dns_step" where
  "remediateRestoreResources A = (\<lambda>(s, m).
     (case mo_get_deployment A s corednsKey of
        (s, Inl e) \<Rightarrow> failed A (s, m) ''fetch coredns deployment'' e
      | (s, Inr d) \<Rightarrow>
          (case mo_update_deployment A s (with_baseline d) of
             (s, Some e) \<Rightarrow> failed A (s, m) ''restore coredns resources'' e
           | (s, None) \<Rightarrow> remediated A (s, m) ''Restored CoreDNS CPU resources (100m CPU limit/request) to remove throttling'')))"

definition remediateRestartDeployment :: "('c, 'z) module_api_scheme \<Rightarrow> 'c \<times> coredns_state \<Rightarrow> 'c dns_step" where
  "remediateRestartDeployment A = (\<lambda>(s, m).
     (case mo_get_deployment A s corednsKey of
        (s, Inl e) \<Rightarrow> failed A (s, m) ''fetch coredns deployment'' e
      | (s, Inr d) \<Rightarrow>
          (case mo_update_deployment A s (restarted_at A s d) of
             (s, Some e) \<Rightarrow> failed A (s, m) ''restart coredns deployment'' e
           | (s, None) \<Rightarrow> remediated A (s, m) ''Triggered rolling restart of CoreDNS deployment to recover pods'')))"

definition coredns_remediate ::
  "('c, 'z) module_api_scheme \<Rightarrow> 'c \<times> coredns_state \<Rightarrow> eval_result option \<Rightarrow> 'c dns_step" where
  "coredns_remediate A = (\<lambda>(s, m) ev.
     (case ev of
        None \<Rightarrow> ((s, m), result ''none'' True, None)
      | Some e \<Rightarrow>
          (let window = 30 * second; elapsed = (case dn_remediated m of None \<Rightarrow> window | Some t \<Rightarrow> mo_now A s - t) in
           if elapsed < window
           then ((s, m), result (''Remediation cooldown active ('' @ seconds_text (nat (30 - round_seconds elapsed)) @
                   '' remaining); skipping action to prevent restart thrashing'') True, None)
           else (let action = (if er_action e = [] then inferActionFromReason (er_reason e) else er_action e) in
                 if action = actionScaleReplicas then remediateScaleReplicas A (s, m) ev
                 else if action = actionRepairConfigMap then remediateRepairConfigMap A (s, m) ev
                 else if action = actionRestoreResources then remediateRestoreResources A (s, m)
                 else if action = actionRestartDeployment then remediateRestartDeployment A (s, m)
                 else ((s, m), result ''none'' True, None)))))"

definition coredns_module :: "('c, 'z) module_api_scheme \<Rightarrow> ('c \<times> coredns_state) module" where
  "coredns_module A = \<lparr>md_name = ''coredns'', md_check = coredns_check A, md_evaluate = coredns_evaluate, md_remediate = coredns_remediate A\<rparr>"

end
