(* ===== verification/Cni.thy ===== *)
theory Cni
  imports "HOL-Library.AList" Network_Remediation
begin

text \<open>
  The CNI module (cni/controller.go): unready agent pods, pods stuck without an address, and the Calico address pools. Of
  an unstructured object only the fields that the code asks for are modelled. The percentages are \<^verbatim>\<open>float64\<close>, rounded as the
  hardware does. Seconds from the configuration become 64-bit durations, with the wrap-around.
\<close>

datatype action_type = ActionNone | ActionRestartCalicoNode | ActionReenableIPPool | ActionEvictStuckPods

record remediation_target =
  tg_action :: action_type
  tg_unready :: "string list"
  tg_disabled :: "string list"
  tg_stuck :: "stuck_pod list"

record cni_state =
  nc_target :: "remediation_target option"
  nc_threshold :: int
  nc_cooldown :: duration
  nc_evicted :: "string \<rightharpoonup> go_time"

definition cniModule_new :: cni_state where
  "cniModule_new = \<lparr>nc_target = None, nc_threshold = 0, nc_cooldown = 180 * second, nc_evicted = Map.empty\<rparr>"

subsection \<open>Reading signals\<close>

definition signalInt :: "check_result option \<Rightarrow> string \<Rightarrow> int \<Rightarrow> int" where
  "signalInt c key fallback =
     (case c of
        None \<Rightarrow> fallback
      | Some c \<Rightarrow>
          (case signals_of c key of
             Some (IntSignal v) \<Rightarrow> if v > 0 then v else fallback
           | Some (Int32Signal v) \<Rightarrow> if v > 0 then v else fallback
           | Some (Int64Signal v) \<Rightarrow> if v > 0 then v else fallback
           | Some (FloatSignal v) \<Rightarrow> if v > 0 then \<lfloor>v\<rfloor> else fallback
           | _ \<Rightarrow> fallback))"

definition the_string :: "signal \<Rightarrow> string option" where
  "the_string v = (case v of StringSignal x \<Rightarrow> Some x | _ \<Rightarrow> None)"

definition signalStringSlice :: "check_result option \<Rightarrow> string \<Rightarrow> string list" where
  "signalStringSlice c key =
     (case c of
        None \<Rightarrow> []
      | Some c \<Rightarrow>
          (case signals_of c key of
             Some (StringsSignal xs) \<Rightarrow> xs
           | Some (ListSignal vs) \<Rightarrow> List.map_filter the_string vs
           | _ \<Rightarrow> []))"

definition signalStuckPodSlice :: "check_result option \<Rightarrow> stuck_pod list" where
  "signalStuckPodSlice c =
     (case c of None \<Rightarrow> [] | Some c \<Rightarrow> (case signals_of c ''stuckPods'' of Some (StuckSignal ps) \<Rightarrow> ps | _ \<Rightarrow> []))"

definition countIPAMStuck :: "stuck_pod list \<Rightarrow> nat" where
  "countIPAMStuck ps = length (filter st_ipam ps)"

subsection \<open>Check\<close>

definition isPodReady :: "pod \<Rightarrow> bool" where
  "isPodReady p = (case find (\<lambda>c. fst c = ''Ready'') (pd_conditions p) of None \<Rightarrow> False | Some c \<Rightarrow> snd c = ''True'')"

definition calico_pods :: "string \<Rightarrow> string \<Rightarrow> daemon_set \<Rightarrow> list_options" where
  "calico_pods ns dsName d =
     \<lparr>lo_ns = Some ns, lo_node = None,
      lo_labels = (case ds_match d of Field ls \<Rightarrow> if ls \<noteq> [] then ls else [(''k8s-app'', dsName)] | _ \<Rightarrow> [(''k8s-app'', dsName)])\<rparr>"

definition checkCalicoDaemonSet ::
  "('c, 'z) module_api_scheme \<Rightarrow> 'c \<Rightarrow> string \<Rightarrow> string \<Rightarrow> 'c \<times> (string + string list)" where
  "checkCalicoDaemonSet A s ns dsName =
     (let what = ns @ ''/'' @ dsName in
      case mo_get_daemon_set A s (ns, dsName) of
        (s, Inl e) \<Rightarrow> (s, Inl (''get DaemonSet '' @ what @ '': '' @ mo_error_text A e))
      | (s, Inr d) \<Rightarrow>
          if ds_desired d = WrongType
          then (s, Inl (''parse DaemonSet '' @ what @ '' status.desiredNumberScheduled: '' @ mo_field_error A))
          else if ds_ready d = WrongType
          then (s, Inl (''parse DaemonSet '' @ what @ '' status.numberReady: '' @ mo_field_error A))
          else if (case (ds_desired d, ds_ready d) of (Field desired, Field ready) \<Rightarrow> desired > 0 \<and> desired = ready | _ \<Rightarrow> False)
          then (s, Inr [])
          else (case mo_pods A s (calico_pods ns dsName d) of
                  (s, Inl e) \<Rightarrow> (s, Inl (''list calico-node pods: '' @ mo_error_text A e))
                | (s, Inr pods) \<Rightarrow> (s, Inr (map pd_name (filter (\<lambda>p. \<not> isPodReady p) pods)))))"

definition getWorkloadKey :: "pod \<Rightarrow> string" where
  "getWorkloadKey p =
     (case find (\<lambda>w. fst w \<noteq> [] \<and> snd w \<noteq> []) (pd_owners p) of
        Some (kind, name) \<Rightarrow> pd_ns p @ ''/'' @ kind @ ''/'' @ name
      | None \<Rightarrow>
          if label_of (pd_labels p) ''app'' \<noteq> [] then pd_ns p @ ''/App/'' @ label_of (pd_labels p) ''app''
          else pd_ns p @ ''/Pod/'' @ pd_name p)"

definition cni_phrases :: "string list" where
  "cni_phrases = [''failed to setup network for sandbox'', ''no ips available in pools'', ''no ip addresses available'',
     ''failed to allocate'', ''failed to request ipv4 addresses'', ''plugin type='' @ [CHR 0x22] @ ''calico'' @ [CHR 0x22], ''calico'', ''cni plugin'']"

definition ipam_phrases :: "string list" where
  "ipam_phrases = [''no ips available'', ''no ip addresses available'', ''assigned 0 out of'', ''failed to allocate'']"

text \<open>The ellipsis is one character of three bytes.\<close>

definition shorten :: "string \<Rightarrow> string" where
  "shorten msg = (if length msg > 200 then take 200 msg @ [CHR 0xE2, CHR 0x80, CHR 0xA6] else msg)"

definition cni_event :: "string \<Rightarrow> string \<Rightarrow> event \<Rightarrow> bool" where
  "cni_event ns name ev \<longleftrightarrow> ev_object ev = name \<and> ev_ns ev = ns \<and> ev_reason ev = ''FailedCreatePodSandBox'' \<and>
     list_ex (\<lambda>w. contains w (to_lower (ev_message ev))) cni_phrases"

definition findCNIEvent :: "('c, 'z) module_api_scheme \<Rightarrow> 'c \<Rightarrow> string \<Rightarrow> string \<Rightarrow> 'c \<times> string \<times> bool" where
  "findCNIEvent A s ns name =
     (case mo_events A s ns of
        (s, Inl e) \<Rightarrow> (s, [], False)
      | (s, Inr evs) \<Rightarrow>
          (case find (cni_event ns name) evs of
             None \<Rightarrow> (s, [], False)
           | Some ev \<Rightarrow> (s, shorten (ev_message ev), list_ex (\<lambda>w. contains w (to_lower (ev_message ev))) ipam_phrases)))"

definition in_container_creating :: "pod \<Rightarrow> bool" where
  "in_container_creating p \<longleftrightarrow> list_ex (\<lambda>cs. cs_waiting cs = Some ''ContainerCreating'') (pd_containers p) \<or> pd_containers p = []"

definition waits_too_long :: "go_time \<Rightarrow> duration \<Rightarrow> pod \<Rightarrow> bool" where
  "waits_too_long now threshold p \<longleftrightarrow> pd_phase p = ''Pending'' \<and> pd_ip p = [] \<and> in_container_creating p \<and>
     \<not> (threshold > 0 \<and> now - pd_created p < threshold)"

fun collect_stuck ::
  "('c, 'z) module_api_scheme \<Rightarrow> go_time \<Rightarrow> duration \<Rightarrow> pod list \<Rightarrow> 'c \<Rightarrow> stuck_pod list \<Rightarrow> 'c \<times> stuck_pod list" where
  "collect_stuck A now threshold [] s stuck = (s, stuck)"
| "collect_stuck A now threshold (p # ps) s stuck =
     (if \<not> waits_too_long now threshold p then collect_stuck A now threshold ps s stuck
      else (case findCNIEvent A s (pd_ns p) (pd_name p) of
              (s, cniErr, ipamExhausted) \<Rightarrow>
                if cniErr = [] then collect_stuck A now threshold ps s stuck
                else collect_stuck A now threshold ps s (stuck @
                  [\<lparr>st_ns = pd_ns p, st_name = pd_name p, st_node = pd_node p, st_error = cniErr, st_ipam = ipamExhausted,
                    st_workload = getWorkloadKey p\<rparr>])))"

definition checkStuckPods :: "('c, 'z) module_api_scheme \<Rightarrow> 'c \<Rightarrow> duration \<Rightarrow> 'c \<times> (string + stuck_pod list)" where
  "checkStuckPods A s threshold =
     (case mo_pods A s everything of
        (s, Inl e) \<Rightarrow> (s, Inl (''list pods: '' @ mo_error_text A e))
      | (s, Inr pods) \<Rightarrow> (case collect_stuck A (mo_now A s) threshold pods s [] of (s, stuck) \<Rightarrow> (s, Inr stuck)))"

definition percent :: "int \<Rightarrow> int \<Rightarrow> rat" where
  "percent used tot = to_float (to_float (of_int used / of_int tot) * 100)"

definition count_block :: "ipam_block \<Rightarrow> (string \<times> rat) list \<times> string list \<Rightarrow> (string \<times> rat) list \<times> string list" where
  "count_block b = (\<lambda>(usage, exhausted).
     (let cidr = field_or [] (ib_cidr b); tot = field_or 0 (ib_allocations b);
          free = min (field_or 0 (ib_unallocated b)) tot; used = tot - free
      in if cidr = [] \<or> tot = 0 then (usage, exhausted)
         else (AList.update cidr (percent used tot) usage, if used = tot then exhausted @ [cidr] else exhausted)))"

definition checkIPAMUsage ::
  "('c, 'z) module_api_scheme \<Rightarrow> 'c \<Rightarrow> 'c \<times> (string \<times> rat) list \<times> string list \<times> string list \<times> string option" where
  "checkIPAMUsage A s =
     (case mo_pools A s of
        (s, pools) \<Rightarrow>
          (let disabledPools = (case pools of Inl e \<Rightarrow> [] | Inr ps \<Rightarrow> map ipp_name (filter (\<lambda>p. field_or False (ipp_disabled p)) ps)) in
           case mo_blocks A s of
             (s, Inl e) \<Rightarrow> (s, [], [], disabledPools, Some (''list IPAMBlocks: '' @ mo_error_text A e))
           | (s, Inr blocks) \<Rightarrow> (case fold count_block blocks ([], []) of (usage, exhausted) \<Rightarrow> (s, usage, exhausted, disabledPools, None))))"

definition cni_check ::
  "('c, 'z) module_api_scheme \<Rightarrow> 'c \<times> cni_state \<Rightarrow> network_spec \<Rightarrow> ('c \<times> cni_state) \<times> (string + check_result)" where
  "cni_check A = (\<lambda>(s, m) spec.
     (let cn = sp_cni spec;
          calicoNS = (if cn_ns cn \<noteq> [] then cn_ns cn else ''kube-system'');
          calicoDSName = (if cn_daemon_set cn \<noteq> [] then cn_daemon_set cn else ''calico-node'');
          stuckThreshold = (if cn_stuck_seconds cn > 0 then cn_stuck_seconds cn else 60);
          ipamThreshold = (if cn_threshold cn > 0 then cn_threshold cn else 80);
          m = m\<lparr>nc_threshold := ipamThreshold, nc_cooldown := (if cn_cooldown cn > 0 then int64 (cn_cooldown cn * second) else 180 * second)\<rparr>
      in case checkCalicoDaemonSet A s calicoNS calicoDSName of
           (s, Inl err) \<Rightarrow> ((s, m), Inl (''check calico DaemonSet '' @ calicoNS @ ''/'' @ calicoDSName @ '': '' @ err))
         | (s, Inr unreadyPods) \<Rightarrow>
             (case checkStuckPods A s (int64 (stuckThreshold * second)) of
                (s, stuck) \<Rightarrow>
                  (let stuckPods = (case stuck of Inl e \<Rightarrow> [] | Inr ps \<Rightarrow> ps) in
                   case checkIPAMUsage A s of
                     (s, usage, exhausted, disabled, err) \<Rightarrow>
                       (let keep = (err = None) in
                        ((s, m), Inr \<lparr>ck_signals = Some
                           [''ipamThresholdPercent'' \<mapsto> IntSignal ipamThreshold,
                            ''calicoNodeUnready'' \<mapsto> StringsSignal unreadyPods,
                            ''stuckPods'' \<mapsto> StuckSignal stuckPods,
                            ''ipamUsageByPool'' \<mapsto> UsageSignal (if keep then usage else []),
                            ''ipamExhaustedPools'' \<mapsto> StringsSignal (if keep then exhausted else []),
                            ''disabledIPPools'' \<mapsto> StringsSignal (if keep then disabled else [])], ck_error = None\<rparr>))))))"

subsection \<open>Evaluate\<close>

definition workload_of :: "stuck_pod \<Rightarrow> string" where
  "workload_of sp = (if st_workload sp = [] then st_ns sp @ ''/Pod/'' @ st_name sp else st_workload sp)"

definition throttled :: "go_time \<Rightarrow> cni_state \<Rightarrow> stuck_pod \<Rightarrow> bool" where
  "throttled now m sp = (case nc_evicted m (workload_of sp) of None \<Rightarrow> False | Some t \<Rightarrow> now - t < nc_cooldown m)"

definition severe :: "string \<Rightarrow> string \<Rightarrow> remediation_target option \<Rightarrow> cni_state \<Rightarrow> cni_state \<times> eval_result" where
  "severe severity reason target m = (m\<lparr>nc_target := target\<rparr>, simple_eval False (target \<noteq> None) reason severity)"

definition restart_target :: "string list \<Rightarrow> remediation_target" where
  "restart_target pods = \<lparr>tg_action = ActionRestartCalicoNode, tg_unready = pods, tg_disabled = [], tg_stuck = []\<rparr>"

definition reenable_target :: "string list \<Rightarrow> stuck_pod list \<Rightarrow> remediation_target" where
  "reenable_target pools stuck = \<lparr>tg_action = ActionReenableIPPool, tg_unready = [], tg_disabled = pools, tg_stuck = stuck\<rparr>"

definition evict_target :: "stuck_pod list \<Rightarrow> remediation_target" where
  "evict_target stuck = \<lparr>tg_action = ActionEvictStuckPods, tg_unready = [], tg_disabled = [], tg_stuck = stuck\<rparr>"

definition elevated_pools :: "(string list \<Rightarrow> string list) \<Rightarrow> int \<Rightarrow> (string \<times> rat) list \<Rightarrow> string list" where
  "elevated_pools ord threshold usage =
     List.map_filter (\<lambda>cidr. case map_of usage cidr of
         Some pct \<Rightarrow> if pct \<ge> to_float (of_int threshold) then Some (cidr @ '' ('' @ fixed_text 1 pct @ ''%)'') else None
       | None \<Rightarrow> None) (ord (map fst usage))"

definition count_text :: "'a list \<Rightarrow> string" where
  "count_text xs = dec (length xs)"

definition evaluate_cni :: "('c, 'z) module_api_scheme \<Rightarrow> 'c \<Rightarrow> cni_state \<Rightarrow> check_result \<Rightarrow> cni_state \<times> eval_result" where
  "evaluate_cni A s m c =
     (let unreadyPods = signalStringSlice (Some c) ''calicoNodeUnready'';
          stuckPods = signalStuckPodSlice (Some c);
          exhaustedPools = signalStringSlice (Some c) ''ipamExhaustedPools'';
          disabledPools = signalStringSlice (Some c) ''disabledIPPools'';
          usage = (case signals_of c ''ipamUsageByPool'' of Some (UsageSignal u) \<Rightarrow> u | _ \<Rightarrow> []);
          threshold = (let t = signalInt (Some c) ''ipamThresholdPercent'' (nc_threshold m) in if t \<le> 0 then 80 else t)
      in if unreadyPods \<noteq> []
         then severe ''critical'' (count_text unreadyPods @ '' calico-node pod(s) not ready: '' @ join '', '' unreadyPods @
                '' - CNI may be unavailable on those nodes'') (Some (restart_target unreadyPods)) m
         else if disabledPools \<noteq> [] \<and> stuckPods \<noteq> []
         then severe ''critical'' (''Calico IPPool(s) disabled ['' @ join '', '' disabledPools @ ''] while '' @ dec (countIPAMStuck stuckPods) @
                '' pod(s) are failing to acquire IPs'') (Some (reenable_target disabledPools stuckPods)) m
         else
           (let m = (if nc_cooldown m = 0 then m\<lparr>nc_cooldown := 180 * second\<rparr> else m);
                now = mo_now A s;
                throttledPods = filter (throttled now m) stuckPods;
                actionable = filter (\<lambda>sp. \<not> throttled now m sp) stuckPods;
                workloads = join '', '' (mo_order A (remdups (map workload_of throttledPods)));
                blocks = count_text exhaustedPools @ '' block(s) at 100% ('' @ join '', '' exhaustedPools @ '')'';
                elevated = elevated_pools (mo_order A) threshold usage;
                above = join '', '' elevated @ '' >= '' @ int_text threshold @ ''%)''
            in if exhaustedPools \<noteq> []
               then if actionable \<noteq> []
                    then severe ''critical'' (''IPAM exhaustion: '' @ blocks @ ''; evicting '' @ dec (countIPAMStuck actionable) @
                           '' stuck pod(s) due to IPAM'') (Some (evict_target actionable)) m
                    else if throttledPods \<noteq> []
                    then severe ''critical'' (''IPAM exhaustion: '' @ blocks @ ''; '' @ count_text throttledPods @ '' pod(s) waiting for IPs ['' @
                           workloads @ '']. Eviction throttled to avoid ReplicaSet churn'') None m
                    else severe ''critical'' (''IPAM exhaustion: '' @ blocks @ ''; no stuck pods currently'') None m
               else if elevated \<noteq> []
               then if actionable \<noteq> []
                    then severe ''warning'' (''IPAM threshold breached ('' @ above @ ''; evicting '' @ count_text actionable @
                           '' stuck pod(s) without IP'') (Some (evict_target actionable)) m
                    else if throttledPods \<noteq> []
                    then severe ''warning'' (''IPAM threshold breached ('' @ above @ ''; '' @ count_text throttledPods @ '' pod(s) waiting for IPs ['' @
                           workloads @ '']. Eviction throttled to avoid ReplicaSet churn'') None m
                    else (m\<lparr>nc_target := None\<rparr>,
                          simple_eval True False (''CNI plugin is healthy, but IPAM usage elevated above '' @ int_text threshold @ ''%: '' @
                            join '', '' elevated) ''warning'')
               else if stuckPods \<noteq> []
               then if actionable \<noteq> []
                    then severe ''warning'' (count_text actionable @ '' pod(s) stuck in ContainerCreating with CNI errors'')
                           (Some (evict_target actionable)) m
                    else severe ''warning'' (count_text throttledPods @ '' pod(s) stuck in ContainerCreating with CNI errors; eviction cooldown active for ['' @
                           workloads @ '']'') None m
               else (m, simple_eval True False ''CNI plugin is healthy'' ''none'')))"

definition cni_evaluate ::
  "('c, 'z) module_api_scheme \<Rightarrow> 'c \<times> cni_state \<Rightarrow> check_result option \<Rightarrow> ('c \<times> cni_state) \<times> (string + eval_result)" where
  "cni_evaluate A = (\<lambda>(s, m) c.
     (case c of
        None \<Rightarrow> ((s, m\<lparr>nc_target := None\<rparr>), Inr (simple_eval True False ''no check result'' []))
      | Some c \<Rightarrow> (case evaluate_cni A s m c of (m, e) \<Rightarrow> ((s, m), Inr e))))"

subsection \<open>Remediate\<close>

definition determineActionTypeFromReason :: "string \<Rightarrow> action_type" where
  "determineActionTypeFromReason reason =
     (if contains ''calico-node'' reason \<and> contains ''not ready'' reason then ActionRestartCalicoNode
      else if contains ''disabled'' reason then ActionReenableIPPool
      else if contains ''IPAM exhaustion'' reason \<or> contains ''stuck in ContainerCreating'' reason \<or> contains ''stuck pods'' reason
      then ActionEvictStuckPods
      else ActionNone)"

text \<open>The lists of actions done and the last error, through the three loops.\<close>

type_synonym outcome = "string list \<times> string option"

fun restart_pods :: "('c, 'z) module_api_scheme \<Rightarrow> string list \<Rightarrow> 'c \<Rightarrow> outcome \<Rightarrow> 'c \<times> outcome" where
  "restart_pods A [] s r = (s, r)"
| "restart_pods A (n # ns) s (actions, err) =
     (case mo_delete_pod A s (''kube-system'', n) of
        (s, Some e) \<Rightarrow> restart_pods A ns s (actions, Some (mo_error_text A e))
      | (s, None) \<Rightarrow> restart_pods A ns s (actions @ [''restarted calico-node/'' @ n], err))"

definition remediateRestartCalicoNode :: "('c, 'z) module_api_scheme \<Rightarrow> 'c \<Rightarrow> string list \<Rightarrow> 'c \<times> outcome" where
  "remediateRestartCalicoNode A s unready =
     (if unready = []
      then (case checkCalicoDaemonSet A s ''kube-system'' ''calico-node'' of
              (s, r) \<Rightarrow> restart_pods A (case r of Inl e \<Rightarrow> [] | Inr ps \<Rightarrow> ps) s ([], None))
      else restart_pods A unready s ([], None))"

fun enable_pools :: "('c, 'z) module_api_scheme \<Rightarrow> string list \<Rightarrow> 'c \<Rightarrow> outcome \<Rightarrow> 'c \<times> outcome" where
  "enable_pools A [] s r = (s, r)"
| "enable_pools A (n # ns) s (actions, err) =
     (case mo_get_pool A s n of
        (s, Inl e) \<Rightarrow> enable_pools A ns s (actions, err)
      | (s, Inr p) \<Rightarrow>
          if \<not> ipp_spec_ok p then enable_pools A ns s (actions, err)
          else (case mo_patch_pool A s (p\<lparr>ipp_disabled := Field False\<rparr>) of
                  (s, Some e) \<Rightarrow> enable_pools A ns s (actions, Some (mo_error_text A e))
                | (s, None) \<Rightarrow> enable_pools A ns s (actions @ [''re-enabled IPPool '' @ n], err)))"

text \<open>Evicting pods; \<open>hit\<close> collects the workloads that lost a pod.\<close>

fun evict_stuck ::
  "('c, 'z) module_api_scheme \<Rightarrow> stuck_pod list \<Rightarrow> 'c \<Rightarrow> string list \<Rightarrow> outcome \<Rightarrow> 'c \<times> string list \<times> outcome" where
  "evict_stuck A [] s hit r = (s, hit, r)"
| "evict_stuck A (sp # sps) s hit (actions, err) =
     (case mo_delete_pod A s (st_ns sp, st_name sp) of
        (s, Some e) \<Rightarrow> evict_stuck A sps s hit (actions, Some (mo_error_text A e))
      | (s, None) \<Rightarrow> evict_stuck A sps s (hit @ [workload_of sp]) (actions @ [''evicted '' @ st_ns sp @ ''/'' @ st_name sp], err))"

definition or_stuck :: "('c, 'z) module_api_scheme \<Rightarrow> 'c \<Rightarrow> stuck_pod list \<Rightarrow> 'c \<times> stuck_pod list" where
  "or_stuck A s stuck =
     (if stuck = [] then (case checkStuckPods A s 0 of (s, r) \<Rightarrow> (s, case r of Inl e \<Rightarrow> [] | Inr ps \<Rightarrow> ps)) else (s, stuck))"

definition remediateReenableIPPool ::
  "('c, 'z) module_api_scheme \<Rightarrow> 'c \<Rightarrow> string list \<Rightarrow> stuck_pod list \<Rightarrow> 'c \<times> outcome" where
  "remediateReenableIPPool A s disabled stuck =
     (case (if disabled = [] then (case checkIPAMUsage A s of (s, _, _, d, _) \<Rightarrow> (s, d)) else (s, disabled)) of
        (s, disabled) \<Rightarrow>
          (case enable_pools A disabled s ([], None) of
             (s, r) \<Rightarrow> (case or_stuck A s stuck of (s, stuck) \<Rightarrow> (case evict_stuck A stuck s [] r of (s, _, r) \<Rightarrow> (s, r)))))"

definition note_evictions :: "go_time \<Rightarrow> string list \<Rightarrow> (string \<rightharpoonup> go_time) \<Rightarrow> (string \<rightharpoonup> go_time)" where
  "note_evictions now hit ev = fold (\<lambda>k ev. ev(k \<mapsto> now)) hit ev"

definition prune :: "go_time \<Rightarrow> duration \<Rightarrow> (string \<rightharpoonup> go_time) \<Rightarrow> (string \<rightharpoonup> go_time)" where
  "prune now cooldown ev = (\<lambda>k. case ev k of Some t \<Rightarrow> if now - t > int64 (2 * cooldown) then None else Some t | None \<Rightarrow> None)"

definition remediateEvictStuckPods ::
  "('c, 'z) module_api_scheme \<Rightarrow> 'c \<times> cni_state \<Rightarrow> stuck_pod list \<Rightarrow> ('c \<times> cni_state) \<times> outcome" where
  "remediateEvictStuckPods A = (\<lambda>(s, m) stuck.
     (case or_stuck A s stuck of
        (s, stuck) \<Rightarrow>
          (let now = mo_now A s in
           case evict_stuck A stuck s [] ([], None) of
             (s, hit, r) \<Rightarrow> ((s, m\<lparr>nc_evicted := prune now (nc_cooldown m) (note_evictions now hit (nc_evicted m))\<rparr>), r))))"

definition outcome_result :: "outcome \<Rightarrow> remediate_result" where
  "outcome_result = (\<lambda>(actions, err).
     (if actions = [] \<and> err = None then result ''no targets found (already recovered?)'' True
      else \<lparr>rr_action = join ''; '' actions, rr_success = (err = None), rr_error = err\<rparr>))"

definition cni_remediate ::
  "('c, 'z) module_api_scheme \<Rightarrow> 'c \<times> cni_state \<Rightarrow> eval_result option \<Rightarrow> ('c \<times> cni_state) \<times> remediate_result \<times> string option" where
  "cni_remediate A = (\<lambda>(s, m) ev.
     (case ev of
        None \<Rightarrow> ((s, m), result ''none'' True, None)
      | Some e \<Rightarrow>
          if \<not> er_needs e then ((s, m), result ''none'' True, None)
          else if er_healthy e then ((s, m), result ''none (healthy)'' True, None)
          else
            (let t = (case nc_target m of
                        Some t \<Rightarrow> t
                      | None \<Rightarrow> \<lparr>tg_action = determineActionTypeFromReason (er_reason e), tg_unready = [], tg_disabled = [], tg_stuck = []\<rparr>);
                 m = m\<lparr>nc_target := None\<rparr>
             in case tg_action t of
                  ActionRestartCalicoNode \<Rightarrow>
                    (case remediateRestartCalicoNode A s (tg_unready t) of (s, r) \<Rightarrow> ((s, m), outcome_result r, None))
                | ActionReenableIPPool \<Rightarrow>
                    (case remediateReenableIPPool A s (tg_disabled t) (tg_stuck t) of (s, r) \<Rightarrow> ((s, m), outcome_result r, None))
                | ActionEvictStuckPods \<Rightarrow>
                    (case remediateEvictStuckPods A (s, m) (tg_stuck t) of (sm, r) \<Rightarrow> (sm, outcome_result r, None))
                | ActionNone \<Rightarrow> ((s, m), result ''none'' True, None))))"

definition cni_module :: "('c, 'z) module_api_scheme \<Rightarrow> ('c \<times> cni_state) module" where
  "cni_module A = \<lparr>md_name = ''cni'', md_check = cni_check A, md_evaluate = cni_evaluate A, md_remediate = cni_remediate A\<rparr>"

end
