(* ===== verification/Module_Laws.thy ===== *)
theory Module_Laws
  imports Network_Policy Pod_Connectivity Core_Dns Cni
begin

text \<open>
  What the remediation modules rely on, as the locale \<open>module_server\<close>: reads write nothing, every write is in the journal with
  its outcome, and the answers are answers to what was asked. In it every module is shown to keep the contract of the
  dispatcher, \<open>consenting_module\<close>, with what its configuration permits it to write; each is a sublocale.
\<close>

definition module_laws :: "('c, 'z) module_api_scheme \<Rightarrow> ('c \<Rightarrow> module_entry list) \<Rightarrow> bool" where
  "module_laws A jn \<longleftrightarrow>
     silent jn (\<lambda>s (_ :: unit). mo_nodes A s) \<and> silent jn (mo_get_node A) \<and> silent jn (mo_pods A) \<and> silent jn (mo_ping A) \<and>
     silent jn (mo_get_deployment A) \<and> silent jn (mo_get_config_map A) \<and> silent jn (mo_fetch_metric A) \<and>
     silent jn (mo_get_daemon_set A) \<and> silent jn (mo_events A) \<and> silent jn (\<lambda>s (_ :: unit). mo_pools A s) \<and>
     silent jn (mo_get_pool A) \<and> silent jn (\<lambda>s (_ :: unit). mo_blocks A s) \<and> (\<forall>s d. jn (mo_sleep A s d) = jn s) \<and>
     logged jn (mo_delete_pod A) DeletedPodKey \<and> logged jn (mo_patch_node A) PatchedNode \<and>
     logged jn (mo_update_deployment A) UpdatedDeployment \<and> logged jn (mo_update_config_map A) UpdatedConfigMap \<and>
     logged jn (mo_patch_pool A) PatchedPool \<and>
     (\<forall>s opt s' ps. mo_pods A s opt = (s', Inr ps) \<longrightarrow> list_all (pod_matches opt) ps) \<and>
     (\<forall>s n s' nd. mo_get_node A s n = (s', Inr nd) \<longrightarrow> kn_name nd = n) \<and>
     (\<forall>xs. set (mo_order A xs) = set xs)"

definition policy_permits :: "network_spec \<Rightarrow> module_write \<Rightarrow> bool" where
  "policy_permits spec w \<longleftrightarrow> np_heal (sp_policy spec) \<and> (\<exists>n. w = DeletedPodKey (kubeSystem, n))"

definition connectivity_permits :: "network_spec \<Rightarrow> module_write \<Rightarrow> bool" where
  "connectivity_permits spec w \<longleftrightarrow>
     (let p = pc_policy (sp_connectivity spec) in
      rm_auto p \<and>
      (case w of
         DeletedPodKey k \<Rightarrow> fst k = es_ns (escalation_of (Some p)) \<or> rm_drain p
       | PatchedNode nd \<Rightarrow> kn_cordoned nd
       | _ \<Rightarrow> False))"

definition coredns_permits :: "network_spec \<Rightarrow> module_write \<Rightarrow> bool" where
  "coredns_permits spec w \<longleftrightarrow>
     (case w of
        UpdatedDeployment d \<Rightarrow> True
      | UpdatedConfigMap cm \<Rightarrow> co_validation (sp_coredns spec) \<and> co_heal_config (sp_coredns spec)
      | _ \<Rightarrow> False)"

definition cni_permits :: "network_spec \<Rightarrow> module_write \<Rightarrow> bool" where
  "cni_permits spec w \<longleftrightarrow>
     (case w of DeletedPodKey k \<Rightarrow> True | PatchedPool p \<Rightarrow> ipp_disabled p = Field False | _ \<Rightarrow> False)"

locale module_server =
  fixes A :: "('c, 'z) module_api_scheme" and jn :: "'c \<Rightarrow> module_entry list"
  assumes laws: "module_laws A jn"
begin

lemma quiet:
  "mo_nodes A s = (s', r1) \<Longrightarrow> jn s' = jn s"
  "mo_get_node A s n = (s', r2) \<Longrightarrow> jn s' = jn s"
  "mo_pods A s opt = (s', r3) \<Longrightarrow> jn s' = jn s"
  "mo_ping A s q = (s', r4) \<Longrightarrow> jn s' = jn s"
  "mo_get_deployment A s k = (s', r5) \<Longrightarrow> jn s' = jn s"
  "mo_get_config_map A s k = (s', r6) \<Longrightarrow> jn s' = jn s"
  "mo_fetch_metric A s u = (s', r7) \<Longrightarrow> jn s' = jn s"
  "mo_get_daemon_set A s k = (s', r8) \<Longrightarrow> jn s' = jn s"
  "mo_events A s n = (s', r9) \<Longrightarrow> jn s' = jn s"
  "mo_pools A s = (s', r10) \<Longrightarrow> jn s' = jn s"
  "mo_get_pool A s n = (s', r11) \<Longrightarrow> jn s' = jn s"
  "mo_blocks A s = (s', r12) \<Longrightarrow> jn s' = jn s"
  using laws unfolding module_laws_def silent_def by (metis fst_conv)+

lemma sleep_quiet [simp]: "jn (mo_sleep A s d) = jn s"
  using laws unfolding module_laws_def by blast

lemma writes:
  "mo_delete_pod A s k = (s', e) \<Longrightarrow> jn s' = jn s @ [(DeletedPodKey k, e = None)]"
  "mo_patch_node A s nd = (s', e) \<Longrightarrow> jn s' = jn s @ [(PatchedNode nd, e = None)]"
  "mo_update_deployment A s d = (s', e) \<Longrightarrow> jn s' = jn s @ [(UpdatedDeployment d, e = None)]"
  "mo_update_config_map A s cm = (s', e) \<Longrightarrow> jn s' = jn s @ [(UpdatedConfigMap cm, e = None)]"
  "mo_patch_pool A s p = (s', e) \<Longrightarrow> jn s' = jn s @ [(PatchedPool p, e = None)]"
  using laws unfolding module_laws_def by (blast intro: loggedD)+

lemma pods_match: "mo_pods A s opt = (s', Inr ps) \<Longrightarrow> p \<in> set ps \<Longrightarrow> pod_matches opt p"
  using laws unfolding module_laws_def list_all_iff by blast

abbreviation module_jn :: "'c \<times> 'm \<Rightarrow> module_entry list" where
  "module_jn \<equiv> \<lambda>s. jn (fst s)"

subsection \<open>The NetworkPolicy module\<close>

lemma delete_felix_writes:
  assumes "delete_felix A ks s deleted = (s', r)" "\<And>k. k \<in> set ks \<Longrightarrow> P (DeletedPodKey (splitKey k))"
  shows "adds jn (\<lambda>w. P (fst w)) s s'"
  using assms
proof (induction ks arbitrary: s deleted)
  case (Cons k ks)
  obtain s1 e where d: "mo_delete_pod A s (splitKey k) = (s1, e)" by fastforce
  have "adds jn (\<lambda>w. P (fst w)) s s1" using writes(1)[OF d] Cons.prems(2) by (simp add: adds_def)
  moreover have "s' = s1 \<or> (\<exists>del. delete_felix A ks s1 del = (s', r))"
    using Cons.prems(1) d by (auto split: option.splits if_splits)
  ultimately show ?case using Cons.IH Cons.prems(2) by (auto intro: adds_trans)
qed auto

lemma splitKey_pod: "pd_ns p = kubeSystem \<Longrightarrow> splitKey (pod_key p) = (kubeSystem, pd_name p)"
  by (simp add: splitKey_def pod_key_def kubeSystem_def)

lemma policy_checked:
  assumes "policy_check A (s, m) spec = ((s', m'), Inr c)"
  shows "\<exists>pods signals. c = \<lparr>ck_signals = Some signals, ck_error = None\<rparr> \<and> mo_pods A s felix_pods = (s', Inr pods) \<and>
    signals ''autoHeal'' = Some (BoolSignal (np_heal (sp_policy spec))) \<and>
    signals ''unhealthyFelixPods'' = Some (StringsSignal (map pod_key (filter felix_bad pods))) \<and>
    m' = m\<lparr>ps_config := resolveConfig (Some spec)\<rparr>"
  using assms by (auto simp: policy_check_def resolveConfig_def Let_def split: prod.splits sum.splits)

end

sublocale module_server \<subseteq> policy: consenting_module "policy_module A" "module_jn" policy_permits
proof
  fix s spec s' r assume "md_check (policy_module A) s spec = (s', r)"
  then show "jn (fst s') = jn (fst s)"
    by (auto simp: policy_module_def policy_check_def Let_def split: prod.splits sum.splits dest: quiet)
next
  fix s c s' r assume "md_evaluate (policy_module A) s c = (s', r)"
  then show "jn (fst s') = jn (fst s)"
    by (auto simp: policy_module_def policy_evaluate_def Let_def split: option.splits if_splits)
next
  fix s c s' e assume "md_evaluate (policy_module A) s c = (s', Inr e)" "er_healthy e"
  then show "\<not> er_needs e"
    by (auto simp: policy_module_def policy_evaluate_def simple_eval_def Let_def split: option.splits if_splits)
next
  fix s spec s1 ck s2 e s3 rr
  assume a: "md_check (policy_module A) s spec = (s1, Inr ck)" "md_evaluate (policy_module A) s1 (Some ck) = (s2, Inr e)"
    "er_needs e" "md_remediate (policy_module A) s2 (Some e) = (s3, rr)"
  obtain t m t1 m1 t2 m2 where st: "s = (t, m)" "s1 = (t1, m1)" "s2 = (t2, m2)" by (metis surj_pair)
  obtain pods signals where c: "ck = \<lparr>ck_signals = Some signals, ck_error = None\<rparr>" "mo_pods A t felix_pods = (t1, Inr pods)"
    "signals ''autoHeal'' = Some (BoolSignal (np_heal (sp_policy spec)))"
    "signals ''unhealthyFelixPods'' = Some (StringsSignal (map pod_key (filter felix_bad pods)))"
    using policy_checked[of t m spec t1 m1 ck] a(1) st by (auto simp: policy_module_def)
  have e: "np_heal (sp_policy spec)" "er_data e = Some [''pods'' \<mapsto> StringsSignal (map pod_key (filter felix_bad pods))]"
    using a(2,3) c(1,3,4) by (auto simp: policy_module_def policy_evaluate_def simple_eval_def is_true_def bool_signal_def
        strings_signal_def Let_def split: if_splits)
  have "splitKey (pod_key p) = (kubeSystem, pd_name p)" if "p \<in> set pods" for p
    using pods_match[OF c(2) that] by (intro splitKey_pod) (simp add: pod_matches_def felix_pods_def)
  then have ok: "policy_permits spec (DeletedPodKey (splitKey k))" if "k \<in> set (map pod_key (filter felix_bad pods))" for k
    using that e(1) by (auto simp: policy_permits_def)
  have "fst s3 = t2 \<or> (\<exists>r. delete_felix A (map pod_key (filter felix_bad pods)) t2 [] = (fst s3, r))"
    using a(4) st e(2) by (auto simp: policy_module_def policy_remediate_def restartEnforcementAgent_def strings_signal_def Let_def
        split: if_splits prod.splits option.splits)
  then show "adds module_jn (\<lambda>w. policy_permits spec (fst w)) s2 s3"
  proof
    assume "\<exists>r. delete_felix A (map pod_key (filter felix_bad pods)) t2 [] = (fst s3, r)"
    then obtain r where r: "delete_felix A (map pod_key (filter felix_bad pods)) t2 [] = (fst s3, r)" by blast
    have "adds jn (\<lambda>w. policy_permits spec (fst w)) t2 (fst s3)" using delete_felix_writes[OF r, of "policy_permits spec"] ok by blast
    then show ?thesis by (simp add: adds_def st)
  qed (simp add: adds_def st)
qed

subsection \<open>The pod connectivity module\<close>

definition deleted_in :: "string \<Rightarrow> module_write \<Rightarrow> bool" where
  "deleted_in ns w \<longleftrightarrow> (\<exists>n. w = DeletedPodKey (ns, n))"

definition degraded :: "string \<Rightarrow> module_write \<Rightarrow> bool" where
  "degraded n w \<longleftrightarrow> (\<exists>nd. w = PatchedNode nd \<and> kn_name nd = n \<and> kn_cordoned nd)"

definition drained :: "string \<Rightarrow> module_write \<Rightarrow> bool" where
  "drained n w \<longleftrightarrow> (\<exists>p. drainable n p \<and> w = DeletedPodKey (pd_ns p, pd_name p))"

context module_server
begin

lemma probe_nodes_quiet: "probe_nodes A pods g ns s l an = (s', r) \<Longrightarrow> jn s' = jn s"
proof (induction ns arbitrary: s l an)
  case (Cons n ns)
  then show ?case by (fastforce split: option.splits prod.splits dest: quiet)
qed simp

lemma probe_edges_quiet: "probe_edges A pods es s ps = (s', r) \<Longrightarrow> jn s' = jn s"
proof (induction es arbitrary: s ps)
  case (Cons e es)
  then show ?case by (fastforce split: option.splits prod.splits dest: quiet)
qed simp

lemma restart_writes: "restartCNIPod A s n ds ns = (s', r) \<Longrightarrow> adds jn (\<lambda>w. deleted_in ns (fst w)) s s'"
proof -
  assume r: "restartCNIPod A s n ds ns = (s', r)"
  obtain s1 ps where l: "mo_pods A s (in_namespace ns) = (s1, ps)" by fastforce
  show ?thesis
  proof (cases "\<exists>pods p. ps = Inr pods \<and> find (is_cni_pod ds n) pods = Some p")
    case True
    then obtain pods p where p: "ps = Inr pods" "find (is_cni_pod ds n) pods = Some p" by blast
    have "pd_ns p = ns" using pods_match[of s "in_namespace ns" s1 pods p] l p by (auto simp: pod_matches_def in_namespace_def dest: find_SomeD)
    moreover obtain e where "mo_delete_pod A s1 (pd_ns p, pd_name p) = (s', e)"
      using r l p by (auto simp: restartCNIPod_def split: prod.splits option.splits)
    ultimately show ?thesis using writes(1) quiet(3)[OF l] by (fastforce simp: adds_def deleted_in_def)
  next
    case False
    then show ?thesis using r l quiet(3)[OF l] by (auto simp: restartCNIPod_def adds_same split: sum.splits option.splits)
  qed
qed

lemma degrade_writes: "degrade_node A s n t True = (s', r) \<Longrightarrow> adds jn (\<lambda>w. degraded n (fst w)) s s'"
proof -
  assume d: "degrade_node A s n t True = (s', r)"
  obtain s1 x where g: "mo_get_node A s n = (s1, x)" by fastforce
  show ?thesis
  proof (cases x)
    case Inl then show ?thesis using d g quiet(2)[OF g] by (auto simp: degrade_node_def adds_same)
  next
    case (Inr nd)
    obtain e where p: "mo_patch_node A s1 (isolated t True nd) = (s', e)" using d g Inr by (auto simp: degrade_node_def split: prod.splits)
    have "kn_name nd = n" using laws g Inr unfolding module_laws_def by blast
    then have "degraded n (PatchedNode (isolated t True nd))" by (simp add: degraded_def isolated_def Let_def)
    then show ?thesis using writes(2)[OF p] quiet(2)[OF g] by (simp add: adds_def)
  qed
qed

lemma evict_pods_writes: "evict_pods A n ps s k = (s', r) \<Longrightarrow> adds jn (\<lambda>w. drained n (fst w)) s s'"
proof (induction ps arbitrary: s k)
  case (Cons p ps)
  show ?case
  proof (cases "drainable n p")
    case True
    obtain s1 e where d: "mo_delete_pod A s (pd_ns p, pd_name p) = (s1, e)" by fastforce
    have "adds jn (\<lambda>w. drained n (fst w)) s s1" using writes(1)[OF d] True by (auto simp: adds_def drained_def)
    also have "adds jn (\<lambda>w. drained n (fst w)) s1 s'" using Cons d True by (cases e) auto
    finally show ?thesis .
  qed (use Cons in auto)
qed auto

lemma drain_writes: "drainNode A s n = (s', r) \<Longrightarrow> adds jn (\<lambda>w. drained n (fst w)) s s'"
proof -
  assume r: "drainNode A s n = (s', r)"
  obtain s1 ps where l: "mo_pods A s everything = (s1, ps)" by fastforce
  show ?thesis
  proof (cases ps)
    case Inl then show ?thesis using r l quiet(3)[OF l] by (simp add: drainNode_def adds_same)
  next
    case (Inr pods)
    obtain k where e: "evict_pods A n pods s1 0 = (s', k)" using r l Inr by (auto simp: drainNode_def split: prod.splits)
    show ?thesis using evict_pods_writes[OF e] quiet(3)[OF l] by (simp add: adds_def)
  qed
qed

text \<open>The tiers: what is written, and when.\<close>

lemma execute_tiers:
  assumes "executeRemediation A (s, m) d policy = ((s', m'), r)"
  shows "s' = s \<and> m' = m \<or>
    dc_node d \<noteq> [] \<and> (\<forall>p. policy = Some p \<longrightarrow> rm_auto p) \<and>
     ((\<exists>s1. m' = m \<and> es_escalate (escalation_of policy) \<le> attempts_of m (dc_node d) \<and> (\<exists>p. policy = Some p \<and> rm_drain p) \<and>
         adds jn (\<lambda>w. degraded (dc_node d) (fst w)) s s1 \<and> adds jn (\<lambda>w. drained (dc_node d) (fst w)) s1 s') \<or>
      m' = m \<and> adds jn (\<lambda>w. degraded (dc_node d) (fst w)) s s' \<or>
      attempts_of m (dc_node d) < es_max (escalation_of policy) \<and> dc_action d \<noteq> ''node_isolation'' \<and>
        adds jn (\<lambda>w. deleted_in (es_ns (escalation_of policy)) (fst w)) s s' \<and>
        (m' = m \<or> m' = m\<lparr>cy_attempts := (cy_attempts m)(dc_node d \<mapsto> attempts_of m (dc_node d) + 1), cy_restarted := cy_restarted m'\<rparr>))"
proof -
  define n where "n = dc_node d"
  define x where "x = escalation_of policy"
  define k where "k = attempts_of m n"
  define off where "off = (case policy of None \<Rightarrow> False | Some p \<Rightarrow> \<not> rm_auto p)"
  define dr where "dr = (case policy of None \<Rightarrow> False | Some p \<Rightarrow> rm_drain p)"
  note run = assms[unfolded executeRemediation_def Let_def prod.case, folded n_def x_def off_def dr_def, folded k_def]
  have "s' = s \<and> m' = m \<or> n \<noteq> [] \<and> (\<forall>p. policy = Some p \<longrightarrow> rm_auto p) \<and>
     ((\<exists>s1. m' = m \<and> es_escalate x \<le> k \<and> (\<exists>p. policy = Some p \<and> rm_drain p) \<and>
         adds jn (\<lambda>w. degraded n (fst w)) s s1 \<and> adds jn (\<lambda>w. drained n (fst w)) s1 s') \<or>
      m' = m \<and> adds jn (\<lambda>w. degraded n (fst w)) s s' \<or>
      k < es_max x \<and> dc_action d \<noteq> ''node_isolation'' \<and> adds jn (\<lambda>w. deleted_in (es_ns x) (fst w)) s s' \<and>
        (m' = m \<or> m' = m\<lparr>cy_attempts := (cy_attempts m)(n \<mapsto> k + 1), cy_restarted := cy_restarted m'\<rparr>))"
  proof (cases "n = [] \<or> off")
    case True
    then show ?thesis using run by (auto split: if_splits)
  next
    case go: False
    then have "n \<noteq> []" "\<forall>p. policy = Some p \<longrightarrow> rm_auto p" by (auto simp: off_def)
    moreover have "(\<exists>s1. m' = m \<and> es_escalate x \<le> k \<and> (\<exists>p. policy = Some p \<and> rm_drain p) \<and>
         adds jn (\<lambda>w. degraded n (fst w)) s s1 \<and> adds jn (\<lambda>w. drained n (fst w)) s1 s') \<or>
      m' = m \<and> adds jn (\<lambda>w. degraded n (fst w)) s s' \<or>
      k < es_max x \<and> dc_action d \<noteq> ''node_isolation'' \<and> adds jn (\<lambda>w. deleted_in (es_ns x) (fst w)) s s' \<and>
        (m' = m \<or> m' = m\<lparr>cy_attempts := (cy_attempts m)(n \<mapsto> k + 1), cy_restarted := cy_restarted m'\<rparr>)"
    proof -
      obtain s1 e where g: "degrade_node A s n (es_taint x) True = (s1, e)" by fastforce
      obtain s2 r2 where dn: "drainNode A s1 n = (s2, r2)" by (metis surj_pair)
      obtain s3 msg e3 where rs: "restartCNIPod A s n (es_daemon_set x) (es_ns x) = (s3, msg, e3)" by (metis surj_pair)
      note w = degrade_writes[OF g] drain_writes[OF dn] restart_writes[OF rs]
      consider (drain) "es_escalate x \<le> k \<and> dr"
        | (isolate) "\<not> (es_escalate x \<le> k \<and> dr)"
            "dc_action d = ''node_isolation'' \<or> \<not> k < es_max x"
        | (restart) "\<not> (es_escalate x \<le> k \<and> dr)"
            "dc_action d \<noteq> ''node_isolation''" "k < es_max x" by blast
      then show ?thesis
      proof cases
        case drain
        then have "s' = s2" "m' = m" using run go by (auto simp: g dn split: prod.splits)
        then show ?thesis using drain w(1,2) by (auto simp: dr_def split: option.splits)
      next
        case isolate
        then have "s' = s1" "m' = m" using run go by (cases e; auto simp: g split: if_splits)+
        then show ?thesis using w(1) by blast
      next
        case restart
        then have "s' = s3" "m' = m \<or> m' = m\<lparr>cy_attempts := (cy_attempts m)(n \<mapsto> k + 1), cy_restarted := cy_restarted m'\<rparr>"
          using run go by (cases e3; auto simp: rs split: if_splits)+
        then show ?thesis using w(3) restart by blast
      qed
    qed
    ultimately show ?thesis by blast
  qed
  then show ?thesis unfolding n_def x_def k_def .
qed

end

lemma connectivity_permits_simps:
  "rm_auto (pc_policy (sp_connectivity spec)) \<Longrightarrow> degraded n w \<Longrightarrow> connectivity_permits spec w"
  "rm_auto (pc_policy (sp_connectivity spec)) \<Longrightarrow> rm_drain (pc_policy (sp_connectivity spec)) \<Longrightarrow> drained n w \<Longrightarrow>
     connectivity_permits spec w"
  "rm_auto (pc_policy (sp_connectivity spec)) \<Longrightarrow> deleted_in (es_ns (escalation_of (Some (pc_policy (sp_connectivity spec))))) w \<Longrightarrow>
     connectivity_permits spec w"
  by (auto simp: connectivity_permits_def Let_def degraded_def drained_def deleted_in_def)

context module_server
begin

lemma connectivity_checked:
  assumes "connectivity_check A (s, m) spec = ((s', m'), r)"
  shows "jn s' = jn s \<and> cy_policy m' = Some (pc_policy (sp_connectivity spec))"
  using assms
  by (auto simp: connectivity_check_def Let_def split: prod.splits sum.splits if_splits
      dest!: quiet probe_nodes_quiet probe_edges_quiet)

lemma connectivity_evaluated:
  assumes "connectivity_evaluate (s, m) c = ((s', m'), r)"
  shows "s' = s \<and> cy_policy m' = cy_policy m"
  using assms
  by (auto simp: connectivity_evaluate_def resetNodeHistory_def Let_def split: option.splits if_splits)

lemma connectivity_remediated:
  assumes "connectivity_remediate A (s, m) ev = ((s', m'), r)" "cy_policy m = Some (pc_policy (sp_connectivity spec))"
  shows "adds jn (\<lambda>w. connectivity_permits spec (fst w)) s s'"
proof (cases "s' = s")
  case False
  then obtain d m1 r1 where x: "executeRemediation A (s, m) d (cy_policy m) = ((s', m1), r1)"
    using assms(1) by (auto simp: connectivity_remediate_def split: option.splits if_splits prod.splits)
  let ?p = "pc_policy (sp_connectivity spec)"
  have auto_on: "rm_auto ?p" and "(\<exists>s1. rm_drain ?p \<and> adds jn (\<lambda>w. degraded (dc_node d) (fst w)) s s1 \<and> adds jn (\<lambda>w. drained (dc_node d) (fst w)) s1 s') \<or>
      adds jn (\<lambda>w. degraded (dc_node d) (fst w)) s s' \<or> adds jn (\<lambda>w. deleted_in (es_ns (escalation_of (Some ?p))) (fst w)) s s'"
    using execute_tiers[OF x] False assms(2) by auto
  then show ?thesis using connectivity_permits_simps[OF auto_on] by (blast intro: adds_trans adds_mono)
qed auto

end

sublocale module_server \<subseteq> connectivity: consenting_module "connectivity_module A" "module_jn" connectivity_permits
proof
  fix s spec s' r assume "md_check (connectivity_module A) s spec = (s', r)"
  then show "jn (fst s') = jn (fst s)" using connectivity_checked[of "fst s" "snd s" spec "fst s'" "snd s'" r] by (simp add: connectivity_module_def)
next
  fix s c s' r assume "md_evaluate (connectivity_module A) s c = (s', r)"
  then show "jn (fst s') = jn (fst s)" using connectivity_evaluated[of "fst s" "snd s" c "fst s'" "snd s'" r] by (simp add: connectivity_module_def)
next
  fix s c s' e assume "md_evaluate (connectivity_module A) s c = (s', Inr e)" "er_healthy e"
  then show "\<not> er_needs e"
    by (auto simp: connectivity_module_def connectivity_evaluate_def simple_eval_def Let_def split: prod.splits option.splits if_splits)
next
  fix s spec s1 ck s2 e s3 rr
  assume a: "md_check (connectivity_module A) s spec = (s1, Inr ck)" "md_evaluate (connectivity_module A) s1 (Some ck) = (s2, Inr e)"
    "er_needs e" "md_remediate (connectivity_module A) s2 (Some e) = (s3, rr)"
  have "cy_policy (snd s1) = Some (pc_policy (sp_connectivity spec))"
    using connectivity_checked[of "fst s" "snd s" spec "fst s1" "snd s1"] a(1) by (simp add: connectivity_module_def)
  then have "cy_policy (snd s2) = Some (pc_policy (sp_connectivity spec))"
    using connectivity_evaluated[of "fst s1" "snd s1" "Some ck" "fst s2" "snd s2"] a(2) by (simp add: connectivity_module_def)
  then show "adds module_jn (\<lambda>w. connectivity_permits spec (fst w)) s2 s3"
    using connectivity_remediated[of "fst s2" "snd s2" "Some e" "fst s3" "snd s3" rr spec] a(4) by (simp add: connectivity_module_def adds_def)
qed

subsection \<open>The CoreDNS module\<close>

text \<open>The signals of the configuration stay as they are while the checks add theirs.\<close>

definition config_keys :: "string list" where
  "config_keys = [''expectedReplicas'', ''autoHealReplicas'', ''autoHealConfigMap'', ''upstreamDnsValidation'', ''latencyThresholdMs'', ''fallbackDNS'']"

definition agree :: "signals \<Rightarrow> signals \<Rightarrow> bool" where
  "agree x y \<longleftrightarrow> (\<forall>k \<in> set config_keys. x k = y k)"

lemma agree_trans: "agree x y \<Longrightarrow> agree y z \<Longrightarrow> agree x z" and agree_refl [simp]: "agree x x"
  by (auto simp: agree_def)

lemma agree_upd: "k \<notin> set config_keys \<Longrightarrow> agree (x(k := v)) y \<longleftrightarrow> agree x y"
  by (auto simp: agree_def)

context module_server
begin

lemma query_quiet: "query_urls A us s = (s', r) \<Longrightarrow> jn s' = jn s"
  by (induction us arbitrary: s) (fastforce split: prod.splits option.splits dest: quiet)+

lemma checkDeployment_keeps:
  "checkDeployment A s x = (s', r) \<Longrightarrow> jn s' = jn s \<and> (\<forall>y. r = Inr y \<longrightarrow> agree y x)"
  by (auto simp: checkDeployment_def agree_upd config_keys_def split: prod.splits sum.splits if_splits dest!: quiet)

lemma checkPods_keeps: "checkPods A s x = (s', y) \<Longrightarrow> jn s' = jn s \<and> agree y x"
  by (auto simp: checkPods_def Let_def agree_upd config_keys_def split: prod.splits sum.splits dest!: quiet)

lemma checkConfigMap_keeps: "checkConfigMap A s x = (s', y) \<Longrightarrow> jn s' = jn s \<and> agree y x"
  unfolding checkConfigMap_def
  by (cases "mo_get_config_map A s corednsKey")
    (auto simp: Let_def agree_upd config_keys_def split: sum.splits option.splits dest!: quiet)

lemma coredns_checked:
  assumes "coredns_check A (s, m) spec = ((s', m'), r)"
  shows "jn s' = jn s \<and> (\<forall>c. r = Inr c \<longrightarrow> (\<exists>y. c = \<lparr>ck_signals = Some y, ck_error = None\<rparr> \<and> agree y (config_signals (Some spec))))"
proof -
  let ?x = "config_signals (Some spec)"
  obtain s1 d where d: "checkDeployment A s ?x = (s1, d)" by fastforce
  note kd = checkDeployment_keeps[OF d]
  show ?thesis
  proof (cases "\<exists>y. d = Inr y \<and> bool_signal y ''deploymentFound'' \<noteq> Some False")
    case False
    then show ?thesis using assms d kd by (auto simp: coredns_check_def Let_def split: sum.splits if_splits)
  next
    case True
    then obtain y where y: "d = Inr y" "bool_signal y ''deploymentFound'' \<noteq> Some False" by blast
    obtain s2 y2 where p: "checkPods A s1 y = (s2, y2)" by fastforce
    obtain s3 y3 where c: "checkConfigMap A s2 y2 = (s3, y3)" by fastforce
    obtain s4 q where q: "queryPrometheusLatency A s3 = (s4, q)" by fastforce
    have "agree y3 ?x" using checkPods_keeps[OF p] checkConfigMap_keeps[OF c] kd y(1) by (auto intro: agree_trans)
    moreover have "jn s4 = jn s"
      using checkPods_keeps[OF p] checkConfigMap_keeps[OF c] kd query_quiet q unfolding queryPrometheusLatency_def by auto
    ultimately show ?thesis using assms d y p c q
      by (auto simp: coredns_check_def Let_def agree_upd config_keys_def split: option.splits)
  qed
qed

lemma await_quiet: "jn (await_config A dir k s) = jn s"
  by (induction k arbitrary: s) (auto split: prod.splits sum.splits dest!: quiet)

lemma scale_writes: "remediateScaleReplicas A (s, m) ev = ((s', m'), r) \<Longrightarrow> adds jn (\<lambda>w. \<exists>d. fst w = UpdatedDeployment d) s s'"
  by (auto simp: remediateScaleReplicas_def failed_def remediated_def Let_def adds_def
      split: prod.splits sum.splits option.splits dest!: quiet writes)

lemma restore_writes: "remediateRestoreResources A (s, m) = ((s', m'), r) \<Longrightarrow> adds jn (\<lambda>w. \<exists>d. fst w = UpdatedDeployment d) s s'"
  by (auto simp: remediateRestoreResources_def failed_def remediated_def Let_def adds_def
      split: prod.splits sum.splits option.splits dest!: quiet writes)

lemma restart_deployment_writes:
  "remediateRestartDeployment A (s, m) = ((s', m'), r) \<Longrightarrow> adds jn (\<lambda>w. \<exists>d. fst w = UpdatedDeployment d) s s'"
  by (auto simp: remediateRestartDeployment_def failed_def remediated_def Let_def adds_def
      split: prod.splits sum.splits option.splits dest!: quiet writes)

lemma repair_writes:
  assumes "remediateRepairConfigMap A (s, m) ev = ((s', m'), r)"
  shows "adds jn (\<lambda>w. (\<exists>d. fst w = UpdatedDeployment d) \<or> (\<exists>cm. fst w = UpdatedConfigMap cm)) s s'"
proof -
  let ?P = "\<lambda>w. (\<exists>d. fst w = UpdatedDeployment d) \<or> (\<exists>cm. fst w = UpdatedConfigMap cm)"
  obtain s1 x where g: "mo_get_config_map A s corednsKey = (s1, x)" by fastforce
  show ?thesis
  proof (cases "\<exists>cm d. x = Inr cm \<and> cm_data cm = Some d")
    case False
    then show ?thesis using assms g quiet(6)[OF g]
      by (auto simp: remediateRepairConfigMap_def failed_def Let_def adds_same split: sum.splits option.splits)
  next
    case True
    then obtain cm d where x: "x = Inr cm" "cm_data cm = Some d" by blast
    define repaired where "repaired = cm\<lparr>cm_data := Some (d(corefileName \<mapsto> repairCorefile (upstream_servers m ev) (corefile_of cm)))\<rparr>"
    obtain s2 e where u: "mo_update_config_map A s1 repaired = (s2, e)" by fastforce
    have a1: "adds jn ?P s s2" using writes(4)[OF u] quiet(6)[OF g] by (simp add: adds_def)
    show ?thesis
    proof (cases e)
      case Some
      then show ?thesis using assms g x u a1 by (simp add: remediateRepairConfigMap_def failed_def repaired_def Let_def)
    next
      case None
      define s3 where "s3 = await_config A (replacement_directive (upstream_servers m ev)) 5 s2"
      obtain s4 y where gd: "mo_get_deployment A s3 corednsKey = (s4, y)" by fastforce
      have "adds jn ?P s2 s4" using quiet(5)[OF gd] await_quiet by (intro adds_same) (simp add: s3_def)
      moreover have "s' = (case y of Inl e \<Rightarrow> s4 | Inr d \<Rightarrow> fst (mo_update_deployment A s4 (restarted_at A s4 d)))"
        using assms g x u None gd by (simp add: remediateRepairConfigMap_def remediated_def repaired_def s3_def Let_def)
      moreover have "adds jn ?P s4 (fst (mo_update_deployment A s4 d'))" for d'
        using writes(3)[of s4 d'] by (cases "mo_update_deployment A s4 d'") (auto simp: adds_def)
      ultimately have "adds jn ?P s2 s'" by (cases y) (auto intro: adds_trans)
      then show ?thesis by (rule adds_trans[OF a1])
    qed
  qed
qed

lemma coredns_remediated:
  assumes "coredns_remediate A (s, m) (Some e) = ((s', m'), r)" "er_action e \<noteq> []"
    "er_action e = actionRepairConfigMap \<Longrightarrow> co_validation (sp_coredns spec) \<and> co_heal_config (sp_coredns spec)"
  shows "adds jn (\<lambda>w. coredns_permits spec (fst w)) s s'"
proof -
  have dep: "adds jn (\<lambda>w. coredns_permits spec (fst w)) s s'" if "adds jn (\<lambda>w. \<exists>d. fst w = UpdatedDeployment d) s s'"
    using that by (rule adds_mono) (auto simp: coredns_permits_def)
  have rep: "adds jn (\<lambda>w. coredns_permits spec (fst w)) s s'"
    if "er_action e = actionRepairConfigMap" "remediateRepairConfigMap A (s, m) (Some e) = ((s', m'), r)"
    using repair_writes[OF that(2)] by (rule adds_mono) (use assms(3)[OF that(1)] in \<open>auto simp: coredns_permits_def\<close>)
  show ?thesis using assms(1,2) dep rep scale_writes restore_writes restart_deployment_writes
    by (auto simp: coredns_remediate_def Let_def split: if_splits)
qed

end

lemma evaluate_signals_action:
  assumes "evaluate_signals x = e"
  shows "(er_healthy e \<longrightarrow> \<not> er_needs e) \<and> (er_needs e \<longrightarrow> er_action e \<noteq> []) \<and>
    (er_needs e \<and> er_action e = actionRepairConfigMap \<longrightarrow>
       bool_signal x ''autoHealConfigMap'' = Some True \<and> bool_signal x ''upstreamDnsValidation'' \<noteq> Some False)"
  unfolding assms[symmetric] evaluate_signals_def Let_def act_def simple_eval_def is_true_def
  by (auto simp: actionScaleReplicas_def actionRepairConfigMap_def actionRestoreResources_def actionRestartDeployment_def
      split: option.splits signal.splits)

sublocale module_server \<subseteq> coredns: consenting_module "coredns_module A" "module_jn" coredns_permits
proof
  fix s spec s' r assume "md_check (coredns_module A) s spec = (s', r)"
  then show "jn (fst s') = jn (fst s)" using coredns_checked[of "fst s" "snd s" spec "fst s'" "snd s'" r] by (simp add: coredns_module_def)
next
  fix s c s' r assume "md_evaluate (coredns_module A) s c = (s', r)"
  then show "jn (fst s') = jn (fst s)" by (auto simp: coredns_module_def coredns_evaluate_def split: option.splits)
next
  fix s c s' e assume "md_evaluate (coredns_module A) s c = (s', Inr e)" "er_healthy e"
  then show "\<not> er_needs e" using evaluate_signals_action
    by (auto simp: coredns_module_def coredns_evaluate_def simple_eval_def split: option.splits)
next
  fix s spec s1 ck s2 e s3 rr
  assume a: "md_check (coredns_module A) s spec = (s1, Inr ck)" "md_evaluate (coredns_module A) s1 (Some ck) = (s2, Inr e)"
    "er_needs e" "md_remediate (coredns_module A) s2 (Some e) = (s3, rr)"
  obtain y where y: "ck = \<lparr>ck_signals = Some y, ck_error = None\<rparr>" "agree y (config_signals (Some spec))"
    using coredns_checked[of "fst s" "snd s" spec "fst s1" "snd s1"] a(1) by (auto simp: coredns_module_def)
  have e: "e = evaluate_signals y" using a(2) y(1) by (simp add: coredns_module_def coredns_evaluate_def)
  have "bool_signal y ''autoHealConfigMap'' = Some (co_heal_config (sp_coredns spec))"
    "bool_signal y ''upstreamDnsValidation'' = Some (co_validation (sp_coredns spec))"
    using y(2) by (simp_all add: agree_def config_keys_def config_signals_def bool_signal_def spec_flag_def)
  then show "adds module_jn (\<lambda>w. coredns_permits spec (fst w)) s2 s3"
    using coredns_remediated[of "fst s2" "snd s2" e "fst s3" "snd s3" rr spec] evaluate_signals_action[OF e[symmetric]] a(3,4)
    by (simp add: coredns_module_def adds_def)
qed

subsection \<open>The CNI module\<close>

context module_server
begin

lemma checkCalicoDaemonSet_quiet: "checkCalicoDaemonSet A s ns n = (s', r) \<Longrightarrow> jn s' = jn s"
  by (auto simp: checkCalicoDaemonSet_def Let_def split: prod.splits sum.splits if_splits dest!: quiet)

lemma findCNIEvent_quiet: "findCNIEvent A s ns n = (s', r) \<Longrightarrow> jn s' = jn s"
  by (auto simp: findCNIEvent_def split: prod.splits sum.splits option.splits dest!: quiet)

lemma collect_stuck_quiet: "collect_stuck A now d ps s st = (s', r) \<Longrightarrow> jn s' = jn s"
proof (induction ps arbitrary: s st)
  case (Cons p ps)
  then show ?case by (auto split: if_splits prod.splits dest!: findCNIEvent_quiet)
qed simp

lemma checkStuckPods_quiet: "checkStuckPods A s d = (s', r) \<Longrightarrow> jn s' = jn s"
  by (auto simp: checkStuckPods_def split: prod.splits sum.splits dest!: quiet collect_stuck_quiet)

lemma checkIPAMUsage_quiet: "checkIPAMUsage A s = (s', r) \<Longrightarrow> jn s' = jn s"
  by (auto simp: checkIPAMUsage_def Let_def split: prod.splits sum.splits dest!: quiet)

lemma cni_checked: "cni_check A (s, m) spec = ((s', m'), r) \<Longrightarrow> jn s' = jn s"
  by (auto simp: cni_check_def Let_def split: prod.splits sum.splits
      dest!: checkCalicoDaemonSet_quiet checkStuckPods_quiet checkIPAMUsage_quiet)

lemma or_stuck_quiet: "or_stuck A s st = (s', r) \<Longrightarrow> jn s' = jn s"
  by (auto simp: or_stuck_def split: if_splits prod.splits dest!: checkStuckPods_quiet)

lemma restart_pods_writes: "restart_pods A ns s r = (s', r') \<Longrightarrow> adds jn (\<lambda>w. cni_permits spec (fst w)) s s'"
proof (induction ns arbitrary: s r)
  case (Cons n ns)
  obtain s1 e where d: "mo_delete_pod A s (''kube-system'', n) = (s1, e)" by fastforce
  have "adds jn (\<lambda>w. cni_permits spec (fst w)) s s1" using writes(1)[OF d] by (simp add: adds_def cni_permits_def)
  moreover have "\<exists>r1. restart_pods A ns s1 r1 = (s', r')" using Cons.prems d by (cases r; cases e) auto
  ultimately show ?case using Cons.IH by (blast intro: adds_trans)
qed auto

lemma enable_pools_writes: "enable_pools A ns s r = (s', r') \<Longrightarrow> adds jn (\<lambda>w. cni_permits spec (fst w)) s s'"
proof (induction ns arbitrary: s r)
  case (Cons n ns)
  obtain s1 x where g: "mo_get_pool A s n = (s1, x)" by fastforce
  have a1: "adds jn (\<lambda>w. cni_permits spec (fst w)) s s1" using quiet(11)[OF g] by (rule adds_same)
  have "\<exists>s2 r2. enable_pools A ns s2 r2 = (s', r') \<and> adds jn (\<lambda>w. cni_permits spec (fst w)) s1 s2"
  proof (cases "\<exists>p. x = Inr p \<and> ipp_spec_ok p")
    case False
    then show ?thesis using Cons.prems g by (cases r; cases x) auto
  next
    case True
    then obtain p where p: "x = Inr p" "ipp_spec_ok p" by blast
    obtain s2 e where u: "mo_patch_pool A s1 (p\<lparr>ipp_disabled := Field False\<rparr>) = (s2, e)" by fastforce
    have "adds jn (\<lambda>w. cni_permits spec (fst w)) s1 s2" using writes(5)[OF u] by (simp add: adds_def cni_permits_def)
    then show ?thesis using Cons.prems g p u by (cases r; cases e) auto
  qed
  then show ?case using Cons.IH a1 by (blast intro: adds_trans)
qed auto

lemma evict_stuck_writes: "evict_stuck A ps s hit r = (s', r') \<Longrightarrow> adds jn (\<lambda>w. cni_permits spec (fst w)) s s'"
proof (induction ps arbitrary: s hit r)
  case (Cons p ps)
  obtain s1 e where d: "mo_delete_pod A s (st_ns p, st_name p) = (s1, e)" by fastforce
  have "adds jn (\<lambda>w. cni_permits spec (fst w)) s s1" using writes(1)[OF d] by (simp add: adds_def cni_permits_def)
  moreover have "\<exists>h1 r1. evict_stuck A ps s1 h1 r1 = (s', r')" using Cons.prems d by (cases r; cases e) auto
  ultimately show ?case using Cons.IH by (blast intro: adds_trans)
qed auto

lemma cni_remediated:
  assumes "cni_remediate A (s, m) ev = ((s', m'), r)"
  shows "adds jn (\<lambda>w. cni_permits spec (fst w)) s s'"
proof -
  let ?P = "\<lambda>w. cni_permits spec (fst w)"
  have restart: "adds jn ?P s s1" if r: "remediateRestartCalicoNode A s ns = (s1, q)" for s1 ns q
  proof -
    obtain t u where 1: "checkCalicoDaemonSet A s ''kube-system'' ''calico-node'' = (t, u)" by fastforce
    have "adds jn ?P s t" using checkCalicoDaemonSet_quiet[OF 1] by (rule adds_same)
    then have "\<exists>t' ns'. adds jn ?P s t' \<and> restart_pods A ns' t' ([], None) = (s1, q)"
      using r 1 adds_refl[of jn ?P s] by (cases "ns = []") (auto simp: remediateRestartCalicoNode_def)
    then show ?thesis using restart_pods_writes by (blast intro: adds_trans)
  qed
  have enable: "adds jn ?P s s1" if e: "remediateReenableIPPool A s ds st = (s1, q)" for s1 ds st q
  proof -
    obtain t0 ds' where 0: "(if ds = [] then (case checkIPAMUsage A s of (s, _, _, d, _) \<Rightarrow> (s, d)) else (s, ds)) = (t0, ds')" by fastforce
    obtain t1 r1 where 1: "enable_pools A ds' t0 ([], None) = (t1, r1)" by (metis surj_pair)
    obtain t2 st' where 2: "or_stuck A t1 st = (t2, st')" by fastforce
    obtain t3 h r3 where 3: "evict_stuck A st' t2 [] r1 = (t3, h, r3)" by (metis surj_pair)
    have "adds jn ?P s t0" using 0 checkIPAMUsage_quiet by (intro adds_same) (auto split: if_splits prod.splits)
    moreover have "adds jn ?P t1 t2" using or_stuck_quiet[OF 2] by (rule adds_same)
    moreover have "s1 = t3" using e 0 1 2 3 by (simp add: remediateReenableIPPool_def)
    ultimately show ?thesis using enable_pools_writes[OF 1] evict_stuck_writes[OF 3] by (blast intro: adds_trans)
  qed
  have evict: "adds jn ?P s s1" if e: "remediateEvictStuckPods A (s, mm) st = ((s1, mm'), q)" for s1 mm mm' st q
  proof -
    obtain t st' where 1: "or_stuck A s st = (t, st')" by fastforce
    obtain t2 h r2 where 2: "evict_stuck A st' t [] ([], None) = (t2, h, r2)" by (metis surj_pair)
    have "adds jn ?P s t" using or_stuck_quiet[OF 1] by (rule adds_same)
    moreover have "s1 = t2" using e 1 2 by (simp add: remediateEvictStuckPods_def Let_def)
    ultimately show ?thesis using evict_stuck_writes[OF 2] by (blast intro: adds_trans)
  qed
  show ?thesis using assms restart enable evict
    by (auto simp: cni_remediate_def Let_def split: option.splits if_splits prod.splits action_type.splits)
qed

end

lemma evaluate_cni_consistent: "evaluate_cni A s m c = (m', e) \<Longrightarrow> er_healthy e \<Longrightarrow> \<not> er_needs e"
  by (auto simp: evaluate_cni_def severe_def simple_eval_def Let_def split: if_splits)

sublocale module_server \<subseteq> cni: consenting_module "cni_module A" "module_jn" cni_permits
proof
  fix s spec s' r assume "md_check (cni_module A) s spec = (s', r)"
  then show "jn (fst s') = jn (fst s)" using cni_checked[of "fst s" "snd s" spec "fst s'" "snd s'" r] by (simp add: cni_module_def)
next
  fix s c s' r assume "md_evaluate (cni_module A) s c = (s', r)"
  then show "jn (fst s') = jn (fst s)" by (auto simp: cni_module_def cni_evaluate_def split: option.splits prod.splits)
next
  fix s c s' e assume "md_evaluate (cni_module A) s c = (s', Inr e)" "er_healthy e"
  then show "\<not> er_needs e" using evaluate_cni_consistent
    by (fastforce simp: cni_module_def cni_evaluate_def simple_eval_def split: option.splits prod.splits)
next
  fix s spec s1 ck s2 e s3 rr
  assume "md_remediate (cni_module A) s2 (Some e) = (s3, rr)"
  then show "adds module_jn (\<lambda>w. cni_permits spec (fst w)) s2 s3"
    using cni_remediated[of "fst s2" "snd s2" "Some e" "fst s3" "snd s3" rr spec] by (simp add: cni_module_def adds_def)
qed

end
