(* ===== verification/Operator.thy ===== *)
theory Operator
  imports Module_Laws
begin

text \<open>
  The operator with its four modules, registered as cmd/main.go does it, and what one pass over a NetworkRemediation resource
  does as a whole: it writes only what an enabled module is permitted to write, and its status says of every
  module whether it is enabled and healthy.
\<close>

record 'c operator =
  op_world :: 'c
  op_cni :: cni_state
  op_coredns :: coredns_state
  op_policy :: policy_state
  op_connectivity :: connectivity_state

record 'c nr_api = "'c module_api" +
  na_get :: "'c \<Rightarrow> string \<Rightarrow> 'c \<times> (api_error + network_remediation)"
  na_update_status :: "'c \<Rightarrow> network_remediation \<Rightarrow> 'c \<times> api_error option"

definition operator_new :: "'c \<Rightarrow> 'c operator" where
  "operator_new w = \<lparr>op_world = w, op_cni = cniModule_new, op_coredns = corednsModule_new, op_policy = policyModule_new,
     op_connectivity = connectivityModule_new\<rparr>"

definition registered_modules :: "('c, 'z) module_api_scheme \<Rightarrow> 'c operator registered list" where
  "registered_modules A =
     (let regs = RegisterModule
            (focus (\<lambda>s. (op_world s, op_cni s)) (\<lambda>(w, m) s. s\<lparr>op_world := w, op_cni := m\<rparr>) (cni_module A))
            (\<lambda>sp. cn_enabled (sp_cni sp)) (\<lambda>ms st. st\<lparr>nt_cni := ms\<rparr>) [];
          regs = RegisterModule
            (focus (\<lambda>s. (op_world s, op_coredns s)) (\<lambda>(w, m) s. s\<lparr>op_world := w, op_coredns := m\<rparr>) (coredns_module A))
            (\<lambda>sp. co_enabled (sp_coredns sp)) (\<lambda>ms st. st\<lparr>nt_coredns := ms\<rparr>) regs;
          regs = RegisterModule
            (focus (\<lambda>s. (op_world s, op_policy s)) (\<lambda>(w, m) s. s\<lparr>op_world := w, op_policy := m\<rparr>) (policy_module A))
            (\<lambda>sp. np_enabled (sp_policy sp)) (\<lambda>ms st. st\<lparr>nt_policy := ms\<rparr>) regs
      in RegisterModule
            (focus (\<lambda>s. (op_world s, op_connectivity s)) (\<lambda>(w, m) s. s\<lparr>op_world := w, op_connectivity := m\<rparr>) (connectivity_module A))
            (\<lambda>sp. pc_enabled (sp_connectivity sp)) (\<lambda>ms st. st\<lparr>nt_connectivity := ms\<rparr>) regs)"

definition operator_env :: "('c, 'z) nr_api_scheme \<Rightarrow> 'c operator nr_env" where
  "operator_env A = \<lparr>
     ne_now = (\<lambda>s. mo_now A (op_world s)),
     ne_get = (\<lambda>s n. case na_get A (op_world s) n of (w, r) \<Rightarrow> (s\<lparr>op_world := w\<rparr>, r)),
     ne_update_status = (\<lambda>s nr. case na_update_status A (op_world s) nr of (w, r) \<Rightarrow> (s\<lparr>op_world := w\<rparr>, r))\<rparr>"

definition operator_reconcile ::
  "('c, 'z) nr_api_scheme \<Rightarrow> 'c operator \<Rightarrow> string \<Rightarrow> 'c operator \<times> (api_error + duration option)" where
  "operator_reconcile A s name = nr_reconcile (operator_env A) (registered_modules A) s name"

subsection \<open>A pass writes what is permitted\<close>

definition operator_permits :: "network_spec \<Rightarrow> module_write \<Rightarrow> bool" where
  "operator_permits spec w \<longleftrightarrow>
     cn_enabled (sp_cni spec) \<and> cni_permits spec w \<or> co_enabled (sp_coredns spec) \<and> coredns_permits spec w \<or>
     np_enabled (sp_policy spec) \<and> policy_permits spec w \<or> pc_enabled (sp_connectivity spec) \<and> connectivity_permits spec w"

definition module_permits :: "string \<Rightarrow> network_spec \<Rightarrow> module_write \<Rightarrow> bool" where
  "module_permits name =
     (if name = ''cni'' then cni_permits else if name = ''coredns'' then coredns_permits
      else if name = ''networkpolicy'' then policy_permits else connectivity_permits)"

text \<open>The journal holds the writes of the modules; the resource itself is read and its status written outside of it.\<close>

definition operator_laws :: "('c, 'z) nr_api_scheme \<Rightarrow> ('c \<Rightarrow> module_entry list) \<Rightarrow> bool" where
  "operator_laws A jn \<longleftrightarrow> module_laws A jn \<and> silent jn (na_get A) \<and> silent jn (na_update_status A)"

locale operator_server = module_server A jn
  for A :: "('c, 'z) nr_api_scheme" and jn :: "'c \<Rightarrow> module_entry list" +
  assumes resource_laws: "silent jn (na_get A)" "silent jn (na_update_status A)"
begin

abbreviation op_jn :: "'c operator \<Rightarrow> module_entry list" where
  "op_jn \<equiv> \<lambda>s. jn (op_world s)"

lemma modules_consent:
  "consenting_module (focus (\<lambda>s. (op_world s, op_cni s)) (\<lambda>(w, m) s. s\<lparr>op_world := w, op_cni := m\<rparr>) (cni_module A)) op_jn cni_permits"
  "consenting_module (focus (\<lambda>s. (op_world s, op_coredns s)) (\<lambda>(w, m) s. s\<lparr>op_world := w, op_coredns := m\<rparr>) (coredns_module A)) op_jn coredns_permits"
  "consenting_module (focus (\<lambda>s. (op_world s, op_policy s)) (\<lambda>(w, m) s. s\<lparr>op_world := w, op_policy := m\<rparr>) (policy_module A)) op_jn policy_permits"
  "consenting_module (focus (\<lambda>s. (op_world s, op_connectivity s)) (\<lambda>(w, m) s. s\<lparr>op_world := w, op_connectivity := m\<rparr>) (connectivity_module A)) op_jn connectivity_permits"
proof -
  note focused = consenting_focus[where get = "\<lambda>s. (op_world s, f s)" for f]
  show "consenting_module (focus (\<lambda>s. (op_world s, op_cni s)) (\<lambda>(w, m) s. s\<lparr>op_world := w, op_cni := m\<rparr>) (cni_module A)) op_jn cni_permits"
    by (rule focused[OF cni.consenting_module_axioms]) (auto split: prod.splits)
  show "consenting_module (focus (\<lambda>s. (op_world s, op_coredns s)) (\<lambda>(w, m) s. s\<lparr>op_world := w, op_coredns := m\<rparr>) (coredns_module A)) op_jn coredns_permits"
    by (rule focused[OF coredns.consenting_module_axioms]) (auto split: prod.splits)
  show "consenting_module (focus (\<lambda>s. (op_world s, op_policy s)) (\<lambda>(w, m) s. s\<lparr>op_world := w, op_policy := m\<rparr>) (policy_module A)) op_jn policy_permits"
    by (rule focused[OF policy.consenting_module_axioms]) (auto split: prod.splits)
  show "consenting_module (focus (\<lambda>s. (op_world s, op_connectivity s)) (\<lambda>(w, m) s. s\<lparr>op_world := w, op_connectivity := m\<rparr>) (connectivity_module A)) op_jn connectivity_permits"
    by (rule focused[OF connectivity.consenting_module_axioms]) (auto split: prod.splits)
qed

lemma registered_consent:
  "reg \<in> set (registered_modules A) \<Longrightarrow> consenting_module (rg_module reg) op_jn (module_permits (md_name (rg_module reg)))"
  unfolding registered_modules_def RegisterModule_def Let_def
  using modules_consent
  by (auto simp: module_permits_def cni_module_def coredns_module_def policy_module_def connectivity_module_def simp del: split_paired_All)

lemma pass_permitted:
  assumes "operator_reconcile A s name = (s', r)"
  shows "adds op_jn (\<lambda>e. \<exists>w nr. na_get A (op_world s) name = (w, Inr nr) \<and> operator_permits (nr_spec nr) (fst e)) s s'"
proof -
  let ?E = "operator_env A"
  obtain w x where g: "na_get A (op_world s) name = (w, x)" by fastforce
  have quiet_get: "jn w = jn (op_world s)" using silentD[OF resource_laws(1) g] .
  show ?thesis
  proof (cases x)
    case Inl
    then have "op_world s' = w" using assms g by (auto simp: operator_reconcile_def nr_reconcile_def operator_env_def)
    then show ?thesis using quiet_get by (intro adds_same) simp
  next
    case (Inr nr)
    obtain s2 nr2 ok where m: "reconcile_modules ?E (registered_modules A) (s\<lparr>op_world := w\<rparr>) nr True = (s2, nr2, ok)" by (metis surj_pair)
    have "adds op_jn (\<lambda>e. permitted (\<lambda>reg. module_permits (md_name (rg_module reg))) (registered_modules A) (nr_spec nr) (fst e)) (s\<lparr>op_world := w\<rparr>) s2"
      using reconcile_modules_writes[OF registered_consent m] by blast
    then have "adds op_jn (\<lambda>e. operator_permits (nr_spec nr) (fst e)) (s\<lparr>op_world := w\<rparr>) s2"
      by (rule adds_mono) (auto simp: permitted_def registered_modules_def RegisterModule_def Let_def operator_permits_def
          module_permits_def cni_module_def coredns_module_def policy_module_def connectivity_module_def)
    moreover have "op_jn s' = op_jn s2"
      using assms g Inr m by (auto simp: operator_reconcile_def nr_reconcile_def operator_env_def Let_def
          split: prod.splits option.splits dest!: silentD[OF resource_laws(2)])
    ultimately show ?thesis using quiet_get g Inr by (auto simp: adds_def)
  qed
qed

end

text \<open>The status names every module's state, and the phase is their conjunction.\<close>

definition dated :: "module_status \<Rightarrow> bool" where
  "dated ms \<longleftrightarrow> (ms_enabled ms \<longleftrightarrow> ms_checked ms \<noteq> None) \<and> (\<not> ms_enabled ms \<longrightarrow> ms_healthy ms)"

definition reported :: "'s registered \<Rightarrow> network_remediation \<Rightarrow> network_remediation \<Rightarrow> bool \<Rightarrow> module_status \<Rightarrow> bool" where
  "reported reg nr nr' ok ms \<longleftrightarrow> nr' = set_status reg ms nr \<and> ms_healthy ms = ok \<and>
     ms_enabled ms = rg_enabled reg (nr_spec nr) \<and> dated ms"

lemma reconcileModule_reports: "reconcileModule E s nr reg = (s', nr', ok) \<Longrightarrow> \<exists>ms. reported reg nr nr' ok ms"
  unfolding reported_def dated_def
  by (auto simp: reconcileModule_def Let_def split: if_splits sum.splits prod.splits option.splits intro!: exI)

lemma registered_list:
  "registered_modules A =
     (let reg = \<lambda>M en st. \<lparr>rg_module = M, rg_enabled = en, rg_set = st\<rparr> in
      [reg (focus (\<lambda>s. (op_world s, op_cni s)) (\<lambda>(w, m) s. s\<lparr>op_world := w, op_cni := m\<rparr>) (cni_module A))
         (\<lambda>sp. cn_enabled (sp_cni sp)) (\<lambda>ms st. st\<lparr>nt_cni := ms\<rparr>),
       reg (focus (\<lambda>s. (op_world s, op_coredns s)) (\<lambda>(w, m) s. s\<lparr>op_world := w, op_coredns := m\<rparr>) (coredns_module A))
         (\<lambda>sp. co_enabled (sp_coredns sp)) (\<lambda>ms st. st\<lparr>nt_coredns := ms\<rparr>),
       reg (focus (\<lambda>s. (op_world s, op_policy s)) (\<lambda>(w, m) s. s\<lparr>op_world := w, op_policy := m\<rparr>) (policy_module A))
         (\<lambda>sp. np_enabled (sp_policy sp)) (\<lambda>ms st. st\<lparr>nt_policy := ms\<rparr>),
       reg (focus (\<lambda>s. (op_world s, op_connectivity s)) (\<lambda>(w, m) s. s\<lparr>op_world := w, op_connectivity := m\<rparr>) (connectivity_module A))
         (\<lambda>sp. pc_enabled (sp_connectivity sp)) (\<lambda>ms st. st\<lparr>nt_connectivity := ms\<rparr>)])"
  by (simp add: registered_modules_def RegisterModule_def Let_def)

definition status_sound :: "network_spec \<Rightarrow> network_status \<Rightarrow> bool" where
  "status_sound spec st \<longleftrightarrow>
     ms_enabled (nt_cni st) = cn_enabled (sp_cni spec) \<and> ms_enabled (nt_coredns st) = co_enabled (sp_coredns spec) \<and>
     ms_enabled (nt_policy st) = np_enabled (sp_policy spec) \<and> ms_enabled (nt_connectivity st) = pc_enabled (sp_connectivity spec) \<and>
     list_all dated [nt_cni st, nt_coredns st, nt_policy st, nt_connectivity st] \<and>
     nt_phase st = (if list_all ms_healthy [nt_cni st, nt_coredns st, nt_policy st, nt_connectivity st] then ''Running'' else ''Degraded'')"

lemma modules_report:
  assumes "reconcile_modules E (registered_modules A) s nr True = (s', nr', ok)"
  shows "nr_spec nr' = nr_spec nr \<and> nr_name nr' = nr_name nr \<and>
    status_sound (nr_spec nr) ((nr_status nr')\<lparr>nt_reconciled := t, nt_phase := (if ok then ''Running'' else ''Degraded'')\<rparr>)"
proof -
  let ?regs = "registered_modules A"
  obtain s1 n1 b1 where 1: "reconcileModule E s nr (?regs ! 0) = (s1, n1, b1)" by (metis surj_pair)
  obtain s2 n2 b2 where 2: "reconcileModule E s1 n1 (?regs ! 1) = (s2, n2, b2)" by (metis surj_pair)
  obtain s3 n3 b3 where 3: "reconcileModule E s2 n2 (?regs ! 2) = (s3, n3, b3)" by (metis surj_pair)
  obtain s4 n4 b4 where 4: "reconcileModule E s3 n3 (?regs ! 3) = (s4, n4, b4)" by (metis surj_pair)
  have regs: "?regs = [?regs ! 0, ?regs ! 1, ?regs ! 2, ?regs ! 3]" by (simp add: registered_list Let_def numeral_eq_Suc)
  have last: "nr' = n4" "ok \<longleftrightarrow> b1 \<and> b2 \<and> b3 \<and> b4"
    using assms 1 2 3 4 by (subst (asm) regs, simp)+
  obtain m1 m2 m3 m4 where ms: "reported (?regs ! 0) nr n1 b1 m1" "reported (?regs ! 1) n1 n2 b2 m2"
    "reported (?regs ! 2) n2 n3 b3 m3" "reported (?regs ! 3) n3 n4 b4 m4"
    using reconcileModule_reports[OF 1] reconcileModule_reports[OF 2] reconcileModule_reports[OF 3] reconcileModule_reports[OF 4] by blast
  have n: "n1 = set_status (?regs ! 0) m1 nr" "n2 = set_status (?regs ! 1) m2 n1" "n3 = set_status (?regs ! 2) m3 n2" "n4 = set_status (?regs ! 3) m4 n3"
    using ms unfolding reported_def by simp_all
  have status: "nr_status n4 = (nr_status nr)\<lparr>nt_cni := m1, nt_coredns := m2, nt_policy := m3, nt_connectivity := m4\<rparr>"
    unfolding n by (simp add: set_status_def registered_list Let_def numeral_eq_Suc)
  have spec: "nr_spec n1 = nr_spec nr" "nr_spec n2 = nr_spec nr" "nr_spec n3 = nr_spec nr" "nr_spec n4 = nr_spec nr" "nr_name n4 = nr_name nr"
    unfolding n by (simp_all add: set_status_def)
  have enabled: "rg_enabled (?regs ! 0) sp = cn_enabled (sp_cni sp)" "rg_enabled (?regs ! 1) sp = co_enabled (sp_coredns sp)"
    "rg_enabled (?regs ! 2) sp = np_enabled (sp_policy sp)" "rg_enabled (?regs ! 3) sp = pc_enabled (sp_connectivity sp)" for sp
    by (simp_all add: registered_list Let_def numeral_eq_Suc)
  have m: "ms_healthy m1 = b1" "ms_healthy m2 = b2" "ms_healthy m3 = b3" "ms_healthy m4 = b4"
    "ms_enabled m1 = cn_enabled (sp_cni (nr_spec nr))" "ms_enabled m2 = co_enabled (sp_coredns (nr_spec nr))"
    "ms_enabled m3 = np_enabled (sp_policy (nr_spec nr))" "ms_enabled m4 = pc_enabled (sp_connectivity (nr_spec nr))"
    using ms unfolding reported_def enabled spec by simp_all
  have c: "list_all dated [m1, m2, m3, m4]"
    using ms unfolding reported_def by simp
  show ?thesis unfolding last spec status status_sound_def network_status.simps using c by (simp add: m del: list.pred_inject) (simp add: m)
qed


text \<open>
  C31. The status that a pass writes is well-formed: it says of each of the four modules whether it is enabled, dates exactly the enabled ones,
  counts a disabled module as healthy, and the phase is Running exactly if all four are healthy; the configuration is
  left as it was read, and the next pass is asked for in thirty seconds.
\<close>

theorem operator_status_sound:
  assumes "operator_reconcile A s name = (s', Inr (Some d))"
  shows "\<exists>w nr t st w'. na_get A (op_world s) name = (w, Inr nr) \<and> na_update_status A t (nr\<lparr>nr_status := st\<rparr>) = (w', None) \<and>
    op_world s' = w' \<and> status_sound (nr_spec nr) st \<and> d = requeueInterval"
proof -
  let ?E = "operator_env A"
  obtain w nr where g: "na_get A (op_world s) name = (w, Inr nr)"
    using assms by (auto simp: operator_reconcile_def nr_reconcile_def operator_env_def split: prod.splits sum.splits if_splits)
  obtain s2 nr2 ok where m: "reconcile_modules ?E (registered_modules A) (s\<lparr>op_world := w\<rparr>) nr True = (s2, nr2, ok)" by (metis surj_pair)
  define st where "st = (nr_status nr2)\<lparr>nt_reconciled := Some (mo_now A (op_world s2)), nt_phase := (if ok then ''Running'' else ''Degraded'')\<rparr>"
  note rep = modules_report[OF m, of "Some (mo_now A (op_world s2))"]
  have same: "nr2\<lparr>nr_status := st\<rparr> = nr\<lparr>nr_status := st\<rparr>" using rep by simp
  obtain w' where w': "na_update_status A (op_world s2) (nr2\<lparr>nr_status := st\<rparr>) = (w', None)" "op_world s' = w'" "d = requeueInterval"
    using assms g m by (auto simp: operator_reconcile_def nr_reconcile_def operator_env_def st_def Let_def split: prod.splits option.splits)
  have sound: "status_sound (nr_spec nr) st" using rep unfolding st_def by blast
  show ?thesis by (rule exI[of _ w], rule exI[of _ nr], rule exI[of _ "op_world s2"], rule exI[of _ st], rule exI[of _ w'])
      (intro conjI g w'(1)[unfolded same] w'(2,3) sound)
qed

end
