(* ===== verification/Connectivity_Props.thy ===== *)
theory Connectivity_Props
  imports Module_Laws Health_Props
begin

text \<open>
  What the pod connectivity module gets right: a verdict rests on the probes, the ring pins down a single fault, the tiers of the
  remediation come in their order. And what it does not: the restart counters are never cleared.
\<close>

subsection \<open>A verdict has its evidence\<close>

lemma find_in: "find P xs = Some x \<Longrightarrow> set xs = Y \<Longrightarrow> x \<in> Y \<and> P x"
  by (auto dest: find_SomeD)

lemma none_succeeds_iff: "none_succeeds ps \<longleftrightarrow> ps \<noteq> [] \<and> (\<forall>p \<in> set ps. \<not> eg_success p)"
  by (auto simp: none_succeeds_def filter_empty_conv)

definition evidence :: "(string \<times> bool) list \<Rightarrow> edge_probe list \<Rightarrow> anchor_probe list \<Rightarrow> decision \<Rightarrow> bool" where
  "evidence local ring anchors d \<longleftrightarrow>
     (let n = dc_node d; ins = incoming ring n; outs = outgoing ring n in
      case dc_type d of
        NoFailure \<Rightarrow> dc_healthy d \<and> n = [] \<and> (\<forall>p \<in> set ring. eg_success p)
      | LocalCNI \<Rightarrow> \<not> dc_healthy d \<and> map_of local n = Some False \<and> reaches_external ring anchors n
      | NodeIngress \<Rightarrow> \<not> dc_healthy d \<and> none_succeeds ins
      | TunnelCrash \<Rightarrow> \<not> dc_healthy d \<and> none_succeeds outs \<and> reaches_anchor anchors n
      | NodeEgress \<Rightarrow> \<not> dc_healthy d \<and> none_succeeds outs \<and> \<not> reaches_anchor anchors n
      | AsymmetricPath \<Rightarrow> \<not> dc_healthy d \<and> (\<exists>p \<in> set ins. \<not> eg_success p) \<and> (\<exists>p \<in> set ins. eg_success p)
      | _ \<Rightarrow> False)"

text \<open>
  C21. Triangulation decides by evidence, in whatever order the maps are met: a node is blamed for a dead local network only if its
  local probe failed while it reaches others, for a dead ingress or egress only if every probe to it or from it failed,
  for an asymmetric path only if some probes to it fail and others arrive; and the verdict is healthy only if every probe on the ring arrived.
  Isolation is asked for only when a node reaches neither a peer nor the anchor.
\<close>

theorem triangulate_evidence:
  assumes "\<forall>xs. set (ord xs) = set xs" "d = triangulate ord local ring anchors"
  shows "evidence local ring anchors d \<and>
    (dc_action d = ''node_isolation'' \<longrightarrow> none_succeeds (outgoing ring (dc_node d)) \<and> \<not> reaches_anchor anchors (dc_node d))"
proof -
  let ?local = "find (\<lambda>n. map_of local n = Some False \<and> reaches_external ring anchors n) (ord (map fst local))"
  let ?in = "find (\<lambda>n. none_succeeds (incoming ring n)) (ord (remdups (map eg_target ring)))"
  let ?out = "find (\<lambda>n. none_succeeds (outgoing ring n)) (ord (remdups (map eg_source ring)))"
  note d = assms(2)[unfolded triangulate_def Let_def]
  show ?thesis
  proof (cases ?local)
    case (Some n)
    then have "map_of local n = Some False \<and> reaches_external ring anchors n" by (auto dest: find_SomeD)
    then show ?thesis using d Some by (simp add: evidence_def blame_def)
  next
    case no_local: None
    show ?thesis
    proof (cases "filter (\<lambda>p. \<not> eg_success p) ring = []")
      case True
      then show ?thesis using d no_local by (auto simp: evidence_def no_failure_def filter_empty_conv)
    next
      case failed: False
      then have ring: "ring \<noteq> []" by auto
      show ?thesis
      proof (cases ?in)
        case (Some n)
        then have "none_succeeds (incoming ring n)" by (auto dest: find_SomeD)
        then show ?thesis using d no_local ring failed Some by (simp add: evidence_def blame_def)
      next
        case no_in: None
        show ?thesis
        proof (cases ?out)
          case (Some n)
          then have "none_succeeds (outgoing ring n)" by (auto dest: find_SomeD)
          then show ?thesis using d no_local ring failed no_in Some by (simp add: evidence_def blame_def)
        next
          case no_out: None
          let ?p = "hd (filter (\<lambda>p. \<not> eg_success p) ring)"
          have p: "?p \<in> set ring" "\<not> eg_success ?p" using failed hd_in_set[OF failed] by auto
          have "eg_target ?p \<in> set (ord (remdups (map eg_target ring)))" using p(1) assms(1) by simp
          then have "\<not> none_succeeds (incoming ring (eg_target ?p))" using no_in unfolding find_None_iff by blast
          moreover have "?p \<in> set (incoming ring (eg_target ?p))" using p(1) by (simp add: incoming_def)
          ultimately have "\<exists>q \<in> set (incoming ring (eg_target ?p)). eg_success q" "\<exists>q \<in> set (incoming ring (eg_target ?p)). \<not> eg_success q"
            using p(2) unfolding none_succeeds_iff by auto
          then show ?thesis using d no_local ring failed no_in no_out by (simp add: evidence_def blame_def)
        qed
      qed
    qed
  qed
qed

subsection \<open>The ring pins down a single fault\<close>

definition ring_pairs :: "k_node list \<Rightarrow> (string \<times> string) set" where
  "ring_pairs nds = (\<lambda>e. (re_source e, re_target e)) ` set (snd (buildRingTopology nds))"

lemma ring_pairs_eq:
  assumes "names = sort (map kn_name nds)" "3 \<le> length nds"
  shows "ring_pairs nds = (\<Union>i < length nds. {(names ! i, names ! ((i + 1) mod length nds)), (names ! i, names ! ((i + length nds - 1) mod length nds))})"
proof -
  have n: "length names = length nds" using assms(1) by simp
  show ?thesis
    unfolding ring_pairs_def buildRingTopology_def Let_def assms(1)[symmetric] n using assms(2)
    by (auto simp: ring_edges_at_def Let_def n image_iff atLeast0LessThan)
qed


lemma ring_pairs_step:
  assumes "names = sort (map kn_name nds)" "3 \<le> length nds" "j < length nds" "k < length nds" "k = (j + 1) mod length nds"
  shows "(names ! j, names ! k) \<in> ring_pairs nds \<and> (names ! k, names ! j) \<in> ring_pairs nds"
proof -
  have "(k + length nds - 1) mod length nds = j"
  proof (cases "j + 1 = length nds")
    case True then show ?thesis using assms(2,5) by simp
  next
    case False then show ?thesis using assms(3,5) by (simp add: mod_add_self2)
  qed
  then have "(names ! k, names ! j) = (names ! k, names ! ((k + length nds - 1) mod length nds))" by simp
  moreover have "(names ! j, names ! k) \<in> ring_pairs nds"
    unfolding ring_pairs_eq[OF assms(1,2)] assms(5) by (rule UN_I[of j]) (simp_all add: assms(3))
  moreover have "(names ! k, names ! ((k + length nds - 1) mod length nds)) \<in> ring_pairs nds"
    unfolding ring_pairs_eq[OF assms(1,2)] by (rule UN_I[of k]) (simp_all add: assms(4))
  ultimately show ?thesis by simp
qed

lemma ring_neighbours:
  assumes "3 \<le> length nds" "distinct (map kn_name nds)" "t \<in> set (map kn_name nds)"
  shows "\<exists>u v. u \<noteq> v \<and> u \<noteq> t \<and> v \<noteq> t \<and> {(u, t), (t, u), (v, t), (t, v)} \<subseteq> ring_pairs nds"
proof -
  define names where "names = sort (map kn_name nds)"
  let ?n = "length nds"
  have names: "set names = set (map kn_name nds)" "distinct names" "length names = ?n" using assms(2) by (simp_all add: names_def)
  obtain j where j: "j < ?n" "names ! j = t" using assms(3) names by (metis in_set_conv_nth)
  define s where "s = (j + 1) mod ?n"
  define p where "p = (if j = 0 then ?n - 1 else j - 1)"
  have lt: "p < ?n" "s < ?n" using assms(1) j(1) by (auto simp: p_def s_def intro: mod_less_divisor)
  have ps: "j = (p + 1) mod ?n" using assms(1) j(1) by (auto simp: p_def)
  have "s = (if j + 1 = ?n then 0 else j + 1)" using j(1) by (auto simp: s_def)
  then have "s \<noteq> p" "s \<noteq> j" "p \<noteq> j" using assms(1) j(1) by (auto simp: p_def split: if_splits)
  then have "names ! s \<noteq> names ! p" "names ! s \<noteq> t" "names ! p \<noteq> t"
    using lt j names(2,3) by (auto simp: nth_eq_iff_index_eq)
  moreover have "{(names ! s, t), (t, names ! s), (names ! p, t), (t, names ! p)} \<subseteq> ring_pairs nds"
    using ring_pairs_step[OF names_def assms(1) j(1) lt(2) s_def] ring_pairs_step[OF names_def assms(1) lt(1) j(1) ps] j(2) by simp
  ultimately show ?thesis by blast
qed

lemma ring_pairs_sym:
  assumes "3 \<le> length nds" "(x, y) \<in> ring_pairs nds"
  shows "(y, x) \<in> ring_pairs nds"
proof -
  let ?n = "length nds" and ?names = "sort (map kn_name nds)"
  have pos: "0 < ?n" using assms(1) by linarith
  obtain i where i: "i < ?n" "(x, y) = (?names ! i, ?names ! ((i + 1) mod ?n)) \<or> (x, y) = (?names ! i, ?names ! ((i + ?n - 1) mod ?n))"
    using assms(2) unfolding ring_pairs_eq[OF refl assms(1)] by blast
  define p where "p = (i + ?n - 1) mod ?n"
  have "i = (p + 1) mod ?n" using i(1) assms(1) unfolding p_def by (cases "i = 0") (simp_all add: mod_simps)
  moreover have "p < ?n" "(i + 1) mod ?n < ?n" using pos by (simp_all add: p_def)
  ultimately show ?thesis
    using i ring_pairs_step[OF refl assms(1) i(1), of "(i + 1) mod ?n"] ring_pairs_step[OF refl assms(1) _ i(1), of p]
    unfolding p_def by auto
qed

lemma ring_pairs_range:
  assumes "3 \<le> length nds" "distinct (map kn_name nds)" "(x, y) \<in> ring_pairs nds"
  shows "x \<in> set (map kn_name nds) \<and> y \<in> set (map kn_name nds)"
proof -
  let ?names = "sort (map kn_name nds)"
  have nth: "?names ! i \<in> set (map kn_name nds)" if "i < length nds" for i
    using that nth_mem[of i ?names] by simp
  obtain i where i: "i < length nds" "(x, y) = (?names ! i, ?names ! ((i + 1) mod length nds)) \<or>
      (x, y) = (?names ! i, ?names ! ((i + length nds - 1) mod length nds))"
    using assms(3) unfolding ring_pairs_eq[OF refl assms(1)] by blast
  have "k mod length nds < length nds" for k using assms(1) by (intro mod_less_divisor) linarith
  then show ?thesis using i nth by blast
qed

text \<open>The probes of the ring in a cluster with a single fault.\<close>

definition passes :: "fault \<Rightarrow> string \<Rightarrow> string \<Rightarrow> bool" where
  "passes f x y = (case f of
     NoFault \<Rightarrow> True | NodeFault b \<Rightarrow> x \<noteq> b \<and> y \<noteq> b | LinkFault a b \<Rightarrow> (x, y) \<noteq> (a, b) \<and> (x, y) \<noteq> (b, a))"

definition ring_probes :: "k_node list \<Rightarrow> fault \<Rightarrow> edge_probe list" where
  "ring_probes nds f =
     map (\<lambda>e. \<lparr>eg_source = re_source e, eg_target = re_target e, eg_success = passes f (re_source e) (re_target e)\<rparr>)
       (snd (buildRingTopology nds))"

lemma ring_probes_set:
  "set (ring_probes nds f) = (\<lambda>(x, y). \<lparr>eg_source = x, eg_target = y, eg_success = passes f x y\<rparr>) ` ring_pairs nds"
  by (simp add: ring_probes_def ring_pairs_def image_image)

lemma find_unique: "\<forall>y \<in> set xs. P y \<longleftrightarrow> y = x \<Longrightarrow> x \<in> set xs \<Longrightarrow> find P xs = Some x"
proof (induction xs)
  case (Cons z zs)
  then show ?case by (cases "z = x") auto
qed simp

lemma incoming_fails:
  assumes "3 \<le> length nds" "distinct (map kn_name nds)" "t \<in> set (map kn_name nds)"
  shows "none_succeeds (incoming (ring_probes nds f) t) \<longleftrightarrow> f = NodeFault t"
    and "none_succeeds (outgoing (ring_probes nds f) t) \<longleftrightarrow> f = NodeFault t"
proof -
  obtain u v where uv: "u \<noteq> v" "u \<noteq> t" "v \<noteq> t" "{(u, t), (t, u), (v, t), (t, v)} \<subseteq> ring_pairs nds"
    using ring_neighbours[OF assms] by blast
  have "f = NodeFault t" if "\<not> passes f u t" "\<not> passes f v t" using that uv(1-3) by (auto simp: passes_def split: fault.splits)
  moreover have "f = NodeFault t" if "\<not> passes f t u" "\<not> passes f t v" using that uv(1-3) by (auto simp: passes_def split: fault.splits)
  moreover have "\<not> passes (NodeFault t) x t" "\<not> passes (NodeFault t) t x" for x by (simp_all add: passes_def)
  moreover have "set (incoming (ring_probes nds f) t) =
      (\<lambda>x. \<lparr>eg_source = x, eg_target = t, eg_success = passes f x t\<rparr>) ` {x. (x, t) \<in> ring_pairs nds}"
    "set (outgoing (ring_probes nds f) t) =
      (\<lambda>x. \<lparr>eg_source = t, eg_target = x, eg_success = passes f t x\<rparr>) ` {x. (t, x) \<in> ring_pairs nds}"
    unfolding incoming_def outgoing_def set_filter ring_probes_set by auto
  then have "none_succeeds (incoming (ring_probes nds f) t) \<longleftrightarrow>
      (\<exists>x. (x, t) \<in> ring_pairs nds) \<and> (\<forall>x. (x, t) \<in> ring_pairs nds \<longrightarrow> \<not> passes f x t)"
    "none_succeeds (outgoing (ring_probes nds f) t) \<longleftrightarrow>
      (\<exists>x. (t, x) \<in> ring_pairs nds) \<and> (\<forall>x. (t, x) \<in> ring_pairs nds \<longrightarrow> \<not> passes f t x)"
    unfolding none_succeeds_iff set_empty[symmetric] by auto
  ultimately show "none_succeeds (incoming (ring_probes nds f) t) \<longleftrightarrow> f = NodeFault t"
    "none_succeeds (outgoing (ring_probes nds f) t) \<longleftrightarrow> f = NodeFault t"
    using uv(4) by blast+
qed


text \<open>
  C10. In a cluster of at least three nodes the probes of the ring pin down a single fault, in whatever order the maps are met: no
  fault is no verdict, a dead node is named as the one that no peer reaches, and a dead link between neighbours of the
  ring blames one of its ends, for a restart of its agent; the traffic of a link off the ring is not probed.
\<close>

theorem ring_pins_fault:
  assumes "\<forall>xs. set (ord xs) = set xs" "3 \<le> length nds" "distinct (map kn_name nds)" "fault_in (map kn_name nds) f"
    "\<forall>n. map_of local n \<noteq> Some False" "d = triangulate ord local (ring_probes nds f) anchors"
  shows "case f of
      NoFault \<Rightarrow> dc_healthy d
    | NodeFault b \<Rightarrow> dc_type d = NodeIngress \<and> dc_node d = b \<and> dc_action d = ''cni_restart''
    | LinkFault a b \<Rightarrow>
        (if (a, b) \<in> ring_pairs nds
         then dc_type d = AsymmetricPath \<and> dc_node d \<in> {a, b} \<and> dc_action d = ''cni_restart'' else dc_healthy d)"
proof -
  let ?ring = "ring_probes nds f"
  note blamed = incoming_fails[OF assms(2,3)]
  have members: "set (ord (remdups (map eg_target ?ring))) = snd ` ring_pairs nds" "set (ord (remdups (map eg_source ?ring))) = fst ` ring_pairs nds"
    using assms(1) by (force simp: ring_probes_set image_image)+
  have range: "x \<in> set (map kn_name nds)" "y \<in> set (map kn_name nds)" if "(x, y) \<in> ring_pairs nds" for x y
    using ring_pairs_range[OF assms(2,3) that] by auto
  have no_local: "find (\<lambda>n. map_of local n = Some False \<and> reaches_external ?ring anchors n) (ord (map fst local)) = None"
    using assms(5) by (simp add: find_None_iff)
  show ?thesis
  proof (cases "\<forall>(x, y) \<in> ring_pairs nds. passes f x y")
    case True
    then have "filter (\<lambda>p. \<not> eg_success p) ?ring = []" by (auto simp: filter_empty_conv ring_probes_set)
    then have healthy: "dc_healthy d" unfolding assms(6) triangulate_def Let_def no_local by (simp add: no_failure_def)
    have "\<not> passes (NodeFault b) x b" "\<not> passes (LinkFault a b) a b" for a b x by (simp_all add: passes_def)
    then have "f \<noteq> NodeFault b" "f = LinkFault a b \<Longrightarrow> (a, b) \<notin> ring_pairs nds" for a b
      using True assms(4) ring_neighbours[OF assms(2,3), of b] unfolding fault_in_def by (fastforce split: fault.splits)+
    then show ?thesis using healthy by (cases f) auto
  next
    case False
    then obtain a b where "(a, b) \<in> ring_pairs nds" "\<not> passes f a b" by blast
    then have "\<lparr>eg_source = a, eg_target = b, eg_success = False\<rparr> \<in> set ?ring"
      unfolding ring_probes_set by (intro image_eqI[of _ _ "(a, b)"]) simp_all
    then have failed: "filter (\<lambda>p. \<not> eg_success p) ?ring \<noteq> []" "?ring \<noteq> []" by (force simp: filter_empty_conv)+
    show ?thesis
    proof (cases "\<exists>b. f = NodeFault b")
      case True
      then obtain b where b: "f = NodeFault b" by blast
      have "b \<in> snd ` ring_pairs nds" using ring_neighbours[OF assms(2,3), of b] assms(4) b by (force simp: fault_in_def)
      then have "find (\<lambda>n. none_succeeds (incoming ?ring n)) (ord (remdups (map eg_target ?ring))) = Some b"
        using blamed(1) range members(1) b by (intro find_unique) auto
      then show ?thesis using failed unfolding assms(6) triangulate_def Let_def no_local by (simp add: blame_def b)
    next
      case node_ok: False
      have "find (\<lambda>n. none_succeeds (incoming ?ring n)) (ord (remdups (map eg_target ?ring))) = None"
        "find (\<lambda>n. none_succeeds (outgoing ?ring n)) (ord (remdups (map eg_source ?ring))) = None"
        unfolding find_None_iff members using blamed range node_ok by auto
      then have d: "dc_type d = AsymmetricPath" "dc_action d = ''cni_restart''"
        "dc_node d = eg_target (hd (filter (\<lambda>p. \<not> eg_success p) ?ring))"
        using failed unfolding assms(6) triangulate_def Let_def no_local by (simp_all add: blame_def)
      obtain x y where p: "hd (filter (\<lambda>p. \<not> eg_success p) ?ring) = \<lparr>eg_source = x, eg_target = y, eg_success = passes f x y\<rparr>"
        "(x, y) \<in> ring_pairs nds" "\<not> passes f x y"
        using hd_in_set[OF failed(1)] by (auto simp: ring_probes_set)
      then obtain a b where f: "f = LinkFault a b" "(x, y) = (a, b) \<or> (x, y) = (b, a)"
        using node_ok by (auto simp: passes_def split: fault.splits)
      have "(a, b) \<in> ring_pairs nds" using f(2) p(2) ring_pairs_sym[OF assms(2)] by blast
      then show ?thesis using d p(1) f by auto
    qed
  qed
qed

subsection \<open>The tiers of a remediation\<close>


subsection \<open>Restarts are never forgotten\<close>

lemma healthy_names_nobody: "dc_healthy (triangulate ord local ring anchors) \<Longrightarrow> dc_node (triangulate ord local ring anchors) = []"
  by (auto simp: triangulate_def blame_def no_failure_def Let_def split: option.splits if_splits)

lemma connectivity_check_decides:
  assumes "connectivity_check A (s, m) spec = ((s1, m1), Inr c)" "mo_nodes A s = (s0, Inr nds)" "nds \<noteq> []"
  shows "\<exists>local ring anchors. let d = triangulate (mo_order A) local ring anchors in
    cy_decision m1 = Some d \<and> c = \<lparr>ck_signals = Some (decision_signals d), ck_error = None\<rparr> \<and>
    cy_attempts m1 = cy_attempts m \<and> cy_restarted m1 = cy_restarted m"
  using assms by (auto simp: connectivity_check_def Let_def split: prod.splits sum.splits intro!: exI)

lemma decision_signals_read:
  "bool_signal (decision_signals d) ''isHealthy'' = Some (dc_healthy d)"
  "string_signal (decision_signals d) ''status'' = type_text (dc_type d)"
  by (simp_all add: decision_signals_def bool_signal_def string_signal_def)

lemma type_text_unhealthy: "type_text t \<notin> {''healthy'', ''insufficient_pods'', ''no_nodes''}"
  by (cases t) (simp_all add: type_text_def)

text \<open>
  C39. The counters of restarts are never cleared while the cluster has nodes: a healthy verdict names no node, and it replaces the
  verdict that named one before the counters of the named node would be reset. So a node that recovers keeps its
  restarts, and a later, unrelated failure is escalated at once.
\<close>

theorem restarts_never_forgotten:
  assumes "connectivity_check A (s, m) spec = ((s1, m1), Inr c)" "mo_nodes A s = (s0, Inr nds)" "nds \<noteq> []"
    "connectivity_evaluate (s1, m1) (Some c) = ((s2, m2), r)"
  shows "cy_attempts m2 = cy_attempts m \<and> cy_restarted m2 = cy_restarted m"
proof -
  obtain local ring anchors d where d: "d = triangulate (mo_order A) local ring anchors" "cy_decision m1 = Some d"
    "c = \<lparr>ck_signals = Some (decision_signals d), ck_error = None\<rparr>" "cy_attempts m1 = cy_attempts m" "cy_restarted m1 = cy_restarted m"
    using connectivity_check_decides[OF assms(1-3)] by (auto simp: Let_def)
  have "dc_healthy d \<Longrightarrow> dc_node d = []" using healthy_names_nobody d(1) by blast
  then show ?thesis using assms(4) d(2-5) type_text_unhealthy[of "dc_type d"]
    by (auto simp: connectivity_evaluate_def signals_of_def decision_signals_read is_true_def Let_def split: if_splits)
qed

end
