(* ===== verification/Dns_Props.thy ===== *)
theory Dns_Props
  imports Core_Dns
begin

text \<open>
  What the CoreDNS module does: the repair of a Corefile puts the configured servers where the check looks, the action inferred from a
  reason is the one that the evaluation asks for; and what it does not: the repair keeps further corrupted servers on the line, and
  the cooldown is reported as health.
\<close>

subsection \<open>The repair of the forward directive\<close>

lemma dropWhile_not_all: "\<not> list_all P xs \<Longrightarrow> dropWhile P (xs @ ys) = dropWhile P xs @ ys"
  by (induction xs) auto

lemma dropWhile_all: "list_all P xs \<Longrightarrow> dropWhile P (xs @ ys) = dropWhile P ys"
  by (induction xs) auto

lemma takeWhile_stop: "\<not> P y \<Longrightarrow> takeWhile P (xs @ y # ys) = takeWhile P (xs @ [y])"
  by (induction xs) auto

lemma has_prefix_stop: "c \<notin> set p \<Longrightarrow> has_prefix p (xs @ c # ys) \<longleftrightarrow> has_prefix p xs"
  by (induction p xs rule: has_prefix.induct) auto

lemma newline_chars [simp]: "re_space newline" "\<not> target_char newline" "newline \<notin> set ''.''"
  by (simp_all add: re_space_def target_char_def newline_def Let_def)

definition forward_word :: string where "forward_word = ''forward''"

lemma forward_word [simp]:
  "newline \<notin> set forward_word" "length forward_word = 7" "drop 7 (forward_word @ ys) = ys"
  "dropWhile re_space (forward_word @ ys) = forward_word @ ys" "takeWhile target_char (forward_word @ ys) \<noteq> []"
  "\<not> has_prefix ''.'' (forward_word @ ys)"
  by (simp_all add: forward_word_def newline_def re_space_def target_char_def Let_def)

text \<open>The two parts of a directive after the word: white space, the dot, white space, the target.\<close>

definition after_word :: "string \<Rightarrow> (string \<times> string) option" where
  "after_word b =
     (let c = dropWhile re_space b in
      if c = b \<or> \<not> has_prefix ''.'' c then None
      else let d = drop 1 c; e = dropWhile re_space d in
        if e = d \<or> takeWhile target_char e = [] then None else Some (takeWhile target_char e, dropWhile target_char e))"

lemma match_forward_alt:
  "match_forward xs =
     (let a = dropWhile re_space xs in
      if \<not> has_prefix forward_word a then None
      else map_option (\<lambda>(t, rest). (take (length xs - length rest) xs, t, rest)) (after_word (drop 7 a)))"
  by (simp add: match_forward_def after_word_def forward_word_def Let_def)

lemma dropWhile_shorter: "dropWhile P xs \<noteq> y # xs"
  using length_dropWhile_le[of P xs] by (metis Suc_n_not_le_n length_Cons)

lemma after_word_stop:
  assumes "\<not> list_all re_space u"
  shows "after_word (u @ newline # W) = None \<longleftrightarrow>
    (let u' = dropWhile re_space u; v = tl u' in
     u' = u \<or> hd u' \<noteq> CHR ''.'' \<or>
     (if list_all re_space v then takeWhile target_char (dropWhile re_space W) = []
      else dropWhile re_space v = v \<or> takeWhile target_char (dropWhile re_space v @ [newline]) = []))"
proof -
  define u' where "u' = dropWhile re_space u"
  have c: "dropWhile re_space (u @ newline # W) = u' @ newline # W" using dropWhile_not_all[OF assms] by (simp add: u'_def)
  obtain x v where u': "u' = x # v" using assms unfolding u'_def by (cases "dropWhile re_space u") (auto simp: dropWhile_eq_Nil_conv list_all_iff)
  have e: "dropWhile re_space (v @ newline # W) = (if list_all re_space v then dropWhile re_space W else dropWhile re_space v @ newline # W)"
    by (simp add: dropWhile_all dropWhile_not_all)
  have longer: "dropWhile re_space W \<noteq> v @ newline # W"
    using length_dropWhile_le[of re_space W] by (auto dest: arg_cong[where f = length])
  have hd: "has_prefix ''.'' ((x # v) @ newline # W) \<longleftrightarrow> x = CHR ''.''" by auto
  have same: "(x # v) @ newline # W = u @ newline # W \<longleftrightarrow> x # v = u" by simp
  show ?thesis
  proof (cases "list_all re_space v")
    case True
    then have "after_word (u @ newline # W) = None \<longleftrightarrow> x # v = u \<or> x \<noteq> CHR ''.'' \<or> takeWhile target_char (dropWhile re_space W) = []"
      unfolding after_word_def Let_def c u' hd same using longer e by auto
    then show ?thesis unfolding Let_def u'_def[symmetric] u' using True by simp
  next
    case False
    then have "after_word (u @ newline # W) = None \<longleftrightarrow>
        x # v = u \<or> x \<noteq> CHR ''.'' \<or> dropWhile re_space v = v \<or> takeWhile target_char (dropWhile re_space v @ [newline]) = []"
      unfolding after_word_def Let_def c u' hd same using e takeWhile_stop[of target_char newline "dropWhile re_space v" W] by auto
    then show ?thesis unfolding Let_def u'_def[symmetric] u' using False by simp
  qed
qed

text \<open>Where a line ends before the directive, the matcher fails on the text before it whatever the directive is.\<close>

lemma after_word_transfer:
  assumes "list_all re_space ws" "after_word (u @ newline # ws @ forward_word @ ys) = None"
  shows "after_word (u @ newline # forward_word @ zs) = None"
proof (cases "list_all re_space u")
  case True
  have "dropWhile re_space (u @ newline # forward_word @ zs) = forward_word @ zs" using True by (simp add: dropWhile_all)
  then show ?thesis by (simp add: after_word_def Let_def)
next
  case False
  have "takeWhile target_char (dropWhile re_space (ws @ forward_word @ ys)) \<noteq> []" using assms(1) by (simp add: dropWhile_all)
  then show ?thesis using assms(2) unfolding after_word_stop[OF False] by (auto simp: Let_def split: if_splits)
qed

lemma match_transfer:
  assumes "list_all re_space ws" "a = p @ [newline]" "match_forward (a @ ws @ forward_word @ ys) = None"
    "match_forward (ws @ forward_word @ ys) \<noteq> None"
  shows "match_forward (a @ forward_word @ zs) = None"
proof -
  have all: "\<not> list_all re_space p"
  proof
    assume "list_all re_space p"
    then have "dropWhile re_space (a @ ws @ forward_word @ ys) = dropWhile re_space (ws @ forward_word @ ys)"
      by (simp add: assms(2) dropWhile_all)
    then show False using assms(3,4) by (simp add: match_forward_alt Let_def split: if_splits)
  qed
  define u where "u = dropWhile re_space p"
  have drop: "dropWhile re_space (a @ W) = u @ newline # W" for W
    unfolding assms(2) u_def using dropWhile_not_all[OF all, of "newline # W"] by simp
  have pre: "has_prefix forward_word (u @ newline # W) \<longleftrightarrow> has_prefix forward_word u" for W
    by (rule has_prefix_stop) simp
  show ?thesis
  proof (cases "has_prefix forward_word u")
    case False then show ?thesis by (simp only: match_forward_alt drop pre Let_def simp_thms if_True)
  next
    case True
    then obtain v where v: "u = forward_word @ v" by (auto simp: has_prefix_iff)
    have "drop 7 (u @ newline # W) = v @ newline # W" for W by (simp add: v)
    then show ?thesis using assms(3) after_word_transfer[OF assms(1), of v ys zs]
      by (simp add: match_forward_alt drop pre True Let_def)
  qed
qed

text \<open>A match is white space, the word, and a directive.\<close>

lemma match_forward_splits:
  assumes "match_forward xs = Some (m, t, rest)"
  shows "\<exists>ws ys. xs = ws @ forward_word @ ys \<and> list_all re_space ws"
proof -
  have "has_prefix forward_word (dropWhile re_space xs)" using assms by (simp add: match_forward_alt Let_def split: if_splits)
  then obtain ys where "dropWhile re_space xs = forward_word @ ys" by (auto simp: has_prefix_iff)
  then have "xs = takeWhile re_space xs @ forward_word @ ys" by (metis takeWhile_dropWhile_id)
  moreover have "list_all re_space (takeWhile re_space xs)" by (auto simp: list_all_iff dest: set_takeWhileD)
  ultimately show ?thesis by blast
qed

lemma find_forward_match: "match_forward xs = Some (m, t, rest) \<Longrightarrow> find_forward True xs = Some t"
  by (cases xs) (auto simp: match_forward_alt forward_word_def)

lemma find_forward_splits:
  assumes "find_forward bol xs = Some t"
  shows "\<exists>p ws ys rest m. xs = p @ ws @ forward_word @ ys \<and> list_all re_space ws \<and>
    match_forward (ws @ forward_word @ ys) = Some (m, t, rest) \<and>
    replace_forward r bol xs = p @ expand m t r @ replace_forward r False rest \<and>
    (p = [] \<and> bol \<or> (\<exists>q. p = q @ [newline]))"
  using assms
proof (induction xs arbitrary: bol)
  case (Cons x xs)
  show ?case
  proof (cases "if bol then match_forward (x # xs) else None")
    case (Some mm)
    then obtain m t' rest where m: "bol" "match_forward (x # xs) = Some (m, t', rest)" by (auto split: if_splits) (metis prod_cases3)
    obtain ws ys where ws: "x # xs = ws @ forward_word @ ys" "list_all re_space ws" using match_forward_splits[OF m(2)] by blast
    moreover have "t' = t" using Cons.prems m by simp
    moreover have "replace_forward r bol (x # xs) = expand m t' r @ replace_forward r False rest" using m by simp
    moreover have "match_forward (ws @ forward_word @ ys) = Some (m, t', rest)" using m(2) unfolding ws(1) .
    ultimately show ?thesis using m(1)
      by - (rule exI[of _ "[]"], rule exI[of _ ws], rule exI[of _ ys], rule exI[of _ rest], rule exI[of _ m], simp)
  next
    case None
    then have "find_forward (x = newline) xs = Some t" using Cons.prems by simp
    from Cons.IH[OF this] obtain p ws ys rest m where p: "xs = p @ ws @ forward_word @ ys" "list_all re_space ws"
      "match_forward (ws @ forward_word @ ys) = Some (m, t, rest)"
      "replace_forward r (x = newline) xs = p @ expand m t r @ replace_forward r False rest"
      "p = [] \<and> x = newline \<or> (\<exists>q. p = q @ [newline])" by blast
    have "replace_forward r bol (x # xs) = x # p @ expand m t r @ replace_forward r False rest" using None p(4) by simp
    moreover have "\<exists>q. x # p = q @ [newline]" using p(5) by auto
    ultimately show ?thesis using p(1-3) 
      by - (rule exI[of _ "x # p"], rule exI[of _ ws], rule exI[of _ ys], rule exI[of _ rest], rule exI[of _ m], simp)
  qed
qed simp

lemma find_after_replace:
  assumes "find_forward bol xs = Some t"
    and repl: "\<And>m t. expand m t r = forward_word @ d"
    and found: "\<And>rest. rest = [] \<or> \<not> target_char (hd rest) \<Longrightarrow> \<exists>m' rest'. match_forward (forward_word @ d @ rest) = Some (m', t', rest')"
  shows "find_forward bol (replace_forward r bol xs) = Some t'"
  using assms(1)
proof (induction xs arbitrary: bol)
  case (Cons x xs)
  show ?case
  proof (cases "if bol then match_forward (x # xs) else None")
    case (Some mm)
    then obtain m t'' rest where m: "bol" "match_forward (x # xs) = Some (m, t'', rest)" by (auto split: if_splits) (metis prod_cases3)
    have stop: "rest = [] \<or> \<not> target_char (hd rest)"
      using m(2) by (auto simp: match_forward_alt after_word_def Let_def hd_dropWhile split: if_splits)
    have "replace_forward r False rest = [] \<or> \<not> target_char (hd (replace_forward r False rest))" using stop by (cases rest) auto
    from found[OF this] have "find_forward True (forward_word @ d @ replace_forward r False rest) = Some t'"
      by (blast intro: find_forward_match)
    then show ?thesis using m by (simp add: repl)
  next
    case None
    then have later: "find_forward (x = newline) xs = Some t" using Cons.prems by simp
    obtain p ws ys rest m where p0: "xs = p @ ws @ forward_word @ ys \<and> list_all re_space ws \<and>
        match_forward (ws @ forward_word @ ys) = Some (m, t, rest) \<and>
        replace_forward r (x = newline) xs = p @ expand m t r @ replace_forward r False rest \<and>
        (p = [] \<and> x = newline \<or> (\<exists>q. p = q @ [newline]))"
      using find_forward_splits[OF later, of r] by (elim exE) (rule that)
    have p: "xs = p @ ws @ forward_word @ ys" "list_all re_space ws" "match_forward (ws @ forward_word @ ys) = Some (m, t, rest)"
      "replace_forward r (x = newline) xs = p @ expand m t r @ replace_forward r False rest"
      "p = [] \<and> x = newline \<or> (\<exists>q. p = q @ [newline])"
      by (intro p0[THEN conjunct1] p0[THEN conjunct2, THEN conjunct1] p0[THEN conjunct2, THEN conjunct2, THEN conjunct1]
        p0[THEN conjunct2, THEN conjunct2, THEN conjunct2, THEN conjunct1] p0[THEN conjunct2, THEN conjunct2, THEN conjunct2, THEN conjunct2])+
    obtain q where q: "x # p = q @ [newline]" using p(5) by auto
    have "match_forward (x # replace_forward r (x = newline) xs) = None" if "bol"
    proof -
      have fails: "match_forward ((x # p) @ ws @ forward_word @ ys) = None" using None that p(1) by simp
      have "match_forward (ws @ forward_word @ ys) \<noteq> None" unfolding p(3) by simp
      from match_transfer[OF p(2) q fails this] show ?thesis unfolding p(4) repl by (simp only: append.assoc append_Cons)
    qed
    then show ?thesis using None Cons.IH[OF later] by simp
  qed
qed simp

definition clean_server :: "string \<Rightarrow> bool" where
  "clean_server v \<longleftrightarrow> v \<noteq> [] \<and> list_all (\<lambda>c. target_char c \<and> c \<noteq> CHR ''$'') v"

lemma expand_plain: "CHR ''$'' \<notin> set r \<Longrightarrow> expand m t r = r"
  by (induction r) auto

lemma set_join: "set (join sep xs) \<subseteq> set sep \<union> \<Union> (set ` set xs)"
  by (induction sep xs rule: join.induct) auto


text \<open>
  The repair replaces only the first server of a directive. Here the second server of the line is corrupted as well: it stays in
  the repaired Corefile, and the check does not see it any more, as it reads only the first.
\<close>

definition two_bad_servers :: string where
  "two_bad_servers = ''.:53 {'' @ [newline] @ ''    forward . 192.0.2.1 192.0.2.2 {'' @ [newline]"

lemma repair_keeps_second_server:
  "corrupted_target ''192.0.2.2'' \<and>
   map_option corrupted_target (find_forward True two_bad_servers) = Some True \<and>
   repairCorefile [''8.8.8.8''] two_bad_servers = ''.:53 {'' @ [newline] @ ''forward . 8.8.8.8 192.0.2.2 {'' @ [newline] \<and>
   map_option corrupted_target (find_forward True (repairCorefile [''8.8.8.8''] two_bad_servers)) = Some False"
  by code_simp

subsection \<open>The inferred action\<close>

text \<open>A pattern without any character of a middle piece lies in front of it or behind it.\<close>

lemma contains_around:
  assumes "contains p (as @ ds @ bs)" "ds \<noteq> []" "set ds \<inter> set p = {}" "p \<noteq> []"
  shows "contains p as \<or> contains p bs"
proof -
  obtain us vs where u: "as @ ds @ bs = us @ p @ vs" using assms(1) by (auto simp: contains_iff)
  show ?thesis
  proof (cases "length us + length p \<le> length as")
    case True
    then have "us @ p = take (length us + length p) as"
      using arg_cong[OF u, of "take (length us + length p)"] by simp
    then show ?thesis by (metis append.assoc append_take_drop_id contains_iff)
  next
    case low: False
    show ?thesis
    proof (cases "length as + length ds \<le> length us")
      case True
      have "bs = drop (length as + length ds) us @ p @ vs"
        using arg_cong[OF u, of "drop (length as + length ds)"] True by simp
      then show ?thesis by (metis contains_iff)
    next
      case False
      define i where "i = max (length as) (length us)"
      have i: "length as \<le> i" "i < length as + length ds" "length us \<le> i" "i < length us + length p"
        using low False assms(2,4) by (auto simp: i_def)
      have "i - length as < length ds" using i(1,2) by linarith
      then have "(as @ ds @ bs) ! i \<in> set ds" using i(1) by (simp add: nth_append)
      moreover have "i - length us < length p" using i(3,4) by linarith
      then have "(as @ ds @ bs) ! i \<in> set p" unfolding u using i(3) by (simp add: nth_append)
      ultimately show ?thesis using assms(3) by blast
    qed
  qed
qed

text \<open>Numbers as texts: digits, a sign, a point.\<close>

definition number_char :: "char \<Rightarrow> bool" where
  "number_char c \<longleftrightarrow> digit_val c \<noteq> None \<or> c = CHR ''-'' \<or> c = CHR ''.''"

lemma dec_chars: "list_all number_char (dec n)"
  using set_dec by (auto simp: list_all_iff number_char_def)

lemma int_text_chars: "list_all number_char (int_text i) \<and> int_text i \<noteq> []"
  using dec_chars by (simp add: int_text_def number_char_def)

lemma fixed_text_chars: "list_all number_char (fixed_text k x) \<and> fixed_text k x \<noteq> []"
proof -
  have "number_char (CHR ''0'')" "number_char (CHR ''.'')" by (simp_all add: number_char_def digit_val_def)
  then show ?thesis using dec_chars by (auto simp: fixed_text_def Let_def list_all_iff set_replicate_conv_if)
qed

lemma lower_number: "number_char c \<Longrightarrow> lower_char c = c"
  by (auto simp: number_char_def lower_char_def digit_val_def Let_def split: if_splits)

lemma to_lower_number: "list_all number_char xs \<Longrightarrow> to_lower xs = xs"
  by (induction xs) (simp_all add: to_lower_def lower_number)

definition wordy :: "string \<Rightarrow> bool" where
  "wordy p \<longleftrightarrow> p \<noteq> [] \<and> list_all (\<lambda>c. \<not> number_char c \<and> c \<noteq> CHR 0x27) p"

lemma contains_around_number:
  assumes "wordy p" "list_all number_char ds" "ds \<noteq> []" "contains p (as @ ds @ bs)"
  shows "contains p as \<or> contains p bs"
  using assms(1,2) by (intro contains_around[OF assms(4,3)]) (auto simp: wordy_def list_all_iff)

lemma contains_around_quote:
  assumes "wordy p" "contains p (as @ CHR 0x27 # bs)"
  shows "contains p as \<or> contains p bs"
  using contains_around[of p as "[CHR 0x27]" bs] assms by (auto simp: wordy_def list_all_iff)

text \<open>The patterns of the fallback mapper.\<close>

definition scale_words :: "string list" where
  "scale_words = [''available replicas'', ''0 available replicas'', ''replicas'']"

definition repair_words :: "string list" where
  "repair_words = [''upstream resolver corrupted'', ''forward directive'']"

lemma wordy_words: "wordy ''replicas''" "wordy ''available replicas''" "wordy ''upstream resolver corrupted''" "wordy ''forward directive''"
  "wordy ''throttled''" "wordy ''latency''"
  by (simp_all add: wordy_def number_char_def digit_val_def Let_def)

lemma contains_suffix: "contains (q @ p) xs \<Longrightarrow> contains p xs"
  unfolding contains_iff by (metis append.assoc)

lemma contains_replicas: "contains ''0 available replicas'' xs \<or> contains ''available replicas'' xs \<longrightarrow> contains ''replicas'' xs"
  using contains_suffix[of "''available ''" "''replicas''" xs] contains_suffix[of "''0 available ''" "''replicas''" xs] by simp

lemma infer_alt:
  "inferActionFromReason reason =
     (let lower = to_lower reason in
      if contains ''replicas'' lower then actionScaleReplicas
      else if contains ''upstream resolver corrupted'' lower \<or> contains ''forward directive'' lower then actionRepairConfigMap
      else if contains ''throttled'' lower \<or> contains ''latency'' lower then actionRestoreResources
      else if contains ''crashlooping'' lower then actionRestartDeployment else [])"
  using contains_replicas[of "to_lower reason"] by (auto simp: inferActionFromReason_def Let_def)

lemma infer_scale:
  "inferActionFromReason (''CoreDNS deployment has 0 available replicas (expected '' @ xs) = actionScaleReplicas"
proof -
  have "contains ''replicas'' (to_lower ''CoreDNS deployment has 0 available replicas (expected '')" by code_simp
  then have "contains ''replicas'' (to_lower (''CoreDNS deployment has 0 available replicas (expected '' @ xs))"
    unfolding to_lower_append by (intro contains_append disjI1)
  then show ?thesis unfolding infer_alt Let_def by (simp only: if_True)
qed

lemma infer_repair:
  assumes "\<not> contains ''replicas'' (to_lower t)"
  shows "inferActionFromReason (''CoreDNS upstream resolver corrupted (forward directive points to unreachable '' @ [CHR 0x27] @ t @ [CHR 0x27] @
     ''); external DNS lookups failing'') = actionRepairConfigMap"
proof -
  let ?a = "''CoreDNS upstream resolver corrupted (forward directive points to unreachable ''" and ?b = "''); external DNS lookups failing''"
  have lowered: "to_lower (?a @ [CHR 0x27] @ t @ [CHR 0x27] @ ?b) = to_lower ?a @ CHR 0x27 # (to_lower t @ CHR 0x27 # to_lower ?b)"
    by (simp add: to_lower_def lower_char_def Let_def)
  have "\<not> contains ''replicas'' (to_lower ?a)" "\<not> contains ''replicas'' (to_lower ?b)" "contains ''upstream resolver corrupted'' (to_lower ?a)"
    by code_simp+
  then have "\<not> contains ''replicas'' (to_lower (?a @ [CHR 0x27] @ t @ [CHR 0x27] @ ?b))"
    "contains ''upstream resolver corrupted'' (to_lower (?a @ [CHR 0x27] @ t @ [CHR 0x27] @ ?b))"
    unfolding lowered using assms contains_around_quote[OF wordy_words(1)] contains_append by blast+
  then show ?thesis unfolding infer_alt Let_def by (simp only: if_True if_False simp_thms)
qed

lemma infer_latency:
  assumes "list_all number_char n \<and> n \<noteq> []" "list_all number_char k \<and> k \<noteq> []"
  shows "inferActionFromReason (''Prometheus metric query detected DNS latency ('' @ n @ '' ms) exceeding threshold ('' @ k @ '' ms)'') =
     actionRestoreResources"
proof -
  let ?a = "''Prometheus metric query detected DNS latency (''" and ?b = "'' ms) exceeding threshold (''" and ?c = "'' ms)''"
  have lowered: "to_lower (?a @ n @ ?b @ k @ ?c) = to_lower ?a @ n @ to_lower ?b @ k @ to_lower ?c"
    using assms by (simp only: to_lower_append to_lower_number)
  have no: "\<not> contains w (to_lower (?a @ n @ ?b @ k @ ?c))"
    if "wordy w" "\<not> contains w (to_lower ?a)" "\<not> contains w (to_lower ?b)" "\<not> contains w (to_lower ?c)" for w
    unfolding lowered using that assms contains_around_number[OF that(1)] by blast
  have "\<not> contains ''replicas'' (to_lower (?a @ n @ ?b @ k @ ?c))" by (rule no[OF wordy_words(1)]; code_simp)
  moreover have "\<not> contains ''upstream resolver corrupted'' (to_lower (?a @ n @ ?b @ k @ ?c))" by (rule no[OF wordy_words(3)]; code_simp)
  moreover have "\<not> contains ''forward directive'' (to_lower (?a @ n @ ?b @ k @ ?c))" by (rule no[OF wordy_words(4)]; code_simp)
  moreover have "contains ''latency'' (to_lower ?a)" by code_simp
  then have "contains ''latency'' (to_lower (?a @ n @ ?b @ k @ ?c))" unfolding lowered by (intro contains_append disjI1)
  ultimately show ?thesis unfolding infer_alt Let_def by (simp only: if_True if_False simp_thms)
qed

lemma infer_restart:
  assumes "list_all number_char n \<and> n \<noteq> []"
  shows "inferActionFromReason (n @ '' CoreDNS pod(s) are crashlooping'') = actionRestartDeployment"
proof -
  let ?a = "'' CoreDNS pod(s) are crashlooping''"
  have lowered: "to_lower (n @ ?a) = [] @ n @ to_lower ?a" using assms by (simp only: to_lower_append to_lower_number append_Nil)
  have no: "\<not> contains w (to_lower (n @ ?a))" if "wordy w" "\<not> contains w (to_lower ?a)" for w
    unfolding lowered using that assms contains_around_number[OF that(1), of n "[]"] by (auto simp: wordy_def)
  have "\<not> contains ''replicas'' (to_lower (n @ ?a))" by (rule no[OF wordy_words(1)]; code_simp)
  moreover have "\<not> contains ''upstream resolver corrupted'' (to_lower (n @ ?a))" by (rule no[OF wordy_words(3)]; code_simp)
  moreover have "\<not> contains ''forward directive'' (to_lower (n @ ?a))" by (rule no[OF wordy_words(4)]; code_simp)
  moreover have "\<not> contains ''throttled'' (to_lower (n @ ?a))" by (rule no[OF wordy_words(5)]; code_simp)
  moreover have "\<not> contains ''latency'' (to_lower (n @ ?a))" by (rule no[OF wordy_words(6)]; code_simp)
  moreover have "contains ''crashlooping'' (to_lower ?a)" by code_simp
  then have "contains ''crashlooping'' (to_lower (n @ ?a))" unfolding to_lower_append by (intro contains_append disjI2)
  ultimately show ?thesis unfolding infer_alt Let_def by (simp only: if_True if_False simp_thms)
qed

lemma infer_throttled:
  "inferActionFromReason ''CoreDNS deployment CPU is severely throttled (<= 5m CPU request/limit), causing DNS latency spikes'' = actionRestoreResources"
  by code_simp

definition infers :: "eval_result \<Rightarrow> bool" where
  "infers e \<longleftrightarrow> (er_needs e \<longrightarrow> inferActionFromReason (er_reason e) = er_action e)"

lemma infers_if: "(c \<Longrightarrow> infers a) \<Longrightarrow> (\<not> c \<Longrightarrow> infers b) \<Longrightarrow> infers (if c then a else b)"
  by simp

lemma infers_act: "inferActionFromReason r = a \<Longrightarrow> infers (act n r s a d)"
  by (simp add: infers_def act_def)

lemma infers_simple: "infers (simple_eval h False r s)"
  by (simp add: infers_def simple_eval_def)


subsection \<open>A cooldown is reported as health\<close>

text \<open>
  While the cooldown of the module lasts, a CoreDNS that the evaluation finds broken and in need of a remediation is
  reported as healthy: nothing is done, the module's status says healthy and remediated, and the pass counts it as healthy.
\<close>

lemma cooldown_reported_as_health:
  assumes "rg_module reg = coredns_module A" "rg_enabled reg (nr_spec nr)"
    "coredns_check A (s, m) (nr_spec nr) = ((s1, m1), Inr c)" "coredns_evaluate (s1, m1) (Some c) = ((s2, m2), Inr e)"
    "\<not> er_healthy e" "er_needs e" "dn_remediated m2 = Some t" "mo_now A s2 - t < 30 * second"
  shows "\<exists>ms. reconcileModule E (s, m) nr reg = ((s2, m2), set_status reg ms nr, True) \<and> ms_healthy ms \<and> ms_enabled ms"
proof -
  obtain msg where r: "coredns_remediate A (s2, m2) (Some e) = ((s2, m2), result msg True, None)"
    using assms(7,8) by (simp add: coredns_remediate_def Let_def)
  show ?thesis
    using assms(1-6) r by (auto simp: reconcileModule_def coredns_module_def result_def Let_def intro!: exI)
qed

end
