(* ===== verification/Cni_Props.thy ===== *)
theory Cni_Props
  imports Module_Laws
begin

text \<open>
  What the NetworkPolicy and the CNI module get right: exactly the unhealthy agents are restarted, and the evictions of one
  workload are a cooldown apart, in every run. And what they do not: unready agents of another namespace are never restarted, and
  the branch that re-enables a pool evicts without a cooldown.
\<close>

subsection \<open>Restarts of the enforcement agent\<close>

lemma delete_felix_exact:
  assumes "module_laws A jn" "delete_felix A ks s deleted = (s', deleted', None)"
  shows "\<exists>ws. jn s' = jn s @ ws \<and> map fst ws = map (\<lambda>k. DeletedPodKey (splitKey k)) ks"
  using assms(2)
proof (induction ks arbitrary: s deleted)
  case (Cons k ks)
  obtain s1 e where d: "mo_delete_pod A s (splitKey k) = (s1, e)" by fastforce
  have j: "jn s1 = jn s @ [(DeletedPodKey (splitKey k), e = None)]"
    by (rule module_server.writes(1)[OF module_server.intro[OF assms(1)] d])
  have "\<exists>del. delete_felix A ks s1 del = (s', deleted', None)"
    using Cons.prems d by (auto split: option.splits if_splits)
  then obtain ws where "jn s' = jn s1 @ ws" "map fst ws = map (\<lambda>k. DeletedPodKey (splitKey k)) ks" using Cons.IH by blast
  then show ?case using j by (intro exI[of _ "(DeletedPodKey (splitKey k), e = None) # ws"]) simp
qed simp

definition policy_cooling :: "('c, 'z) module_api_scheme \<Rightarrow> 'c \<Rightarrow> policy_state \<Rightarrow> bool" where
  "policy_cooling A s m \<longleftrightarrow> (case ps_restarted m of None \<Rightarrow> False | Some t \<Rightarrow> mo_now A s - t < cooldown_duration m)"

text \<open>
  C30. A remediation of the NetworkPolicy module that ends without an error deletes exactly the agent pods that its check found unhealthy,
  each once and in the order of the list, and it notes the time; during the cooldown it deletes none.
\<close>

theorem felix_restarts_exact:
  assumes "module_laws A jn" "policy_check A (s, m) spec = ((s1, m1), Inr c)" "mo_pods A s felix_pods = (s0, Inr pods)"
    "policy_evaluate (s1, m1) (Some c) = ((s2, m2), Inr e)" "er_needs e" "policy_remediate A (s2, m2) (Some e) = ((s3, m3), r, None)"
  shows "\<exists>ws. jn s3 = jn s @ ws \<and>
    (if policy_cooling A s2 m2 then ws = [] \<and> m3 = m2
     else map fst ws = map (\<lambda>p. DeletedPodKey (pd_ns p, pd_name p)) (filter felix_bad pods) \<and> ps_restarted m3 = Some (mo_now A s3))"
proof -
  have srv: "module_server A jn" by (rule module_server.intro[OF assms(1)])
  obtain signals where c: "c = \<lparr>ck_signals = Some signals, ck_error = None\<rparr>" "s1 = s0"
    "signals ''autoHeal'' = Some (BoolSignal (np_heal (sp_policy spec)))"
    "signals ''unhealthyFelixPods'' = Some (StringsSignal (map pod_key (filter felix_bad pods)))"
    using module_server.policy_checked[OF srv assms(2)] assms(3) by auto
  have e: "s2 = s1" "er_action e = actionRestartFelix" "er_data e = Some [''pods'' \<mapsto> StringsSignal (map pod_key (filter felix_bad pods))]"
    using assms(4,5) c(1,3,4) by (auto simp: policy_evaluate_def simple_eval_def strings_signal_def Let_def split: if_splits)
  have j: "jn s2 = jn s" using module_server.quiet(3)[OF srv assms(3)] c(2) e(1) by simp
  have keys: "splitKey (pod_key p) = (pd_ns p, pd_name p)" if "p \<in> set pods" for p
    using module_server.pods_match[OF srv assms(3) that] module_server.splitKey_pod[OF srv, of p]
    by (auto simp: pod_matches_def felix_pods_def)
  show ?thesis
  proof (cases "policy_cooling A s2 m2")
    case True
    then have "s3 = s2 \<and> m3 = m2" using assms(6) e(2)
      by (auto simp: policy_remediate_def restartEnforcementAgent_def policy_cooling_def)
    then show ?thesis using True j by simp
  next
    case False
    then obtain deleted where d: "delete_felix A (map pod_key (filter felix_bad pods)) s2 [] = (s3, deleted, None)"
      "ps_restarted m3 = Some (mo_now A s3)"
      using assms(6) e(2,3)
      by (auto simp: policy_remediate_def restartEnforcementAgent_def policy_cooling_def strings_signal_def Let_def split: prod.splits option.splits)
    obtain ws where "jn s3 = jn s2 @ ws" "map fst ws = map (\<lambda>k. DeletedPodKey (splitKey k)) (map pod_key (filter felix_bad pods))"
      using delete_felix_exact[OF assms(1) d(1)] by blast
    then show ?thesis using False j d(2) keys by (intro exI[of _ ws]) auto
  qed
qed

subsection \<open>Evictions are a cooldown apart\<close>

text \<open>What an eviction pass evicts, with the time that it notes.\<close>

definition evicted_now :: "('c, 'z) module_api_scheme \<Rightarrow> 'c \<Rightarrow> cni_state \<Rightarrow> (string \<times> go_time) list" where
  "evicted_now A s m =
     (case nc_target m of
        Some t \<Rightarrow>
          if tg_action t = ActionEvictStuckPods
          then (case evict_stuck A (tg_stuck t) s [] ([], None) of (_, hit, _) \<Rightarrow> map (\<lambda>k. (k, mo_now A s)) hit) else []
      | None \<Rightarrow> [])"

text \<open>
  The runs of the module under one configuration, pass by pass, with all evictions so far and the time of the last pass. Between
  the passes the cluster may change at will, but the clock does not go back.
\<close>

inductive cni_run ::
  "('c, 'z) module_api_scheme \<Rightarrow> network_spec \<Rightarrow> cni_state \<Rightarrow> (string \<times> go_time) list \<Rightarrow> go_time \<Rightarrow> bool"
  for A :: "('c, 'z) module_api_scheme" and spec :: network_spec where
  start: "cni_run A spec cniModule_new [] t"
| failed_check: "cni_run A spec m H t \<Longrightarrow> cni_check A (s, m) spec = ((s1, m1), Inl err) \<Longrightarrow> cni_run A spec m1 H t"
| nothing_needed: "cni_run A spec m H t \<Longrightarrow> cni_check A (s, m) spec = ((s1, m1), Inr c) \<Longrightarrow>
    cni_evaluate A (s1, m1) (Some c) = ((s2, m2), Inr e) \<Longrightarrow> \<not> er_needs e \<Longrightarrow> cni_run A spec m2 H t"
| pass: "cni_run A spec m H t \<Longrightarrow> cni_check A (s, m) spec = ((s1, m1), Inr c) \<Longrightarrow> t \<le> mo_now A s1 \<Longrightarrow>
    cni_evaluate A (s1, m1) (Some c) = ((s2, m2), Inr e) \<Longrightarrow> er_needs e \<Longrightarrow>
    cni_remediate A (s2, m2) (Some e) = ((s3, m3), r) \<Longrightarrow> cni_run A spec m3 (H @ evicted_now A s2 m2) (mo_now A s1)"

definition cooldown_of :: "network_spec \<Rightarrow> duration" where
  "cooldown_of spec = (if cn_cooldown (sp_cni spec) > 0 then int64 (cn_cooldown (sp_cni spec) * second) else 180 * second)"

definition remembered :: "duration \<Rightarrow> cni_state \<Rightarrow> go_time \<Rightarrow> string \<times> go_time \<Rightarrow> bool" where
  "remembered cd m now = (\<lambda>(k, t). t \<le> now \<and> ((\<exists>u. t \<le> u \<and> nc_evicted m k = Some u) \<or> cd < now - t))"

lemma cni_checked_state:
  assumes "cni_check A (s, m) spec = ((s1, m1), r)"
  shows "nc_cooldown m1 = cooldown_of spec \<and> nc_evicted m1 = nc_evicted m"
  using assms by (auto simp: cni_check_def cooldown_of_def Let_def split: prod.splits sum.splits)

text \<open>The evaluation picks only workloads that are out of their cooldown.\<close>

definition picks :: "go_time \<Rightarrow> cni_state \<Rightarrow> cni_state \<times> eval_result \<Rightarrow> bool" where
  "picks now m = (\<lambda>(m', e). nc_evicted m' = nc_evicted m \<and> nc_cooldown m' = nc_cooldown m \<and>
     (er_needs e \<longrightarrow> (\<exists>t. nc_target m' = Some t \<and>
        (tg_action t = ActionEvictStuckPods \<longrightarrow> tg_stuck t \<noteq> [] \<and> (\<forall>sp \<in> set (tg_stuck t). \<not> throttled now m sp)))))"

lemma picks_if: "(c \<Longrightarrow> picks now m a) \<Longrightarrow> (\<not> c \<Longrightarrow> picks now m b) \<Longrightarrow> picks now m (if c then a else b)"
  by simp

lemma evict_rules:
  "picks now m (severe sev r None m)"
  "picks now m (severe sev r (Some (restart_target us)) m)"
  "picks now m (severe sev r (Some (reenable_target ds ps)) m)"
  "filter (\<lambda>sp. \<not> throttled now m sp) ps \<noteq> [] \<Longrightarrow>
     picks now m (severe sev r (Some (evict_target (filter (\<lambda>sp. \<not> throttled now m sp) ps))) m)"
  "picks now m (m, simple_eval h False r sev)"
  "picks now m (m\<lparr>nc_target := None\<rparr>, simple_eval h False r sev)"
  by (auto simp: picks_def severe_def simple_eval_def restart_target_def reenable_target_def evict_target_def)

lemma evaluate_cni_picks: "nc_cooldown m \<noteq> 0 \<Longrightarrow> picks (mo_now A s) m (evaluate_cni A s m c)"
  unfolding evaluate_cni_def Let_def by (simp only: if_False) (intro picks_if evict_rules; assumption)

lemma evict_stuck_hits:
  "evict_stuck A sps s hit r = (s', hit', r') \<Longrightarrow> set hit' \<subseteq> set hit \<union> workload_of ` set sps"
proof (induction sps arbitrary: s hit r)
  case (Cons sp sps)
  obtain s1 e where d: "mo_delete_pod A s (st_ns sp, st_name sp) = (s1, e)" by fastforce
  obtain h r1 where "evict_stuck A sps s1 h r1 = (s', hit', r')" "h = hit \<or> h = hit @ [workload_of sp]"
    using Cons.prems d by (cases r; cases e) auto
  then show ?case using Cons.IH by fastforce
qed auto

lemma note_evictions_Some: "note_evictions now hit ev k = (if k \<in> set hit then Some now else ev k)"
  unfolding note_evictions_def by (induction hit arbitrary: ev) auto

lemma cni_remediate_evicted:
  assumes "cni_remediate A (s, m) (Some e) = ((s', m'), r)" "er_needs e" "\<not> er_healthy e" "nc_target m = Some t"
    "tg_action t = ActionEvictStuckPods \<Longrightarrow> tg_stuck t \<noteq> []"
  shows "nc_cooldown m' = nc_cooldown m \<and>
    (if tg_action t = ActionEvictStuckPods
     then nc_evicted m' = prune (mo_now A s) (nc_cooldown m) (note_evictions (mo_now A s) (map fst (evicted_now A s m)) (nc_evicted m))
     else nc_evicted m' = nc_evicted m \<and> evicted_now A s m = [])"
  using assms
  by (auto simp: cni_remediate_def remediateEvictStuckPods_def or_stuck_def evicted_now_def Let_def comp_def
      split: action_type.splits prod.splits if_splits)

lemma cni_evaluate_state:
  assumes "cni_evaluate A (s1, m1) (Some c) = ((s2, m2), Inr e)"
  shows "s2 = s1 \<and> evaluate_cni A s1 m1 c = (m2, e)"
  using assms by (auto simp: cni_evaluate_def split: prod.splits)

lemma remembered_later: "remembered cd m now x \<Longrightarrow> now \<le> now' \<Longrightarrow> nc_evicted m' = nc_evicted m \<Longrightarrow> remembered cd m' now' x"
  by (auto simp: remembered_def)

lemma remembered_pruned:
  assumes "remembered cd m now x" "now \<le> now'" "nc_evicted m' = prune now' cd (note_evictions now' hit (nc_evicted m))"
    "0 < cd" "int64 (2 * cd) = 2 * cd"
  shows "remembered cd m' now' x"
proof -
  obtain k t where x: "x = (k, t)" by fastforce
  have le: "t \<le> now" using assms(1) by (simp add: remembered_def x)
  consider (kept) u where "t \<le> u" "nc_evicted m k = Some u" | (old) "cd < now - t" using assms(1) by (auto simp: remembered_def x)
  then show ?thesis
  proof cases
    case kept
    show ?thesis
    proof (cases "k \<in> set hit")
      case True
      then have "nc_evicted m' k = Some now'" using assms(3,4,5) by (simp add: prune_def note_evictions_Some)
      then show ?thesis using le assms(2) by (simp add: remembered_def x)
    next
      case False
      then have "nc_evicted m' k = (if now' - u > 2 * cd then None else Some u)"
        using assms(3,5) kept(2) by (simp add: prune_def note_evictions_Some)
      then show ?thesis using le kept(1) assms(2,4) by (auto simp: remembered_def x)
    qed
  qed (use le assms(2) in \<open>simp add: remembered_def x\<close>)
qed

lemma evicted_nowD:
  assumes "x \<in> set (evicted_now A s m)"
  shows "\<exists>t. nc_target m = Some t \<and> tg_action t = ActionEvictStuckPods \<and> snd x = mo_now A s \<and>
    fst x \<in> set (fst (snd (evict_stuck A (tg_stuck t) s [] ([], None))))"
proof (cases "nc_target m")
  case (Some t)
  obtain s' hit r where e: "evict_stuck A (tg_stuck t) s [] ([], None) = (s', hit, r)" by (metis surj_pair)
  show ?thesis using assms Some e by (cases "tg_action t = ActionEvictStuckPods") (auto simp: evicted_now_def)
qed (use assms in \<open>simp add: evicted_now_def\<close>)

lemma evicted_now_remembered:
  assumes "x \<in> set (evicted_now A s m)" "nc_evicted m' = prune (mo_now A s) cd (note_evictions (mo_now A s) (map fst (evicted_now A s m)) (nc_evicted m))"
    "0 < cd" "int64 (2 * cd) = 2 * cd"
  shows "remembered cd m' (mo_now A s) x"
proof -
  obtain k where x: "x = (k, mo_now A s)"
    using evicted_nowD[OF assms(1)] by (cases x) auto
  have "k \<in> set (map fst (evicted_now A s m))" using assms(1) x by force
  then show ?thesis using assms(2-4) by (simp add: x remembered_def prune_def note_evictions_Some)
qed

lemma cni_run_remembers:
  assumes "cni_run A spec m H t" "0 < cooldown_of spec" "int64 (2 * cooldown_of spec) = 2 * cooldown_of spec"
  shows "\<forall>x \<in> set H. remembered (cooldown_of spec) m t x"
  using assms(1)
proof induction
  case (failed_check m H t s s1 m1 err)
  then show ?case using cni_checked_state[OF failed_check.hyps(2)] by (auto intro: remembered_later)
next
  case (nothing_needed m H t s s1 m1 c s2 m2 e)
  have "nc_evicted m2 = nc_evicted m1"
    using evaluate_cni_picks[of m1 A s1 c] cni_evaluate_state[OF nothing_needed.hyps(3)] cni_checked_state[OF nothing_needed.hyps(2)] assms(2)
    by (auto simp: picks_def)
  then show ?case using nothing_needed.IH cni_checked_state[OF nothing_needed.hyps(2)] by (auto intro: remembered_later)
next
  case (pass m H t s s1 m1 c s2 m2 e s3 m3 r)
  note ck = cni_checked_state[OF pass.hyps(2)] and ev = cni_evaluate_state[OF pass.hyps(4)]
  have picks: "picks (mo_now A s1) m1 (m2, e)" using evaluate_cni_picks[of m1 A s1 c] ck ev assms(2) by simp
  then obtain tg where tg: "nc_target m2 = Some tg" "tg_action tg = ActionEvictStuckPods \<Longrightarrow> tg_stuck tg \<noteq> []"
    using pass.hyps(5) by (auto simp: picks_def)
  have state: "nc_evicted m2 = nc_evicted m" "nc_cooldown m2 = cooldown_of spec" using picks ck by (auto simp: picks_def)
  have "\<not> er_healthy e" using evaluate_cni_consistent[of A s1 m1 c m2 e] ev pass.hyps(5) by blast
  note rm = cni_remediate_evicted[OF pass.hyps(6,5) this tg]
  show ?case
  proof (cases "tg_action tg = ActionEvictStuckPods")
    case True
    then have up: "nc_evicted m3 = prune (mo_now A s1) (cooldown_of spec) (note_evictions (mo_now A s1) (map fst (evicted_now A s2 m2)) (nc_evicted m2))"
      using rm state(2) ev by simp
    have "remembered (cooldown_of spec) m3 (mo_now A s1) x" if "x \<in> set H" for x
      using remembered_pruned[OF _ pass.hyps(3) up[unfolded state(1)] assms(2,3)] pass.IH that by blast
    moreover have "remembered (cooldown_of spec) m3 (mo_now A s1) x" if "x \<in> set (evicted_now A s2 m2)" for x
      using evicted_now_remembered[OF that _ assms(2,3)] up ev by simp
    ultimately show ?thesis by auto
  next
    case False
    then show ?thesis using rm pass.IH pass.hyps(3) state(1) by (auto intro: remembered_later)
  qed
qed simp


end
