(* ===== verification/Module_Examples.thy ===== *)
theory Module_Examples
  imports Operator Connectivity_Props Dns_Props Cni_Props
begin

text \<open>
  A concrete cluster for the remediation modules: objects in lists, a clock, the pairs of pod and address whose ping fails, and the
  journal. It satisfies the laws, so every contract is interpreted on it; the examples and witnesses run the operator on it.
\<close>

record module_world =
  mw_time :: go_time
  mw_nodes :: "k_node list"
  mw_pods :: "pod list"
  mw_deployment :: "deployment option"
  mw_config :: "config_map option"
  mw_daemon_sets :: "((string \<times> string) \<times> daemon_set) list"
  mw_events :: "event list"
  mw_pools :: "ip_pool list"
  mw_pools_locked :: bool
  mw_blocks :: "ipam_block list"
  mw_latency :: "rat option"
  mw_dead :: "(string \<times> string) list"
  mw_resource :: network_remediation
  mw_journal :: "module_entry list"

definition mnote :: "module_write \<Rightarrow> bool \<Rightarrow> module_world \<Rightarrow> module_world" where
  "mnote w ok mw = mw\<lparr>mw_journal := mw_journal mw @ [(w, ok)]\<rparr>"

definition answer :: "'a option \<Rightarrow> api_error + 'a" where
  "answer x = (case x of None \<Rightarrow> Inl NotFound | Some y \<Rightarrow> Inr y)"

definition world_delete :: "module_world \<Rightarrow> string \<times> string \<Rightarrow> module_world \<times> api_error option" where
  "world_delete mw k =
     (if list_ex (\<lambda>p. (pd_ns p, pd_name p) = k) (mw_pods mw)
      then (mnote (DeletedPodKey k) True (mw\<lparr>mw_pods := filter (\<lambda>p. (pd_ns p, pd_name p) \<noteq> k) (mw_pods mw)\<rparr>), None)
      else (mnote (DeletedPodKey k) False mw, Some NotFound))"

definition world_patch_pool :: "module_world \<Rightarrow> ip_pool \<Rightarrow> module_world \<times> api_error option" where
  "world_patch_pool mw p =
     (if mw_pools_locked mw then (mnote (PatchedPool p) False mw, Some ApiFailed)
      else (mnote (PatchedPool p) True (mw\<lparr>mw_pools := map (\<lambda>q. if ipp_name q = ipp_name p then p else q) (mw_pools mw)\<rparr>), None))"

definition world_api :: "module_world nr_api" where
  "world_api = \<lparr>
     mo_now = mw_time,
     mo_sleep = (\<lambda>mw d. mw\<lparr>mw_time := mw_time mw + d\<rparr>),
     mo_nodes = (\<lambda>mw. (mw, Inr (mw_nodes mw))),
     mo_get_node = (\<lambda>mw n. (mw, answer (find (\<lambda>x. kn_name x = n) (mw_nodes mw)))),
     mo_patch_node = (\<lambda>mw nd. (mnote (PatchedNode nd) True (mw\<lparr>mw_nodes := map (\<lambda>x. if kn_name x = kn_name nd then nd else x) (mw_nodes mw)\<rparr>), None)),
     mo_pods = (\<lambda>mw opt. (mw, Inr (filter (pod_matches opt) (mw_pods mw)))),
     mo_delete_pod = world_delete,
     mo_ping = (\<lambda>mw q. (mw, (pd_name (fst q), snd q) \<notin> set (mw_dead mw))),
     mo_get_deployment = (\<lambda>mw k. (mw, answer (mw_deployment mw))),
     mo_update_deployment = (\<lambda>mw d. (mnote (UpdatedDeployment d) True (mw\<lparr>mw_deployment := Some d\<rparr>), None)),
     mo_get_config_map = (\<lambda>mw k. (mw, answer (mw_config mw))),
     mo_update_config_map = (\<lambda>mw c. (mnote (UpdatedConfigMap c) True (mw\<lparr>mw_config := Some c\<rparr>), None)),
     mo_fetch_metric = (\<lambda>mw u. (mw, mw_latency mw)),
     mo_get_daemon_set = (\<lambda>mw k. (mw, answer (map_of (mw_daemon_sets mw) k))),
     mo_events = (\<lambda>mw n. (mw, Inr (filter (\<lambda>e. ev_ns e = n) (mw_events mw)))),
     mo_pools = (\<lambda>mw. (mw, Inr (mw_pools mw))),
     mo_get_pool = (\<lambda>mw n. (mw, answer (find (\<lambda>p. ipp_name p = n) (mw_pools mw)))),
     mo_patch_pool = world_patch_pool,
     mo_blocks = (\<lambda>mw. (mw, Inr (mw_blocks mw))),
     mo_error_text = (\<lambda>e. ''api error''),
     mo_field_error = ''field error'',
     mo_timestamp = int_text,
     mo_order = id,
     na_get = (\<lambda>mw n. (mw, if nr_name (mw_resource mw) = n then Inr (mw_resource mw) else Inl NotFound)),
     na_update_status = (\<lambda>mw nr. (mw\<lparr>mw_resource := nr\<rparr>, None))\<rparr>"

lemma world_lawful: "module_laws world_api mw_journal"
  unfolding module_laws_def silent_def logged_def world_api_def
  by (auto simp: mnote_def world_delete_def world_patch_pool_def answer_def list_all_iff split: option.splits dest!: find_SomeD)

interpretation world: operator_server world_api mw_journal
  by unfold_locales (simp_all add: world_lawful silent_def, simp_all add: world_api_def)

subsection \<open>Three nodes, one of them dead\<close>

definition mk_pod :: "string \<Rightarrow> string \<Rightarrow> string \<Rightarrow> string \<Rightarrow> pod" where
  "mk_pod ns name node ip = \<lparr>pd_ns = ns, pd_name = name, pd_uid = name, pd_node = node, pd_ip = ip, pd_phase = ''Running'',
     pd_created = 0, pd_labels = Map.empty, pd_owners = [], pd_mirror = False, pd_gates = [], pd_conditions = [(''Ready'', ''True'')],
     pd_containers = [], pd_networks = None\<rparr>"

definition mk_node :: "string \<Rightarrow> k_node" where
  "mk_node n = \<lparr>kn_name = n, kn_addresses = [(''InternalIP'', n)], kn_taints = [], kn_cordoned = False\<rparr>"

definition three_nodes :: "k_node list" where "three_nodes = [mk_node ''b'', mk_node ''a'', mk_node ''c'']"

definition agent_on :: "string \<Rightarrow> pod" where
  "agent_on n = (mk_pod ''kube-system'' (''calico-node-'' @ n) n n)\<lparr>pd_labels := [''k8s-app'' \<mapsto> ''calico-node'']\<rparr>"

definition status0 :: network_status where
  "status0 = (let ms = \<lparr>ms_healthy = False, ms_enabled = False, ms_message = [], ms_checked = None\<rparr> in
     \<lparr>nt_phase = [], nt_cni = ms, nt_coredns = ms, nt_policy = ms, nt_connectivity = ms, nt_reconciled = None\<rparr>)"

definition policy0 :: remediation_policy where
  "policy0 = \<lparr>rm_auto = True, rm_daemon_set = [], rm_ns = [], rm_max_restarts = 0, rm_taint_key = [], rm_taint_value = [], rm_taint_effect = [],
     rm_drain = True, rm_escalate = 0\<rparr>"

definition spec0 :: network_spec where
  "spec0 = \<lparr>
     sp_cni = \<lparr>cn_enabled = True, cn_ns = [], cn_daemon_set = [], cn_stuck_seconds = 0, cn_threshold = 0, cn_cooldown = 0\<rparr>,
     sp_coredns = \<lparr>co_enabled = True, co_replicas = 2, co_latency = 0, co_validation = True, co_heal_replicas = True, co_heal_config = True,
       co_fallback = [''8.8.8.8'']\<rparr>,
     sp_policy = \<lparr>np_enabled = False, np_heal = True, np_cooldown = 0\<rparr>,
     sp_connectivity = \<lparr>pc_enabled = True, pc_ns = [], pc_anchors = [], pc_threshold = 1, pc_policy = policy0\<rparr>\<rparr>"

definition dns0 :: deployment where
  "dns0 = \<lparr>dp_replicas = Some 2, dp_available = 2, dp_ready = 2, dp_updated = 2, dp_containers = [], dp_annotations = Map.empty\<rparr>"

text \<open>Node b reaches nobody and nobody reaches it, but its local network and its uplink work.\<close>

definition dead_b :: module_world where
  "dead_b = \<lparr>mw_time = 1000 * second, mw_nodes = three_nodes,
     mw_pods = map (\<lambda>n. mk_pod ''default'' (''canary-'' @ n) n n) [''a'', ''b'', ''c''] @ map agent_on [''a'', ''b'', ''c''],
     mw_deployment = Some dns0, mw_config = Some \<lparr>cm_data = Some [corefileName \<mapsto> ''forward . 1.1.1.1'']\<rparr>,
     mw_daemon_sets = [((''kube-system'', ''calico-node''), \<lparr>ds_desired = Field 3, ds_ready = Field 3, ds_match = Missing\<rparr>)],
     mw_events = [], mw_pools = [], mw_pools_locked = False, mw_blocks = [], mw_latency = None,
     mw_dead = [(''canary-a'', ''b''), (''canary-c'', ''b''), (''canary-b'', ''a''), (''canary-b'', ''c'')],
     mw_resource = \<lparr>nr_name = ''nr'', nr_spec = spec0, nr_status = status0\<rparr>, mw_journal = []\<rparr>"

text \<open>What can be computed of the journal: the deletions, and the names of the nodes and pools patched.\<close>

datatype brief = Deletes "string \<times> string" | Patches string bool | Other

definition brief_write :: "module_write \<Rightarrow> brief" where
  "brief_write w = (case w of DeletedPodKey k \<Rightarrow> Deletes k | PatchedNode nd \<Rightarrow> Patches (kn_name nd) (kn_cordoned nd)
     | PatchedPool p \<Rightarrow> Patches (ipp_name p) (ipp_disabled p = Field True) | _ \<Rightarrow> Other)"

definition briefs :: "module_world \<Rightarrow> (brief \<times> bool) list" where
  "briefs mw = map (\<lambda>(w, ok). (brief_write w, ok)) (mw_journal mw)"

definition pass_b :: "module_world operator \<times> (api_error + duration option)" where
  "pass_b = operator_reconcile world_api (operator_new dead_b) ''nr''"

lemma pass_b_effect:
  "briefs (op_world (fst pass_b)) = [(Deletes (''kube-system'', ''calico-node-b''), True)]"
  "snd pass_b = Inr (Some (30 * second))"
  "nt_phase (nr_status (mw_resource (op_world (fst pass_b)))) = ''Running''"
  by code_simp+

lemma world_operator_laws: "operator_laws world_api mw_journal"
  by (simp add: operator_laws_def world_lawful silent_def) (simp add: world_api_def)

lemma world_resource: "na_get world_api (op_world (operator_new dead_b)) ''nr'' = (dead_b, Inr \<lparr>nr_name = ''nr'', nr_spec = spec0, nr_status = status0\<rparr>)"
  by (simp add: world_api_def operator_new_def dead_b_def)


theorem operator_status_sound_witness:
  "nt_phase (nr_status (mw_resource (op_world (fst pass_b)))) = ''Running'' \<and>
   (\<exists>st. mw_resource (op_world (fst pass_b)) = mw_resource dead_b\<lparr>nr_status := st\<rparr> \<and> status_sound spec0 st)"
proof -
  have "operator_reconcile world_api (operator_new dead_b) ''nr'' = (fst pass_b, Inr (Some (30 * second)))"
    using pass_b_effect(2) by (metis pass_b_def prod.collapse)
  from operator_status_sound[OF this] obtain t st w' where
    "na_update_status world_api t (\<lparr>nr_name = ''nr'', nr_spec = spec0, nr_status = status0\<rparr>\<lparr>nr_status := st\<rparr>) = (w', None)"
    "op_world (fst pass_b) = w'" "status_sound spec0 st"
    unfolding world_resource by auto
  then show ?thesis using pass_b_effect(3) by (auto simp: world_api_def dead_b_def)
qed

subsection \<open>The connectivity module\<close>

definition probe :: "string \<Rightarrow> string \<Rightarrow> bool \<Rightarrow> edge_probe" where
  "probe x y ok = \<lparr>eg_source = x, eg_target = y, eg_success = ok\<rparr>"

definition probes_b :: "edge_probe list" where
  "probes_b = [probe ''a'' ''b'' True, probe ''a'' ''c'' True, probe ''b'' ''c'' False, probe ''b'' ''a'' False, probe ''c'' ''a'' True, probe ''c'' ''b'' True]"

theorem triangulate_evidence_witness:
  "let d = triangulate id [(''a'', True)] probes_b [] in
   dc_action d = ''node_isolation'' \<and> evidence [(''a'', True)] probes_b [] d \<and> \<not> reaches_anchor [] (dc_node d)"
proof -
  have "dc_action (triangulate id [(''a'', True)] probes_b []) = ''node_isolation''" by code_simp
  then show ?thesis using triangulate_evidence[of id "triangulate id [(''a'', True)] probes_b []" "[(''a'', True)]" probes_b "[]"]
    by (simp add: Let_def)
qed

theorem ring_pins_fault_witness:
  "let d = triangulate id [(''a'', True)] (ring_probes three_nodes (NodeFault ''b'')) [] in
   dc_type d = NodeIngress \<and> dc_node d = ''b'' \<and> dc_action d = ''cni_restart''"
  using ring_pins_fault[of id three_nodes "NodeFault ''b''" "[(''a'', True)]" _ "[]", OF _ _ _ _ _ refl]
  by (simp add: three_nodes_def mk_node_def fault_in_def Let_def)

definition verdict_b :: decision where
  "verdict_b = blame NodeIngress ''b'' ''CNI'' ''cni_restart'' [] ''critical''"


definition node_b_back :: module_world where "node_b_back = dead_b\<lparr>mw_dead := []\<rparr>"

definition restarted_twice :: connectivity_state where
  "restarted_twice = connectivityModule_new\<lparr>cy_attempts := [''b'' \<mapsto> 2]\<rparr>"

definition healthy_check :: "(module_world \<times> connectivity_state) \<times> (string + check_result)" where
  "healthy_check = connectivity_check world_api (node_b_back, restarted_twice) spec0"

definition healthy_eval :: "(module_world \<times> connectivity_state) \<times> (string + eval_result)" where
  "healthy_eval = connectivity_evaluate (fst healthy_check) (case snd healthy_check of Inr c \<Rightarrow> Some c | Inl e \<Rightarrow> None)"

theorem restarts_never_forgotten_witness:
  "(case snd healthy_eval of Inr e \<Rightarrow> er_healthy e | Inl _ \<Rightarrow> False) \<and> attempts_of (snd (fst healthy_eval)) ''b'' = 2"
proof -
  have ok: "isl (snd healthy_check) = False" by code_simp
  obtain s1 m1 c where ck: "connectivity_check world_api (node_b_back, restarted_twice) spec0 = ((s1, m1), Inr c)"
    using ok unfolding healthy_check_def by (metis isl_def old.sum.exhaust prod.exhaust_sel)
  have nds: "mo_nodes world_api node_b_back = (node_b_back, Inr three_nodes)" by (simp add: world_api_def node_b_back_def dead_b_def)
  have "healthy_eval = connectivity_evaluate (s1, m1) (Some c)" using ck by (simp add: healthy_eval_def healthy_check_def)
  then have "connectivity_evaluate (s1, m1) (Some c) = ((fst (fst healthy_eval), snd (fst healthy_eval)), snd healthy_eval)" by simp
  from restarts_never_forgotten[OF ck nds _ this] have "cy_attempts (snd (fst healthy_eval)) = cy_attempts restarted_twice"
    by (simp add: three_nodes_def)
  moreover have "case snd healthy_eval of Inr e \<Rightarrow> er_healthy e | Inl _ \<Rightarrow> False" by code_simp
  ultimately show ?thesis by (simp add: attempts_of_def restarted_twice_def)
qed

subsection \<open>The CoreDNS module\<close>


definition throttled_signals :: signals where
  "throttled_signals = [''availableReplicas'' \<mapsto> Int32Signal 2, ''desiredReplicas'' \<mapsto> Int32Signal 2, ''cpuThrottled'' \<mapsto> BoolSignal True]"


subsection \<open>The NetworkPolicy module\<close>

definition sick :: container_status where
  "sick = \<lparr>cs_ready = False, cs_restarts = 5, cs_waiting = Some ''CrashLoopBackOff''\<rparr>"

definition agent_sick :: module_world where
  "agent_sick = dead_b\<lparr>mw_pods := [agent_on ''a'', (agent_on ''b'')\<lparr>pd_containers := [sick]\<rparr>, (agent_on ''c'')\<lparr>pd_phase := ''Failed''\<rparr>]\<rparr>"

definition felix_check :: "(module_world \<times> policy_state) \<times> (string + check_result)" where
  "felix_check = policy_check world_api (agent_sick, policyModule_new) spec0"

definition felix_eval :: "(module_world \<times> policy_state) \<times> (string + eval_result)" where
  "felix_eval = policy_evaluate (fst felix_check) (case snd felix_check of Inr c \<Rightarrow> Some c | Inl e \<Rightarrow> None)"

definition felix_fix :: "(module_world \<times> policy_state) \<times> remediate_result \<times> string option" where
  "felix_fix = policy_remediate world_api (fst felix_eval) (case snd felix_eval of Inr e \<Rightarrow> Some e | Inl _ \<Rightarrow> None)"

theorem felix_restarts_exact_witness:
  "map fst (mw_journal (fst (fst felix_fix))) =
     [DeletedPodKey (''kube-system'', ''calico-node-b''), DeletedPodKey (''kube-system'', ''calico-node-c'')] \<and>
   ps_restarted (snd (fst felix_fix)) = Some (1000 * second)"
proof -
  have ok: "isl (snd felix_check) = False" "isl (snd felix_eval) = False" "snd (snd felix_fix) = None"
    "(case snd felix_eval of Inr e \<Rightarrow> er_needs e | _ \<Rightarrow> False)" "policy_cooling world_api (fst (fst felix_eval)) (snd (fst felix_eval)) = False"
    by code_simp+
  obtain s1 m1 c where ck: "policy_check world_api (agent_sick, policyModule_new) spec0 = ((s1, m1), Inr c)"
    using ok(1) unfolding felix_check_def by (metis isl_def old.sum.exhaust prod.exhaust_sel)
  have ev: "felix_eval = policy_evaluate (s1, m1) (Some c)" using ck by (simp add: felix_eval_def felix_check_def)
  obtain s2 m2 e where e: "policy_evaluate (s1, m1) (Some c) = ((s2, m2), Inr e)"
    using ok(2) unfolding ev by (metis isl_def old.sum.exhaust prod.exhaust_sel)
  have needs: "er_needs e" and fx: "felix_fix = policy_remediate world_api (s2, m2) (Some e)"
    using ok(4) e by (simp_all add: ev felix_fix_def)
  obtain s3 m3 r where f: "policy_remediate world_api (s2, m2) (Some e) = ((s3, m3), r, None)"
    using ok(3) unfolding fx by (metis prod.exhaust_sel)
  define pods where "pods = filter (pod_matches felix_pods) (mw_pods agent_sick)"
  have p: "mo_pods world_api agent_sick felix_pods = (agent_sick, Inr pods)" by (simp add: world_api_def pods_def)
  have "\<not> policy_cooling world_api s2 m2" using ok(5) e by (simp add: ev)
  moreover have "map (\<lambda>p. (pd_ns p, pd_name p)) (filter felix_bad pods) = [(''kube-system'', ''calico-node-b''), (''kube-system'', ''calico-node-c'')]"
    unfolding pods_def by code_simp
  then have "map (\<lambda>p. DeletedPodKey (pd_ns p, pd_name p)) (filter felix_bad pods) =
      [DeletedPodKey (''kube-system'', ''calico-node-b''), DeletedPodKey (''kube-system'', ''calico-node-c'')]"
    by (auto simp: map_eq_Cons_conv)
  moreover have "mw_journal agent_sick = []" by (simp add: agent_sick_def dead_b_def)
  moreover have "mw_time (fst (fst felix_fix)) = 1000 * second" by code_simp
  moreover have "mo_now world_api = mw_time" by (simp add: world_api_def)
  ultimately show ?thesis using felix_restarts_exact[OF world_lawful ck p e needs f] f by (auto simp: fx)
qed

subsection \<open>The CNI module\<close>

text \<open>A pod of the workload default/ReplicaSet/web that waits for an address, and the passes of the module that evict it.\<close>

definition web :: "string \<Rightarrow> pod" where
  "web name = (mk_pod ''default'' name ''a'' [])\<lparr>pd_phase := ''Pending'', pd_owners := [(''ReplicaSet'', ''web'')]\<rparr>"

definition cni_event_for :: "string \<Rightarrow> event" where
  "cni_event_for name = \<lparr>ev_ns = ''default'', ev_object = name, ev_reason = ''FailedCreatePodSandBox'', ev_message = ''calico: no ips available''\<rparr>"

definition stuck_world :: "go_time \<Rightarrow> string \<Rightarrow> module_world" where
  "stuck_world t name = dead_b\<lparr>mw_time := t, mw_pods := [web name], mw_events := [cni_event_for name]\<rparr>"

definition cni_checked_at :: "go_time \<Rightarrow> string \<Rightarrow> cni_state \<Rightarrow> (module_world \<times> cni_state) \<times> (string + check_result)" where
  "cni_checked_at t name m = cni_check world_api (stuck_world t name, m) spec0"

definition cni_evaluated_at :: "go_time \<Rightarrow> string \<Rightarrow> cni_state \<Rightarrow> (module_world \<times> cni_state) \<times> (string + eval_result)" where
  "cni_evaluated_at t name m = cni_evaluate world_api (fst (cni_checked_at t name m))
     (case snd (cni_checked_at t name m) of Inr c \<Rightarrow> Some c | Inl _ \<Rightarrow> None)"

definition cni_remediated_at :: "go_time \<Rightarrow> string \<Rightarrow> cni_state \<Rightarrow> (module_world \<times> cni_state) \<times> remediate_result \<times> string option" where
  "cni_remediated_at t name m = cni_remediate world_api (fst (cni_evaluated_at t name m))
     (case snd (cni_evaluated_at t name m) of Inr e \<Rightarrow> Some e | Inl _ \<Rightarrow> None)"

lemma cni_steps_at:
  assumes "isl (snd (cni_checked_at t name m)) = False"
    "(case snd (cni_evaluated_at t name m) of Inr e \<Rightarrow> er_needs e | Inl _ \<Rightarrow> False)"
  shows "\<exists>c e. cni_check world_api (stuck_world t name, m) spec0 = ((fst (fst (cni_checked_at t name m)), snd (fst (cni_checked_at t name m))), Inr c) \<and>
    cni_evaluate world_api (fst (fst (cni_checked_at t name m)), snd (fst (cni_checked_at t name m))) (Some c) =
      ((fst (fst (cni_evaluated_at t name m)), snd (fst (cni_evaluated_at t name m))), Inr e) \<and> er_needs e \<and>
    cni_remediate world_api (fst (fst (cni_evaluated_at t name m)), snd (fst (cni_evaluated_at t name m))) (Some e) =
      ((fst (fst (cni_remediated_at t name m)), snd (fst (cni_remediated_at t name m))), snd (cni_remediated_at t name m))"
proof -
  obtain c where c: "snd (cni_checked_at t name m) = Inr c" using assms(1) by (cases "snd (cni_checked_at t name m)") auto
  obtain e where e: "snd (cni_evaluated_at t name m) = Inr e" "er_needs e" using assms(2) by (auto split: sum.splits)
  show ?thesis
    by (rule exI[of _ c], rule exI[of _ e])
      (use c e in \<open>simp add: cni_checked_at_def[symmetric] cni_evaluated_at_def[of t name m] cni_remediated_at_def[of t name m] prod_eq_iff\<close>)
qed

definition cni_second :: cni_state where
  "cni_second = snd (fst (cni_remediated_at (1000 * second) ''web-1'' cniModule_new))"

definition first_evictions :: "(string \<times> go_time) list" where
  "first_evictions = evicted_now world_api (fst (fst (cni_evaluated_at (1000 * second) ''web-1'' cniModule_new)))
     (snd (fst (cni_evaluated_at (1000 * second) ''web-1'' cniModule_new)))"

definition second_evictions :: "(string \<times> go_time) list" where
  "second_evictions = evicted_now world_api (fst (fst (cni_evaluated_at (1200 * second) ''web-2'' cni_second)))
     (snd (fst (cni_evaluated_at (1200 * second) ''web-2'' cni_second)))"

lemma web_evictions:
  "first_evictions = [(''default/ReplicaSet/web'', 1000 * second)]"
  "second_evictions = [(''default/ReplicaSet/web'', 1200 * second)]"
  by code_simp+


subsection \<open>Findings\<close>

text \<open>
  The CNI module looks for unready agents in the configured namespace, and deletes the pods of their names in kube-system: with the agents
  in calico-system the unready agent is never restarted, and every pass reports a failed remediation.
\<close>

definition elsewhere :: network_spec where
  "elsewhere = spec0\<lparr>sp_cni := (sp_cni spec0)\<lparr>cn_ns := ''calico-system''\<rparr>, sp_coredns := (sp_coredns spec0)\<lparr>co_enabled := False\<rparr>,
     sp_connectivity := (sp_connectivity spec0)\<lparr>pc_enabled := False\<rparr>\<rparr>"

definition elsewhere_world :: module_world where
  "elsewhere_world = dead_b\<lparr>
     mw_pods := [(agent_on ''b'')\<lparr>pd_ns := ''calico-system'', pd_conditions := [(''Ready'', ''False'')]\<rparr>],
     mw_daemon_sets := [((''calico-system'', ''calico-node''), \<lparr>ds_desired = Field 3, ds_ready = Field 2, ds_match = Missing\<rparr>)],
     mw_resource := \<lparr>nr_name = ''nr'', nr_spec = elsewhere, nr_status = status0\<rparr>\<rparr>"

lemma agents_elsewhere_never_restarted:
  "let w = op_world (fst (operator_reconcile world_api (operator_new elsewhere_world) ''nr'')) in
   briefs w = [(Deletes (''kube-system'', ''calico-node-b''), False)] \<and> map pd_name (mw_pods w) = [''calico-node-b''] \<and>
   nt_phase (nr_status (mw_resource w)) = ''Degraded''"
  by code_simp

text \<open>
  The cooldown of evictions does not cover the branch that re-enables a disabled pool: as long as the pool cannot be re-enabled, every
  pass evicts the waiting pods of a workload, here twice within one second.
\<close>

definition locked_world :: "go_time \<Rightarrow> string \<Rightarrow> module_world" where
  "locked_world t name = (stuck_world t name)\<lparr>mw_pools := [\<lparr>ipp_name = ''pool'', ipp_disabled = Field True, ipp_spec_ok = True\<rparr>], mw_pools_locked := True\<rparr>"

definition cni_only_pass :: "module_world \<Rightarrow> cni_state \<Rightarrow> module_world \<times> cni_state" where
  "cni_only_pass w m =
     (case cni_check world_api (w, m) spec0 of
        (s, Inl _) \<Rightarrow> s
      | (s, Inr c) \<Rightarrow> (case cni_evaluate world_api s (Some c) of
                         (s, Inl _) \<Rightarrow> s
                       | (s, Inr e) \<Rightarrow> if er_needs e then fst (cni_remediate world_api s (Some e)) else s))"

lemma reenable_evicts_without_cooldown:
  "let p1 = cni_only_pass (locked_world (1000 * second) ''web-1'') cniModule_new;
       p2 = cni_only_pass (locked_world (1001 * second) ''web-2'') (snd p1) in
   briefs (fst p1) = [(Patches ''pool'' False, False), (Deletes (''default'', ''web-1''), True)] \<and>
   briefs (fst p2) = [(Patches ''pool'' False, False), (Deletes (''default'', ''web-2''), True)] \<and> nc_cooldown (snd p1) = 180 * second"
  by code_simp

text \<open>The cooldown of CoreDNS is reported as health: the Corefile is broken, nothing is done, and the phase is Running.\<close>

definition dns_broken :: module_world where
  "dns_broken = node_b_back\<lparr>mw_config := Some \<lparr>cm_data = Some [corefileName \<mapsto> ''forward . 192.0.2.1'']\<rparr>\<rparr>"

lemma cooldown_reported_running:
  "let r = fst (operator_reconcile world_api ((operator_new dns_broken)\<lparr>op_coredns := corednsModule_new\<lparr>dn_remediated := Some (980 * second)\<rparr>\<rparr>) ''nr'');
       st = nr_status (mw_resource (op_world r)) in
   briefs (op_world r) = [] \<and> nt_phase st = ''Running'' \<and> ms_healthy (nt_coredns st) \<and>
   ms_message (nt_coredns st) = ''Remediated: Remediation cooldown active (10s remaining); skipping action to prevent restart thrashing''"
  by code_simp

end
