(* ===== verification/Sim_Policy.thy ===== *)
theory Sim_Policy
  imports Go_Float Ipam_Types "HOL-Library.Multiset"
begin

text \<open>
  The simulator of allocation policies (ipam/sim): random draws and the interface of a policy (policy.go), and the two
  baselines (baselines.go), a fixed block per node and Calico-style blocks of 64 addresses. A random source, the square root and the
  order in which Go ranges over a map are parameters. The objects are states; a policy is the record of its operations.
  Floating-point numbers are rationals rounded as \<^verbatim>\<open>float64\<close> operations round.
\<close>

subsection \<open>Random draws\<close>

record 'r rng =
  rn_float :: "'r \<Rightarrow> 'r \<times> rat"
  rn_intn :: "'r \<Rightarrow> int \<Rightarrow> 'r \<times> int"
  rn_norm :: "'r \<Rightarrow> 'r \<times> rat"
  rn_sqrt :: "rat \<Rightarrow> rat"
  rn_order :: "string list \<Rightarrow> string list"

text \<open>\<^verbatim>\<open>Intn\<close> draws below its bound, and a \<^verbatim>\<open>range\<close> over a map meets every key once.\<close>

definition rng_laws :: "('r, 'z) rng_scheme \<Rightarrow> bool" where
  "rng_laws G \<longleftrightarrow> (\<forall>r n. 0 < n \<longrightarrow> 0 \<le> snd (rn_intn G r n) \<and> snd (rn_intn G r n) < n) \<and> (\<forall>xs. mset (rn_order G xs) = mset xs)"

lemma rng_lawsD:
  assumes "rng_laws G"
  shows "0 < n \<Longrightarrow> rn_intn G r n = (r', k) \<Longrightarrow> 0 \<le> k \<and> k < n" "mset (rn_order G xs) = mset xs"
  using assms unfolding rng_laws_def by (metis snd_conv)+

fun coin_flips :: "('r, 'z) rng_scheme \<Rightarrow> rat \<Rightarrow> nat \<Rightarrow> 'r \<Rightarrow> int \<Rightarrow> 'r \<times> int" where
  "coin_flips G p 0 r k = (r, k)"
| "coin_flips G p (Suc n) r k = (case rn_float G r of (r, x) \<Rightarrow> coin_flips G p n r (if x < p then k + 1 else k))"

text \<open>\<^verbatim>\<open>math.Round\<close>: half away from zero.\<close>

definition round_away :: "rat \<Rightarrow> int" where
  "round_away x = (if x \<ge> 0 then \<lfloor>x + 1 / 2\<rfloor> else - \<lfloor>- x + 1 / 2\<rfloor>)"

definition binomial_draw :: "('r, 'z) rng_scheme \<Rightarrow> 'r \<Rightarrow> int \<Rightarrow> rat \<Rightarrow> 'r \<times> int" where
  "binomial_draw G r n p =
     (if n \<le> 0 \<or> p \<le> 0 then (r, 0)
      else if p \<ge> 1 then (r, n)
      else if n < 40 then coin_flips G p (nat n) r 0
      else (let m = to_float (of_int n * p); sd = rn_sqrt G (to_float (m * to_float (1 - p)))
            in case rn_norm G r of
                 (r, z) \<Rightarrow> (r, max 0 (min n (round_away (to_float (m + to_float (sd * z))))))))"

fun weight_index :: "int list \<Rightarrow> int \<Rightarrow> nat" where
  "weight_index [] k = 0"
| "weight_index [x] k = 0"
| "weight_index (x # y # w) k = (if k < x then 0 else Suc (weight_index (y # w) (k - x)))"

definition pickWeighted :: "('r, 'z) rng_scheme \<Rightarrow> 'r \<Rightarrow> int list \<Rightarrow> 'r \<times> nat option" where
  "pickWeighted G r w =
     (if sum_list w \<le> 0 then (r, None) else (case rn_intn G r (sum_list w) of (r, k) \<Rightarrow> (r, Some (weight_index w k))))"

lemma coin_flips_bounds: "coin_flips G p n r k = (r', k') \<Longrightarrow> k \<le> k' \<and> k' \<le> k + int n"
proof (induction n arbitrary: r k)
  case (Suc n)
  obtain r1 x where x: "rn_float G r = (r1, x)" by fastforce
  show ?case using Suc.IH[of r1 "if x < p then k + 1 else k"] Suc.prems x by (auto split: if_splits)
qed simp

lemma binomial_draw_bounds:
  assumes "binomial_draw G r n p = (r', k)" "0 \<le> n"
  shows "0 \<le> k \<and> k \<le> n"
  using assms coin_flips_bounds[of G p "nat n" r 0 r' k] by (auto simp: binomial_draw_def Let_def split: if_splits prod.splits)

lemma weight_index_pos:
  "\<forall>x \<in> set w. 0 \<le> x \<Longrightarrow> 0 \<le> k \<Longrightarrow> k < sum_list w \<Longrightarrow> weight_index w k < length w \<and> 0 < w ! weight_index w k"
  by (induction w k rule: weight_index.induct) auto

lemma pickWeighted_Some:
  assumes "rng_laws G" "pickWeighted G r w = (r', Some i)" "\<forall>x \<in> set w. 0 \<le> x"
  shows "i < length w" "0 < w ! i"
proof -
  obtain k where k: "rn_intn G r (sum_list w) = (r', k)" "i = weight_index w k" "0 < sum_list w"
    using assms(2) by (auto simp: pickWeighted_def split: if_splits prod.splits)
  have "0 \<le> k" "k < sum_list w" using rng_lawsD(1)[OF assms(1) k(3,1)] by auto
  then show "i < length w" "0 < w ! i" using weight_index_pos[OF assms(3)] k(2) by auto
qed

lemma pickWeighted_None: "pickWeighted G r w = (r', None) \<longleftrightarrow> r' = r \<and> sum_list w \<le> 0"
  by (auto simp: pickWeighted_def split: prod.splits)

subsection \<open>The interface of a policy\<close>

record 'p policy =
  po_name :: string
  po_place :: "'p \<Rightarrow> nat \<Rightarrow> int \<Rightarrow> 'p \<times> int"
  po_remove :: "'p \<Rightarrow> nat \<Rightarrow> int \<Rightarrow> 'p"
  po_churn :: "'p \<Rightarrow> rat \<Rightarrow> 'p"
  po_starved :: "'p \<Rightarrow> nat \<Rightarrow> int \<Rightarrow> 'p"
  po_tick :: "'p \<Rightarrow> rat \<Rightarrow> 'p"
  po_pods :: "'p \<Rightarrow> nat \<Rightarrow> int"
  po_allocated :: "'p \<Rightarrow> int"
  po_routes :: "'p \<Rightarrow> int"
  po_ops :: "'p \<Rightarrow> int"
  po_admitted :: "'p \<Rightarrow> int"

text \<open>
  What the engine relies on, for the nodes below \<open>N\<close>: placing starts at most as many pods as asked and the count of the node
  grows by exactly those; removing takes exactly as many as asked if there are so many; nothing else
  that the engine calls between the two changes the count of the node. And the policy never hands out more than \<open>cap\<close> addresses.
\<close>

locale allocation_policy =
  fixes P :: "'p policy" and inv :: "'p \<Rightarrow> bool" and N :: nat and cap :: int
  assumes place: "inv p \<Longrightarrow> n < N \<Longrightarrow> 0 \<le> k \<Longrightarrow> po_place P p n k = (p', got) \<Longrightarrow>
      inv p' \<and> 0 \<le> got \<and> got \<le> k \<and> po_pods P p' n = po_pods P p n + got"
    and remove: "inv p \<Longrightarrow> n < N \<Longrightarrow> 0 \<le> k \<Longrightarrow> k \<le> po_pods P p n \<Longrightarrow>
      inv (po_remove P p n k) \<and> po_pods P (po_remove P p n k) n = po_pods P p n - k"
    and churn: "inv p \<Longrightarrow> inv (po_churn P p q)"
    and starved: "inv p \<Longrightarrow> inv (po_starved P p n w) \<and> po_pods P (po_starved P p n w) n = po_pods P p n"
    and tick: "inv p \<Longrightarrow> inv (po_tick P p t)"
    and pods: "inv p \<Longrightarrow> n < N \<Longrightarrow> 0 \<le> po_pods P p n"
    and allocated: "inv p \<Longrightarrow> po_allocated P p \<le> cap"

subsection \<open>A fixed block per node\<close>

definition cidrSize :: "string \<Rightarrow> int" where
  "cidrSize c = (case parse_cidr c of None \<Rightarrow> 0 | Some (_, n) \<Rightarrow> push_bit (32 - net_ones n) 1)"

definition poolTotal :: "string list \<Rightarrow> int" where
  "poolTotal cidrs = sum_list (map cidrSize cidrs)"

record 'r static_policy =
  sc_name :: string
  sc_rng :: 'r
  sc_per_node :: int
  sc_usable :: int
  sc_admitted :: int
  sc_pods :: "int list"

definition newStatic :: "string \<Rightarrow> 'r \<Rightarrow> nat \<Rightarrow> int \<Rightarrow> string list \<Rightarrow> 'r static_policy" where
  "newStatic name r nds perNode pool =
     \<lparr>sc_name = name, sc_rng = r, sc_per_node = perNode, sc_usable = perNode - 3,
      sc_admitted = min (sum_list (map (\<lambda>c. cidrSize c div perNode) pool)) (int nds), sc_pods = replicate nds 0\<rparr>"

definition static_place :: "'r static_policy \<Rightarrow> nat \<Rightarrow> int \<Rightarrow> 'r static_policy \<times> int" where
  "static_place p n k =
     (if int n \<ge> sc_admitted p then (p, 0)
      else let got = min k (sc_usable p - sc_pods p ! n) in (p\<lparr>sc_pods := (sc_pods p)[n := sc_pods p ! n + got]\<rparr>, got))"

definition static_remove :: "'r static_policy \<Rightarrow> nat \<Rightarrow> int \<Rightarrow> 'r static_policy" where
  "static_remove p n k = p\<lparr>sc_pods := (sc_pods p)[n := max 0 (sc_pods p ! n - k)]\<rparr>"

text \<open>Every count loses a binomial share, in the order of the list.\<close>

fun thin_out :: "('r, 'z) rng_scheme \<Rightarrow> rat \<Rightarrow> int list \<Rightarrow> 'r \<Rightarrow> 'r \<times> int list" where
  "thin_out G q [] r = (r, [])"
| "thin_out G q (u # us) r =
     (case binomial_draw G r u q of (r, d) \<Rightarrow> (case thin_out G q us r of (r, vs) \<Rightarrow> (r, (u - d) # vs)))"

definition static_churn :: "('r, 'z) rng_scheme \<Rightarrow> 'r static_policy \<Rightarrow> rat \<Rightarrow> 'r static_policy" where
  "static_churn G p q = (case thin_out G q (sc_pods p) (sc_rng p) of (r, us) \<Rightarrow> p\<lparr>sc_rng := r, sc_pods := us\<rparr>)"

definition static_impl :: "('r, 'z) rng_scheme \<Rightarrow> string \<Rightarrow> ('r static_policy) policy" where
  "static_impl G name = \<lparr>po_name = name, po_place = static_place, po_remove = static_remove, po_churn = static_churn G,
     po_starved = (\<lambda>p n w. p), po_tick = (\<lambda>p t. p), po_pods = (\<lambda>p n. sc_pods p ! n),
     po_allocated = (\<lambda>p. sc_admitted p * sc_per_node p), po_routes = sc_admitted, po_ops = (\<lambda>p. 0), po_admitted = sc_admitted\<rparr>"

lemma thin_out_within:
  "thin_out G q us r = (r', vs) \<Longrightarrow> \<forall>u \<in> set us. 0 \<le> u \<and> u \<le> m \<Longrightarrow> length vs = length us \<and> (\<forall>v \<in> set vs. 0 \<le> v \<and> v \<le> m)"
proof (induction us arbitrary: r vs)
  case (Cons u us)
  obtain r1 d where d: "binomial_draw G r u q = (r1, d)" by fastforce
  obtain r2 ws where w: "thin_out G q us r1 = (r2, ws)" by fastforce
  show ?case using Cons binomial_draw_bounds[OF d] d w by fastforce
qed simp

definition static_ok :: "nat \<Rightarrow> int \<Rightarrow> 'r static_policy \<Rightarrow> bool" where
  "static_ok N tot p \<longleftrightarrow> length (sc_pods p) = N \<and> sc_admitted p * sc_per_node p \<le> tot \<and> (\<forall>u \<in> set (sc_pods p). 0 \<le> u \<and> u \<le> sc_usable p)"

lemma static_ok_update: "static_ok N tot p \<Longrightarrow> 0 \<le> u \<Longrightarrow> u \<le> sc_usable p \<Longrightarrow> static_ok N tot (p\<lparr>sc_pods := (sc_pods p)[n := u]\<rparr>)"
  unfolding static_ok_def using set_update_subset_insert[of "sc_pods p" n u] by auto

lemma static_ok_nth: "static_ok N tot p \<Longrightarrow> n < N \<Longrightarrow> 0 \<le> sc_pods p ! n \<and> sc_pods p ! n \<le> sc_usable p"
  by (auto simp: static_ok_def)

interpretation static: allocation_policy "static_impl G name" "static_ok N tot" N tot for G :: "('r, 'z) rng_scheme" and name N tot
proof unfold_locales
  fix p p' :: "'r static_policy" and n k got
  assume p: "static_ok N tot p" "n < N" "0 \<le> k" "po_place (static_impl G name) p n k = (p', got)"
  note b = static_ok_nth[OF p(1,2)]
  have "n < length (sc_pods p)" using p(1,2) by (simp add: static_ok_def)
  then show "static_ok N tot p' \<and> 0 \<le> got \<and> got \<le> k \<and> po_pods (static_impl G name) p' n = po_pods (static_impl G name) p n + got"
    using p b static_ok_update[OF p(1), of "sc_pods p ! n + got"] by (auto simp: static_impl_def static_place_def Let_def split: if_splits)
next
  fix p :: "'r static_policy" and n k
  assume p: "static_ok N tot p" "n < N" "0 \<le> k" "k \<le> po_pods (static_impl G name) p n"
  note b = static_ok_nth[OF p(1,2)]
  have "n < length (sc_pods p)" using p(1,2) by (simp add: static_ok_def)
  then show "static_ok N tot (po_remove (static_impl G name) p n k) \<and>
      po_pods (static_impl G name) (po_remove (static_impl G name) p n k) n = po_pods (static_impl G name) p n - k"
    using p b static_ok_update[OF p(1), of "max 0 (sc_pods p ! n - k)"] by (simp add: static_impl_def static_remove_def)
next
  fix p :: "'r static_policy" and q
  assume p: "static_ok N tot p"
  obtain r us where t: "thin_out G q (sc_pods p) (sc_rng p) = (r, us)" by fastforce
  have "length us = N \<and> (\<forall>v \<in> set us. 0 \<le> v \<and> v \<le> sc_usable p)" using thin_out_within[OF t, of "sc_usable p"] p by (simp add: static_ok_def)
  then show "static_ok N tot (po_churn (static_impl G name) p q)"
    using t p by (simp add: static_impl_def static_churn_def static_ok_def)
qed (auto simp: static_impl_def static_ok_def)

end
