(* ===== verification/Sim_Buddy.thy ===== *)
theory Sim_Buddy
  imports Controller_Props Sim_Policy "HOL-Library.AList"
begin

text \<open>
  The buddy policy of the simulator (ipam/sim/buddy.go): the planner of the controller on a table of NodeBlocks, with the
  agents as fixed delays. The table is an association list from the names; a pointer to a block is its name. CIDR texts are
  those of the planner. The plan's quarantines, splits and half releases are not applied by the code, and the fields that only
  they use stay empty.
\<close>

record buddy_config =
  bc_spec :: pool_spec
  bc_promote_delay :: duration
  bc_drain_settle :: duration
  bc_no_starve :: bool

record 'r buddy_policy =
  bu_cfg :: buddy_config
  bu_rng :: 'r
  bu_spec :: pool_spec
  bu_nodes :: "node list"
  bu_blocks :: "(string \<times> node_block) list"
  bu_starved :: "string \<Rightarrow> go_time"
  bu_waiting :: "string \<Rightarrow> int"
  bu_now :: go_time
  bu_ops :: int
  bu_name :: string

definition sim_epoch :: go_time where "sim_epoch = 1700000000 * second"

definition nodeName :: "nat \<Rightarrow> string" where
  "nodeName i = ''n'' @ replicate (4 - length (dec i)) (CHR ''0'') @ dec i"

definition sim_node :: "int \<Rightarrow> nat \<Rightarrow> node" where
  "sim_node maxPods i = \<lparr>nd_name = nodeName i, nd_deleting = False, nd_pods = Some maxPods,
     nd_addresses = [(''InternalIP'', ''192.168.'' @ dec (i div 250) @ ''.'' @ dec (i mod 250 + 1))]\<rparr>"

definition newBuddy :: "string \<Rightarrow> 'r \<Rightarrow> nat \<Rightarrow> int \<Rightarrow> buddy_config \<Rightarrow> 'r buddy_policy" where
  "newBuddy name r nds maxPods cfg =
     \<lparr>bu_cfg = cfg, bu_rng = r, bu_spec = withDefaults (bc_spec cfg), bu_nodes = map (sim_node maxPods) [0..<nds], bu_blocks = [],
      bu_starved = (\<lambda>_. 0), bu_waiting = (\<lambda>_. 0), bu_now = sim_epoch, bu_ops = 0, bu_name = name\<rparr>"

definition mine :: "'r buddy_policy \<Rightarrow> nat \<Rightarrow> node_block list" where
  "mine p n = sort_by (\<lambda>x y. nb_cidr x < nb_cidr y) (filter (\<lambda>b. nb_node b = nodeName n) (map snd (bu_blocks p)))"

text \<open>\<^verbatim>\<open>Sscanf\<close> of a decimal number at the start of a text.\<close>

definition leading_int :: "string \<Rightarrow> int option" where
  "leading_int xs =
     (let ys = dropWhile (\<lambda>c. c = CHR '' '') xs; neg = has_prefix ''-'' ys;
          ds = takeWhile (\<lambda>c. digit_val c \<noteq> None) (if neg \<or> has_prefix ''+'' ys then drop 1 ys else ys)
      in if ds = [] then None else map_option (\<lambda>k. if neg then - int k else int k) (num_of 0 ds))"

fun scan_prefix :: "int \<Rightarrow> string \<Rightarrow> int" where
  "scan_prefix p [] = p"
| "scan_prefix p (x # xs) = scan_prefix (if x = CHR ''/'' then (case leading_int xs of Some k \<Rightarrow> k | None \<Rightarrow> p) else p) xs"

definition prefixLen :: "string \<Rightarrow> int" where
  "prefixLen c = scan_prefix 0 c"

definition blockSize :: "node_block \<Rightarrow> int" where
  "blockSize b = push_bit (nat (32 - prefixLen (nb_cidr b))) 1"

definition placeable :: "node_block \<Rightarrow> bool" where
  "placeable b \<longleftrightarrow> nb_phase b = NodeBlockActive \<and> \<not> nb_drain b"

definition in_range :: "string \<Rightarrow> node_block \<Rightarrow> bool" where
  "in_range c b = (case (parse_cidr c, parse_cidr (nb_cidr b)) of (Some (_, n), Some (ip, _)) \<Rightarrow> net_contains n ip | _ \<Rightarrow> False)"

text \<open>The ranges that host-local serves: the merged placeable blocks, each with the blocks in it.\<close>

definition groups :: "node_block list \<Rightarrow> (string \<times> node_block list) list" where
  "groups blks =
     (case aggregate (map nb_cidr (filter placeable blks)) of
        Inl _ \<Rightarrow> []
      | Inr agg \<Rightarrow> map (\<lambda>c. (c, filter (\<lambda>b. placeable b \<and> in_range c b) blks)) agg)"

definition free_in :: "string \<times> node_block list \<Rightarrow> int" where
  "free_in g = max 0 (usableAddresses (cidrSize (fst g)) - sum_list (map nb_used (snd g)))"

definition add_used :: "string \<Rightarrow> int \<Rightarrow> 'r buddy_policy \<Rightarrow> 'r buddy_policy" where
  "add_used name d p = p\<lparr>bu_blocks := AList.map_entry name (\<lambda>b. b\<lparr>nb_used := nb_used b + d\<rparr>) (bu_blocks p)\<rparr>"

text \<open>
  The loop of \<open>Place\<close>. A range always holds one of the blocks that it was merged from (\<open>group_has_member\<close> below), so the second draw never
  fails; the code would fail on the index.
\<close>

fun buddy_place ::
  "('r, 'z) rng_scheme \<Rightarrow> (string \<times> node_block list) list \<Rightarrow> nat \<Rightarrow> int list \<Rightarrow> 'r buddy_policy \<Rightarrow> int \<Rightarrow> 'r buddy_policy \<times> int" where
  "buddy_place G gs 0 frees p got = (p, got)"
| "buddy_place G gs (Suc k) frees p got =
     (case pickWeighted G (bu_rng p) frees of
        (r, None) \<Rightarrow> (p\<lparr>bu_rng := r\<rparr>, got)
      | (r, Some i) \<Rightarrow>
          (let ms = snd (gs ! i) in
           case pickWeighted G r (map blockSize ms) of
             (r, None) \<Rightarrow> (p\<lparr>bu_rng := r\<rparr>, got)
           | (r, Some j) \<Rightarrow>
               buddy_place G gs k (frees[i := frees ! i - 1]) (add_used (nb_name (ms ! j)) 1 (p\<lparr>bu_rng := r\<rparr>)) (got + 1)))"

definition used_by :: "'r buddy_policy \<Rightarrow> string \<Rightarrow> int" where
  "used_by p name = (case map_of (bu_blocks p) name of None \<Rightarrow> 0 | Some b \<Rightarrow> nb_used b)"

fun buddy_remove :: "('r, 'z) rng_scheme \<Rightarrow> string list \<Rightarrow> nat \<Rightarrow> 'r buddy_policy \<Rightarrow> 'r buddy_policy" where
  "buddy_remove G names 0 p = p"
| "buddy_remove G names (Suc k) p =
     (case pickWeighted G (bu_rng p) (map (used_by p) names) of
        (r, None) \<Rightarrow> p\<lparr>bu_rng := r\<rparr>
      | (r, Some i) \<Rightarrow> buddy_remove G names k (add_used (names ! i) (- 1) (p\<lparr>bu_rng := r\<rparr>)))"

definition churn_block :: "('r, 'z) rng_scheme \<Rightarrow> rat \<Rightarrow> 'r buddy_policy \<Rightarrow> string \<Rightarrow> 'r buddy_policy" where
  "churn_block G q p name =
     (case binomial_draw G (bu_rng p) (used_by p name) q of (r, d) \<Rightarrow> add_used name (- d) (p\<lparr>bu_rng := r\<rparr>))"

definition buddy_churn :: "('r, 'z) rng_scheme \<Rightarrow> 'r buddy_policy \<Rightarrow> rat \<Rightarrow> 'r buddy_policy" where
  "buddy_churn G p q = foldl (churn_block G q) p (rn_order G (map fst (bu_blocks p)))"

definition buddy_starved :: "'r buddy_policy \<Rightarrow> nat \<Rightarrow> int \<Rightarrow> 'r buddy_policy" where
  "buddy_starved p n w =
     (if bc_no_starve (bu_cfg p) then p
      else p\<lparr>bu_starved := (bu_starved p)(nodeName n := bu_now p), bu_waiting := (bu_waiting p)(nodeName n := w)\<rparr>)"

subsection \<open>The agents and the control loop\<close>

definition setPhase :: "go_time \<Rightarrow> block_phase \<Rightarrow> node_block \<Rightarrow> node_block" where
  "setPhase now ph b = b\<lparr>nb_phase := ph, nb_transition := Some now\<rparr>"

text \<open>The table's blocks always have a transition time.\<close>

definition agent_delay :: "buddy_config \<Rightarrow> go_time \<Rightarrow> node_block \<Rightarrow> node_block" where
  "agent_delay cfg now b =
     (let since = now - transitionTime b in
      case nb_phase b of
        NodeBlockPending \<Rightarrow> if since \<ge> bc_promote_delay cfg then setPhase now NodeBlockActive b else b
      | NodeBlockActive \<Rightarrow> if nb_drain b then setPhase now NodeBlockDraining b else b
      | NodeBlockDraining \<Rightarrow>
          if \<not> nb_drain b then setPhase now NodeBlockActive b
          else if nb_used b = 0 \<and> since \<ge> bc_drain_settle cfg then setPhase now NodeBlockQuarantined b else b
      | _ \<Rightarrow> b)"

definition planned_node_block :: "go_time \<Rightarrow> planned_block \<Rightarrow> node_block" where
  "planned_node_block now pb = \<lparr>nb_name = blockName (pb_cidr pb), nb_created = now, nb_node = pb_node pb, nb_pool = [], nb_cidr = pb_cidr pb,
     nb_drain = False, nb_initial = False, nb_release = [], nb_phase = NodeBlockPending, nb_used = 0, nb_half_usage = [],
     nb_release_ready = [], nb_reclaimed = 0, nb_acked = [], nb_transition = Some now\<rparr>"

definition add_planned :: "go_time \<Rightarrow> (string \<times> node_block) list \<Rightarrow> planned_block \<Rightarrow> (string \<times> node_block) list" where
  "add_planned now bs pb = AList.update (blockName (pb_cidr pb)) (planned_node_block now pb) bs"

definition set_drains :: "bool \<Rightarrow> (string \<times> node_block) list \<Rightarrow> string \<Rightarrow> (string \<times> node_block) list" where
  "set_drains d bs n = AList.map_entry n (\<lambda>b. b\<lparr>nb_drain := d\<rparr>) bs"

definition toward_zero :: "rat \<Rightarrow> int" where
  "toward_zero x = (if x \<ge> 0 then \<lfloor>x\<rfloor> else - \<lfloor>- x\<rfloor>)"

definition apply_plan :: "go_time \<Rightarrow> pool_plan \<Rightarrow> (string \<times> node_block) list \<Rightarrow> (string \<times> node_block) list" where
  "apply_plan now plan bs =
     (let bs = foldl (add_planned now) bs (pp_new plan);
          bs = foldl (set_drains True) bs (pp_drain plan);
          bs = foldl (set_drains False) bs (pp_undrain plan)
      in foldl (\<lambda>bs n. AList.delete n bs) bs (pp_delete plan))"

text \<open>\<open>PlanPool\<close> of planapi.go, the planner with the inputs that the simulator has.\<close>

definition PlanPool ::
  "pool_spec \<Rightarrow> node list \<Rightarrow> node_block list \<Rightarrow> go_time \<Rightarrow> (string \<Rightarrow> go_time) \<Rightarrow> (string \<Rightarrow> int) \<Rightarrow> pool_plan" where
  "PlanPool spec nds blocks now st wt = planPool spec nds blocks
     \<lparr>in_now = now, in_starved = st, in_last_change = (\<lambda>_. 0), in_waiting = wt, in_pods = (\<lambda>_. 0)\<rparr>"

definition buddy_tick :: "('r, 'z) rng_scheme \<Rightarrow> 'r buddy_policy \<Rightarrow> rat \<Rightarrow> 'r buddy_policy" where
  "buddy_tick G p t =
     (let now = sim_epoch + toward_zero (to_float (t * of_int second));
          bs = map (\<lambda>(n, b). (n, agent_delay (bu_cfg p) now b)) (bu_blocks p);
          items = List.map_filter (map_of bs) (rn_order G (map fst bs));
          plan = PlanPool (bu_spec p) (bu_nodes p) items now (bu_starved p) (bu_waiting p)
      in p\<lparr>bu_now := now, bu_waiting := (\<lambda>_. 0), bu_blocks := apply_plan now plan bs,
           bu_ops := bu_ops p + int (length (pp_new plan) + length (pp_drain plan) + length (pp_delete plan))\<rparr>)"

subsection \<open>Counts\<close>

definition buddy_pods :: "'r buddy_policy \<Rightarrow> nat \<Rightarrow> int" where
  "buddy_pods p n = sum_list (map nb_used (mine p n))"

definition buddy_allocated :: "'r buddy_policy \<Rightarrow> int" where
  "buddy_allocated p = sum_list (map (blockSize \<circ> snd) (bu_blocks p))"

definition routed :: "'r buddy_policy \<Rightarrow> string \<Rightarrow> string list" where
  "routed p owner = map nb_cidr (filter (\<lambda>b. nb_node b = owner \<and> nb_phase b \<noteq> NodeBlockQuarantined \<and> nb_phase b \<noteq> NodeBlockReleased)
     (map snd (bu_blocks p)))"

definition buddy_routes :: "'r buddy_policy \<Rightarrow> int" where
  "buddy_routes p =
     sum_list (map (\<lambda>owner. case aggregate (routed p owner) of Inl _ \<Rightarrow> 0 | Inr agg \<Rightarrow> int (length agg))
       (remdups (map (nb_node \<circ> snd) (bu_blocks p))))"

definition buddy_admitted :: "'r buddy_policy \<Rightarrow> int" where
  "buddy_admitted p = int (length (remdups (map (nb_node \<circ> snd) (bu_blocks p))))"

definition buddy_impl :: "('r, 'z) rng_scheme \<Rightarrow> string \<Rightarrow> ('r buddy_policy) policy" where
  "buddy_impl G name = \<lparr>po_name = name,
     po_place = (\<lambda>p n k. let gs = groups (mine p n) in buddy_place G gs (nat k) (map free_in gs) p 0),
     po_remove = (\<lambda>p n k. buddy_remove G (map nb_name (mine p n)) (nat k) p), po_churn = buddy_churn G, po_starved = buddy_starved,
     po_tick = buddy_tick G, po_pods = buddy_pods, po_allocated = buddy_allocated, po_routes = buddy_routes, po_ops = bu_ops,
     po_admitted = buddy_admitted\<rparr>"

end
