(* ===== verification/Sim_Buddy_Inv.thy ===== *)
theory Sim_Buddy_Inv
  imports Sim_Buddy
begin

text \<open>
  The simulated table of blocks keeps the invariant of the cluster, whatever the workload and the random draws: its blocks stay disjoint
  and inside the pool. The buddy policy meets the contract of a policy.
\<close>

definition table_ok :: "bref set \<Rightarrow> (string \<times> node_block) list \<Rightarrow> bool" where
  "table_ok R bs \<longleftrightarrow> distinct (map fst bs) \<and> cluster_inv [] R (map_of bs) \<and> (\<forall>n b. map_of bs n = Some b \<longrightarrow> 0 \<le> nb_used b)"

definition buddy_ok :: "bref set \<Rightarrow> 'r buddy_policy \<Rightarrow> bool" where
  "buddy_ok R p \<longleftrightarrow> table_ok R (bu_blocks p) \<and> 0 \<le> sp_max_block (bu_spec p) \<and> pool_ranges (bu_spec p) (bu_nodes p) = R"

lemma table_okD:
  assumes "table_ok R bs"
  shows "distinct (map fst bs)" "cluster_inv [] R (map_of bs)" "map_of bs n = Some b \<Longrightarrow> 0 \<le> nb_used b"
  using assms unfolding table_ok_def by blast+

lemma buddy_okD: "buddy_ok R p \<Longrightarrow> table_ok R (bu_blocks p)"
  by (simp add: buddy_ok_def)

lemma keys_map_entry [simp]: "map fst (AList.map_entry k f bs) = map fst bs"
  by (induction bs) auto

text \<open>Changing how a block is used, or its phase to another that is not Released, keeps the invariant.\<close>

definition keeps_place :: "(node_block \<Rightarrow> node_block) \<Rightarrow> bool" where
  "keeps_place f \<longleftrightarrow> (\<forall>b. nb_name (f b) = nb_name b \<and> nb_pool (f b) = nb_pool b \<and> nb_cidr (f b) = nb_cidr b \<and>
     (blockPhase (f b) = NodeBlockReleased \<longrightarrow> blockPhase b = NodeBlockReleased))"

lemma cluster_inv_modify:
  assumes "cluster_inv pool R m" "\<And>n b. m' n = Some b \<Longrightarrow> \<exists>a f. m n = Some a \<and> keeps_place f \<and> b = f a"
  shows "cluster_inv pool R m'"
  unfolding cluster_inv_def
proof (intro conjI allI impI)
  fix n b assume "m' n = Some b"
  then obtain a f where a: "m n = Some a" "keeps_place f" "b = f a" using assms(2) by blast
  then show "nb_name b = n" "blockPhase b \<noteq> NodeBlockReleased" "nb_pool b = pool" "fits R b"
    using cluster_invD[OF assms(1) a(1)] by (auto simp: keeps_place_def fits_def)
next
  fix n k b c assume "m' n = Some b" "m' k = Some c" "n \<noteq> k"
  then obtain a f d g where "m n = Some a" "keeps_place f" "b = f a" "m k = Some d" "keeps_place g" "c = g d" using assms(2) by meson
  then show "cidr_span (nb_cidr b) \<inter> cidr_span (nb_cidr c) = {}"
    using cluster_invD(5)[OF assms(1)] \<open>n \<noteq> k\<close> by (simp add: keeps_place_def)
qed

lemma keeps_place_rules:
  "keeps_place (\<lambda>b. b\<lparr>nb_used := f b\<rparr>)" "keeps_place (\<lambda>b. b\<lparr>nb_drain := d\<rparr>)" "keeps_place (\<lambda>b. b)" "keeps_place (agent_delay cfg now)"
  by (auto simp: keeps_place_def agent_delay_def setPhase_def blockPhase_def Let_def split: block_phase.splits)

lemma cluster_inv_entry: "cluster_inv pool R (map_of bs) \<Longrightarrow> keeps_place f \<Longrightarrow> cluster_inv pool R (map_of (AList.map_entry n f bs))"
  by (rule cluster_inv_modify) (auto simp: map_of_map_entry split: if_splits option.splits intro: keeps_place_rules(3))

subsection \<open>Pods\<close>

lemma add_used_simps [simp]:
  "bu_rng (add_used m d p) = bu_rng p" "bu_spec (add_used m d p) = bu_spec p" "bu_nodes (add_used m d p) = bu_nodes p"
  "map fst (bu_blocks (add_used m d p)) = map fst (bu_blocks p)"
  by (simp_all add: add_used_def)

lemma buddy_ok_rng [simp]: "buddy_ok R (p\<lparr>bu_rng := r\<rparr>) = buddy_ok R p"
  by (simp add: buddy_ok_def)

lemma used_by_nonneg: "buddy_ok R p \<Longrightarrow> 0 \<le> used_by p m"
  using table_okD(3)[OF buddy_okD] by (auto simp: used_by_def split: option.splits)

lemma table_ok_entry:
  assumes "table_ok R bs" "keeps_place f" "\<And>b. map_of bs n = Some b \<Longrightarrow> 0 \<le> nb_used (f b)"
  shows "table_ok R (AList.map_entry n f bs)"
  using assms cluster_inv_entry[OF table_okD(2)[OF assms(1)] assms(2)]
  by (auto simp: table_ok_def map_of_map_entry split: option.splits)

lemma buddy_ok_add_used:
  assumes "buddy_ok R p" "0 \<le> used_by p m + d"
  shows "buddy_ok R (add_used m d p)"
proof -
  have "table_ok R (AList.map_entry m (\<lambda>b. b\<lparr>nb_used := nb_used b + d\<rparr>) (bu_blocks p))"
    by (rule table_ok_entry[OF buddy_okD[OF assms(1)] keeps_place_rules(1)]) (use assms(2) in \<open>auto simp: used_by_def\<close>)
  then show ?thesis using assms(1) by (simp add: buddy_ok_def add_used_def)
qed

text \<open>A block of the table that belongs to the node.\<close>

definition present :: "'r buddy_policy \<Rightarrow> nat \<Rightarrow> string \<Rightarrow> bool" where
  "present p n m \<longleftrightarrow> (\<exists>b. map_of (bu_blocks p) m = Some b \<and> nb_node b = nodeName n)"

lemma present_add_used [simp]: "present (add_used m' d p) n m = present p n m"
  by (auto simp: present_def add_used_def map_of_map_entry split: option.splits)

lemma present_rng [simp]: "present (p\<lparr>bu_rng := r\<rparr>) n m = present p n m"
  by (simp add: present_def)

lemma sum_insert_by: "sum_list (map f (insert_by lt x xs)) = f x + (sum_list (map f xs) :: int)"
  by (induction xs) auto

lemma sum_sort_by: "sum_list (map f (sort_by lt xs)) = (sum_list (map f xs) :: int)"
  by (induction xs) (auto simp: sort_by_Cons sum_insert_by)

lemma buddy_pods_filter: "buddy_pods p n = sum_list (map nb_used (filter (\<lambda>b. nb_node b = nodeName n) (map snd (bu_blocks p))))"
  by (simp add: buddy_pods_def mine_def sum_sort_by)

lemma buddy_pods_rng [simp]: "buddy_pods (p\<lparr>bu_rng := r\<rparr>) n = buddy_pods p n"
  by (simp add: buddy_pods_def mine_def)

lemma pods_entry:
  "map_of bs m = Some b \<Longrightarrow> nb_node b = w \<Longrightarrow>
   sum_list (map nb_used (filter (\<lambda>b. nb_node b = w) (map snd (AList.map_entry m (\<lambda>b. b\<lparr>nb_used := nb_used b + d\<rparr>) bs)))) =
   sum_list (map nb_used (filter (\<lambda>b. nb_node b = w) (map snd bs))) + d"
  by (induction bs) (auto split: if_splits)

lemma buddy_pods_add: "present p n m \<Longrightarrow> buddy_pods (add_used m d p) n = buddy_pods p n + d"
  using pods_entry by (auto simp: present_def buddy_pods_filter add_used_def)

lemma mine_present:
  assumes "buddy_ok R p"
  shows "m \<in> nb_name ` set (mine p n) \<longleftrightarrow> present p n m" "distinct (map nb_name (mine p n))"
    "buddy_pods p n = sum_list (map (used_by p) (map nb_name (mine p n)))"
proof -
  let ?bs = "bu_blocks p"
  note d = table_okD(1)[OF buddy_okD[OF assms]] and inv = table_okD(2)[OF buddy_okD[OF assms]]
  have name: "nb_name b = k" if "(k, b) \<in> set ?bs" for k b
    using cluster_invD(1)[OF inv] that d by (simp add: map_of_is_SomeI)
  show "m \<in> nb_name ` set (mine p n) \<longleftrightarrow> present p n m"
    using name d by (force simp: mine_def present_def map_of_eq_Some_iff)
  have "map nb_name (map snd ?bs) = map fst ?bs" using name by auto
  with d have "distinct (map nb_name (map snd ?bs))" by presburger
  then have "distinct (map snd ?bs)" "inj_on nb_name (set (map snd ?bs))" using distinct_map by blast+
  then show "distinct (map nb_name (mine p n))"
    by (auto simp: distinct_map mine_def distinct_sort_by intro: inj_on_subset)
  have "nb_used b = used_by p (nb_name b)" if "b \<in> set (mine p n)" for b
  proof -
    obtain k where k: "(k, b) \<in> set ?bs" using \<open>b \<in> set (mine p n)\<close> by (auto simp: mine_def)
    then have "map_of ?bs (nb_name b) = Some b" using d name[OF k] by simp
    then show "nb_used b = used_by p (nb_name b)" by (simp add: used_by_def)
  qed
  then show "buddy_pods p n = sum_list (map (used_by p) (map nb_name (mine p n)))"
    unfolding buddy_pods_def by (simp cong: map_cong)
qed

text \<open>Each range that host-local serves holds one of the blocks that it was merged from, so \<open>Place\<close> never draws from an empty list.\<close>

lemma aggregate_holds_input:
  assumes "\<forall>d \<in> set cs. parse_cidr d \<noteq> None" "apart_set (pfx_of ` set cs)" "aggregate cs = Inr out" "c \<in> set out"
  shows "\<exists>d \<in> set cs. cidr_span d \<subseteq> cidr_span c"
proof -
  define qs where "qs = agg_loop (fold List.insert (map pfx_of cs) [])"
  note ok = aggregate_ok[OF assms(1), folded qs_def] and o = aggregate_output[OF assms(1,3), folded qs_def]
  have c: "pfx_of c \<in> set qs" "parse_cidr c \<noteq> None" using o assms(4) by auto
  let ?x = "unat (fst (pfx_of c))"
  have x: "?x \<in> pspan (pfx_of c)" using base_in_span by auto
  then have "?x \<in> covered (pfx_of ` set cs)" using c(1) ok(2) by blast
  then obtain d where d: "d \<in> set cs" "?x \<in> pspan (pfx_of d)" by blast
  have "pspan (pfx_of d) \<subseteq> covered (set qs)" using ok(2) d(1) by blast
  then obtain p where p: "p \<in> set qs" "pspan (pfx_of d) \<subseteq> pspan p"
    using merged_set_maximal[OF finite_set ok(3) ok(6)[OF assms(2)] ok(4) pfx_of_ok] assms(1) d(1) by blast
  then have "p = pfx_of c" using ok(6)[OF assms(2)] c(1) x d(2) unfolding apart_set_def by blast
  then show ?thesis using p(2) d(1) c(2) assms(1) by (auto simp: cidr_span_pfx)
qed

lemma group_has_member:
  assumes "buddy_ok R p" "g \<in> set (groups (mine p n))"
  shows "snd g \<noteq> []"
proof -
  note inv = table_okD(2)[OF buddy_okD[OF assms(1)]] and dist = table_okD(1)[OF buddy_okD[OF assms(1)]]
  define fs where "fs = filter placeable (mine p n)"
  obtain out c where out: "aggregate (map nb_cidr fs) = Inr out" "c \<in> set out" "g = (c, filter (\<lambda>b. placeable b \<and> in_range c b) (mine p n))"
    using assms(2) by (cases "aggregate (map nb_cidr fs)") (auto simp: groups_def fs_def)
  have key: "\<exists>k. map_of (bu_blocks p) k = Some b" if "b \<in> set fs" for b
    using that dist by (auto simp: fs_def mine_def intro: map_of_is_SomeI)
  then have parse: "parse_cidr (nb_cidr b) \<noteq> None" if "b \<in> set fs" for b
    using cluster_invD(4)[OF inv] key[OF that] unfolding fits_def by blast
  have "apart_set (pfx_of ` set (map nb_cidr fs))"
    unfolding apart_set_def
  proof (intro ballI impI)
    fix u v assume "u \<in> pfx_of ` set (map nb_cidr fs)" "v \<in> pfx_of ` set (map nb_cidr fs)" "u \<noteq> v"
    then obtain b d where b: "b \<in> set fs" "u = pfx_of (nb_cidr b)" and d: "d \<in> set fs" "v = pfx_of (nb_cidr d)" by auto
    obtain k l where k: "map_of (bu_blocks p) k = Some b" and l: "map_of (bu_blocks p) l = Some d" using key b(1) d(1) by blast
    then have "k \<noteq> l" using b(2) d(2) \<open>u \<noteq> v\<close> by auto
    then show "pspan u \<inter> pspan v = {}" using cluster_invD(5)[OF inv k l] parse b d by (simp add: cidr_span_pfx)
  qed
  from aggregate_holds_input[OF _ this out(1,2)] parse
  obtain b where b: "b \<in> set fs" "cidr_span (nb_cidr b) \<subseteq> cidr_span c" by auto
  obtain ip m where ip: "parse_cidr (nb_cidr b) = Some (ip, m)" using parse[OF b(1)] by auto
  have "net_contains m ip" using parse_cidr_bounds(2)[OF ip] by (simp add: net_contains_def)
  then have "unat ip \<in> cidr_span c" using net_contains_span[OF ip] b(2) by blast
  moreover obtain j k where c: "parse_cidr c = Some (j, k)" using calculation by (auto simp: cidr_span_def split: option.splits)
  ultimately have "in_range c b" using ip net_contains_span[OF c] by (simp add: in_range_def)
  then have "b \<in> set (snd g)" using b(1) by (simp add: out(3) fs_def)
  then show ?thesis by auto
qed

lemma buddy_place_ok:
  assumes "rng_laws G"
  shows "buddy_ok R p \<Longrightarrow> \<forall>x \<in> set frees. 0 \<le> x \<Longrightarrow> length frees = length gs \<Longrightarrow> \<forall>g \<in> set gs. \<forall>b \<in> set (snd g). present p n (nb_name b) \<Longrightarrow>
    buddy_place G gs k frees p a = (p', c) \<Longrightarrow>
    buddy_ok R p' \<and> a \<le> c \<and> c \<le> a + int k \<and> buddy_pods p' n = buddy_pods p n + (c - a)"
proof (induction k arbitrary: p frees a)
  case (Suc k)
  obtain r i where 1: "pickWeighted G (bu_rng p) frees = (r, i)" by fastforce
  show ?case
  proof (cases i)
    case None
    then show ?thesis using Suc.prems 1 by auto
  next
    case (Some i)
    have i: "i < length gs" "0 < frees ! i" using pickWeighted_Some[OF assms 1[unfolded Some] Suc.prems(2)] Suc.prems(3) by auto
    let ?ms = "snd (gs ! i)"
    obtain r' j where 2: "pickWeighted G r (map blockSize ?ms) = (r', j)" by fastforce
    show ?thesis
    proof (cases j)
      case None
      then show ?thesis using Suc.prems 1 2 Some by (auto simp: Let_def)
    next
      case j: (Some j)
      have "j < length ?ms" using pickWeighted_Some(1)[OF assms 2[unfolded j]] by (auto simp: blockSize_def)
      then have m: "present p n (nb_name (?ms ! j))" using Suc.prems(4) i(1) by (meson nth_mem)
      let ?p = "add_used (nb_name (?ms ! j)) 1 (p\<lparr>bu_rng := r'\<rparr>)"
      have ok: "buddy_ok R ?p" using Suc.prems(1) used_by_nonneg[of R "p\<lparr>bu_rng := r'\<rparr>"] by (intro buddy_ok_add_used) auto
      have fr: "\<forall>x \<in> set (frees[i := frees ! i - 1]). 0 \<le> x"
        using Suc.prems(2) i(2) set_update_subset_insert[of frees i "frees ! i - 1"] by fastforce
      have "buddy_place G gs k (frees[i := frees ! i - 1]) ?p (a + 1) = (p', c)"
        using Suc.prems(5) 1 2 Some j by (simp add: Let_def)
      from Suc.IH[OF ok fr _ _ this] show ?thesis
        using Suc.prems(3,4) buddy_pods_add[of "p\<lparr>bu_rng := r'\<rparr>" n "nb_name (?ms ! j)" 1] m by simp
    qed
  qed
qed simp

lemma pods_by_name:
  assumes "buddy_ok R p" "distinct names" "set names = {m. present p n m}"
  shows "sum_list (map (used_by p) names) = buddy_pods p n"
proof -
  have "set (map nb_name (mine p n)) = set names" using mine_present(1)[OF assms(1)] assms(3) by auto
  then show ?thesis
    using mine_present(2,3)[OF assms(1), of n] assms(2) by (simp only: sum_list_distinct_conv_sum_set)
qed

lemma buddy_remove_ok:
  assumes "rng_laws G"
  shows "buddy_ok R p \<Longrightarrow> distinct names \<Longrightarrow> set names = {m. present p n m} \<Longrightarrow> int k \<le> buddy_pods p n \<Longrightarrow>
    buddy_ok R (buddy_remove G names k p) \<and> buddy_pods (buddy_remove G names k p) n = buddy_pods p n - int k"
proof (induction k arbitrary: p)
  case (Suc k)
  obtain r i where 1: "pickWeighted G (bu_rng p) (map (used_by p) names) = (r, i)" by fastforce
  have w: "sum_list (map (used_by p) names) = buddy_pods p n" by (rule pods_by_name[OF Suc.prems(1-3)])
  show ?case
  proof (cases i)
    case None
    then show ?thesis using 1 w Suc.prems(4) by (simp add: pickWeighted_None)
  next
    case (Some i)
    have i: "i < length names" "0 < used_by p (names ! i)"
      using pickWeighted_Some[OF assms 1[unfolded Some]] used_by_nonneg[OF Suc.prems(1)] by auto
    then have pr: "present p n (names ! i)" using Suc.prems(3) nth_mem[OF i(1)] by auto
    let ?p = "add_used (names ! i) (- 1) (p\<lparr>bu_rng := r\<rparr>)"
    have ub: "used_by (p\<lparr>bu_rng := r\<rparr>) = used_by p" by (auto simp: used_by_def)
    have ok: "buddy_ok R ?p" using Suc.prems(1) i(2) ub by (intro buddy_ok_add_used) auto
    have pods: "buddy_pods ?p n = buddy_pods p n - 1" using buddy_pods_add[of "p\<lparr>bu_rng := r\<rparr>" n "names ! i" "- 1"] pr by simp
    show ?thesis using Suc.IH[OF ok Suc.prems(2)] Suc.prems(3,4) pods 1 Some by simp
  qed
qed simp

lemma buddy_churn_ok:
  assumes "buddy_ok R p"
  shows "buddy_ok R (buddy_churn G p q)"
proof -
  have step: "buddy_ok R (churn_block G q p m)" if "buddy_ok R p" for p :: "'a buddy_policy" and m
  proof -
    obtain r d where d: "binomial_draw G (bu_rng p) (used_by p m) q = (r, d)" by fastforce
    have "d \<le> used_by p m" using binomial_draw_bounds[OF d used_by_nonneg[OF that]] by simp
    moreover have "used_by (p\<lparr>bu_rng := r\<rparr>) m = used_by p m" by (simp add: used_by_def)
    ultimately show ?thesis using that d buddy_ok_add_used[of R "p\<lparr>bu_rng := r\<rparr>" m "- d"] by (simp add: churn_block_def)
  qed
  have "buddy_ok R (foldl (churn_block G q) p ns)" for ns
    using assms by (induction ns arbitrary: p) (auto intro: step)
  then show ?thesis by (simp add: buddy_churn_def)
qed

subsection \<open>A tick\<close>

lemma table_ok_delete: "table_ok R bs \<Longrightarrow> table_ok R (AList.delete n bs)"
  using cluster_inv_delete[of "[]" R "map_of bs" n] by (auto simp: table_ok_def AList.delete_conv' distinct_delete)

lemma add_planned_ok:
  "table_ok R bs \<Longrightarrow> creatable R (map_of bs) pbs \<Longrightarrow> table_ok R (foldl (add_planned now) bs pbs)"
proof (induction pbs arbitrary: bs)
  case (Cons pb pbs)
  let ?b = "planned_node_block now pb" and ?n = "blockName (pb_cidr pb)"
  have c: "\<forall>n c. map_of bs n = Some c \<longrightarrow> cidr_span (pb_cidr pb) \<inter> cidr_span (nb_cidr c) = {}" "fits R ?b"
    using Cons.prems(2) by (auto simp: creatable_def fits_def planned_node_block_def)
  have inv: "cluster_inv [] R ((map_of bs)(?n \<mapsto> ?b))"
    by (rule cluster_inv_put) (use Cons.prems(1) c in \<open>auto simp: table_ok_def planned_node_block_def blockPhase_def\<close>)
  have up: "map_of (add_planned now bs pb) = (map_of bs)(?n \<mapsto> ?b)" by (simp add: add_planned_def AList.update_conv')
  have "table_ok R (add_planned now bs pb)"
    unfolding table_ok_def up using inv table_okD[OF Cons.prems(1)]
    by (auto simp: add_planned_def distinct_update planned_node_block_def)
  moreover have "creatable R (map_of (add_planned now bs pb)) pbs"
    using creatable_Cons[OF Cons.prems(2)] unfolding up creatable_def
    by (auto simp: planned_node_block_def Int_commute)
  ultimately show ?case using Cons.IH by simp
qed simp

lemma apply_plan_ok:
  assumes "table_ok R bs" "creatable R (map_of bs) (pp_new plan)"
  shows "table_ok R (apply_plan now plan bs)"
proof -
  have drains: "table_ok R (foldl (set_drains d) bs ns)" if "table_ok R bs" for d bs ns
  proof -
    have "table_ok R (set_drains d bs n)" if "table_ok R bs" for bs n
      unfolding set_drains_def by (rule table_ok_entry[OF that keeps_place_rules(2)]) (use table_okD(3)[OF that] in simp)
    then show ?thesis using \<open>table_ok R bs\<close> by (induction ns arbitrary: bs) auto
  qed
  have deletes: "table_ok R (foldl (\<lambda>bs n. AList.delete n bs) bs ns)" if "table_ok R bs" for bs ns
    using that by (induction ns arbitrary: bs) (auto intro: table_ok_delete)
  show ?thesis unfolding apply_plan_def Let_def by (intro deletes drains add_planned_ok assms)
qed

lemma buddy_tick_ok:
  assumes "rng_laws G" "buddy_ok R p"
  shows "buddy_ok R (buddy_tick G p t)"
proof -
  define now where "now = sim_epoch + toward_zero (to_float (t * of_int second))"
  let ?f = "agent_delay (bu_cfg p) now"
  define bs where "bs = map (\<lambda>(n, b). (n, ?f b)) (bu_blocks p)"
  have m: "map_of bs = map_option ?f \<circ> map_of (bu_blocks p)" unfolding bs_def by (simp add: map_of_map)
  have keys: "map fst bs = map fst (bu_blocks p)" unfolding bs_def by (induction "bu_blocks p") auto
  note old = buddy_okD[OF assms(2)]
  have inv: "cluster_inv [] R (map_of bs)"
    by (rule cluster_inv_modify[OF table_okD(2)[OF old]]) (auto simp: m intro: keeps_place_rules(4))
  have "nb_used (?f b) = nb_used b" for b by (auto simp: agent_delay_def setPhase_def Let_def split: block_phase.splits)
  then have tab: "table_ok R bs" unfolding table_ok_def keys using table_okD[OF old] inv by (auto simp: m)
  define items where "items = List.map_filter (map_of bs) (rn_order G (map fst bs))"
  have ord: "set (rn_order G (map fst bs)) = set (map fst bs)" "distinct (rn_order G (map fst bs))"
    using rng_lawsD(2)[OF assms(1), of "map fst bs"] table_okD(1)[OF tab] mset_eq_setD mset_eq_imp_distinct_iff by metis+
  note name = cluster_invD(1)[OF inv]
  have mem: "b \<in> set items \<longleftrightarrow> map_of bs (nb_name b) = Some b" for b
  proof
    assume "b \<in> set items"
    then obtain k where "map_of bs k = Some b" by (auto simp: items_def List.map_filter_def)
    then show "map_of bs (nb_name b) = Some b" using name by simp
  next
    assume b: "map_of bs (nb_name b) = Some b"
    then have "nb_name b \<in> set (map fst bs)" by (force dest: map_of_SomeD)
    then show "b \<in> set items" using b ord(1) by (force simp: items_def List.map_filter_def)
  qed
  have "distinct items"
    using ord(2) by (auto simp: items_def List.map_filter_def distinct_map inj_on_def) (metis name)
  from plan_creatable[OF _ inv this mem] assms(2)
  have "creatable R (map_of bs) (pp_new (planPool (bu_spec p) (bu_nodes p) items inp))" for inp by (simp add: buddy_ok_def)
  from apply_plan_ok[OF tab this] show ?thesis
    using assms(2) by (simp add: buddy_tick_def PlanPool_def Let_def buddy_ok_def items_def bs_def now_def)
qed

text \<open>The blocks of the table are disjoint and inside the ranges, so their sizes add up to at most the size of the ranges.\<close>

lemma num_of_digits: "num_of a xs = Some k \<Longrightarrow> \<forall>x \<in> set xs. digit_val x \<noteq> None"
  by (induction xs arbitrary: a) (auto split: option.splits)

lemma scan_prefix_skip: "CHR ''/'' \<notin> set xs \<Longrightarrow> scan_prefix p (xs @ ys) = scan_prefix p ys"
  by (induction xs) auto

lemma prefixLen_parse:
  assumes "parse_cidr c = Some (ip, n)"
  shows "prefixLen c = int (net_ones n)"
proof -
  define a where "a = takeWhile (\<lambda>x. x \<noteq> CHR ''/'') c"
  obtain x m where m: "dropWhile (\<lambda>x. x \<noteq> CHR ''/'') c = x # m" "parse_mask m = Some (net_ones n)"
    using assms by (auto simp: parse_cidr_def Let_def split: list.splits option.splits)
  have "x = CHR ''/''" using hd_dropWhile[of "\<lambda>x. x \<noteq> CHR ''/''" c] m(1) by simp
  moreover have "a @ x # m = c" unfolding a_def m(1)[symmetric] by (rule takeWhile_dropWhile_id)
  ultimately have c: "c = a @ CHR ''/'' # m" by blast
  have a: "CHR ''/'' \<notin> set a" by (auto simp: a_def dest: set_takeWhileD)
  have num: "num_of 0 m = Some (net_ones n)" "m \<noteq> []" using m(2) by (auto simp: parse_mask_def split: if_splits option.splits)
  note d = num_of_digits[OF num(1)]
  have "digit_val (CHR ''/'') = None" "digit_val (CHR '' '') = None" "digit_val (CHR ''-'') = None" "digit_val (CHR ''+'') = None"
    by (simp_all add: digit_val_def)
  then have no: "\<forall>x \<in> set m. x \<noteq> CHR ''/'' \<and> x \<noteq> CHR '' '' \<and> x \<noteq> CHR ''-'' \<and> x \<noteq> CHR ''+''" using d by metis
  obtain y ys where y: "m = y # ys" using num(2) by (cases m) auto
  have "dropWhile (\<lambda>c. c = CHR '' '') m = m" "\<not> has_prefix ''-'' m" "\<not> has_prefix ''+'' m" using no by (auto simp: y)
  moreover have "takeWhile (\<lambda>c. digit_val c \<noteq> None) m = m" using d by simp
  ultimately have "leading_int m = Some (int (net_ones n))" using num by (simp add: leading_int_def Let_def del: not_None_eq takeWhile_eq_all_conv)
  then show ?thesis using scan_prefix_skip[of m "int (net_ones n)" "[]"] no scan_prefix_skip[OF a] unfolding prefixLen_def c by auto
qed

lemma blockSize_span:
  assumes "parse_cidr (nb_cidr b) \<noteq> None"
  shows "blockSize b = int (card (cidr_span (nb_cidr b)))"
proof -
  obtain ip n where n: "parse_cidr (nb_cidr b) = Some (ip, n)" using assms by auto
  show ?thesis using parse_cidr_bounds(1)[OF n] prefixLen_parse[OF n]
    by (simp add: blockSize_def cidr_span_def n Block_Tree.span_def addresses_def push_bit_eq_mult nat_diff_distrib flip: of_nat_diff)
qed

lemma finite_cidr_span: "finite (cidr_span c)"
  by (auto simp: cidr_span_def Block_Tree.span_def split: option.splits)

lemma table_size:
  assumes "table_ok R bs" "finite R"
  shows "sum_list (map (blockSize \<circ> snd) bs) \<le> int (card (\<Union>r \<in> R. pspan r))"
proof -
  note t = table_okD(1,2)[OF assms(1)]
  let ?S = "\<lambda>kb. cidr_span (nb_cidr (snd kb))"
  have m: "map_of bs k = Some b" if "(k, b) \<in> set bs" for k b using that t(1) by simp
  have fit: "fits R b" if "(k, b) \<in> set bs" for k b using cluster_invD(4)[OF t(2) m[OF that]] .
  have "sum_list (map (blockSize \<circ> snd) bs) = (\<Sum>kb \<in> set bs. blockSize (snd kb))"
    using t(1) by (simp add: sum_list_distinct_conv_sum_set distinct_map o_def)
  also have "\<dots> = (\<Sum>kb \<in> set bs. int (card (?S kb)))"
    using fit by (intro sum.cong refl blockSize_span) (auto simp: fits_def)
  also have "\<dots> = int (card (\<Union>kb \<in> set bs. ?S kb))"
  proof (subst card_UN_disjoint)
    show "\<forall>i \<in> set bs. \<forall>j \<in> set bs. i \<noteq> j \<longrightarrow> ?S i \<inter> ?S j = {}"
    proof (intro ballI impI)
      fix i j assume ij: "i \<in> set bs" "j \<in> set bs" "i \<noteq> j"
      then have "map_of bs (fst i) = Some (snd i)" "map_of bs (fst j) = Some (snd j)" using m by (metis prod.collapse)+
      moreover from this ij(3) have "fst i \<noteq> fst j" by (metis option.inject prod_eqI)
      ultimately show "?S i \<inter> ?S j = {}" using cluster_invD(5)[OF t(2)] by blast
    qed
  qed (auto simp: finite_cidr_span)
  also have "\<dots> \<le> int (card (\<Union>r \<in> R. pspan r))"
  proof -
    have "(\<Union>kb \<in> set bs. ?S kb) \<subseteq> (\<Union>r \<in> R. pspan r)" using fit by (fastforce simp: fits_def)
    moreover have "finite (\<Union>r \<in> R. pspan r)" using assms(2) by (simp add: Block_Tree.span_def)
    ultimately show ?thesis by (simp add: card_mono)
  qed
  finally show ?thesis .
qed

lemma buddy_contract:
  assumes G: "rng_laws G" and cap: "finite R" "int (card (\<Union>r \<in> R. pspan r)) \<le> cap"
  shows "allocation_policy (buddy_impl G name) (buddy_ok R) N cap"
proof unfold_locales
  fix p p' :: "'a buddy_policy" and n k got
  assume p: "buddy_ok R p"
  note mine = mine_present(1)[OF p, of _ n] mine_present(2,3)[OF p, of n]
  {
    assume k: "0 \<le> k" "po_place (buddy_impl G name) p n k = (p', got)"
    let ?gs = "groups (mine p n)"
    have "\<forall>g \<in> set ?gs. \<forall>b \<in> set (snd g). present p n (nb_name b)"
      by (auto simp: groups_def simp flip: mine(1) split: sum.splits)
    from buddy_place_ok[OF G p _ _ this, of "map free_in ?gs" "nat k" 0 p' got] k
    show "buddy_ok R p' \<and> 0 \<le> got \<and> got \<le> k \<and> po_pods (buddy_impl G name) p' n = po_pods (buddy_impl G name) p n + got"
      by (auto simp: buddy_impl_def Let_def free_in_def)
  }
  {
    assume k: "0 \<le> k" "k \<le> po_pods (buddy_impl G name) p n"
    have "set (map nb_name (mine p n)) = {m. present p n m}" using mine(1) by auto
    from buddy_remove_ok[OF G p mine(2) this, of "nat k"] k
    show "buddy_ok R (po_remove (buddy_impl G name) p n k) \<and>
        po_pods (buddy_impl G name) (po_remove (buddy_impl G name) p n k) n = po_pods (buddy_impl G name) p n - k"
      by (simp add: buddy_impl_def)
  }
  show "0 \<le> po_pods (buddy_impl G name) p n"
    using used_by_nonneg[OF p] mine(3) by (auto simp: buddy_impl_def intro!: sum_list_nonneg)
next
  fix p :: "'a buddy_policy" and n w
  assume "buddy_ok R p"
  then show "buddy_ok R (po_starved (buddy_impl G name) p n w) \<and>
      po_pods (buddy_impl G name) (po_starved (buddy_impl G name) p n w) n = po_pods (buddy_impl G name) p n"
    by (simp add: buddy_impl_def buddy_starved_def buddy_ok_def buddy_pods_def mine_def)
next
  fix p :: "'a buddy_policy"
  assume "buddy_ok R p"
  from table_size[OF buddy_okD[OF this] cap(1)] show "po_allocated (buddy_impl G name) p \<le> cap"
    using cap(2) by (simp add: buddy_impl_def buddy_allocated_def)
qed (auto simp: buddy_impl_def intro: buddy_churn_ok buddy_tick_ok[OF G])

end
