(* ===== verification/Sim_Calico.thy ===== *)
theory Sim_Calico
  imports Sim_Policy
begin

text \<open>
  The Calico-style baseline of the simulator (ipam/sim/baselines.go): a node takes a block of 64 addresses when it has no
  free address, and a block without pods goes back to the pool. Blocks are only counted; a node's blocks are the
  list of their pods.
\<close>

definition calicoBlock :: int where "calicoBlock = 64"

record 'r calico_policy =
  ca_rng :: 'r
  ca_blocks :: "int list list"
  ca_free :: int
  ca_ops :: int
  ca_used :: "bool list"

definition newCalico :: "'r \<Rightarrow> nat \<Rightarrow> string list \<Rightarrow> 'r calico_policy" where
  "newCalico r nds pool = \<lparr>ca_rng = r, ca_blocks = replicate nds [], ca_free = poolTotal pool div calicoBlock, ca_ops = 0,
     ca_used = replicate nds False\<rparr>"

definition set_blocks :: "nat \<Rightarrow> int list \<Rightarrow> 'r calico_policy \<Rightarrow> 'r calico_policy" where
  "set_blocks n us p = p\<lparr>ca_blocks := (ca_blocks p)[n := us]\<rparr>"

text \<open>The loop of \<open>Place\<close>: one pod per step, in a block with room, or else in a new one; it stops when the pool is empty.\<close>

fun calico_place :: "('r, 'z) rng_scheme \<Rightarrow> 'r calico_policy \<Rightarrow> nat \<Rightarrow> nat \<Rightarrow> int \<Rightarrow> 'r calico_policy \<times> int" where
  "calico_place G p n 0 placed = (p, placed)"
| "calico_place G p n (Suc k) placed =
     (let us = ca_blocks p ! n in
      case pickWeighted G (ca_rng p) (map (\<lambda>u. calicoBlock - u) us) of
        (r, Some i) \<Rightarrow> calico_place G (set_blocks n (us[i := us ! i + 1]) (p\<lparr>ca_rng := r\<rparr>)) n k (placed + 1)
      | (r, None) \<Rightarrow>
          if ca_free p = 0 then (p\<lparr>ca_rng := r\<rparr>, placed)
          else calico_place G (set_blocks n (us @ [1])
                 (p\<lparr>ca_rng := r, ca_free := ca_free p - 1, ca_ops := ca_ops p + 1, ca_used := (ca_used p)[n := True]\<rparr>)) n k (placed + 1))"

definition calico_release :: "nat \<Rightarrow> 'r calico_policy \<Rightarrow> 'r calico_policy" where
  "calico_release n p =
     (let us = ca_blocks p ! n; empty = int (length (filter (\<lambda>u. u = 0) us))
      in set_blocks n (filter (\<lambda>u. u \<noteq> 0) us) (p\<lparr>ca_free := ca_free p + empty, ca_ops := ca_ops p + empty\<rparr>))"

fun take_pods :: "('r, 'z) rng_scheme \<Rightarrow> nat \<Rightarrow> int list \<Rightarrow> 'r \<Rightarrow> 'r \<times> int list" where
  "take_pods G 0 us r = (r, us)"
| "take_pods G (Suc k) us r =
     (case pickWeighted G r us of (r, None) \<Rightarrow> (r, us) | (r, Some i) \<Rightarrow> take_pods G k (us[i := us ! i - 1]) r)"

definition calico_remove :: "('r, 'z) rng_scheme \<Rightarrow> 'r calico_policy \<Rightarrow> nat \<Rightarrow> int \<Rightarrow> 'r calico_policy" where
  "calico_remove G p n k =
     (case take_pods G (nat k) (ca_blocks p ! n) (ca_rng p) of (r, us) \<Rightarrow> calico_release n (set_blocks n us (p\<lparr>ca_rng := r\<rparr>)))"

definition calico_thin :: "('r, 'z) rng_scheme \<Rightarrow> rat \<Rightarrow> 'r calico_policy \<Rightarrow> nat \<Rightarrow> 'r calico_policy" where
  "calico_thin G q p n =
     (case thin_out G q (ca_blocks p ! n) (ca_rng p) of (r, us) \<Rightarrow> calico_release n (set_blocks n us (p\<lparr>ca_rng := r\<rparr>)))"

definition calico_churn :: "('r, 'z) rng_scheme \<Rightarrow> 'r calico_policy \<Rightarrow> rat \<Rightarrow> 'r calico_policy" where
  "calico_churn G p q = foldl (calico_thin G q) p [0..<length (ca_blocks p)]"

definition calico_routes :: "'r calico_policy \<Rightarrow> int" where
  "calico_routes p = sum_list (map (\<lambda>us. int (length us)) (ca_blocks p))"

definition calico_impl :: "('r, 'z) rng_scheme \<Rightarrow> ('r calico_policy) policy" where
  "calico_impl G = \<lparr>po_name = ''calico-64'', po_place = (\<lambda>p n k. calico_place G p n (nat k) 0), po_remove = calico_remove G,
     po_churn = calico_churn G, po_starved = (\<lambda>p n w. p), po_tick = (\<lambda>p t. p), po_pods = (\<lambda>p n. sum_list (ca_blocks p ! n)),
     po_allocated = (\<lambda>p. sum_list (map (\<lambda>us. int (length us) * calicoBlock) (ca_blocks p))), po_routes = calico_routes, po_ops = ca_ops,
     po_admitted = (\<lambda>p. int (length (filter id (ca_used p))))\<rparr>"

subsection \<open>The contract\<close>

text \<open>No block is overfull, and the blocks in use and the free ones are always those of the pool.\<close>

definition block_list_ok :: "int list \<Rightarrow> bool" where
  "block_list_ok us \<longleftrightarrow> (\<forall>u \<in> set us. 0 \<le> u \<and> u \<le> calicoBlock)"

definition calico_ok :: "nat \<Rightarrow> int \<Rightarrow> 'r calico_policy \<Rightarrow> bool" where
  "calico_ok N tot p \<longleftrightarrow> length (ca_blocks p) = N \<and> (\<forall>us \<in> set (ca_blocks p). block_list_ok us) \<and> 0 \<le> ca_free p \<and>
     ca_free p + calico_routes p = tot"

lemma block_list_ok_upd: "block_list_ok us \<Longrightarrow> 0 \<le> v \<Longrightarrow> v \<le> calicoBlock \<Longrightarrow> block_list_ok (us[i := v])"
  unfolding block_list_ok_def using set_update_subset_insert[of us i v] by auto

lemma sum_update: "i < length us \<Longrightarrow> sum_list (us[i := v]) = sum_list us - us ! i + (v :: int)"
  by (induction us arbitrary: i) (auto split: nat.splits)

lemma routes_set: "n < length (ca_blocks p) \<Longrightarrow>
    calico_routes (set_blocks n us p) = calico_routes p - int (length (ca_blocks p ! n)) + int (length us)"
  by (simp add: calico_routes_def set_blocks_def map_update sum_update)

lemma calico_ok_nth: "calico_ok N tot p \<Longrightarrow> n < N \<Longrightarrow> n < length (ca_blocks p) \<and> block_list_ok (ca_blocks p ! n)"
  by (auto simp: calico_ok_def)

lemma calico_ok_free: "calico_ok N tot p \<Longrightarrow> 0 \<le> ca_free p"
  by (simp add: calico_ok_def)

lemma calico_ok_set:
  assumes "calico_ok N tot p" "n < N" "block_list_ok us"
    "ca_free q + int (length us) = ca_free p + int (length (ca_blocks p ! n))" "0 \<le> ca_free q" "ca_blocks q = ca_blocks p"
  shows "calico_ok N tot (set_blocks n us q)" "ca_blocks (set_blocks n us q) ! n = us"
proof -
  have n: "n < length (ca_blocks q)" using calico_ok_nth[OF assms(1,2)] assms(6) by simp
  have "calico_routes q = calico_routes p" by (simp add: calico_routes_def assms(6))
  then show "calico_ok N tot (set_blocks n us q)"
    using assms routes_set[OF n, of us] set_update_subset_insert[of "ca_blocks p" n us]
    by (auto simp: calico_ok_def set_blocks_def)
  show "ca_blocks (set_blocks n us q) ! n = us" using n by (simp add: set_blocks_def)
qed

lemma calico_place_ok:
  assumes "rng_laws G"
  shows "calico_ok N tot p \<Longrightarrow> n < N \<Longrightarrow> calico_place G p n k a = (p', b) \<Longrightarrow>
    calico_ok N tot p' \<and> a \<le> b \<and> b \<le> a + int k \<and> sum_list (ca_blocks p' ! n) = sum_list (ca_blocks p ! n) + (b - a)"
proof (induction k arbitrary: p a)
  case (Suc k)
  let ?us = "ca_blocks p ! n"
  note nth = calico_ok_nth[OF Suc.prems(1,2)]
  obtain r i where pick: "pickWeighted G (ca_rng p) (map (\<lambda>u. calicoBlock - u) ?us) = (r, i)" by fastforce
  show ?case
  proof (cases i)
    case (Some j)
    have nonneg: "\<forall>x \<in> set (map (\<lambda>u. calicoBlock - u) ?us). 0 \<le> x" using nth by (auto simp: block_list_ok_def)
    have j: "j < length ?us" "?us ! j < calicoBlock" using pickWeighted_Some[OF assms pick[unfolded Some] nonneg] by auto
    have "0 \<le> ?us ! j" using nth j(1) by (auto simp: block_list_ok_def)
    then have "block_list_ok (?us[j := ?us ! j + 1])" using nth j by (intro block_list_ok_upd) auto
    note set = calico_ok_set[OF Suc.prems(1,2) this, of "p\<lparr>ca_rng := r\<rparr>", simplified, OF calico_ok_free[OF Suc.prems(1)]]
    have step: "calico_place G (set_blocks n (?us[j := ?us ! j + 1]) (p\<lparr>ca_rng := r\<rparr>)) n k (a + 1) = (p', b)"
      using Suc.prems(3) pick Some by (simp add: Let_def)
    show ?thesis using Suc.IH[OF set(1) Suc.prems(2) step] set(2) sum_update[OF j(1), of "?us ! j + 1"] by simp
  next
    case None
    let ?q = "p\<lparr>ca_rng := r, ca_free := ca_free p - 1, ca_ops := ca_ops p + 1, ca_used := (ca_used p)[n := True]\<rparr>"
    show ?thesis
    proof (cases "ca_free p = 0")
      case True
      then have "p' = p\<lparr>ca_rng := r\<rparr>" "b = a" using Suc.prems(3) pick None by (auto simp: Let_def)
      then show ?thesis using Suc.prems(1) by (simp add: calico_ok_def calico_routes_def)
    next
      case False
      have "block_list_ok (?us @ [1])" using nth by (auto simp: block_list_ok_def calicoBlock_def)
      moreover have "0 \<le> ca_free p - 1" using calico_ok_free[OF Suc.prems(1)] False by simp
      ultimately have set: "calico_ok N tot (set_blocks n (?us @ [1]) ?q)" "ca_blocks (set_blocks n (?us @ [1]) ?q) ! n = ?us @ [1]"
        using calico_ok_set[OF Suc.prems(1,2), of "?us @ [1]" ?q] by simp_all
      have step: "calico_place G (set_blocks n (?us @ [1]) ?q) n k (a + 1) = (p', b)"
        using Suc.prems(3) pick None False by (simp add: Let_def)
      show ?thesis using Suc.IH[OF set(1) Suc.prems(2) step] set(2) by simp
    qed
  qed
qed simp

lemma release_ok:
  assumes "calico_ok N tot p" "n < N" "block_list_ok us"
    "length us = length (ca_blocks p ! n)"
  shows "calico_ok N tot (calico_release n (set_blocks n us (p\<lparr>ca_rng := r\<rparr>)))"
    "sum_list (ca_blocks (calico_release n (set_blocks n us (p\<lparr>ca_rng := r\<rparr>))) ! n) = sum_list us"
proof -
  let ?p = "set_blocks n us (p\<lparr>ca_rng := r\<rparr>)" and ?e = "int (length (filter (\<lambda>u. u = 0) us))"
  let ?q = "?p\<lparr>ca_free := ca_free ?p + ?e, ca_ops := ca_ops ?p + ?e\<rparr>"
  have p: "calico_ok N tot ?p" "ca_blocks ?p ! n = us"
    using calico_ok_set[OF assms(1-3), of "p\<lparr>ca_rng := r\<rparr>"] assms(1,4) by (auto simp: calico_ok_def)
  have "block_list_ok (filter (\<lambda>u. u \<noteq> 0) us)" using assms(3) by (auto simp: block_list_ok_def)
  moreover have "ca_free ?q + int (length (filter (\<lambda>u. u \<noteq> 0) us)) = ca_free ?p + int (length (ca_blocks ?p ! n))"
    using sum_length_filter_compl[of "\<lambda>u. u = 0" us] p(2) by simp
  moreover have "0 \<le> ca_free ?q" using p(1) by (simp add: calico_ok_def)
  ultimately have "calico_ok N tot (set_blocks n (filter (\<lambda>u. u \<noteq> 0) us) ?q) \<and>
      ca_blocks (set_blocks n (filter (\<lambda>u. u \<noteq> 0) us) ?q) ! n = filter (\<lambda>u. u \<noteq> 0) us"
    using calico_ok_set[OF p(1) assms(2), of "filter (\<lambda>u. u \<noteq> 0) us" ?q] by simp
  moreover have "calico_release n ?p = set_blocks n (filter (\<lambda>u. u \<noteq> 0) us) ?q"
    by (simp add: calico_release_def Let_def p(2))
  moreover have "sum_list (filter (\<lambda>u. u \<noteq> 0) us) = sum_list us" by (induction us) auto
  ultimately show "calico_ok N tot (calico_release n ?p)" "sum_list (ca_blocks (calico_release n ?p) ! n) = sum_list us" by simp_all
qed

lemma take_pods_ok:
  assumes "rng_laws G"
  shows "block_list_ok us \<Longrightarrow> int k \<le> sum_list us \<Longrightarrow> take_pods G k us r = (r', vs) \<Longrightarrow>
    block_list_ok vs \<and> length vs = length us \<and> sum_list vs = sum_list us - int k"
proof (induction k arbitrary: us r)
  case (Suc k)
  obtain r1 i where pick: "pickWeighted G r us = (r1, i)" by fastforce
  show ?case
  proof (cases i)
    case None
    then show ?thesis using Suc.prems(2) pick pickWeighted_None[of G r us r1] by auto
  next
    case (Some j)
    have "\<forall>u \<in> set us. 0 \<le> u" using Suc.prems(1) by (simp add: block_list_ok_def)
    from pickWeighted_Some[OF assms pick[unfolded Some] this] have j: "j < length us" "0 < us ! j" by auto
    have "us ! j \<le> calicoBlock" using Suc.prems(1) j(1) by (simp add: block_list_ok_def)
    then have "block_list_ok (us[j := us ! j - 1])" using Suc.prems(1) j by (intro block_list_ok_upd) auto
    then show ?thesis using Suc.IH[of "us[j := us ! j - 1]" r1] Suc.prems pick Some sum_update[OF j(1), of "us ! j - 1"] by simp
  qed
qed auto

lemma calico_thin_ok:
  assumes "calico_ok N tot p" "n < N"
  shows "calico_ok N tot (calico_thin G q p n)"
proof -
  obtain r us where t: "thin_out G q (ca_blocks p ! n) (ca_rng p) = (r, us)" by fastforce
  note nth = calico_ok_nth[OF assms]
  have "block_list_ok us" "length us = length (ca_blocks p ! n)"
    using thin_out_within[OF t, of calicoBlock] nth by (simp_all add: block_list_ok_def)
  from release_ok(1)[OF assms this, of r] show ?thesis using t by (simp add: calico_thin_def)
qed

lemma calico_churn_ok: "calico_ok N tot p \<Longrightarrow> calico_ok N tot (calico_churn G p q)"
proof -
  assume p: "calico_ok N tot p"
  have "calico_ok N tot (foldl (calico_thin G q) p ns)" if "set ns \<subseteq> {..<N}" for ns
    using that p by (induction ns arbitrary: p) (auto intro: calico_thin_ok)
  moreover have "set [0..<length (ca_blocks p)] \<subseteq> {..<N}" using p by (auto simp: calico_ok_def)
  ultimately show ?thesis unfolding calico_churn_def by blast
qed

lemma calico_allocated: "po_allocated (calico_impl G) p = calico_routes p * calicoBlock"
  by (simp add: calico_impl_def calico_routes_def sum_list_mult_const)

lemma calico_contract:
  assumes G: "rng_laws G" and cap: "tot * calicoBlock \<le> cap"
  shows "allocation_policy (calico_impl G) (calico_ok N tot) N cap"
proof unfold_locales
  fix p p' :: "'a calico_policy" and n k got
  assume p: "calico_ok N tot p" "n < N"
  {
    assume k: "0 \<le> k" "po_place (calico_impl G) p n k = (p', got)"
    then show "calico_ok N tot p' \<and> 0 \<le> got \<and> got \<le> k \<and> po_pods (calico_impl G) p' n = po_pods (calico_impl G) p n + got"
      using calico_place_ok[OF G p, of "nat k" 0 p' got] by (simp add: calico_impl_def)
  }
  {
    assume k: "0 \<le> k" "k \<le> po_pods (calico_impl G) p n"
    obtain r us where t: "take_pods G (nat k) (ca_blocks p ! n) (ca_rng p) = (r, us)" by fastforce
    note nth = calico_ok_nth[OF p]
    have us: "block_list_ok us" "length us = length (ca_blocks p ! n)" "sum_list us = sum_list (ca_blocks p ! n) - k"
      using take_pods_ok[OF G _ _ t] nth k by (auto simp: calico_impl_def)
    show "calico_ok N tot (po_remove (calico_impl G) p n k) \<and>
        po_pods (calico_impl G) (po_remove (calico_impl G) p n k) n = po_pods (calico_impl G) p n - k"
      using release_ok[OF p us(1,2), of r] us(3) t by (simp add: calico_impl_def calico_remove_def)
  }
  show "0 \<le> po_pods (calico_impl G) p n"
    using calico_ok_nth[OF p] by (auto simp: calico_impl_def block_list_ok_def intro!: sum_list_nonneg)
next
  fix p :: "'a calico_policy"
  assume "calico_ok N tot p"
  then show "po_allocated (calico_impl G) p \<le> cap"
    using cap unfolding calico_allocated by (simp add: calico_ok_def calicoBlock_def)
qed (auto simp: calico_impl_def intro: calico_churn_ok)

end
