(* ===== verification/Sim_Engine.thy ===== *)
theory Sim_Engine
  imports Sim_Buddy_Inv Sim_Calico
begin

text \<open>
  The engine of the simulator (ipam/sim/engine.go): a scenario, the choice of a policy and the run, tick by tick, over any
  policy that meets the contract; the workloads of scenarios.go. The random sources are seeded as in the code, one for
  the workload and one for the policy.
\<close>

definition tick :: duration where "tick = 5 * second"
definition minute :: duration where "minute = 60 * second"
definition podLifetime :: duration where "podLifetime = 10 * minute"
definition warmup :: duration where "warmup = 2 * minute"

text \<open>The conversions \<open>Seconds\<close> and \<open>Minutes\<close> of a duration; Go's division truncates.\<close>

definition in_unit :: "duration \<Rightarrow> duration \<Rightarrow> rat" where
  "in_unit u d =
     (let q = (if d \<ge> 0 then d div u else - ((- d) div u)); m = d - q * u
      in to_float (to_float (of_int q) + to_float (of_int m / of_int u)))"

abbreviation seconds :: "duration \<Rightarrow> rat" where "seconds \<equiv> in_unit second"
abbreviation minutes :: "duration \<Rightarrow> rat" where "minutes \<equiv> in_unit minute"

record 'r source = "'r rng" +
  so_new :: "int \<Rightarrow> 'r"
  so_exp :: "rat \<Rightarrow> rat"
  so_perm :: "'r \<Rightarrow> nat \<Rightarrow> 'r \<times> nat list"
  so_sin :: "rat \<Rightarrow> rat"

record 'r scenario =
  sn_name :: string
  sn_nodes :: nat
  sn_max_pods :: int
  sn_pool :: "string list"
  sn_duration :: duration
  sn_demand :: "'r \<Rightarrow> nat \<Rightarrow> duration \<Rightarrow> int"

datatype policy_name = Buddy | Static24 | Static25 | Calico | BuddyNoStarve | BuddyNoShrink

definition policy_text :: "policy_name \<Rightarrow> string" where
  "policy_text p = (case p of Buddy \<Rightarrow> ''buddy'' | Static24 \<Rightarrow> ''static-/24'' | Static25 \<Rightarrow> ''static-/25'' | Calico \<Rightarrow> ''calico-64''
     | BuddyNoStarve \<Rightarrow> ''buddy-no-emergency'' | BuddyNoShrink \<Rightarrow> ''buddy-no-shrink'')"

definition AllPolicies :: "policy_name list" where
  "AllPolicies = [Buddy, Static24, Static25, Calico]"

subsection \<open>A run\<close>

record point =
  pt_minutes :: rat
  pt_pods :: int
  pt_wanted :: int
  pt_allocated :: int
  pt_unmet :: int
  pt_routes :: int

record sim_result =
  sr_scenario :: string
  sr_policy :: string
  sr_seed :: int
  sr_series :: "point list"
  sr_utilization :: rat
  sr_alloc_per_node :: rat
  sr_unmet_pod_secs :: rat
  sr_peak_unmet :: int
  sr_pool_percent :: rat
  sr_peak_routes :: int
  sr_ops :: int
  sr_admitted :: int
  sr_pods_served_pct :: rat

text \<open>The sums that the loop keeps beside the result.\<close>

record run_sums =
  su_util :: rat
  su_alloc :: rat
  su_samples :: int
  su_served :: rat
  su_wanted :: rat

abbreviation float_add :: "rat \<Rightarrow> rat \<Rightarrow> rat" where "float_add x y \<equiv> to_float (x + y)"
abbreviation float_div :: "rat \<Rightarrow> rat \<Rightarrow> rat" where "float_div x y \<equiv> to_float (x / y)"
abbreviation float_int :: "int \<Rightarrow> rat" where "float_int k \<equiv> to_float (of_int k)"

definition serve_node :: "'p policy \<Rightarrow> 'p \<Rightarrow> nat \<Rightarrow> int \<Rightarrow> 'p \<times> int" where
  "serve_node P p n d =
     (let h = po_pods P p n in
      if d > h then
        (case po_place P p n (d - h) of
           (p, got) \<Rightarrow> if got < d - h then (po_starved P p n (d - h - got), d - h - got) else (p, 0))
      else if d < h then (po_remove P p n (h - d), 0)
      else (p, 0))"

fun serve_nodes :: "'p policy \<Rightarrow> (nat \<Rightarrow> int) \<Rightarrow> nat list \<Rightarrow> 'p \<Rightarrow> int \<times> int \<times> int \<Rightarrow> 'p \<times> int \<times> int \<times> int" where
  "serve_nodes P d [] p c = (p, c)"
| "serve_nodes P d (n # ns) p (unmet, pods, want) =
     (case serve_node P p n (d n) of
        (p, u) \<Rightarrow> serve_nodes P d ns p (unmet + u, pods + po_pods P p n, want + d n))"

definition sample :: "'r scenario \<Rightarrow> duration \<Rightarrow> point \<Rightarrow> sim_result \<times> run_sums \<Rightarrow> sim_result \<times> run_sums" where
  "sample s t pt rs =
     (case rs of (r, a) \<Rightarrow>
       (let alloc = float_int (pt_allocated pt); pods = float_int (pt_pods pt) in
        (r\<lparr>sr_series := sr_series r @ [pt],
           sr_unmet_pod_secs := float_add (sr_unmet_pod_secs r) (to_float (float_int (pt_unmet pt) * seconds tick)),
           sr_peak_unmet := max (sr_peak_unmet r) (pt_unmet pt),
           sr_peak_routes := max (sr_peak_routes r) (pt_routes pt),
           sr_pool_percent := max (sr_pool_percent r) (float_div (to_float (100 * alloc)) (float_int (poolTotal (sn_pool s))))\<rparr>,
         if t \<ge> warmup then
           a\<lparr>su_util := (if pt_allocated pt > 0 then float_add (su_util a) (float_div pods alloc) else su_util a),
             su_alloc := float_add (su_alloc a) (float_div alloc (float_int (int (sn_nodes s)))),
             su_samples := su_samples a + 1,
             su_served := float_add (su_served a) pods,
             su_wanted := float_add (su_wanted a) (float_int (pt_wanted pt))\<rparr>
         else a)))"

definition run_tick ::
  "'p policy \<Rightarrow> 'r scenario \<Rightarrow> (nat \<Rightarrow> duration \<Rightarrow> int) \<Rightarrow> rat \<Rightarrow> 'p \<times> sim_result \<times> run_sums \<Rightarrow> duration \<Rightarrow> 'p \<times> sim_result \<times> run_sums" where
  "run_tick P s demand deathP st t =
     (case st of (p, rs) \<Rightarrow>
        (case serve_nodes P (\<lambda>n. demand n t) [0..<sn_nodes s] (po_churn P p deathP) (0, 0, 0) of
           (p, unmet, pods, want) \<Rightarrow>
             (let p = po_tick P p (seconds t) in
              (p, sample s t \<lparr>pt_minutes = minutes t, pt_pods = pods, pt_wanted = want, pt_allocated = po_allocated P p,
                 pt_unmet = unmet, pt_routes = po_routes P p\<rparr> rs))))"

definition warm_up_ticks :: "duration list" where
  "warm_up_ticks = map (\<lambda>i. (int i - 6) * tick) [0..<6]"

definition run_ticks :: "duration \<Rightarrow> duration list" where
  "run_ticks d = (if d < 0 then [] else map (\<lambda>i. int i * tick) [0..<Suc (nat (d div tick))])"

definition averages :: "sim_result \<times> run_sums \<Rightarrow> sim_result" where
  "averages rs =
     (case rs of (r, a) \<Rightarrow>
       (let r = (if su_samples a > 0
                 then r\<lparr>sr_utilization := float_div (to_float (100 * su_util a)) (float_int (su_samples a)),
                        sr_alloc_per_node := float_div (su_alloc a) (float_int (su_samples a))\<rparr>
                 else r)
        in if su_wanted a > 0 then r\<lparr>sr_pods_served_pct := float_div (to_float (100 * su_served a)) (su_wanted a)\<rparr> else r))"

definition no_result :: "string \<Rightarrow> string \<Rightarrow> int \<Rightarrow> sim_result" where
  "no_result s p seed = \<lparr>sr_scenario = s, sr_policy = p, sr_seed = seed, sr_series = [], sr_utilization = 0, sr_alloc_per_node = 0,
     sr_unmet_pod_secs = 0, sr_peak_unmet = 0, sr_pool_percent = 0, sr_peak_routes = 0, sr_ops = 0, sr_admitted = 0,
     sr_pods_served_pct = 0\<rparr>"

definition run_policy :: "('r, 'z) source_scheme \<Rightarrow> 'p policy \<Rightarrow> 'p \<Rightarrow> 'r scenario \<Rightarrow> policy_name \<Rightarrow> int \<Rightarrow> sim_result" where
  "run_policy G P p s name seed =
     (let demand = sn_demand s (so_new G seed);
          deathP = to_float (1 - so_exp G (float_div (- seconds tick) (seconds podLifetime)));
          p = foldl (\<lambda>p t. po_tick P p (seconds t)) p warm_up_ticks
      in case foldl (run_tick P s demand deathP)
                (p, no_result (sn_name s) (policy_text name) seed, \<lparr>su_util = 0, su_alloc = 0, su_samples = 0, su_served = 0, su_wanted = 0\<rparr>)
                (run_ticks (sn_duration s)) of
           (p, rs) \<Rightarrow> (averages rs)\<lparr>sr_ops := po_ops P p, sr_admitted := po_admitted P p\<rparr>)"

text \<open>\<open>newPolicy\<close>, and \<open>Run\<close> with the policy that it makes.\<close>

definition sim_spec :: "string list \<Rightarrow> bool \<Rightarrow> pool_spec" where
  "sim_spec pool noShrink = \<lparr>sp_cidrs = pool, sp_min_block = 0, sp_max_block = 0, sp_expand = 0, sp_trigger_floor = 0, sp_capacity_cap = 0,
     sp_initial_percent = 0, sp_reserved = [], sp_shrink = 0, sp_shrink_cooldown = 0, sp_quarantine = 0, sp_low_water = 0,
     sp_disable_shrink = noShrink\<rparr>"

definition sim_config :: "policy_name \<Rightarrow> string list \<Rightarrow> buddy_config" where
  "sim_config name pool = \<lparr>bc_spec = sim_spec pool (name = BuddyNoShrink), bc_promote_delay = 10 * second, bc_drain_settle = 10 * second,
     bc_no_starve = (name = BuddyNoStarve)\<rparr>"

definition run :: "('r, 'z) source_scheme \<Rightarrow> 'r scenario \<Rightarrow> policy_name \<Rightarrow> int \<Rightarrow> sim_result" where
  "run G s name seed =
     (let r = so_new G (int64 (seed + 1)); text = policy_text name;
          static = (\<lambda>perNode. run_policy G (static_impl G text) (newStatic text r (sn_nodes s) perNode (sn_pool s)) s name seed)
      in case name of
           Static24 \<Rightarrow> static 256
         | Static25 \<Rightarrow> static 128
         | Calico \<Rightarrow> run_policy G (calico_impl G) (newCalico r (sn_nodes s) (sn_pool s)) s name seed
         | _ \<Rightarrow> run_policy G (buddy_impl G text) (newBuddy text r (sn_nodes s) (sn_max_pods s) (sim_config name (sn_pool s))) s name seed)"

subsection \<open>The workloads\<close>

definition ramp :: "duration \<Rightarrow> int \<Rightarrow> int" where
  "ramp t target = toward_zero (to_float (of_int target * min 1 (float_div (minutes t) 2)))"

definition steady :: "'r scenario" where
  "steady = \<lparr>sn_name = ''steady'', sn_nodes = 50, sn_max_pods = 110, sn_pool = [''10.0.0.0/16''], sn_duration = 30 * minute,
     sn_demand = (\<lambda>r n t. ramp t 80)\<rparr>"

definition skewed :: "('r, 'z) source_scheme \<Rightarrow> 'r scenario" where
  "skewed G = \<lparr>sn_name = ''skewed'', sn_nodes = 50, sn_max_pods = 250, sn_pool = [''10.0.0.0/16''], sn_duration = 30 * minute,
     sn_demand = (\<lambda>r. let hot = take 5 (snd (so_perm G r 50)) in (\<lambda>n t. ramp t (if n \<in> set hot then 220 else 30)))\<rparr>"

definition burst_demand :: "rat \<Rightarrow> int" where
  "burst_demand m =
     (let part = (\<lambda>from. toward_zero (float_div (to_float (180 * to_float (m - from))) 5)) in
      if m < 10 then 20 else if m < 15 then 20 + part 10 else if m < 30 then 200 else if m < 35 then 200 - part 30 else 20)"

definition burst :: "'r scenario" where
  "burst = \<lparr>sn_name = ''burst'', sn_nodes = 50, sn_max_pods = 250, sn_pool = [''10.0.0.0/16''], sn_duration = 60 * minute,
     sn_demand = (\<lambda>r n t. burst_demand (minutes t))\<rparr>"

text \<open>\<^verbatim>\<open>math.Pi\<close> as a \<^verbatim>\<open>float64\<close>.\<close>

definition go_pi :: rat where "go_pi = to_float (3141592653589793238462643383279502884197169399375105820974944592 / 10 ^ 63)"

fun draw_waves :: "('r, 'z) rng_scheme \<Rightarrow> nat \<Rightarrow> 'r \<Rightarrow> (rat \<times> rat \<times> rat) list" where
  "draw_waves G 0 r = []"
| "draw_waves G (Suc k) r =
     (case rn_float G r of (r, x) \<Rightarrow> case rn_float G r of (r, y) \<Rightarrow> case rn_float G r of
        (r, z) \<Rightarrow> (to_float (to_float (x * 2) * go_pi), float_add 20 (to_float (y * 80)), float_add 40 (to_float (z * 60))) # draw_waves G k r)"

definition wave_demand :: "('r, 'z) source_scheme \<Rightarrow> rat \<times> rat \<times> rat \<Rightarrow> rat \<Rightarrow> int" where
  "wave_demand G w m =
     (case w of (phase, amp, base) \<Rightarrow>
        max 0 (toward_zero (float_add base (to_float (amp * so_sin G (float_add (float_div (to_float (2 * go_pi * m)) 40) phase))))))"

definition wave :: "('r, 'z) source_scheme \<Rightarrow> 'r scenario" where
  "wave G = \<lparr>sn_name = ''wave'', sn_nodes = 50, sn_max_pods = 250, sn_pool = [''10.0.0.0/16''], sn_duration = 120 * minute,
     sn_demand = (\<lambda>r. let ws = draw_waves G 50 r in (\<lambda>n t. wave_demand G (ws ! n) (minutes t)))\<rparr>"

definition tight_pool :: "'r scenario" where
  "tight_pool = \<lparr>sn_name = ''tight-pool'', sn_nodes = 40, sn_max_pods = 250, sn_pool = [''10.0.0.0/20''], sn_duration = 30 * minute,
     sn_demand = (\<lambda>r n t. ramp t (if n < 4 then 200 else 40))\<rparr>"

definition Scenarios :: "('r, 'z) source_scheme \<Rightarrow> 'r scenario list" where
  "Scenarios G = [steady, skewed G, burst, wave G, tight_pool]"

definition SweepScenario :: "nat \<Rightarrow> 'r scenario" where
  "SweepScenario nds = \<lparr>sn_name = ''sweep'', sn_nodes = nds, sn_max_pods = 110, sn_pool = [''10.0.0.0/16''], sn_duration = 10 * minute,
     sn_demand = (\<lambda>r n t. ramp t 60)\<rparr>"

end
