(* ===== verification/Sim_Props.thy ===== *)
theory Sim_Props
  imports Sim_Engine
begin

text \<open>
  What a simulation shows, whatever the policy: its points balance, it hands out no more than the pool, and the workload does not
  depend on the policy. The lemmas are proved once for any policy that meets the contract. For the buddy
  policy, every table that calls of the engine can reach holds disjoint blocks of the pool.
\<close>

subsection \<open>A run of a policy that meets the contract\<close>

definition good_point :: "int \<Rightarrow> point \<Rightarrow> bool" where
  "good_point cap pt \<longleftrightarrow> 0 \<le> pt_pods pt \<and> 0 \<le> pt_unmet pt \<and> pt_pods pt + pt_unmet pt = pt_wanted pt \<and> pt_allocated pt \<le> cap"

context allocation_policy
begin

lemma serve_node_ok:
  assumes "inv p" "n < N" "0 \<le> d" "serve_node P p n d = (p', u)"
  shows "inv p' \<and> 0 \<le> u \<and> po_pods P p' n + u = d"
proof (cases "po_pods P p n < d")
  case True
  obtain q got where q: "po_place P p n (d - po_pods P p n) = (q, got)" by fastforce
  have pl: "inv q" "0 \<le> got" "got \<le> d - po_pods P p n" "po_pods P q n = po_pods P p n + got" using place[OF assms(1,2) _ q] True by auto
  then show ?thesis using assms(4) q True starved[OF pl(1), of n "d - po_pods P p n - got"]
    by (auto simp: serve_node_def Let_def split: if_splits)
next
  case False
  then show ?thesis using assms pods[OF assms(1,2)] remove[OF assms(1,2), of "po_pods P p n - d"]
    by (auto simp: serve_node_def Let_def split: if_splits)
qed

lemma serve_nodes_ok:
  "inv p \<Longrightarrow> \<forall>n \<in> set ns. n < N \<and> 0 \<le> d n \<Longrightarrow> serve_nodes P d ns p (u, q, w) = (p', u', q', w') \<Longrightarrow>
   inv p' \<and> u \<le> u' \<and> q \<le> q' \<and> q' + u' - w' = q + u - w"
proof (induction ns arbitrary: p u q w)
  case (Cons n ns)
  obtain p1 v where v: "serve_node P p n (d n) = (p1, v)" by fastforce
  have 1: "inv p1" "0 \<le> v" "po_pods P p1 n + v = d n" using serve_node_ok[OF Cons.prems(1) _ _ v] Cons.prems(2) by auto
  moreover have "0 \<le> po_pods P p1 n" using pods[OF 1(1)] Cons.prems(2) by auto
  moreover have "serve_nodes P d ns p1 (u + v, q + po_pods P p1 n, w + d n) = (p', u', q', w')" using Cons.prems(3) v by simp
  ultimately show ?case using Cons.IH[OF 1(1)] Cons.prems(2) by fastforce
qed auto

lemma run_tick_ok:
  assumes "inv p" "list_all (good_point cap) (sr_series r)" "sn_nodes s = N" "\<And>n. n < N \<Longrightarrow> 0 \<le> demand n t"
    and run: "run_tick P s demand q (p, r, a) t = (p', r', a')"
  shows "inv p' \<and> list_all (good_point cap) (sr_series r')"
proof -
  obtain p1 u k w where s: "serve_nodes P (\<lambda>n. demand n t) [0..<N] (po_churn P p q) (0, 0, 0) = (p1, u, k, w)" by (metis prod_cases4)
  have 1: "inv p1" "0 \<le> u" "0 \<le> k" "k + u = w" using serve_nodes_ok[OF churn[OF assms(1)] _ s] assms(4) by auto
  have 2: "inv (po_tick P p1 (seconds t))" by (rule tick[OF 1(1)])
  show ?thesis using run s 1 2 assms(2,3) allocated[OF 2]
    by (auto simp: run_tick_def sample_def Let_def good_point_def)
qed

lemma run_policy_ok:
  assumes "inv p" "sn_nodes s = N" "\<And>n t. n < N \<Longrightarrow> 0 \<le> t \<Longrightarrow> 0 \<le> sn_demand s (so_new G seed) n t"
  shows "list_all (good_point cap) (sr_series (run_policy G P p s name seed))"
proof -
  have warm: "inv (foldl (\<lambda>p t. po_tick P p (seconds t)) p ts)" for ts
    using assms(1) by (induction ts arbitrary: p) (auto intro: tick)
  have loop: "list_all (good_point cap) (sr_series (fst (snd (foldl (run_tick P s (sn_demand s (so_new G seed)) q) st ts))))"
    if "inv (fst st)" "list_all (good_point cap) (sr_series (fst (snd st)))" "\<forall>t \<in> set ts. 0 \<le> t" for q st ts
    using that
  proof (induction ts arbitrary: st)
    case (Cons t ts)
    obtain p r a where st: "st = (p, r, a)" by (cases st)
    obtain p' r' a' where n: "run_tick P s (sn_demand s (so_new G seed)) q st t = (p', r', a')" by (metis prod_cases3)
    have "inv p' \<and> list_all (good_point cap) (sr_series r')"
      by (rule run_tick_ok[OF _ _ assms(2) _ n[unfolded st]]) (use Cons.prems st assms(3) in auto)
    then show ?case using Cons.IH[of "(p', r', a')"] Cons.prems(3) n by simp
  qed simp
  have "\<forall>t \<in> set (run_ticks d). 0 \<le> t" for d by (auto simp: run_ticks_def tick_def second_def)
  moreover have "sr_series (averages rs) = sr_series (fst rs)" for rs by (cases rs) (auto simp: averages_def Let_def)
  ultimately show ?thesis unfolding run_policy_def Let_def
    by (auto simp: split_beta no_result_def intro!: loop warm)
qed

end

subsection \<open>The policies at the start\<close>

lemma cidrSize_nonneg: "0 \<le> cidrSize c"
  by (auto simp: cidrSize_def push_bit_eq_mult split: option.splits)

lemma static_start:
  assumes "3 \<le> k"
  shows "static_ok nds (poolTotal pool) (newStatic name r nds k pool)"
proof -
  have "sum_list (map (\<lambda>c. cidrSize c div k) pool) * k \<le> poolTotal pool"
  proof (induction pool)
    case (Cons c pool)
    have "cidrSize c div k * k \<le> cidrSize c" using minus_mod_eq_div_mult[of "cidrSize c" k] pos_mod_sign[of k "cidrSize c"] assms by linarith
    then show ?case using Cons by (simp add: poolTotal_def distrib_right)
  qed (simp add: poolTotal_def)
  moreover have "min x (int nds) * k \<le> x * k" for x using assms by (simp add: mult_right_mono)
  ultimately have "min (sum_list (map (\<lambda>c. cidrSize c div k) pool)) (int nds) * k \<le> poolTotal pool" using order_trans by blast
  then show ?thesis using assms by (simp add: newStatic_def static_ok_def)
qed

lemma calico_start: "calico_ok nds (poolTotal pool div calicoBlock) (newCalico r nds pool)"
proof -
  have "0 \<le> poolTotal pool" unfolding poolTotal_def by (intro sum_list_nonneg) (auto simp: cidrSize_nonneg)
  moreover have "sum_list (map (\<lambda>us. int (length us)) (replicate nds [])) = 0" by (induction nds) auto
  ultimately show ?thesis by (auto simp: calico_ok_def newCalico_def calico_routes_def calicoBlock_def block_list_ok_def)
qed

lemma buddy_start:
  assumes "spec = withDefaults (bc_spec cfg)" "0 \<le> sp_max_block spec"
  shows "buddy_ok (pool_ranges spec (map (sim_node m) [0..<nds])) (newBuddy name r nds m cfg)"
  using assms by (simp add: buddy_ok_def newBuddy_def table_ok_def cluster_inv_def)

lemma ranges_size:
  assumes "0 \<le> sp_max_block spec"
  shows "finite (pool_ranges spec nds)" "int (card (\<Union>r \<in> pool_ranges spec nds. pspan r)) \<le> poolTotal (sp_cidrs spec)"
proof -
  obtain p pr where b: "buildPool spec nds [] = (p, pr)" by fastforce
  let ?cs = "filter (\<lambda>c. parse_cidr c \<noteq> None) (sp_cidrs spec)"
  have ok: "c \<in> set ?cs" if "c \<in> set (fst (validCIDRs spec nds))" for c
    using validCIDRs_ok[OF that] by (auto simp: cidr_problem_def split: option.splits)
  have R: "pool_ranges spec nds \<subseteq> pfx_of ` set ?cs"
    using buildPool_roots[OF assms b] ok b unfolding pool_ranges_def by auto
  then show "finite (pool_ranges spec nds)" using finite_surj[of "set ?cs"] by blast
  have fin: "finite (pspan r)" for r by (simp add: Block_Tree.span_def)
  have "(\<Union>r \<in> pool_ranges spec nds. pspan r) \<subseteq> (\<Union>c \<in> set ?cs. cidr_span c)"
  proof (intro UN_least)
    fix r assume "r \<in> pool_ranges spec nds"
    then obtain c where c: "c \<in> set ?cs" "r = pfx_of c" using R by blast
    then have "pspan r = cidr_span c" by (simp add: cidr_span_pfx)
    then show "pspan r \<subseteq> (\<Union>c \<in> set ?cs. cidr_span c)" using c(1) by blast
  qed
  then have "card (\<Union>r \<in> pool_ranges spec nds. pspan r) \<le> card (\<Union>c \<in> set ?cs. cidr_span c)"
    by (intro card_mono) (auto simp: finite_cidr_span)
  also have "\<dots> \<le> (\<Sum>c \<in> set ?cs. card (cidr_span c))" by (rule card_UN_le) simp
  finally have 1: "int (card (\<Union>r \<in> pool_ranges spec nds. pspan r)) \<le> (\<Sum>c \<in> set ?cs. int (card (cidr_span c)))" by (simp flip: of_nat_sum)
  have size: "int (card (cidr_span c)) = cidrSize c" if "parse_cidr c \<noteq> None" for c
    using that by (auto simp: cidr_span_def cidrSize_def Block_Tree.span_def addresses_def push_bit_eq_mult)
  have "(\<Sum>c \<in> set ?cs. int (card (cidr_span c))) = (\<Sum>c \<in> set ?cs. cidrSize c)" by (intro sum.cong) (auto simp: size)
  also have "(\<Sum>c \<in> set xs. cidrSize c) \<le> sum_list (map cidrSize xs)" for xs
    by (induction xs) (auto simp: sum.insert_if intro: add_increasing[OF cidrSize_nonneg])
  also have "sum_list (map cidrSize (filter Q xs)) \<le> poolTotal xs" for Q xs
    unfolding poolTotal_def by (induction xs) (auto intro: add_increasing[OF cidrSize_nonneg])
  finally show "int (card (\<Union>r \<in> pool_ranges spec nds. pspan r)) \<le> poolTotal (sp_cidrs spec)" using 1 by simp
qed

lemma sim_config_spec:
  "sp_cidrs (withDefaults (bc_spec (sim_config name pool))) = pool" "0 \<le> sp_max_block (withDefaults (bc_spec (sim_config name pool)))"
  by (simp_all add: sim_config_def sim_spec_def withDefaults_def def_value_def)

subsection \<open>Properties\<close>

text \<open>
  C13. Under every policy, with the random draws that Go's generator promises and a workload that is never negative, each point of a
  run balances: the pods placed and the unmet pods are together the pods wanted, neither is negative, and the addresses
  handed out are at most those of the pool.\<close>

theorem simulated_demand_served:
  assumes "rng_laws G" "\<And>n t. n < sn_nodes s \<Longrightarrow> 0 \<le> t \<Longrightarrow> 0 \<le> sn_demand s (so_new G seed) n t"
  shows "list_all (\<lambda>pt. 0 \<le> pt_pods pt \<and> 0 \<le> pt_unmet pt \<and> pt_pods pt + pt_unmet pt = pt_wanted pt \<and>
      pt_allocated pt \<le> poolTotal (sn_pool s)) (sr_series (run G s name seed))"
proof -
  let ?total = "poolTotal (sn_pool s)" and ?N = "sn_nodes s"
  have good: "list_all (good_point ?total) (sr_series (run_policy G P p s pn seed))" if "allocation_policy P I ?N ?total" "I p" for P I p pn
    by (rule allocation_policy.run_policy_ok[OF that refl]) (use assms(2) in blast)
  have static: "list_all (good_point ?total) (sr_series (run_policy G (static_impl G nm) (newStatic nm r ?N k (sn_pool s)) s pn seed))"
    if "3 \<le> k" for nm r k pn
    by (rule good[OF static.allocation_policy_axioms static_start[OF that]])
  have calico: "list_all (good_point ?total) (sr_series (run_policy G (calico_impl G) (newCalico r ?N (sn_pool s)) s pn seed))" for r pn
    by (rule good[OF calico_contract[OF assms(1)] calico_start]) (simp add: calicoBlock_def)
  have buddy: "list_all (good_point ?total) (sr_series (run_policy G (buddy_impl G nm)
      (newBuddy nm r ?N (sn_max_pods s) (sim_config pn (sn_pool s))) s pn seed))" for nm r pn
    by (rule good[OF buddy_contract[OF assms(1)] buddy_start[OF refl]])
      (use ranges_size[OF sim_config_spec(2)[of pn "sn_pool s"], of "map (sim_node (sn_max_pods s)) [0..<?N]"] sim_config_spec[of pn "sn_pool s"]
       in simp_all)
  have "list_all (good_point ?total) (sr_series (run G s name seed))"
    by (cases name) (simp_all add: run_def Let_def static calico buddy)
  then show ?thesis by (simp add: list_all_iff good_point_def)
qed

lemma serve_nodes_wanted: "serve_nodes P d ns p (u, q, w) = (p', u', q', w') \<Longrightarrow> w' = w + sum_list (map d ns)"
  by (induction ns arbitrary: p u q w) (fastforce split: prod.splits)+

lemma run_tick_wanted:
  "map (\<lambda>pt. (pt_minutes pt, pt_wanted pt)) (sr_series (fst (snd (run_tick P s demand q st t)))) =
   map (\<lambda>pt. (pt_minutes pt, pt_wanted pt)) (sr_series (fst (snd st))) @ [(minutes t, sum_list (map (\<lambda>n. demand n t) [0..<sn_nodes s]))]"
  by (cases st) (auto simp: run_tick_def sample_def Let_def dest!: serve_nodes_wanted split: prod.splits)

lemma run_policy_wanted:
  "map (\<lambda>pt. (pt_minutes pt, pt_wanted pt)) (sr_series (run_policy G P p s name seed)) =
   map (\<lambda>t. (minutes t, sum_list (map (\<lambda>n. sn_demand s (so_new G seed) n t) [0..<sn_nodes s]))) (run_ticks (sn_duration s))"
proof -
  have "map (\<lambda>pt. (pt_minutes pt, pt_wanted pt)) (sr_series (fst (snd (foldl (run_tick P s demand q) st ts)))) =
      map (\<lambda>pt. (pt_minutes pt, pt_wanted pt)) (sr_series (fst (snd st))) @
      map (\<lambda>t. (minutes t, sum_list (map (\<lambda>n. demand n t) [0..<sn_nodes s]))) ts" for demand q st ts
    by (induction ts arbitrary: st) (simp_all add: run_tick_wanted)
  moreover have "sr_series (averages rs) = sr_series (fst rs)" for rs by (cases rs) (auto simp: averages_def Let_def)
  ultimately show ?thesis by (simp add: run_policy_def Let_def split_beta no_result_def)
qed

text \<open>
  The workload of a run is that of the scenario under its seed: point by point, the time and the pods wanted are those of the demand,
  and so they are the same for every policy.\<close>

lemma simulated_workload_fixed:
  "map (\<lambda>pt. (pt_minutes pt, pt_wanted pt)) (sr_series (run G s name seed)) =
   map (\<lambda>t. (minutes t, sum_list (map (\<lambda>n. sn_demand s (so_new G seed) n t) [0..<sn_nodes s]))) (run_ticks (sn_duration s))"
  by (cases name) (simp_all add: run_def Let_def run_policy_wanted)

text \<open>The calls that the engine makes on the buddy policy, with the arguments that it can give them, in any order.\<close>

inductive buddy_step :: "('r, 'z) rng_scheme \<Rightarrow> nat \<Rightarrow> 'r buddy_policy \<Rightarrow> 'r buddy_policy \<Rightarrow> bool" for G N where
  step_place: "n < N \<Longrightarrow> 0 \<le> k \<Longrightarrow> po_place (buddy_impl G name) p n k = (p', got) \<Longrightarrow> buddy_step G N p p'"
| step_remove: "n < N \<Longrightarrow> 0 \<le> k \<Longrightarrow> k \<le> buddy_pods p n \<Longrightarrow> buddy_step G N p (po_remove (buddy_impl G name) p n k)"
| step_churn: "buddy_step G N p (buddy_churn G p q)"
| step_starved: "buddy_step G N p (buddy_starved p n w)"
| step_tick: "buddy_step G N p (buddy_tick G p t)"

lemma buddy_step_ok:
  assumes "rng_laws G" "finite R" "buddy_step G N p p'" "buddy_ok R p"
  shows "buddy_ok R p'"
proof -
  note contract = buddy_contract[OF assms(1,2) order_refl, of _ N]
  show ?thesis using assms(3)
  proof cases
    case (step_place n k name got)
    show ?thesis using allocation_policy.place[OF contract assms(4) step_place] by blast
  next
    case (step_remove n k name)
    have "k \<le> po_pods (buddy_impl G name) p n" using step_remove(4) by (simp add: buddy_impl_def)
    from allocation_policy.remove[OF contract assms(4) step_remove(2,3) this] step_remove(1) show ?thesis by simp
  next
    case (step_churn q)
    then show ?thesis using buddy_churn_ok[OF assms(4)] by simp
  next
    case (step_starved n w)
    then show ?thesis using assms(4) by (simp add: buddy_starved_def buddy_ok_def)
  next
    case (step_tick t)
    then show ?thesis using buddy_tick_ok[OF assms(1,4)] by simp
  qed
qed

text \<open>
  C12. Whatever calls the engine makes and whatever the random draws, the blocks of the simulated pool stay disjoint, inside the
  pool's CIDRs and under the names of their CIDRs, no pod count is negative, and no range that \<open>Place\<close> draws from is empty: its
  second draw never gives the index -1.\<close>

theorem simulated_table_sound:
  assumes "rng_laws G" "(buddy_step G nds)\<^sup>*\<^sup>* (newBuddy text r nds maxPods cfg) p" "sp_max_block (bc_spec cfg) \<ge> 0"
  shows "cluster_inv [] (pool_ranges (withDefaults (bc_spec cfg)) (map (sim_node maxPods) [0..<nds])) (map_of (bu_blocks p)) \<and>
    list_all (\<lambda>b. 0 \<le> nb_used (snd b)) (bu_blocks p) \<and> list_all (\<lambda>g. snd g \<noteq> []) (groups (mine p n))"
proof -
  let ?R = "pool_ranges (withDefaults (bc_spec cfg)) (map (sim_node maxPods) [0..<nds])"
  have mx: "0 \<le> sp_max_block (withDefaults (bc_spec cfg))" using assms(3) by (simp add: withDefaults_def def_value_def)
  from assms(2) have ok: "buddy_ok ?R p"
  proof (induction rule: rtranclp_induct)
    case base
    show ?case by (rule buddy_start[OF refl mx])
  next
    case (step q p)
    show ?case by (rule buddy_step_ok[OF assms(1) ranges_size(1)[OF mx] step.hyps(2) step.IH])
  qed
  note t = table_okD[OF buddy_okD[OF ok]]
  have "0 \<le> nb_used (snd kb)" if "kb \<in> set (bu_blocks p)" for kb using t(1) t(3)[of "fst kb" "snd kb"] that by simp
  then show ?thesis using t(2) group_has_member[OF ok, of _ n] by (simp add: list_all_iff)
qed

subsection \<open>A concrete source\<close>

text \<open>A source that counts its draws; its square root, exponential and sine are constants, so no pod dies by chance.\<close>

definition counting_source :: "nat source" where
  "counting_source = \<lparr>rn_float = (\<lambda>r. (Suc r, 1 / of_nat (r mod 4 + 2))), rn_intn = (\<lambda>r n. (Suc r, int r mod n)), rn_norm = (\<lambda>r. (Suc r, 0)),
     rn_sqrt = (\<lambda>x. 1), rn_order = (\<lambda>xs. xs), so_new = nat, so_exp = (\<lambda>x. 1), so_perm = (\<lambda>r n. (Suc r, [0..<n])), so_sin = (\<lambda>x. 0)\<rparr>"

lemma counting_laws: "rng_laws counting_source"
  by (simp add: rng_laws_def counting_source_def)

definition small_scenario :: "nat scenario" where
  "small_scenario = \<lparr>sn_name = ''small'', sn_nodes = 2, sn_max_pods = 20, sn_pool = [''10.0.0.0/25''], sn_duration = tick,
     sn_demand = (\<lambda>r n t. if n = 0 then 200 else 30)\<rparr>"

theorem simulated_demand_served_witness:
  "list_all (\<lambda>pt. 0 \<le> pt_pods pt \<and> 0 \<le> pt_unmet pt \<and> pt_pods pt + pt_unmet pt = pt_wanted pt \<and> pt_allocated pt \<le> 128)
     (sr_series (run counting_source small_scenario Static25 1)) \<and>
   map (\<lambda>pt. (pt_pods pt, pt_unmet pt)) (sr_series (run counting_source small_scenario Static25 1)) = [(125, 105), (125, 105)]"
proof -
  have "0 \<le> sn_demand small_scenario (so_new counting_source 1) n t" for n t by (simp add: small_scenario_def)
  from simulated_demand_served[OF counting_laws this, of Static25]
  have "list_all (\<lambda>pt. 0 \<le> pt_pods pt \<and> 0 \<le> pt_unmet pt \<and> pt_pods pt + pt_unmet pt = pt_wanted pt \<and>
      pt_allocated pt \<le> poolTotal (sn_pool small_scenario)) (sr_series (run counting_source small_scenario Static25 1))" .
  moreover have "poolTotal (sn_pool small_scenario) = 128" by code_simp
  moreover have "map (\<lambda>pt. (pt_pods pt, pt_unmet pt)) (sr_series (run counting_source small_scenario Static25 1)) = [(125, 105), (125, 105)]"
    by code_simp
  ultimately show ?thesis by simp
qed

definition small_buddy :: "nat buddy_policy" where
  "small_buddy = newBuddy ''buddy'' 0 1 20 (sim_config Buddy [''10.0.0.0/25''])"

definition small_active :: "nat buddy_policy" where
  "small_active = buddy_tick counting_source (buddy_tick counting_source small_buddy 0) 10"

definition small_placed :: "nat buddy_policy \<times> int" where
  "small_placed = po_place (buddy_impl counting_source ''buddy'') small_active 0 2"

theorem simulated_table_sound_witness:
  "list_all (\<lambda>b. 0 \<le> nb_used (snd b)) (bu_blocks (fst small_placed)) \<and>
   list_all (\<lambda>g. snd g \<noteq> []) (groups (mine (fst small_placed) 0)) \<and>
   map (\<lambda>b. (nb_cidr (snd b), nb_used (snd b))) (bu_blocks (fst small_placed)) = [(''10.0.0.0/28'', 2)] \<and> snd small_placed = 2"
proof -
  have placed: "small_placed = (fst small_placed, snd small_placed)" by simp
  have "buddy_step counting_source 1 small_active (fst small_placed)"
    by (rule step_place[where n = 0 and k = 2 and got = "snd small_placed" and name = "''buddy''"]) (simp_all add: small_placed_def)
  then have "(buddy_step counting_source 1)\<^sup>*\<^sup>* small_buddy (fst small_placed)"
    unfolding small_active_def by (meson step_tick rtranclp.rtrancl_refl rtranclp.rtrancl_into_rtrancl)
  from simulated_table_sound[OF counting_laws this[unfolded small_buddy_def], where n = 0]
  have "list_all (\<lambda>b. 0 \<le> nb_used (snd b)) (bu_blocks (fst small_placed)) \<and>
      list_all (\<lambda>g. snd g \<noteq> []) (groups (mine (fst small_placed) 0))" by (simp add: sim_config_def sim_spec_def)
  moreover have "map (\<lambda>b. (nb_cidr (snd b), nb_used (snd b))) (bu_blocks (fst small_placed)) = [(''10.0.0.0/28'', 2)] \<and> snd small_placed = 2"
    by code_simp
  ultimately show ?thesis by blast
qed

end
