(* ===== verification/Kube_Proxy.thy ===== *)
theory Kube_Proxy
  imports Kube_Api "HOL-Library.AList"
begin

text \<open>
  The kube-proxy settings of a buddy pool (ipam/kubeproxy.go) and the step of the controller that applies them once. A decoded
  YAML document is the datatype \<open>yaml\<close>; a mapping is an association list from its keys. The YAML library and the objects
  of the API server are a parameter; a nil map, which an empty document gives, makes the code panic.
\<close>

text \<open>A number is the text that \<^verbatim>\<open>fmt.Sprint\<close> gives for it.\<close>

datatype yaml = YNull | YBool bool | YNum string | YStr string | YList "yaml list" | YMap "(string \<times> yaml) list"

type_synonym yaml_map = "(string \<times> yaml) list"

fun spaced :: "string list \<Rightarrow> string" where
  "spaced [] = []"
| "spaced [x] = x"
| "spaced (x # xs) = x @ '' '' @ spaced xs"

text \<open>\<^verbatim>\<open>fmt.Sprint\<close>, which prints a map in the order of its keys.\<close>

fun sprint :: "yaml \<Rightarrow> string" where
  "sprint YNull = ''<nil>''"
| "sprint (YBool b) = (if b then ''true'' else ''false'')"
| "sprint (YNum t) = t"
| "sprint (YStr s) = s"
| "sprint (YList ys) = ''['' @ spaced (map sprint ys) @ '']''"
| "sprint (YMap m) = ''map['' @
     spaced (map (\<lambda>(k, t). k @ '':'' @ t) (sort_by (\<lambda>x y. fst x < fst y) (map (\<lambda>(k, y). (k, sprint y)) m))) @ '']''"

definition set_key :: "string \<Rightarrow> yaml \<Rightarrow> bool \<times> yaml_map \<Rightarrow> bool \<times> yaml_map" where
  "set_key k v st =
     (case st of (changed, conf) \<Rightarrow>
        if (case map_of conf k of None \<Rightarrow> True | Some cur \<Rightarrow> sprint cur \<noteq> sprint v) then (True, AList.update k v conf) else (changed, conf))"

definition kubeProxyLocalMode :: "yaml_map \<Rightarrow> bool \<times> yaml_map" where
  "kubeProxyLocalMode conf =
     (case set_key ''detectLocalMode'' (YStr ''InterfaceNamePrefix'') (set_key ''clusterCIDR'' (YStr []) (False, conf)) of
        (changed, conf) \<Rightarrow>
          (let dl = (case map_of conf ''detectLocal'' of Some (YMap d) \<Rightarrow> d | _ \<Rightarrow> []);
               dl' = AList.update ''interfaceNamePrefix'' (YStr ''veth'') dl
           in (changed \<or> sprint (YMap dl') \<noteq> sprint (YMap dl), AList.update ''detectLocal'' (YMap dl') conf)))"

subsection \<open>The ConfigMap and the DaemonSet\<close>

text \<open>
  The data of the ConfigMap, the restart annotation of the DaemonSet, and the YAML library; \<open>kp_decode\<close> gives \<open>Inr None\<close> for
  an empty document, which leaves the map nil. The time of a restart is a text of the world.
\<close>

record 's proxy_api =
  kp_get_config :: "'s \<Rightarrow> 's \<times> (api_error + (string \<rightharpoonup> string))"
  kp_put_config :: "'s \<Rightarrow> (string \<rightharpoonup> string) \<Rightarrow> 's \<times> api_error option"
  kp_get_daemon :: "'s \<Rightarrow> 's \<times> api_error option"
  kp_restart :: "'s \<Rightarrow> 's \<times> api_error option"
  kp_decode :: "string \<Rightarrow> string + yaml_map option"
  kp_encode :: "yaml_map \<Rightarrow> string + string"

datatype proxy_error = GetConfigMap api_error | NoConfig | ParseConfig string | NilConfigPanic | EncodeConfig string | UpdateConfigMap api_error
  | GetDaemonSet api_error | RestartKubeProxy api_error

definition EnsureKubeProxyLocalMode :: "'s proxy_api \<Rightarrow> 's \<Rightarrow> 's \<times> bool \<times> proxy_error option" where
  "EnsureKubeProxyLocalMode A s =
     (case kp_get_config A s of
        (s, Inl e) \<Rightarrow> (s, False, Some (GetConfigMap e))
      | (s, Inr data) \<Rightarrow>
          (case data ''config.conf'' of
             None \<Rightarrow> (s, False, Some NoConfig)
           | Some raw \<Rightarrow>
               (case kp_decode A raw of
                  Inl e \<Rightarrow> (s, False, Some (ParseConfig e))
                | Inr None \<Rightarrow> (s, False, Some NilConfigPanic)
                | Inr (Some conf) \<Rightarrow>
                    (case kubeProxyLocalMode conf of
                       (False, conf) \<Rightarrow> (s, False, None)
                     | (True, conf) \<Rightarrow>
                         (case kp_encode A conf of
                            Inl e \<Rightarrow> (s, False, Some (EncodeConfig e))
                          | Inr out \<Rightarrow>
                              (case kp_put_config A s (data(''config.conf'' \<mapsto> out)) of
                                 (s, Some e) \<Rightarrow> (s, False, Some (UpdateConfigMap e))
                               | (s, None) \<Rightarrow>
                                   (case kp_get_daemon A s of
                                      (s, Some e) \<Rightarrow> (s, True, Some (GetDaemonSet e))
                                    | (s, None) \<Rightarrow>
                                        (case kp_restart A s of
                                           (s, Some e) \<Rightarrow> (s, True, Some (RestartKubeProxy e))
                                         | (s, None) \<Rightarrow> (s, True, None)))))))))"

text \<open>
  The step in \<open>Reconcile\<close>: done once, and tried again in the next pass after an error; a panic ends the pass. The state has the flag
  \<open>kubeProxyDone\<close>; \<open>configure\<close> says that the option is on and the reader is set. The last value says whether the pass goes on.
\<close>

definition configure_kube_proxy :: "bool \<Rightarrow> 's proxy_api \<Rightarrow> 's \<times> bool \<Rightarrow> ('s \<times> bool) \<times> bool" where
  "configure_kube_proxy configure A st =
     (case st of (s, finished) \<Rightarrow>
        if configure \<and> \<not> finished
        then (case EnsureKubeProxyLocalMode A s of (s, _, e) \<Rightarrow> ((s, e = None), e \<noteq> Some NilConfigPanic))
        else ((s, finished), True))"

subsection \<open>The settings\<close>

lemma update_same: "map_of al k = Some v \<Longrightarrow> AList.update k v al = al"
  by (induction al) (auto split: if_splits)

definition settled :: "yaml_map \<Rightarrow> bool" where
  "settled conf \<longleftrightarrow> map_option sprint (map_of conf ''clusterCIDR'') = Some [] \<and>
     map_option sprint (map_of conf ''detectLocalMode'') = Some ''InterfaceNamePrefix'' \<and>
     (\<exists>d. map_of conf ''detectLocal'' = Some (YMap d) \<and> map_of d ''interfaceNamePrefix'' = Some (YStr ''veth''))"

lemma set_key_result:
  assumes "set_key k v (c, conf) = (c', conf')"
  shows "map_option sprint (map_of conf' k) = Some (sprint v)" "x \<noteq> k \<Longrightarrow> map_of conf' x = map_of conf x"
    "map_option sprint (map_of conf k) = Some (sprint v) \<Longrightarrow> c' = c \<and> conf' = conf"
  using assms by (auto simp: set_key_def update_conv' split: if_splits option.splits)

lemma local_mode_result:
  assumes "kubeProxyLocalMode conf = (c, conf')"
  shows "settled conf'" "k \<notin> {''clusterCIDR'', ''detectLocalMode'', ''detectLocal''} \<Longrightarrow> map_of conf' k = map_of conf k"
proof -
  obtain c1 m1 where 1: "set_key ''clusterCIDR'' (YStr []) (False, conf) = (c1, m1)" by fastforce
  obtain c2 m2 where 2: "set_key ''detectLocalMode'' (YStr ''InterfaceNamePrefix'') (c1, m1) = (c2, m2)" by fastforce
  obtain d where m: "conf' = AList.update ''detectLocal'' (YMap (AList.update ''interfaceNamePrefix'' (YStr ''veth'') d)) m2"
    using assms 1 2 by (auto simp: kubeProxyLocalMode_def Let_def)
  show "settled conf'" using set_key_result(1)[OF 1] set_key_result(1,2)[OF 2] by (simp add: settled_def m update_conv')
  show "k \<notin> {''clusterCIDR'', ''detectLocalMode'', ''detectLocal''} \<Longrightarrow> map_of conf' k = map_of conf k"
    using set_key_result(2)[OF 1] set_key_result(2)[OF 2] by (simp add: m update_conv')
qed

lemma local_mode_settled:
  assumes "settled conf"
  shows "kubeProxyLocalMode conf = (False, conf)"
proof -
  obtain d where d: "map_of conf ''detectLocal'' = Some (YMap d)" "map_of d ''interfaceNamePrefix'' = Some (YStr ''veth'')"
    using assms by (auto simp: settled_def)
  have "set_key ''clusterCIDR'' (YStr []) (False, conf) = (False, conf)"
    "set_key ''detectLocalMode'' (YStr ''InterfaceNamePrefix'') (False, conf) = (False, conf)"
    using assms by (auto simp: settled_def set_key_def)
  then show ?thesis by (simp add: kubeProxyLocalMode_def d update_same)
qed

subsection \<open>The laws of the API server\<close>

text \<open>A read changes nothing; a write whose answer is lost may have happened; decoding gives back what was encoded.\<close>

definition proxy_laws :: "'s proxy_api \<Rightarrow> ('s \<Rightarrow> (string \<rightharpoonup> string)) \<Rightarrow> ('s \<Rightarrow> nat) \<Rightarrow> bool" where
  "proxy_laws A stored restarts \<longleftrightarrow>
     (\<forall>s s' r. kp_get_config A s = (s', r) \<longrightarrow> stored s' = stored s \<and> restarts s' = restarts s \<and> (\<forall>d. r = Inr d \<longrightarrow> d = stored s)) \<and>
     (\<forall>s d s' e. kp_put_config A s d = (s', e) \<longrightarrow> restarts s' = restarts s \<and> (stored s' = d \<or> e \<noteq> None \<and> stored s' = stored s)) \<and>
     (\<forall>s s' e. kp_get_daemon A s = (s', e) \<longrightarrow> stored s' = stored s \<and> restarts s' = restarts s) \<and>
     (\<forall>s s' e. kp_restart A s = (s', e) \<longrightarrow> stored s' = stored s \<and>
        (restarts s' = Suc (restarts s) \<or> e \<noteq> None \<and> restarts s' = restarts s)) \<and>
     (\<forall>c t. kp_encode A c = Inr t \<longrightarrow> kp_decode A t = Inr (Some c))"

lemma proxy_lawsD:
  assumes "proxy_laws A stored restarts"
  shows "kp_get_config A s = (s', r) \<Longrightarrow> stored s' = stored s \<and> restarts s' = restarts s \<and> (\<forall>d. r = Inr d \<longrightarrow> d = stored s)"
    "kp_put_config A s d = (s', e) \<Longrightarrow> restarts s' = restarts s \<and> (stored s' = d \<or> e \<noteq> None \<and> stored s' = stored s)"
    "kp_get_daemon A s = (s', e) \<Longrightarrow> stored s' = stored s \<and> restarts s' = restarts s"
    "kp_restart A s = (s', e) \<Longrightarrow> stored s' = stored s \<and> (restarts s' = Suc (restarts s) \<or> e \<noteq> None \<and> restarts s' = restarts s)"
    "kp_encode A c = Inr t \<Longrightarrow> kp_decode A t = Inr (Some c)"
  using assms unfolding proxy_laws_def by blast+

definition stored_settled :: "'s proxy_api \<Rightarrow> (string \<rightharpoonup> string) \<Rightarrow> bool" where
  "stored_settled A m \<longleftrightarrow> (\<exists>raw conf. m ''config.conf'' = Some raw \<and> kp_decode A raw = Inr (Some conf) \<and> settled conf)"

text \<open>Once the settings are stored, no call changes anything or restarts kube-proxy.\<close>

lemma ensure_settled:
  assumes "proxy_laws A stored restarts" "stored_settled A (stored s)" "EnsureKubeProxyLocalMode A s = (s', c, e)"
  shows "\<not> c" "stored s' = stored s" "restarts s' = restarts s"
proof -
  obtain t r where g: "kp_get_config A s = (t, r)" by fastforce
  note get = proxy_lawsD(1)[OF assms(1) g]
  show "\<not> c" "stored s' = stored s" "restarts s' = restarts s"
    using assms(2,3) g get local_mode_settled by (cases r; fastforce simp: EnsureKubeProxyLocalMode_def stored_settled_def)+
qed

lemma ensure_changed:
  assumes "proxy_laws A stored restarts" "EnsureKubeProxyLocalMode A s = (s', True, e)"
  shows "stored_settled A (stored s')" "e = None \<Longrightarrow> restarts s' = Suc (restarts s)"
proof -
  obtain t1 data raw conf conf' out t2 t3 e3 where
    g: "kp_get_config A s = (t1, Inr data)" and d: "kp_decode A raw = Inr (Some conf)" and m: "kubeProxyLocalMode conf = (True, conf')"
    and enc: "kp_encode A conf' = Inr out" and p: "kp_put_config A t1 (data(''config.conf'' \<mapsto> out)) = (t2, None)"
    and gd: "kp_get_daemon A t2 = (t3, e3)"
    and fin: "(case e3 of Some x \<Rightarrow> (t3, True, Some (GetDaemonSet x)) | None \<Rightarrow> (case kp_restart A t3 of
        (s, Some x) \<Rightarrow> (s, True, Some (RestartKubeProxy x)) | (s, None) \<Rightarrow> (s, True, None))) = (s', True, e)"
    using assms(2) unfolding EnsureKubeProxyLocalMode_def
    by (auto split: prod.splits sum.splits option.splits bool.splits)
  obtain t4 e4 where r: "kp_restart A t3 = (t4, e4)" by fastforce
  note L = proxy_lawsD(1)[OF assms(1) g] proxy_lawsD(2)[OF assms(1) p] proxy_lawsD(3)[OF assms(1) gd] proxy_lawsD(4)[OF assms(1) r]
  have "stored_settled A (stored t2)"
    using L(2) proxy_lawsD(5)[OF assms(1) enc] local_mode_result(1)[OF m] by (simp add: stored_settled_def)
  then show "stored_settled A (stored s')" "e = None \<Longrightarrow> restarts s' = Suc (restarts s)"
    using fin r L by (auto split: option.splits)
qed

lemma configure_settled:
  assumes "proxy_laws A stored restarts" "stored_settled A (stored s)"
  shows "stored (fst (((\<lambda>st. fst (configure_kube_proxy on A st)) ^^ k) (s, f))) = stored s \<and>
    restarts (fst (((\<lambda>st. fst (configure_kube_proxy on A st)) ^^ k) (s, f))) = restarts s"
proof (induction k)
  case (Suc k)
  obtain t g where t: "((\<lambda>st. fst (configure_kube_proxy on A st)) ^^ k) (s, f) = (t, g)" by fastforce
  obtain u c e where u: "EnsureKubeProxyLocalMode A t = (u, c, e)" by (metis prod_cases3)
  have st: "stored t = stored s" "restarts t = restarts s" using Suc.IH t by simp_all
  have "stored (fst (fst (configure_kube_proxy on A (t, g)))) = stored t \<and> restarts (fst (fst (configure_kube_proxy on A (t, g)))) = restarts t"
    using ensure_settled[OF assms(1) _ u] assms(2) st by (simp add: u configure_kube_proxy_def)
  then show ?case using st by (simp add: t)
qed simp


text \<open>Without an error the settings are in place, and kube-proxy was restarted if they were not before.\<close>

lemma ensure_done:
  assumes "proxy_laws A stored restarts" "EnsureKubeProxyLocalMode A s = (s', c, None)"
  shows "restarts s' = restarts s + (if c then 1 else 0) \<and> (c \<longrightarrow> stored_settled A (stored s')) \<and> (\<not> c \<longrightarrow> stored s' = stored s)"
proof (cases c)
  case True
  then show ?thesis using ensure_changed[OF assms(1), of s s' None] assms(2) by simp
next
  case False
  obtain t r where g: "kp_get_config A s = (t, r)" by fastforce
  have "s' = t" using assms(2) g False by (auto simp: EnsureKubeProxyLocalMode_def split: prod.splits sum.splits option.splits bool.splits)
  then show ?thesis using proxy_lawsD(1)[OF assms(1) g] False by simp
qed

text \<open>An empty document gives a nil map, and the first assignment panics.\<close>

lemma empty_config_panics:
  assumes "kp_get_config A s = (t, Inr data)" "data ''config.conf'' = Some raw" "kp_decode A raw = Inr None"
  shows "EnsureKubeProxyLocalMode A s = (t, False, Some NilConfigPanic)"
  using assms by (simp add: EnsureKubeProxyLocalMode_def)

subsection \<open>A concrete cluster\<close>

record proxy_world =
  pw_data :: "string \<rightharpoonup> string"
  pw_restarts :: nat
  pw_refusals :: nat

definition plain_config :: yaml_map where
  "plain_config = [(''clusterCIDR'', YStr ''10.0.0.0/16''), (''mode'', YStr ''iptables'')]"

text \<open>The server refuses the first \<open>pw_refusals\<close> restarts; its YAML library knows two documents.\<close>

definition proxy_world_api :: "proxy_world proxy_api" where
  "proxy_world_api = \<lparr>kp_get_config = (\<lambda>s. (s, Inr (pw_data s))), kp_put_config = (\<lambda>s d. (s\<lparr>pw_data := d\<rparr>, None)), kp_get_daemon = (\<lambda>s. (s, None)),
     kp_restart = (\<lambda>s. if pw_refusals s = 0 then (s\<lparr>pw_restarts := Suc (pw_restarts s)\<rparr>, None)
       else (s\<lparr>pw_refusals := pw_refusals s - 1\<rparr>, Some ApiFailed)),
     kp_decode = (\<lambda>t. if t = ''plain'' then Inr (Some plain_config) else if t = ''local'' then Inr (Some (snd (kubeProxyLocalMode plain_config)))
       else if t = [] then Inr None else Inl ''yaml''),
     kp_encode = (\<lambda>c. if c = snd (kubeProxyLocalMode plain_config) then Inr ''local'' else Inl ''yaml'')\<rparr>"

lemma proxy_world_laws: "proxy_laws proxy_world_api pw_data pw_restarts"
  by (auto simp: proxy_laws_def proxy_world_api_def split: if_splits)

definition refused_once :: "proxy_world \<times> bool \<times> proxy_error option" where
  "refused_once = EnsureKubeProxyLocalMode proxy_world_api \<lparr>pw_data = [''config.conf'' \<mapsto> ''plain''], pw_restarts = 0, pw_refusals = 1\<rparr>"

definition retried :: "proxy_world \<times> bool" where
  "retried = ((\<lambda>st. fst (configure_kube_proxy True proxy_world_api st)) ^^ 3) (fst refused_once, False)"


end
