(* ===== verification/Command_Line.thy ===== *)
theory Command_Line
  imports Core_Dns
begin

text \<open>The \<^verbatim>\<open>--controllers\<close> flag of the operator (cmd/main.go): which controllers the process runs.\<close>

datatype flag_error = UnknownController string | NoControllers

definition known_controllers :: "string list" where
  "known_controllers = [''networkremediation'', ''ipam'', ''cniresilience'']"

fun select_controllers :: "string list \<Rightarrow> string list \<Rightarrow> flag_error + string list" where
  "select_controllers out [] = Inr out"
| "select_controllers out (x # xs) =
     (let name = trim_space x in
      if name = [] then select_controllers out xs
      else if name = ''all'' then select_controllers (fold List.insert known_controllers out) xs
      else if name \<in> set known_controllers then select_controllers (List.insert name out) xs
      else Inl (UnknownController name))"

definition parseControllers :: "string \<Rightarrow> flag_error + string list" where
  "parseControllers v =
     (case select_controllers [] (split_on (CHR '','') v) of
        Inl e \<Rightarrow> Inl e | Inr out \<Rightarrow> if out = [] then Inl NoControllers else Inr out)"

definition flag_names :: "string \<Rightarrow> string set" where
  "flag_names v = trim_space ` set (split_on (CHR '','') v) - {[]}"

lemma select_controllers_result:
  "select_controllers acc xs = Inr out \<Longrightarrow>
   set out = set acc \<union> (trim_space ` set xs \<inter> set known_controllers) \<union> (if ''all'' \<in> trim_space ` set xs then set known_controllers else {}) \<and>
   trim_space ` set xs \<subseteq> {[], ''all''} \<union> set known_controllers"
proof (induction xs arbitrary: acc)
  case (Cons x xs)
  have known: "[] \<notin> set known_controllers" "''all'' \<notin> set known_controllers" by (simp_all add: known_controllers_def)
  consider "trim_space x = []" | "trim_space x = ''all''" | "trim_space x \<in> set known_controllers"
    using Cons.prems by (auto simp: Let_def split: if_splits)
  then show ?case
  proof cases
    case 1
    then show ?thesis using Cons.IH[of acc] Cons.prems known by auto
  next
    case 2
    have "set (fold List.insert ys zs) = set ys \<union> set zs" for ys zs :: "string list" by (induction ys arbitrary: zs) auto
    then show ?thesis using 2 Cons.IH[of "fold List.insert known_controllers acc"] Cons.prems known by auto
  next
    case 3
    then have "trim_space x \<noteq> []" "trim_space x \<noteq> ''all''" using known by metis+
    then show ?thesis using 3 Cons.IH[of "List.insert (trim_space x) acc"] Cons.prems by auto
  qed
qed simp

lemma select_controllers_error:
  "select_controllers acc xs = Inl e \<Longrightarrow> \<exists>n \<in> trim_space ` set xs - {[], ''all''} - set known_controllers. e = UnknownController n"
  by (induction xs arbitrary: acc) (fastforce simp: Let_def split: if_splits)+

text \<open>The flag selects the controllers that it names, or all of them, and fails exactly on an unknown name or when it names none.\<close>

lemma parseControllers_spec:
  "parseControllers v = Inr out \<Longrightarrow> set out = (if ''all'' \<in> flag_names v then set known_controllers else flag_names v) \<and>
     flag_names v \<subseteq> insert ''all'' (set known_controllers) \<and> out \<noteq> []"
  "(\<exists>out. parseControllers v = Inr out) \<longleftrightarrow> flag_names v \<noteq> {} \<and> flag_names v \<subseteq> insert ''all'' (set known_controllers)"
proof -
  have nil: "[] \<notin> set known_controllers" and ne: "known_controllers \<noteq> []" by (simp_all add: known_controllers_def)
  let ?xs = "split_on (CHR '','') v"
  have ok: "set out = (if ''all'' \<in> flag_names v then set known_controllers else flag_names v) \<and>
      flag_names v \<subseteq> insert ''all'' (set known_controllers)" if "select_controllers [] ?xs = Inr out" for out
  proof -
    define A where "A = trim_space ` set ?xs"
    have r: "set out = (A \<inter> set known_controllers) \<union> (if ''all'' \<in> A then set known_controllers else {})"
      "A \<subseteq> {[], ''all''} \<union> set known_controllers" using select_controllers_result[OF that] by (simp_all add: A_def)
    have F: "flag_names v = A - {[]}" by (simp add: flag_names_def A_def)
    show ?thesis
    proof (cases "''all'' \<in> A")
      case True
      then have "''all'' \<in> flag_names v" unfolding F by blast
      then show ?thesis using True r F by auto
    next
      case False
      then have "''all'' \<notin> flag_names v" unfolding F by blast
      moreover have "A \<inter> set known_controllers = A - {[]}" using r(2) False nil by blast
      ultimately show ?thesis using False r F by auto
    qed
  qed
  show "parseControllers v = Inr out \<Longrightarrow> set out = (if ''all'' \<in> flag_names v then set known_controllers else flag_names v) \<and>
     flag_names v \<subseteq> insert ''all'' (set known_controllers) \<and> out \<noteq> []"
    using ok by (auto simp: parseControllers_def split: sum.splits if_splits)
  show "(\<exists>out. parseControllers v = Inr out) \<longleftrightarrow> flag_names v \<noteq> {} \<and> flag_names v \<subseteq> insert ''all'' (set known_controllers)"
  proof (cases "select_controllers [] ?xs")
    case (Inl e)
    have "\<not> flag_names v \<subseteq> insert ''all'' (set known_controllers)"
      using select_controllers_error[OF Inl] by (auto simp: flag_names_def)
    then show ?thesis using Inl by (simp add: parseControllers_def)
  next
    case (Inr out)
    have "out = [] \<longleftrightarrow> flag_names v = {}" using ok[OF Inr] ne by (auto split: if_splits)
    then show ?thesis using ok[OF Inr] Inr by (auto simp: parseControllers_def)
  qed
qed

end
