(* ===== verification/Spec2Isabelle.thy ===== *)
theory Spec2Isabelle
  imports Allocator_Props Pool_Props Cluster_Examples Resilience_Examples Module_Examples Sim_Props
    Kube_Proxy Command_Line
begin

text \<open>
  The Kubernetes operator in \<open>src/operator\<close> (Go) hands the addresses of an \<open>IPPool\<close> to the nodes of a cluster in
  power-of-two blocks. A controller plans which node owns which block and records every block as a \<open>NodeBlock\<close>
  object; an agent on every node turns the \<open>NodeBlock\<close>s into routes and into the CNI configuration of its node, and
  reports back in their status. The two sides share no memory: they meet only in the API server. This library models
  both sides, what they rely on, and their composition, and proves that no two nodes are ever given a common
  address, that a block is served only when it can be reached, and the contracts of the parts this rests on.
\<close>

text \<open>
  Theories and sources (below \<open>src/operator/internal/controller\<close>).

  \<^item> \<^verbatim>\<open>Prelude\<close>, \<^verbatim>\<open>Net_Addr\<close>: lists, sorting, decimal numbers; IPv4 addresses as 32-bit words, masks, CIDR text and its parser
    (the part of Go's \<open>net\<close> that the code uses).
  \<^item> \<^verbatim>\<open>Block_Tree\<close>, \<^verbatim>\<open>Allocator\<close>: \<open>ipam/buddy/allocator.go\<close>. A \<open>Block\<close> with its children is the datatype \<open>btree\<close>;
    a Go pointer to a block is its base and prefix length. The record \<open>allocator\<close> has the tree, the free index, the
    quarantine set and the clock; there is one definition per method. \<^verbatim>\<open>Allocator_Inv\<close> and \<^verbatim>\<open>Allocator_Ops\<close>
    prove the representation invariant and the steps of every operation, \<^verbatim>\<open>Allocator_Spec\<close> every reachable state,
    \<^verbatim>\<open>Allocator_Props\<close> the properties.
  \<^item> \<^verbatim>\<open>Pool\<close>, \<^verbatim>\<open>Pool_Inv\<close>, \<^verbatim>\<open>Pool_Props\<close>: \<open>ipam/buddy/pool.go\<close>, several allocators and demands larger than a block.
  \<^item> \<^verbatim>\<open>Aggregate\<close>: \<open>ipam/buddy/aggregate.go\<close> and \<open>halves.go\<close>.
  \<^item> \<^verbatim>\<open>Ipam_Types\<close>: the API types of \<open>api/v1alpha1/ipam_types.go\<close> and their readers in \<open>ipam/plan.go\<close>.
  \<^item> \<^verbatim>\<open>Sizing\<close>, \<^verbatim>\<open>Plan\<close>: \<open>ipam/sizing.go\<close> and \<open>ipam/plan.go\<close>, the pure planner. \<^verbatim>\<open>Plan_Inv\<close>, \<^verbatim>\<open>Plan_Props\<close>,
    \<^verbatim>\<open>Shrink_Props\<close>, \<^verbatim>\<open>Rebuild\<close>: what a plan adds, drains and withdraws, and that rebuilding the pool from the
    \<open>NodeBlock\<close>s recovers exactly the blocks they record. \<^verbatim>\<open>Plan_Examples\<close>: concrete plans.
  \<^item> \<^verbatim>\<open>Kube_Api\<close>, \<^verbatim>\<open>Controller\<close>: the API server as a record of operations, and \<open>ipam/ipam_controller.go\<close>.
    \<^verbatim>\<open>Controller_Inv\<close>, \<^verbatim>\<open>Controller_Props\<close>: a pass keeps the blocks apart. \<^verbatim>\<open>Controller_Examples\<close>: passes on a concrete server.
  \<^item> \<^verbatim>\<open>Agent_State\<close>, \<^verbatim>\<open>Agent_Host\<close>, \<^verbatim>\<open>Agent\<close>: \<open>ipam/agent/state.go\<close>, \<open>host.go\<close> with \<open>nat.go\<close>, and \<open>agent.go\<close>.
    \<^verbatim>\<open>Agent_Routes\<close>: the desired routes. \<^verbatim>\<open>Agent_Laws\<close>: what the host and the API server promise.
    \<^verbatim>\<open>Agent_Sync_Routes\<close>: the routing table during a pass. \<^verbatim>\<open>Agent_Inv\<close>, \<^verbatim>\<open>Agent_Pass\<close>, \<^verbatim>\<open>Agent_Own\<close>, \<^verbatim>\<open>Agent_Props\<close>: the
    life cycle of blocks and what each part of a pass may touch. \<^verbatim>\<open>Agent_Config\<close>: configuration against status.
    \<^verbatim>\<open>Agent_Leases\<close>: lease files and rule lines. \<^verbatim>\<open>Agent_World\<close>, \<^verbatim>\<open>Agent_Examples\<close>: a concrete host and passes on it.
  \<^item> \<^verbatim>\<open>Cluster\<close>, \<^verbatim>\<open>Cluster_Examples\<close>: controller, agents and other writers interleaved.
\<close>

text \<open>
  What is a parameter. The API server (\<open>api\<close>), and on a node the informer cache, the routing table, the file
  system, iptables, the clock and client-go's \<open>RetryOnConflict\<close> (\<open>host\<close>), are records of functions on an abstract world
  state, and every theorem over them holds for all worlds that meet the laws \<open>kube_laws\<close> and \<open>host_laws\<close>.
  The laws are what these services document: a call either has its effect or not, its answer may be lost, an update
  can be refused, a rename replaces a file at once, a list returns what is stored unless it is a cache. They do not say
  that calls succeed. The concrete server of \<^verbatim>\<open>Kube_Api\<close> and the concrete host of \<^verbatim>\<open>Agent_World\<close> meet them, and the
  witnesses run on these.

  Integers. Addresses and sizes of blocks are words of their Go width; counts, percentages, times and durations are
  unbounded, since the API bounds them far below overflow. Where the width matters (masks, block ends, prefix
  arithmetic) the words are kept.

  Loops. Every loop is structural or has a measure, except two with the bounds of the source: \<open>growNode\<close> runs its
  eight steps, and \<open>requiredCapacity\<close> searches an interval that \<open>requiredCapacity_least\<close> shows to be long enough.

  Atomicity. In \<^verbatim>\<open>Cluster\<close> a pass of the controller or of an agent is one step; other writers act between passes.
  Since all writes carry resource versions and caches may be arbitrarily stale, a pass can see old
  data, but the interleaving of single API calls of two passes is not modelled.
\<close>

text \<open>
  Not modelled. Log lines, events, metrics and error texts; mutexes (every method holds its lock throughout); IPv6
  text, which does not parse here; the watch plumbing (\<open>SetupWithManager\<close>, the agent's \<open>Run\<close> loop), which only decides when
  a pass runs; \<open>agent/routes_linux.go\<close>, a binding to netlink; \<open>ipam/planapi.go\<close>, \<open>ipam/kubeproxy.go\<close>,
  \<open>ipam/sim\<close> and \<open>ipam/monitor\<close>, which are a read-only HTTP view, an optional installation step, a simulator for
  experiments and monitoring stubs; the commands under \<open>cmd\<close>, which parse flags and wire the parts; and
  \<open>zz_generated.deepcopy.go\<close>, which is generated.
\<close>

end
